(* ===== verification/WS_Prelude.thy ===== *)
theory WS_Prelude
  imports Main "HOL-Library.Word" "HOL-Library.Signed_Division"
    "HOL-Library.List_Lexorder" "HOL-Library.Char_ord"
begin

text \<open>
  Shared vocabulary of the development: the fixed-width integers of the C++ code written
  as integers with an explicit wrap-around, C++'s truncating division, the result type of
  \<open>include/WaterStructure/result.hpp\<close>, and the two containers the code uses for keyed
  data. \<open>std::map\<close> is a strictly sorted association list (\<open>omap\<close>), because the code
  iterates it in key order; \<open>std::unordered_map\<close> is an association list with distinct
  keys in insertion order (\<open>umap\<close>), or a HOL map where its iteration order is never
  looked at. Both containers interpret the interface \<open>finite_map\<close>, whose lemmas the
  components use.

  Signed overflow is undefined behaviour in C++. The model writes the two's complement
  wrap at every signed operation that could leave its width; theorems that depend on the
  mathematical value state the range they need.
\<close>

named_theorems wrap_simps \<open>values that already fit their width\<close>
named_theorems range_simps \<open>the ranges of the fixed-width integer types\<close>

section \<open>Fixed-width integers\<close>

definition s8 :: "int \<Rightarrow> int" where "s8 n = (n + 128) mod 256 - 128"
definition s16 :: "int \<Rightarrow> int" where "s16 n = (n + 32768) mod 65536 - 32768"
definition s32 :: "int \<Rightarrow> int" where "s32 n = (n + 2147483648) mod 4294967296 - 2147483648"
definition s64 :: "int \<Rightarrow> int" where
  "s64 n = (n + 9223372036854775808) mod 18446744073709551616 - 9223372036854775808"
definition u8 :: "int \<Rightarrow> int" where "u8 n = n mod 256"
definition u16 :: "int \<Rightarrow> int" where "u16 n = n mod 65536"
definition u32 :: "int \<Rightarrow> int" where "u32 n = n mod 4294967296"
definition u64 :: "int \<Rightarrow> int" where "u64 n = n mod 18446744073709551616"

definition INT32_MIN :: int where "INT32_MIN = - 2147483648"
definition INT32_MAX :: int where "INT32_MAX = 2147483647"
definition INT64_MIN :: int where "INT64_MIN = - 9223372036854775808"
definition INT64_MAX :: int where "INT64_MAX = 9223372036854775807"
definition UINT32_MAX :: int where "UINT32_MAX = 4294967295"
definition UINT64_MAX :: int where "UINT64_MAX = 18446744073709551615"

definition in_s32 :: "int \<Rightarrow> bool" where "in_s32 n \<longleftrightarrow> INT32_MIN \<le> n \<and> n \<le> INT32_MAX"
definition in_s64 :: "int \<Rightarrow> bool" where "in_s64 n \<longleftrightarrow> INT64_MIN \<le> n \<and> n \<le> INT64_MAX"

lemmas limits [range_simps] = INT32_MIN_def INT32_MAX_def INT64_MIN_def INT64_MAX_def
  UINT32_MAX_def UINT64_MAX_def in_s32_def in_s64_def

lemma s32_id [wrap_simps]: "in_s32 n \<Longrightarrow> s32 n = n"
  by (simp add: s32_def range_simps)

lemma s64_id [wrap_simps]: "in_s64 n \<Longrightarrow> s64 n = n"
  by (simp add: s64_def range_simps)

lemma in_s32_s32 [simp]: "in_s32 (s32 n)"
  using pos_mod_sign [of 4294967296 "n + 2147483648"] pos_mod_bound [of 4294967296 "n + 2147483648"]
  by (simp add: s32_def range_simps)

lemma in_s64_s64 [simp]: "in_s64 (s64 n)"
  using pos_mod_sign [of 18446744073709551616 "n + 9223372036854775808"]
    pos_mod_bound [of 18446744073709551616 "n + 9223372036854775808"]
  by (simp add: s64_def range_simps)

lemma in_s32_in_s64: "in_s32 n \<Longrightarrow> in_s64 n"
  by (simp add: range_simps)

lemma s32_u32 [simp]: "s32 (u32 n) = s32 n"
  by (simp add: s32_def u32_def mod_simps)

lemma u32_s32 [simp]: "u32 (s32 n) = u32 n"
  by (simp add: s32_def u32_def mod_simps)

lemma s32_0 [simp]: "s32 0 = 0"
  by (simp add: s32_def)

section \<open>Truncating division\<close>

text \<open>
  C++'s \<open>/\<close> and \<open>%\<close> truncate towards zero; they are the library's \<open>sdiv\<close> and
  \<open>smod\<close> on \<open>int\<close>.
\<close>

lemma sdiv_pos: "0 < d \<Longrightarrow> (a::int) sdiv d = (if 0 \<le> a then a div d else - ((- a) div d))"
  by (cases a "0::int" rule: linorder_cases) (simp_all add: signed_divide_int_def)

lemma smod_pos:
  "0 < d \<Longrightarrow> (a::int) smod d = (if 0 \<le> a then a mod d else - ((- a) mod d))"
  by (cases a "0::int" rule: linorder_cases) (simp_all add: signed_modulo_int_def)

section \<open>Results\<close>

text \<open>
  \<open>Result<T>\<close> holds either an error text or a value. The error types of the components
  replace the texts, one constructor for each text the code builds.
\<close>

type_synonym ('e, 'a) result = "'e + 'a"

fun and_then :: "('e, 'a) result \<Rightarrow> ('a \<Rightarrow> ('e, 'b) result) \<Rightarrow> ('e, 'b) result" where
  "and_then (Inl e) f = Inl e"
| "and_then (Inr a) f = f a"

lemma and_then_eq_Inr_iff: "and_then m f = Inr b \<longleftrightarrow> (\<exists>a. m = Inr a \<and> f a = Inr b)"
  by (cases m) auto

lemma and_then_eq_Inl_iff:
  "and_then m f = Inl e \<longleftrightarrow> m = Inl e \<or> (\<exists>a. m = Inr a \<and> f a = Inl e)"
  by (cases m) auto

lemma and_then_cong [fundef_cong]:
  assumes "m = m'" and "\<And>a. m' = Inr a \<Longrightarrow> f a = f' a"
  shows "and_then m f = and_then m' f'"
  using assms by (cases m') auto

lemma and_then_assoc:
  "and_then (and_then m f) g = and_then m (\<lambda>a. and_then (f a) g)"
  by (cases m) auto

fun is_ok :: "('e, 'a) result \<Rightarrow> bool" where
  "is_ok (Inl e) = False"
| "is_ok (Inr a) = True"

lemma is_ok_iff: "is_ok r \<longleftrightarrow> (\<exists>a. r = Inr a)"
  by (cases r) auto

text \<open>A loop whose body may return an error: the first error ends the loop.\<close>

fun fold_result :: "('a \<Rightarrow> 's \<Rightarrow> ('e, 's) result) \<Rightarrow> 'a list \<Rightarrow> 's \<Rightarrow> ('e, 's) result" where
  "fold_result f [] s = Inr s"
| "fold_result f (x # xs) s = and_then (f x s) (fold_result f xs)"

lemma fold_result_cong [fundef_cong]:
  assumes "xs = ys" "s = t" and "\<And>x s. x \<in> set ys \<Longrightarrow> f x s = g x s"
  shows "fold_result f xs s = fold_result g ys t"
  using assms
proof (induction ys arbitrary: xs s t)
  case Nil
  then show ?case by simp
next
  case (Cons y ys)
  then show ?case by (cases "g y t") auto
qed

lemma fold_result_append:
  "fold_result f (xs @ ys) s = and_then (fold_result f xs s) (fold_result f ys)"
proof (induction xs arbitrary: s)
  case Nil
  then show ?case by simp
next
  case (Cons x xs)
  show ?case by (cases "f x s") (simp_all add: Cons.IH)
qed

lemma fold_result_map: "fold_result f (map g xs) s = fold_result (\<lambda>x. f (g x)) xs s"
proof (induction xs arbitrary: s)
  case (Cons x xs)
  then show ?case by (cases "f (g x) s") simp_all
qed simp

lemma fold_result_concat:
  "fold_result f (concat xss) s = fold_result (\<lambda>xs. fold_result f xs) xss s"
proof (induction xss arbitrary: s)
  case (Cons xs xss)
  then show ?case by (cases "fold_result f xs s") (simp_all add: fold_result_append)
qed simp

lemma fold_result_concat_map:
  "fold_result (\<lambda>x. fold_result g (f x)) xs = fold_result g (concat (map f xs))"
  by (rule ext) (simp add: fold_result_concat fold_result_map)

lemma fold_result_total:
  "(\<And>x s. x \<in> set xs \<Longrightarrow> f x s = Inr (g x s)) \<Longrightarrow> fold_result f xs s = Inr (fold g xs s)"
  by (induction xs arbitrary: s) auto

lemma fold_result_invariant:
  assumes "fold_result f xs s = Inr t" and "P s"
    and "\<And>x s s'. x \<in> set xs \<Longrightarrow> P s \<Longrightarrow> f x s = Inr s' \<Longrightarrow> P s'"
  shows "P t"
  using assms
proof (induction xs arbitrary: s)
  case Nil
  then show ?case by simp
next
  case (Cons x xs)
  from Cons.prems(1) obtain s' where s': "f x s = Inr s'" "fold_result f xs s' = Inr t"
    by (auto simp: and_then_eq_Inr_iff)
  with Cons.prems have "P s'" by (meson list.set_intros(1))
  with Cons.IH s'(2) Cons.prems(3) show ?case by (meson list.set_intros(2))
qed

section \<open>Sums over the threads of a machine\<close>

lemma sum_list_update:
  fixes f :: "'b \<Rightarrow> 'a::comm_monoid_add"
  assumes "i < length xs"
  shows "sum_list (map f (xs[i := v])) + f (xs ! i) = sum_list (map f xs) + f v"
  using assms
proof (induction xs arbitrary: i)
  case (Cons x xs)
  then show ?case by (cases i) (simp_all add: ac_simps)
qed simp

section \<open>The container interface\<close>

text \<open>
  What the components rely on of a keyed container: what a lookup returns after each
  update, and that the list of entries is the graph of the lookup with each key once.
\<close>

locale finite_map =
  fixes emp :: "'m"
    and look :: "'m \<Rightarrow> 'k \<Rightarrow> 'v option"
    and put :: "'k \<Rightarrow> 'v \<Rightarrow> 'm \<Rightarrow> 'm"
    and del :: "'k \<Rightarrow> 'm \<Rightarrow> 'm"
    and ents :: "'m \<Rightarrow> ('k \<times> 'v) list"
    and ok :: "'m \<Rightarrow> bool"
  assumes ok_emp: "ok emp"
    and ok_put: "ok m \<Longrightarrow> ok (put k v m)"
    and ok_del: "ok m \<Longrightarrow> ok (del k m)"
    and look_emp: "look emp k = None"
    and look_put: "ok m \<Longrightarrow> look (put k v m) k' = (if k' = k then Some v else look m k')"
    and look_del: "ok m \<Longrightarrow> look (del k m) k' = (if k' = k then None else look m k')"
    and ents_look: "ok m \<Longrightarrow> (k, v) \<in> set (ents m) \<longleftrightarrow> look m k = Some v"
    and ents_distinct: "ok m \<Longrightarrow> distinct (map fst (ents m))"
begin

lemma map_of_ents:
  assumes "ok m"
  shows "map_of (ents m) k = look m k"
proof (cases "look m k")
  case None
  then have "k \<notin> fst ` set (ents m)"
    using ents_look [of m k] assms by force
  with None show ?thesis by (simp add: map_of_eq_None_iff)
next
  case (Some v)
  with ents_look [of m k v] ents_distinct [of m] assms show ?thesis by simp
qed

lemma count_ents:
  assumes "ok m"
  shows "length (filter (\<lambda>(k, v). P k v) (ents m)) = card {k. \<exists>v. look m k = Some v \<and> P k v}"
proof -
  let ?fs = "filter (\<lambda>(k, v). P k v) (ents m)"
  have d: "distinct (map fst ?fs)"
    using ents_distinct [OF assms] by (rule distinct_map_filter)
  have "length ?fs = card (set (map fst ?fs))"
    using distinct_card [OF d] by simp
  also have "set (map fst ?fs) = {k. \<exists>v. look m k = Some v \<and> P k v}"
    by (force simp: ents_look [OF assms])
  finally show ?thesis .
qed

lemma finite_look:
  assumes "ok m"
  shows "finite {k. \<exists>v. look m k = Some v \<and> P k v}"
proof (rule finite_subset)
  show "{k. \<exists>v. look m k = Some v \<and> P k v} \<subseteq> fst ` set (ents m)"
    using ents_look [OF assms] by force
qed simp

lemma count_put:
  assumes "ok m"
  shows "length (filter (\<lambda>(k, v). P k v) (ents (put k v m))) +
      (case look m k of Some w \<Rightarrow> of_bool (P k w) | None \<Rightarrow> 0) =
    length (filter (\<lambda>(k, v). P k v) (ents m)) + of_bool (P k v)"
proof -
  let ?A = "{j. j \<noteq> k \<and> (\<exists>w. look m j = Some w \<and> P j w)}"
  have fin: "finite ?A"
    by (rule finite_subset [OF _ finite_look [OF assms, of P]]) auto
  have new: "{j. \<exists>w. look (put k v m) j = Some w \<and> P j w} = (if P k v then insert k ?A else ?A)"
    by (auto simp: look_put [OF assms])
  have old: "{j. \<exists>w. look m j = Some w \<and> P j w} =
      (case look m k of Some w \<Rightarrow> if P k w then insert k ?A else ?A | None \<Rightarrow> ?A)"
  proof (cases "look m k")
    case None
    then show ?thesis by force
  next
    case (Some w)
    then show ?thesis by (cases "P k w") force+
  qed
  show ?thesis
    unfolding count_ents [OF assms] count_ents [OF ok_put [OF assms]] new old
    using fin by (auto split: option.split)
qed

lemma set_ents_put:
  assumes "ok m"
  shows "set (ents (put k v m)) = insert (k, v) {e \<in> set (ents m). fst e \<noteq> k}"
proof -
  have "(j, w) \<in> set (ents (put k v m)) \<longleftrightarrow> (j, w) \<in> insert (k, v) {e \<in> set (ents m). fst e \<noteq> k}" for j w
    using assms by (auto simp: ents_look ok_put look_put)
  then show ?thesis by auto
qed

lemma put_fold_look:
  assumes "ok m"
  shows "ok (fold (\<lambda>(k, v). put k v) kvs m) \<and>
    look (fold (\<lambda>(k, v). put k v) kvs m) j =
      (case map_of (rev kvs) j of Some v \<Rightarrow> Some v | None \<Rightarrow> look m j)"
  using assms
proof (induction kvs arbitrary: m)
  case Nil
  then show ?case by simp
next
  case (Cons kv kvs)
  obtain k v where kv: "kv = (k, v)" by force
  from Cons.IH [OF ok_put [OF Cons.prems]] show ?case
    by (auto simp: kv look_put [OF Cons.prems] map_add_def split: option.split)
qed

end

section \<open>Ordered maps\<close>

type_synonym ('k, 'v) omap = "('k \<times> 'v) list"

definition omap_ok :: "('k::linorder, 'v) omap \<Rightarrow> bool" where
  "omap_ok m \<longleftrightarrow> sorted_wrt (<) (map fst m)"

definition omap_find :: "('k::linorder, 'v) omap \<Rightarrow> 'k \<Rightarrow> 'v option" where
  "omap_find m k = map_of m k"

fun omap_put :: "'k::linorder \<Rightarrow> 'v \<Rightarrow> ('k, 'v) omap \<Rightarrow> ('k, 'v) omap" where
  "omap_put k v [] = [(k, v)]"
| "omap_put k v ((k', v') # m) =
     (if k < k' then (k, v) # (k', v') # m
      else if k = k' then (k, v) # m
      else (k', v') # omap_put k v m)"

definition omap_erase :: "'k::linorder \<Rightarrow> ('k, 'v) omap \<Rightarrow> ('k, 'v) omap" where
  "omap_erase k m = filter (\<lambda>kv. fst kv \<noteq> k) m"

text \<open>\<open>emplace\<close> and \<open>try_emplace\<close>: an existing entry stays.\<close>

definition omap_emplace :: "'k::linorder \<Rightarrow> 'v \<Rightarrow> ('k, 'v) omap \<Rightarrow> ('k, 'v) omap" where
  "omap_emplace k v m = (case omap_find m k of Some _ \<Rightarrow> m | None \<Rightarrow> omap_put k v m)"

text \<open>The entries from \<open>lower_bound(lo)\<close> up to \<open>upper_bound(hi)\<close>.\<close>

definition omap_range :: "'k::linorder \<Rightarrow> 'k \<Rightarrow> ('k, 'v) omap \<Rightarrow> ('k \<times> 'v) list" where
  "omap_range lo hi m = takeWhile (\<lambda>kv. fst kv \<le> hi) (dropWhile (\<lambda>kv. fst kv < lo) m)"

lemma set_fst_omap_put: "fst ` set (omap_put k v m) = insert k (fst ` set m)"
  by (induction m rule: omap_put.induct) auto

lemma omap_ok_put: "omap_ok m \<Longrightarrow> omap_ok (omap_put k v m)"
proof (induction k v m rule: omap_put.induct)
  case (1 k v)
  then show ?case by (simp add: omap_ok_def)
next
  case (2 k v k' v' m)
  then show ?case
    using set_fst_omap_put [of k v m] by (auto simp: omap_ok_def)
qed

lemma omap_ok_distinct: "omap_ok m \<Longrightarrow> distinct (map fst m)"
  using strict_sorted_iff [of "map fst m"] by (simp add: omap_ok_def)

lemma omap_find_put:
  "omap_ok m \<Longrightarrow> omap_find (omap_put k v m) j = (if j = k then Some v else omap_find m j)"
proof (induction k v m rule: omap_put.induct)
  case (1 k v)
  then show ?case by (simp add: omap_find_def)
next
  case (2 k v k' v' m)
  have "omap_ok m" using "2.prems" by (simp add: omap_ok_def)
  with "2.IH" show ?case by (auto simp: omap_find_def)
qed

lemma omap_ok_filter: "omap_ok m \<Longrightarrow> omap_ok (filter P m)"
  by (induction m) (auto simp: omap_ok_def)

lemma omap_find_erase: "omap_find (omap_erase k m) j = (if j = k then None else omap_find m j)"
  unfolding omap_find_def omap_erase_def
  by (induction m) (auto simp: map_of_eq_None_iff)

lemma omap_find_iff: "omap_ok m \<Longrightarrow> omap_find m k = Some v \<longleftrightarrow> (k, v) \<in> set m"
  unfolding omap_find_def by (rule map_of_eq_Some_iff) (rule omap_ok_distinct)

interpretation om: finite_map
  "[] :: ('k::linorder, 'v) omap" omap_find omap_put omap_erase "\<lambda>m. m" omap_ok
  by unfold_locales (simp_all add: omap_find_put omap_ok_put omap_find_erase omap_find_iff
      omap_ok_distinct, simp_all add: omap_ok_def omap_find_def omap_erase_def
      omap_ok_filter [unfolded omap_ok_def])

lemma omap_range_set:
  "omap_ok m \<Longrightarrow> set (omap_range lo hi m) = {(k, v). (k, v) \<in> set m \<and> lo \<le> k \<and> k \<le> hi}"
proof (induction m)
  case Nil
  then show ?case by (simp add: omap_range_def)
next
  case (Cons kv m)
  obtain k v where kv: "kv = (k, v)" by force
  from Cons.prems have ok: "omap_ok m" and le: "\<forall>kv' \<in> set m. k < fst kv'"
    by (auto simp: omap_ok_def kv)
  show ?case
  proof (cases "k < lo")
    case True
    with Cons.IH [OF ok] show ?thesis by (auto simp: omap_range_def kv)
  next
    case False
    have stay: "dropWhile (\<lambda>kv. fst kv < lo) m = m"
    proof (cases m)
      case (Cons a list)
      with le have "k < fst a" by auto
      with False Cons show ?thesis by (auto simp: dropWhile_eq_Cons_conv)
    qed simp
    show ?thesis
    proof (cases "k \<le> hi")
      case True
      with False Cons.IH [OF ok] stay show ?thesis by (auto simp: omap_range_def kv)
    next
      case F2: False
      have "omap_range lo hi (kv # m) = []" using False F2 by (simp add: omap_range_def kv)
      moreover have "\<forall>(k', v') \<in> set m. \<not> k' \<le> hi" using le F2 by fastforce
      ultimately show ?thesis using F2 by (auto simp: kv)
    qed
  qed
qed

lemma set_takeWhile_subset: "set (takeWhile P xs) \<subseteq> set xs"
  by (auto dest: set_takeWhileD)

lemma omap_range_sorted: "omap_ok m \<Longrightarrow> omap_ok (omap_range lo hi m)"
  unfolding omap_range_def omap_ok_def
  by (simp add: sorted_wrt_map sorted_wrt_takeWhile sorted_wrt_dropWhile)

section \<open>Unordered maps\<close>

type_synonym ('k, 'v) umap = "('k \<times> 'v) list"

definition umap_ok :: "('k, 'v) umap \<Rightarrow> bool" where
  "umap_ok m \<longleftrightarrow> distinct (map fst m)"

fun umap_put :: "'k \<Rightarrow> 'v \<Rightarrow> ('k, 'v) umap \<Rightarrow> ('k, 'v) umap" where
  "umap_put k v [] = [(k, v)]"
| "umap_put k v ((k', v') # m) =
     (if k = k' then (k, v) # m else (k', v') # umap_put k v m)"

definition umap_erase :: "'k \<Rightarrow> ('k, 'v) umap \<Rightarrow> ('k, 'v) umap" where
  "umap_erase k m = filter (\<lambda>kv. fst kv \<noteq> k) m"

definition umap_emplace :: "'k \<Rightarrow> 'v \<Rightarrow> ('k, 'v) umap \<Rightarrow> ('k, 'v) umap" where
  "umap_emplace k v m = (case map_of m k of Some _ \<Rightarrow> m | None \<Rightarrow> m @ [(k, v)])"

lemma set_fst_umap_put: "fst ` set (umap_put k v m) = insert k (fst ` set m)"
  by (induction m rule: umap_put.induct) auto

lemma umap_ok_put: "umap_ok m \<Longrightarrow> umap_ok (umap_put k v m)"
proof (induction k v m rule: umap_put.induct)
  case (1 k v)
  then show ?case by (simp add: umap_ok_def)
next
  case (2 k v k' v' m)
  then show ?case
    using set_fst_umap_put [of k v m] by (auto simp: umap_ok_def)
qed

lemma map_of_umap_put: "map_of (umap_put k v m) j = (if j = k then Some v else map_of m j)"
  by (induction k v m rule: umap_put.induct) auto

lemma map_of_umap_erase: "map_of (umap_erase k m) j = (if j = k then None else map_of m j)"
  unfolding umap_erase_def by (induction m) (auto simp: map_of_eq_None_iff)

interpretation um: finite_map
  "[] :: ('k, 'v) umap" map_of umap_put umap_erase "\<lambda>m. m" umap_ok
  by unfold_locales (simp_all add: umap_ok_put map_of_umap_put map_of_umap_erase map_of_eq_Some_iff
      umap_ok_def [symmetric], simp_all add: umap_ok_def umap_erase_def distinct_map_filter
      map_of_eq_Some_iff)

lemma umap_ok_emplace: "umap_ok m \<Longrightarrow> umap_ok (umap_emplace k v m)"
  by (auto simp: umap_emplace_def umap_ok_def map_of_eq_None_iff split: option.split)

lemma map_of_umap_emplace:
  "map_of (umap_emplace k v m) j =
    (if j = k then Some (case map_of m k of Some w \<Rightarrow> w | None \<Rightarrow> v) else map_of m j)"
  by (auto simp: umap_emplace_def map_add_def split: option.split)

end
