(* ===== verification/WS_Types.thy ===== *)
theory WS_Types
  imports WS_Prelude "HOL-Library.Product_Lexorder"
begin

unbundle bit_operations_syntax

text \<open>
  The data model of \<open>include/WaterStructure/types.hpp\<close> and the coordinate arithmetic of
  \<open>coordinates.hpp\<close>: positions, sizes, block states, sub-chunks, the floor division that
  maps world coordinates to chunk columns and sub-chunks, and the hash functions of the
  unordered maps. The lemmas give the arithmetic its mathematical reading inside the
  \<open>int32\<close> range and show where the guards against overflow are enough.
\<close>

section \<open>Positions\<close>

datatype block_pos = BlockPos (pos_x: int) (pos_y: int) (pos_z: int)
datatype chunk_pos = ChunkPos (chunk_x: int) (chunk_z: int)
datatype sub_chunk_pos = SubChunkPos (sub_x: int) (sub_y: int) (sub_z: int)

text \<open>\<open>operator<=>\<close> is defaulted: the members are compared in their order.\<close>

instantiation block_pos :: linorder
begin

definition less_eq_block_pos :: "block_pos \<Rightarrow> block_pos \<Rightarrow> bool" where
  "less_eq_block_pos a b \<longleftrightarrow> (pos_x a, pos_y a, pos_z a) \<le> (pos_x b, pos_y b, pos_z b)"

definition less_block_pos :: "block_pos \<Rightarrow> block_pos \<Rightarrow> bool" where
  "less_block_pos a b \<longleftrightarrow> (pos_x a, pos_y a, pos_z a) < (pos_x b, pos_y b, pos_z b)"

instance
  by standard (auto simp: less_eq_block_pos_def less_block_pos_def block_pos.expand)

end

instantiation chunk_pos :: linorder
begin

definition less_eq_chunk_pos :: "chunk_pos \<Rightarrow> chunk_pos \<Rightarrow> bool" where
  "less_eq_chunk_pos a b \<longleftrightarrow> (chunk_x a, chunk_z a) \<le> (chunk_x b, chunk_z b)"

definition less_chunk_pos :: "chunk_pos \<Rightarrow> chunk_pos \<Rightarrow> bool" where
  "less_chunk_pos a b \<longleftrightarrow> (chunk_x a, chunk_z a) < (chunk_x b, chunk_z b)"

instance
  by standard (auto simp: less_eq_chunk_pos_def less_chunk_pos_def chunk_pos.expand)

end

lemma block_pos_le [simp]:
  "BlockPos a b c \<le> BlockPos a' b' c' \<longleftrightarrow> a < a' \<or> a = a' \<and> (b < b' \<or> b = b' \<and> c \<le> c')"
  by (auto simp: less_eq_block_pos_def)

lemma block_pos_less [simp]:
  "BlockPos a b c < BlockPos a' b' c' \<longleftrightarrow> a < a' \<or> a = a' \<and> (b < b' \<or> b = b' \<and> c < c')"
  by (auto simp: less_block_pos_def)

section \<open>Sizes\<close>

record wsize =
  width :: int
  height :: int
  len :: int

definition chunk_x_count :: "wsize \<Rightarrow> int" where
  "chunk_x_count s =
    (if width s \<le> 0 then 0
     else s32 (width s sdiv 16 + (if width s smod 16 \<noteq> 0 then 1 else 0)))"

definition chunk_z_count :: "wsize \<Rightarrow> int" where
  "chunk_z_count s =
    (if len s \<le> 0 then 0
     else s32 (len s sdiv 16 + (if len s smod 16 \<noteq> 0 then 1 else 0)))"

definition volume :: "wsize \<Rightarrow> int" where
  "volume s =
    (if width s \<le> 0 \<or> height s \<le> 0 \<or> len s \<le> 0 then 0
     else
       let w = width s; h = height s; l = len s
       in if INT64_MAX sdiv h < w then INT64_MAX
          else
            let wh = s64 (w * h)
            in if INT64_MAX sdiv l < wh then INT64_MAX else s64 (wh * l))"

definition size_in_range :: "wsize \<Rightarrow> bool" where
  "size_in_range s \<longleftrightarrow> in_s32 (width s) \<and> in_s32 (height s) \<and> in_s32 (len s)"

section \<open>Block states\<close>

datatype block_state_value_type = VByte | VShort | VInt | VLong | VString

fun value_type_index :: "block_state_value_type \<Rightarrow> nat" where
  "value_type_index VByte = 0"
| "value_type_index VShort = 1"
| "value_type_index VInt = 2"
| "value_type_index VLong = 3"
| "value_type_index VString = 4"

record block_property =
  prop_name :: string
  prop_type :: block_state_value_type
  prop_value :: string

record block_state =
  state_name :: string
  states :: "block_property list"
  state_version :: int

lemma value_type_index_inj: "value_type_index a = value_type_index b \<longleftrightarrow> a = b"
  by (cases a; cases b) simp_all

type_synonym nbt_payload = "8 word list"
type_synonym runtime_id = nat

record block_entity =
  entity_pos :: block_pos
  entity_payload :: nbt_payload

section \<open>Chunks\<close>

text \<open>
  A \<open>BlockLayer\<close> is an array of 4096 runtime ids. It is a function here; that every
  index the code computes is below 4096 is a theorem (\<open>layer_index_bound\<close>).
\<close>

type_synonym block_layer = "nat \<Rightarrow> runtime_id"

datatype block_layer_layout = Internal | Native

record sub_chunk_data =
  layer0 :: block_layer
  layer1 :: block_layer

record chunk_data =
  sub_chunks :: "int \<rightharpoonup> sub_chunk_data"
  layout :: block_layer_layout

definition empty_sub_chunk :: sub_chunk_data where
  "empty_sub_chunk = \<lparr>layer0 = (\<lambda>_. 0), layer1 = (\<lambda>_. 0)\<rparr>"

definition empty_chunk :: chunk_data where
  "empty_chunk = \<lparr>sub_chunks = Map.empty, layout = Internal\<rparr>"

type_synonym chunk_map = "(chunk_pos, chunk_data) umap"
type_synonym nbt_chunk_map = "(chunk_pos, block_entity list) umap"

section \<open>Coordinates\<close>

definition kOverworldMinY :: int where "kOverworldMinY = - 64"

definition floor_div :: "int \<Rightarrow> int \<Rightarrow> int" where
  "floor_div value divisor =
    (let quotient = s32 (value sdiv divisor); remainder = value smod divisor
     in s32 (quotient - (if remainder < 0 then 1 else 0)))"

definition floor_mod :: "int \<Rightarrow> int \<Rightarrow> int" where
  "floor_mod value divisor = s32 (value - s32 (floor_div value divisor * divisor))"

definition floor_div64 :: "int \<Rightarrow> int \<Rightarrow> int" where
  "floor_div64 value divisor =
    (let quotient = s64 (value sdiv divisor); remainder = value smod divisor
     in s64 (quotient - (if remainder \<noteq> 0 \<and> ((remainder < 0) \<noteq> (divisor < 0)) then 1 else 0)))"

definition floor_mod64 :: "int \<Rightarrow> int \<Rightarrow> int" where
  "floor_mod64 value divisor = s64 (value - s64 (floor_div64 value divisor * divisor))"

definition block_to_chunk :: "block_pos \<Rightarrow> chunk_pos" where
  "block_to_chunk pos = ChunkPos (floor_div (pos_x pos) 16) (floor_div (pos_z pos) 16)"

definition world_y_to_subchunk :: "int \<Rightarrow> int" where
  "world_y_to_subchunk y = floor_div y 16"

definition structure_y_to_chunk_local :: "int \<Rightarrow> int" where
  "structure_y_to_chunk_local y = s32 (y + kOverworldMinY)"

section \<open>Hash functions of the unordered maps\<close>

definition block_pos_hash :: "block_pos \<Rightarrow> 64 word" where
  "block_pos_hash p =
    (let h0 = word_of_int (pos_x p);
         h1 = h0 * 0x9e3779b9 + word_of_int (pos_y p)
     in h1 * 0x9e3779b9 + word_of_int (pos_z p))"

definition sub_chunk_pos_hash :: "sub_chunk_pos \<Rightarrow> 64 word" where
  "sub_chunk_pos_hash p =
    (let h0 = word_of_int (sub_x p);
         h1 = h0 * 0x9e3779b9 + word_of_int (sub_y p)
     in h1 * 0x9e3779b9 + word_of_int (sub_z p))"

definition chunk_pos_hash :: "chunk_pos \<Rightarrow> 64 word" where
  "chunk_pos_hash p =
    push_bit 32 (ucast (word_of_int (chunk_x p) :: 32 word)) XOR
    ucast (word_of_int (chunk_z p) :: 32 word)"

section \<open>The arithmetic inside its range\<close>

lemma int_div_le: "0 \<le> (v::int) \<Longrightarrow> 0 < d \<Longrightarrow> v div d \<le> v"
  using zdiv_mono2 [of v 1 d] by simp

lemma int_div_ge: "(v::int) < 0 \<Longrightarrow> 0 < d \<Longrightarrow> v \<le> v div d"
  using zdiv_mono2_neg [of v 1 d] by simp

lemma floor_div_eq:
  assumes d: "0 < d" and v: "in_s32 v"
  shows "floor_div v d = v div d"
proof (cases "0 \<le> v")
  case True
  have "0 \<le> v div d" using True d by (simp add: pos_imp_zdiv_nonneg_iff)
  then have "in_s32 (v div d)"
    using int_div_le [OF True d] v by (simp add: range_simps)
  moreover have "\<not> v mod d < 0" using d by (simp add: not_less)
  ultimately show ?thesis
    using True d by (simp add: floor_div_def sdiv_pos smod_pos wrap_simps)
next
  case False
  let ?q = "(- v) div d" and ?r = "(- v) mod d"
  have q: "0 \<le> ?q" "?q \<le> - v"
    using d False int_div_le [of "- v" d] by (simp_all add: pos_imp_zdiv_nonneg_iff)
  have in1: "in_s32 (- ?q)" using q v False by (simp add: range_simps)
  have neg: "v div d = - ?q - (if ?r = 0 then 0 else 1)"
    using zdiv_zminus1_eq_if [of d "- v"] d by auto
  have in2: "in_s32 (- ?q - (if ?r = 0 then 0 else 1))"
    using int_div_ge [of v d] False d neg q v by (simp add: range_simps)
  have "0 \<le> ?r" using d by simp
  then have "(- ?r < 0) = (?r \<noteq> 0)" by linarith
  then have "floor_div v d = s32 (- ?q - (if ?r = 0 then 0 else 1))"
    using False d s32_id [OF in1] by (simp add: floor_div_def sdiv_pos smod_pos)
  then show ?thesis using s32_id [OF in2] neg by presburger
qed

lemma floor_div16 [simp]: "in_s32 v \<Longrightarrow> floor_div v 16 = v div 16"
  by (simp add: floor_div_eq)

lemma s32_block_start:
  assumes "in_s32 w"
  shows "in_s32 (w div 16 * 16)"
proof -
  have "(- 134217728) * 16 \<le> w div 16 * 16"
    using zdiv_mono1 [of "- 2147483648" w 16] assms by (simp add: range_simps)
  moreover have "w div 16 * 16 \<le> w" using div_mult_mod_eq [of w 16] pos_mod_sign [of 16 w] by linarith
  ultimately show ?thesis using assms by (simp add: range_simps)
qed

lemma s32_mod16: "in_s32 (w mod 16)"
proof -
  have "0 \<le> w mod 16" "w mod 16 < 16" by simp_all
  then show ?thesis unfolding range_simps by linarith
qed

lemma s32_block_rest:
  assumes "in_s32 w"
  shows "s32 (w - s32 (w div 16 * 16)) = w mod 16"
  using s32_id [OF s32_block_start [OF assms]] s32_id [OF s32_mod16 [of w]]
  by (simp add: minus_div_mult_eq_mod)

lemma floor_mod16 [simp]: "in_s32 v \<Longrightarrow> floor_mod v 16 = v mod 16"
  by (simp add: floor_mod_def s32_block_rest)

lemma smod_neg_iff: "(v::int) smod d < 0 \<longleftrightarrow> v < 0 \<and> \<not> d dvd v"
proof -
  have m: "\<bar>v\<bar> mod \<bar>d\<bar> = 0 \<longleftrightarrow> d dvd v" by (simp flip: dvd_eq_mod_eq_0)
  have n: "0 \<le> \<bar>v\<bar> mod \<bar>d\<bar>" by (cases "d = 0") simp_all
  show ?thesis
    using m n unfolding signed_modulo_int_def
    by (cases v "0::int" rule: linorder_cases) (auto simp: le_less)
qed

lemma smod_0_iff: "(v::int) smod d = 0 \<longleftrightarrow> d dvd v"
  unfolding signed_modulo_int_def by (auto simp: sgn_0_0 simp flip: dvd_eq_mod_eq_0)

lemma abs_sdiv_le: "\<bar>(v::int) sdiv d\<bar> \<le> \<bar>v\<bar> div \<bar>d\<bar>"
  unfolding signed_divide_int_def
  by (cases "v = 0"; cases "d = 0") (simp_all add: abs_mult pos_imp_zdiv_nonneg_iff)

lemma floor_div64_eq:
  assumes d: "d \<noteq> 0" and v: "in_s64 v" and no_trap: "\<not> (v = INT64_MIN \<and> d = - 1)"
  shows "floor_div64 v d = v div d"
proof -
  have cond: "(v smod d \<noteq> 0 \<and> (v smod d < 0) \<noteq> (d < 0)) \<longleftrightarrow> (d \<noteq> 0 \<and> sgn v \<noteq> sgn d \<and> \<not> d dvd v)"
    using d unfolding smod_neg_iff smod_0_iff by (auto simp: sgn_if split: if_splits)
  have "in_s64 (v sdiv d) \<and> in_s64 (v div d)"
  proof (cases "\<bar>d\<bar> = 1")
    case True
    then have "d = 1 \<or> d = - 1" by linarith
    then show ?thesis using v no_trap by (auto simp: range_simps)
  next
    case False
    with d have "\<bar>v\<bar> div \<bar>d\<bar> \<le> \<bar>v\<bar> div 2" by (intro zdiv_mono2) auto
    moreover have "\<bar>v\<bar> div 2 \<le> 4611686018427387904"
      using v unfolding range_simps by linarith
    ultimately have "\<bar>v sdiv d\<bar> \<le> 4611686018427387904"
      using abs_sdiv_le [of v d] by linarith
    then show ?thesis
      unfolding divide_int_eq_signed_divide_int [of v d] range_simps of_bool_def by auto
  qed
  then show ?thesis
    using cond divide_int_eq_signed_divide_int [of v d]
    by (simp add: floor_div64_def wrap_simps of_bool_def split: if_splits)
qed

lemma ceil16: "(w::int) div 16 + (if w mod 16 \<noteq> 0 then 1 else 0) = (w + 15) div 16"
proof -
  define q r where "q = w div 16" and "r = w mod 16"
  have w: "w = 16 * q + r" "0 \<le> r" "r < 16" by (simp_all add: q_def r_def)
  have "(16 * q + r + 15) div 16 = q + (r + 15) div 16"
    using div_mult_self2 [of 16 "r + 15" q] by (simp add: ac_simps)
  also have "(r + 15) div 16 = (if r \<noteq> 0 then 1 else 0)" using w(2,3) by simp presburger
  finally show ?thesis by (simp add: w(1) [symmetric] q_def [symmetric] r_def [symmetric])
qed

lemma int_div_less_iff:
  assumes l: "0 < l"
  shows "(a::int) div l < b \<longleftrightarrow> a < b * l"
proof -
  have "b \<le> a div l \<longleftrightarrow> b * l \<le> a"
  proof
    assume "b \<le> a div l"
    then have "b * l \<le> a div l * l" using l by simp
    also have "\<dots> \<le> a" using pos_mod_sign [OF l, of a] div_mult_mod_eq [of a l] by linarith
    finally show "b * l \<le> a" .
  next
    assume "b * l \<le> a"
    with zdiv_mono1 [OF this l] l show "b \<le> a div l" by simp
  qed
  then show ?thesis by linarith
qed

lemma chunk_count_eq:
  assumes "in_s32 w"
  shows "(if w \<le> 0 then 0 else s32 (w sdiv 16 + (if w smod 16 \<noteq> 0 then 1 else 0))) =
    max 0 ((w + 15) div 16)"
proof (cases "w \<le> 0")
  case True
  then show ?thesis by simp
next
  case False
  then have "0 \<le> (w + 15) div 16" "(w + 15) div 16 \<le> w"
    using int_div_less_iff [of 16 "w + 15" "w + 1"] by simp_all
  then have "in_s32 ((w + 15) div 16)" using assms by (simp add: range_simps)
  with False show ?thesis
    using ceil16 [of w] by (simp add: sdiv_pos smod_pos wrap_simps)
qed

lemma chunk_x_count_eq: "in_s32 (width s) \<Longrightarrow> chunk_x_count s = max 0 ((width s + 15) div 16)"
  unfolding chunk_x_count_def by (rule chunk_count_eq)

lemma chunk_z_count_eq: "in_s32 (len s) \<Longrightarrow> chunk_z_count s = max 0 ((len s + 15) div 16)"
  unfolding chunk_z_count_def by (rule chunk_count_eq)

lemma volume_eq:
  assumes "size_in_range s"
  shows "volume s =
    (if width s \<le> 0 \<or> height s \<le> 0 \<or> len s \<le> 0 then 0
     else min INT64_MAX (width s * height s * len s))"
proof (cases "width s \<le> 0 \<or> height s \<le> 0 \<or> len s \<le> 0")
  case True
  then show ?thesis by (auto simp: volume_def)
next
  case False
  let ?w = "width s" and ?h = "height s" and ?l = "len s"
  have pos: "0 < ?w" "0 < ?h" "0 < ?l" using False by auto
  have le: "?w \<le> 2147483647" "?h \<le> 2147483647"
    using assms by (simp_all add: size_in_range_def range_simps)
  have "?w * ?h \<le> 2147483647 * 2147483647" using le pos by (intro mult_mono) auto
  then have wh: "?w * ?h \<le> INT64_MAX" "0 < ?w * ?h" using pos by (simp_all add: range_simps)
  have g1: "\<not> INT64_MAX sdiv ?h < ?w"
    using zdiv_mono1 [OF wh(1), of ?h] pos by (simp add: sdiv_pos range_simps not_less)
  have id: "s64 (?w * ?h) = ?w * ?h" using wh by (simp add: wrap_simps range_simps)
  have g2: "INT64_MAX sdiv ?l < ?w * ?h \<longleftrightarrow> INT64_MAX < ?w * ?h * ?l"
    using pos int_div_less_iff [of ?l INT64_MAX "?w * ?h"] by (simp add: sdiv_pos range_simps)
  have "s64 (?w * ?h * ?l) = ?w * ?h * ?l" if "\<not> INT64_MAX < ?w * ?h * ?l"
  proof (rule s64_id)
    have "0 \<le> ?w * ?h * ?l" using wh(2) pos by (intro mult_nonneg_nonneg) auto
    with that show "in_s64 (?w * ?h * ?l)" by (simp add: range_simps)
  qed
  then show ?thesis
    using False g1 g2 id by (auto simp: volume_def Let_def min_def)
qed

lemma push_xor_inj:
 assumes "push_bit 32 (ucast (a::32 word) :: 64 word) XOR ucast (b::32 word) = push_bit 32 (ucast a') XOR ucast b'"
 shows "a = a' \<and> b = b'"
proof -
  have e: "bit (push_bit 32 (ucast a :: 64 word) XOR ucast b) n = bit (push_bit 32 (ucast a' :: 64 word) XOR ucast b') n" for n
    using assms by simp
  have "bit b n = bit b' n" if "n < 32" for n
    using e [of n] that by (simp add: bit_simps)
  moreover have "bit a n = bit a' n" if "n < 32" for n
    using e [of "n + 32"] that bit_imp_le_length [of b "n + 32"] bit_imp_le_length [of b' "n + 32"]
    by (auto simp: bit_simps)
  ultimately show ?thesis by (auto intro: bit_word_eqI)
qed
lemma word_of_int_s32_inj: "in_s32 x \<Longrightarrow> in_s32 y \<Longrightarrow> (word_of_int x :: 32 word) = word_of_int y \<Longrightarrow> x = y"
proof -
  assume r: "in_s32 x" "in_s32 y" and e: "(word_of_int x :: 32 word) = word_of_int y"
  have "sint (word_of_int x :: 32 word) = sint (word_of_int y :: 32 word)" by (simp only: e)
  with r show ?thesis by (simp add: signed_of_int signed_take_bit_int_eq_self range_simps)
qed

lemma chunk_pos_hash_inj:
  assumes "in_s32 x" "in_s32 z" "in_s32 x'" "in_s32 z'"
    and "chunk_pos_hash (ChunkPos x z) = chunk_pos_hash (ChunkPos x' z')"
  shows "x = x' \<and> z = z'"
  using assms unfolding chunk_pos_hash_def chunk_pos.sel
  by (blast dest!: push_xor_inj intro: word_of_int_s32_inj)

section \<open>Cells of a chunk\<close>

text \<open>
  The readers index a layer by \<open>(y, z, x)\<close>: 16 x 16 x 16 cells of one sub-chunk. A cell
  is created by \<open>try_emplace\<close>, which fills a new sub-chunk with air, and then written.
\<close>

definition layer_index :: "int \<Rightarrow> int \<Rightarrow> int \<Rightarrow> nat" where
  "layer_index lx ly lz = nat (u64 (s32 (s32 (s32 (s32 (ly * 16) + lz) * 16) + lx)))"

definition ensure_sub_chunk :: "runtime_id \<Rightarrow> bool \<Rightarrow> int \<Rightarrow> chunk_data \<Rightarrow> chunk_data" where
  "ensure_sub_chunk air include_layer1 sy ch =
    (case sub_chunks ch sy of
       Some _ \<Rightarrow> ch
     | None \<Rightarrow> ch\<lparr>sub_chunks := (sub_chunks ch)(sy \<mapsto>
         \<lparr>layer0 = (\<lambda>_. air),
          layer1 = (if include_layer1 then (\<lambda>_. air) else layer1 empty_sub_chunk)\<rparr>)\<rparr>)"

definition set_layer0 :: "int \<Rightarrow> nat \<Rightarrow> runtime_id \<Rightarrow> chunk_data \<Rightarrow> chunk_data" where
  "set_layer0 sy idx v ch =
    (case sub_chunks ch sy of
       None \<Rightarrow> ch
     | Some sub \<Rightarrow> ch\<lparr>sub_chunks := (sub_chunks ch)(sy \<mapsto> sub\<lparr>layer0 := (layer0 sub)(idx := v)\<rparr>)\<rparr>)"

definition put_cell ::
  "runtime_id \<Rightarrow> bool \<Rightarrow> int \<Rightarrow> nat \<Rightarrow> runtime_id \<Rightarrow> chunk_data \<Rightarrow> chunk_data" where
  "put_cell air include_layer1 sy idx v ch =
    set_layer0 sy idx v (ensure_sub_chunk air include_layer1 sy ch)"

definition get_cell :: "runtime_id \<Rightarrow> chunk_data \<Rightarrow> int \<times> nat \<Rightarrow> runtime_id" where
  "get_cell air ch c =
    (case sub_chunks ch (fst c) of None \<Rightarrow> air | Some sub \<Rightarrow> layer0 sub (snd c))"

text \<open>
  \<open>block_at\<close> of the file writers (the same function in \<open>schematic_writer.cpp\<close> and
  \<open>litematic_writer.cpp\<close>): the block at a structure position, air where there is no
  chunk or no sub-chunk.
\<close>

definition block_at :: "chunk_map \<Rightarrow> runtime_id \<Rightarrow> int \<Rightarrow> int \<Rightarrow> int \<Rightarrow> runtime_id" where
  "block_at chunks air x y z =
    (case map_of chunks (ChunkPos (floor_div x 16) (floor_div z 16)) of
       None \<Rightarrow> air
     | Some chunk \<Rightarrow>
         let sy = floor_div (s32 (y - 64)) 16
         in case sub_chunks chunk sy of
              None \<Rightarrow> air
            | Some sub \<Rightarrow>
                let local_y = s32 (y - s32 (s32 (sy * 16) + 64))
                in layer0 sub (layer_index (floor_mod x 16) local_y (floor_mod z 16)))"

text \<open>
  The law every chunk builder rests on: a cell holds the last value written to it.
\<close>

locale cell_store =
  fixes rd :: "'s \<Rightarrow> 'c \<Rightarrow> 'v" and wr :: "'c \<Rightarrow> 'v \<Rightarrow> 's \<Rightarrow> 's"
  assumes rd_wr: "rd (wr c v s) c' = (if c' = c then v else rd s c')"
begin

lemma rd_fold_wr:
  "rd (fold (\<lambda>(c, v). wr c v) cvs s) c =
    (case map_of (rev cvs) c of Some v \<Rightarrow> v | None \<Rightarrow> rd s c)"
  by (induction cvs arbitrary: s) (auto simp: rd_wr map_add_def split: option.split)

lemma rd_fold_wr_unique:
  assumes "\<And>v. (c, v) \<in> set cvs \<Longrightarrow> v = w"
  shows "rd (fold (\<lambda>(c, v). wr c v) cvs s) c = (if c \<in> fst ` set cvs then w else rd s c)"
  using assms
proof (induction cvs arbitrary: s)
  case Nil
  then show ?case by simp
next
  case (Cons cv cvs)
  obtain c1 v1 where cv: "cv = (c1, v1)" by force
  have "rd (fold (\<lambda>(c, v). wr c v) cvs (wr c1 v1 s)) c =
      (if c \<in> fst ` set cvs then w else rd (wr c1 v1 s) c)"
    using Cons.prems by (intro Cons.IH) simp
  with Cons.prems show ?case by (auto simp: cv rd_wr)
qed

lemma rd_fold_wr_distinct:
  assumes "distinct (map fst cvs)"
  shows "rd (fold (\<lambda>(c, v). wr c v) cvs s) c =
    (case map_of cvs c of Some v \<Rightarrow> v | None \<Rightarrow> rd s c)"
proof -
  have "map_of (rev cvs) c = map_of cvs c"
    using map_of_eqI [of "rev cvs" cvs] assms
    by (metis distinct_rev map_of_eq_Some_iff not_None_eq rev_map set_rev)
  then show ?thesis by (simp add: rd_fold_wr)
qed

end

interpretation cells: cell_store "get_cell air"
  "\<lambda>c. put_cell air include_layer1 (fst c) (snd c)"
  for air :: runtime_id and include_layer1 :: bool
  by unfold_locales
    (auto simp: get_cell_def put_cell_def set_layer0_def ensure_sub_chunk_def split: option.split)

lemma get_cell_empty [simp]: "get_cell air empty_chunk c = air"
  by (simp add: get_cell_def empty_chunk_def)

lemma layer_index_eq:
  assumes "0 \<le> lx" "lx < 16" "0 \<le> ly" "ly < 16" "0 \<le> lz" "lz < 16"
  shows "layer_index lx ly lz = nat ((ly * 16 + lz) * 16 + lx)"
  using assms by (simp add: layer_index_def u64_def wrap_simps range_simps)

lemma layer_index_bound:
  assumes "0 \<le> lx" "lx < 16" "0 \<le> ly" "ly < 16" "0 \<le> lz" "lz < 16"
  shows "layer_index lx ly lz < 4096"
  using assms by (simp add: layer_index_eq)

lemma layer_index_inj:
  assumes "0 \<le> lx" "lx < 16" "0 \<le> ly" "ly < 16" "0 \<le> lz" "lz < 16"
    and "0 \<le> lx'" "lx' < 16" "0 \<le> ly'" "ly' < 16" "0 \<le> lz'" "lz' < 16"
  shows "layer_index lx ly lz = layer_index lx' ly' lz' \<longleftrightarrow> lx = lx' \<and> ly = ly' \<and> lz = lz'"
proof -
  have dec: "n mod 16 = c \<and> n div 16 mod 16 = b \<and> n div 16 div 16 = a"
    if "n = (a * 16 + b) * 16 + c" "0 \<le> b" "b < 16" "0 \<le> c" "c < 16" for a b c n :: int
  proof -
    have "n div 16 = a * 16 + b" "n mod 16 = c"
      using that by (simp_all only: div_mult_self3 mod_mult_self3 div_pos_pos_trivial
          mod_pos_pos_trivial)
    then show ?thesis using that(2,3) by simp
  qed
  have "nat ((ly * 16 + lz) * 16 + lx) = nat ((ly' * 16 + lz') * 16 + lx') \<longleftrightarrow>
      (ly * 16 + lz) * 16 + lx = (ly' * 16 + lz') * 16 + lx'"
    using assms by (simp add: nat_eq_iff)
  then show ?thesis
    using assms dec [OF refl, of lz lx ly] dec [OF refl, of lz' lx' ly']
    by (simp add: layer_index_eq) metis
qed

text \<open>The cell of a world position: its sub-chunk and its index there.\<close>

definition world_cell :: "int \<Rightarrow> int \<Rightarrow> int \<Rightarrow> int \<times> nat" where
  "world_cell x y z = ((y - 64) div 16, layer_index (x mod 16) ((y - 64) mod 16) (z mod 16))"

lemma mod16_range: "0 \<le> (n::int) mod 16" "(n::int) mod 16 < 16"
  by simp_all

lemma world_cell_inj:
  assumes "world_cell x y z = world_cell x' y' z'"
    and "x div 16 = x' div 16" "z div 16 = z' div 16"
  shows "x = x' \<and> y = y' \<and> z = z'"
proof -
  have "x mod 16 = x' mod 16 \<and> (y - 64) mod 16 = (y' - 64) mod 16 \<and> z mod 16 = z' mod 16"
    using assms(1) layer_index_inj [OF mod16_range mod16_range mod16_range mod16_range mod16_range mod16_range]
    unfolding world_cell_def by blast
  moreover have "(y - 64) div 16 = (y' - 64) div 16"
    using assms(1) unfolding world_cell_def by blast
  ultimately have "x = x'" "y - 64 = y' - 64" "z = z'"
    using assms(2,3) by (metis div_mult_mod_eq)+
  then show ?thesis by simp
qed

lemma sub_chunk_local_y:
  assumes "in_s32 (y - 64)" "in_s32 y"
  shows "s32 (y - s32 (s32 ((y - 64) div 16 * 16) + 64)) = (y - 64) mod 16"
proof -
  have "in_s32 ((y - 64) div 16 * 16 + 64)"
    using s32_block_start [OF assms(1)] assms div_mult_mod_eq [of "y - 64" 16]
      pos_mod_sign [of 16 "y - 64"] by (simp add: range_simps)
  moreover have "y - ((y - 64) div 16 * 16 + 64) = (y - 64) mod 16"
    by (simp add: minus_div_mult_eq_mod [symmetric])
  ultimately show ?thesis
    using s32_id [OF s32_block_start [OF assms(1)]] s32_id [OF s32_mod16] by (simp add: wrap_simps)
qed

lemma block_at_eq:
  assumes "in_s32 x" "in_s32 y" "in_s32 (y - 64)" "in_s32 z"
  shows "block_at chunks air x y z =
    (case map_of chunks (ChunkPos (x div 16) (z div 16)) of
       None \<Rightarrow> air
     | Some ch \<Rightarrow> get_cell air ch (world_cell x y z))"
  using assms by (auto simp: block_at_def get_cell_def world_cell_def wrap_simps
      sub_chunk_local_y Let_def split: option.split)

end
