(* ===== verification/WS_ChunkIndex.thy ===== *)
theory WS_ChunkIndex
  imports WS_Types
begin

text \<open>
  \<open>ChunkBlockIndex\<close> (\<open>include/WaterStructure/chunk_index.hpp\<close>): the lazily built index
  from a chunk column to the blocks of a vector-backed reader in it. The state is the ready
  flag and the buckets. The lemmas show that the index is a partition of the block list by
  chunk that keeps the native order, and that a built index is never rebuilt.
\<close>

record chunk_index =
  ready :: bool
  buckets :: "(chunk_pos, nat list) umap"

definition index_clear :: "chunk_index \<Rightarrow> chunk_index" where
  "index_clear ix = ix\<lparr>ready := False, buckets := []\<rparr>"

definition shifted :: "block_pos \<Rightarrow> block_pos \<Rightarrow> block_pos" where
  "shifted offset local = BlockPos (s32 (pos_x local + pos_x offset))
     (s32 (pos_y local + pos_y offset)) (s32 (pos_z local + pos_z offset))"

text \<open>\<open>mBuckets[key].push_back(index)\<close>: a missing bucket starts empty.\<close>

definition push_bucket :: "chunk_pos \<Rightarrow> nat \<Rightarrow> (chunk_pos, nat list) umap \<Rightarrow> (chunk_pos, nat list) umap" where
  "push_bucket cp index m =
    (case map_of m cp of
       None \<Rightarrow> umap_put cp [index] m
     | Some is \<Rightarrow> umap_put cp (is @ [index]) m)"

fun index_loop ::
  "('b \<Rightarrow> block_pos) \<Rightarrow> block_pos \<Rightarrow> nat \<Rightarrow> 'b list \<Rightarrow> (chunk_pos, nat list) umap \<Rightarrow> (chunk_pos, nat list) umap" where
  "index_loop position offset index [] m = m"
| "index_loop position offset index (b # bs) m =
     index_loop position offset (index + 1) bs
       (push_bucket (block_to_chunk (shifted offset (position b))) (nat (u32 (int index))) m)"

definition index_ensure ::
  "('b \<Rightarrow> block_pos) \<Rightarrow> 'b list \<Rightarrow> block_pos \<Rightarrow> chunk_index \<Rightarrow> bool \<times> chunk_index" where
  "index_ensure position blocks offset ix =
    (if ready ix then (True, ix)
     else if UINT32_MAX < int (length blocks) then (False, ix)
     else (True, ix\<lparr>buckets := index_loop position offset 0 blocks [], ready := True\<rparr>))"

definition index_find :: "chunk_index \<Rightarrow> chunk_pos \<Rightarrow> nat list option" where
  "index_find ix cp = map_of (buckets ix) cp"

section \<open>The buckets\<close>

lemma map_of_push_bucket:
  "map_of (push_bucket cp i m) k =
    (if k = cp then Some (case map_of m cp of None \<Rightarrow> [i] | Some is \<Rightarrow> is @ [i]) else map_of m k)"
  by (auto simp: push_bucket_def map_of_umap_put split: option.split)

text \<open>The indices, counted from \<open>n\<close>, of the elements of a list that satisfy a predicate.\<close>

definition positions_of :: "('b \<Rightarrow> bool) \<Rightarrow> nat \<Rightarrow> 'b list \<Rightarrow> nat list" where
  "positions_of P n bs = map fst (filter (\<lambda>ib. P (snd ib)) (zip [n..<n + length bs] bs))"

lemma positions_of_simps [simp]:
  "positions_of P n [] = []"
  "positions_of P n (b # bs) = (if P b then n # positions_of P (Suc n) bs else positions_of P (Suc n) bs)"
  by (simp_all add: positions_of_def upt_conv_Cons del: upt_Suc)

lemma set_positions_of: "i \<in> set (positions_of P 0 bs) \<longleftrightarrow> i < length bs \<and> P (bs ! i)"
  by (force simp: positions_of_def set_zip image_iff)

lemma sorted_positions_of: "sorted_wrt (<) (positions_of P n bs)"
proof (induction bs arbitrary: n)
  case (Cons b bs)
  have "n < i" if "i \<in> set (positions_of P (Suc n) bs)" for i
    using that unfolding positions_of_def by (auto dest!: set_zip_leftD simp del: upt_Suc)
  with Cons show ?case by simp
qed simp

lemma index_loop_find:
  assumes "int (n + length bs) \<le> UINT32_MAX"
  shows "map_of (index_loop position offset n bs m) k =
    (let new = positions_of (\<lambda>b. block_to_chunk (shifted offset (position b)) = k) n bs
     in case map_of m k of
          None \<Rightarrow> if new = [] then None else Some new
        | Some old \<Rightarrow> Some (old @ new))"
  using assms
proof (induction bs arbitrary: n m)
  case Nil
  then show ?case by (simp split: option.split)
next
  case (Cons b bs)
  have "nat (u32 (int n)) = n" using Cons.prems by (simp add: u32_def range_simps)
  then show ?case
    using Cons.IH [of "n + 1"] Cons.prems
    by (simp add: map_of_push_bucket Let_def split: option.split)
qed

lemma index_ensure_find:
  assumes "int (length bs) \<le> UINT32_MAX" and "\<not> ready ix"
  shows "index_find (snd (index_ensure position bs offset ix)) cp =
    (let found = positions_of (\<lambda>b. block_to_chunk (shifted offset (position b)) = cp) 0 bs
     in if found = [] then None else Some found)"
  using assms index_loop_find [of 0 bs position offset "[]" cp]
  by (simp add: index_ensure_def index_find_def)

text \<open>
  \<open>ensure\<close> on an index that is not ready groups the blocks by chunk: the bucket of a
  chunk lists, in strictly ascending order, exactly the indices of the blocks whose world
  position lies in it; a chunk without blocks has no bucket, and a second \<open>ensure\<close> keeps
  the buckets whatever its arguments are.
\<close>

theorem index_partition:
  assumes "int (length bs) \<le> UINT32_MAX"
  shows "(let ix' = snd (index_ensure position bs offset (index_clear ix))
          in (case index_find ix' cp of
                None \<Rightarrow> (\<forall>b \<in> set bs. block_to_chunk (shifted offset (position b)) \<noteq> cp)
              | Some found \<Rightarrow> found \<noteq> [] \<and> sorted_wrt (<) found \<and>
                  set found = {i. i < length bs \<and> block_to_chunk (shifted offset (position (bs ! i))) = cp}) \<and>
             index_ensure position' bs' offset' ix' = (True, ix'))"
proof -
  let ?P = "\<lambda>b. block_to_chunk (shifted offset (position b)) = cp"
  let ?ix = "snd (index_ensure position bs offset (index_clear ix))"
  have nr: "\<not> ready (index_clear ix)" by (simp add: index_clear_def)
  have r: "ready ?ix" using assms nr by (simp add: index_ensure_def)
  have s: "set (positions_of ?P 0 bs) = {i. i < length bs \<and> ?P (bs ! i)}"
    by (auto simp: set_positions_of)
  have "positions_of ?P 0 bs = [] \<longleftrightarrow> (\<forall>b \<in> set bs. \<not> ?P b)"
    unfolding set_empty [symmetric] s set_conv_nth [of bs] by auto
  moreover have "index_ensure position' bs' offset' ?ix = (True, ?ix)"
    using r by (simp add: index_ensure_def)
  ultimately show ?thesis
    unfolding index_ensure_find [OF assms nr, of position offset cp] Let_def
    using s sorted_positions_of [of ?P 0 bs] by simp
qed

theorem index_partition_witness:
  "(let bs = [BlockPos 0 0 0, BlockPos 16 0 0, BlockPos 5 1 1]; off = BlockPos 0 0 0;
        ix = snd (index_ensure id bs off (index_clear \<lparr>ready = True, buckets = []\<rparr>))
    in index_find ix (ChunkPos 0 0) = Some [0, 2] \<and> index_ensure id [] off ix = (True, ix))"
proof -
  let ?bs = "[BlockPos 0 0 0, BlockPos 16 0 0, BlockPos 5 1 1]" and ?off = "BlockPos 0 0 0"
  let ?ix = "snd (index_ensure id ?bs ?off (index_clear \<lparr>ready = True, buckets = []\<rparr>))"
  have "index_ensure id [] ?off ?ix = (True, ?ix)"
    using index_partition [of ?bs id ?off "\<lparr>ready = True, buckets = []\<rparr>" "ChunkPos 0 0" id "[]" ?off]
    by (simp only: Let_def) (simp add: range_simps)
  moreover have "index_find ?ix (ChunkPos 0 0) = Some [0, 2]"
    by (simp add: index_find_def index_ensure_def index_clear_def range_simps push_bucket_def
        block_to_chunk_def shifted_def wrap_simps u32_def)
  ultimately show ?thesis by (simp only: Let_def)
qed

end
