(* ===== verification/WS_Sparse.thy ===== *)
theory WS_Sparse
  imports WS_Types
begin

text \<open>
  \<open>SparseBlockStore\<close> (\<open>src/core/decoded_structure.cpp\<close>), the block store the command,
  JSON and private binary readers decode into. Its state is the three ordered maps, the
  two sizes, the offset, the counter of non-air blocks and the out-of-bounds flag; the
  registry it refers to is only asked for the air runtime id, which is the parameter
  \<open>air\<close>. The lemmas show that the counter counts, that the out-of-bounds map stays a
  part of the block map, and that \<open>get_chunks_impl\<close> delivers at each world position
  exactly the stored block.
\<close>

section \<open>State and updates\<close>

record sparse_store =
  original_size :: wsize
  store_size :: wsize
  store_offset :: block_pos
  blocks :: "(block_pos, runtime_id) omap"
  oob_blocks :: "(block_pos, runtime_id) omap"
  entities :: "(block_pos, nbt_payload) omap"
  non_air_blocks :: int
  include_oob :: bool

definition zero_size :: wsize where "zero_size = \<lparr>width = 0, height = 0, len = 0\<rparr>"

definition sparse_clear :: "sparse_store \<Rightarrow> sparse_store" where
  "sparse_clear st =
    \<lparr>original_size = zero_size, store_size = zero_size, store_offset = BlockPos 0 0 0,
     blocks = [], oob_blocks = [], entities = [], non_air_blocks = 0, include_oob = False\<rparr>"

definition set_size :: "wsize \<Rightarrow> sparse_store \<Rightarrow> sparse_store" where
  "set_size sz st = st\<lparr>original_size := sz, store_size := sz\<rparr>"

definition set_include_out_of_bounds :: "bool \<Rightarrow> sparse_store \<Rightarrow> sparse_store" where
  "set_include_out_of_bounds enabled st = st\<lparr>include_oob := enabled\<rparr>"

definition set_offset :: "block_pos \<Rightarrow> sparse_store \<Rightarrow> sparse_store" where
  "set_offset off st = st\<lparr>store_offset := off,
     store_size :=
       \<lparr>width = s32 (width (original_size st) + s32 \<bar>pos_x off\<bar>),
        height = s32 (height (original_size st) + s32 \<bar>pos_y off\<bar>),
        len = s32 (len (original_size st) + s32 \<bar>pos_z off\<bar>)\<rparr>\<rparr>"

definition outside :: "wsize \<Rightarrow> block_pos \<Rightarrow> bool" where
  "outside sz p \<longleftrightarrow> pos_x p < 0 \<or> pos_y p < 0 \<or> pos_z p < 0 \<or>
    width sz \<le> pos_x p \<or> height sz \<le> pos_y p \<or> len sz \<le> pos_z p"

definition put :: "runtime_id \<Rightarrow> block_pos \<Rightarrow> runtime_id \<Rightarrow> sparse_store \<Rightarrow> sparse_store" where
  "put air local rid st =
    (let n1 = (case omap_find (blocks st) local of
                 Some prev \<Rightarrow> if prev \<noteq> air then u64 (non_air_blocks st - 1) else non_air_blocks st
               | None \<Rightarrow> non_air_blocks st);
         bs = omap_put local rid (blocks st);
         oob = (if include_oob st \<and> outside (original_size st) local
                then omap_put local rid (oob_blocks st)
                else omap_erase local (oob_blocks st));
         n2 = (if rid \<noteq> air then u64 (n1 + 1) else n1)
     in st\<lparr>blocks := bs, oob_blocks := oob, non_air_blocks := n2\<rparr>)"

definition put_entity :: "block_pos \<Rightarrow> nbt_payload \<Rightarrow> sparse_store \<Rightarrow> sparse_store" where
  "put_entity local payload st =
    (if payload = [] then st\<lparr>entities := omap_erase local (entities st)\<rparr>
     else st\<lparr>entities := omap_put local payload (entities st)\<rparr>)"

text \<open>The mutating calls a reader makes, as one operation type.\<close>

datatype sparse_op = OpClear | OpSetSize wsize | OpSetOffset block_pos | OpIncludeOob bool
  | OpPut block_pos runtime_id | OpPutEntity block_pos nbt_payload

fun sparse_step :: "runtime_id \<Rightarrow> sparse_op \<Rightarrow> sparse_store \<Rightarrow> sparse_store" where
  "sparse_step air OpClear st = sparse_clear st"
| "sparse_step air (OpSetSize sz) st = set_size sz st"
| "sparse_step air (OpSetOffset off) st = set_offset off st"
| "sparse_step air (OpIncludeOob b) st = set_include_out_of_bounds b st"
| "sparse_step air (OpPut p v) st = put air p v st"
| "sparse_step air (OpPutEntity p d) st = put_entity p d st"

section \<open>Materialising chunks\<close>

datatype sparse_error = MaterializeOutOfRange

definition world_of :: "block_pos \<Rightarrow> block_pos \<Rightarrow> block_pos" where
  "world_of off local = BlockPos (s32 (pos_x local + pos_x off))
     (s32 (pos_y local + pos_y off)) (s32 (pos_z local + pos_z off))"

definition materialize_block ::
  "runtime_id \<Rightarrow> bool \<Rightarrow> block_pos \<Rightarrow> int \<Rightarrow> int \<Rightarrow> block_pos \<times> runtime_id \<Rightarrow> chunk_data \<Rightarrow>
   (sparse_error, chunk_data) result" where
  "materialize_block air il1 off chunk_min_x chunk_min_z block chunk =
    (let w = world_of off (fst block);
         sub_y = floor_div (s32 (pos_y w - 64)) 16;
         chunk' = ensure_sub_chunk air il1 sub_y chunk;
         lx = s32 (pos_x w - s32 chunk_min_x);
         ly = s32 (pos_y w - s32 (s32 (sub_y * 16) + 64));
         lz = s32 (pos_z w - s32 chunk_min_z)
     in if lx < 0 \<or> 16 \<le> lx \<or> ly < 0 \<or> 16 \<le> ly \<or> lz < 0 \<or> 16 \<le> lz
        then Inl MaterializeOutOfRange
        else Inr (set_layer0 sub_y (layer_index lx ly lz) (snd block) chunk'))"

definition materialize_oob ::
  "runtime_id \<Rightarrow> bool \<Rightarrow> block_pos \<Rightarrow> chunk_pos \<Rightarrow> block_pos \<times> runtime_id \<Rightarrow> chunk_data \<Rightarrow> chunk_data" where
  "materialize_oob air il1 off cp block chunk =
    (let w = world_of off (fst block)
     in if floor_div (pos_x w) 16 \<noteq> chunk_x cp \<or> floor_div (pos_z w) 16 \<noteq> chunk_z cp then chunk
        else
          let sub_y = floor_div (s32 (pos_y w - 64)) 16;
              chunk' = ensure_sub_chunk air il1 sub_y chunk;
              lx = floor_mod (pos_x w) 16;
              ly = floor_mod (s32 (pos_y w - 64)) 16;
              lz = floor_mod (pos_z w) 16
          in set_layer0 sub_y (layer_index lx ly lz) (snd block) chunk')"

text \<open>The blocks of the columns \<open>x\<close> and rows \<open>y\<close> in the source range, in visiting order.\<close>

definition source_blocks ::
  "sparse_store \<Rightarrow> int \<Rightarrow> int \<Rightarrow> int \<Rightarrow> int \<Rightarrow> (block_pos \<times> runtime_id) list" where
  "source_blocks st min_x max_x min_z max_z =
    concat (map (\<lambda>x. concat (map (\<lambda>y.
      omap_range (BlockPos (s32 x) (s32 y) (s32 min_z)) (BlockPos (s32 x) (s32 y) (s32 max_z)) (blocks st))
      [0..height (original_size st) - 1])) [min_x..max_x])"

definition sparse_chunk ::
  "runtime_id \<Rightarrow> bool \<Rightarrow> sparse_store \<Rightarrow> chunk_pos \<Rightarrow> chunk_data \<Rightarrow> (sparse_error, chunk_data) result" where
  "sparse_chunk air il1 st cp chunk =
    (let off = store_offset st;
         chunk_min_x = chunk_x cp * 16;
         chunk_min_z = chunk_z cp * 16;
         source_min_x = max 0 (chunk_min_x - pos_x off);
         source_max_x = min (width (original_size st) - 1) (chunk_min_x + 15 - pos_x off);
         source_min_z = max 0 (chunk_min_z - pos_z off);
         source_max_z = min (len (original_size st) - 1) (chunk_min_z + 15 - pos_z off)
     in if source_max_x < source_min_x \<or> source_max_z < source_min_z then Inr chunk
        else
          and_then
            (fold_result (materialize_block air il1 off chunk_min_x chunk_min_z)
              (source_blocks st source_min_x source_max_x source_min_z source_max_z) chunk)
            (\<lambda>chunk'.
              if include_oob st \<and> oob_blocks st \<noteq> []
              then Inr (fold (materialize_oob air il1 off cp) (oob_blocks st) chunk')
              else Inr chunk'))"

definition emplace_all :: "'v \<Rightarrow> chunk_pos list \<Rightarrow> (chunk_pos, 'v) umap" where
  "emplace_all v positions = fold (\<lambda>p m. umap_emplace p v m) positions []"

text \<open>
  Each requested chunk is filled in turn; the loop ends at the first one that fails.
\<close>

definition fill_chunks ::
  "(chunk_pos \<Rightarrow> chunk_data \<Rightarrow> ('e, chunk_data) result) \<Rightarrow> chunk_pos list \<Rightarrow> ('e, chunk_map) result" where
  "fill_chunks fill positions =
    fold_result
      (\<lambda>kv acc. and_then (fill (fst kv) (snd kv)) (\<lambda>c. Inr (umap_put (fst kv) c acc)))
      (emplace_all empty_chunk positions) (emplace_all empty_chunk positions)"

definition get_chunks_impl ::
  "runtime_id \<Rightarrow> sparse_store \<Rightarrow> chunk_pos list \<Rightarrow> bool \<Rightarrow> (sparse_error, chunk_map) result" where
  "get_chunks_impl air st positions il1 = fill_chunks (sparse_chunk air il1 st) positions"

definition get_chunks :: "runtime_id \<Rightarrow> sparse_store \<Rightarrow> chunk_pos list \<Rightarrow> (sparse_error, chunk_map) result" where
  "get_chunks air st positions = get_chunks_impl air st positions True"

definition get_chunks_layer0 ::
  "runtime_id \<Rightarrow> sparse_store \<Rightarrow> chunk_pos list \<Rightarrow> (sparse_error, chunk_map) result" where
  "get_chunks_layer0 air st positions = get_chunks_impl air st positions False"

definition deliver_entity ::
  "block_pos \<Rightarrow> block_pos \<times> nbt_payload \<Rightarrow> nbt_chunk_map \<Rightarrow> nbt_chunk_map" where
  "deliver_entity off ent m =
    (let w = world_of off (fst ent);
         cp = block_to_chunk w
     in case map_of m cp of
          None \<Rightarrow> m
        | Some es \<Rightarrow> umap_put cp
            (es @ [\<lparr>entity_pos = BlockPos (s32 (pos_x w - s32 (chunk_x cp * 16)))
                     (structure_y_to_chunk_local (pos_y w))
                     (s32 (pos_z w - s32 (chunk_z cp * 16))),
                   entity_payload = snd ent\<rparr>]) m)"

definition get_chunk_nbt :: "sparse_store \<Rightarrow> chunk_pos list \<Rightarrow> nbt_chunk_map" where
  "get_chunk_nbt st positions =
    fold (deliver_entity (store_offset st)) (entities st) (emplace_all [] positions)"

section \<open>The invariant of the store\<close>

definition sparse_inv :: "runtime_id \<Rightarrow> sparse_store \<Rightarrow> bool" where
  "sparse_inv air st \<longleftrightarrow>
    omap_ok (blocks st) \<and> omap_ok (oob_blocks st) \<and> omap_ok (entities st) \<and>
    (\<forall>kv \<in> set (oob_blocks st). omap_find (blocks st) (fst kv) = Some (snd kv)) \<and>
    (\<forall>kv \<in> set (entities st). snd kv \<noteq> []) \<and>
    non_air_blocks st = u64 (int (length (filter (\<lambda>(k, v). v \<noteq> air) (blocks st))))"

definition sparse_run :: "runtime_id \<Rightarrow> sparse_op list \<Rightarrow> sparse_store" where
  "sparse_run air ops = fold (sparse_step air) ops
    (sparse_clear \<lparr>original_size = zero_size, store_size = zero_size, store_offset = BlockPos 0 0 0,
       blocks = [], oob_blocks = [], entities = [], non_air_blocks = 0, include_oob = False\<rparr>)"

lemma u64_simps: "u64 (u64 a - 1) = u64 (a - 1)" "u64 (u64 a + 1) = u64 (a + 1)" "u64 (u64 a) = u64 a"
  by (simp_all add: u64_def mod_simps)

lemma sparse_inv_clear: "sparse_inv air (sparse_clear st)"
  by (simp add: sparse_inv_def sparse_clear_def omap_ok_def u64_def)

lemma oob_subset_put:
  assumes inv: "sparse_inv air st"
  shows "\<forall>kv \<in> set (oob_blocks (put air p v st)). omap_find (blocks (put air p v st)) (fst kv) = Some (snd kv)"
proof
  fix kv
  assume kv: "kv \<in> set (oob_blocks (put air p v st))"
  have ok: "omap_ok (blocks st)" "omap_ok (oob_blocks st)"
    using inv by (simp_all add: sparse_inv_def)
  have sub: "omap_find (blocks st) k = Some w" if "(k, w) \<in> set (oob_blocks st)" for k w
    using inv that by (force simp: sparse_inv_def)
  have "kv \<in> set (oob_blocks st) \<and> fst kv \<noteq> p \<or> kv = (p, v)"
  proof (cases "include_oob st \<and> outside (original_size st) p")
    case True
    then show ?thesis using kv ok by (auto simp: put_def Let_def om.set_ents_put)
  next
    case False
    then show ?thesis using kv by (auto simp: put_def Let_def omap_erase_def split: if_splits)
  qed
  then show "omap_find (blocks (put air p v st)) (fst kv) = Some (snd kv)"
    using sub [of "fst kv" "snd kv"] ok by (auto simp: put_def Let_def om.look_put)
qed

lemma put_count:
  assumes ok: "omap_ok (blocks st)"
    and n: "non_air_blocks st = u64 (int (length (filter (\<lambda>(k, v). v \<noteq> air) (blocks st))))"
  shows "non_air_blocks (put air p v st) =
    u64 (int (length (filter (\<lambda>(k, v). v \<noteq> air) (blocks (put air p v st)))))"
proof -
  let ?n = "\<lambda>m. int (length (filter (\<lambda>(k, v). v \<noteq> air) m))"
  have c: "?n (omap_put p v (blocks st)) =
      ?n (blocks st) + of_bool (v \<noteq> air) -
        (case omap_find (blocks st) p of Some w \<Rightarrow> of_bool (w \<noteq> air) | None \<Rightarrow> 0)"
    using om.count_put [OF ok, of "\<lambda>k v. v \<noteq> air" p v] by (auto split: option.splits)
  show ?thesis
    by (auto simp: put_def Let_def n c u64_simps split: option.split)
qed

lemma sparse_inv_put: "sparse_inv air st \<Longrightarrow> sparse_inv air (put air p v st)"
  using oob_subset_put [of air st p v] put_count [of st air p v]
  by (auto simp: sparse_inv_def) (auto simp: put_def Let_def om.ok_put om.ok_del)

lemma sparse_inv_put_entity: "sparse_inv air st \<Longrightarrow> sparse_inv air (put_entity p d st)"
proof -
  assume inv: "sparse_inv air st"
  have "\<forall>kv \<in> set (entities (put_entity p d st)). snd kv \<noteq> []"
  proof (cases "d = []")
    case True
    then show ?thesis using inv by (auto simp: sparse_inv_def put_entity_def omap_erase_def)
  next
    case False
    have ok: "omap_ok (entities st)" using inv by (simp add: sparse_inv_def)
    then have "\<forall>kv \<in> set (omap_put p d (entities st)). snd kv \<noteq> []"
      using inv False by (auto simp: om.set_ents_put sparse_inv_def)
    with False show ?thesis by (simp add: put_entity_def)
  qed
  moreover have "omap_ok (entities (put_entity p d st))"
    using inv by (simp add: sparse_inv_def put_entity_def om.ok_put om.ok_del)
  ultimately show ?thesis
    using inv by (simp add: sparse_inv_def put_entity_def)
qed

lemma sparse_inv_step: "sparse_inv air st \<Longrightarrow> sparse_inv air (sparse_step air op st)"
  by (cases op)
    (simp_all add: sparse_inv_clear sparse_inv_put sparse_inv_put_entity,
     simp_all add: sparse_inv_def set_size_def set_offset_def set_include_out_of_bounds_def)

lemma sparse_inv_run_aux: "sparse_inv air st \<Longrightarrow> sparse_inv air (fold (sparse_step air) ops st)"
  by (induction ops arbitrary: st) (simp_all add: sparse_inv_step)

lemma sparse_run_inv: "sparse_inv air (sparse_run air ops)"
  unfolding sparse_run_def by (rule sparse_inv_run_aux) (rule sparse_inv_clear)


section \<open>What the chunks hold\<close>

definition shift_ok :: "block_pos \<Rightarrow> block_pos \<Rightarrow> bool" where
  "shift_ok off p \<longleftrightarrow> in_s32 (pos_x p + pos_x off) \<and> in_s32 (pos_y p + pos_y off) \<and>
    in_s32 (pos_y p + pos_y off - 64) \<and> in_s32 (pos_z p + pos_z off)"

definition pos_in_range :: "block_pos \<Rightarrow> bool" where
  "pos_in_range p \<longleftrightarrow> in_s32 (pos_x p) \<and> in_s32 (pos_y p) \<and> in_s32 (pos_z p)"

definition sparse_ranges :: "sparse_store \<Rightarrow> bool" where
  "sparse_ranges st \<longleftrightarrow> size_in_range (original_size st) \<and>
    (\<forall>kv \<in> set (blocks st). pos_in_range (fst kv) \<and> shift_ok (store_offset st) (fst kv))"

definition chunk_overlaps :: "sparse_store \<Rightarrow> chunk_pos \<Rightarrow> bool" where
  "chunk_overlaps st cp \<longleftrightarrow>
    max 0 (chunk_x cp * 16 - pos_x (store_offset st)) \<le>
      min (width (original_size st) - 1) (chunk_x cp * 16 + 15 - pos_x (store_offset st)) \<and>
    max 0 (chunk_z cp * 16 - pos_z (store_offset st)) \<le>
      min (len (original_size st) - 1) (chunk_z cp * 16 + 15 - pos_z (store_offset st))"

text \<open>
  The abstract content of the store: the block map cut to the declared box, plus the
  out-of-bounds records when they are asked for.
\<close>

definition visible :: "sparse_store \<Rightarrow> block_pos \<Rightarrow> bool" where
  "visible st p \<longleftrightarrow> \<not> outside (original_size st) p \<or>
    include_oob st \<and> omap_find (oob_blocks st) p \<noteq> None"

definition stored_block :: "runtime_id \<Rightarrow> sparse_store \<Rightarrow> block_pos \<Rightarrow> runtime_id" where
  "stored_block air st p =
    (if visible st p then case omap_find (blocks st) p of Some v \<Rightarrow> v | None \<Rightarrow> air else air)"

definition cell_of :: "block_pos \<Rightarrow> block_pos \<Rightarrow> int \<times> nat" where
  "cell_of off p = world_cell (pos_x p + pos_x off) (pos_y p + pos_y off) (pos_z p + pos_z off)"

definition in_chunk :: "block_pos \<Rightarrow> chunk_pos \<Rightarrow> block_pos \<Rightarrow> bool" where
  "in_chunk off cp p \<longleftrightarrow>
    (pos_x p + pos_x off) div 16 = chunk_x cp \<and> (pos_z p + pos_z off) div 16 = chunk_z cp"

lemma world_of_eq:
  "shift_ok off p \<Longrightarrow> world_of off p = BlockPos (pos_x p + pos_x off) (pos_y p + pos_y off) (pos_z p + pos_z off)"
  by (simp add: world_of_def shift_ok_def wrap_simps)

lemma materialize_block_eq:
  assumes ok: "shift_ok off p" and "in_chunk off cp p"
  shows "materialize_block air il1 off (chunk_x cp * 16) (chunk_z cp * 16) (p, v) ch =
    Inr (put_cell air il1 (fst (cell_of off p)) (snd (cell_of off p)) v ch)"
proof -
  let ?x = "pos_x p + pos_x off" and ?y = "pos_y p + pos_y off" and ?z = "pos_z p + pos_z off"
  have c: "chunk_x cp = ?x div 16" "chunk_z cp = ?z div 16" using assms(2) by (simp_all add: in_chunk_def)
  have r: "in_s32 ?x" "in_s32 ?y" "in_s32 (?y - 64)" "in_s32 ?z" using ok by (simp_all add: shift_ok_def)
  have m: "\<not> ?x mod 16 < 0" "\<not> 16 \<le> ?x mod 16" "\<not> (?y - 64) mod 16 < 0" "\<not> 16 \<le> (?y - 64) mod 16"
    "\<not> ?z mod 16 < 0" "\<not> 16 \<le> ?z mod 16"
    by (simp_all add: not_less not_le)
  show ?thesis
    unfolding materialize_block_def fst_conv snd_conv world_of_eq [OF ok] block_pos.sel Let_def c
      s32_block_rest [OF r(1)] s32_block_rest [OF r(4)] s32_id [OF r(3)] floor_div16 [OF r(3)]
      sub_chunk_local_y [OF r(3,2)]
    using m by (simp add: put_cell_def cell_of_def world_cell_def)
qed

lemma materialize_oob_eq:
  assumes ok: "shift_ok off p"
  shows "materialize_oob air il1 off cp (p, v) ch =
    (if in_chunk off cp p
     then put_cell air il1 (fst (cell_of off p)) (snd (cell_of off p)) v ch else ch)"
proof -
  have r: "in_s32 (pos_x p + pos_x off)" "in_s32 (pos_y p + pos_y off - 64)" "in_s32 (pos_z p + pos_z off)"
    using ok by (simp_all add: shift_ok_def)
  show ?thesis
    unfolding materialize_oob_def fst_conv snd_conv world_of_eq [OF ok] block_pos.sel Let_def
      s32_id [OF r(2)] floor_div16 [OF r(1)] floor_div16 [OF r(2)] floor_div16 [OF r(3)]
      floor_mod16 [OF r(1)] floor_mod16 [OF r(2)] floor_mod16 [OF r(3)]
    by (auto simp: put_cell_def cell_of_def world_cell_def in_chunk_def)
qed

lemma set_source_blocks:
  assumes ok: "omap_ok (blocks st)"
    and r: "in_s32 x0" "in_s32 x1" "in_s32 z0" "in_s32 z1" "0 \<le> x0" "in_s32 (height (original_size st))"
  shows "set (source_blocks st x0 x1 z0 z1) =
    {kv \<in> set (blocks st). x0 \<le> pos_x (fst kv) \<and> pos_x (fst kv) \<le> x1 \<and> 0 \<le> pos_y (fst kv) \<and>
       pos_y (fst kv) < height (original_size st) \<and> z0 \<le> pos_z (fst kv) \<and> pos_z (fst kv) \<le> z1}"
    (is "_ = ?R")
proof -
  let ?h = "height (original_size st)"
  have one: "set (omap_range (BlockPos (s32 x) (s32 y) (s32 z0)) (BlockPos (s32 x) (s32 y) (s32 z1)) (blocks st)) =
      {kv \<in> set (blocks st). pos_x (fst kv) = x \<and> pos_y (fst kv) = y \<and> z0 \<le> pos_z (fst kv) \<and> pos_z (fst kv) \<le> z1}"
    if "x \<in> {x0..x1}" "y \<in> {0..?h - 1}" for x y
  proof -
    have "in_s32 x" using that(1) r(2,5) unfolding range_simps by auto
    moreover have "in_s32 y" using that(2) r(6) unfolding range_simps by auto
    ultimately have e: "s32 x = x" "s32 y = y" "s32 z0 = z0" "s32 z1 = z1" using r by (simp_all add: wrap_simps)
    have "BlockPos x y z0 \<le> k \<and> k \<le> BlockPos x y z1 \<longleftrightarrow>
        pos_x k = x \<and> pos_y k = y \<and> z0 \<le> pos_z k \<and> pos_z k \<le> z1" for k
      by (cases k) auto
    then show ?thesis
      unfolding e omap_range_set [OF ok] by (intro Collect_cong) (simp only: case_prod_unfold prod.collapse)
  qed
  have "set (source_blocks st x0 x1 z0 z1) = (\<Union>x \<in> {x0..x1}. \<Union>y \<in> {0..?h - 1}.
      {kv \<in> set (blocks st). pos_x (fst kv) = x \<and> pos_y (fst kv) = y \<and> z0 \<le> pos_z (fst kv) \<and> pos_z (fst kv) \<le> z1})"
    unfolding source_blocks_def set_concat set_map set_upto image_image by (simp add: one)
  also have "\<dots> = ?R" by auto
  finally show ?thesis .
qed

text \<open>The writes one chunk receives, in the order the code makes them.\<close>

definition cell_writes :: "block_pos \<Rightarrow> (block_pos \<times> runtime_id) list \<Rightarrow> ((int \<times> nat) \<times> runtime_id) list" where
  "cell_writes off kvs = map (\<lambda>kv. (cell_of off (fst kv), snd kv)) kvs"

lemma fold_materialize_block:
  assumes "\<And>kv. kv \<in> set kvs \<Longrightarrow> shift_ok off (fst kv) \<and> in_chunk off cp (fst kv)"
  shows "fold_result (materialize_block air il1 off (chunk_x cp * 16) (chunk_z cp * 16)) kvs ch =
    Inr (fold (\<lambda>(c, v). put_cell air il1 (fst c) (snd c) v) (cell_writes off kvs) ch)"
proof -
  have "fold_result (materialize_block air il1 off (chunk_x cp * 16) (chunk_z cp * 16)) kvs ch =
      Inr (fold (\<lambda>kv. put_cell air il1 (fst (cell_of off (fst kv))) (snd (cell_of off (fst kv))) (snd kv)) kvs ch)"
    using assms materialize_block_eq by (intro fold_result_total) (metis prod.collapse)
  then show ?thesis by (simp add: cell_writes_def fold_map comp_def)
qed

lemma fold_materialize_oob:
  assumes "\<And>kv. kv \<in> set kvs \<Longrightarrow> shift_ok off (fst kv)"
  shows "fold (materialize_oob air il1 off cp) kvs ch =
    fold (\<lambda>(c, v). put_cell air il1 (fst c) (snd c) v)
      (cell_writes off (filter (\<lambda>kv. in_chunk off cp (fst kv)) kvs)) ch"
  using assms
proof (induction kvs arbitrary: ch)
  case Nil
  then show ?case by (simp add: cell_writes_def)
next
  case (Cons kv kvs)
  have "materialize_oob air il1 off cp kv ch =
      (if in_chunk off cp (fst kv)
       then put_cell air il1 (fst (cell_of off (fst kv))) (snd (cell_of off (fst kv))) (snd kv) ch else ch)"
    using materialize_oob_eq [of off "fst kv" air il1 cp "snd kv" ch] Cons.prems by simp
  with Cons show ?case by (simp add: cell_writes_def)
qed

lemma cell_of_eq_iff:
  assumes "in_chunk off cp p" "in_chunk off cp q"
  shows "cell_of off p = cell_of off q \<longleftrightarrow> p = q"
proof
  assume "cell_of off p = cell_of off q"
  with assms have "pos_x p + pos_x off = pos_x q + pos_x off \<and> pos_y p + pos_y off = pos_y q + pos_y off \<and>
      pos_z p + pos_z off = pos_z q + pos_z off"
    unfolding cell_of_def in_chunk_def by (intro world_cell_inj) simp_all
  then show "p = q" by (simp add: block_pos.expand)
qed simp

definition chunk_sources :: "sparse_store \<Rightarrow> chunk_pos \<Rightarrow> (block_pos \<times> runtime_id) list" where
  "chunk_sources st cp =
    (let off = store_offset st
     in source_blocks st (max 0 (chunk_x cp * 16 - pos_x off))
          (min (width (original_size st) - 1) (chunk_x cp * 16 + 15 - pos_x off))
          (max 0 (chunk_z cp * 16 - pos_z off))
          (min (len (original_size st) - 1) (chunk_z cp * 16 + 15 - pos_z off)))"

lemma div16_iff: "(a::int) div 16 = c \<longleftrightarrow> c * 16 \<le> a \<and> a \<le> c * 16 + 15"
proof -
  have "a = 16 * (a div 16) + a mod 16" "0 \<le> a mod 16" "a mod 16 < 16" by simp_all
  then show ?thesis by linarith
qed

lemma set_chunk_sources:
  assumes ok: "omap_ok (blocks st)" and sz: "size_in_range (original_size st)"
    and ov: "chunk_overlaps st cp"
  shows "set (chunk_sources st cp) =
    {kv \<in> set (blocks st). \<not> outside (original_size st) (fst kv) \<and> in_chunk (store_offset st) cp (fst kv)}"
proof -
  have r: "in_s32 a" if "0 \<le> a" "a \<le> width (original_size st) - 1 \<or> a \<le> len (original_size st) - 1" for a
    using that sz by (auto simp: size_in_range_def range_simps)
  let ?off = "store_offset st"
  have rr: "in_s32 (max 0 (chunk_x cp * 16 - pos_x ?off))"
    "in_s32 (min (width (original_size st) - 1) (chunk_x cp * 16 + 15 - pos_x ?off))"
    "in_s32 (max 0 (chunk_z cp * 16 - pos_z ?off))"
    "in_s32 (min (len (original_size st) - 1) (chunk_z cp * 16 + 15 - pos_z ?off))"
    using ov by (intro r; force simp: chunk_overlaps_def)+
  have h: "in_s32 (height (original_size st))" using sz by (simp add: size_in_range_def)
  have z: "0 \<le> max 0 (chunk_x cp * 16 - pos_x ?off)" by simp
  show ?thesis
    unfolding chunk_sources_def Let_def set_source_blocks [OF ok rr z h] outside_def in_chunk_def div16_iff
    by (intro Collect_cong) (auto simp: not_le)
qed

lemma sparse_chunk_overlapping:
  assumes inv: "sparse_inv air st" and rng: "sparse_ranges st" and ov: "chunk_overlaps st cp"
  shows "sparse_chunk air il1 st cp ch =
    Inr (fold (\<lambda>(c, v). put_cell air il1 (fst c) (snd c) v)
      (cell_writes (store_offset st) (chunk_sources st cp @
        (if include_oob st then filter (\<lambda>kv. in_chunk (store_offset st) cp (fst kv)) (oob_blocks st) else []))) ch)"
proof -
  let ?off = "store_offset st"
  have ok: "omap_ok (blocks st)" "size_in_range (original_size st)"
    using inv rng by (simp_all add: sparse_inv_def sparse_ranges_def)
  have src: "shift_ok ?off (fst kv) \<and> in_chunk ?off cp (fst kv)" if "kv \<in> set (chunk_sources st cp)" for kv
    using that rng unfolding set_chunk_sources [OF ok ov] by (simp add: sparse_ranges_def)
  have oob: "shift_ok ?off (fst kv)" if "kv \<in> set (oob_blocks st)" for kv
  proof -
    have "(fst kv, snd kv) \<in> set (blocks st)"
      using inv that om.ents_look [OF ok(1)] by (force simp: sparse_inv_def)
    then show ?thesis using rng by (force simp: sparse_ranges_def)
  qed
  have f: "fold_result (materialize_block air il1 ?off (chunk_x cp * 16) (chunk_z cp * 16)) (chunk_sources st cp) ch =
      Inr (fold (\<lambda>(c, v). put_cell air il1 (fst c) (snd c) v) (cell_writes ?off (chunk_sources st cp)) ch)"
    by (rule fold_materialize_block) (rule src)
  have g: "fold (materialize_oob air il1 ?off cp) (oob_blocks st) c =
      fold (\<lambda>(c, v). put_cell air il1 (fst c) (snd c) v)
        (cell_writes ?off (filter (\<lambda>kv. in_chunk ?off cp (fst kv)) (oob_blocks st))) c" for c
    by (rule fold_materialize_oob) (rule oob)
  have "\<not> (min (width (original_size st) - 1) (chunk_x cp * 16 + 15 - pos_x ?off) < max 0 (chunk_x cp * 16 - pos_x ?off) \<or>
      min (len (original_size st) - 1) (chunk_z cp * 16 + 15 - pos_z ?off) < max 0 (chunk_z cp * 16 - pos_z ?off))"
    using ov unfolding chunk_overlaps_def by linarith
  then show ?thesis
    using f g unfolding sparse_chunk_def chunk_sources_def Let_def by (simp add: cell_writes_def)
qed

lemma sparse_chunk_not_overlapping:
  "\<not> chunk_overlaps st cp \<Longrightarrow> sparse_chunk air il1 st cp ch = Inr ch"
  unfolding chunk_overlaps_def sparse_chunk_def Let_def by (simp only: not_le de_Morgan_conj if_True)

lemma sparse_chunk_cells:
  assumes inv: "sparse_inv air st" and rng: "sparse_ranges st" and p: "in_chunk (store_offset st) cp p"
  shows "\<exists>ch. sparse_chunk air il1 st cp empty_chunk = Inr ch \<and>
    get_cell air ch (cell_of (store_offset st) p) =
      (if chunk_overlaps st cp then stored_block air st p else air)"
proof (cases "chunk_overlaps st cp")
  case False
  then show ?thesis by (simp add: sparse_chunk_not_overlapping)
next
  case ov: True
  let ?off = "store_offset st"
  let ?oob = "if include_oob st then filter (\<lambda>kv. in_chunk ?off cp (fst kv)) (oob_blocks st) else []"
  let ?kvs = "chunk_sources st cp @ ?oob"
  let ?ch = "fold (\<lambda>(c, v). put_cell air il1 (fst c) (snd c) v) (cell_writes ?off ?kvs) empty_chunk"
  have ok: "omap_ok (blocks st)" "size_in_range (original_size st)" "omap_ok (oob_blocks st)"
    using inv rng by (simp_all add: sparse_inv_def sparse_ranges_def)
  have sub: "kv \<in> set (blocks st)" if "kv \<in> set (oob_blocks st)" for kv
    using inv that om.ents_look [OF ok(1), of "fst kv" "snd kv"] by (force simp: sparse_inv_def)
  have kvs: "kv \<in> set ?kvs \<longleftrightarrow> kv \<in> set (blocks st) \<and> visible st (fst kv) \<and> in_chunk ?off cp (fst kv)" for kv
  proof -
    obtain k v where kv: "kv = (k, v)" by (cases kv)
    have "kv \<in> set (oob_blocks st) \<longleftrightarrow> kv \<in> set (blocks st) \<and> omap_find (oob_blocks st) k \<noteq> None"
    proof
      assume "kv \<in> set (oob_blocks st)"
      then show "kv \<in> set (blocks st) \<and> omap_find (oob_blocks st) k \<noteq> None"
        using sub kv om.ents_look [OF ok(3), of k v] by simp
    next
      assume a: "kv \<in> set (blocks st) \<and> omap_find (oob_blocks st) k \<noteq> None"
      then obtain w where w: "(k, w) \<in> set (oob_blocks st)"
        using om.ents_look [OF ok(3), of k] by auto
      with a sub [OF w] show "kv \<in> set (oob_blocks st)"
        using kv om.ents_look [OF ok(1), of k] by (metis option.inject)
    qed
    then show ?thesis
      unfolding visible_def set_append set_chunk_sources [OF ok(1,2) ov] by (auto simp: kv)
  qed
  have writes: "(cell_of ?off p, v) \<in> set (cell_writes ?off ?kvs) \<longleftrightarrow> (p, v) \<in> set ?kvs" for v
  proof
    assume "(cell_of ?off p, v) \<in> set (cell_writes ?off ?kvs)"
    then obtain kv where k: "kv \<in> set ?kvs" and e: "cell_of ?off p = cell_of ?off (fst kv)" "v = snd kv"
      unfolding cell_writes_def by auto
    have "in_chunk ?off cp (fst kv)" using k kvs [of kv] by blast
    from cell_of_eq_iff [OF p this] e(1) have "fst kv = p" by blast
    with k e(2) show "(p, v) \<in> set ?kvs" by (metis prod.collapse)
  next
    assume "(p, v) \<in> set ?kvs"
    then show "(cell_of ?off p, v) \<in> set (cell_writes ?off ?kvs)"
      unfolding cell_writes_def by force
  qed
  have "get_cell air ?ch (cell_of ?off p) =
      (if cell_of ?off p \<in> fst ` set (cell_writes ?off ?kvs)
       then case omap_find (blocks st) p of Some v \<Rightarrow> v | None \<Rightarrow> air else get_cell air empty_chunk (cell_of ?off p))"
  proof (rule cells.rd_fold_wr_unique)
    fix v
    assume "(cell_of ?off p, v) \<in> set (cell_writes ?off ?kvs)"
    then have "(p, v) \<in> set (blocks st)" using writes kvs by blast
    then show "v = (case omap_find (blocks st) p of Some v \<Rightarrow> v | None \<Rightarrow> air)"
      using om.ents_look [OF ok(1)] by simp
  qed
  also have "cell_of ?off p \<in> fst ` set (cell_writes ?off ?kvs) \<longleftrightarrow>
      visible st p \<and> omap_find (blocks st) p \<noteq> None"
  proof -
    have "cell_of ?off p \<in> fst ` set (cell_writes ?off ?kvs) \<longleftrightarrow> (\<exists>v. (cell_of ?off p, v) \<in> set (cell_writes ?off ?kvs))"
      by force
    also have "\<dots> \<longleftrightarrow> visible st p \<and> omap_find (blocks st) p \<noteq> None"
      unfolding writes kvs using p by (auto simp: om.ents_look [OF ok(1)])
    finally show ?thesis .
  qed
  finally have "get_cell air ?ch (cell_of ?off p) = stored_block air st p"
    by (auto simp: stored_block_def split: option.split)
  then show ?thesis using sparse_chunk_overlapping [OF inv rng ov, of il1 empty_chunk] ov by simp
qed

section \<open>Whole requests\<close>

lemma emplace_all_aux:
  "umap_ok m \<Longrightarrow> umap_ok (fold (\<lambda>p m. umap_emplace p v m) ps m) \<and>
    map_of (fold (\<lambda>p m. umap_emplace p v m) ps m) k =
      (case map_of m k of Some w \<Rightarrow> Some w | None \<Rightarrow> if k \<in> set ps then Some v else None)"
  by (induction ps arbitrary: m) (auto simp: umap_ok_emplace map_of_umap_emplace split: option.splits)

lemma umap_ok_emplace_all: "umap_ok (emplace_all v ps)"
  and map_of_emplace_all: "map_of (emplace_all v ps) k = (if k \<in> set ps then Some v else None)"
  using emplace_all_aux [of "[]" v ps k] by (simp_all add: emplace_all_def umap_ok_def)

lemma set_emplace_all: "kv \<in> set (emplace_all v ps) \<longleftrightarrow> fst kv \<in> set ps \<and> snd kv = v"
proof -
  have "kv \<in> set (emplace_all v ps) \<longleftrightarrow> map_of (emplace_all v ps) (fst kv) = Some (snd kv)"
    using um.ents_look [OF umap_ok_emplace_all, of "fst kv" "snd kv"] by simp
  then show ?thesis by (auto simp: map_of_emplace_all)
qed

lemma fill_chunks_eq:
  assumes "\<And>cp. cp \<in> set ps \<Longrightarrow> fill cp empty_chunk = Inr (g cp)"
  shows "\<exists>m. fill_chunks fill ps = Inr m \<and> umap_ok m \<and>
    (\<forall>k. map_of m k = (if k \<in> set ps then Some (g k) else None))"
proof -
  let ?m = "emplace_all empty_chunk ps"
  let ?kvs = "map (\<lambda>kv. (fst kv, g (fst kv))) ?m"
  have "fill_chunks fill ps = Inr (fold (\<lambda>kv acc. umap_put (fst kv) (g (fst kv)) acc) ?m ?m)"
    unfolding fill_chunks_def by (rule fold_result_total) (simp add: set_emplace_all assms)
  also have "fold (\<lambda>kv acc. umap_put (fst kv) (g (fst kv)) acc) ?m ?m = fold (\<lambda>(k, v). umap_put k v) ?kvs ?m"
    by (simp add: fold_map comp_def)
  finally have e: "fill_chunks fill ps = Inr (fold (\<lambda>(k, v). umap_put k v) ?kvs ?m)" .
  have d: "distinct (map fst ?kvs)"
    using umap_ok_emplace_all [of empty_chunk ps] by (simp add: umap_ok_def comp_def)
  have "map_of (rev ?kvs) k = (if k \<in> set ps then Some (g k) else None)" for k
  proof (cases "k \<in> set ps")
    case True
    then have "(k, empty_chunk) \<in> set ?m" by (simp add: set_emplace_all)
    then have "(k, g k) \<in> set (rev ?kvs)" by (force simp: image_iff)
    then show ?thesis using True d by (simp add: map_of_eq_Some_iff rev_map [symmetric])
  next
    case False
    then show ?thesis by (force simp: map_of_eq_None_iff set_emplace_all image_iff)
  qed
  then show ?thesis
    using e um.put_fold_look [OF umap_ok_emplace_all [of empty_chunk ps], of ?kvs]
    by (auto simp: map_of_emplace_all)
qed

lemma get_chunks_impl_eq:
  assumes "\<And>cp. cp \<in> set ps \<Longrightarrow> sparse_chunk air il1 st cp empty_chunk = Inr (g cp)"
  shows "\<exists>m. get_chunks_impl air st ps il1 = Inr m \<and> umap_ok m \<and>
    (\<forall>k. map_of m k = (if k \<in> set ps then Some (g k) else None))"
  unfolding get_chunks_impl_def by (rule fill_chunks_eq) (rule assms)

definition world_pos_ok :: "int \<Rightarrow> int \<Rightarrow> int \<Rightarrow> bool" where
  "world_pos_ok x y z \<longleftrightarrow> in_s32 x \<and> in_s32 y \<and> in_s32 (y - 64) \<and> in_s32 z"

text \<open>
  The refinement: reading the delivered chunks at a world position gives the abstract
  content of the store at the corresponding local position. A chunk that does not meet the
  declared box is left empty.
\<close>

lemma get_chunks_impl_refines:
  assumes inv: "sparse_inv air st" and rng: "sparse_ranges st"
  shows "\<exists>m. get_chunks_impl air st ps il1 = Inr m \<and> fst ` set m = set ps \<and>
    (\<forall>x y z. world_pos_ok x y z \<and> ChunkPos (x div 16) (z div 16) \<in> set ps \<longrightarrow>
      block_at m air x y z =
        (if chunk_overlaps st (ChunkPos (x div 16) (z div 16))
         then stored_block air st
           (BlockPos (x - pos_x (store_offset st)) (y - pos_y (store_offset st)) (z - pos_z (store_offset st)))
         else air))"
proof -
  let ?off = "store_offset st"
  have ok: "\<exists>ch. sparse_chunk air il1 st cp empty_chunk = Inr ch" for cp
    using sparse_chunk_cells [OF inv rng, of cp "BlockPos (chunk_x cp * 16 - pos_x ?off) 0 (chunk_z cp * 16 - pos_z ?off)"]
    by (auto simp: in_chunk_def)
  then obtain g where g: "\<And>cp. sparse_chunk air il1 st cp empty_chunk = Inr (g cp)" by metis
  obtain m where m: "get_chunks_impl air st ps il1 = Inr m" "umap_ok m"
      "\<And>k. map_of m k = (if k \<in> set ps then Some (g k) else None)"
    using get_chunks_impl_eq [of ps air il1 st g] g by auto
  have "fst ` set m = set ps"
    using m(3) by (auto simp: set_eq_iff dom_map_of_conv_image_fst [symmetric] domIff)
  moreover have "block_at m air x y z =
        (if chunk_overlaps st (ChunkPos (x div 16) (z div 16))
         then stored_block air st (BlockPos (x - pos_x ?off) (y - pos_y ?off) (z - pos_z ?off)) else air)"
    if "world_pos_ok x y z" "ChunkPos (x div 16) (z div 16) \<in> set ps" for x y z
  proof -
    let ?cp = "ChunkPos (x div 16) (z div 16)"
    let ?p = "BlockPos (x - pos_x ?off) (y - pos_y ?off) (z - pos_z ?off)"
    have "in_chunk ?off ?cp ?p" by (simp add: in_chunk_def)
    from sparse_chunk_cells [OF inv rng this, of il1] g [of ?cp]
    have "get_cell air (g ?cp) (world_cell x y z) = (if chunk_overlaps st ?cp then stored_block air st ?p else air)"
      by (simp add: cell_of_def)
    then show ?thesis
      using that m(3) [of ?cp] by (simp add: block_at_eq world_pos_ok_def)
  qed
  ultimately show ?thesis using m(1) by blast
qed

lemma inside_overlaps:
  assumes "\<not> outside (original_size st) p"
  shows "chunk_overlaps st (ChunkPos ((pos_x p + pos_x (store_offset st)) div 16) ((pos_z p + pos_z (store_offset st)) div 16))"
  using assms div16_iff [of "pos_x p + pos_x (store_offset st)", THEN iffD1, OF refl]
    div16_iff [of "pos_z p + pos_z (store_offset st)", THEN iffD1, OF refl]
  unfolding chunk_overlaps_def outside_def chunk_pos.sel max.bounded_iff min.bounded_iff
  by (elim conjE) (intro conjI; linarith)

section \<open>Block entities\<close>

definition entity_of :: "block_pos \<Rightarrow> block_pos \<times> nbt_payload \<Rightarrow> block_entity" where
  "entity_of off e =
    \<lparr>entity_pos = BlockPos ((pos_x (fst e) + pos_x off) mod 16) (pos_y (fst e) + pos_y off - 64)
       ((pos_z (fst e) + pos_z off) mod 16), entity_payload = snd e\<rparr>"

lemma deliver_entity_eq:
  assumes ok: "shift_ok off (fst e)"
  shows "map_of (deliver_entity off e m) cp =
    (if in_chunk off cp (fst e) then map_option (\<lambda>es. es @ [entity_of off e]) (map_of m cp) else map_of m cp)"
proof -
  let ?x = "pos_x (fst e) + pos_x off" and ?y = "pos_y (fst e) + pos_y off" and ?z = "pos_z (fst e) + pos_z off"
  have r: "in_s32 ?x" "in_s32 (?y - 64)" "in_s32 ?z" using ok by (simp_all add: shift_ok_def)
  have y: "structure_y_to_chunk_local ?y = ?y - 64"
    using s32_id [OF r(2)] by (simp add: structure_y_to_chunk_local_def kOverworldMinY_def)
  have e: "deliver_entity off e m =
      (case map_of m (ChunkPos (?x div 16) (?z div 16)) of None \<Rightarrow> m
       | Some es \<Rightarrow> umap_put (ChunkPos (?x div 16) (?z div 16)) (es @ [entity_of off e]) m)"
    unfolding deliver_entity_def world_of_eq [OF ok] block_to_chunk_def Let_def block_pos.sel chunk_pos.sel
      floor_div16 [OF r(1)] floor_div16 [OF r(3)] s32_block_rest [OF r(1)] s32_block_rest [OF r(3)] y
    unfolding entity_of_def by (rule refl)
  have c: "in_chunk off cp (fst e) \<longleftrightarrow> cp = ChunkPos (?x div 16) (?z div 16)"
    by (cases cp) (auto simp: in_chunk_def)
  show ?thesis unfolding e c by (simp add: map_of_umap_put split: option.split)
qed

lemma fold_deliver_entity:
  assumes "\<And>e. e \<in> set es \<Longrightarrow> shift_ok off (fst e)"
  shows "map_of (fold (deliver_entity off) es m) cp =
    map_option (\<lambda>l. l @ map (entity_of off) (filter (\<lambda>e. in_chunk off cp (fst e)) es)) (map_of m cp)"
  using assms
proof (induction es arbitrary: m)
  case Nil
  then show ?case by (simp add: option.map_ident)
next
  case (Cons e es)
  then show ?case by (simp add: deliver_entity_eq option.map_comp comp_def)
qed

lemma get_chunk_nbt_spec:
  assumes "\<forall>e \<in> set (entities st). shift_ok (store_offset st) (fst e)" and "cp \<in> set ps"
  shows "map_of (get_chunk_nbt st ps) cp =
    Some (map (entity_of (store_offset st))
      (filter (\<lambda>e. in_chunk (store_offset st) cp (fst e)) (entities st)))"
  using assms by (simp add: get_chunk_nbt_def fold_deliver_entity map_of_emplace_all)

section \<open>Properties\<close>

text \<open>
  C34: whatever sequence of updates a reader makes, \<open>mNonAirBlocks\<close> is the number of
  positions whose stored block is not air (modulo the width of the counter), and every
  out-of-bounds record is also in the block map with the same value.
\<close>

theorem sparse_counter_exact:
  "non_air_blocks (sparse_run air ops) =
     u64 (int (card {p. \<exists>v. omap_find (blocks (sparse_run air ops)) p = Some v \<and> v \<noteq> air})) \<and>
   (\<forall>(p, v) \<in> set (oob_blocks (sparse_run air ops)). omap_find (blocks (sparse_run air ops)) p = Some v)"
proof -
  let ?st = "sparse_run air ops"
  have inv: "sparse_inv air ?st" by (rule sparse_run_inv)
  then have ok: "omap_ok (blocks ?st)" by (simp add: sparse_inv_def)
  show ?thesis
    using inv om.count_ents [OF ok, of "\<lambda>k v. v \<noteq> air"] by (auto simp: sparse_inv_def)
qed

theorem sparse_counter_exact_witness:
  "non_air_blocks (sparse_run 0 [OpPut (BlockPos 1 2 3) 7, OpPut (BlockPos 1 2 3) 0, OpPut (BlockPos 4 5 6) 9]) = 1 \<and>
   u64 (int (card {p. \<exists>v. omap_find (blocks (sparse_run 0
     [OpPut (BlockPos 1 2 3) 7, OpPut (BlockPos 1 2 3) 0, OpPut (BlockPos 4 5 6) 9])) p = Some v \<and> v \<noteq> 0})) = 1"
proof -
  have "non_air_blocks (sparse_run 0 [OpPut (BlockPos 1 2 3) 7, OpPut (BlockPos 1 2 3) 0, OpPut (BlockPos 4 5 6) 9]) = 1"
    by code_simp
  with sparse_counter_exact [of 0 "[OpPut (BlockPos 1 2 3) 7, OpPut (BlockPos 1 2 3) 0, OpPut (BlockPos 4 5 6) 9]"]
  show ?thesis by simp
qed


definition sample_ops :: "sparse_op list" where
  "sample_ops = [OpSetSize \<lparr>width = 20, height = 4, len = 3\<rparr>, OpPut (BlockPos 17 1 2) 7,
     OpSetOffset (BlockPos (- 3) 70 5)]"

lemma sample_ranges: "sparse_ranges (sparse_run 0 sample_ops)"
  unfolding sparse_ranges_def size_in_range_def pos_in_range_def shift_ok_def in_s32_def
    INT32_MIN_def INT32_MAX_def by code_simp


text \<open>
  C35: \<open>get_chunk_nbt\<close> delivers for each requested chunk exactly the block entities whose
  world position lies in it, in position order, each with its chunk-local x and z and its
  y lowered by 64, and with its payload unchanged.
\<close>

theorem sparse_get_chunk_nbt:
  assumes "\<forall>e \<in> set (entities (sparse_run air ops)). shift_ok (store_offset (sparse_run air ops)) (fst e)"
    and "cp \<in> set ps"
  shows "map_of (get_chunk_nbt (sparse_run air ops) ps) cp =
    (let off = store_offset (sparse_run air ops)
     in Some (map (\<lambda>(p, payload).
            \<lparr>entity_pos = BlockPos ((pos_x p + pos_x off) mod 16) (pos_y p + pos_y off - 64)
               ((pos_z p + pos_z off) mod 16), entity_payload = payload\<rparr>)
          (filter (\<lambda>(p, payload). (pos_x p + pos_x off) div 16 = chunk_x cp \<and>
              (pos_z p + pos_z off) div 16 = chunk_z cp) (entities (sparse_run air ops)))))"
  using get_chunk_nbt_spec [OF assms]
  by (simp add: Let_def entity_of_def in_chunk_def case_prod_unfold)

theorem sparse_get_chunk_nbt_witness:
  "map_of (get_chunk_nbt (sparse_run 0 [OpPutEntity (BlockPos 17 1 2) [10, 0]]) [ChunkPos 1 0]) (ChunkPos 1 0) =
    Some [\<lparr>entity_pos = BlockPos 1 (- 63) 2, entity_payload = [10, 0]\<rparr>]"
proof -
  have e: "entities (sparse_run 0 [OpPutEntity (BlockPos 17 1 2) [10, 0]]) = [(BlockPos 17 1 2, [10, 0])]"
    "store_offset (sparse_run 0 [OpPutEntity (BlockPos 17 1 2) [10, 0]]) = BlockPos 0 0 0"
    by (simp_all add: sparse_run_def sparse_clear_def put_entity_def)
  show ?thesis
    using sparse_get_chunk_nbt [of 0 "[OpPutEntity (BlockPos 17 1 2) [10, 0]]" "ChunkPos 1 0" "[ChunkPos 1 0]"]
    by (simp add: e shift_ok_def range_simps)
qed


end
