(* ===== verification/WS_Stream.thy ===== *)
theory WS_Stream
  imports WS_Sparse "HOL-Library.Sublist"
begin

text \<open>
  The adapters that turn a structure into a stream of chunks: the default
  \<open>visit_chunks\<close>, \<open>visit_chunk_nbt\<close> and \<open>visit_chunk_palettes\<close> of \<open>IStructure\<close>
  (\<open>include/WaterStructure/structure.hpp\<close>) and \<open>produce_structure_batch\<close>,
  \<open>from_structure\<close> and \<open>from_structure_grid\<close> of \<open>src/core/chunk_stream.cpp\<close>. A structure
  is its two reading functions. A visitor threads the state of the sink, also when it
  fails, because what was pushed stays pushed. The interface \<open>chunk_source\<close> states what the
  adapters rely on; \<open>SparseBlockStore\<close> provides it. The lemmas show that neither the batch
  size nor the grid loop changes what the sink receives.
\<close>

section \<open>Default visitors\<close>

datatype 'e struct_error = ChunkVisitorEmpty | NbtVisitorEmpty | PaletteVisitorEmpty
  | PaletteUnsupported | SourceError 'e

type_synonym ('e, 's) outcome = "('e struct_error, unit) result \<times> 's"

fun visit_each ::
  "(chunk_pos \<Rightarrow> 's \<Rightarrow> ('e, 's) outcome) \<Rightarrow> chunk_pos list \<Rightarrow> 's \<Rightarrow> ('e, 's) outcome" where
  "visit_each f [] s = (Inr (), s)"
| "visit_each f (p # ps) s =
     (case f p s of (Inl e, s') \<Rightarrow> (Inl e, s') | (Inr u, s') \<Rightarrow> visit_each f ps s')"

definition visit_chunks ::
  "(chunk_pos list \<Rightarrow> ('e struct_error, chunk_map) result) \<Rightarrow> chunk_pos list \<Rightarrow>
   (chunk_pos \<Rightarrow> chunk_data \<Rightarrow> 's \<Rightarrow> ('e, 's) outcome) option \<Rightarrow> 's \<Rightarrow> ('e, 's) outcome" where
  "visit_chunks chunks positions visitor s =
    (case visitor of
       None \<Rightarrow> (Inl ChunkVisitorEmpty, s)
     | Some v \<Rightarrow> visit_each (\<lambda>p s.
         case chunks [p] of
           Inl e \<Rightarrow> (Inl e, s)
         | Inr m \<Rightarrow> (case map_of m p of None \<Rightarrow> (Inr (), s) | Some ch \<Rightarrow> v p ch s)) positions s)"

definition visit_chunk_nbt ::
  "(chunk_pos list \<Rightarrow> ('e struct_error, nbt_chunk_map) result) \<Rightarrow> chunk_pos list \<Rightarrow>
   (chunk_pos \<Rightarrow> block_entity list \<Rightarrow> 's \<Rightarrow> ('e, 's) outcome) option \<Rightarrow> 's \<Rightarrow> ('e, 's) outcome" where
  "visit_chunk_nbt nbt positions visitor s =
    (case visitor of
       None \<Rightarrow> (Inl NbtVisitorEmpty, s)
     | Some v \<Rightarrow> visit_each (\<lambda>p s.
         case nbt [p] of
           Inl e \<Rightarrow> (Inl e, s)
         | Inr m \<Rightarrow> (case map_of m p of None \<Rightarrow> (Inr (), s) | Some es \<Rightarrow> v p es s)) positions s)"

definition visit_chunk_palettes ::
  "chunk_pos list \<Rightarrow> (chunk_pos \<Rightarrow> 'p \<Rightarrow> 's \<Rightarrow> ('e, 's) outcome) option \<Rightarrow> 's \<Rightarrow> ('e, 's) outcome" where
  "visit_chunk_palettes positions visitor s =
    (case visitor of None \<Rightarrow> (Inl PaletteVisitorEmpty, s) | Some v \<Rightarrow> (Inl PaletteUnsupported, s))"

section \<open>Producers\<close>

record stream_chunk =
  chunk_position :: chunk_pos
  chunk_blocks :: chunk_data
  chunk_entities :: "block_entity list"

text \<open>
  The visitor moves the entities out of the map, so the map is part of the state: a
  position visited twice in one batch finds its entities gone.
\<close>

definition push_item ::
  "(stream_chunk \<Rightarrow> 's \<Rightarrow> ('e, 's) outcome) \<Rightarrow> chunk_pos \<Rightarrow> chunk_data \<Rightarrow> nbt_chunk_map \<times> 's \<Rightarrow>
   ('e, nbt_chunk_map \<times> 's) outcome" where
  "push_item push p ch ms =
    (let (m, s) = ms;
         (es, m') = (case map_of m p of None \<Rightarrow> ([], m) | Some es \<Rightarrow> (es, umap_put p [] m));
         (r, s') = push \<lparr>chunk_position = p, chunk_blocks = ch, chunk_entities = es\<rparr> s
     in (r, (m', s')))"

definition produce_structure_batch ::
  "(chunk_pos list \<Rightarrow> ('e struct_error, chunk_map) result) \<Rightarrow>
   (chunk_pos list \<Rightarrow> ('e struct_error, nbt_chunk_map) result) \<Rightarrow>
   (stream_chunk \<Rightarrow> 's \<Rightarrow> ('e, 's) outcome) \<Rightarrow> chunk_pos list \<Rightarrow> 's \<Rightarrow> ('e, 's) outcome" where
  "produce_structure_batch chunks nbt push batch s =
    (case nbt batch of
       Inl e \<Rightarrow> (Inl e, s)
     | Inr m \<Rightarrow>
         (let (r, (m', s')) = visit_chunks chunks batch (Some (push_item push)) (m, s)
          in (r, s')))"

function batch_loop ::
  "(chunk_pos list \<Rightarrow> 's \<Rightarrow> ('e, 's) outcome) \<Rightarrow> nat \<Rightarrow> chunk_pos list \<Rightarrow> 's \<Rightarrow> ('e, 's) outcome" where
  "batch_loop produce n positions s =
    (if positions = [] \<or> n = 0 then (Inr (), s)
     else
       case produce (take n positions) s of
         (Inl e, s') \<Rightarrow> (Inl e, s')
       | (Inr u, s') \<Rightarrow> batch_loop produce n (drop n positions) s')"
  by auto
termination
  by (relation "measure (\<lambda>(_, _, ps, _). length ps)") auto

declare batch_loop.simps [simp del]

definition from_structure ::
  "(chunk_pos list \<Rightarrow> 's \<Rightarrow> ('e, 's) outcome) \<Rightarrow> chunk_pos list \<Rightarrow> nat \<Rightarrow> 's \<Rightarrow> ('e, 's) outcome" where
  "from_structure produce positions source_batch_size s =
    batch_loop produce (max source_batch_size 1) positions s"

definition grid :: "wsize \<Rightarrow> chunk_pos list" where
  "grid sz = concat (map (\<lambda>z. map (\<lambda>x. ChunkPos x z) [0..max 0 (chunk_x_count sz) - 1])
     [0..max 0 (chunk_z_count sz) - 1])"

fun grid_loop ::
  "(chunk_pos list \<Rightarrow> 's \<Rightarrow> ('e, 's) outcome) \<Rightarrow> nat \<Rightarrow> chunk_pos list \<Rightarrow> chunk_pos list \<Rightarrow> 's \<Rightarrow>
   ('e, 's) outcome" where
  "grid_loop produce n [] batch s =
     (if batch \<noteq> [] then produce batch s else (Inr (), s))"
| "grid_loop produce n (p # ps) batch s =
     (if length (batch @ [p]) < n then grid_loop produce n ps (batch @ [p]) s
      else
        case produce (batch @ [p]) s of
          (Inl e, s') \<Rightarrow> (Inl e, s')
        | (Inr u, s') \<Rightarrow> grid_loop produce n ps [] s')"

definition from_structure_grid ::
  "(chunk_pos list \<Rightarrow> 's \<Rightarrow> ('e, 's) outcome) \<Rightarrow> wsize \<Rightarrow> nat \<Rightarrow> 's \<Rightarrow> ('e, 's) outcome" where
  "from_structure_grid produce sz source_batch_size s =
    grid_loop produce (max source_batch_size 1) (grid sz) [] s"

section \<open>The sink's view\<close>

text \<open>The reference: push the items one by one, and stop at the first that fails.\<close>

fun push_all :: "('i \<Rightarrow> 's \<Rightarrow> ('e, 's) outcome) \<Rightarrow> 'i list \<Rightarrow> 's \<Rightarrow> ('e, 's) outcome" where
  "push_all push [] s = (Inr (), s)"
| "push_all push (i # is) s =
     (case push i s of (Inl e, s') \<Rightarrow> (Inl e, s') | (Inr u, s') \<Rightarrow> push_all push is s')"

lemma push_all_append:
  "push_all push (xs @ ys) s =
    (case push_all push xs s of (Inl e, s') \<Rightarrow> (Inl e, s') | (Inr u, s') \<Rightarrow> push_all push ys s')"
  by (induction xs arbitrary: s) (auto split: prod.split sum.split)

lemma batch_loop_push_all:
  assumes "0 < n"
    and "\<And>b s. b \<noteq> [] \<Longrightarrow> sublist b ps \<Longrightarrow> produce b s = push_all push (map item b) s"
  shows "batch_loop produce n ps s = push_all push (map item ps) s"
  using assms(2)
proof (induction "length ps" arbitrary: ps s rule: less_induct)
  case less
  show ?case
  proof (cases "ps = []")
    case True
    then show ?thesis by (simp add: batch_loop.simps)
  next
    case False
    have take: "take n ps \<noteq> []" using False assms(1) by simp
    have sub: "sublist b (drop n ps) \<Longrightarrow> sublist b ps" for b
      by (metis sublist_drop sublist_order.order_trans)
    have "produce (take n ps) s = push_all push (map item (take n ps)) s"
      using take by (rule less.prems) (rule sublist_take)
    moreover have "batch_loop produce n (drop n ps) s' = push_all push (map item (drop n ps)) s'" for s'
      using False assms(1) less.prems sub by (intro less.hyps) auto
    moreover have "push_all push (map item ps) s =
        push_all push (map item (take n ps) @ map item (drop n ps)) s"
      by (simp flip: map_append)
    ultimately show ?thesis
      using False assms(1) by (simp add: batch_loop.simps [of produce n ps] push_all_append
        split: prod.split sum.split)
  qed
qed

lemma grid_loop_push_all:
  assumes "\<And>b s. b \<noteq> [] \<Longrightarrow> sublist b (batch @ ps) \<Longrightarrow> produce b s = push_all push (map item b) s"
  shows "grid_loop produce n ps batch s = push_all push (map item (batch @ ps)) s"
  using assms
proof (induction produce n ps batch s rule: grid_loop.induct)
  case (1 produce n batch s)
  then show ?case by simp
next
  case (2 produce n p ps batch s)
  have b: "produce (batch @ [p]) s = push_all push (map item (batch @ [p])) s"
    by (rule "2.prems") (auto intro: sublist_appendI [of "batch @ [p]" "[]" ps, simplified])
  have rest: "sublist b ps \<Longrightarrow> sublist b (batch @ p # ps)" for b
    by (metis append_Cons append_Nil sublist_append_leftI sublist_order.order_trans sublist_Cons_right)
  have split: "push_all push (map item (batch @ p # ps)) s =
      push_all push (map item (batch @ [p]) @ map item ps) s"
    by simp
  show ?case
  proof (cases "length (batch @ [p]) < n")
    case True
    then show ?thesis using "2.IH"(1) "2.prems" by simp
  next
    case False
    have "grid_loop produce n ps [] s' = push_all push (map item ps) s'"
      if "produce (batch @ [p]) s = (Inr u, s')" for s' u
      using "2.IH"(2) [OF False that [symmetric]] "2.prems" rest by auto
    then show ?thesis
      unfolding split push_all_append b [symmetric] using False by (auto split: prod.split sum.split)
  qed
qed

section \<open>The interface of a source\<close>

text \<open>
  What the adapters rely on: a valid structure answers every request, a requested chunk
  and its entities are in the answer, and they do not depend on the rest of the request.
\<close>

locale chunk_source =
  fixes chunks :: "'st \<Rightarrow> chunk_pos list \<Rightarrow> ('e struct_error, chunk_map) result"
    and nbt :: "'st \<Rightarrow> chunk_pos list \<Rightarrow> ('e struct_error, nbt_chunk_map) result"
    and valid :: "'st \<Rightarrow> bool"
    and data :: "'st \<Rightarrow> chunk_pos \<Rightarrow> chunk_data"
    and ents :: "'st \<Rightarrow> chunk_pos \<Rightarrow> block_entity list"
  assumes chunks_one: "valid st \<Longrightarrow> \<exists>m. chunks st [p] = Inr m \<and> map_of m p = Some (data st p)"
    and nbt_all: "valid st \<Longrightarrow> \<exists>m. nbt st ps = Inr m \<and> (\<forall>p \<in> set ps. map_of m p = Some (ents st p))"
begin

definition item :: "'st \<Rightarrow> chunk_pos \<Rightarrow> stream_chunk" where
  "item st p = \<lparr>chunk_position = p, chunk_blocks = data st p, chunk_entities = ents st p\<rparr>"

lemma visit_each_items:
  assumes v: "valid st" and "distinct ps" and "\<forall>p \<in> set ps. map_of m p = Some (ents st p)"
  shows "\<exists>m'. visit_each (\<lambda>p s.
         case chunks st [p] of
           Inl e \<Rightarrow> (Inl e, s)
         | Inr m \<Rightarrow> (case map_of m p of None \<Rightarrow> (Inr (), s) | Some ch \<Rightarrow> push_item push p ch s)) ps (m, s) =
      (let (r, s') = push_all push (map (item st) ps) s in (r, (m', s')))"
  using assms(2,3)
proof (induction ps arbitrary: m s)
  case Nil
  then show ?case by simp
next
  case (Cons p ps)
  obtain c where c: "chunks st [p] = Inr c" "map_of c p = Some (data st p)"
    using chunks_one [OF v, of p] by blast
  obtain r s' where push: "push (item st p) s = (r, s')" by force
  have step: "push_item push p (data st p) (m, s) = (r, (umap_put p [] m, s'))"
    using Cons.prems push by (simp add: push_item_def item_def)
  have "\<forall>q \<in> set ps. map_of (umap_put p [] m) q = Some (ents st q)"
    using Cons.prems by (auto simp: map_of_umap_put)
  with Cons.IH [of "umap_put p [] m" s'] Cons.prems c step push show ?case
    by (cases r) (simp_all split: prod.split)
qed

lemma produce_batch_items:
  assumes "valid st" and "distinct ps"
  shows "produce_structure_batch (chunks st) (nbt st) push ps s = push_all push (map (item st) ps) s"
proof -
  obtain m where m: "nbt st ps = Inr m" "\<forall>p \<in> set ps. map_of m p = Some (ents st p)"
    using nbt_all [OF assms(1)] by blast
  obtain r s' where push: "push_all push (map (item st) ps) s = (r, s')" by force
  from visit_each_items [OF assms m(2), of push s] push show ?thesis
    by (auto simp: produce_structure_batch_def visit_chunks_def m(1))
qed

lemma from_structure_items:
  assumes "valid st" and "distinct ps"
  shows "from_structure (produce_structure_batch (chunks st) (nbt st) push) ps n s =
    push_all push (map (item st) ps) s"
  unfolding from_structure_def
  by (rule batch_loop_push_all)
    (use assms in \<open>auto intro!: produce_batch_items simp: sublist_def\<close>)

lemma grid_items:
  assumes "valid st" and "distinct (grid sz)"
  shows "from_structure_grid (produce_structure_batch (chunks st) (nbt st) push) sz n s =
    push_all push (map (item st) (grid sz)) s"
  unfolding from_structure_grid_def
  by (subst grid_loop_push_all [where item = "item st" and push = push])
    (use assms in \<open>auto intro!: produce_batch_items simp: sublist_def\<close>)

end

lemma distinct_grid: "distinct (grid sz)"
proof -
  let ?xs = "[0..max 0 (chunk_x_count sz) - 1]"
  have row: "distinct (map (\<lambda>x. ChunkPos x z) ?xs)" for z by (simp add: distinct_map inj_on_def)
  have "distinct (concat (map (\<lambda>z. map (\<lambda>x. ChunkPos x z) ?xs) zs))" if "distinct zs" for zs
    using that row by (induction zs) auto
  then show ?thesis by (simp add: grid_def)
qed

lemma set_grid:
  "p \<in> set (grid sz) \<longleftrightarrow> 0 \<le> chunk_x p \<and> chunk_x p < chunk_x_count sz \<and> 0 \<le> chunk_z p \<and> chunk_z p < chunk_z_count sz"
  by (cases p) (auto simp: grid_def image_iff)

section \<open>The sparse store as a source\<close>

definition sparse_source_chunks ::
  "runtime_id \<times> sparse_store \<Rightarrow> chunk_pos list \<Rightarrow> (sparse_error struct_error, chunk_map) result" where
  "sparse_source_chunks st ps =
    (case get_chunks (fst st) (snd st) ps of Inl e \<Rightarrow> Inl (SourceError e) | Inr m \<Rightarrow> Inr m)"

definition sparse_source_nbt ::
  "runtime_id \<times> sparse_store \<Rightarrow> chunk_pos list \<Rightarrow> (sparse_error struct_error, nbt_chunk_map) result" where
  "sparse_source_nbt st ps = Inr (get_chunk_nbt (snd st) ps)"

definition sparse_valid :: "runtime_id \<times> sparse_store \<Rightarrow> bool" where
  "sparse_valid st \<longleftrightarrow> sparse_inv (fst st) (snd st) \<and> sparse_ranges (snd st) \<and>
    (\<forall>e \<in> set (entities (snd st)). shift_ok (store_offset (snd st)) (fst e))"

definition sparse_data :: "runtime_id \<times> sparse_store \<Rightarrow> chunk_pos \<Rightarrow> chunk_data" where
  "sparse_data st cp = (case sparse_chunk (fst st) True (snd st) cp empty_chunk of
     Inr ch \<Rightarrow> ch | Inl e \<Rightarrow> empty_chunk)"

definition sparse_ents :: "runtime_id \<times> sparse_store \<Rightarrow> chunk_pos \<Rightarrow> block_entity list" where
  "sparse_ents st cp = map (entity_of (store_offset (snd st)))
     (filter (\<lambda>e. in_chunk (store_offset (snd st)) cp (fst e)) (entities (snd st)))"

lemma sparse_chunk_data:
  assumes "sparse_valid st"
  shows "sparse_chunk (fst st) True (snd st) cp empty_chunk = Inr (sparse_data st cp)"
proof -
  let ?off = "store_offset (snd st)"
  have "in_chunk ?off cp (BlockPos (chunk_x cp * 16 - pos_x ?off) 0 (chunk_z cp * 16 - pos_z ?off))"
    by (simp add: in_chunk_def)
  with assms obtain ch where "sparse_chunk (fst st) True (snd st) cp empty_chunk = Inr ch"
    unfolding sparse_valid_def using sparse_chunk_cells by blast
  then show ?thesis by (simp add: sparse_data_def)
qed

interpretation sparse_src: chunk_source sparse_source_chunks sparse_source_nbt sparse_valid sparse_data sparse_ents
proof
  fix st p
  assume v: "sparse_valid st"
  obtain m where "get_chunks_impl (fst st) (snd st) [p] True = Inr m"
    "map_of m p = Some (sparse_data st p)"
    using get_chunks_impl_eq [of "[p]" "fst st" True "snd st" "sparse_data st"] sparse_chunk_data [OF v] by auto
  then show "\<exists>m. sparse_source_chunks st [p] = Inr m \<and> map_of m p = Some (sparse_data st p)"
    by (simp add: sparse_source_chunks_def get_chunks_def)
next
  fix st ps
  assume "sparse_valid st"
  then show "\<exists>m. sparse_source_nbt st ps = Inr m \<and> (\<forall>p \<in> set ps. map_of m p = Some (sparse_ents st p))"
    by (auto simp: sparse_source_nbt_def sparse_valid_def sparse_ents_def intro!: get_chunk_nbt_spec)
qed

section \<open>Properties\<close>

text \<open>
  C24: streaming a sparse store over the grid of a size pushes, for every batch size and for
  every sink, what pushing the chunks one by one does: each chunk of the grid once, row by
  row, with its own blocks and entities, up to and including the first push that fails. A
  list of distinct positions is streamed in its order in the same way.
\<close>

theorem sparse_stream_batches:
  assumes "sparse_valid st"
  shows "from_structure_grid (produce_structure_batch (sparse_source_chunks st) (sparse_source_nbt st) push) sz n s =
      push_all push (map (\<lambda>p. \<lparr>chunk_position = p, chunk_blocks = sparse_data st p, chunk_entities = sparse_ents st p\<rparr>)
        (grid sz)) s \<and>
    (distinct ps \<longrightarrow>
      from_structure (produce_structure_batch (sparse_source_chunks st) (sparse_source_nbt st) push) ps n s =
      push_all push (map (\<lambda>p. \<lparr>chunk_position = p, chunk_blocks = sparse_data st p, chunk_entities = sparse_ents st p\<rparr>)
        ps) s)"
proof -
  have item: "sparse_src.item st =
      (\<lambda>p. \<lparr>chunk_position = p, chunk_blocks = sparse_data st p, chunk_entities = sparse_ents st p\<rparr>)"
    by (rule ext) (rule sparse_src.item_def)
  show ?thesis
    unfolding item [symmetric]
    by (intro conjI impI sparse_src.grid_items [OF assms distinct_grid] sparse_src.from_structure_items [OF assms])
qed

lemma sample_store_valid: "sparse_valid (0, sparse_run 0 sample_ops)"
proof -
  have "entities (sparse_run 0 sample_ops) = []" by code_simp
  then show ?thesis unfolding sparse_valid_def fst_conv snd_conv by (simp add: sparse_run_inv sample_ranges)
qed

definition log_push :: "stream_chunk \<Rightarrow> chunk_pos list \<Rightarrow> (sparse_error, chunk_pos list) outcome" where
  "log_push i s = (Inr (), s @ [chunk_position i])"

theorem sparse_stream_batches_witness:
  "from_structure_grid (produce_structure_batch (sparse_source_chunks (0, sparse_run 0 sample_ops))
      (sparse_source_nbt (0, sparse_run 0 sample_ops)) log_push) \<lparr>width = 20, height = 4, len = 17\<rparr> 3 [] =
    (Inr (), [ChunkPos 0 0, ChunkPos 1 0, ChunkPos 0 1, ChunkPos 1 1])"
proof -
  have g: "grid \<lparr>width = 20, height = 4, len = 17\<rparr> = [ChunkPos 0 0, ChunkPos 1 0, ChunkPos 0 1, ChunkPos 1 1]"
    by code_simp
  show ?thesis
    using sparse_stream_batches [OF sample_store_valid, of log_push "\<lparr>width = 20, height = 4, len = 17\<rparr>" 3 "[]" "[]"]
    unfolding g by (simp add: log_push_def)
qed

text \<open>
  The chunk grid of a size that fits 32 bits covers the structure: a column
  \<open>(x, z)\<close> lies in a chunk of the grid exactly when it is inside the chunk-aligned box,
  and every column of the structure does; each chunk is listed once.
\<close>

theorem grid_covers:
  assumes "size_in_range sz"
  shows "distinct (grid sz) \<and>
    (\<forall>x z. 0 \<le> x \<and> x < width sz \<and> 0 \<le> z \<and> z < len sz \<longrightarrow> ChunkPos (x div 16) (z div 16) \<in> set (grid sz)) \<and>
    (\<forall>p \<in> set (grid sz). 0 \<le> chunk_x p \<and> chunk_x p * 16 < width sz \<and> 0 \<le> chunk_z p \<and> chunk_z p * 16 < len sz)"
proof -
  have c: "chunk_x_count sz = max 0 ((width sz + 15) div 16)" "chunk_z_count sz = max 0 ((len sz + 15) div 16)"
    using assms by (simp_all add: size_in_range_def chunk_x_count_eq chunk_z_count_eq)
  have in_grid: "c < (w + 15) div 16 \<longleftrightarrow> c * 16 < w" for c w :: int
    using int_div_less_iff [of 16 "w + 15" "c + 1"] by linarith
  have lt: "x div 16 < (w + 15) div 16" if "x < w" for x w :: int
    unfolding in_grid using that div_mult_mod_eq [of x 16] pos_mod_sign [of 16 x] by linarith
  show ?thesis
    using distinct_grid [of sz] lt
    by (auto simp: set_grid c less_max_iff_disj in_grid [symmetric] pos_imp_zdiv_nonneg_iff)
qed

theorem grid_covers_witness:
  "ChunkPos (19 div 16) (16 div 16) \<in> set (grid \<lparr>width = 20, height = 4, len = 17\<rparr>)"
proof -
  have r: "size_in_range \<lparr>width = 20, height = 4, len = 17\<rparr>"
    by (simp add: size_in_range_def range_simps)
  show ?thesis
    by (rule grid_covers [OF r, THEN conjunct2, THEN conjunct1, rule_format]) simp
qed

end
