(* ===== verification/WS_Queue.thy ===== *)
theory WS_Queue
  imports WS_Prelude "HOL-Library.Sublist"
begin

text \<open>
  The bounded producer/consumer bridge of \<open>src/core/chunk_stream.cpp\<close>: \<open>QueueSink\<close>, the
  critical sections of which are functions on its state, and \<open>ChunkStream::pump\<close>, a step
  relation that interleaves the calling thread (which runs the producer) with the consumer
  thread. A wait on a condition variable is a step that is enabled only when its predicate
  holds. The producer is the list of the chunks it pushes and the result it returns after
  them; it stops at the first push that fails and returns that failure, as the producers
  of the file do. What the downstream sink answers is the parameter \<open>refuses\<close>, a function
  of the chunks it has accepted so far and of the next one.
\<close>

section \<open>The queue\<close>

datatype 'e stream_error = StreamCancelled | StreamFail 'e

record ('c, 'e) queue_sink =
  capacity :: nat
  queue :: "'c list"
  queue_error :: "'e stream_error option"
  closed :: bool

definition new_queue :: "nat \<Rightarrow> ('c, 'e) queue_sink" where
  "new_queue cap = \<lparr>capacity = max cap 1, queue = [], queue_error = None, closed = False\<rparr>"

text \<open>\<open>push\<close>: the predicate of \<open>mSpace.wait\<close>, and the section after it.\<close>

definition space_ready :: "('c, 'e) queue_sink \<Rightarrow> bool" where
  "space_ready q \<longleftrightarrow> closed q \<or> queue_error q \<noteq> None \<or> length (queue q) < capacity q"

definition queue_push :: "'c \<Rightarrow> ('c, 'e) queue_sink \<Rightarrow> ('e stream_error, ('c, 'e) queue_sink) result" where
  "queue_push c q =
    (case queue_error q of
       Some e \<Rightarrow> Inl e
     | None \<Rightarrow> if closed q then Inl StreamCancelled else Inr (q\<lparr>queue := queue q @ [c]\<rparr>))"

definition queue_close :: "('c, 'e) queue_sink \<Rightarrow> ('c, 'e) queue_sink" where
  "queue_close q = q\<lparr>closed := True\<rparr>"

definition queue_fail :: "'e stream_error \<Rightarrow> ('c, 'e) queue_sink \<Rightarrow> ('c, 'e) queue_sink" where
  "queue_fail e q =
    q\<lparr>queue_error := (case queue_error q of None \<Rightarrow> Some e | Some e' \<Rightarrow> Some e'),
      closed := True, queue := []\<rparr>"

text \<open>\<open>consume\<close>: the predicate of \<open>mReady.wait\<close>, and what the section after it decides.\<close>

definition chunk_ready :: "('c, 'e) queue_sink \<Rightarrow> bool" where
  "chunk_ready q \<longleftrightarrow> closed q \<or> queue q \<noteq> []"

datatype ('c, 'e) taken = Taken 'c | Ended "('e stream_error, unit) result" | Again

definition consume_take :: "('c, 'e) queue_sink \<Rightarrow> ('c, 'e) taken \<times> ('c, 'e) queue_sink" where
  "consume_take q =
    (case queue q of
       [] \<Rightarrow> (case queue_error q of
                Some e \<Rightarrow> (Ended (Inl e), q)
              | None \<Rightarrow> if closed q then (Ended (Inr ()), q) else (Again, q))
     | c # cs \<Rightarrow> (Taken c, q\<lparr>queue := cs\<rparr>))"

section \<open>Capacity\<close>

record stream_options =
  max_in_flight_chunks :: nat
  soft_memory_budget_bytes :: nat

definition kBytesPerChunk :: nat where "kBytesPerChunk = 2 * 1024 * 1024"

definition clamp :: "nat \<Rightarrow> nat \<Rightarrow> nat \<Rightarrow> nat" where
  "clamp v lo hi = (if v < lo then lo else if hi < v then hi else v)"

definition stream_capacity :: "stream_options \<Rightarrow> nat" where
  "stream_capacity opts =
    (let budget = max (soft_memory_budget_bytes opts) kBytesPerChunk;
         budget_capacity = clamp (budget div kBytesPerChunk) 1 128
     in if max_in_flight_chunks opts = 0 then budget_capacity
        else min (clamp (max_in_flight_chunks opts) 1 4096) budget_capacity)"

section \<open>The two threads\<close>

text \<open>
  The calling thread: still producing, inside \<open>fail\<close> (its locked section, then the call of
  \<open>cancel\<close>), before \<open>close\<close>, before \<open>join\<close>, returned.
\<close>

datatype ('c, 'e) caller = Producing "'c list" | FailLocked "'e stream_error"
  | FailCancel "'e stream_error" | Closing "('e stream_error, unit) result"
  | Joining "('e stream_error, unit) result" | Returned "('e stream_error, unit) result"

text \<open>The consumer: waiting, in \<open>mDownstream.push\<close>, in the two parts of \<open>fail\<close>, ended.\<close>

datatype ('c, 'e) consumer = Waiting | Pushing 'c | CFailLocked "'e stream_error"
  | CFailCancel "'e stream_error" | CDone "('e stream_error, unit) result"

record ('c, 'e) pump =
  sink :: "('c, 'e) queue_sink"
  caller :: "('c, 'e) caller"
  consumer :: "('c, 'e) consumer"
  delivered :: "'c list"
  cancels :: nat
  finished :: bool

definition pump_init :: "nat \<Rightarrow> 'c list \<Rightarrow> ('c, 'e) pump" where
  "pump_init cap items = \<lparr>sink = new_queue cap, caller = Producing items, consumer = Waiting,
     delivered = [], cancels = 0, finished = False\<rparr>"

definition after_producer :: "('e stream_error, unit) result \<Rightarrow> ('c, 'e) caller" where
  "after_producer r = (case r of Inl e \<Rightarrow> FailLocked e | Inr u \<Rightarrow> Closing (Inr u))"

text \<open>The end of \<open>pump\<close>, after the join: the first failure, or the answer of \<open>finish\<close>.\<close>

definition pump_result ::
  "('e stream_error, unit) result \<Rightarrow> ('e stream_error, unit) result \<Rightarrow> 'e stream_error option \<Rightarrow>
   ('e stream_error, unit) result option" where
  "pump_result producer_result consumer_result err =
    (case producer_result of
       Inl e \<Rightarrow> Some (Inl e)
     | Inr _ \<Rightarrow> (case consumer_result of
                  Inl e \<Rightarrow> Some (Inl e)
                | Inr _ \<Rightarrow> (case err of Some e \<Rightarrow> Some (Inl e) | None \<Rightarrow> None)))"

inductive pump_step ::
  "('c list \<Rightarrow> 'c \<Rightarrow> 'e stream_error option) \<Rightarrow> ('c list \<Rightarrow> ('e stream_error, unit) result) \<Rightarrow>
   ('e stream_error, unit) result \<Rightarrow> ('c, 'e) pump \<Rightarrow> ('c, 'e) pump \<Rightarrow> bool"
  for refuses finish producer_end where
  produce: "\<lbrakk>caller p = Producing (c # cs); space_ready (sink p); queue_push c (sink p) = Inr q\<rbrakk>
    \<Longrightarrow> pump_step refuses finish producer_end p (p\<lparr>caller := Producing cs, sink := q\<rparr>)"
| produce_refused: "\<lbrakk>caller p = Producing (c # cs); space_ready (sink p); queue_push c (sink p) = Inl e\<rbrakk>
    \<Longrightarrow> pump_step refuses finish producer_end p (p\<lparr>caller := after_producer (Inl e)\<rparr>)"
| produced: "caller p = Producing []
    \<Longrightarrow> pump_step refuses finish producer_end p (p\<lparr>caller := after_producer producer_end\<rparr>)"
| fail_locked: "caller p = FailLocked e
    \<Longrightarrow> pump_step refuses finish producer_end p (p\<lparr>caller := FailCancel e, sink := queue_fail e (sink p)\<rparr>)"
| fail_cancel: "caller p = FailCancel e
    \<Longrightarrow> pump_step refuses finish producer_end p (p\<lparr>caller := Closing (Inl e), cancels := cancels p + 1\<rparr>)"
| close: "caller p = Closing r
    \<Longrightarrow> pump_step refuses finish producer_end p (p\<lparr>caller := Joining r, sink := queue_close (sink p)\<rparr>)"
| join_failed: "\<lbrakk>caller p = Joining r; consumer p = CDone r'; pump_result r r' (queue_error (sink p)) = Some res\<rbrakk>
    \<Longrightarrow> pump_step refuses finish producer_end p (p\<lparr>caller := Returned res\<rparr>)"
| join_finish: "\<lbrakk>caller p = Joining r; consumer p = CDone r'; pump_result r r' (queue_error (sink p)) = None\<rbrakk>
    \<Longrightarrow> pump_step refuses finish producer_end p
          (p\<lparr>caller := Returned (finish (delivered p)), finished := True\<rparr>)"
| take: "\<lbrakk>consumer p = Waiting; chunk_ready (sink p); consume_take (sink p) = (Taken c, q)\<rbrakk>
    \<Longrightarrow> pump_step refuses finish producer_end p (p\<lparr>consumer := Pushing c, sink := q\<rparr>)"
| ended: "\<lbrakk>consumer p = Waiting; chunk_ready (sink p); consume_take (sink p) = (Ended r, q)\<rbrakk>
    \<Longrightarrow> pump_step refuses finish producer_end p (p\<lparr>consumer := CDone r, sink := q\<rparr>)"
| pushed: "\<lbrakk>consumer p = Pushing c; refuses (delivered p) c = None\<rbrakk>
    \<Longrightarrow> pump_step refuses finish producer_end p (p\<lparr>consumer := Waiting, delivered := delivered p @ [c]\<rparr>)"
| push_refused: "\<lbrakk>consumer p = Pushing c; refuses (delivered p) c = Some e\<rbrakk>
    \<Longrightarrow> pump_step refuses finish producer_end p (p\<lparr>consumer := CFailLocked e\<rparr>)"
| cfail_locked: "consumer p = CFailLocked e
    \<Longrightarrow> pump_step refuses finish producer_end p (p\<lparr>consumer := CFailCancel e, sink := queue_fail e (sink p)\<rparr>)"
| cfail_cancel: "consumer p = CFailCancel e
    \<Longrightarrow> pump_step refuses finish producer_end p (p\<lparr>consumer := CDone (Inl e), cancels := cancels p + 1\<rparr>)"

inductive_cases pump_stepE: "pump_step refuses finish producer_end p p'"

abbreviation pump_run ::
  "('c list \<Rightarrow> 'c \<Rightarrow> 'e stream_error option) \<Rightarrow> ('c list \<Rightarrow> ('e stream_error, unit) result) \<Rightarrow>
   ('e stream_error, unit) result \<Rightarrow> ('c, 'e) pump \<Rightarrow> ('c, 'e) pump \<Rightarrow> bool" where
  "pump_run refuses finish producer_end \<equiv> (pump_step refuses finish producer_end)\<^sup>*\<^sup>*"

section \<open>The invariant\<close>

fun remaining :: "('c, 'e) caller \<Rightarrow> 'c list" where
  "remaining (Producing cs) = cs"
| "remaining _ = []"

fun in_flight :: "('c, 'e) consumer \<Rightarrow> 'c list" where
  "in_flight (Pushing c) = [c]"
| "in_flight _ = []"

fun past_close :: "('c, 'e) caller \<Rightarrow> bool" where
  "past_close (Joining r) = True"
| "past_close (Returned r) = True"
| "past_close _ = False"

text \<open>Where an error of a run can come from: the producer, or the sink on a chunk of the run.\<close>

definition origin ::
  "('c list \<Rightarrow> 'c \<Rightarrow> 'e stream_error option) \<Rightarrow> ('e stream_error, unit) result \<Rightarrow> 'c list \<Rightarrow>
   'e stream_error \<Rightarrow> bool" where
  "origin refuses producer_end items e \<longleftrightarrow>
    producer_end = Inl e \<or> (\<exists>cs c. prefix (cs @ [c]) items \<and> refuses cs c = Some e)"

text \<open>The queue and the chunks.\<close>

definition flow_inv :: "nat \<Rightarrow> 'c list \<Rightarrow> ('c, 'e) pump \<Rightarrow> bool" where
  "flow_inv cap items p \<longleftrightarrow>
    capacity (sink p) = max cap 1 \<and> length (queue (sink p)) \<le> capacity (sink p) \<and>
    prefix (delivered p @ in_flight (consumer p)) items \<and>
    (queue_error (sink p) = None \<and> (\<forall>e. consumer p \<noteq> CFailLocked e) \<longrightarrow>
       delivered p @ in_flight (consumer p) @ queue (sink p) @ remaining (caller p) = items) \<and>
    (queue_error (sink p) \<noteq> None \<longrightarrow> closed (sink p) \<and> queue (sink p) = []) \<and>
    (closed (sink p) \<and> queue_error (sink p) = None \<longrightarrow> past_close (caller p)) \<and>
    (past_close (caller p) \<longrightarrow> closed (sink p))"

text \<open>The errors.\<close>

definition error_inv ::
  "('c list \<Rightarrow> 'c \<Rightarrow> 'e stream_error option) \<Rightarrow> ('c list \<Rightarrow> ('e stream_error, unit) result) \<Rightarrow>
   ('e stream_error, unit) result \<Rightarrow> 'c list \<Rightarrow> ('c, 'e) pump \<Rightarrow> bool" where
  "error_inv refuses finish producer_end items p \<longleftrightarrow>
    (\<forall>e. queue_error (sink p) = Some e \<longrightarrow> origin refuses producer_end items e) \<and>
    (queue_error (sink p) = None \<longrightarrow> cancels p = 0) \<and>
    (case consumer p of
       CFailLocked e \<Rightarrow> origin refuses producer_end items e
     | CFailCancel e \<Rightarrow> origin refuses producer_end items e \<and> queue_error (sink p) \<noteq> None
     | CDone (Inl e) \<Rightarrow> origin refuses producer_end items e \<and> queue_error (sink p) \<noteq> None
     | CDone (Inr u) \<Rightarrow> queue_error (sink p) = None \<and> queue (sink p) = [] \<and> past_close (caller p)
     | _ \<Rightarrow> True) \<and>
    (case caller p of
       Producing cs \<Rightarrow> True
     | FailLocked e \<Rightarrow> origin refuses producer_end items e
     | FailCancel e \<Rightarrow> origin refuses producer_end items e \<and> queue_error (sink p) \<noteq> None
     | Closing (Inl e) \<Rightarrow> origin refuses producer_end items e \<and> queue_error (sink p) \<noteq> None
     | Joining (Inl e) \<Rightarrow> origin refuses producer_end items e \<and> queue_error (sink p) \<noteq> None
     | Closing (Inr u) \<Rightarrow> producer_end = Inr ()
     | Joining (Inr u) \<Rightarrow> producer_end = Inr ()
     | Returned r \<Rightarrow>
         if finished p
         then producer_end = Inr () \<and> delivered p = items \<and> r = finish items \<and> queue_error (sink p) = None
         else (\<exists>e. r = Inl e \<and> origin refuses producer_end items e)) \<and>
    (finished p \<longrightarrow> (\<exists>r. caller p = Returned r)) \<and>
    (\<forall>r. caller p = Returned r \<longrightarrow> (\<exists>r'. consumer p = CDone r'))"

lemmas pump_ops = queue_push_def queue_fail_def queue_close_def consume_take_def space_ready_def
  chunk_ready_def after_producer_def pump_result_def

lemma flow_inv_init: "flow_inv cap items (pump_init cap items)"
  by (simp add: flow_inv_def pump_init_def new_queue_def)

lemma error_inv_init: "error_inv refuses finish producer_end items (pump_init cap items)"
  by (simp add: error_inv_def pump_init_def new_queue_def)

lemma flow_inv_step:
  assumes "pump_step refuses finish producer_end p p'" and "flow_inv cap items p"
  shows "flow_inv cap items p'"
  using assms
  by (cases rule: pump_step.cases)
    (auto simp: flow_inv_def pump_ops split: option.splits list.splits if_splits sum.splits
      dest: append_prefixD)

lemma error_inv_step:
  assumes "pump_step refuses finish producer_end p p'" and "flow_inv cap items p"
    and "error_inv refuses finish producer_end items p"
  shows "error_inv refuses finish producer_end items p'"
  using assms
  by (cases rule: pump_step.cases)
    (auto simp: flow_inv_def error_inv_def origin_def pump_ops
      split: option.splits list.splits if_splits sum.splits caller.splits consumer.splits)

lemma run_inv:
  assumes "pump_run refuses finish producer_end (pump_init cap items) p"
  shows "flow_inv cap items p \<and> error_inv refuses finish producer_end items p"
  using assms
proof (induction rule: rtranclp_induct)
  case base
  then show ?case by (simp add: flow_inv_init error_inv_init)
next
  case (step p p')
  then show ?case by (metis flow_inv_step error_inv_step)
qed

section \<open>Progress and termination\<close>

lemma caller_step:
  assumes "flow_inv cap items p" and "\<And>cs. caller p \<noteq> Producing cs" and "\<And>r. caller p \<noteq> Joining r"
    and "\<And>r. caller p \<noteq> Returned r"
  shows "\<exists>p'. pump_step refuses finish producer_end p p'"
  using assms by (cases "caller p") (blast intro: pump_step.intros)+

lemma consumer_step:
  assumes "chunk_ready (sink p)" and "\<And>r. consumer p \<noteq> CDone r"
  shows "\<exists>p'. pump_step refuses finish producer_end p p'"
proof (cases "consumer p")
  case Waiting
  obtain t q where t: "consume_take (sink p) = (t, q)" by force
  have "t \<noteq> Again"
    using t assms(1) by (auto simp: consume_take_def chunk_ready_def split: list.splits option.splits if_splits)
  with Waiting t assms(1) show ?thesis by (cases t) (blast intro: pump_step.intros)+
next
  case (Pushing c)
  then show ?thesis by (cases "refuses (delivered p) c") (blast intro: pump_step.intros)+
qed (use assms in \<open>blast intro: pump_step.intros\<close>)+

lemma pump_progress:
  assumes flow: "flow_inv cap items p" and err: "error_inv refuses finish producer_end items p"
    and "\<And>r. caller p \<noteq> Returned r"
  shows "\<exists>p'. pump_step refuses finish producer_end p p'"
proof (cases "caller p")
  case (Producing cs)
  show ?thesis
  proof (cases cs)
    case Nil
    with Producing show ?thesis by (blast intro: produced)
  next
    case (Cons c cs')
    show ?thesis
    proof (cases "space_ready (sink p)")
      case True
      with Producing Cons show ?thesis
        by (cases "queue_push c (sink p)") (blast intro: produce produce_refused)+
    next
      case False
      then have "queue (sink p) \<noteq> []" using flow by (auto simp: space_ready_def flow_inv_def)
      then have r: "chunk_ready (sink p)" by (simp add: chunk_ready_def)
      have "consumer p \<noteq> CDone r" for r
        using err flow \<open>queue (sink p) \<noteq> []\<close>
        by (cases r) (auto simp: error_inv_def flow_inv_def)
      with r show ?thesis by (intro consumer_step) auto
    qed
  qed
next
  case (Joining r)
  then have r: "chunk_ready (sink p)" using flow by (simp add: flow_inv_def chunk_ready_def)
  show ?thesis
  proof (cases "\<exists>r'. consumer p = CDone r'")
    case True
    then obtain r' where d: "consumer p = CDone r'" by blast
    with Joining show ?thesis
      by (cases "pump_result r r' (queue_error (sink p))") (blast intro: join_failed join_finish)+
  next
    case False
    with r show ?thesis by (intro consumer_step) auto
  qed
qed (use assms(3) caller_step [OF flow] in auto)

fun caller_weight :: "('c, 'e) caller \<Rightarrow> nat" where
  "caller_weight (Producing cs) = 5 + 3 * length cs"
| "caller_weight (FailLocked e) = 4"
| "caller_weight (FailCancel e) = 3"
| "caller_weight (Closing r) = 2"
| "caller_weight (Joining r) = 1"
| "caller_weight (Returned r) = 0"

fun consumer_weight :: "('c, 'e) consumer \<Rightarrow> nat" where
  "consumer_weight Waiting = 3"
| "consumer_weight (Pushing c) = 4"
| "consumer_weight (CFailLocked e) = 2"
| "consumer_weight (CFailCancel e) = 1"
| "consumer_weight (CDone r) = 0"

definition pump_measure :: "('c, 'e) pump \<Rightarrow> nat" where
  "pump_measure p = caller_weight (caller p) + 2 * length (queue (sink p)) + consumer_weight (consumer p)"

lemma pump_measure_step: "pump_step refuses finish producer_end p p' \<Longrightarrow> pump_measure p' < pump_measure p"
  by (cases rule: pump_step.cases)
    (auto simp: pump_measure_def pump_ops split: option.splits list.splits if_splits sum.splits)

lemma pump_run_length:
  "(pump_step refuses finish producer_end ^^ n) p p' \<Longrightarrow> n + pump_measure p' \<le> pump_measure p"
proof (induction n arbitrary: p')
  case (Suc n)
  then obtain q where q: "(pump_step refuses finish producer_end ^^ n) p q" "pump_step refuses finish producer_end q p'"
    by auto
  from Suc.IH [OF q(1)] pump_measure_step [OF q(2)] show ?case by linarith
qed simp

section \<open>Properties\<close>

text \<open>
  C22: at every moment of every interleaving of \<open>pump\<close>, at most the capacity (at least one)
  of chunks is queued, what the sink has accepted is a prefix of the produced chunks in
  their order, and as long as no failure has been recorded no chunk is lost: accepted, in
  flight, queued and unproduced chunks make up the input.
\<close>

theorem pump_bounded_fifo:
  assumes "pump_run refuses finish producer_end (pump_init cap items) p"
  shows "length (queue (sink p)) \<le> max cap 1 \<and>
    (\<exists>rest. delivered p @ rest = items) \<and>
    (queue_error (sink p) = None \<and> (\<forall>e. consumer p \<noteq> CFailLocked e) \<longrightarrow>
      delivered p @ in_flight (consumer p) @ queue (sink p) @ remaining (caller p) = items)"
  using run_inv [OF assms] by (auto simp: flow_inv_def prefix_def)

text \<open>
  C8: the result \<open>pump\<close> returns is right. It returns success only when the producer and
  \<open>finish\<close> succeeded, the sink accepted every produced chunk in order and was never
  cancelled; it returns an error only when the producer failed with it, the sink refused a
  chunk of the run with it, or \<open>finish\<close> failed with it after everything was accepted. The
  error a cancelled stream reports to its producer never reaches the caller by itself.
\<close>

theorem pump_result_correct:
  assumes "pump_run refuses finish producer_end (pump_init cap items) p" and "caller p = Returned r"
  shows "case r of
      Inr u \<Rightarrow> producer_end = Inr () \<and> delivered p = items \<and> finish items = Inr () \<and> cancels p = 0
    | Inl e \<Rightarrow> producer_end = Inl e \<or>
        (\<exists>cs c. prefix (cs @ [c]) items \<and> refuses cs c = Some e) \<or>
        (delivered p = items \<and> finish items = Inl e)"
  using run_inv [OF assms(1)] assms(2)
  by (auto simp: error_inv_def origin_def split: sum.splits if_splits)

text \<open>
  C23: \<open>pump\<close> never deadlocks and always returns: a reachable state without a next step is
  one where the call has returned, and no run has more than \<open>3 * n + 8\<close> steps for \<open>n\<close>
  produced chunks.
\<close>

theorem pump_always_returns:
  assumes "(pump_step refuses finish producer_end ^^ n) (pump_init cap items) p"
  shows "n \<le> 3 * length items + 8 \<and>
    ((\<exists>r. caller p = Returned r) \<or> (\<exists>p'. pump_step refuses finish producer_end p p'))"
proof -
  have "pump_measure (pump_init cap items :: ('a, 'b) pump) = 3 * length items + 8"
    by (simp add: pump_measure_def pump_init_def new_queue_def)
  moreover have "pump_run refuses finish producer_end (pump_init cap items) p"
    using assms by (rule relpowp_imp_rtranclp)
  then have "flow_inv cap items p" "error_inv refuses finish producer_end items p"
    using run_inv by blast+
  ultimately show ?thesis
    using pump_run_length [OF assms] pump_progress by (metis add_leD1 order_trans)
qed

text \<open>A complete run on one chunk, at capacity one.\<close>

definition accepts_all :: "nat list \<Rightarrow> nat \<Rightarrow> nat stream_error option" where
  "accepts_all cs c = None"

definition finishes :: "nat list \<Rightarrow> (nat stream_error, unit) result" where
  "finishes cs = Inr ()"

definition sample_end :: "(nat, nat) pump" where
  "sample_end = \<lparr>sink = \<lparr>capacity = 1, queue = [], queue_error = None, closed = True\<rparr>,
     caller = Returned (Inr ()), consumer = CDone (Inr ()), delivered = [5], cancels = 0, finished = True\<rparr>"

lemma sample_run: "(pump_step accepts_all finishes (Inr ()) ^^ 7) (pump_init 0 [5]) sample_end"
proof -
  let ?s = "pump_step accepts_all finishes (Inr ())"
  let ?q = "\<lambda>cs cl. \<lparr>capacity = 1, queue = cs, queue_error = None, closed = cl\<rparr> :: (nat, nat) queue_sink"
  let ?p = "\<lambda>q a c d. \<lparr>sink = q, caller = a, consumer = c, delivered = d, cancels = 0, finished = False\<rparr>"
  have 1: "?s (pump_init 0 [5]) (?p (?q [5] False) (Producing []) Waiting [])"
    using produce [of "pump_init 0 [5]" 5 "[]" "?q [5] False" accepts_all finishes "Inr ()"]
    by (simp add: pump_init_def new_queue_def pump_ops)
  have 2: "?s (?p (?q [5] False) (Producing []) Waiting []) (?p (?q [] False) (Producing []) (Pushing 5) [])"
    using take [of "?p (?q [5] False) (Producing []) Waiting []" 5 "?q [] False" accepts_all finishes "Inr ()"]
    by (simp add: pump_ops)
  have 3: "?s (?p (?q [] False) (Producing []) (Pushing 5) []) (?p (?q [] False) (Producing []) Waiting [5])"
    using pushed [of "?p (?q [] False) (Producing []) (Pushing 5) []" 5 accepts_all finishes "Inr ()"]
    by (simp add: accepts_all_def)
  have 4: "?s (?p (?q [] False) (Producing []) Waiting [5]) (?p (?q [] False) (Closing (Inr ())) Waiting [5])"
    using produced [of "?p (?q [] False) (Producing []) Waiting [5]" accepts_all finishes "Inr ()"]
    by (simp add: pump_ops)
  have 5: "?s (?p (?q [] False) (Closing (Inr ())) Waiting [5]) (?p (?q [] True) (Joining (Inr ())) Waiting [5])"
    using close [of "?p (?q [] False) (Closing (Inr ())) Waiting [5]" "Inr ()" accepts_all finishes "Inr ()"]
    by (simp add: pump_ops)
  have 6: "?s (?p (?q [] True) (Joining (Inr ())) Waiting [5]) (?p (?q [] True) (Joining (Inr ())) (CDone (Inr ())) [5])"
    using ended [of "?p (?q [] True) (Joining (Inr ())) Waiting [5]" "Inr ()" "?q [] True" accepts_all finishes "Inr ()"]
    by (simp add: pump_ops)
  have 7: "?s (?p (?q [] True) (Joining (Inr ())) (CDone (Inr ())) [5]) sample_end"
    using join_finish [of "?p (?q [] True) (Joining (Inr ())) (CDone (Inr ())) [5]" "Inr ()" "Inr ()" accepts_all finishes "Inr ()"]
    by (simp add: pump_ops sample_end_def finishes_def)
  note r1 = relpowp_Suc_I [of 0 ?s, OF relpowp_0_I 1]
  note r2 = relpowp_Suc_I [OF r1 2]
  note r3 = relpowp_Suc_I [OF r2 3]
  note r4 = relpowp_Suc_I [OF r3 4]
  note r5 = relpowp_Suc_I [OF r4 5]
  note r6 = relpowp_Suc_I [OF r5 6]
  from relpowp_Suc_I [OF r6 7] show ?thesis by (simp only: numeral_eq_Suc pred_numeral_simps arith_simps)
qed

lemmas sample_reached = relpowp_imp_rtranclp [OF sample_run]

theorem pump_bounded_fifo_witness:
  "length (queue (sink sample_end)) \<le> max 0 1 \<and> (\<exists>rest. delivered sample_end @ rest = [5])"
  using pump_bounded_fifo [OF sample_reached] by blast

theorem pump_result_correct_witness:
  "delivered sample_end = [5] \<and> finishes [5] = Inr () \<and> cancels sample_end = 0"
  using pump_result_correct [OF sample_reached, of "Inr ()"] by (simp add: sample_end_def)

theorem pump_always_returns_witness: "(7::nat) \<le> 3 * length [5::nat] + 8"
  using pump_always_returns [OF sample_run] by blast

text \<open>
  The window is never empty, never above 128 chunks nor above an explicit window, and
  stays inside the soft memory budget (of at least one chunk).
\<close>

theorem stream_capacity_bounds:
  "1 \<le> stream_capacity opts \<and> stream_capacity opts \<le> 128 \<and>
   stream_capacity opts * kBytesPerChunk \<le> max (soft_memory_budget_bytes opts) kBytesPerChunk \<and>
   (max_in_flight_chunks opts \<noteq> 0 \<longrightarrow> stream_capacity opts \<le> max_in_flight_chunks opts)"
proof -
  let ?b = "max (soft_memory_budget_bytes opts) kBytesPerChunk"
  have k: "0 < kBytesPerChunk" by (simp add: kBytesPerChunk_def)
  have one: "1 \<le> ?b div kBytesPerChunk" using k by (simp add: Suc_le_eq div_greater_zero_iff)
  then have c: "clamp (?b div kBytesPerChunk) 1 128 \<le> ?b div kBytesPerChunk"
    "1 \<le> clamp (?b div kBytesPerChunk) 1 128" "clamp (?b div kBytesPerChunk) 1 128 \<le> 128"
    by (auto simp: clamp_def)
  have s: "1 \<le> stream_capacity opts" "stream_capacity opts \<le> clamp (?b div kBytesPerChunk) 1 128"
    using c by (auto simp: stream_capacity_def Let_def clamp_def)
  have "stream_capacity opts * kBytesPerChunk \<le> ?b div kBytesPerChunk * kBytesPerChunk"
    using s(2) c(1) by (intro mult_le_mono1) linarith
  also have "\<dots> \<le> ?b" by (rule div_times_less_eq_dividend)
  finally have "stream_capacity opts * kBytesPerChunk \<le> ?b" .
  moreover have "max_in_flight_chunks opts \<noteq> 0 \<longrightarrow> stream_capacity opts \<le> max_in_flight_chunks opts"
    by (auto simp: stream_capacity_def Let_def clamp_def)
  ultimately show ?thesis using s c(3) by linarith
qed

theorem stream_capacity_bounds_witness:
  "stream_capacity \<lparr>max_in_flight_chunks = 200, soft_memory_budget_bytes = 8388608\<rparr> = 4 \<and>
   stream_capacity \<lparr>max_in_flight_chunks = 200, soft_memory_budget_bytes = 8388608\<rparr> \<le> 200"
  using stream_capacity_bounds [of "\<lparr>max_in_flight_chunks = 200, soft_memory_budget_bytes = 8388608\<rparr>"]
  by (simp add: stream_capacity_def clamp_def kBytesPerChunk_def)

end
