(* ===== verification/WS_ThreadPool.thy ===== *)
theory WS_ThreadPool
  imports WS_Prelude "HOL-Library.Multiset"
begin

text \<open>
  \<open>BoundedThreadPool\<close> (\<open>src/core/bounded_thread_pool.hpp\<close>): a fixed set of workers that
  take tasks from a bounded queue. The state is the guarded state of the class and, for
  each worker, where its loop is; \<open>submitted\<close>, \<open>started\<close> and \<open>completed\<close> record the
  history. The steps are the critical sections of \<open>submit\<close>, \<open>submit_indexed\<close>,
  \<open>worker_loop\<close> and the destructor; a wait is a step enabled by its predicate. That a task
  returns is an assumption of the model (the step \<open>finish\<close> is always possible), as the code
  makes no other.
\<close>

section \<open>State and steps\<close>

datatype 't worker = Idle | Running 't | Exited

record 't pool =
  queue_capacity :: nat
  tasks :: "'t list"
  accepting :: bool
  workers :: "'t worker list"
  submitted :: "'t list"
  started :: "'t list"
  completed :: "'t list"

definition new_pool :: "nat \<Rightarrow> nat \<Rightarrow> 't pool" where
  "new_pool worker_count cap =
    \<lparr>queue_capacity = max cap 1, tasks = [], accepting = True,
     workers = replicate (max worker_count 1) Idle,
     submitted = [], started = [], completed = []\<rparr>"

definition space_wait :: "'t pool \<Rightarrow> bool" where
  "space_wait p \<longleftrightarrow> \<not> accepting p \<or> length (tasks p) < queue_capacity p"

datatype pool_error = ShuttingDown

definition submit :: "'t \<Rightarrow> 't pool \<Rightarrow> (pool_error, 't pool) result" where
  "submit t p =
    (if \<not> accepting p then Inl ShuttingDown
     else Inr (p\<lparr>tasks := tasks p @ [t], submitted := submitted p @ [t]\<rparr>))"

definition task_wait :: "'t pool \<Rightarrow> bool" where
  "task_wait p \<longleftrightarrow> tasks p \<noteq> [] \<or> \<not> accepting p"

text \<open>The section of \<open>worker_loop\<close> after the wait, for the worker at an index.\<close>

definition worker_take :: "nat \<Rightarrow> 't pool \<Rightarrow> 't pool" where
  "worker_take i p =
    (case tasks p of
       [] \<Rightarrow> if \<not> accepting p then p\<lparr>workers := (workers p)[i := Exited]\<rparr> else p
     | t # ts \<Rightarrow> p\<lparr>tasks := ts, workers := (workers p)[i := Running t], started := started p @ [t]\<rparr>)"

definition shut_down :: "'t pool \<Rightarrow> 't pool" where
  "shut_down p = p\<lparr>accepting := False\<rparr>"

definition joined :: "'t pool \<Rightarrow> bool" where
  "joined p \<longleftrightarrow> \<not> accepting p \<and> (\<forall>w \<in> set (workers p). w = Exited)"

inductive pool_step :: "'t pool \<Rightarrow> 't pool \<Rightarrow> bool" where
  submitted: "\<lbrakk>space_wait p; submit t p = Inr p'\<rbrakk> \<Longrightarrow> pool_step p p'"
| worker: "\<lbrakk>i < length (workers p); workers p ! i = Idle; task_wait p\<rbrakk>
    \<Longrightarrow> pool_step p (worker_take i p)"
| finish: "\<lbrakk>i < length (workers p); workers p ! i = Running t\<rbrakk>
    \<Longrightarrow> pool_step p (p\<lparr>workers := (workers p)[i := Idle], completed := completed p @ [t]\<rparr>)"
| destructor: "accepting p \<Longrightarrow> pool_step p (shut_down p)"

inductive_cases pool_stepE: "pool_step p p'"

section \<open>The invariant\<close>

fun running_of :: "'t worker \<Rightarrow> 't multiset" where
  "running_of (Running t) = {#t#}"
| "running_of _ = {#}"

definition running :: "'t pool \<Rightarrow> 't multiset" where
  "running p = sum_list (map running_of (workers p))"

definition pool_inv :: "nat \<Rightarrow> nat \<Rightarrow> 't pool \<Rightarrow> bool" where
  "pool_inv n cap p \<longleftrightarrow>
    queue_capacity p = max cap 1 \<and> length (tasks p) \<le> max cap 1 \<and>
    length (workers p) = max n 1 \<and>
    submitted p = started p @ tasks p \<and>
    mset (started p) = mset (completed p) + running p \<and>
    (Exited \<in> set (workers p) \<longrightarrow> \<not> accepting p \<and> tasks p = [])"

lemma running_update:
  assumes "i < length ws"
  shows "sum_list (map running_of (ws[i := w])) + running_of (ws ! i) =
    sum_list (map running_of ws) + running_of w"
  using assms by (rule sum_list_update)

lemma running_idle:
  assumes "i < length (workers p)" "workers p ! i = Idle"
  shows "sum_list (map running_of ((workers p)[i := w])) = running p + running_of w"
  using running_update [OF assms(1), of w] assms(2) by (simp add: running_def)

lemma running_running:
  assumes "i < length (workers p)" "workers p ! i = Running t"
  shows "running p = sum_list (map running_of ((workers p)[i := Idle])) + {#t#}"
  using running_update [OF assms(1), of Idle] assms(2) by (simp add: running_def)

lemma running_none: "\<forall>w \<in> set ws. running_of w = {#} \<Longrightarrow> sum_list (map running_of ws) = {#}"
  by (induction ws) simp_all

lemma pool_inv_init: "pool_inv n cap (new_pool n cap :: 'a pool)"
proof -
  have "running (new_pool n cap :: 'a pool) = {#}"
    unfolding running_def by (rule running_none) (simp add: new_pool_def)
  then show ?thesis by (simp add: pool_inv_def new_pool_def)
qed

lemma exited_update: "Exited \<in> set (ws[i := w]) \<Longrightarrow> w \<noteq> Exited \<Longrightarrow> Exited \<in> set ws"
  using set_update_subset_insert [of ws i w] by auto

lemma pool_inv_step:
  assumes "pool_step p p'" and inv: "pool_inv n cap p"
  shows "pool_inv n cap p'"
  using assms(1)
proof (cases rule: pool_step.cases)
  case (submitted t)
  with inv show ?thesis
    by (auto simp: pool_inv_def submit_def space_wait_def running_def split: if_splits)
next
  case (worker i)
  show ?thesis
  proof (cases "tasks p")
    case Nil
    then show ?thesis
      using inv worker running_idle [OF worker(2,3), of Exited]
      by (auto simp: pool_inv_def worker_take_def task_wait_def running_def)
  next
    case (Cons t ts)
    then show ?thesis
      using inv worker running_idle [OF worker(2,3), of "Running t"]
      by (auto simp: pool_inv_def worker_take_def running_def dest!: exited_update)
  qed
next
  case (finish i t)
  then show ?thesis
    using inv running_running [OF finish(2,3)]
    by (auto simp: pool_inv_def running_def dest!: exited_update)
next
  case destructor
  with inv show ?thesis by (auto simp: pool_inv_def shut_down_def running_def)
qed

lemma pool_reachable_inv:
  "pool_step\<^sup>*\<^sup>* (new_pool n cap) p \<Longrightarrow> pool_inv n cap p"
  by (induction rule: rtranclp_induct) (auto intro: pool_inv_init pool_inv_step)

section \<open>Shutting down\<close>

fun worker_weight :: "'t worker \<Rightarrow> nat" where
  "worker_weight Idle = 1"
| "worker_weight (Running t) = 2"
| "worker_weight Exited = 0"

definition pool_measure :: "'t pool \<Rightarrow> nat" where
  "pool_measure p = 2 * length (tasks p) + sum_list (map worker_weight (workers p))"

lemma weight_update:
  assumes "i < length ws"
  shows "sum_list (map worker_weight (ws[i := w])) + worker_weight (ws ! i) =
    sum_list (map worker_weight ws) + worker_weight w"
  using assms
proof (induction ws arbitrary: i)
  case (Cons a ws)
  then show ?case by (cases i) simp_all
qed simp

lemma pool_measure_step:
  assumes "pool_step p p'" and "\<not> accepting p"
  shows "pool_measure p' < pool_measure p \<and> \<not> accepting p'"
  using assms(1)
proof (cases rule: pool_step.cases)
  case (worker i)
  then show ?thesis
    using assms(2) weight_update [OF worker(2), of Exited] weight_update [OF worker(2), of "Running (hd (tasks p))"]
    by (cases "tasks p") (auto simp: pool_measure_def worker_take_def)
next
  case (finish i t)
  then show ?thesis
    using assms(2) weight_update [OF finish(2), of Idle] by (auto simp: pool_measure_def)
qed (use assms(2) in \<open>auto simp: submit_def\<close>)

lemma pool_progress:
  assumes "\<not> accepting p" and "\<not> joined p"
  shows "\<exists>p'. pool_step p p'"
proof -
  obtain i where i: "i < length (workers p)" "workers p ! i \<noteq> Exited"
    using assms by (auto simp: joined_def in_set_conv_nth)
  show ?thesis
  proof (cases "workers p ! i")
    case Idle
    moreover have "task_wait p" using assms(1) by (simp add: task_wait_def)
    ultimately show ?thesis using i(1) by (blast intro: worker)
  next
    case (Running t)
    then show ?thesis using i by (blast intro: finish)
  qed (use i in simp)
qed

lemma pool_run_measure:
  "(pool_step ^^ k) p p' \<Longrightarrow> \<not> accepting p \<Longrightarrow> k + pool_measure p' \<le> pool_measure p \<and> \<not> accepting p'"
proof (induction k arbitrary: p')
  case (Suc k)
  then obtain q where "(pool_step ^^ k) p q" "pool_step q p'" by auto
  with Suc pool_measure_step [of q p'] show ?case by fastforce
qed simp

section \<open>Properties\<close>

text \<open>
  In every reachable state of the pool the queue holds at most its capacity (at least
  one), tasks are started in the order of their submission, and every submitted task is
  either queued, running on a worker or completed, exactly once.
\<close>

theorem pool_bounded_fifo:
  assumes "pool_step\<^sup>*\<^sup>* (new_pool n cap) p"
  shows "length (tasks p) \<le> max cap 1 \<and> submitted p = started p @ tasks p \<and>
    mset (submitted p) = mset (completed p) + running p + mset (tasks p) \<and>
    length (workers p) = max n 1"
  using pool_reachable_inv [OF assms] by (simp add: pool_inv_def)

text \<open>
  C36: the destructor drains the pool and returns. Once it has stopped the pool from
  accepting, no run is longer than \<open>2 * (tasks + workers)\<close> steps, a state in which some
  worker has not exited has a next step, and when every worker has exited each submitted
  task has been completed exactly once.
\<close>

theorem pool_destructor_drains:
  assumes "pool_step\<^sup>*\<^sup>* (new_pool n cap) p" and "\<not> accepting p" and "(pool_step ^^ k) p q"
  shows "k \<le> 2 * (length (tasks p) + max n 1) \<and>
    (if joined q then mset (completed q) = mset (submitted q) else \<exists>q'. pool_step q q')"
proof -
  have inv: "pool_inv n cap p" using assms(1) by (rule pool_reachable_inv)
  have "pool_step\<^sup>*\<^sup>* (new_pool n cap) q"
    using assms(1) relpowp_imp_rtranclp [OF assms(3)] by (rule rtranclp_trans)
  then have invq: "pool_inv n cap q" by (rule pool_reachable_inv)
  have "sum_list (map worker_weight ws) \<le> 2 * length ws" for ws :: "'a worker list"
  proof (induction ws)
    case (Cons w ws)
    then show ?case by (cases w) simp_all
  qed simp
  from this [of "workers p"] have m: "pool_measure p \<le> 2 * (length (tasks p) + max n 1)"
    using inv by (simp add: pool_measure_def pool_inv_def)
  have q: "k + pool_measure q \<le> pool_measure p" "\<not> accepting q"
    using pool_run_measure [OF assms(3,2)] by simp_all
  have "mset (completed q) = mset (submitted q)" if "joined q"
  proof -
    have e: "\<forall>w \<in> set (workers q). w = Exited" using that by (simp add: joined_def)
    have "workers q \<noteq> []" using invq by (auto simp: pool_inv_def)
    then have "Exited \<in> set (workers q)" using e by (cases "workers q") auto
    then have "tasks q = []" using invq by (simp add: pool_inv_def)
    moreover have "running q = {#}"
      unfolding running_def by (rule running_none) (use e in auto)
    ultimately show ?thesis using invq by (simp add: pool_inv_def)
  qed
  then show ?thesis using m q pool_progress by auto
qed

text \<open>A run of one task: submitted, taken, finished, shut down, exited.\<close>

lemma sample_pool:
  "(pool_step ^^ 1) \<lparr>queue_capacity = 1, tasks = [], accepting = False, workers = [Idle],
      submitted = [7::nat], started = [7], completed = [7]\<rparr>
    \<lparr>queue_capacity = 1, tasks = [], accepting = False, workers = [Exited],
      submitted = [7], started = [7], completed = [7]\<rparr>"
  and sample_pool_reached:
  "pool_step\<^sup>*\<^sup>* (new_pool 1 1) \<lparr>queue_capacity = 1, tasks = [], accepting = False, workers = [Idle],
      submitted = [7::nat], started = [7], completed = [7]\<rparr>"
proof -
  let ?p = "\<lambda>ts acc w s c. \<lparr>queue_capacity = 1, tasks = ts, accepting = acc, workers = [w],
      submitted = [7::nat], started = s, completed = c\<rparr>"
  have 1: "pool_step (new_pool 1 1) (?p [7] True Idle [] [])"
    by (rule submitted [of _ 7]) (simp_all add: space_wait_def submit_def new_pool_def)
  have 2: "pool_step (?p [7] True Idle [] []) (?p [] True (Running 7) [7] [])"
    using worker [of 0 "?p [7] True Idle [] []"] by (simp add: task_wait_def worker_take_def)
  have 3: "pool_step (?p [] True (Running 7) [7] []) (?p [] True Idle [7] [7])"
    using finish [of 0 "?p [] True (Running 7) [7] []" 7] by simp
  have 4: "pool_step (?p [] True Idle [7] [7]) (?p [] False Idle [7] [7])"
    using destructor [of "?p [] True Idle [7] [7]"] by (simp add: shut_down_def)
  have 5: "pool_step (?p [] False Idle [7] [7]) (?p [] False Exited [7] [7])"
    using worker [of 0 "?p [] False Idle [7] [7]"] by (simp add: task_wait_def worker_take_def)
  show "(pool_step ^^ 1) (?p [] False Idle [7] [7]) (?p [] False Exited [7] [7])"
    unfolding relpowp_1 by (rule 5)
  show "pool_step\<^sup>*\<^sup>* (new_pool 1 1) (?p [] False Idle [7] [7])"
    using 1 2 3 4 by (meson r_into_rtranclp rtranclp.rtrancl_into_rtrancl)
qed

theorem pool_bounded_fifo_witness:
  "length ([] :: nat list) \<le> max 1 1 \<and> [7::nat] = [7] @ [] \<and> max 1 1 = length [Idle :: nat worker]"
  using pool_bounded_fifo [OF sample_pool_reached] by simp

theorem pool_destructor_drains_witness:
  "(1::nat) \<le> 2 * (0 + max 1 1) \<and> mset [7::nat] = mset [7]"
  using pool_destructor_drains [OF sample_pool_reached _ sample_pool] by (simp add: joined_def)

end
