(* ===== verification/WS_Bytes.thy ===== *)
theory WS_Bytes
  imports WS_Prelude
begin

unbundle bit_operations_syntax

text \<open>
  Bytes and decimal numbers, as the encoders and parsers of the program use them: little
  and big endian encodings of a word, the byte of a character, \<open>std::to_string\<close> and
  \<open>std::from_chars\<close> (base ten). The lemmas are the round trips and the injectivity the
  codecs rest on.
\<close>

section \<open>Words as bytes\<close>

type_synonym byte = "8 word"

definition le_word :: "'a::len word \<Rightarrow> byte list" where
  "le_word w = map (\<lambda>i. ucast (drop_bit (8 * i) w)) [0..<LENGTH('a) div 8]"

definition be_word :: "'a::len word \<Rightarrow> byte list" where
  "be_word w = rev (le_word w)"

lemma length_le_word [simp]: "length (le_word (w :: 'a::len word)) = LENGTH('a) div 8"
  by (simp add: le_word_def)

lemma length_be_word [simp]: "length (be_word (w :: 'a::len word)) = LENGTH('a) div 8"
  by (simp add: be_word_def)

lemma le_word_bit:
  assumes "n < LENGTH('a)" and "8 dvd LENGTH('a::len)"
  shows "bit (w :: 'a word) n = bit (le_word w ! (n div 8)) (n mod 8)"
proof -
  have "n div 8 < LENGTH('a) div 8" using assms by auto
  then have "le_word w ! (n div 8) = ucast (drop_bit (8 * (n div 8)) w)" by (simp add: le_word_def)
  moreover have "n mod 8 < 8" "8 * (n div 8) + n mod 8 = n" by simp_all
  ultimately show ?thesis by (simp add: bit_simps)
qed

lemma le_word_inj:
  assumes "8 dvd LENGTH('a::len)" and "le_word (v :: 'a word) = le_word w"
  shows "v = w"
  by (rule bit_word_eqI) (use assms in \<open>simp add: le_word_bit [OF _ assms(1)]\<close>)

lemma be_word_inj:
  assumes "8 dvd LENGTH('a::len)" and "be_word (v :: 'a word) = be_word w"
  shows "v = w"
  using le_word_inj [OF assms(1)] assms(2) by (simp add: be_word_def)

text \<open>An encoding is prefix-free when it can be read off the front of any byte list.\<close>

definition prefix_free :: "('a \<Rightarrow> 'b list) \<Rightarrow> ('a \<Rightarrow> bool) \<Rightarrow> bool" where
  "prefix_free enc ok \<longleftrightarrow>
    (\<forall>x y r r'. ok x \<and> ok y \<and> enc x @ r = enc y @ r' \<longrightarrow> x = y \<and> r = r')"

lemma prefix_freeD:
  "prefix_free enc ok \<Longrightarrow> ok x \<Longrightarrow> ok y \<Longrightarrow> enc x @ r = enc y @ r' \<Longrightarrow> x = y \<and> r = r'"
  by (auto simp: prefix_free_def)

lemma prefix_free_le_word:
  "8 dvd LENGTH('a::len) \<Longrightarrow> prefix_free (le_word :: 'a word \<Rightarrow> _) (\<lambda>w. True)"
  unfolding prefix_free_def by (auto dest: le_word_inj)

lemma le_word_append_eq:
  "8 dvd LENGTH('a::len) \<Longrightarrow> le_word (v :: 'a word) @ r = le_word w @ r' \<longleftrightarrow> v = w \<and> r = r'"
  using prefix_freeD [OF prefix_free_le_word] by blast

lemma le_word_eq [simp]:
  "8 dvd LENGTH('a::len) \<Longrightarrow> le_word (v :: 'a word) = le_word w \<longleftrightarrow> v = w"
  using le_word_inj by blast

lemma word_of_nat_inj:
  assumes "(word_of_nat m :: 'a::len word) = word_of_nat n" and "m < 2 ^ LENGTH('a)" "n < 2 ^ LENGTH('a)"
  shows "m = n"
proof -
  have "take_bit LENGTH('a) m = take_bit LENGTH('a) n"
    using arg_cong [OF assms(1), of unat] by (simp only: unsigned_of_nat of_nat_id)
  then show ?thesis unfolding take_bit_nat_eq_self [OF assms(2)] take_bit_nat_eq_self [OF assms(3)] .
qed

section \<open>Characters\<close>

definition byte_of :: "char \<Rightarrow> byte" where "byte_of c = word_of_nat (of_char c)"

definition char_of_byte :: "byte \<Rightarrow> char" where "char_of_byte b = char_of (unat b)"

lemma char_of_byte_of [simp]: "char_of_byte (byte_of c) = c"
  by (simp add: char_of_byte_def byte_of_def unat_of_nat)

lemma byte_of_char_of_byte [simp]: "byte_of (char_of_byte b) = b"
proof -
  have "unat b < 256" using unsigned_less [of b] by simp
  then show ?thesis by (simp add: char_of_byte_def byte_of_def)
qed

lemma byte_of_inj [simp]: "byte_of c = byte_of d \<longleftrightarrow> c = d"
  by (metis char_of_byte_of)

lemma map_byte_of_inj [simp]: "map byte_of xs = map byte_of ys \<longleftrightarrow> xs = ys"
  by (rule inj_map_eq_map) (simp add: inj_def)

section \<open>Decimal numbers\<close>

definition is_digit :: "char \<Rightarrow> bool" where
  "is_digit c \<longleftrightarrow> 48 \<le> (of_char c :: nat) \<and> (of_char c :: nat) \<le> 57"

definition digit_value :: "char \<Rightarrow> int" where
  "digit_value c = int (of_char c) - 48"

definition digit_char :: "nat \<Rightarrow> char" where
  "digit_char d = char_of (48 + d)"

definition decimal :: "string \<Rightarrow> int" where
  "decimal ds = fold (\<lambda>c v. v * 10 + digit_value c) ds 0"

fun show_nat :: "nat \<Rightarrow> string" where
  "show_nat n = (if n < 10 then [digit_char n] else show_nat (n div 10) @ [digit_char (n mod 10)])"

declare show_nat.simps [simp del]

definition to_string :: "int \<Rightarrow> string" where
  "to_string n = (if n < 0 then CHR ''-'' # show_nat (nat (- n)) else show_nat (nat n))"

text \<open>
  \<open>from_chars\<close>: an optional minus sign for a signed type, then digits up to the first
  other character; the result is the value and the rest, or nothing when there is no digit
  or the value does not fit.
\<close>

definition from_chars :: "int \<Rightarrow> int \<Rightarrow> string \<Rightarrow> (int \<times> string) option" where
  "from_chars lo hi s =
    (let neg = (lo < 0 \<and> s \<noteq> [] \<and> hd s = CHR ''-'');
         body = (if neg then tl s else s);
         ds = takeWhile is_digit body;
         v = (if neg then - decimal ds else decimal ds)
     in if ds = [] \<or> v < lo \<or> hi < v then None else Some (v, dropWhile is_digit body))"

text \<open>The whole text must be the number.\<close>

definition parse_exact :: "int \<Rightarrow> int \<Rightarrow> string \<Rightarrow> int option" where
  "parse_exact lo hi s =
    (case from_chars lo hi s of Some (v, []) \<Rightarrow> Some v | _ \<Rightarrow> None)"

lemma is_digit_digit_char: "d < 10 \<Longrightarrow> is_digit (digit_char d)"
  by (simp add: is_digit_def digit_char_def)

lemma digit_value_digit_char: "d < 10 \<Longrightarrow> digit_value (digit_char d) = int d"
  by (simp add: digit_value_def digit_char_def)

lemma show_nat_digits: "c \<in> set (show_nat n) \<Longrightarrow> is_digit c"
proof (induction n rule: show_nat.induct)
  case (1 n)
  then show ?case
    by (subst (asm) show_nat.simps) (auto simp: is_digit_digit_char split: if_splits)
qed

lemma show_nat_nonempty: "show_nat n \<noteq> []"
  by (subst show_nat.simps) simp

lemma decimal_show_nat: "decimal (show_nat n) = int n"
proof (induction n rule: show_nat.induct)
  case (1 n)
  show ?case
  proof (cases "n < 10")
    case True
    then show ?thesis by (simp add: show_nat.simps [of n] decimal_def digit_value_digit_char)
  next
    case False
    with 1 have "decimal (show_nat (n div 10)) = int (n div 10)" by simp
    with False show ?thesis
      by (simp add: show_nat.simps [of n] decimal_def digit_value_digit_char zdiv_int zmod_int)
  qed
qed

lemma show_nat_inj [simp]: "show_nat m = show_nat n \<longleftrightarrow> m = n"
  by (metis decimal_show_nat of_nat_eq_iff)

lemma minus_not_digit: "\<not> is_digit CHR ''-''"
  by (simp add: is_digit_def)

lemma takeWhile_digits:
  assumes "rest = [] \<or> \<not> is_digit (hd rest)"
  shows "takeWhile is_digit (show_nat n @ rest) = show_nat n"
    and "dropWhile is_digit (show_nat n @ rest) = rest"
  using assms show_nat_digits [of _ n]
  by (cases rest; simp add: takeWhile_append dropWhile_append)+

lemma from_chars_to_string:
  assumes "lo \<le> n" "n \<le> hi" "rest = [] \<or> \<not> is_digit (hd rest)" "lo < 0 \<or> 0 \<le> n"
  shows "from_chars lo hi (to_string n @ rest) = Some (n, rest)"
proof (cases "n < 0")
  case True
  then show ?thesis
    using assms takeWhile_digits [OF assms(3), of "nat (- n)"] show_nat_nonempty [of "nat (- n)"]
    by (simp add: from_chars_def to_string_def decimal_show_nat)
next
  case False
  have "hd (show_nat (nat n)) \<noteq> CHR ''-''"
    using show_nat_digits [of "hd (show_nat (nat n))" "nat n"] show_nat_nonempty [of "nat n"] minus_not_digit
    by (metis hd_in_set)
  then show ?thesis
    using False assms takeWhile_digits [OF assms(3), of "nat n"] show_nat_nonempty [of "nat n"]
    by (simp add: from_chars_def to_string_def decimal_show_nat)
qed

lemma parse_exact_to_string:
  "lo \<le> n \<Longrightarrow> n \<le> hi \<Longrightarrow> lo < 0 \<or> 0 \<le> n \<Longrightarrow> parse_exact lo hi (to_string n) = Some n"
  using from_chars_to_string [of lo n hi "[]"] by (simp add: parse_exact_def)

lemma parse_exact_range: "parse_exact lo hi s = Some v \<Longrightarrow> lo \<le> v \<and> v \<le> hi"
  by (auto simp: parse_exact_def from_chars_def Let_def split: if_splits list.splits option.splits)

end
