(* ===== verification/WS_Canonical.thy ===== *)
theory WS_Canonical
  imports WS_Types WS_Bytes "HOL-Library.Multiset"
begin

text \<open>
  The canonical encodings of \<open>src/core/canonical.cpp\<close>: block states and NBT payloads as
  type-preserving byte strings, and the list of NBT fields with their JSON pointer paths.
  A tag is a value of \<open>nbt_tag\<close>, with machine integers as words and floating point numbers
  as their bit patterns; a compound is the list of its entries in the iteration order of
  the NBT library, whose parser \<open>read_compound\<close> is a parameter. The lemmas show that
  different block states and different tags have different encodings and that the paths of
  the fields are unique.
\<close>

section \<open>Encoders\<close>

datatype canon_error = StringTooLong | InvalidInteger string | InvalidTag | LibraryError string

definition append_string :: "string \<Rightarrow> (canon_error, byte list) result" where
  "append_string s =
    (if UINT32_MAX < int (length s) then Inl StringTooLong
     else Inr (le_word (word_of_nat (length s) :: 32 word) @ map byte_of s))"

definition parse_integer :: "string \<Rightarrow> (canon_error, int) result" where
  "parse_integer s =
    (case parse_exact INT64_MIN INT64_MAX s of None \<Rightarrow> Inl (InvalidInteger s) | Some v \<Rightarrow> Inr v)"

definition append_block_property :: "block_property \<Rightarrow> (canon_error, byte list) result" where
  "append_block_property p =
    and_then (append_string (prop_name p)) (\<lambda>n.
      case prop_type p of
        VByte \<Rightarrow> and_then (parse_integer (prop_value p)) (\<lambda>v. Inr (n @ 1 # le_word (word_of_int v :: 8 word)))
      | VShort \<Rightarrow> and_then (parse_integer (prop_value p)) (\<lambda>v. Inr (n @ 2 # le_word (word_of_int v :: 16 word)))
      | VInt \<Rightarrow> and_then (parse_integer (prop_value p)) (\<lambda>v. Inr (n @ 3 # le_word (word_of_int v :: 32 word)))
      | VLong \<Rightarrow> and_then (parse_integer (prop_value p)) (\<lambda>v. Inr (n @ 4 # le_word (word_of_int v :: 64 word)))
      | VString \<Rightarrow> and_then (append_string (prop_value p)) (\<lambda>b. Inr (n @ 8 # b)))"

text \<open>Appending the encodings of a list of items, up to the first that fails.\<close>

fun append_each :: "('a \<Rightarrow> ('e, 'b list) result) \<Rightarrow> 'a list \<Rightarrow> ('e, 'b list) result" where
  "append_each f [] = Inr []"
| "append_each f (x # xs) = and_then (f x) (\<lambda>b. and_then (append_each f xs) (\<lambda>bs. Inr (b @ bs)))"

lemma append_each_cong [fundef_cong]:
  "xs = ys \<Longrightarrow> (\<And>x. x \<in> set ys \<Longrightarrow> f x = g x) \<Longrightarrow> append_each f xs = append_each g ys"
proof (induction ys arbitrary: xs)
  case (Cons y ys)
  then show ?case by (cases "g y") auto
qed simp

definition prop_key :: "block_property \<Rightarrow> string \<times> nat \<times> string" where
  "prop_key p = (prop_name p, value_type_index (prop_type p), prop_value p)"

definition block_state_magic :: "byte list" where "block_state_magic = [87, 83, 66, 83, 1]"

definition canonical_block_state :: "block_state \<Rightarrow> (canon_error, byte list) result" where
  "canonical_block_state st =
    and_then (append_string (state_name st)) (\<lambda>n.
      let props = sort_key prop_key (states st)
      in and_then (append_each append_block_property props) (\<lambda>b.
           Inr (block_state_magic @ n @ le_word (word_of_int (state_version st) :: 32 word) @
             le_word (word_of_nat (length props) :: 32 word) @ b)))"

datatype nbt_tag = TagByte "8 word" | TagShort "16 word" | TagInt "32 word" | TagLong "64 word"
  | TagFloat "32 word" | TagDouble "64 word" | TagByteArray "8 word list" | TagString string
  | TagList "nbt_tag list" | TagCompound "(string \<times> nbt_tag) list"
  | TagIntArray "32 word list" | TagLongArray "64 word list" | TagEnd | TagNull

definition count_bytes :: "'a list \<Rightarrow> byte list" where
  "count_bytes xs = le_word (word_of_nat (length xs) :: 32 word)"

fun append_tag :: "nbt_tag \<Rightarrow> (canon_error, byte list) result" where
  "append_tag (TagByte v) = Inr (1 # le_word v)"
| "append_tag (TagShort v) = Inr (2 # le_word v)"
| "append_tag (TagInt v) = Inr (3 # le_word v)"
| "append_tag (TagLong v) = Inr (4 # le_word v)"
| "append_tag (TagFloat v) = Inr (5 # le_word v)"
| "append_tag (TagDouble v) = Inr (6 # le_word v)"
| "append_tag (TagByteArray vs) = Inr (7 # count_bytes vs @ concat (map le_word vs))"
| "append_tag (TagString s) = and_then (append_string s) (\<lambda>b. Inr (8 # b))"
| "append_tag (TagList ts) = and_then (append_each append_tag ts) (\<lambda>b. Inr (9 # count_bytes ts @ b))"
| "append_tag (TagCompound kvs) =
     and_then (append_each (\<lambda>kv. and_then (append_string (fst kv)) (\<lambda>k.
         and_then (append_tag (snd kv)) (\<lambda>b. Inr (k @ b)))) kvs)
       (\<lambda>b. Inr (10 # count_bytes kvs @ b))"
| "append_tag (TagIntArray vs) = Inr (11 # count_bytes vs @ concat (map le_word vs))"
| "append_tag (TagLongArray vs) = Inr (12 # count_bytes vs @ concat (map le_word vs))"
| "append_tag TagEnd = Inl InvalidTag"
| "append_tag TagNull = Inl InvalidTag"

definition nbt_magic :: "byte list" where "nbt_magic = [87, 83, 78, 66, 1]"

definition canonical_nbt ::
  "(byte list \<Rightarrow> (string, (string \<times> nbt_tag) list) result) \<Rightarrow> byte list \<Rightarrow> (canon_error, byte list) result" where
  "canonical_nbt read_compound payload =
    (case read_compound payload of
       Inl e \<Rightarrow> Inl (LibraryError e)
     | Inr kvs \<Rightarrow> and_then (append_tag (TagCompound kvs)) (\<lambda>b. Inr (nbt_magic @ b)))"

section \<open>Field paths\<close>

definition escape_char :: "char \<Rightarrow> string" where
  "escape_char c = (if c = CHR ''~'' then ''~0'' else if c = CHR ''/'' then ''~1'' else [c])"

definition escape_json_pointer :: "string \<Rightarrow> string" where
  "escape_json_pointer s = concat (map escape_char s)"

type_synonym nbt_field = "string \<times> byte list"

lemma enumerate_snd: "it \<in> set (enumerate n ts) \<Longrightarrow> snd it \<in> set ts"
  by (metis enumerate_eq_zip prod.collapse set_zip_rightD)

function collect_nbt_fields :: "string \<Rightarrow> nbt_tag \<Rightarrow> (canon_error, nbt_field list) result" where
  "collect_nbt_fields path t =
    and_then (append_tag t) (\<lambda>enc.
      and_then
        (case t of
           TagCompound kvs \<Rightarrow>
             append_each (\<lambda>kv. collect_nbt_fields (path @ ''/'' @ escape_json_pointer (fst kv)) (snd kv))
               (sort_key fst kvs)
         | TagList ts \<Rightarrow>
             append_each (\<lambda>it. collect_nbt_fields (path @ ''/'' @ show_nat (fst it)) (snd it)) (enumerate 0 ts)
         | _ \<Rightarrow> Inr [])
        (\<lambda>fs. Inr ((path, enc) # fs)))"
  by auto

termination
proof (relation "measure (\<lambda>(p, t). size t)")
  fix path t enc kvs kv
  assume "t = TagCompound kvs" and "kv \<in> set (sort_key fst kvs)"
  then have kv: "(fst kv, snd kv) \<in> set kvs" by simp
  have "size (snd kv) \<le> size_list (size_prod (\<lambda>_. 0) size) kvs"
    by (rule size_list_estimation' [OF kv]) (cases kv, simp)
  with \<open>t = TagCompound kvs\<close> show "((path @ ''/'' @ escape_json_pointer (fst kv), snd kv), path, t) \<in> measure (\<lambda>(p, t). size t)"
    by simp
next
  fix path t enc ts it
  assume "t = TagList ts" and "it \<in> set (enumerate 0 ts)"
  then have "snd it \<in> set ts" by (auto dest: enumerate_snd)
  then have "size (snd it) \<le> size_list size ts" by (rule size_list_estimation') simp
  with \<open>t = TagList ts\<close> show "((path @ ''/'' @ show_nat (fst it), snd it), path, t) \<in> measure (\<lambda>(p, t). size t)"
    by simp
qed simp

declare collect_nbt_fields.simps [simp del]

definition canonical_nbt_fields ::
  "(byte list \<Rightarrow> (string, (string \<times> nbt_tag) list) result) \<Rightarrow> byte list \<Rightarrow> (canon_error, nbt_field list) result" where
  "canonical_nbt_fields read_compound payload =
    (case read_compound payload of
       Inl e \<Rightarrow> Inl (LibraryError e)
     | Inr kvs \<Rightarrow> append_each (\<lambda>kv. collect_nbt_fields (''/'' @ escape_json_pointer (fst kv)) (snd kv))
         (sort_key fst kvs))"

section \<open>The encodings are injective\<close>

text \<open>
  A failing encoder prefix-free up to a view of its input: two encodings that agree as
  prefixes of the same bytes come from inputs with the same view.
\<close>

definition unique_up_to :: "('a \<Rightarrow> bool) \<Rightarrow> ('a \<Rightarrow> ('e, 'b list) result) \<Rightarrow> ('a \<Rightarrow> 'v) \<Rightarrow> 'a \<Rightarrow> bool" where
  "unique_up_to ok enc view x \<longleftrightarrow>
    (\<forall>y b c r r'. ok y \<and> enc x = Inr b \<and> enc y = Inr c \<and> b @ r = c @ r' \<longrightarrow> view x = view y \<and> r = r')"

lemma unique_up_toD:
  "unique_up_to ok enc view x \<Longrightarrow> ok y \<Longrightarrow> enc x = Inr b \<Longrightarrow> enc y = Inr c \<Longrightarrow> b @ r = c @ r' \<Longrightarrow>
    view x = view y \<and> r = r'"
  unfolding unique_up_to_def by blast

lemma word_of_nat_32_inj:
  assumes "int m \<le> UINT32_MAX" "int n \<le> UINT32_MAX" "(word_of_nat m :: 32 word) = word_of_nat n"
  shows "m = n"
proof (rule word_of_nat_inj [OF assms(3)])
  have e: "(2::nat) ^ LENGTH(32) = 4294967296" by simp
  show "m < 2 ^ LENGTH(32)" "n < 2 ^ LENGTH(32)"
    using assms(1,2) unfolding e UINT32_MAX_def by linarith+
qed

lemma append_string_unique:
  assumes "append_string s = Inr b" "append_string t = Inr c" "b @ r = c @ r'"
  shows "s = t \<and> r = r'"
proof -
  have s: "int (length s) \<le> UINT32_MAX" "b = le_word (word_of_nat (length s) :: 32 word) @ map byte_of s"
    and t: "int (length t) \<le> UINT32_MAX" "c = le_word (word_of_nat (length t) :: 32 word) @ map byte_of t"
    using assms(1,2) by (auto simp: append_string_def split: if_splits)
  have "le_word (word_of_nat (length s) :: 32 word) @ map byte_of s @ r =
      le_word (word_of_nat (length t) :: 32 word) @ map byte_of t @ r'"
    using assms(3) s t by simp
  then have "(word_of_nat (length s) :: 32 word) = word_of_nat (length t)" "map byte_of s @ r = map byte_of t @ r'"
    using le_word_append_eq [where 'a = 32] by simp_all
  moreover from this(1) have "length s = length t" by (rule word_of_nat_32_inj [OF s(1) t(1)])
  ultimately show ?thesis by (simp add: append_eq_append_conv)
qed

datatype norm_value = NormByte "8 word" | NormShort "16 word" | NormInt "32 word" | NormLong "64 word"
  | NormString string

text \<open>What the encoding keeps of a property: its name, its type and its value at its width.\<close>

definition norm_property :: "block_property \<Rightarrow> string \<times> norm_value" where
  "norm_property p =
    (let v = (case parse_exact INT64_MIN INT64_MAX (prop_value p) of Some v \<Rightarrow> v | None \<Rightarrow> 0)
     in (prop_name p,
         case prop_type p of
           VByte \<Rightarrow> NormByte (word_of_int v) | VShort \<Rightarrow> NormShort (word_of_int v)
         | VInt \<Rightarrow> NormInt (word_of_int v) | VLong \<Rightarrow> NormLong (word_of_int v)
         | VString \<Rightarrow> NormString (prop_value p)))"

text \<open>The part of a property after its name.\<close>

definition append_value :: "block_property \<Rightarrow> (canon_error, byte list) result" where
  "append_value p =
    (case prop_type p of
        VByte \<Rightarrow> and_then (parse_integer (prop_value p)) (\<lambda>v. Inr (1 # le_word (word_of_int v :: 8 word)))
      | VShort \<Rightarrow> and_then (parse_integer (prop_value p)) (\<lambda>v. Inr (2 # le_word (word_of_int v :: 16 word)))
      | VInt \<Rightarrow> and_then (parse_integer (prop_value p)) (\<lambda>v. Inr (3 # le_word (word_of_int v :: 32 word)))
      | VLong \<Rightarrow> and_then (parse_integer (prop_value p)) (\<lambda>v. Inr (4 # le_word (word_of_int v :: 64 word)))
      | VString \<Rightarrow> and_then (append_string (prop_value p)) (\<lambda>b. Inr (8 # b)))"

lemma append_block_property_split:
  assumes "append_block_property p = Inr b"
  shows "\<exists>n v. append_string (prop_name p) = Inr n \<and> b = n @ v \<and> append_value p = Inr v"
proof -
  have "append_block_property p =
      and_then (append_string (prop_name p)) (\<lambda>n. and_then (append_value p) (\<lambda>v. Inr (n @ v)))"
    unfolding append_block_property_def append_value_def
    by (cases "prop_type p") (simp_all add: and_then_assoc)
  with assms show ?thesis by (auto simp: and_then_eq_Inr_iff)
qed

lemma append_value_unique:
  assumes "append_value p = Inr b" "append_value q = Inr c" "prop_name p = prop_name q \<and> b @ r = c @ r'"
  shows "norm_property p = norm_property q \<and> r = r'"
proof (cases "prop_type p = VString \<and> prop_type q = VString")
  case True
  then show ?thesis
    using assms append_string_unique [of "prop_value p" "tl b" "prop_value q" "tl c" r r']
    by (auto simp: append_value_def norm_property_def and_then_eq_Inr_iff)
next
  case False
  then show ?thesis
    using assms
    by (cases "prop_type p"; cases "prop_type q")
      (auto simp: append_value_def norm_property_def and_then_eq_Inr_iff parse_integer_def le_word_append_eq
        split: option.splits)
qed

lemma append_property_unique: "unique_up_to (\<lambda>_. True) append_block_property norm_property p"
  unfolding unique_up_to_def
proof (intro allI impI)
  fix q b c r r'
  assume a: "True \<and> append_block_property p = Inr b \<and> append_block_property q = Inr c \<and> b @ r = c @ r'"
  obtain n b' where b: "append_string (prop_name p) = Inr n" "b = n @ b'" "append_value p = Inr b'"
    using a append_block_property_split [of p b] by blast
  obtain m c' where c: "append_string (prop_name q) = Inr m" "c = m @ c'" "append_value q = Inr c'"
    using a append_block_property_split [of q c] by blast
  have "prop_name p = prop_name q \<and> b' @ r = c' @ r'"
    using a append_string_unique [OF b(1) c(1), of "b' @ r" "c' @ r'"] b(2) c(2) by simp
  with append_value_unique [OF b(3) c(3)] show "norm_property p = norm_property q \<and> r = r'" by blast
qed

lemma append_each_unique:
  assumes "\<And>x. x \<in> set xs \<Longrightarrow> unique_up_to ok f view x" and "length xs = length ys"
    and "\<forall>y \<in> set ys. ok y"
    and "append_each f xs = Inr b" "append_each f ys = Inr c" "b @ r = c @ r'"
  shows "map view xs = map view ys \<and> r = r'"
  using assms
proof (induction xs arbitrary: ys b c)
  case Nil
  then show ?case by simp
next
  case (Cons x xs)
  then obtain y ys' where ys: "ys = y # ys'" by (cases ys) auto
  obtain b1 b2 c1 c2 where 1: "f x = Inr b1" "append_each f xs = Inr b2" "b = b1 @ b2"
    and 2: "f y = Inr c1" "append_each f ys' = Inr c2" "c = c1 @ c2"
    using Cons.prems ys by (auto simp: and_then_eq_Inr_iff)
  have "view x = view y \<and> b2 @ r = c2 @ r'"
    using Cons.prems(1) [of x] Cons.prems(3,6) ys 1 2 unique_up_toD [of ok f view x y b1 c1] by simp
  with Cons.IH [of ys' b2 c2] Cons.prems ys 1 2 show ?case by simp
qed

lemma mset_map_sort_key: "mset (map f (sort_key k xs)) = mset (map f xs)"
  by (simp add: image_mset.compositionality)

lemma inj_prop_key: "inj prop_key"
  by (rule injI) (auto simp: prop_key_def value_type_index_inj)

text \<open>
  C32: the canonical encoding of a block state identifies it. Two block states with the same
  encoding have the same name and version and the same properties up to their order and up
  to the spelling of integers (a text that denotes the same value at the width of its
  type).
\<close>

theorem canonical_block_state_injective:
  assumes "canonical_block_state s = Inr b" and "canonical_block_state t = Inr b"
    and "int (length (states s)) \<le> UINT32_MAX" and "int (length (states t)) \<le> UINT32_MAX"
    and "in_s32 (state_version s)" and "in_s32 (state_version t)"
  shows "state_name s = state_name t \<and> state_version s = state_version t \<and>
    mset (map norm_property (states s)) = mset (map norm_property (states t))"
proof -
  let ?ps = "sort_key prop_key (states s)" and ?qs = "sort_key prop_key (states t)"
  obtain n b1 where 1: "append_string (state_name s) = Inr n" "append_each append_block_property ?ps = Inr b1"
      "b = block_state_magic @ n @ le_word (word_of_int (state_version s) :: 32 word) @
        le_word (word_of_nat (length ?ps) :: 32 word) @ b1"
    using assms(1) unfolding canonical_block_state_def and_then_eq_Inr_iff Let_def by auto
  obtain m c1 where 2: "append_string (state_name t) = Inr m" "append_each append_block_property ?qs = Inr c1"
      "b = block_state_magic @ m @ le_word (word_of_int (state_version t) :: 32 word) @
        le_word (word_of_nat (length ?qs) :: 32 word) @ c1"
    using assms(2) unfolding canonical_block_state_def and_then_eq_Inr_iff Let_def by auto
  have "n @ le_word (word_of_int (state_version s) :: 32 word) @ le_word (word_of_nat (length ?ps) :: 32 word) @ b1 =
      m @ le_word (word_of_int (state_version t) :: 32 word) @ le_word (word_of_nat (length ?qs) :: 32 word) @ c1"
    using 1(3) 2(3) by simp
  from append_string_unique [OF 1(1) 2(1) this]
  have e: "state_name s = state_name t"
    "(word_of_int (state_version s) :: 32 word) = word_of_int (state_version t)"
    "(word_of_nat (length ?ps) :: 32 word) = word_of_nat (length ?qs)" "b1 = c1"
    by (simp_all add: le_word_append_eq)
  have l: "length ?ps = length ?qs" using e(3) assms(3,4) by (intro word_of_nat_32_inj) simp_all
  have "map norm_property ?ps = map norm_property ?qs"
    using append_each_unique [OF append_property_unique l _ 1(2) 2(2), of "[]" "[]"] e(4) by simp
  then have "mset (map norm_property (states s)) = mset (map norm_property (states t))"
    by (metis mset_map_sort_key)
  then show ?thesis using e word_of_int_s32_inj assms(5,6) by blast
qed

text \<open>The order in which a block state lists its properties does not change its encoding.\<close>

theorem canonical_block_state_order:
  assumes "mset ps = mset qs"
  shows "canonical_block_state \<lparr>state_name = n, states = ps, state_version = v\<rparr> =
    (canonical_block_state \<lparr>state_name = n, states = qs, state_version = v\<rparr> :: (canon_error, byte list) result)"
proof -
  have "sort_key prop_key ps = sort_key prop_key qs"
    using assms inj_prop_key by (intro sort_key_inj_key_eq) (auto simp: inj_on_def inj_def)
  then show ?thesis by (simp add: canonical_block_state_def)
qed

theorem canonical_block_state_injective_witness:
  "mset (map norm_property [\<lparr>prop_name = ''b'', prop_type = VInt, prop_value = ''07''\<rparr>,
       \<lparr>prop_name = ''a'', prop_type = VByte, prop_value = ''1''\<rparr>]) =
   mset (map norm_property [\<lparr>prop_name = ''a'', prop_type = VByte, prop_value = ''1''\<rparr>,
       \<lparr>prop_name = ''b'', prop_type = VInt, prop_value = ''7''\<rparr>])"
proof -
  let ?p = "\<lambda>n t v. \<lparr>prop_name = n, prop_type = t, prop_value = v\<rparr>"
  let ?s = "\<lparr>state_name = ''n'', states = [?p ''b'' VInt ''07'', ?p ''a'' VByte ''1''], state_version = 3\<rparr>"
  let ?t = "\<lparr>state_name = ''n'', states = [?p ''a'' VByte ''1'', ?p ''b'' VInt ''7''], state_version = 3\<rparr>"
  have "canonical_block_state ?s = canonical_block_state ?t" by code_simp
  moreover have "is_ok (canonical_block_state ?s)" by code_simp
  ultimately obtain b where "canonical_block_state ?s = Inr b" "canonical_block_state ?t = Inr b"
    by (auto simp: is_ok_iff)
  from canonical_block_state_injective [OF this] show ?thesis by (simp add: range_simps)
qed

theorem canonical_block_state_order_witness:
  "is_ok (canonical_block_state \<lparr>state_name = ''n'', states = [\<lparr>prop_name = ''b'', prop_type = VString, prop_value = ''x''\<rparr>,
       \<lparr>prop_name = ''a'', prop_type = VString, prop_value = ''y''\<rparr>], state_version = 3\<rparr>)"
proof -
  have e: "canonical_block_state \<lparr>state_name = ''n'', states = [\<lparr>prop_name = ''b'', prop_type = VString, prop_value = ''x''\<rparr>,
       \<lparr>prop_name = ''a'', prop_type = VString, prop_value = ''y''\<rparr>], state_version = 3\<rparr> =
    canonical_block_state \<lparr>state_name = ''n'', states = [\<lparr>prop_name = ''a'', prop_type = VString, prop_value = ''y''\<rparr>,
       \<lparr>prop_name = ''b'', prop_type = VString, prop_value = ''x''\<rparr>], state_version = 3\<rparr>"
    by (rule canonical_block_state_order) simp
  show ?thesis unfolding e by code_simp
qed

section \<open>NBT payloads\<close>

definition count_ok :: "'a list \<Rightarrow> bool" where
  "count_ok xs \<longleftrightarrow> int (length xs) \<le> UINT32_MAX"

text \<open>Every list and array of the tag has a length that fits the 32-bit count.\<close>

fun tag_ok :: "nbt_tag \<Rightarrow> bool" where
  "tag_ok (TagByteArray vs) = count_ok vs"
| "tag_ok (TagIntArray vs) = count_ok vs"
| "tag_ok (TagLongArray vs) = count_ok vs"
| "tag_ok (TagList ts) = (count_ok ts \<and> (\<forall>t \<in> set ts. tag_ok t))"
| "tag_ok (TagCompound kvs) = (count_ok kvs \<and> (\<forall>kv \<in> set kvs. tag_ok (snd kv)))"
| "tag_ok _ = True"

lemma count_unique:
  assumes "count_ok xs" "count_ok ys" "count_bytes xs @ r = count_bytes ys @ r'"
  shows "length xs = length ys \<and> r = r'"
  using assms word_of_nat_32_inj by (auto simp: count_bytes_def count_ok_def le_word_append_eq)

lemma concat_le_word_unique:
  assumes "8 dvd LENGTH('a::len)" and "length xs = length ys"
    and "concat (map le_word (xs :: 'a word list)) @ r = concat (map le_word ys) @ r'"
  shows "xs = ys \<and> r = r'"
  using assms(2,3) by (induction xs ys rule: list_induct2) (auto simp: le_word_append_eq [OF assms(1)])

lemma array_unique:
  assumes "8 dvd LENGTH('a::len)" "count_ok xs" "count_ok ys"
    and "count_bytes xs @ concat (map le_word (xs :: 'a word list)) @ r =
      count_bytes ys @ concat (map le_word ys) @ r'"
  shows "xs = ys \<and> r = r'"
  using count_unique [OF assms(2,3,4)] concat_le_word_unique [OF assms(1), of xs ys r r'] by blast

text \<open>The first byte of an encoding is the type of the tag.\<close>

fun tag_type :: "nbt_tag \<Rightarrow> byte" where
  "tag_type (TagByte _) = 1"
| "tag_type (TagShort _) = 2"
| "tag_type (TagInt _) = 3"
| "tag_type (TagLong _) = 4"
| "tag_type (TagFloat _) = 5"
| "tag_type (TagDouble _) = 6"
| "tag_type (TagByteArray _) = 7"
| "tag_type (TagString _) = 8"
| "tag_type (TagList _) = 9"
| "tag_type (TagCompound _) = 10"
| "tag_type (TagIntArray _) = 11"
| "tag_type (TagLongArray _) = 12"
| "tag_type TagEnd = 0"
| "tag_type TagNull = 255"

lemma append_tag_cons: "append_tag t = Inr c \<Longrightarrow> \<exists>c'. c = tag_type t # c'"
  by (cases t) (auto simp: and_then_eq_Inr_iff)

lemma append_tag_nonempty: "append_tag t = Inr c \<Longrightarrow> c \<noteq> []"
  using append_tag_cons by blast

lemma tag_type_cases:
  "tag_type y = 1 \<Longrightarrow> \<exists>v. y = TagByte v"
  "tag_type y = 2 \<Longrightarrow> \<exists>v. y = TagShort v"
  "tag_type y = 3 \<Longrightarrow> \<exists>v. y = TagInt v"
  "tag_type y = 4 \<Longrightarrow> \<exists>v. y = TagLong v"
  "tag_type y = 5 \<Longrightarrow> \<exists>v. y = TagFloat v"
  "tag_type y = 6 \<Longrightarrow> \<exists>v. y = TagDouble v"
  "tag_type y = 7 \<Longrightarrow> \<exists>v. y = TagByteArray v"
  "tag_type y = 8 \<Longrightarrow> \<exists>v. y = TagString v"
  "tag_type y = 9 \<Longrightarrow> \<exists>v. y = TagList v"
  "tag_type y = 10 \<Longrightarrow> \<exists>v. y = TagCompound v"
  "tag_type y = 11 \<Longrightarrow> \<exists>v. y = TagIntArray v"
  "tag_type y = 12 \<Longrightarrow> \<exists>v. y = TagLongArray v"
  by (cases y; simp)+

lemma append_tag_head: "append_tag y = Inr (n # c) \<Longrightarrow> tag_type y = n"
  using append_tag_cons [of y "n # c"] by auto

lemma scalar_unique:
  fixes C :: "'a::len word \<Rightarrow> nbt_tag"
  assumes "8 dvd LENGTH('a)" and "\<And>v. append_tag (C v) = Inr (n # le_word v)"
    and "\<And>y c. append_tag y = Inr (n # c) \<Longrightarrow> \<exists>v. y = C v"
  shows "unique_up_to tag_ok append_tag id (C v)"
  unfolding unique_up_to_def
proof (intro allI impI)
  fix y b c r r'
  assume a: "tag_ok y \<and> append_tag (C v) = Inr b \<and> append_tag y = Inr c \<and> b @ r = c @ r'"
  have b: "b = n # le_word v" using a assms(2) by simp
  with a have "c \<noteq> []" using append_tag_nonempty [of y] by blast
  with a b obtain c' where "c = n # c'" by (cases c) auto
  with a assms(3) obtain w where "y = C w" by blast
  with a b assms(2) have "c = n # le_word w" "n # le_word v @ r = c @ r'" by simp_all
  with \<open>y = C w\<close> show "id (C v) = id y \<and> r = r'" by (simp add: le_word_append_eq [OF assms(1)])
qed

lemma array_tag_unique:
  fixes C :: "'a::len word list \<Rightarrow> nbt_tag"
  assumes "8 dvd LENGTH('a)" and "\<And>v. append_tag (C v) = Inr (n # count_bytes v @ concat (map le_word v))"
    and "\<And>y c. append_tag y = Inr (n # c) \<Longrightarrow> \<exists>v. y = C v" and "\<And>v. tag_ok (C v) = count_ok v"
    and "tag_ok (C vs)"
  shows "unique_up_to tag_ok append_tag id (C vs)"
  unfolding unique_up_to_def
proof (intro allI impI)
  fix y b c r r'
  assume a: "tag_ok y \<and> append_tag (C vs) = Inr b \<and> append_tag y = Inr c \<and> b @ r = c @ r'"
  have b: "b = n # count_bytes vs @ concat (map le_word vs)" using a assms(2) by simp
  with a have "c \<noteq> []" using append_tag_nonempty [of y] by blast
  with a b obtain c' where "c = n # c'" by (cases c) auto
  with a assms(3) obtain w where w: "y = C w" by blast
  with a b assms(2) have "c = n # count_bytes w @ concat (map le_word w)"
    "n # count_bytes vs @ concat (map le_word vs) @ r = c @ r'" by simp_all
  then have "count_bytes vs @ concat (map le_word vs) @ r = count_bytes w @ concat (map le_word w) @ r'"
    by simp
  from array_unique [OF assms(1) _ _ this] w a assms(4,5) show "id (C vs) = id y \<and> r = r'" by simp
qed

lemma append_tag_unique: "tag_ok t \<Longrightarrow> unique_up_to tag_ok append_tag id t"
proof (induction t rule: append_tag.induct)
  case (1 v)
  show ?case by (rule scalar_unique [of TagByte]) (auto dest!: append_tag_head intro: tag_type_cases)
next
  case (2 v)
  show ?case by (rule scalar_unique [of TagShort]) (auto dest!: append_tag_head intro: tag_type_cases)
next
  case (3 v)
  show ?case by (rule scalar_unique [of TagInt]) (auto dest!: append_tag_head intro: tag_type_cases)
next
  case (4 v)
  show ?case by (rule scalar_unique [of TagLong]) (auto dest!: append_tag_head intro: tag_type_cases)
next
  case (5 v)
  show ?case by (rule scalar_unique [of TagFloat]) (auto dest!: append_tag_head intro: tag_type_cases)
next
  case (6 v)
  show ?case by (rule scalar_unique [of TagDouble]) (auto dest!: append_tag_head intro: tag_type_cases)
next
  case (7 vs)
  then show ?case by (intro array_tag_unique [of TagByteArray]) (auto dest!: append_tag_head intro: tag_type_cases)
next
  case (11 vs)
  then show ?case by (intro array_tag_unique [of TagIntArray]) (auto dest!: append_tag_head intro: tag_type_cases)
next
  case (12 vs)
  then show ?case by (intro array_tag_unique [of TagLongArray]) (auto dest!: append_tag_head intro: tag_type_cases)
next
  case (8 s)
  show ?case
    unfolding unique_up_to_def
  proof (intro allI impI)
    fix y b c r r'
    assume a: "tag_ok y \<and> append_tag (TagString s) = Inr b \<and> append_tag y = Inr c \<and> b @ r = c @ r'"
    then obtain b' where b: "append_string s = Inr b'" "b = 8 # b'" by (auto simp: and_then_eq_Inr_iff)
    with a obtain u c' where c: "y = TagString u" "append_string u = Inr c'" "c = 8 # c'"
      by (cases y) (auto simp: and_then_eq_Inr_iff)
    with a b append_string_unique [OF b(1) c(2), of r r'] show "id (TagString s) = id y \<and> r = r'" by simp
  qed
next
  case (9 ts)
  show ?case
    unfolding unique_up_to_def
  proof (intro allI impI)
    fix y b c r r'
    assume a: "tag_ok y \<and> append_tag (TagList ts) = Inr b \<and> append_tag y = Inr c \<and> b @ r = c @ r'"
    then obtain b' where b: "append_each append_tag ts = Inr b'" "b = 9 # count_bytes ts @ b'"
      by (auto simp: and_then_eq_Inr_iff)
    with a obtain us c' where c: "y = TagList us" "append_each append_tag us = Inr c'" "c = 9 # count_bytes us @ c'"
      by (cases y) (auto simp: and_then_eq_Inr_iff)
    have n: "length ts = length us \<and> b' @ r = c' @ r'"
      using count_unique [of ts us "b' @ r" "c' @ r'"] a b c 9(2) by simp
    have "map id ts = map id us \<and> r = r'"
    proof (rule append_each_unique [OF _ _ _ b(1) c(2)])
      show "unique_up_to tag_ok append_tag id t" if "t \<in> set ts" for t
        by (rule "9.IH" [OF that]) (use "9.prems" that in simp)
    qed (use n a c in auto)
    with c show "id (TagList ts) = id y \<and> r = r'" by simp
  qed
next
  case (10 kvs)
  let ?f = "\<lambda>kv. and_then (append_string (fst kv)) (\<lambda>k. and_then (append_tag (snd kv)) (\<lambda>b. Inr (k @ b)))"
  have each: "unique_up_to (\<lambda>kv. tag_ok (snd kv)) ?f id kv" if "kv \<in> set kvs" for kv
    unfolding unique_up_to_def
  proof (intro allI impI)
    fix y b c r r'
    assume a: "tag_ok (snd y) \<and> ?f kv = Inr b \<and> ?f y = Inr c \<and> b @ r = c @ r'"
    obtain k v where 1: "append_string (fst kv) = Inr k" "append_tag (snd kv) = Inr v" "b = k @ v"
      using a unfolding and_then_eq_Inr_iff by blast
    obtain l w where 2: "append_string (fst y) = Inr l" "append_tag (snd y) = Inr w" "c = l @ w"
      using a unfolding and_then_eq_Inr_iff by blast
    have n: "fst kv = fst y \<and> v @ r = w @ r'"
      using append_string_unique [OF 1(1) 2(1), of "v @ r" "w @ r'"] a 1 2 by simp
    obtain key where "append_string (fst kv) = Inr key" using 1 by blast
    have "unique_up_to tag_ok append_tag id (snd kv)"
      by (rule "10.IH" [OF that 1(1)]) (use "10.prems" that in simp)
    from unique_up_toD [OF this conjunct1 [OF a] 1(2) 2(2) conjunct2 [OF n]] n
    show "id kv = id y \<and> r = r'" by (simp add: prod_eq_iff)
  qed
  show ?case
    unfolding unique_up_to_def
  proof (intro allI impI)
    fix y b c r r'
    assume a: "tag_ok y \<and> append_tag (TagCompound kvs) = Inr b \<and> append_tag y = Inr c \<and> b @ r = c @ r'"
    then obtain b' where b: "append_each ?f kvs = Inr b'" "b = 10 # count_bytes kvs @ b'"
      by (auto simp: and_then_eq_Inr_iff)
    with a obtain us c' where c: "y = TagCompound us" "append_each ?f us = Inr c'" "c = 10 # count_bytes us @ c'"
      by (cases y) (auto simp: and_then_eq_Inr_iff)
    have n: "length kvs = length us \<and> b' @ r = c' @ r'"
      using count_unique [of kvs us "b' @ r" "c' @ r'"] a b c "10.prems" by simp
    have "map id kvs = map id us \<and> r = r'"
      using append_each_unique [of kvs "\<lambda>kv. tag_ok (snd kv)" ?f id us b' c' r r'] each a b c n by simp
    with c show "id (TagCompound kvs) = id y \<and> r = r'" by simp
  qed
qed (simp_all add: unique_up_to_def)


definition sample_reader :: "byte list \<Rightarrow> (string, (string \<times> nbt_tag) list) result" where
  "sample_reader bs = (if bs = [] then Inl ''empty'' else Inr [(''k'', TagList [TagInt 7, TagString ''v''])])"


section \<open>The field paths are unique\<close>

lemma escape_char_no_slash: "CHR ''/'' \<notin> set (escape_char c)"
  by (simp add: escape_char_def)

lemma escape_no_slash: "CHR ''/'' \<notin> set (escape_json_pointer s)"
  using escape_char_no_slash by (auto simp: escape_json_pointer_def)

lemma escape_inj: "escape_json_pointer s = escape_json_pointer t \<Longrightarrow> s = t"
proof (induction s arbitrary: t)
  case Nil
  then show ?case by (cases t) (auto simp: escape_json_pointer_def escape_char_def split: if_splits)
next
  case (Cons c s)
  obtain d u where t: "t = d # u"
    using Cons.prems by (cases t) (auto simp: escape_json_pointer_def escape_char_def split: if_splits)
  have e: "escape_char c @ escape_json_pointer s = escape_char d @ escape_json_pointer u"
    using Cons.prems t by (simp add: escape_json_pointer_def)
  then have "c = d" by (auto simp: escape_char_def split: if_splits)
  with e Cons.IH t show ?case by simp
qed

lemma show_nat_no_slash: "CHR ''/'' \<notin> set (show_nat n)"
  using show_nat_digits [of "CHR ''/''" n] by (auto simp: is_digit_def)

text \<open>A path below another: what follows is empty or starts a new segment.\<close>

definition below :: "string \<Rightarrow> string \<Rightarrow> bool" where
  "below path p \<longleftrightarrow> (\<exists>s. p = path @ s \<and> (s = [] \<or> hd s = CHR ''/''))"

lemma below_segment:
  assumes "below (path @ ''/'' @ a) p" "below (path @ ''/'' @ b) p"
    and "CHR ''/'' \<notin> set a" "CHR ''/'' \<notin> set b"
  shows "a = b"
proof -
  obtain s where s: "p = path @ ''/'' @ a @ s" "s = [] \<or> hd s = CHR ''/''"
    using assms(1) unfolding below_def append_assoc by blast
  obtain t where t: "p = path @ ''/'' @ b @ t" "t = [] \<or> hd t = CHR ''/''"
    using assms(2) unfolding below_def append_assoc by blast
  have stop: "takeWhile (\<lambda>c. c \<noteq> CHR ''/'') (x @ y) = x"
    if "CHR ''/'' \<notin> set x" "y = [] \<or> hd y = CHR ''/''" for x y :: string
    using that by (cases y) (auto simp: takeWhile_append takeWhile_eq_all_conv)
  have "a @ s = b @ t" using s(1) t(1) by simp
  then show ?thesis using stop [OF assms(3) s(2)] stop [OF assms(4) t(2)] by metis
qed

lemma below_child: "below (path @ ''/'' @ a) p \<Longrightarrow> below path p \<and> p \<noteq> path"
  by (auto simp: below_def)

text \<open>Children with distinct segments have disjoint paths.\<close>

lemma append_each_paths:
  assumes "append_each f xs = Inr fs" and "distinct (map seg xs)"
    and "\<And>x. x \<in> set xs \<Longrightarrow> CHR ''/'' \<notin> set (seg x)"
    and "\<And>x gs. x \<in> set xs \<Longrightarrow> f x = Inr gs \<Longrightarrow>
      distinct (map fst gs) \<and> (\<forall>p \<in> fst ` set gs. below (path @ ''/'' @ seg x) p)"
  shows "distinct (map fst fs) \<and> (\<forall>p \<in> fst ` set fs. \<exists>x \<in> set xs. below (path @ ''/'' @ seg x) p)"
  using assms
proof (induction xs arbitrary: fs)
  case Nil
  then show ?case by simp
next
  case (Cons x xs)
  obtain gs hs where g: "f x = Inr gs" "append_each f xs = Inr hs" "fs = gs @ hs"
    using Cons.prems(1) by (auto simp: and_then_eq_Inr_iff)
  have gx: "distinct (map fst gs)" "\<forall>p \<in> fst ` set gs. below (path @ ''/'' @ seg x) p"
    using Cons.prems(4) [of x gs] g(1) by simp_all
  have hx: "distinct (map fst hs)" "\<forall>p \<in> fst ` set hs. \<exists>y \<in> set xs. below (path @ ''/'' @ seg y) p"
    using Cons.IH [OF g(2)] Cons.prems(2,3) Cons.prems(4) [OF list.set_intros(2)] by (simp_all del: append_Cons append_Nil append.simps)
  have "fst ` set gs \<inter> fst ` set hs = {}"
  proof (rule ccontr)
    assume "fst ` set gs \<inter> fst ` set hs \<noteq> {}"
    then obtain p where "p \<in> fst ` set gs" "p \<in> fst ` set hs" by blast
    with gx hx obtain y where y: "y \<in> set xs" "below (path @ ''/'' @ seg y) p" "below (path @ ''/'' @ seg x) p"
      by blast
    then have "seg x = seg y" using below_segment [OF y(3,2)] Cons.prems(3) by simp
    then show False using Cons.prems(2) y(1) by auto
  qed
  then show ?case using gx hx g(3) by auto
qed

text \<open>The keys of every compound of a tag are distinct (a compound is a map).\<close>

fun keys_ok :: "nbt_tag \<Rightarrow> bool" where
  "keys_ok (TagList ts) = (\<forall>t \<in> set ts. keys_ok t)"
| "keys_ok (TagCompound kvs) = (distinct (map fst kvs) \<and> (\<forall>kv \<in> set kvs. keys_ok (snd kv)))"
| "keys_ok _ = True"

lemma distinct_sort_key_map: "distinct (map g (sort_key k xs)) = distinct (map g xs)"
  by (metis mset_map_sort_key mset_eq_imp_distinct_iff)

lemma distinct_escaped:
  "distinct (map fst kvs) \<Longrightarrow> distinct (map (\<lambda>kv. escape_json_pointer (fst kv)) (sort_key fst kvs))"
proof -
  assume "distinct (map fst kvs)"
  then have "distinct (map escape_json_pointer (map fst (sort_key fst kvs)))"
    unfolding distinct_map [of escape_json_pointer]
    using escape_inj by (simp add: distinct_sort_key_map inj_on_def)
  then show ?thesis by (simp add: comp_def)
qed

lemma distinct_indices: "distinct (map (\<lambda>it. show_nat (fst it)) (enumerate n ts))"
proof -
  have "map (\<lambda>it. show_nat (fst it)) (enumerate n ts) = map show_nat [n..<n + length ts]"
    by (simp add: enumerate_eq_zip map_fst_zip flip: map_map [unfolded comp_def])
  then show ?thesis by (simp add: distinct_map inj_on_def)
qed

lemma below_trans: "below (path @ ''/'' @ a) p \<Longrightarrow> below path p"
  by (auto simp: below_def)

lemma collect_paths:
  "collect_nbt_fields path t = Inr fs \<Longrightarrow> keys_ok t \<Longrightarrow>
    distinct (map fst fs) \<and> (\<forall>p \<in> fst ` set fs. below path p)"
proof (induction path t arbitrary: fs rule: collect_nbt_fields.induct)
  case (1 path t)
  obtain enc gs where enc: "append_tag t = (Inr enc :: (canon_error, byte list) result)"
    and gs: "(case t of
           TagCompound kvs \<Rightarrow>
             append_each (\<lambda>kv. collect_nbt_fields (path @ ''/'' @ escape_json_pointer (fst kv)) (snd kv))
               (sort_key fst kvs)
         | TagList ts \<Rightarrow>
             append_each (\<lambda>it. collect_nbt_fields (path @ ''/'' @ show_nat (fst it)) (snd it)) (enumerate 0 ts)
         | _ \<Rightarrow> Inr []) = Inr gs"
    and fs: "fs = (path, enc) # gs"
    using "1.prems"(1) unfolding collect_nbt_fields.simps [of path t] and_then_eq_Inr_iff by blast
  have sub: "distinct (map fst gs) \<and> (\<forall>p \<in> fst ` set gs. \<exists>a. below (path @ ''/'' @ a) p)"
  proof (cases t)
    case (TagCompound kvs)
    have "distinct (map fst gs) \<and>
      (\<forall>p \<in> fst ` set gs. \<exists>kv \<in> set (sort_key fst kvs). below (path @ ''/'' @ escape_json_pointer (fst kv)) p)"
    proof (rule append_each_paths)
      show "append_each (\<lambda>kv. collect_nbt_fields (path @ ''/'' @ escape_json_pointer (fst kv)) (snd kv))
          (sort_key fst kvs) = Inr gs" using gs TagCompound by simp
      show "distinct (map (\<lambda>kv. escape_json_pointer (fst kv)) (sort_key fst kvs))"
        using "1.prems"(2) TagCompound by (intro distinct_escaped) simp
      fix kv
      assume kv: "kv \<in> set (sort_key fst kvs)"
      show "CHR ''/'' \<notin> set (escape_json_pointer (fst kv))" by (rule escape_no_slash)
      fix hs
      assume h: "collect_nbt_fields (path @ ''/'' @ escape_json_pointer (fst kv)) (snd kv) = Inr hs"
      have "keys_ok (snd kv)" using "1.prems"(2) TagCompound kv by simp
      from "1.IH"(2) [OF enc TagCompound kv h this] show "distinct (map fst hs) \<and>
          (\<forall>p \<in> fst ` set hs. below (path @ ''/'' @ escape_json_pointer (fst kv)) p)" .
    qed
    then show ?thesis by blast
  next
    case (TagList ts)
    have "distinct (map fst gs) \<and>
      (\<forall>p \<in> fst ` set gs. \<exists>it \<in> set (enumerate 0 ts). below (path @ ''/'' @ show_nat (fst it)) p)"
    proof (rule append_each_paths)
      show "append_each (\<lambda>it. collect_nbt_fields (path @ ''/'' @ show_nat (fst it)) (snd it)) (enumerate 0 ts) = Inr gs"
        using gs TagList by simp
      show "distinct (map (\<lambda>it. show_nat (fst it)) (enumerate 0 ts))" by (rule distinct_indices)
      fix it
      assume it: "it \<in> set (enumerate 0 ts)"
      show "CHR ''/'' \<notin> set (show_nat (fst it))" by (rule show_nat_no_slash)
      fix hs
      assume h: "collect_nbt_fields (path @ ''/'' @ show_nat (fst it)) (snd it) = Inr hs"
      have "keys_ok (snd it)" using "1.prems"(2) TagList enumerate_snd [OF it] by simp
      from "1.IH"(1) [OF enc TagList it h this] show "distinct (map fst hs) \<and>
          (\<forall>p \<in> fst ` set hs. below (path @ ''/'' @ show_nat (fst it)) p)" .
    qed
    then show ?thesis by blast
  qed (use gs in simp_all)
  then have "\<forall>p \<in> fst ` set gs. below path p \<and> p \<noteq> path" using below_child by blast
  with sub fs show ?case by (auto simp: below_def)
qed

text \<open>
  The paths of the listed NBT fields are unique: for a compound in which no compound
  repeats a key, no two fields, at whatever depth, have the same JSON pointer path, although
  keys may contain slashes and tildes.
\<close>

theorem canonical_field_paths_unique:
  assumes "read_compound p = Inr kvs" and "keys_ok (TagCompound kvs)"
    and "canonical_nbt_fields read_compound p = Inr fs"
  shows "distinct (map fst fs)"
proof -
  let ?f = "\<lambda>kv. collect_nbt_fields (''/'' @ escape_json_pointer (fst kv)) (snd kv)"
  have each: "append_each ?f (sort_key fst kvs) = Inr fs"
    using assms(1,3) by (simp add: canonical_nbt_fields_def)
  have "distinct (map fst fs) \<and>
      (\<forall>q \<in> fst ` set fs. \<exists>kv \<in> set (sort_key fst kvs). below ([] @ ''/'' @ escape_json_pointer (fst kv)) q)"
  proof (rule append_each_paths [OF each])
    show "distinct (map (\<lambda>kv. escape_json_pointer (fst kv)) (sort_key fst kvs))"
      using assms(2) by (intro distinct_escaped) simp
    fix kv
    assume kv: "kv \<in> set (sort_key fst kvs)"
    show "CHR ''/'' \<notin> set (escape_json_pointer (fst kv))" by (rule escape_no_slash)
    fix gs
    assume "?f kv = Inr gs"
    moreover have "keys_ok (snd kv)" using assms(2) kv by simp
    ultimately show "distinct (map fst gs) \<and>
        (\<forall>q \<in> fst ` set gs. below ([] @ ''/'' @ escape_json_pointer (fst kv)) q)"
      using collect_paths by simp
  qed
  then show ?thesis by blast
qed

theorem canonical_field_paths_unique_witness:
  "\<exists>fs. canonical_nbt_fields sample_reader [1] = Inr fs \<and> distinct (map fst fs)"
proof -
  have "is_ok (canonical_nbt_fields sample_reader [1])"
    unfolding canonical_nbt_fields_def by code_simp
  then obtain fs where "canonical_nbt_fields sample_reader [1] = Inr fs"
    by (auto simp: is_ok_iff)
  then show ?thesis
    using canonical_field_paths_unique [of sample_reader "[1]" "[(''k'', TagList [TagInt 7, TagString ''v''])]"]
    by (auto simp: sample_reader_def)
qed

end
