(* ===== verification/WS_JavaState.thy ===== *)
theory WS_JavaState
  imports WS_Types WS_Bytes "HOL-Library.Multiset"
begin

text \<open>
  The Java block-state texts of \<open>src/core/runtime_registry.cpp\<close>: \<open>trim\<close>,
  \<open>normalize_java_state\<close>, \<open>encode_java_state\<close>, \<open>java_properties\<close>,
  \<open>java_property_views\<close>, the fuzzy comparison of property values, the conversion-order key
  and the key of the legacy states. Strings are character lists; \<open>std::tolower\<close> is the
  one of the C locale. The lemmas show that normalisation is idempotent and does not depend
  on the order of the properties, and that the fuzzy comparison is an equivalence.
\<close>

section \<open>Text helpers\<close>

definition is_space :: "char \<Rightarrow> bool" where
  "is_space c \<longleftrightarrow> c = CHR '' '' \<or> c = CHR 0x09 \<or> c = CHR 0x0D \<or> c = CHR 0x0A"

text \<open>\<open>trim\<close>: from the first to the last character that is not a space.\<close>

definition trim :: "string \<Rightarrow> string" where
  "trim s = rev (dropWhile is_space (rev (dropWhile is_space s)))"

definition tolower :: "char \<Rightarrow> char" where
  "tolower c = (let n = of_char c :: nat in if 65 \<le> n \<and> n \<le> 90 then char_of (n + 32) else c)"

text \<open>The loops over \<open>find(',', start)\<close>: the pieces between the separators.\<close>

fun split_on :: "char \<Rightarrow> string \<Rightarrow> string list" where
  "split_on sep [] = [[]]"
| "split_on sep (c # s) =
     (if c = sep then [] # split_on sep s
      else case split_on sep s of [] \<Rightarrow> [[c]] | p # ps \<Rightarrow> (c # p) # ps)"

text \<open>\<open>find\<close> of one character, splitting the text there.\<close>

definition cut_at :: "char \<Rightarrow> string \<Rightarrow> (string \<times> string) option" where
  "cut_at sep s =
    (if sep \<in> set s then Some (takeWhile (\<lambda>c. c \<noteq> sep) s, tl (dropWhile (\<lambda>c. c \<noteq> sep) s)) else None)"

text \<open>
  What lies between an opening position and the last closing character: the rest of the
  text when there is no closing character behind the opening one (the length wraps then,
  and \<open>substr\<close> clips it).
\<close>

definition up_to_last :: "char set \<Rightarrow> string \<Rightarrow> string" where
  "up_to_last closers s =
    (if set s \<inter> closers = {} then s
     else rev (tl (dropWhile (\<lambda>c. c \<notin> closers) (rev s))))"

definition ends_before_last :: "char \<Rightarrow> char \<Rightarrow> string \<Rightarrow> string" where
  "ends_before_last c d s = up_to_last {c, d} s"

fun join :: "string \<Rightarrow> string list \<Rightarrow> string" where
  "join sep [] = []"
| "join sep [s] = s"
| "join sep (s # t # ts) = s @ sep @ join sep (t # ts)"

definition minecraft :: string where "minecraft = ''minecraft:''"

definition qualify :: "string \<Rightarrow> string" where
  "qualify name = (if CHR '':'' \<in> set name then name else minecraft @ name)"

section \<open>Normalisation\<close>

definition is_open :: "char \<Rightarrow> bool" where "is_open c \<longleftrightarrow> c = CHR ''['' \<or> c = CHR ''{''"

definition parse_properties :: "string \<Rightarrow> (string \<times> string) list" where
  "parse_properties contents =
    concat (map (\<lambda>part. case cut_at CHR ''='' part of
        None \<Rightarrow> [] | Some (k, v) \<Rightarrow> [(trim k, trim v)]) (split_on CHR '','' contents))"

definition show_property :: "string \<times> string \<Rightarrow> string" where
  "show_property kv = fst kv @ ''='' @ snd kv"

definition show_state :: "string \<Rightarrow> (string \<times> string) list \<Rightarrow> string" where
  "show_state name props =
    name @ (if props = [] then [] else ''['' @ join '','' (map show_property props) @ '']'')"

definition normalize_java_state :: "string \<Rightarrow> string" where
  "normalize_java_state encoded =
    (let name = map tolower (qualify (trim (takeWhile (\<lambda>c. \<not> is_open c) encoded)));
         rest = dropWhile (\<lambda>c. \<not> is_open c) encoded
     in if rest = [] then name
        else show_state name (sort (parse_properties (ends_before_last CHR '']'' CHR ''}'' (tl rest)))))"

definition encode_java_state :: "block_state \<Rightarrow> string" where
  "encode_java_state st =
    (let name = qualify (state_name st)
     in if states st = [] then normalize_java_state name
        else
          let properties = sort_key prop_name (states st)
          in normalize_java_state
               (name @ ''['' @
                join '','' (map (\<lambda>p. prop_name p @ ''='' @
                  (if prop_type p = VByte then (if prop_value p = ''0'' then ''false'' else ''true'')
                   else prop_value p)) properties) @ '']''))"

section \<open>Properties of a text\<close>

definition java_contents :: "string \<Rightarrow> string option" where
  "java_contents encoded =
    (case cut_at CHR ''['' encoded of
       None \<Rightarrow> None
     | Some (name, rest) \<Rightarrow> Some (ends_before_last CHR '']'' CHR '']'' rest))"

text \<open>\<open>emplace\<close> keeps the first value of a name, as the scan of the view version does.\<close>

definition java_property_views :: "string \<Rightarrow> (string \<times> string) list" where
  "java_property_views encoded =
    (case java_contents encoded of
       None \<Rightarrow> []
     | Some contents \<Rightarrow>
         fold (\<lambda>part acc. case cut_at CHR ''='' part of
                  None \<Rightarrow> acc | Some (k, v) \<Rightarrow> umap_emplace k v acc)
           (split_on CHR '','' contents) [])"

definition java_properties :: "string \<Rightarrow> (string \<times> string) list" where
  "java_properties encoded = java_property_views encoded"

definition java_name :: "string \<Rightarrow> string" where
  "java_name normalized = takeWhile (\<lambda>c. c \<noteq> CHR ''['') normalized"

section \<open>Fuzzy values\<close>

definition ascii_equal_ignore_case :: "string \<Rightarrow> string \<Rightarrow> bool" where
  "ascii_equal_ignore_case l r \<longleftrightarrow> length l = length r \<and> map tolower l = map tolower r"

definition fuzzy_java_integer :: "string \<Rightarrow> int option" where
  "fuzzy_java_integer value =
    (if ascii_equal_ignore_case value ''true'' \<or> ascii_equal_ignore_case value ''1b'' \<or> value = ''1'' then Some 1
     else if ascii_equal_ignore_case value ''false'' \<or> ascii_equal_ignore_case value ''0b'' \<or> value = ''0'' then Some 0
     else if value = [] then None
     else
       let body = (if hd value = CHR ''+'' then tl value else value)
       in if body = [] then None else parse_exact INT64_MIN INT64_MAX body)"

definition fuzzy_java_equal :: "string \<Rightarrow> string \<Rightarrow> bool" where
  "fuzzy_java_equal l r =
    (let li = fuzzy_java_integer l; ri = fuzzy_java_integer r
     in if li \<noteq> None \<or> ri \<noteq> None then li \<noteq> None \<and> ri \<noteq> None \<and> the li = the ri
        else ascii_equal_ignore_case l r)"

text \<open>\<open>std::stoll\<close>: leading white space, an optional sign, digits; the value and the rest.\<close>

definition is_c_space :: "char \<Rightarrow> bool" where
  "is_c_space c \<longleftrightarrow> is_space c \<or> c = CHR 0x0B \<or> c = CHR 0x0C"

definition stoll :: "string \<Rightarrow> (int \<times> string) option" where
  "stoll s =
    (let body = dropWhile is_c_space s
     in if body \<noteq> [] \<and> hd body = CHR ''+''
        then (if tl body \<noteq> [] \<and> is_digit (hd (tl body)) then from_chars INT64_MIN INT64_MAX (tl body) else None)
        else from_chars INT64_MIN INT64_MAX body)"

definition fuzzy_java_value :: "string \<Rightarrow> string" where
  "fuzzy_java_value value =
    (let v = map tolower value
     in if v = ''true'' \<or> v = ''1b'' \<or> v = ''1'' then ''1''
        else if v = ''false'' \<or> v = ''0b'' \<or> v = ''0'' then ''0''
        else case stoll v of Some (n, []) \<Rightarrow> to_string n | _ \<Rightarrow> v)"

definition canonical_java_order_key :: "string \<Rightarrow> string" where
  "canonical_java_order_key encoded =
    (let normalized = normalize_java_state encoded;
         name = java_name normalized;
         entries = sort (map (\<lambda>kv. fst kv @ ''='' @ fuzzy_java_value (snd kv)) (java_properties normalized))
     in name @ (if entries = [] then [] else ''['' @ join '','' entries @ '']''))"

section \<open>The key of legacy states\<close>

text \<open>Every occurrence of \<open>minecraft:\<close> is erased, again from the start after each erasure.\<close>

fun erase_first :: "string \<Rightarrow> string \<Rightarrow> string option" where
  "erase_first pat [] = (if pat = [] then Some [] else None)"
| "erase_first pat (c # s) =
     (if take (length pat) (c # s) = pat then Some (drop (length pat) (c # s))
      else map_option ((#) c) (erase_first pat s))"

lemma erase_first_length: "erase_first pat s = Some t \<Longrightarrow> length t + length pat = length s"
proof (induction pat s arbitrary: t rule: erase_first.induct)
  case (2 pat c s)
  show ?case
  proof (cases "take (length pat) (c # s) = pat")
    case True
    then have "length pat \<le> length (c # s)" by (metis nat_le_linear take_all)
    with True "2.prems" show ?thesis by auto
  next
    case False
    with 2 show ?thesis by auto
  qed
qed (auto split: if_splits)

function erase_all :: "string \<Rightarrow> string" where
  "erase_all s = (case erase_first minecraft s of None \<Rightarrow> s | Some t \<Rightarrow> erase_all t)"
  by auto
termination
  by (relation "measure length") (auto dest!: erase_first_length simp: minecraft_def)

declare erase_all.simps [simp del]

definition legacy_value :: "block_property \<Rightarrow> string" where
  "legacy_value p =
    (case prop_type p of
       VByte \<Rightarrow> (if prop_value p = ''0'' then ''0b'' else ''1b'')
     | VString \<Rightarrow>
         (if prop_value p = ''true'' \<or> prop_value p = ''1b'' then ''1b''
          else if prop_value p = ''false'' \<or> prop_value p = ''0b'' then ''0b'' else prop_value p)
     | _ \<Rightarrow> prop_value p)"

definition legacy_state_search_key :: "block_property list \<Rightarrow> string" where
  "legacy_state_search_key ps =
    (let stripped = map (\<lambda>p. p\<lparr>prop_name := erase_all (prop_name p)\<rparr>) ps;
         ordered = sort_key prop_name stripped
     in ''{'' @ join '','' (map (\<lambda>p. prop_name p @ '':'' @ legacy_value p) ordered) @ ''}'')"

section \<open>Trimming and splitting\<close>

definition trimmed :: "string \<Rightarrow> bool" where
  "trimmed s \<longleftrightarrow> s = [] \<or> \<not> is_space (hd s) \<and> \<not> is_space (last s)"

lemma trim_trimmed: "trimmed s \<Longrightarrow> trim s = s"
proof (cases s rule: rev_cases)
  case (snoc t c)
  assume "trimmed s"
  with snoc have "dropWhile is_space s = s" by (cases t) (auto simp: trimmed_def)
  moreover have "dropWhile is_space (rev s) = rev s" using \<open>trimmed s\<close> snoc by (simp add: trimmed_def)
  ultimately show ?thesis by (simp add: trim_def)
qed (simp add: trim_def)

lemma trimmed_trim: "trimmed (trim s)"
proof (cases "trim s = []")
  case False
  let ?d = "dropWhile is_space s"
  have last: "\<not> is_space (last (trim s))"
    using False hd_dropWhile [of is_space "rev ?d"] by (simp add: trim_def last_rev)
  obtain u where u: "?d = trim s @ u"
  proof -
    have "rev ?d = takeWhile is_space (rev ?d) @ dropWhile is_space (rev ?d)" by simp
    then have "?d = rev (dropWhile is_space (rev ?d)) @ rev (takeWhile is_space (rev ?d))"
      by (metis rev_append rev_rev_ident)
    then show ?thesis using that by (simp add: trim_def)
  qed
  have "hd (trim s) = hd ?d" using False u by simp
  moreover have "?d \<noteq> []" using False u by auto
  ultimately have "\<not> is_space (hd (trim s))" using hd_dropWhile [of is_space s] by simp
  with last show ?thesis by (simp add: trimmed_def)
qed (simp add: trimmed_def)

lemma set_trim: "set (trim s) \<subseteq> set s"
  unfolding trim_def by (auto dest!: set_dropWhileD)

lemma split_on_nonempty: "split_on sep s \<noteq> []"
  by (induction s) (auto split: list.splits)

lemma split_on_no_sep: "p \<in> set (split_on sep s) \<Longrightarrow> sep \<notin> set p"
  by (induction s arbitrary: p) (auto split: list.splits if_splits)

lemma split_on_chars: "p \<in> set (split_on sep s) \<Longrightarrow> set p \<subseteq> set s"
proof (induction s arbitrary: p)
  case (Cons c s)
  then show ?case by (fastforce split: list.splits if_splits)
qed simp

lemma split_on_append: "sep \<notin> set p \<Longrightarrow> split_on sep (p @ sep # s) = p # split_on sep s"
  by (induction p) auto

lemma split_on_single: "sep \<notin> set p \<Longrightarrow> split_on sep p = [p]"
  by (induction p) auto

lemma split_on_join:
  "ps \<noteq> [] \<Longrightarrow> (\<And>p. p \<in> set ps \<Longrightarrow> sep \<notin> set p) \<Longrightarrow> split_on sep (join [sep] ps) = ps"
  by (induction "[sep]" ps rule: join.induct) (simp_all add: split_on_append split_on_single)

lemma cut_at_show: "sep \<notin> set k \<Longrightarrow> cut_at sep (k @ [sep] @ v) = Some (k, v)"
  by (simp add: cut_at_def takeWhile_append dropWhile_append)

lemma cut_at_parts:
  assumes "cut_at sep s = Some (k, v)"
  shows "sep \<notin> set k \<and> set k \<subseteq> set s \<and> set v \<subseteq> set s \<and> s = k @ [sep] @ v"
proof -
  have k: "k = takeWhile (\<lambda>c. c \<noteq> sep) s" and v: "v = tl (dropWhile (\<lambda>c. c \<noteq> sep) s)" and "sep \<in> set s"
    using assms by (auto simp: cut_at_def split: if_splits)
  then have ne: "dropWhile (\<lambda>c. c \<noteq> sep) s \<noteq> []" by auto
  then have "hd (dropWhile (\<lambda>c. c \<noteq> sep) s) = sep" using hd_dropWhile [of "\<lambda>c. c \<noteq> sep" s] by simp
  with ne v have d: "dropWhile (\<lambda>c. c \<noteq> sep) s = sep # v" by (metis list.collapse)
  have "s = k @ [sep] @ v" using takeWhile_dropWhile_id [of "\<lambda>c. c \<noteq> sep" s] d k by simp
  moreover have "sep \<notin> set k" using k by (auto dest: set_takeWhileD)
  ultimately show ?thesis by auto
qed

lemma ends_before_last_append: "ends_before_last c d (s @ [c]) = s"
  by (simp add: ends_before_last_def up_to_last_def)

section \<open>Normalisation is idempotent\<close>

text \<open>The properties a normalised state can have.\<close>

definition clean_property :: "string \<times> string \<Rightarrow> bool" where
  "clean_property kv \<longleftrightarrow> trimmed (fst kv) \<and> trimmed (snd kv) \<and>
    CHR ''='' \<notin> set (fst kv) \<and> CHR '','' \<notin> set (fst kv) \<and> CHR '','' \<notin> set (snd kv)"

lemma parse_properties_clean: "kv \<in> set (parse_properties contents) \<Longrightarrow> clean_property kv"
proof -
  assume "kv \<in> set (parse_properties contents)"
  then obtain part where part: "part \<in> set (split_on CHR '','' contents)"
    and kv': "kv \<in> set (case cut_at CHR ''='' part of None \<Rightarrow> [] | Some (k, v) \<Rightarrow> [(trim k, trim v)])"
    unfolding parse_properties_def by auto
  then obtain k v where cut: "cut_at CHR ''='' part = Some (k, v)" and kv: "kv = (trim k, trim v)"
    by (cases "cut_at CHR ''='' part") auto
  have "CHR '','' \<notin> set part" using part by (rule split_on_no_sep)
  with cut_at_parts [OF cut] set_trim [of k] set_trim [of v] show ?thesis
    by (auto simp: clean_property_def kv trimmed_trim)
qed

lemma parse_show_properties:
  assumes "props \<noteq> []" and "\<And>kv. kv \<in> set props \<Longrightarrow> clean_property kv"
  shows "parse_properties (join '','' (map show_property props)) = props"
proof -
  have s: "split_on CHR '','' (join '','' (map show_property props)) = map show_property props"
    using assms by (intro split_on_join) (auto simp: clean_property_def show_property_def)
  have "(case cut_at CHR ''='' (show_property kv) of None \<Rightarrow> [] | Some (k, v) \<Rightarrow> [(trim k, trim v)]) = [kv]"
    if "kv \<in> set props" for kv
    using assms(2) [OF that] cut_at_show [of "CHR ''=''" "fst kv" "snd kv"]
    by (cases kv) (simp add: clean_property_def show_property_def trim_trimmed)
  then have "concat (map (\<lambda>part. case cut_at CHR ''='' part of None \<Rightarrow> [] | Some (k, v) \<Rightarrow> [(trim k, trim v)])
      (map show_property props)) = concat (map (\<lambda>kv. [kv]) props)"
    by (simp add: comp_def cong: map_cong)
  then show ?thesis by (simp add: parse_properties_def s)
qed

lemma of_char_tolower:
  "(of_char (tolower c) :: nat) = (if 65 \<le> (of_char c :: nat) \<and> (of_char c :: nat) \<le> 90 then of_char c + 32 else of_char c)"
  by (auto simp: tolower_def Let_def)

lemma tolower_idem [simp]: "tolower (tolower c) = tolower c"
proof -
  have "\<not> (65 \<le> (of_char (tolower c) :: nat) \<and> (of_char (tolower c) :: nat) \<le> 90)"
    unfolding of_char_tolower by auto
  then show ?thesis unfolding tolower_def [of "tolower c"] Let_def by (rule if_not_P)
qed

lemma tolower_eq_iff:
  assumes "\<not> (65 \<le> (of_char d :: nat) \<and> (of_char d :: nat) \<le> 90)" "\<not> (97 \<le> (of_char d :: nat) \<and> (of_char d :: nat) \<le> 122)"
  shows "tolower c = d \<longleftrightarrow> c = d"
proof -
  have "tolower c = d \<longleftrightarrow> (of_char (tolower c) :: nat) = of_char d" by simp
  also have "\<dots> \<longleftrightarrow> (of_char c :: nat) = of_char d" using assms unfolding of_char_tolower by auto
  finally show ?thesis by simp
qed

lemma tolower_class [simp]:
  "is_space (tolower c) = is_space c" "is_open (tolower c) = is_open c"
  "tolower c = CHR '':'' \<longleftrightarrow> c = CHR '':''"
  by (simp_all add: is_space_def is_open_def tolower_eq_iff)

lemma trimmed_map_tolower [simp]: "trimmed (map tolower s) = trimmed s"
  by (cases "s = []") (simp_all add: trimmed_def hd_map last_map)

definition clean_name :: "string \<Rightarrow> bool" where
  "clean_name n \<longleftrightarrow> trimmed n \<and> (\<forall>c \<in> set n. \<not> is_open c \<and> tolower c = c) \<and> CHR '':'' \<in> set n"

lemma qualify_trimmed: "trimmed s \<Longrightarrow> trimmed (qualify s)"
  by (cases "s = []") (auto simp: qualify_def minecraft_def trimmed_def is_space_def)

lemma colon_qualify: "CHR '':'' \<in> set (qualify s)"
  by (simp add: qualify_def minecraft_def)

lemma normal_name_clean:
  "clean_name (map tolower (qualify (trim (takeWhile (\<lambda>c. \<not> is_open c) s))))" (is "clean_name (map tolower ?q)")
proof -
  have "\<not> is_open c" if "c \<in> set ?q" for c
  proof -
    have "c \<in> set minecraft \<or> c \<in> set (takeWhile (\<lambda>c. \<not> is_open c) s)"
      using that set_trim by (auto simp: qualify_def split: if_splits)
    then show ?thesis by (auto simp: minecraft_def is_open_def dest: set_takeWhileD)
  qed
  moreover have "trimmed ?q" using trimmed_trim by (rule qualify_trimmed)
  moreover have "CHR '':'' \<in> set (map tolower ?q)"
  proof -
    have "tolower CHR '':'' = CHR '':''" by (simp add: tolower_def)
    then show ?thesis using imageI [OF colon_qualify, of tolower] by (metis list.set_map)
  qed
  ultimately show ?thesis by (simp add: clean_name_def)
qed

lemma normal_name_id:
  assumes "clean_name n"
  shows "map tolower (qualify (trim n)) = n"
proof -
  have "map tolower n = map id n" using assms by (intro map_cong) (auto simp: clean_name_def)
  then show ?thesis using assms by (simp add: clean_name_def trim_trimmed qualify_def)
qed

lemma takeWhile_clean:
  assumes "clean_name n" "rest = [] \<or> is_open (hd rest)"
  shows "takeWhile (\<lambda>c. \<not> is_open c) (n @ rest) = n" "dropWhile (\<lambda>c. \<not> is_open c) (n @ rest) = rest"
proof -
  have n: "\<forall>c \<in> set n. \<not> is_open c" using assms(1) by (simp add: clean_name_def)
  then show "takeWhile (\<lambda>c. \<not> is_open c) (n @ rest) = n" "dropWhile (\<lambda>c. \<not> is_open c) (n @ rest) = rest"
    using assms(2) by (cases rest; simp add: takeWhile_append dropWhile_append)+
qed

lemma normalize_show_state:
  assumes "clean_name n" and "\<And>kv. kv \<in> set props \<Longrightarrow> clean_property kv"
  shows "normalize_java_state (show_state n props) = show_state n (sort props)"
proof (cases "props = []")
  case True
  have tw: "takeWhile (\<lambda>c. \<not> is_open c) n = n" "dropWhile (\<lambda>c. \<not> is_open c) n = []"
    using takeWhile_clean [OF assms(1), of "[]"] by (simp_all only: append_Nil2 simp_thms)
  show ?thesis
    unfolding True show_state_def normalize_java_state_def Let_def
    by (simp only: tw normal_name_id [OF assms(1)] append_Nil2 if_True simp_thms sort_key_simps)
next
  case False
  let ?body = "join '','' (map show_property props)"
  have e: "show_state n props = n @ (CHR ''['' # ?body @ '']'')" using False by (simp add: show_state_def)
  have o: "is_open (hd (CHR ''['' # ?body @ '']''))" by (simp add: is_open_def)
  show ?thesis
    using takeWhile_clean [OF assms(1) disjI2, OF o] normal_name_id [OF assms(1)]
      parse_show_properties [OF False assms(2)]
    unfolding e normalize_java_state_def Let_def
    by (simp add: ends_before_last_append)
qed

lemma normalize_java_state_shape:
  "\<exists>n props. normalize_java_state s = show_state n props \<and> clean_name n \<and> sorted props \<and>
    (\<forall>kv \<in> set props. clean_property kv)"
proof (cases "dropWhile (\<lambda>c. \<not> is_open c) s = []")
  case True
  then show ?thesis
    using normal_name_clean [of s]
    by (intro exI [of _ "map tolower (qualify (trim (takeWhile (\<lambda>c. \<not> is_open c) s)))"] exI [of _ "[]"])
      (simp add: normalize_java_state_def show_state_def Let_def)
next
  case False
  let ?n = "map tolower (qualify (trim (takeWhile (\<lambda>c. \<not> is_open c) s)))"
  let ?ps = "sort (parse_properties (ends_before_last CHR '']'' CHR ''}'' (tl (dropWhile (\<lambda>c. \<not> is_open c) s))))"
  have "normalize_java_state s = show_state ?n ?ps"
    unfolding normalize_java_state_def Let_def if_not_P [OF False] by (rule refl)
  then show ?thesis using normal_name_clean [of s] parse_properties_clean by (intro exI [of _ ?n] exI [of _ ?ps]) auto
qed

text \<open>
  C37: \<open>normalize_java_state\<close> is idempotent, whatever text it is given: the keys built from
  normalised texts are found again after another normalisation. It does not depend on the
  order in which a text lists its properties.
\<close>

theorem normalize_java_state_stable:
  "normalize_java_state (normalize_java_state s) = normalize_java_state s \<and>
   (clean_name n \<and> (\<forall>kv \<in> set ps. clean_property kv) \<and> mset ps = mset qs \<longrightarrow>
     normalize_java_state (show_state n ps) = normalize_java_state (show_state n qs))"
proof
  obtain m props where s: "normalize_java_state s = show_state m props" "clean_name m" "sorted props"
      "\<And>kv. kv \<in> set props \<Longrightarrow> clean_property kv"
    using normalize_java_state_shape by blast
  show "normalize_java_state (normalize_java_state s) = normalize_java_state s"
    using normalize_show_state [of m props] s by (simp add: sorted_sort_id)
  show "clean_name n \<and> (\<forall>kv \<in> set ps. clean_property kv) \<and> mset ps = mset qs \<longrightarrow>
     normalize_java_state (show_state n ps) = normalize_java_state (show_state n qs)"
  proof
    assume a: "clean_name n \<and> (\<forall>kv \<in> set ps. clean_property kv) \<and> mset ps = mset qs"
    then have "set ps = set qs" "sort ps = sort qs"
      by (metis mset_eq_setD, metis sorted_list_of_multiset_mset)
    have "normalize_java_state (show_state n ps) = show_state n (sort ps)"
      using a by (intro normalize_show_state) auto
    also have "\<dots> = normalize_java_state (show_state n qs)"
      using a \<open>set ps = set qs\<close> \<open>sort ps = sort qs\<close> by (subst normalize_show_state) auto
    finally show "normalize_java_state (show_state n ps) = normalize_java_state (show_state n qs)" .
  qed
qed

theorem normalize_java_state_stable_witness:
  "normalize_java_state ''Oak_Log [ axis = y , a=1]'' = ''minecraft:oak_log[a=1,axis=y]'' \<and>
   normalize_java_state ''minecraft:oak_log[axis=y,a=1]'' = normalize_java_state ''minecraft:oak_log[a=1,axis=y]''"
proof
  show "normalize_java_state ''Oak_Log [ axis = y , a=1]'' = ''minecraft:oak_log[a=1,axis=y]''" by code_simp
  have "clean_name ''minecraft:oak_log''" "clean_property (''axis'', ''y'')" "clean_property (''a'', ''1'')"
    by code_simp+
  then have "normalize_java_state (show_state ''minecraft:oak_log'' [(''axis'', ''y''), (''a'', ''1'')]) =
      normalize_java_state (show_state ''minecraft:oak_log'' [(''a'', ''1''), (''axis'', ''y'')])"
    using normalize_java_state_stable [THEN conjunct2, rule_format, of "''minecraft:oak_log''"
        "[(''axis'', ''y''), (''a'', ''1'')]" "[(''a'', ''1''), (''axis'', ''y'')]"]
    by (simp add: add_mset_commute)
  then show "normalize_java_state ''minecraft:oak_log[axis=y,a=1]'' =
      normalize_java_state ''minecraft:oak_log[a=1,axis=y]''"
    by (simp add: show_state_def show_property_def)
qed

section \<open>The fuzzy comparison is an equivalence\<close>

definition fuzzy_class :: "string \<Rightarrow> int + string" where
  "fuzzy_class s = (case fuzzy_java_integer s of Some n \<Rightarrow> Inl n | None \<Rightarrow> Inr (map tolower s))"

lemma ascii_equal_ignore_case_iff: "ascii_equal_ignore_case l r \<longleftrightarrow> map tolower l = map tolower r"
  by (auto simp: ascii_equal_ignore_case_def dest: map_eq_imp_length_eq)

lemma fuzzy_java_equal_class: "fuzzy_java_equal l r \<longleftrightarrow> fuzzy_class l = fuzzy_class r"
  by (auto simp: fuzzy_java_equal_def fuzzy_class_def ascii_equal_ignore_case_iff Let_def
      split: option.split)

text \<open>
  The fuzzy comparison of Java property values is an equivalence relation: two values
  are equal when they denote the same integer (\<open>true\<close> and \<open>1b\<close> being 1, \<open>false\<close> and \<open>0b\<close>
  being 0, in any case, an optional plus sign allowed), or when neither denotes one and they
  agree up to case. So the score of a candidate does not depend on which spelling it uses.
\<close>

theorem fuzzy_java_equal_equivalence:
  "fuzzy_java_equal a a \<and> fuzzy_java_equal a b = fuzzy_java_equal b a \<and>
   (fuzzy_java_equal a b \<and> fuzzy_java_equal b c \<longrightarrow> fuzzy_java_equal a c)"
  by (auto simp: fuzzy_java_equal_class)

theorem fuzzy_java_equal_equivalence_witness:
  "fuzzy_java_equal ''TRUE'' ''+1'' \<and> fuzzy_java_equal ''+1'' ''1B'' \<and> fuzzy_java_equal ''TRUE'' ''1B'' \<and>
   \<not> fuzzy_java_equal ''north'' ''south''"
proof -
  have "fuzzy_java_equal ''TRUE'' ''+1''" "fuzzy_java_equal ''+1'' ''1B''" "\<not> fuzzy_java_equal ''north'' ''south''"
    by code_simp+
  then show ?thesis using fuzzy_java_equal_equivalence [of "''TRUE''" "''+1''" "''1B''"] by blast
qed

end
