(* ===== verification/WS_Upgrade.thy ===== *)
theory WS_Upgrade
  imports WS_Types "HOL-Library.Multiset"
begin

text \<open>
  The block-state upgrade engine of \<open>src/core/runtime_registry.cpp\<close>: the schema types, the
  property maps and the function that \<open>load_upgrade_schemas\<close> returns. The schemas are
  already decoded here (reading the JSON files is not modelled). A \<open>std::map\<close> of
  properties is an ordered map; an \<open>std::unordered_map\<close> that the code only searches is an
  association list, and one it iterates is the list of its entries in the order of the
  iteration. The lemmas show that an upgrade never lowers a version, that its result lists
  each property once in name order, and that it does not see the order of the properties it
  is given.
\<close>

section \<open>Schemas\<close>

type_synonym property_map_t = "(string, block_property) omap"

record value_remap =
  old_value :: block_property
  new_value :: block_property

record flattened_name =
  prefix_text :: string
  flat_property :: string
  suffix_text :: string
  value_remaps :: "(string \<times> string) list"

record state_remap =
  old_properties :: property_map_t
  new_name :: string
  flattened :: flattened_name
  new_properties :: property_map_t
  copied_properties :: "string list"

record upgrade_schema =
  schema_id :: int
  renamed_ids :: "(string \<times> string) list"
  added_properties :: "(string \<times> property_map_t) list"
  removed_properties :: "(string \<times> string list) list"
  renamed_properties :: "(string \<times> (string \<times> string) list) list"
  remapped_property_values :: "(string \<times> (string \<times> value_remap list) list) list"
  remapped_states :: "(string \<times> state_remap list) list"

section \<open>Property maps\<close>

definition property_equal :: "block_property \<Rightarrow> block_property \<Rightarrow> bool" where
  "property_equal l r \<longleftrightarrow> prop_type l = prop_type r \<and> prop_value l = prop_value r"

definition property_map :: "block_property list \<Rightarrow> property_map_t" where
  "property_map ps = fold (\<lambda>p m. omap_put (prop_name p) p m) ps []"

definition property_vector :: "property_map_t \<Rightarrow> block_property list" where
  "property_vector m = map snd m"

definition value_remaps_for :: "upgrade_schema \<Rightarrow> string \<Rightarrow> string \<Rightarrow> value_remap list option" where
  "value_remaps_for schema block property =
    (case map_of (remapped_property_values schema) block of
       None \<Rightarrow> None
     | Some by_property \<Rightarrow> map_of by_property property)"

definition remap_property_value :: "upgrade_schema \<Rightarrow> string \<Rightarrow> string \<Rightarrow> block_property \<Rightarrow> block_property" where
  "remap_property_value schema block property value =
    (case value_remaps_for schema block property of
       None \<Rightarrow> value
     | Some remaps \<Rightarrow>
         (case find (\<lambda>r. property_equal value (old_value r)) remaps of
            None \<Rightarrow> value
          | Some r \<Rightarrow> (new_value r)\<lparr>prop_name := prop_name value\<rparr>))"

section \<open>State remaps\<close>

definition remap_matches :: "state_remap \<Rightarrow> property_map_t \<Rightarrow> bool" where
  "remap_matches r old \<longleftrightarrow>
    length (old_properties r) \<le> length old \<and>
    (\<forall>(name, expected) \<in> set (old_properties r).
       case omap_find old name of None \<Rightarrow> False | Some actual \<Rightarrow> property_equal actual expected)"

definition copy_properties :: "state_remap \<Rightarrow> property_map_t \<Rightarrow> property_map_t" where
  "copy_properties r old =
    fold (\<lambda>name m. case omap_find old name of None \<Rightarrow> m | Some p \<Rightarrow> omap_put name p m)
      (copied_properties r) (new_properties r)"

definition remap_name :: "state_remap \<Rightarrow> property_map_t \<Rightarrow> string option" where
  "remap_name r old =
    (if new_name r \<noteq> [] then Some (new_name r)
     else
       case omap_find old (flat_property (flattened r)) of
         None \<Rightarrow> None
       | Some p \<Rightarrow>
           if prop_type p \<noteq> VString then None
           else
             let value = (case map_of (value_remaps (flattened r)) (prop_value p) of
                            Some renamed \<Rightarrow> renamed | None \<Rightarrow> prop_value p)
             in Some (prefix_text (flattened r) @ value @ suffix_text (flattened r)))"

text \<open>The loop over the remaps of a block: the first that matches and has a name.\<close>

fun try_remaps :: "state_remap list \<Rightarrow> property_map_t \<Rightarrow> (string \<times> property_map_t) option" where
  "try_remaps [] old = None"
| "try_remaps (r # rs) old =
     (if \<not> remap_matches r old then try_remaps rs old
      else case remap_name r old of
             None \<Rightarrow> try_remaps rs old
           | Some name \<Rightarrow> Some (name, copy_properties r old))"

definition state_remap_of :: "upgrade_schema \<Rightarrow> string \<Rightarrow> property_map_t \<Rightarrow> (string \<times> property_map_t) option" where
  "state_remap_of schema name old =
    (case map_of (remapped_states schema) name of None \<Rightarrow> None | Some rs \<Rightarrow> try_remaps rs old)"

section \<open>The other edits\<close>

text \<open>Each loop threads the properties and the flag \<open>modified\<close>.\<close>

definition add_one :: "string \<times> block_property \<Rightarrow> property_map_t \<times> bool \<Rightarrow> property_map_t \<times> bool" where
  "add_one nv pm =
    (case omap_find (fst pm) (fst nv) of
       Some _ \<Rightarrow> pm
     | None \<Rightarrow> (omap_put (fst nv) (snd nv) (fst pm), True))"

definition remove_one :: "string \<Rightarrow> property_map_t \<times> bool \<Rightarrow> property_map_t \<times> bool" where
  "remove_one name pm =
    (omap_erase name (fst pm), omap_find (fst pm) name \<noteq> None \<or> snd pm)"

definition rename_one ::
  "upgrade_schema \<Rightarrow> string \<Rightarrow> string \<times> string \<Rightarrow> property_map_t \<times> bool \<Rightarrow> property_map_t \<times> bool" where
  "rename_one schema block on pm =
    (case omap_find (fst pm) (fst on) of
       None \<Rightarrow> pm
     | Some p \<Rightarrow>
         let value = remap_property_value schema block (fst on) p
         in (omap_put (snd on) (value\<lparr>prop_name := snd on\<rparr>) (omap_erase (fst on) (fst pm)), True))"

definition revalue_one ::
  "upgrade_schema \<Rightarrow> string \<Rightarrow> string \<times> value_remap list \<Rightarrow> property_map_t \<times> bool \<Rightarrow> property_map_t \<times> bool" where
  "revalue_one schema block pr pm =
    (case omap_find (fst pm) (fst pr) of
       None \<Rightarrow> pm
     | Some p \<Rightarrow>
         let value = remap_property_value schema block (fst pr) p
         in if property_equal p value then pm else (omap_put (fst pr) value (fst pm), True))"

definition entries_for :: "(string \<times> 'a list) list \<Rightarrow> string \<Rightarrow> 'a list" where
  "entries_for m name = (case map_of m name of None \<Rightarrow> [] | Some xs \<Rightarrow> xs)"

definition edit_properties :: "upgrade_schema \<Rightarrow> string \<Rightarrow> property_map_t \<Rightarrow> property_map_t \<times> bool" where
  "edit_properties schema name props =
    (let renamed = map_of (renamed_ids schema) name \<noteq> None;
         s1 = fold add_one (entries_for (added_properties schema) name) (props, renamed);
         s2 = fold remove_one (entries_for (removed_properties schema) name) s1;
         s3 = fold (rename_one schema name) (entries_for (renamed_properties schema) name) s2
     in fold (revalue_one schema name) (entries_for (remapped_property_values schema) name) s3)"

record upgrade_state =
  up_name :: string
  up_version :: int
  up_properties :: property_map_t

definition apply_schema :: "upgrade_schema \<Rightarrow> upgrade_state \<Rightarrow> upgrade_state" where
  "apply_schema schema st =
    (if schema_id schema < up_version st then st
     else
       case state_remap_of schema (up_name st) (up_properties st) of
         Some (name, props) \<Rightarrow> \<lparr>up_name = name, up_version = schema_id schema, up_properties = props\<rparr>
       | None \<Rightarrow>
           let new_name = (case map_of (renamed_ids schema) (up_name st) of
                             Some n \<Rightarrow> n | None \<Rightarrow> up_name st);
               (props, modified) = edit_properties schema (up_name st) (up_properties st)
           in if modified
              then \<lparr>up_name = new_name, up_version = schema_id schema, up_properties = props\<rparr>
              else st\<lparr>up_properties := props\<rparr>)"

definition upgrade :: "upgrade_schema list \<Rightarrow> block_state \<Rightarrow> block_state" where
  "upgrade schemas st =
    (let u = fold apply_schema schemas
           \<lparr>up_name = state_name st, up_version = state_version st, up_properties = property_map (states st)\<rparr>
     in \<lparr>state_name = up_name u, states = property_vector (up_properties u), state_version = up_version u\<rparr>)"

section \<open>Properties keep their names\<close>

definition props_ok :: "property_map_t \<Rightarrow> bool" where
  "props_ok m \<longleftrightarrow> omap_ok m \<and> (\<forall>(k, p) \<in> set m. prop_name p = k)"

definition schema_ok :: "upgrade_schema \<Rightarrow> bool" where
  "schema_ok schema \<longleftrightarrow>
    (\<forall>(b, m) \<in> set (added_properties schema). \<forall>(k, p) \<in> set m. prop_name p = k) \<and>
    (\<forall>(b, rs) \<in> set (remapped_states schema). \<forall>r \<in> set rs. props_ok (new_properties r))"

lemma props_ok_put: "props_ok m \<Longrightarrow> prop_name p = k \<Longrightarrow> props_ok (omap_put k p m)"
  by (auto simp: props_ok_def om.ok_put om.set_ents_put)

lemma props_ok_erase: "props_ok m \<Longrightarrow> props_ok (omap_erase k m)"
  by (auto simp: props_ok_def om.ok_del) (auto simp: omap_erase_def)

lemma props_ok_find: "props_ok m \<Longrightarrow> omap_find m k = Some p \<Longrightarrow> prop_name p = k"
  using om.ents_look [of m k p] by (auto simp: props_ok_def)

lemma props_ok_fold:
  assumes "props_ok (fst pm)" and "\<And>x pm. x \<in> set xs \<Longrightarrow> props_ok (fst pm) \<Longrightarrow> props_ok (fst (f x pm))"
  shows "props_ok (fst (fold f xs pm))"
  using assms by (induction xs arbitrary: pm) auto

lemma prop_name_remap [simp]: "prop_name (remap_property_value schema block property p) = prop_name p"
  by (simp add: remap_property_value_def split: option.split)

lemma props_ok_property_map: "props_ok (property_map ps)"
proof -
  have "props_ok (fold (\<lambda>p m. omap_put (prop_name p) p m) ps m)" if "props_ok m" for m
    using that by (induction ps arbitrary: m) (simp_all add: props_ok_put)
  from this [of "[]"] show ?thesis by (simp add: property_map_def) (simp add: props_ok_def omap_ok_def)
qed

lemma edit_properties_ok:
  assumes "schema_ok schema" and "props_ok props"
  shows "props_ok (fst (edit_properties schema name props))"
proof -
  have add: "prop_name (snd nv) = fst nv" if nv: "nv \<in> set (entries_for (added_properties schema) name)" for nv
  proof -
    obtain m where m: "map_of (added_properties schema) name = Some m" "nv \<in> set m"
      using nv by (cases "map_of (added_properties schema) name") (auto simp: entries_for_def)
    have "\<forall>(k, p) \<in> set m. prop_name p = k"
      using assms(1) map_of_SomeD [OF m(1)] unfolding schema_ok_def by blast
    with m(2) show ?thesis by (cases nv) auto
  qed
  show ?thesis
    unfolding edit_properties_def Let_def
    by (intro props_ok_fold)
      (use assms(2) add in \<open>auto simp: add_one_def remove_one_def rename_one_def revalue_one_def Let_def
        props_ok_put props_ok_erase props_ok_find split: option.splits\<close>)
qed

lemma copy_properties_ok:
  assumes "props_ok (new_properties r)" and "props_ok old"
  shows "props_ok (copy_properties r old)"
proof -
  have "props_ok (fold (\<lambda>name m. case omap_find old name of None \<Rightarrow> m | Some p \<Rightarrow> omap_put name p m) ns m)"
    if "props_ok m" for m ns
    using that assms(2)
    by (induction ns arbitrary: m) (auto simp: props_ok_put props_ok_find split: option.splits)
  then show ?thesis using assms(1) by (simp add: copy_properties_def)
qed

lemma try_remaps_ok:
  "try_remaps rs old = Some (n, m) \<Longrightarrow> props_ok old \<Longrightarrow> (\<And>r. r \<in> set rs \<Longrightarrow> props_ok (new_properties r)) \<Longrightarrow>
    props_ok m"
  by (induction rs old rule: try_remaps.induct) (auto simp: copy_properties_ok split: if_splits option.splits)

lemma apply_schema_ok:
  assumes "schema_ok schema" and "props_ok (up_properties st)"
  shows "props_ok (up_properties (apply_schema schema st))"
proof -
  have "props_ok m" if "state_remap_of schema (up_name st) (up_properties st) = Some (n, m)" for n m
    using that assms try_remaps_ok [of _ "up_properties st" n m]
    by (force simp: state_remap_of_def schema_ok_def split: option.splits dest: map_of_SomeD)
  then show ?thesis
    using assms edit_properties_ok [OF assms(1,2), of "up_name st"]
    by (auto simp: apply_schema_def Let_def split: option.splits prod.splits if_splits)
qed

lemma apply_schema_version:
  "up_version st \<le> up_version (apply_schema schema st) \<and>
   (up_version (apply_schema schema st) = up_version st \<or> up_version (apply_schema schema st) = schema_id schema)"
  by (auto simp: apply_schema_def Let_def split: option.splits prod.splits)

lemma fold_apply_schema:
  "up_version st \<le> up_version (fold apply_schema schemas st) \<and>
   (up_version (fold apply_schema schemas st) = up_version st \<or>
    up_version (fold apply_schema schemas st) \<in> schema_id ` set schemas)"
proof (induction schemas arbitrary: st)
  case (Cons schema schemas)
  from apply_schema_version [of st schema] Cons.IH [of "apply_schema schema st"]
  show ?case unfolding fold_simps list.set image_insert insert_iff by linarith
qed simp

lemma fold_apply_schema_ok:
  "\<forall>s \<in> set schemas. schema_ok s \<Longrightarrow> props_ok (up_properties st) \<Longrightarrow>
    props_ok (up_properties (fold apply_schema schemas st))"
  by (induction schemas arbitrary: st) (auto simp: apply_schema_ok)

lemma fold_apply_schema_newer:
  "\<forall>s \<in> set schemas. schema_id s < up_version st \<Longrightarrow> fold apply_schema schemas st = st"
  by (induction schemas) (auto simp: apply_schema_def)

text \<open>Ordered maps are determined by what they look up.\<close>

lemma omap_ext:
  assumes "omap_ok m" "omap_ok m'" and "\<And>k. omap_find m k = omap_find m' k"
  shows "m = m'"
proof -
  have "set m = set m'"
    using om.ents_look [OF assms(1)] om.ents_look [OF assms(2)] assms(3) by auto
  moreover have "sorted (map fst m)" "sorted (map fst m')" "distinct (map fst m)" "distinct (map fst m')"
    using assms(1,2) by (simp_all add: omap_ok_def strict_sorted_iff)
  moreover have "inj_on fst (set m \<union> set m')"
    using \<open>set m = set m'\<close> \<open>distinct (map fst m)\<close> by (simp add: distinct_map)
  ultimately show ?thesis using map_sorted_distinct_set_unique [of fst m m'] by simp
qed

lemma property_map_find:
  "omap_find (property_map ps) k = map_of (rev (map (\<lambda>p. (prop_name p, p)) ps)) k"
proof -
  have "property_map ps = fold (\<lambda>(k, v). omap_put k v) (map (\<lambda>p. (prop_name p, p)) ps) []"
    by (simp add: property_map_def fold_map comp_def)
  then show ?thesis
    using om.put_fold_look [of "[]" "map (\<lambda>p. (prop_name p, p)) ps" k]
    by (simp add: omap_ok_def omap_find_def split: option.splits)
qed

lemma property_map_perm:
  assumes "distinct (map prop_name ps)" and "mset ps = mset qs"
  shows "property_map ps = property_map qs"
proof (rule omap_ext)
  show "omap_ok (property_map ps)" "omap_ok (property_map qs)"
    using props_ok_property_map by (auto simp: props_ok_def)
  have d: "distinct (map prop_name qs)"
    using assms by (metis mset_eq_imp_distinct_iff mset_map)
  fix k
  have g: "omap_find (property_map rs) k = Some p \<longleftrightarrow> p \<in> set rs \<and> prop_name p = k"
    if "distinct (map prop_name rs)" for rs p
  proof -
    have "distinct (map fst (rev (map (\<lambda>p. (prop_name p, p)) rs)))"
      using that by (simp add: rev_map [symmetric] comp_def)
    then show ?thesis unfolding property_map_find by (auto simp: map_of_eq_Some_iff)
  qed
  have "omap_find (property_map ps) k = Some p \<longleftrightarrow> omap_find (property_map qs) k = Some p" for p
    unfolding g [OF assms(1)] g [OF d] using mset_eq_setD [OF assms(2)] by simp
  then show "omap_find (property_map ps) k = omap_find (property_map qs) k"
    by (metis not_None_eq)
qed

section \<open>Properties\<close>

text \<open>
  An upgrade never lowers the version of a block state: the version is the one it came
  with or the identifier of one of the schemas, and a state newer than every schema keeps
  its name, its version and its properties.
\<close>

theorem upgrade_version_monotone:
  "state_version st \<le> state_version (upgrade schemas st) \<and>
   (state_version (upgrade schemas st) = state_version st \<or>
    state_version (upgrade schemas st) \<in> schema_id ` set schemas) \<and>
   ((\<forall>s \<in> set schemas. schema_id s < state_version st) \<longrightarrow>
     upgrade schemas st =
       \<lparr>state_name = state_name st, states = property_vector (property_map (states st)),
        state_version = state_version st\<rparr>)"
  using fold_apply_schema [of "\<lparr>up_name = state_name st, up_version = state_version st,
      up_properties = property_map (states st)\<rparr>" schemas]
    fold_apply_schema_newer [of schemas "\<lparr>up_name = state_name st, up_version = state_version st,
      up_properties = property_map (states st)\<rparr>"]
  by (simp add: upgrade_def Let_def)

text \<open>
  C33: the properties of an upgraded state are in strict name order (so no name appears
  twice), and an upgrade does not depend on the order in which the properties of its input
  are listed.
\<close>

theorem upgrade_normal_form:
  assumes "\<forall>s \<in> set schemas. schema_ok s"
  shows "sorted_wrt (<) (map prop_name (states (upgrade schemas st))) \<and>
    (distinct (map prop_name ps) \<and> mset ps = mset qs \<longrightarrow>
      upgrade schemas (st\<lparr>states := ps\<rparr>) = upgrade schemas (st\<lparr>states := qs\<rparr>))"
proof
  let ?u = "fold apply_schema schemas
      \<lparr>up_name = state_name st, up_version = state_version st, up_properties = property_map (states st)\<rparr>"
  have "props_ok (up_properties ?u)"
    using assms props_ok_property_map by (intro fold_apply_schema_ok) auto
  then have ok: "omap_ok (up_properties ?u)" "\<forall>kp \<in> set (up_properties ?u). prop_name (snd kp) = fst kp"
    by (auto simp: props_ok_def)
  have "map prop_name (states (upgrade schemas st)) = map fst (up_properties ?u)"
    using ok(2) by (simp add: upgrade_def property_vector_def comp_def Let_def)
  then show "sorted_wrt (<) (map prop_name (states (upgrade schemas st)))"
    using ok(1) by (simp add: omap_ok_def)
  show "distinct (map prop_name ps) \<and> mset ps = mset qs \<longrightarrow>
      upgrade schemas (st\<lparr>states := ps\<rparr>) = upgrade schemas (st\<lparr>states := qs\<rparr>)"
    using property_map_perm [of ps qs] by (simp add: upgrade_def)
qed

definition sample_schema :: upgrade_schema where
  "sample_schema = \<lparr>schema_id = 5, renamed_ids = [(''log'', ''oak_log'')], added_properties = [],
     removed_properties = [(''log'', [''old''])], renamed_properties = [(''log'', [(''dir'', ''axis'')])],
     remapped_property_values = [], remapped_states = []\<rparr>"

definition sample_state :: block_state where
  "sample_state = \<lparr>state_name = ''log'',
     states = [\<lparr>prop_name = ''old'', prop_type = VInt, prop_value = ''1''\<rparr>,
       \<lparr>prop_name = ''dir'', prop_type = VString, prop_value = ''y''\<rparr>], state_version = 2\<rparr>"

lemma sample_upgrade:
  "upgrade [sample_schema] sample_state = \<lparr>state_name = ''oak_log'',
     states = [\<lparr>prop_name = ''axis'', prop_type = VString, prop_value = ''y''\<rparr>], state_version = 5\<rparr>"
  by code_simp

theorem upgrade_version_monotone_witness:
  "state_version sample_state \<le> state_version (upgrade [sample_schema] sample_state) \<and>
   state_version (upgrade [sample_schema] sample_state) = 5 \<and>
   state_version (upgrade [sample_schema] (sample_state\<lparr>state_version := 6\<rparr>)) = 6"
proof -
  have "\<forall>s \<in> set [sample_schema]. schema_id s < state_version (sample_state\<lparr>state_version := 6\<rparr>)"
    by (simp add: sample_schema_def)
  then show ?thesis
    using upgrade_version_monotone [of "sample_state\<lparr>state_version := 6\<rparr>" "[sample_schema]"]
      upgrade_version_monotone [of sample_state "[sample_schema]"]
    by (simp add: sample_upgrade)
qed

theorem upgrade_normal_form_witness:
  "upgrade [sample_schema] (sample_state\<lparr>states := rev (states sample_state)\<rparr>) =
    upgrade [sample_schema] (sample_state\<lparr>states := states sample_state\<rparr>) \<and>
   sorted_wrt (<) (map prop_name (states (upgrade [sample_schema] sample_state)))"
proof -
  have "\<forall>s \<in> set [sample_schema]. schema_ok s" by (simp add: schema_ok_def sample_schema_def)
  from upgrade_normal_form [OF this, of sample_state "rev (states sample_state)" "states sample_state"]
  show ?thesis by (simp add: sample_state_def)
qed

end
