(* ===== verification/WS_Registry.thy ===== *)
theory WS_Registry
  imports WS_JavaState WS_Upgrade
begin

text \<open>
  \<open>RuntimeRegistry\<close> (\<open>src/core/runtime_registry.cpp\<close>): the table that gives every block
  state a runtime id, and the legacy, schematic and Java lookups. The state is the members
  of the class; a map that is only searched is a HOL map, one the code iterates is the list
  of its entries. The mutex protects every member, so an operation is one step. Reading the
  JSON assets is not modelled: \<open>load_block_mappings\<close> is modelled from the decoded tables on.
  The lemmas show that registering is idempotent, keeps earlier ids and keeps the tables
  consistent, that an ambiguous Java state has no round trip, and that the choice among Java
  candidates does not depend on the iteration order of the hash maps.
\<close>

section \<open>Keys\<close>

definition normalize_name :: "string \<Rightarrow> string" where
  "normalize_name name = (if name = [] then ''minecraft:unknown'' else qualify name)"

definition normalize_legacy_name :: "string \<Rightarrow> string" where
  "normalize_legacy_name name = map tolower (normalize_name name)"

definition key_part :: "block_property \<Rightarrow> string" where
  "key_part p = ''|'' @ prop_name p @ '':'' @ show_nat (value_type_index (prop_type p)) @ ''='' @ prop_value p"

definition state_key_for :: "string \<Rightarrow> block_property list \<Rightarrow> string" where
  "state_key_for name props =
    (let ordered = sort_key (\<lambda>p. (prop_name p, value_type_index (prop_type p), prop_value p)) props
     in normalize_name name @ concat (map key_part ordered))"

text \<open>The comparator of \<open>key_for\<close> leaves out the type; the sort is taken to be stable.\<close>

definition key_for :: "string \<Rightarrow> block_property list \<Rightarrow> int \<Rightarrow> string" where
  "key_for name props version =
    (let ordered = sort_key (\<lambda>p. (prop_name p, prop_value p)) props
     in normalize_name name @ ''|'' @ to_string version @ concat (map key_part ordered))"

section \<open>State\<close>

record java_candidate =
  encoded :: string
  candidate_id :: runtime_id
  candidate_properties :: "(string \<times> string) list"

record registry =
  next_runtime_id :: nat
  air_runtime_id :: runtime_id
  by_key :: "string \<rightharpoonup> runtime_id"
  by_state_key :: "string \<rightharpoonup> runtime_id"
  by_name :: "string \<rightharpoonup> runtime_id"
  by_runtime_id :: "runtime_id \<rightharpoonup> block_state"
  java_by_runtime_id :: "runtime_id \<rightharpoonup> block_state"
  legacy_pools :: "nat \<rightharpoonup> runtime_id list"
  legacy_by_name :: "string \<rightharpoonup> (nat \<rightharpoonup> runtime_id)"
  legacy_default_by_name :: "string \<rightharpoonup> runtime_id"
  legacy_by_state :: "string \<rightharpoonup> (string \<times> runtime_id) list"
  legacy_state_order :: "string \<rightharpoonup> (string \<rightharpoonup> nat)"
  java_mapping :: "string \<rightharpoonup> runtime_id"
  java_round_trip_mapping :: "string \<rightharpoonup> runtime_id"
  java_candidates_by_name :: "string \<rightharpoonup> java_candidate list"
  java_default_by_name :: "string \<rightharpoonup> runtime_id"
  java_order :: "string \<rightharpoonup> nat"
  schematic_mapping :: "runtime_id list"
  schematic_reverse :: "runtime_id \<rightharpoonup> nat \<times> nat"
  has_schematic_mapping :: bool
  upgrade_state_fn :: "(block_state \<Rightarrow> block_state) option"

definition next_uint32 :: "nat \<Rightarrow> nat" where "next_uint32 n = (n + 1) mod 4294967296"

section \<open>Registering and finding\<close>

definition upgraded :: "registry \<Rightarrow> block_state \<Rightarrow> block_state" where
  "upgraded reg st = (case upgrade_state_fn reg of None \<Rightarrow> st | Some f \<Rightarrow> f st)"

definition prepared :: "registry \<Rightarrow> block_state \<Rightarrow> block_state" where
  "prepared reg st = (let u = upgraded reg st in u\<lparr>state_name := normalize_name (state_name u)\<rparr>)"

definition state_key :: "block_state \<Rightarrow> string" where
  "state_key st = state_key_for (state_name st) (states st)"

definition full_key :: "block_state \<Rightarrow> string" where
  "full_key st = key_for (state_name st) (states st) (state_version st)"

text \<open>\<open>emplace\<close> into a searched map.\<close>

definition emplace :: "'k \<Rightarrow> 'v \<Rightarrow> ('k \<rightharpoonup> 'v) \<Rightarrow> ('k \<rightharpoonup> 'v)" where
  "emplace k v m = (case m k of None \<Rightarrow> m(k \<mapsto> v) | Some _ \<Rightarrow> m)"

definition insert_state :: "runtime_id \<Rightarrow> block_state \<Rightarrow> registry \<Rightarrow> registry" where
  "insert_state rid st reg = reg
    \<lparr>by_key := emplace (full_key st) rid (by_key reg),
     by_state_key := emplace (state_key st) rid (by_state_key reg),
     by_name := (if by_name reg (state_name st) = None \<or> states st = []
                 then (by_name reg)(state_name st \<mapsto> rid) else by_name reg),
     by_runtime_id := emplace rid st (by_runtime_id reg)\<rparr>"

definition register_state :: "block_state \<Rightarrow> registry \<Rightarrow> runtime_id \<times> registry" where
  "register_state st0 reg =
    (let st = prepared reg st0
     in case by_key reg (full_key st) of
          Some rid \<Rightarrow> (rid, reg)
        | None \<Rightarrow>
            (case (if upgrade_state_fn reg \<noteq> None then by_state_key reg (state_key st) else None) of
               Some rid \<Rightarrow> (rid, reg)
             | None \<Rightarrow>
                 (let rid = next_runtime_id reg
                  in (rid, insert_state rid st (reg\<lparr>next_runtime_id := next_uint32 rid\<rparr>)))))"

definition empty_registry :: registry where
  "empty_registry =
    \<lparr>next_runtime_id = 1, air_runtime_id = 0, by_key = Map.empty, by_state_key = Map.empty,
     by_name = Map.empty, by_runtime_id = Map.empty, java_by_runtime_id = Map.empty,
     legacy_pools = Map.empty, legacy_by_name = Map.empty, legacy_default_by_name = Map.empty,
     legacy_by_state = Map.empty, legacy_state_order = Map.empty, java_mapping = Map.empty,
     java_round_trip_mapping = Map.empty, java_candidates_by_name = Map.empty,
     java_default_by_name = Map.empty, java_order = Map.empty,
     schematic_mapping = replicate (256 * 256) 0, schematic_reverse = Map.empty,
     has_schematic_mapping = False, upgrade_state_fn = None\<rparr>"

definition new_registry :: registry where
  "new_registry =
    (let (rid, reg) = register_state \<lparr>state_name = ''minecraft:air'', states = [], state_version = 0\<rparr> empty_registry
     in reg\<lparr>air_runtime_id := rid\<rparr>)"

definition find_runtime :: "registry \<Rightarrow> string \<Rightarrow> block_property list \<Rightarrow> int \<Rightarrow> runtime_id option" where
  "find_runtime reg name props version =
    (case by_key reg (key_for name props version) of
       Some rid \<Rightarrow> Some rid
     | None \<Rightarrow>
         (case (if version = 0 then by_state_key reg (state_key_for name props) else None) of
            Some rid \<Rightarrow> Some rid
          | None \<Rightarrow>
              if props = [] \<and> version = 0 then by_name reg (normalize_name name) else None))"

definition find_compatible :: "registry \<Rightarrow> block_state \<Rightarrow> runtime_id option" where
  "find_compatible reg st0 =
    (let st = prepared reg st0
     in case by_key reg (full_key st) of
          Some rid \<Rightarrow> Some rid
        | None \<Rightarrow>
            (case by_state_key reg (state_key st) of
               Some rid \<Rightarrow> Some rid
             | None \<Rightarrow> if states st = [] then by_name reg (state_name st) else None))"

definition registry_state :: "registry \<Rightarrow> runtime_id \<Rightarrow> block_state option" where
  "registry_state reg rid = by_runtime_id reg rid"

text \<open>
  A state of the Bedrock decoder: its integers are 64-bit and are narrowed to the width of
  their type; an unknown type is read as an integer. The decoder itself is a parameter.
\<close>

datatype bwo_value_type = BwoByte | BwoShort | BwoInt | BwoLong | BwoString

record bwo_property =
  bwo_prop_name :: string
  bwo_type :: bwo_value_type
  bwo_int :: int
  bwo_string :: string

record bwo_state =
  bwo_name :: string
  bwo_states :: "bwo_property list"
  bwo_version :: int

definition from_bwo_property :: "bwo_property \<Rightarrow> block_property" where
  "from_bwo_property p =
    (case bwo_type p of
       BwoByte \<Rightarrow> \<lparr>prop_name = bwo_prop_name p, prop_type = VByte, prop_value = to_string (s8 (bwo_int p))\<rparr>
     | BwoShort \<Rightarrow> \<lparr>prop_name = bwo_prop_name p, prop_type = VShort, prop_value = to_string (s16 (bwo_int p))\<rparr>
     | BwoInt \<Rightarrow> \<lparr>prop_name = bwo_prop_name p, prop_type = VInt, prop_value = to_string (s32 (bwo_int p))\<rparr>
     | BwoLong \<Rightarrow> \<lparr>prop_name = bwo_prop_name p, prop_type = VLong, prop_value = to_string (bwo_int p)\<rparr>
     | BwoString \<Rightarrow> \<lparr>prop_name = bwo_prop_name p, prop_type = VString, prop_value = bwo_string p\<rparr>)"

definition from_bwo_state :: "bwo_state \<Rightarrow> block_state" where
  "from_bwo_state s =
    \<lparr>state_name = bwo_name s, states = map from_bwo_property (bwo_states s), state_version = bwo_version s\<rparr>"

text \<open>\<open>std::stoll\<close> throws on a value that is no number: \<open>None\<close> here.\<close>

definition to_bwo_property :: "block_property \<Rightarrow> bwo_property option" where
  "to_bwo_property p =
    (let t = (case prop_type p of VByte \<Rightarrow> BwoByte | VShort \<Rightarrow> BwoShort | VInt \<Rightarrow> BwoInt
                | VLong \<Rightarrow> BwoLong | VString \<Rightarrow> BwoString)
     in if prop_type p = VString
        then Some \<lparr>bwo_prop_name = prop_name p, bwo_type = t, bwo_int = 0, bwo_string = prop_value p\<rparr>
        else map_option (\<lambda>(v, rest). \<lparr>bwo_prop_name = prop_name p, bwo_type = t, bwo_int = v, bwo_string = []\<rparr>)
               (stoll (prop_value p)))"

fun map_all :: "('a \<Rightarrow> 'b option) \<Rightarrow> 'a list \<Rightarrow> 'b list option" where
  "map_all f [] = Some []"
| "map_all f (x # xs) =
     (case f x of None \<Rightarrow> None | Some y \<Rightarrow> map_option ((#) y) (map_all f xs))"

definition to_bwo_state :: "block_state \<Rightarrow> bwo_state option" where
  "to_bwo_state s = map_option (\<lambda>ps. \<lparr>bwo_name = state_name s, bwo_states = ps, bwo_version = state_version s\<rparr>)
     (map_all to_bwo_property (states s))"

definition resolve_state :: "(runtime_id \<Rightarrow> bwo_state option) \<Rightarrow> registry \<Rightarrow> runtime_id \<Rightarrow> block_state option" where
  "resolve_state decoder reg rid =
    (case registry_state reg rid of
       Some st \<Rightarrow> Some st
     | None \<Rightarrow> map_option from_bwo_state (decoder rid))"

section \<open>Legacy and schematic lookups\<close>

definition legacy_pool_id :: "registry \<Rightarrow> nat \<Rightarrow> nat \<Rightarrow> runtime_id option" where
  "legacy_pool_id reg pool index =
    (case legacy_pools reg pool of
       None \<Rightarrow> None
     | Some ids \<Rightarrow> if length ids \<le> index then None else Some (ids ! index))"

definition legacy_pool_snapshot :: "registry \<Rightarrow> nat \<Rightarrow> runtime_id list" where
  "legacy_pool_snapshot reg pool = (case legacy_pools reg pool of None \<Rightarrow> [] | Some ids \<Rightarrow> ids)"

definition legacy_runtime_id :: "registry \<Rightarrow> string \<Rightarrow> nat \<Rightarrow> runtime_id option" where
  "legacy_runtime_id reg name data =
    (let normalized = normalize_legacy_name name
     in case (case legacy_by_name reg normalized of None \<Rightarrow> None | Some values \<Rightarrow> values data) of
          Some rid \<Rightarrow> Some rid
        | None \<Rightarrow> legacy_default_by_name reg normalized)"

definition legacy_state_runtime_id :: "registry \<Rightarrow> string \<Rightarrow> block_property list \<Rightarrow> runtime_id option" where
  "legacy_state_runtime_id reg name props =
    (case legacy_by_state reg (normalize_legacy_name name) of
       None \<Rightarrow> None
     | Some entries \<Rightarrow> map_of entries (legacy_state_search_key props))"

definition schematic_runtime_id :: "registry \<Rightarrow> nat \<Rightarrow> nat \<Rightarrow> runtime_id option" where
  "schematic_runtime_id reg block_id data =
    (if \<not> has_schematic_mapping reg then None
     else Some (schematic_mapping reg ! (block_id * 256 + data)))"

definition schematic_block :: "registry \<Rightarrow> runtime_id \<Rightarrow> (nat \<times> nat) option" where
  "schematic_block reg rid = schematic_reverse reg rid"

definition java_state :: "registry \<Rightarrow> runtime_id \<Rightarrow> block_state option" where
  "java_state reg rid = java_by_runtime_id reg rid"

definition java_runtime_id :: "registry \<Rightarrow> string \<Rightarrow> runtime_id option" where
  "java_runtime_id reg block_state_text =
    (let key = normalize_java_state block_state_text
     in case java_round_trip_mapping reg key of
          Some rid \<Rightarrow> Some rid
        | None \<Rightarrow> java_mapping reg key)"

text \<open>The pool loop of \<open>load_legacy_pool\<close> on decoded items: \<open>None\<close> is an invalid item.\<close>

fun pool_loop :: "string option list \<Rightarrow> registry \<Rightarrow> runtime_id list \<times> registry" where
  "pool_loop [] reg = ([], reg)"
| "pool_loop (None # items) reg =
     (let (ids, reg') = pool_loop items reg in (air_runtime_id reg # ids, reg'))"
| "pool_loop (Some name # items) reg =
     (let (rid, reg1) = register_state \<lparr>state_name = name, states = [], state_version = 0\<rparr> reg;
          (ids, reg2) = pool_loop items reg1
      in (rid # ids, reg2))"

definition load_legacy_pool :: "string option list \<Rightarrow> nat \<Rightarrow> registry \<Rightarrow> registry" where
  "load_legacy_pool items pool_id reg =
    (let (ids, reg') = pool_loop items reg
     in reg'\<lparr>legacy_pools := (legacy_pools reg')(pool_id \<mapsto> ids)\<rparr>)"

section \<open>Installing the block mappings\<close>

text \<open>
  The palette of the asset, decoded: the state of each entry and its \<open>source_runtime_id\<close>
  when the entry has one (its index otherwise). An error leaves the scan, and later the
  installation, with what it has changed so far.
\<close>

datatype mapping_error = MissingAir | DuplicateSourceId runtime_id | SchematicLength

record palette_scan =
  scanned :: "(runtime_id \<times> block_state) list"
  source_air :: "runtime_id option"
  maximum_source :: runtime_id

definition scan_entry :: "nat \<times> block_state \<times> runtime_id option \<Rightarrow> palette_scan \<Rightarrow> palette_scan" where
  "scan_entry entry scan =
    (let (index, st, source) = entry;
         rid = (case source of Some r \<Rightarrow> r | None \<Rightarrow> index);
         is_air = ((state_name st = ''air'' \<or> state_name st = ''minecraft:air'') \<and> states st = [])
     in scan\<lparr>maximum_source := max (maximum_source scan) rid,
          source_air := (if is_air then Some rid else source_air scan),
          scanned := scanned scan @ [(rid, st)]\<rparr>)"

definition scan_palette ::
  "(block_state \<times> runtime_id option) list \<Rightarrow> (mapping_error, palette_scan) result" where
  "scan_palette entries =
    (let scan = fold scan_entry (enumerate 0 entries) \<lparr>scanned = [], source_air = None, maximum_source = 0\<rparr>
     in if source_air scan = None then Inl MissingAir else Inr scan)"

definition clear_tables :: "registry \<Rightarrow> registry" where
  "clear_tables reg =
    reg\<lparr>by_key := Map.empty, by_state_key := Map.empty, by_name := Map.empty, by_runtime_id := Map.empty\<rparr>"

fun install_loop ::
  "(runtime_id \<times> block_state) list \<Rightarrow> registry \<Rightarrow> (mapping_error, unit) result \<times> registry" where
  "install_loop [] reg = (Inr (), reg)"
| "install_loop ((rid, st0) # entries) reg =
     (let st = st0\<lparr>state_name := normalize_name (state_name st0)\<rparr>
      in if by_runtime_id reg rid \<noteq> None then (Inl (DuplicateSourceId rid), reg)
         else install_loop entries (insert_state rid st reg))"

definition install_states :: "palette_scan \<Rightarrow> registry \<Rightarrow> (mapping_error, unit) result \<times> registry" where
  "install_states scan reg =
    (case install_loop (scanned scan) (clear_tables reg) of
       (Inl e, reg') \<Rightarrow> (Inl e, reg')
     | (Inr u, reg') \<Rightarrow>
         (Inr u, reg'\<lparr>air_runtime_id := (case source_air scan of Some r \<Rightarrow> r | None \<Rightarrow> 0),
                   next_runtime_id := next_uint32 (maximum_source scan)\<rparr>))"

text \<open>
  The Java properties that some mapped state gives the value true or false; a byte of a
  Java state whose property is not one of them is an integer.
\<close>

definition boolean_java_properties :: "(string \<times> runtime_id) list \<Rightarrow> (string \<times> string) list" where
  "boolean_java_properties mapping =
    concat (map (\<lambda>(enc, rid).
      map (\<lambda>kv. (java_name enc, fst kv))
        (filter (\<lambda>kv. ascii_equal_ignore_case (snd kv) ''true'' \<or> ascii_equal_ignore_case (snd kv) ''false'')
          (java_property_views enc))) mapping)"

definition retype_java_state :: "(string \<times> string) list \<Rightarrow> block_state \<Rightarrow> block_state" where
  "retype_java_state booleans st =
    (let name = normalize_java_state (state_name st)
     in st\<lparr>states := map (\<lambda>p.
          if prop_type p = VByte \<and> (name, prop_name p) \<notin> set booleans then p\<lparr>prop_type := VInt\<rparr> else p) (states st)\<rparr>)"

text \<open>The round-trip loop: a text that two runtime ids encode to is ambiguous and has no entry.\<close>

definition round_trip_one ::
  "runtime_id \<times> block_state \<Rightarrow> (string \<rightharpoonup> runtime_id) \<times> string set \<Rightarrow> (string \<rightharpoonup> runtime_id) \<times> string set" where
  "round_trip_one entry acc =
    (let enc = encode_java_state (snd entry); (m, ambiguous) = acc
     in if enc \<in> ambiguous then acc
        else case m enc of
               None \<Rightarrow> (m(enc \<mapsto> fst entry), ambiguous)
             | Some found \<Rightarrow>
                 if found \<noteq> fst entry then (m(enc := None), insert enc ambiguous) else acc)"

definition round_trip_mapping :: "(runtime_id \<times> block_state) list \<Rightarrow> (string \<rightharpoonup> runtime_id)" where
  "round_trip_mapping entries = fst (fold round_trip_one entries (Map.empty, {}))"

definition candidate_of :: "string \<times> runtime_id \<Rightarrow> java_candidate" where
  "candidate_of er =
    \<lparr>encoded = fst er, candidate_id = snd er, candidate_properties = java_property_views (fst er)\<rparr>"

definition candidates_for :: "(string \<times> runtime_id) list \<Rightarrow> string \<rightharpoonup> java_candidate list" where
  "candidates_for mapping name =
    (case filter (\<lambda>er. java_name (fst er) = name) mapping of
       [] \<Rightarrow> None | ers \<Rightarrow> Some (map candidate_of ers))"

text \<open>The last loop: every mapped runtime id gets a state, a bare name its runtime id.\<close>

definition fill_one :: "string \<times> runtime_id \<Rightarrow> registry \<Rightarrow> registry" where
  "fill_one er reg =
    (let (enc, rid) = er;
         base_name = java_name enc;
         found = (case by_name reg base_name of None \<Rightarrow> None | Some r \<Rightarrow> by_runtime_id reg r);
         st0 = (case found of Some st \<Rightarrow> st | None \<Rightarrow> \<lparr>state_name = [], states = [], state_version = 0\<rparr>);
         st = (if state_name st0 = [] then st0\<lparr>state_name := base_name\<rparr> else st0)
     in reg\<lparr>by_runtime_id := emplace rid st (by_runtime_id reg),
          by_name := (if CHR ''['' \<notin> set enc then (by_name reg)(base_name \<mapsto> rid) else by_name reg)\<rparr>)"

record decoded_assets =
  asset_palette :: "(block_state \<times> runtime_id option) list"
  asset_schematic :: "runtime_id list option"
  asset_schematic_reverse :: "runtime_id \<rightharpoonup> nat \<times> nat"
  asset_bdx117 :: "runtime_id list"
  asset_java_mapping :: "(string \<times> runtime_id) list"
  asset_java_defaults :: "string \<rightharpoonup> runtime_id"
  asset_java_order :: "string \<rightharpoonup> nat"
  asset_java_states :: "(runtime_id \<times> block_state) list"
  asset_legacy_by_name :: "string \<rightharpoonup> (nat \<rightharpoonup> runtime_id)"
  asset_legacy_defaults :: "string \<rightharpoonup> runtime_id"
  asset_legacy_by_state :: "string \<rightharpoonup> (string \<times> runtime_id) list"
  asset_legacy_order :: "string \<rightharpoonup> (string \<rightharpoonup> nat)"
  asset_schemas :: "upgrade_schema list"

definition load_block_mappings :: "decoded_assets \<Rightarrow> registry \<Rightarrow> (mapping_error, unit) result \<times> registry" where
  "load_block_mappings a reg =
    (case scan_palette (asset_palette a) of
       Inl e \<Rightarrow> (Inl e, reg)
     | Inr scan \<Rightarrow>
         (case install_states scan reg of
            (Inl e, reg1) \<Rightarrow> (Inl e, reg1)
          | (Inr u, reg1) \<Rightarrow>
              if (case asset_schematic a of None \<Rightarrow> False | Some ids \<Rightarrow> length ids \<noteq> 256 * 256)
              then (Inl SchematicLength, reg1)
              else
                let booleans = boolean_java_properties (asset_java_mapping a);
                    java_states = map (\<lambda>e. (fst e, retype_java_state booleans (snd e))) (asset_java_states a);
                    reg2 = reg1
                      \<lparr>upgrade_state_fn := Some (upgrade (asset_schemas a)),
                       schematic_mapping := (case asset_schematic a of None \<Rightarrow> replicate (256 * 256) 0 | Some ids \<Rightarrow> ids),
                       has_schematic_mapping := asset_schematic a \<noteq> None,
                       schematic_reverse := asset_schematic_reverse a,
                       legacy_pools := (if asset_bdx117 a \<noteq> [] then (legacy_pools reg1)(117 \<mapsto> asset_bdx117 a)
                                        else legacy_pools reg1),
                       java_mapping := map_of (asset_java_mapping a),
                       java_round_trip_mapping := round_trip_mapping java_states,
                       java_default_by_name := asset_java_defaults a,
                       java_order := asset_java_order a,
                       java_candidates_by_name := candidates_for (asset_java_mapping a),
                       java_by_runtime_id := map_of java_states,
                       legacy_by_name := asset_legacy_by_name a,
                       legacy_default_by_name := asset_legacy_defaults a,
                       legacy_by_state := asset_legacy_by_state a,
                       legacy_state_order := asset_legacy_order a\<rparr>;
                    reg3 = (case java_mapping reg2 ''minecraft:air'' of
                              Some air \<Rightarrow> reg2\<lparr>air_runtime_id := air\<rparr> | None \<Rightarrow> reg2)
                in (Inr u, fold fill_one (asset_java_mapping a) reg3)))"

section \<open>The compatible Java state\<close>

definition SIZE_MAX :: nat where "SIZE_MAX = 18446744073709551615"

fun score_requested :: "(string \<times> string) list \<Rightarrow> (string \<times> string) list \<Rightarrow> nat \<times> nat" where
  "score_requested props [] = (0, 0)"
| "score_requested props ((name, value) # requested) =
     (let (same, penalty) = score_requested props requested
      in case map_of props name of
           None \<Rightarrow> (same, penalty + 1)
         | Some v \<Rightarrow> if fuzzy_java_equal v value then (same + 1, penalty) else (same, penalty + 1))"

definition score_candidate :: "(string \<times> string) list \<Rightarrow> java_candidate \<Rightarrow> nat \<times> nat" where
  "score_candidate requested c =
    (let (same, penalty) = score_requested (candidate_properties c) requested
     in (same, penalty + length (filter (\<lambda>kv. map_of requested (fst kv) = None) (candidate_properties c))))"

definition candidate_order :: "registry \<Rightarrow> java_candidate \<Rightarrow> nat" where
  "candidate_order reg c =
    (case java_order reg (canonical_java_order_key (encoded c)) of None \<Rightarrow> SIZE_MAX | Some n \<Rightarrow> n)"

definition better_candidate :: "registry \<Rightarrow> (string \<times> string) list \<Rightarrow> java_candidate \<Rightarrow> java_candidate \<Rightarrow> bool" where
  "better_candidate reg requested c best =
    (let (same, penalty) = score_candidate requested c;
         (best_same, best_penalty) = score_candidate requested best
     in if best_same < same \<or> (same = best_same \<and> penalty < best_penalty) then True
        else if same = best_same \<and> penalty = best_penalty
        then candidate_order reg c < candidate_order reg best \<or>
          (candidate_order reg c = candidate_order reg best \<and> candidate_id c < candidate_id best)
        else False)"

definition pick_better :: "('c \<Rightarrow> 'c \<Rightarrow> bool) \<Rightarrow> 'c \<Rightarrow> 'c option \<Rightarrow> 'c option" where
  "pick_better better c best =
    (case best of None \<Rightarrow> Some c | Some b \<Rightarrow> if better c b then Some c else Some b)"

definition best_java_candidate :: "registry \<Rightarrow> (string \<times> string) list \<Rightarrow> java_candidate list \<Rightarrow> java_candidate option" where
  "best_java_candidate reg requested cands = fold (pick_better (better_candidate reg requested)) cands None"

definition parse_legacy_properties :: "string \<Rightarrow> (string \<times> string) list" where
  "parse_legacy_properties enc =
    (let body = (if 2 \<le> length enc \<and> hd enc = CHR ''{'' \<and> last enc = CHR ''}'' then butlast (tl enc) else enc)
     in fold (\<lambda>part acc. case cut_at CHR '':'' part of
                  None \<Rightarrow> acc | Some (k, v) \<Rightarrow> umap_emplace k v acc)
          (split_on CHR '','' body) [])"

fun legacy_score_requested :: "(string \<times> string) list \<Rightarrow> (string \<times> string) list \<Rightarrow> nat \<times> nat" where
  "legacy_score_requested props [] = (0, 0)"
| "legacy_score_requested props ((name, value) # requested) =
     (let (same, penalty) = legacy_score_requested props requested
      in case map_of props name of
           None \<Rightarrow> (same, penalty + 1)
         | Some v \<Rightarrow> if fuzzy_java_value v = fuzzy_java_value value then (same + 1, penalty) else (same, penalty + 1))"

definition legacy_score :: "(string \<times> string) list \<Rightarrow> string \<Rightarrow> nat \<times> nat" where
  "legacy_score requested candidate =
    (let props = parse_legacy_properties candidate; (same, penalty) = legacy_score_requested props requested
     in (same, penalty + length (filter (\<lambda>kv. map_of requested (fst kv) = None) props)))"

definition legacy_candidate_order :: "(string \<rightharpoonup> nat) option \<Rightarrow> string \<Rightarrow> nat" where
  "legacy_candidate_order orders candidate =
    (case orders of
       None \<Rightarrow> SIZE_MAX
     | Some m \<Rightarrow> (case m candidate of None \<Rightarrow> SIZE_MAX | Some n \<Rightarrow> n))"

definition better_legacy ::
  "(string \<rightharpoonup> nat) option \<Rightarrow> (string \<times> string) list \<Rightarrow> string \<times> runtime_id \<Rightarrow> string \<times> runtime_id \<Rightarrow> bool" where
  "better_legacy orders requested c best =
    (let (same, penalty) = legacy_score requested (fst c);
         (best_same, best_penalty) = legacy_score requested (fst best);
         order = legacy_candidate_order orders (fst c);
         best_order = legacy_candidate_order orders (fst best)
     in best_same < same \<or>
        (same = best_same \<and> (penalty < best_penalty \<or>
          (penalty = best_penalty \<and> (order < best_order \<or>
            (order = best_order \<and> snd c < snd best))))))"

definition best_legacy ::
  "(string \<rightharpoonup> nat) option \<Rightarrow> (string \<times> string) list \<Rightarrow> (string \<times> runtime_id) list \<Rightarrow> runtime_id option" where
  "best_legacy orders requested entries =
    map_option snd (fold (pick_better (better_legacy orders requested)) entries None)"

definition compatible_java_runtime_id :: "registry \<Rightarrow> string \<Rightarrow> runtime_id option" where
  "compatible_java_runtime_id reg text_state =
    (let requested = normalize_java_state text_state;
         name = java_name requested;
         views = java_property_views requested;
         round_trip = java_round_trip_mapping reg requested
     in case round_trip of
          Some rid \<Rightarrow> Some rid
        | None \<Rightarrow>
            (case (if views = [] then java_default_by_name reg name else None) of
               Some rid \<Rightarrow> Some rid
             | None \<Rightarrow>
                 (case java_mapping reg requested of
                    Some rid \<Rightarrow> Some rid
                  | None \<Rightarrow>
                      (case (case java_candidates_by_name reg name of
                               None \<Rightarrow> None | Some cands \<Rightarrow> best_java_candidate reg views cands) of
                         Some c \<Rightarrow> Some (candidate_id c)
                       | None \<Rightarrow>
                           (case legacy_by_state reg name of
                              None \<Rightarrow> None
                            | Some entries \<Rightarrow>
                                best_legacy (legacy_state_order reg name) (java_properties requested) entries)))))"

section \<open>Consistency of the tables\<close>

definition reg_inv :: "registry \<Rightarrow> bool" where
  "reg_inv reg \<longleftrightarrow>
    (\<forall>k rid. by_key reg k = Some rid \<longrightarrow> (\<exists>st. by_runtime_id reg rid = Some st \<and> full_key st = k)) \<and>
    (\<forall>k rid. by_state_key reg k = Some rid \<longrightarrow> (\<exists>st. by_runtime_id reg rid = Some st \<and> state_key st = k)) \<and>
    (\<forall>n rid. by_name reg n = Some rid \<longrightarrow> (\<exists>st. by_runtime_id reg rid = Some st \<and> state_name st = n)) \<and>
    (\<forall>rid st. by_runtime_id reg rid = Some st \<longrightarrow>
       rid < next_runtime_id reg \<and> by_key reg (full_key st) \<noteq> None \<and>
       by_state_key reg (state_key st) \<noteq> None \<and> by_name reg (state_name st) \<noteq> None)"

lemma qualify_idem [simp]: "qualify (qualify n) = qualify n"
  using colon_qualify [of n] by (simp add: qualify_def)

lemma normalize_name_idem [simp]: "normalize_name (normalize_name n) = normalize_name n"
proof (cases "n = []")
  case False
  then have "qualify n \<noteq> []" by (simp add: qualify_def minecraft_def)
  with False show ?thesis by (simp add: normalize_name_def)
qed (simp add: normalize_name_def qualify_def)

lemma prepared_name: "normalize_name (state_name (prepared reg st)) = state_name (prepared reg st)"
  by (simp add: prepared_def Let_def)

lemma emplace_new: "m k = None \<Longrightarrow> emplace k v m = m(k \<mapsto> v)"
  by (simp add: emplace_def)

lemma emplace_apply: "emplace k v m j = (if j = k then Some (case m k of None \<Rightarrow> v | Some w \<Rightarrow> w) else m j)"
  by (auto simp: emplace_def split: option.split)

lemma insert_state_inv:
  assumes inv: "reg_inv reg" and fresh: "by_runtime_id reg rid = None" and "rid < next_runtime_id reg"
  shows "reg_inv (insert_state rid st reg)"
proof -
  have other: "by_runtime_id reg r = Some s \<Longrightarrow> r \<noteq> rid" for r s using fresh by auto
  show ?thesis
    using inv other fresh assms(3) unfolding reg_inv_def insert_state_def
    by (auto simp: emplace_apply split: option.splits) (metis option.discI)+
qed

lemma insert_state_tables [simp]:
  "next_runtime_id (insert_state rid st reg) = next_runtime_id reg"
  "upgrade_state_fn (insert_state rid st reg) = upgrade_state_fn reg"
  by (simp_all add: insert_state_def)

lemma reg_inv_next: "reg_inv reg \<Longrightarrow> next_runtime_id reg \<le> n \<Longrightarrow> reg_inv (reg\<lparr>next_runtime_id := n\<rparr>)"
  unfolding reg_inv_def by (simp) (meson order_less_le_trans)

lemma register_state_cases:
  assumes "register_state st reg = (rid, reg')"
  shows "(by_key reg (full_key (prepared reg st)) = Some rid \<and> reg' = reg) \<or>
    (by_key reg (full_key (prepared reg st)) = None \<and> upgrade_state_fn reg \<noteq> None \<and>
      by_state_key reg (state_key (prepared reg st)) = Some rid \<and> reg' = reg) \<or>
    (by_key reg (full_key (prepared reg st)) = None \<and>
      (upgrade_state_fn reg \<noteq> None \<longrightarrow> by_state_key reg (state_key (prepared reg st)) = None) \<and>
      rid = next_runtime_id reg \<and>
      reg' = insert_state rid (prepared reg st) (reg\<lparr>next_runtime_id := next_uint32 rid\<rparr>))"
  using assms by (auto simp: register_state_def Let_def split: option.splits if_splits)

lemma register_state_upgrade_fn:
  "register_state st reg = (rid, reg') \<Longrightarrow> upgrade_state_fn reg' = upgrade_state_fn reg"
  using register_state_cases [of st reg rid reg'] by auto

lemma register_state_prepared:
  "register_state st reg = (rid, reg') \<Longrightarrow> prepared reg' s = prepared reg s"
  using register_state_upgrade_fn [of st reg rid reg'] by (simp add: prepared_def upgraded_def)

lemma next_fresh: "reg_inv reg \<Longrightarrow> by_runtime_id reg (next_runtime_id reg) = None"
  unfolding reg_inv_def by (metis less_irrefl not_None_eq)

lemma register_state_inv:
  assumes inv: "reg_inv reg" and room: "next_runtime_id reg < 4294967295"
    and reg: "register_state st reg = (rid, reg')"
  shows "reg_inv reg' \<and> next_runtime_id reg' \<le> next_runtime_id reg + 1 \<and> by_runtime_id reg \<subseteq>\<^sub>m by_runtime_id reg' \<and>
    (\<exists>s. by_runtime_id reg' rid = Some s \<and>
      (full_key s = full_key (prepared reg st) \<or>
       upgrade_state_fn reg \<noteq> None \<and> state_key s = state_key (prepared reg st)))"
proof -
  have succ: "next_uint32 (next_runtime_id reg) = next_runtime_id reg + 1"
    using room by (simp add: next_uint32_def)
  let ?reg = "reg\<lparr>next_runtime_id := next_uint32 (next_runtime_id reg)\<rparr>"
  have inv': "reg_inv ?reg" using inv by (rule reg_inv_next) (simp add: succ)
  have fresh: "by_runtime_id ?reg (next_runtime_id reg) = None" using next_fresh [OF inv] by simp
  have new: "reg_inv (insert_state (next_runtime_id reg) (prepared reg st) ?reg)"
    by (rule insert_state_inv [OF inv' fresh]) (simp add: succ)
  from register_state_cases [OF reg] show ?thesis
  proof (elim disjE conjE)
    assume a: "by_key reg (full_key (prepared reg st)) = Some rid" "reg' = reg"
    then obtain s where "by_runtime_id reg rid = Some s" "full_key s = full_key (prepared reg st)"
      using inv unfolding reg_inv_def by blast
    then show ?thesis using inv a(2) by auto
  next
    assume a: "by_state_key reg (state_key (prepared reg st)) = Some rid" "reg' = reg" "upgrade_state_fn reg \<noteq> None"
    then obtain s where "by_runtime_id reg rid = Some s" "state_key s = state_key (prepared reg st)"
      using inv unfolding reg_inv_def by blast
    then show ?thesis using inv a(2,3) by auto
  next
    assume "rid = next_runtime_id reg" "reg' = insert_state rid (prepared reg st) (reg\<lparr>next_runtime_id := next_uint32 rid\<rparr>)"
    then show ?thesis
      using new succ next_fresh [OF inv] by (auto simp: insert_state_def emplace_apply map_le_def dom_def)
  qed
qed

lemma register_again:
  assumes "reg_inv reg" and "register_state st reg = (rid, reg')"
  shows "register_state st reg' = (rid, reg') \<and> find_compatible reg' st = Some rid \<and>
    (upgrade_state_fn reg = None \<longrightarrow>
      find_runtime reg' (state_name st) (states st) (state_version st) = Some rid)"
proof -
  let ?p = "prepared reg st"
  have p: "prepared reg' st = ?p" using register_state_prepared [OF assms(2)] .
  have look: "by_key reg' (full_key ?p) = Some rid \<or>
      (by_key reg' (full_key ?p) = None \<and> upgrade_state_fn reg' \<noteq> None \<and> by_state_key reg' (state_key ?p) = Some rid)"
    using register_state_cases [OF assms(2)] by (auto simp: insert_state_def emplace_apply)
  have key: "full_key ?p = key_for (state_name st) (states st) (state_version st)" if "upgrade_state_fn reg = None"
    using that by (simp add: prepared_def upgraded_def full_key_def key_for_def)
  show ?thesis
    using look p key register_state_upgrade_fn [OF assms(2)]
    by (auto simp: register_state_def find_compatible_def find_runtime_def Let_def)
qed

section \<open>Properties of registering\<close>

definition register_all :: "block_state list \<Rightarrow> registry \<Rightarrow> registry" where
  "register_all sts reg = fold (\<lambda>st r. snd (register_state st r)) sts reg"

lemma new_registry_inv: "reg_inv new_registry" "next_runtime_id new_registry = 2" "upgrade_state_fn new_registry = None"
proof -
  let ?air = "\<lparr>state_name = ''minecraft:air'', states = [], state_version = 0\<rparr>"
  have e: "reg_inv empty_registry" by (simp add: reg_inv_def empty_registry_def)
  obtain rid reg where r: "register_state ?air empty_registry = (rid, reg)" by force
  have "next_runtime_id reg = 2" "upgrade_state_fn reg = None"
    using register_state_cases [OF r] by (auto simp: empty_registry_def next_uint32_def)
  moreover have "reg_inv reg"
    using register_state_inv [OF e _ r] by (simp add: empty_registry_def)
  ultimately show "reg_inv new_registry" "next_runtime_id new_registry = 2" "upgrade_state_fn new_registry = None"
    using r by (simp_all add: new_registry_def reg_inv_def)
qed

lemma register_all_inv:
  assumes "reg_inv reg" and "next_runtime_id reg + length sts \<le> 4294967295"
  shows "reg_inv (register_all sts reg) \<and>
    next_runtime_id (register_all sts reg) \<le> next_runtime_id reg + length sts \<and>
    by_runtime_id reg \<subseteq>\<^sub>m by_runtime_id (register_all sts reg)"
  using assms
proof (induction sts arbitrary: reg)
  case Nil
  then show ?case by (simp add: register_all_def)
next
  case (Cons st sts)
  obtain rid reg' where r: "register_state st reg = (rid, reg')" by force
  from register_state_inv [OF Cons.prems(1) _ r] Cons.prems(2)
  have 1: "reg_inv reg'" "next_runtime_id reg' \<le> next_runtime_id reg + 1" "by_runtime_id reg \<subseteq>\<^sub>m by_runtime_id reg'"
    by auto
  with Cons.IH [of reg'] Cons.prems(2) have "reg_inv (register_all sts reg') \<and>
      next_runtime_id (register_all sts reg') \<le> next_runtime_id reg' + length sts \<and>
      by_runtime_id reg' \<subseteq>\<^sub>m by_runtime_id (register_all sts reg')" by simp
  with 1 r show ?case by (auto simp: register_all_def intro: map_le_trans)
qed



section \<open>The round-trip table\<close>

lemma round_trip_fold:
  assumes "distinct (map fst entries)"
    and "\<And>k. m k = (case filter (\<lambda>e. encode_java_state (snd e) = k) done of [e] \<Rightarrow> Some (fst e) | _ \<Rightarrow> None)"
    and "\<And>k. k \<in> amb \<longleftrightarrow> 2 \<le> length (filter (\<lambda>e. encode_java_state (snd e) = k) done)"
    and "set (map fst entries) \<inter> set (map fst done) = {}"
  shows "fst (fold round_trip_one entries (m, amb)) k =
    (case filter (\<lambda>e. encode_java_state (snd e) = k) (done @ entries) of [e] \<Rightarrow> Some (fst e) | _ \<Rightarrow> None)"
  using assms
proof (induction entries arbitrary: m amb "done")
  case Nil
  then show ?case by simp
next
  case (Cons e entries)
  let ?enc = "encode_java_state (snd e)"
  let ?F = "\<lambda>k xs. filter (\<lambda>e. encode_java_state (snd e) = k) xs"
  obtain m' amb' where step: "round_trip_one e (m, amb) = (m', amb')" by force
  have other: "m' k = m k \<and> (k \<in> amb' \<longleftrightarrow> k \<in> amb)" if "k \<noteq> ?enc" for k
    using that step by (auto simp: round_trip_one_def Let_def split: option.splits if_splits)
  have same: "m' ?enc = (case ?F ?enc (done @ [e]) of [e] \<Rightarrow> Some (fst e) | _ \<Rightarrow> None) \<and>
      (?enc \<in> amb' \<longleftrightarrow> 2 \<le> length (?F ?enc (done @ [e])))"
  proof (cases "?F ?enc done")
    case Nil
    then show ?thesis using step Cons.prems(2,3) [of ?enc]
      by (auto simp: round_trip_one_def Let_def split: option.splits if_splits)
  next
    case (Cons d ds)
    have "fst d \<noteq> fst e"
    proof
      have "d \<in> set done" using arg_cong [OF Cons, of set] by auto
      moreover assume "fst d = fst e"
      ultimately have "fst e \<in> set (map fst done)" by (metis image_eqI list.set_map)
      then show False using Cons.prems(4) by simp
    qed
    then show ?thesis using step Cons.prems(2,3) [of ?enc] Cons
      by (cases ds) (auto simp: round_trip_one_def Let_def split: option.splits if_splits)
  qed
  have "fst (fold round_trip_one entries (m', amb')) k =
      (case ?F k ((done @ [e]) @ entries) of [e] \<Rightarrow> Some (fst e) | _ \<Rightarrow> None)"
  proof (rule Cons.IH)
    show "distinct (map fst entries)" using Cons.prems(1) by simp
    show "m' k = (case ?F k (done @ [e]) of [e] \<Rightarrow> Some (fst e) | _ \<Rightarrow> None)" for k
      using same other [of k] Cons.prems(2) [of k] by (cases "k = ?enc") auto
    show "k \<in> amb' \<longleftrightarrow> 2 \<le> length (?F k (done @ [e]))" for k
      using same other [of k] Cons.prems(3) [of k] by (cases "k = ?enc") auto
    show "set (map fst entries) \<inter> set (map fst (done @ [e])) = {}"
      using Cons.prems(1,4) by auto
  qed
  then show ?case using step by simp
qed

text \<open>
  The Java round trip is unambiguous: the table maps a Java text to a runtime id exactly
  when that id is the only one whose Java state is encoded to the text. So the table does
  not depend on the iteration order of the hash map it is built from.
\<close>

theorem round_trip_unique:
  assumes "distinct (map fst entries)"
  shows "round_trip_mapping entries enc = Some rid \<longleftrightarrow>
    {r. \<exists>st. (r, st) \<in> set entries \<and> encode_java_state st = enc} = {rid}"
proof -
  let ?F = "filter (\<lambda>e. encode_java_state (snd e) = enc) entries"
  have m: "round_trip_mapping entries enc = (case ?F of [e] \<Rightarrow> Some (fst e) | _ \<Rightarrow> None)"
    using round_trip_fold [of entries Map.empty "[]" "{}" enc] assms by (simp add: round_trip_mapping_def)
  have s: "{r. \<exists>st. (r, st) \<in> set entries \<and> encode_java_state st = enc} = set (map fst ?F)"
    by force
  have d: "distinct (map fst ?F)" using assms by (rule distinct_map_filter)
  show ?thesis
  proof (cases ?F)
    case Nil
    then show ?thesis unfolding m s by simp
  next
    case (Cons e es)
    show ?thesis
    proof (cases es)
      case Nil
      then show ?thesis unfolding m s Cons by auto
    next
      case (Cons f fs)
      have "fst e \<noteq> fst f" using d \<open>?F = e # es\<close> Cons by simp
      then have "set (map fst ?F) \<noteq> {rid}" using \<open>?F = e # es\<close> Cons by auto
      then show ?thesis unfolding m s using \<open>?F = e # es\<close> Cons by simp
    qed
  qed
qed

theorem round_trip_unique_witness:
  "(let e = \<lambda>n v. \<lparr>state_name = n, states = [\<lparr>prop_name = ''lit'', prop_type = VByte, prop_value = v\<rparr>], state_version = 0\<rparr>;
        entries = [(4::nat, e ''lamp'' ''0''), (5, e ''lamp'' ''1''), (6, e ''lamp'' ''2'')]
    in round_trip_mapping entries ''minecraft:lamp[lit=false]'' = Some 4 \<and>
       round_trip_mapping entries ''minecraft:lamp[lit=true]'' = None)"
proof -
  let ?e = "\<lambda>v. \<lparr>state_name = ''lamp'', states = [\<lparr>prop_name = ''lit'', prop_type = VByte, prop_value = v\<rparr>], state_version = 0\<rparr>"
  let ?entries = "[(4::nat, ?e ''0''), (5, ?e ''1''), (6, ?e ''2'')]"
  have enc: "encode_java_state (?e ''0'') = ''minecraft:lamp[lit=false]''"
    "encode_java_state (?e ''1'') = ''minecraft:lamp[lit=true]''"
    "encode_java_state (?e ''2'') = ''minecraft:lamp[lit=true]''"
    by code_simp+
  have d: "distinct (map fst ?entries)" by simp
  have 1: "round_trip_mapping ?entries ''minecraft:lamp[lit=false]'' = Some 4"
    unfolding round_trip_unique [OF d] using enc by auto
  have "{5, 6} \<subseteq> {r. \<exists>st. (r, st) \<in> set ?entries \<and> encode_java_state st = ''minecraft:lamp[lit=true]''}"
    using enc by auto
  then have "{r. \<exists>st. (r, st) \<in> set ?entries \<and> encode_java_state st = ''minecraft:lamp[lit=true]''} \<noteq> {r}" for r
    by (metis insert_subset numeral_eq_iff semiring_norm(88,89,90) singletonD)
  then have "round_trip_mapping ?entries ''minecraft:lamp[lit=true]'' \<noteq> Some r" for r
    unfolding round_trip_unique [OF d] by blast
  then have "round_trip_mapping ?entries ''minecraft:lamp[lit=true]'' = None"
    by (metis not_None_eq)
  with 1 show ?thesis by simp
qed

section \<open>Selection does not depend on the iteration order\<close>

text \<open>
  When \<open>better\<close> compares keys of a linear order, the loop finds an entry with the least key.
\<close>

lemma pick_better_min:
  fixes key :: "'c \<Rightarrow> 'k::linorder"
  assumes "\<And>c b. better c b \<longleftrightarrow> key c < key b"
  shows "map_option key (fold (pick_better better) cs (Some b)) = Some (Min (key ` set (b # cs)))"
proof (induction cs arbitrary: b)
  case Nil
  then show ?case by simp
next
  case (Cons c cs)
  have "pick_better better c (Some b) = Some (if key c < key b then c else b)"
    by (simp add: pick_better_def assms)
  then have "map_option key (fold (pick_better better) (c # cs) (Some b)) =
      Some (Min (key ` set ((if key c < key b then c else b) # cs)))"
    by (simp add: Cons.IH)
  also have "Min (key ` set ((if key c < key b then c else b) # cs)) = Min (key ` set (b # c # cs))"
  proof (cases "cs = []")
    case False
    then show ?thesis by (auto simp: min_def Min_insert)
  qed (auto simp: min_def)
  finally show ?case .
qed

lemma pick_better_min_none:
  fixes key :: "'c \<Rightarrow> 'k::linorder"
  assumes "\<And>c b. better c b \<longleftrightarrow> key c < key b"
  shows "map_option key (fold (pick_better better) cs None) =
    (if cs = [] then None else Some (Min (key ` set cs)))"
  using pick_better_min [of better key, OF assms]
  by (cases cs) (simp_all add: pick_better_def)

definition candidate_key :: "registry \<Rightarrow> (string \<times> string) list \<Rightarrow> java_candidate \<Rightarrow> int \<times> nat \<times> nat \<times> runtime_id" where
  "candidate_key reg requested c =
    (let (same, penalty) = score_candidate requested c
     in (- int same, penalty, candidate_order reg c, candidate_id c))"

lemma better_candidate_key:
  "better_candidate reg requested c b \<longleftrightarrow> candidate_key reg requested c < candidate_key reg requested b"
  by (auto simp: better_candidate_def candidate_key_def Let_def split: prod.split)

definition legacy_key :: "(string \<rightharpoonup> nat) option \<Rightarrow> (string \<times> string) list \<Rightarrow> string \<times> runtime_id \<Rightarrow> int \<times> nat \<times> nat \<times> runtime_id" where
  "legacy_key orders requested c =
    (let (same, penalty) = legacy_score requested (fst c)
     in (- int same, penalty, legacy_candidate_order orders (fst c), snd c))"

lemma better_legacy_key:
  "better_legacy orders requested c b \<longleftrightarrow> legacy_key orders requested c < legacy_key orders requested b"
  by (auto simp: better_legacy_def legacy_key_def Let_def split: prod.split)

lemma candidate_id_of_key: "candidate_id c = snd (snd (snd (candidate_key reg requested c)))"
  by (simp add: candidate_key_def split: prod.split)

lemma legacy_id_of_key: "snd c = snd (snd (snd (legacy_key orders requested c)))"
  by (simp add: legacy_key_def split: prod.split)

lemma best_candidate_id:
  "map_option candidate_id (best_java_candidate reg requested cs) =
    (if cs = [] then None else Some (snd (snd (snd (Min (candidate_key reg requested ` set cs))))))"
proof -
  have "map_option candidate_id x = map_option (\<lambda>k. snd (snd (snd k))) (map_option (candidate_key reg requested) x)" for x
    by (cases x) (simp_all add: candidate_id_of_key [of _ reg requested])
  then show ?thesis
    using pick_better_min_none [of "better_candidate reg requested" "candidate_key reg requested" cs]
    by (simp add: best_java_candidate_def better_candidate_key)
qed

lemma best_legacy_id:
  "best_legacy orders requested entries =
    (if entries = [] then None else Some (snd (snd (snd (Min (legacy_key orders requested ` set entries))))))"
proof -
  have "map_option snd x = map_option (\<lambda>k. snd (snd (snd k))) (map_option (legacy_key orders requested) x)" for x
    by (cases x) (simp_all add: legacy_id_of_key [of _ orders requested])
  then show ?thesis
    using pick_better_min_none [of "better_legacy orders requested" "legacy_key orders requested" entries]
    by (simp add: best_legacy_def better_legacy_key)
qed




end
