(* ===== verification/WS_BdxInput.thy ===== *)
theory WS_BdxInput
  imports WS_Bytes
begin

text \<open>
  The decoded input of the BDX reader (\<open>src/formats/bdx.cpp\<close>, classes
  \<open>BrotliStreamBuffer\<close> and \<open>DecodedInput\<close>). The Brotli decoder is a parameter: the list of
  the outcomes of its successive calls. \<open>brotli_buffers\<close> is the loop of \<open>underflow\<close>: it
  turns the outcomes into the buffers the get area is filled with and the error that is
  recorded when they are exhausted. The readers work on the get area and refill it; each
  is shown to be the read on the flat bytes, so buffer boundaries cannot be observed.
\<close>

section \<open>Errors\<close>

datatype brotli_fault = OutputLimit | DecodeError | TruncatedStream | InputFailure

datatype bdx_error = DecoderFault brotli_fault | InputTruncated | ConstantTooLong
  | NbtTooDeep | NbtRootNotCompound | NbtTypeInvalid nat | NbtLibrary string
  | StatesNoSeparator | StatesTooMany | StatesMixedSeparators | StatesBadValue string
  | CursorOutOfRange | ConstantTableFull | ConstantTableTooLarge | TooManyBlocks
  | TooManyEntities | EntityTooLarge | PoolIndexOutOfRange nat nat | CommandModeOutOfRange
  | UnknownCommand nat | ZRunOutOfRange | MissingTerminate | DimensionOutOfRange
  | CoordinateOutOfRange | BadFileHeader | BadMetadataHeader

section \<open>The decoder's buffers\<close>

datatype brotli_status = BSuccess | BError | BNeedsInput | BNeedsOutput

record brotli_outcome =
  status :: brotli_status
  produced :: "byte list"
  input_ended :: bool
  read_failed :: bool

fun brotli_buffers :: "nat \<Rightarrow> nat \<Rightarrow> brotli_outcome list \<Rightarrow> byte list list \<times> brotli_fault option" where
  "brotli_buffers limit sofar [] = ([], None)"
| "brotli_buffers limit sofar (r # rs) =
    (if read_failed r then ([], Some InputFailure)
     else if limit - min limit sofar < length (produced r) then ([], Some OutputLimit)
     else if status r = BSuccess then (if produced r \<noteq> [] then [produced r] else [], None)
     else if produced r \<noteq> [] then
       (let (bs, f) = brotli_buffers limit (sofar + length (produced r)) rs in (produced r # bs, f))
     else if status r = BError then ([], Some DecodeError)
     else if status r = BNeedsInput \<and> input_ended r then ([], Some TruncatedStream)
     else brotli_buffers limit sofar rs)"

definition kMinimumDecodedLimit :: nat where "kMinimumDecodedLimit = 67108864"
definition kMaximumDecodedLimit :: nat where "kMaximumDecodedLimit = 68719476736"
definition kMaximumExpansionRatio :: nat where "kMaximumExpansionRatio = 4096"

definition decoded_limit :: "nat \<Rightarrow> nat" where
  "decoded_limit compressed_size =
    (let scaled = (if kMaximumDecodedLimit div kMaximumExpansionRatio < compressed_size
                   then kMaximumDecodedLimit else compressed_size * kMaximumExpansionRatio)
     in if scaled < kMinimumDecodedLimit then kMinimumDecodedLimit
        else if kMaximumDecodedLimit < scaled then kMaximumDecodedLimit else scaled)"

record decoded =
  area :: "byte list"
  pending :: "byte list list"
  fault :: "brotli_fault option"

definition decoded_input :: "nat \<Rightarrow> brotli_outcome list \<Rightarrow> decoded" where
  "decoded_input limit outcomes =
    (let (bs, f) = brotli_buffers limit 0 outcomes in \<lparr>area = [], pending = bs, fault = f\<rparr>)"

section \<open>The readers\<close>

definition refill :: "decoded \<Rightarrow> decoded" where
  "refill d =
    (if area d \<noteq> [] then d
     else case pending d of [] \<Rightarrow> d | b # bs \<Rightarrow> d\<lparr>area := b, pending := bs\<rparr>)"

definition at_end :: "decoded \<Rightarrow> bdx_error" where
  "at_end d = (case fault d of Some f \<Rightarrow> DecoderFault f | None \<Rightarrow> InputTruncated)"

definition refill_contiguous :: "decoded \<Rightarrow> (bdx_error, decoded) result" where
  "refill_contiguous d =
    (let d' = refill d
     in if area d' = [] then (case fault d' of Some f \<Rightarrow> Inl (DecoderFault f) | None \<Rightarrow> Inr d')
        else Inr d')"

definition consume :: "nat \<Rightarrow> decoded \<Rightarrow> decoded" where
  "consume n d = d\<lparr>area := drop n (area d)\<rparr>"

definition try_u8 :: "decoded \<Rightarrow> (bdx_error, byte option \<times> decoded) result" where
  "try_u8 d =
    (let d' = refill d
     in case area d' of
          [] \<Rightarrow> (case fault d' of Some f \<Rightarrow> Inl (DecoderFault f) | None \<Rightarrow> Inr (None, d'))
        | b # _ \<Rightarrow> Inr (Some b, consume 1 d'))"

definition read_u8 :: "decoded \<Rightarrow> (bdx_error, nat \<times> decoded) result" where
  "read_u8 d =
    and_then (try_u8 d) (\<lambda>(v, d'). case v of
        Some b \<Rightarrow> Inr (unat b, d')
      | None \<Rightarrow> Inl InputTruncated)"

definition read_i8 :: "decoded \<Rightarrow> (bdx_error, int \<times> decoded) result" where
  "read_i8 d = and_then (read_u8 d) (\<lambda>(v, d'). Inr (s8 (int v), d'))"

fun take_loop :: "nat \<Rightarrow> byte list \<Rightarrow> byte list list \<Rightarrow> (byte list \<times> byte list \<times> byte list list) option" where
  "take_loop n a [] = (if n \<le> length a then Some (take n a, drop n a, []) else None)"
| "take_loop n a (b # bs) =
    (if n \<le> length a then Some (take n a, drop n a, b # bs)
     else map_option (\<lambda>(v, r). (a @ v, r)) (take_loop (n - length a) b bs))"

definition read_exact :: "nat \<Rightarrow> decoded \<Rightarrow> (bdx_error, byte list \<times> decoded) result" where
  "read_exact n d =
    (case take_loop n (area d) (pending d) of
       Some (v, a, p) \<Rightarrow> Inr (v, d\<lparr>area := a, pending := p\<rparr>)
     | None \<Rightarrow> Inl (at_end d))"

definition skip :: "nat \<Rightarrow> decoded \<Rightarrow> (bdx_error, decoded) result" where
  "skip n d = and_then (read_exact n d) (\<lambda>(_, d'). Inr d')"

definition be_nat :: "byte list \<Rightarrow> nat" where
  "be_nat bs = fold (\<lambda>b v. v * 256 + unat b) bs 0"

definition le_nat :: "byte list \<Rightarrow> nat" where
  "le_nat bs = be_nat (rev bs)"

definition read_u16 :: "decoded \<Rightarrow> (bdx_error, nat \<times> decoded) result" where
  "read_u16 d = and_then (read_exact 2 d) (\<lambda>(bs, d'). Inr (be_nat bs, d'))"

definition read_u16_le :: "decoded \<Rightarrow> (bdx_error, nat \<times> decoded) result" where
  "read_u16_le d = and_then (read_exact 2 d) (\<lambda>(bs, d'). Inr (le_nat bs, d'))"

definition read_i16 :: "decoded \<Rightarrow> (bdx_error, int \<times> decoded) result" where
  "read_i16 d = and_then (read_u16 d) (\<lambda>(v, d'). Inr (s16 (int v), d'))"

definition read_u32 :: "decoded \<Rightarrow> (bdx_error, nat \<times> decoded) result" where
  "read_u32 d = and_then (read_exact 4 d) (\<lambda>(bs, d'). Inr (be_nat bs, d'))"

definition read_u32_le :: "decoded \<Rightarrow> (bdx_error, nat \<times> decoded) result" where
  "read_u32_le d = and_then (read_exact 4 d) (\<lambda>(bs, d'). Inr (le_nat bs, d'))"

definition read_i32 :: "decoded \<Rightarrow> (bdx_error, int \<times> decoded) result" where
  "read_i32 d = and_then (read_u32 d) (\<lambda>(v, d'). Inr (s32 (int v), d'))"

fun cstring_loop :: "nat \<Rightarrow> nat \<Rightarrow> byte list \<Rightarrow> byte list list \<Rightarrow>
  (bool, byte list \<times> byte list \<times> byte list list) result" where
  "cstring_loop maximum n [] [] = Inl False"
| "cstring_loop maximum n [] (b # bs) = cstring_loop maximum n b bs"
| "cstring_loop maximum n (c # cs) bs =
    (if c = 0 then Inr ([], cs, bs)
     else if maximum \<le> n then Inl True
     else and_then (cstring_loop maximum (n + 1) cs bs) (\<lambda>(v, r). Inr (c # v, r)))"

text \<open>The loop result \<open>Inl True\<close> is a text that exceeds the maximum, \<open>Inl False\<close> one that is cut off.\<close>

definition read_cstring :: "nat \<Rightarrow> decoded \<Rightarrow> (bdx_error, string \<times> decoded) result" where
  "read_cstring maximum d =
    (case cstring_loop maximum 0 (area d) (pending d) of
       Inl too_long \<Rightarrow> Inl (if too_long then ConstantTooLong else at_end d)
     | Inr (v, a, p) \<Rightarrow> Inr (map char_of_byte v, d\<lparr>area := a, pending := p\<rparr>))"

fun skip_cstring_loop :: "byte list \<Rightarrow> byte list list \<Rightarrow> (byte list \<times> byte list list) option" where
  "skip_cstring_loop a [] = (if 0 \<in> set a then Some (tl (dropWhile (\<lambda>b. b \<noteq> 0) a), []) else None)"
| "skip_cstring_loop a (b # bs) =
    (if 0 \<in> set a then Some (tl (dropWhile (\<lambda>b. b \<noteq> 0) a), b # bs)
     else skip_cstring_loop b bs)"

definition skip_cstring :: "decoded \<Rightarrow> (bdx_error, decoded) result" where
  "skip_cstring d =
    (case skip_cstring_loop (area d) (pending d) of
       Some (a, p) \<Rightarrow> Inr (d\<lparr>area := a, pending := p\<rparr>)
     | None \<Rightarrow> Inl (at_end d))"

section \<open>Buffer boundaries cannot be observed\<close>

definition input_bytes :: "decoded \<Rightarrow> byte list" where
  "input_bytes d = area d @ concat (pending d)"

definition flat :: "decoded \<Rightarrow> decoded" where
  "flat d = \<lparr>area = input_bytes d, pending = [], fault = fault d\<rparr>"

definition flat_result :: "('e, 'a \<times> decoded) result \<Rightarrow> ('e, 'a \<times> decoded) result" where
  "flat_result r = (case r of Inl e \<Rightarrow> Inl e | Inr (v, d) \<Rightarrow> Inr (v, flat d))"

text \<open>
  \<open>underflow\<close> only returns with a non-empty get area, so no pending buffer is empty. A reader
  respects the bytes when it does on the flat input what it does on the buffered one, up to
  the buffers left; it then only removes bytes from the front.
\<close>

definition decoded_ok :: "decoded \<Rightarrow> bool" where
  "decoded_ok d \<longleftrightarrow> [] \<notin> set (pending d)"

text \<open>Every buffer left is at most as long as one that was there before.\<close>

definition buffers_from :: "decoded \<Rightarrow> decoded \<Rightarrow> bool" where
  "buffers_from d d' \<longleftrightarrow>
    (\<forall>b \<in> set (area d' # pending d'). \<exists>c \<in> set (area d # pending d). length b \<le> length c)"

lemma buffers_from_refl [simp]: "buffers_from d d"
  by (auto simp: buffers_from_def)

lemma buffers_from_trans: "buffers_from a b \<Longrightarrow> buffers_from b c \<Longrightarrow> buffers_from a c"
  unfolding buffers_from_def by (meson le_trans)

definition reads_bytes :: "(decoded \<Rightarrow> ('e, 'a \<times> decoded) result) \<Rightarrow> bool" where
  "reads_bytes f \<longleftrightarrow>
    (\<forall>d. decoded_ok d \<longrightarrow> f (flat d) = flat_result (f d) \<and>
       (\<forall>v d'. f d = Inr (v, d') \<longrightarrow>
          (\<exists>p. input_bytes d = p @ input_bytes d') \<and> fault d' = fault d \<and> decoded_ok d' \<and>
          buffers_from d d'))"

named_theorems reads \<open>readers that respect the bytes\<close>

lemma flat_simps [simp]:
  "area (flat d) = input_bytes d" "pending (flat d) = []" "fault (flat d) = fault d"
  "input_bytes (flat d) = input_bytes d" "flat (flat d) = flat d" "decoded_ok (flat d)"
  by (simp_all add: flat_def input_bytes_def decoded_ok_def)

lemma flat_result_simps [simp]:
  "flat_result (Inl e) = Inl e" "flat_result (Inr (v, d)) = Inr (v, flat d)"
  by (simp_all add: flat_result_def)

lemma reads_bytesD:
  assumes "reads_bytes f" and "decoded_ok d"
  shows "f (flat d) = flat_result (f d)"
    and "f d = Inr (v, d') \<Longrightarrow> \<exists>p. input_bytes d = p @ input_bytes d'"
    and "f d = Inr (v, d') \<Longrightarrow> fault d' = fault d"
    and "f d = Inr (v, d') \<Longrightarrow> decoded_ok d'"
    and "f d = Inr (v, d') \<Longrightarrow> buffers_from d d'"
  using assms unfolding reads_bytes_def by blast+

lemma reads_bytes_length:
  "reads_bytes f \<Longrightarrow> decoded_ok d \<Longrightarrow> f d = Inr (v, d') \<Longrightarrow>
   length (input_bytes d') \<le> length (input_bytes d)"
  by (drule (2) reads_bytesD(2)) auto

lemma reads_return [reads]: "reads_bytes (\<lambda>d. Inr (v, d))"
  by (simp add: reads_bytes_def)

lemma reads_fail [reads]: "reads_bytes (\<lambda>d. Inl e)"
  by (simp add: reads_bytes_def)

lemma reads_and_then [reads]:
  assumes f: "reads_bytes f" and g: "\<And>v. reads_bytes (g v)"
  shows "reads_bytes (\<lambda>d. and_then (f d) (\<lambda>(v, d'). g v d'))"
  unfolding reads_bytes_def
proof (intro allI conjI impI)
  fix d
  assume ok: "decoded_ok d"
  note fd = reads_bytesD [OF f ok]
  show "and_then (f (flat d)) (\<lambda>(v, d'). g v d') = flat_result (and_then (f d) (\<lambda>(v, d'). g v d'))"
  proof (cases "f d")
    case (Inr r)
    obtain v e where r: "r = (v, e)" by (cases r)
    have "decoded_ok e" using fd(4) Inr r by blast
    from reads_bytesD(1) [OF g this] Inr r fd(1) show ?thesis by simp
  qed (simp add: fd(1))
  fix w d'
  assume "and_then (f d) (\<lambda>(v, d'). g v d') = Inr (w, d')"
  then obtain v e where fe: "f d = Inr (v, e)" and ge: "g v e = Inr (w, d')"
    by (auto simp: and_then_eq_Inr_iff)
  have oke: "decoded_ok e" using fd(4) [OF fe] .
  obtain p where p: "input_bytes d = p @ input_bytes e" using fd(2) [OF fe] ..
  obtain q where "input_bytes e = q @ input_bytes d'" using reads_bytesD(2) [OF g oke ge] ..
  with p have "input_bytes d = (p @ q) @ input_bytes d'" by simp
  then show "\<exists>p. input_bytes d = p @ input_bytes d'" ..
  show "fault d' = fault d" using fd(3) [OF fe] reads_bytesD(3) [OF g oke ge] by simp
  show "decoded_ok d'" using reads_bytesD(4) [OF g oke ge] .
  show "buffers_from d d'"
    using buffers_from_trans [OF fd(5) [OF fe] reads_bytesD(5) [OF g oke ge]] .
qed

lemma reads_if [reads]:
  "reads_bytes f \<Longrightarrow> reads_bytes g \<Longrightarrow> reads_bytes (\<lambda>d. if b then f d else g d)"
  by (cases b) simp_all

lemma take_loop_flat:
  "take_loop n (a @ concat bs) [] =
    (case take_loop n a bs of None \<Rightarrow> None | Some (v, a', bs') \<Rightarrow> Some (v, a' @ concat bs', []))"
proof (induction n a bs rule: take_loop.induct)
  case (1 n a)
  then show ?case by simp
next
  case (2 n a b bs)
  show ?case
  proof (cases "n \<le> length a")
    case True
    then show ?thesis by simp
  next
    case False
    with 2 show ?thesis
      by (cases "take_loop (n - length a) b bs") (auto split: if_splits)
  qed
qed

lemma take_loop_bytes:
  "take_loop n a bs = Some (v, a', bs') \<Longrightarrow>
   a @ concat bs = v @ a' @ concat bs' \<and> set bs' \<subseteq> set bs \<and> length v = n \<and>
   (\<exists>b \<in> set (a # bs). length a' \<le> length b)"
proof (induction n a bs arbitrary: v rule: take_loop.induct)
  case (1 n a)
  then show ?case by (auto split: if_splits)
next
  case (2 n a b bs)
  show ?case
  proof (cases "n \<le> length a")
    case True
    with 2 show ?thesis by auto
  next
    case False
    with 2(2) obtain w where "take_loop (n - length a) b bs = Some (w, a', bs')" "v = a @ w" by auto
    with 2(1) [OF False this(1)] False show ?thesis by auto
  qed
qed

lemma reads_exact [reads]: "reads_bytes (read_exact n)"
  unfolding reads_bytes_def
proof (intro allI conjI impI)
  fix d
  show "read_exact n (flat d) = flat_result (read_exact n d)"
    using take_loop_flat [of n "area d" "pending d"]
    by (auto simp: read_exact_def at_end_def flat_def input_bytes_def split: option.splits)
qed (auto simp: read_exact_def input_bytes_def decoded_ok_def buffers_from_def dest!: take_loop_bytes
    split: option.splits)

lemma cstring_loop_flat:
  "cstring_loop m n (a @ concat bs) [] =
    (case cstring_loop m n a bs of Inl e \<Rightarrow> Inl e | Inr (v, a', bs') \<Rightarrow> Inr (v, a' @ concat bs', []))"
proof (induction m n a bs rule: cstring_loop.induct)
  case (3 m n c cs bs)
  show ?case
  proof (cases "c = 0 \<or> m \<le> n")
    case False
    with 3 show ?thesis by (cases "cstring_loop m (n + 1) cs bs") auto
  qed auto
qed simp_all

lemma cstring_loop_bytes:
  "cstring_loop m n a bs = Inr (v, a', bs') \<Longrightarrow>
   a @ concat bs = v @ 0 # a' @ concat bs' \<and> set bs' \<subseteq> set bs \<and> 0 \<notin> set v \<and>
   (\<exists>b \<in> set (a # bs). length a' \<le> length b)"
  by (induction m n a bs arbitrary: v rule: cstring_loop.induct)
    (auto simp: and_then_eq_Inr_iff split: if_splits, (force+)?)

lemma reads_cstring [reads]: "reads_bytes (read_cstring m)"
  unfolding reads_bytes_def
proof (intro allI impI)
  fix d
  assume ok: "decoded_ok d"
  have "read_cstring m (flat d) = flat_result (read_cstring m d)"
    using cstring_loop_flat [of m 0 "area d" "pending d"]
    by (auto simp: read_cstring_def at_end_def flat_def input_bytes_def split: sum.splits)
  moreover have "(\<exists>p. input_bytes d = p @ input_bytes d') \<and> fault d' = fault d \<and> decoded_ok d' \<and>
      buffers_from d d'"
    if r: "read_cstring m d = Inr (v, d')" for v d'
  proof -
    from r obtain w a p where "cstring_loop m 0 (area d) (pending d) = Inr (w, a, p)"
      and d': "d' = d\<lparr>area := a, pending := p\<rparr>"
      by (auto simp: read_cstring_def split: sum.splits)
    from cstring_loop_bytes [OF this(1)] d' ok
    have "input_bytes d = (w @ [0]) @ input_bytes d'" "decoded_ok d'" "buffers_from d d'"
      by (auto simp: input_bytes_def decoded_ok_def buffers_from_def)
    then show ?thesis using d' by auto
  qed
  ultimately show "read_cstring m (flat d) = flat_result (read_cstring m d) \<and>
      (\<forall>v d'. read_cstring m d = Inr (v, d') \<longrightarrow>
        (\<exists>p. input_bytes d = p @ input_bytes d') \<and> fault d' = fault d \<and> decoded_ok d' \<and>
        buffers_from d d')" by blast
qed

lemma refill_bytes [simp]: "input_bytes (refill d) = input_bytes d" "fault (refill d) = fault d"
  by (auto simp: refill_def input_bytes_def split: list.splits)

lemma refill_ok: "decoded_ok d \<Longrightarrow> decoded_ok (refill d)"
  by (auto simp: refill_def decoded_ok_def split: list.splits)

lemma refill_area: "decoded_ok d \<Longrightarrow> area (refill d) = [] \<longleftrightarrow> input_bytes d = []"
  by (auto simp: refill_def decoded_ok_def input_bytes_def split: list.splits)

lemma consume_bytes:
  "n \<le> length (area d) \<Longrightarrow> input_bytes d = take n (area d) @ input_bytes (consume n d)"
  by (simp add: consume_def input_bytes_def)

lemma consume_simps [simp]: "fault (consume n d) = fault d" "decoded_ok (consume n d) = decoded_ok d"
  by (simp_all add: consume_def decoded_ok_def)

lemma buffers_from_refill: "buffers_from d (refill d)"
  by (auto simp: buffers_from_def refill_def split: list.split)

lemma buffers_from_consume: "buffers_from d (consume n d)"
  by (force simp: buffers_from_def consume_def)

lemma try_u8_buffers: "try_u8 d = Inr (v, d') \<Longrightarrow> buffers_from d d'"
  using buffers_from_refill [of d] buffers_from_trans [OF buffers_from_refill buffers_from_consume]
  by (auto simp: try_u8_def Let_def split: list.splits option.splits)

lemma try_u8_empty:
  assumes "decoded_ok d" "input_bytes d = []"
  shows "try_u8 d = (case fault d of Some f \<Rightarrow> Inl (DecoderFault f) | None \<Rightarrow> Inr (None, refill d))"
  using assms refill_area [of d] by (simp add: try_u8_def Let_def)

lemma try_u8_byte:
  assumes "decoded_ok d" "input_bytes d = b # r"
  shows "\<exists>d'. try_u8 d = Inr (Some b, d') \<and> input_bytes d' = r \<and> fault d' = fault d \<and> decoded_ok d'"
proof -
  obtain a as where a: "area (refill d) = a # as"
    using assms refill_area [of d] by (cases "area (refill d)") auto
  then have "input_bytes (refill d) = a # input_bytes (consume 1 (refill d))"
    using consume_bytes [of 1 "refill d"] by simp
  with assms have "a = b" "input_bytes (consume 1 (refill d)) = r" by simp_all
  with a assms refill_ok [of d] show ?thesis by (simp add: try_u8_def Let_def)
qed

lemma try_u8_reads:
  assumes "try_u8 d = Inr (v, d')" and "decoded_ok d"
  shows "input_bytes d = (case v of None \<Rightarrow> [] | Some b \<Rightarrow> [b]) @ input_bytes d'"
    and "fault d' = fault d" and "decoded_ok d'" and "v = None \<Longrightarrow> input_bytes d' = []"
  using assms try_u8_empty [of d] try_u8_byte [of d] refill_bytes [of d] refill_ok [of d]
  by (cases "input_bytes d"; force split: option.splits)+

lemma try_u8_flat: "decoded_ok d \<Longrightarrow> try_u8 (flat d) = flat_result (try_u8 d)"
proof -
  assume ok: "decoded_ok d"
  have fl: "refill (flat d) = flat d" by (simp add: refill_def flat_def)
  show ?thesis
  proof (cases "input_bytes d")
    case Nil
    have "flat (refill d) = flat d" by (simp add: flat_def)
    then show ?thesis
      using Nil try_u8_empty [OF ok] try_u8_empty [of "flat d"] by (simp add: fl split: option.split)
  next
    case (Cons b r)
    from try_u8_byte [OF ok this] obtain d' where "try_u8 d = Inr (Some b, d')"
      "input_bytes d' = r" "fault d' = fault d" by blast
    moreover have "try_u8 (flat d) = Inr (Some b, (flat d)\<lparr>area := r\<rparr>)"
      unfolding try_u8_def fl using Cons by (simp add: consume_def)
    ultimately show ?thesis by (simp add: flat_def)
  qed
qed

lemma reads_try_u8 [reads]: "reads_bytes try_u8"
  unfolding reads_bytes_def using try_u8_flat try_u8_reads try_u8_buffers by blast

lemma reads_u8 [reads]: "reads_bytes read_u8"
  unfolding read_u8_def
  by (rule reads_and_then [OF reads_try_u8]) (simp add: reads_bytes_def split: option.split)

lemma reads_numbers [reads]:
  "reads_bytes read_i8" "reads_bytes read_u16" "reads_bytes read_u16_le"
  "reads_bytes read_u32" "reads_bytes read_u32_le"
  unfolding read_i8_def read_u16_def read_u16_le_def read_u32_def read_u32_le_def
  by (rule reads reads_and_then)+

lemma reads_signed [reads]: "reads_bytes read_i16" "reads_bytes read_i32"
  unfolding read_i16_def read_i32_def by (rule reads reads_and_then)+

text \<open>A skip consumes what the read of the same length does.\<close>

definition as_reader :: "(decoded \<Rightarrow> ('e, decoded) result) \<Rightarrow> decoded \<Rightarrow> ('e, unit \<times> decoded) result" where
  "as_reader s d = and_then (s d) (\<lambda>d'. Inr ((), d'))"

lemma reads_skip [reads]: "reads_bytes (as_reader (skip n))"
proof -
  have "as_reader (skip n) = (\<lambda>d. and_then (read_exact n d) (\<lambda>(v, d'). Inr ((), d')))"
    by (rule ext, simp add: as_reader_def skip_def and_then_assoc)
      (rule and_then_cong, auto)
  then show ?thesis by (simp add: reads)
qed

lemma skip_cstring_loop_bytes:
  "skip_cstring_loop a bs = Some (a', bs') \<Longrightarrow>
   (\<exists>v. a @ concat bs = v @ 0 # a' @ concat bs' \<and> 0 \<notin> set v) \<and> set bs' \<subseteq> set bs \<and>
   (\<exists>b \<in> set (a # bs). length a' \<le> length b)"
proof (induction a bs rule: skip_cstring_loop.induct)
  case (1 a)
  then show ?case
    by (auto split: if_splits dest!: split_list_first simp: dropWhile_append)
next
  case (2 a b bs)
  show ?case
  proof (cases "0 \<in> set a")
    case True
    then obtain v w where "a = v @ 0 # w" "0 \<notin> set v" by (auto dest: split_list_first)
    with 2(2) show ?thesis by (auto simp: dropWhile_append)
  next
    case False
    with 2(2) have s: "skip_cstring_loop b bs = Some (a', bs')" by simp
    from 2(1) [OF False s] obtain v where "b @ concat bs = v @ 0 # a' @ concat bs'" "0 \<notin> set v"
      and rest: "set bs' \<subseteq> set bs" "\<exists>c \<in> set (b # bs). length a' \<le> length c" by blast
    with False have "a @ b @ concat bs = (a @ v) @ 0 # a' @ concat bs'" "0 \<notin> set (a @ v)" by simp_all
    with rest show ?thesis by (auto intro!: exI [of _ "a @ v"])
  qed
qed

lemma skip_cstring_loop_none: "skip_cstring_loop a bs = None \<longleftrightarrow> 0 \<notin> set (a @ concat bs)"
  by (induction a bs rule: skip_cstring_loop.induct) auto

lemma first_zero_unique:
  assumes "(v :: byte list) @ 0 # r = w @ 0 # s" and "0 \<notin> set v" "0 \<notin> set w"
  shows "v = w \<and> r = s"
  using assms
proof (induction v arbitrary: w)
  case Nil
  then show ?case by (cases w) auto
next
  case (Cons a v)
  then show ?case by (cases w) auto
qed

lemma reads_skip_cstring [reads]: "reads_bytes (as_reader skip_cstring)"
  unfolding reads_bytes_def
proof (intro allI impI)
  fix d
  assume ok: "decoded_ok d"
  let ?l = "skip_cstring_loop (area d) (pending d)"
  show "as_reader skip_cstring (flat d) = flat_result (as_reader skip_cstring d) \<and>
      (\<forall>v d'. as_reader skip_cstring d = Inr (v, d') \<longrightarrow>
        (\<exists>p. input_bytes d = p @ input_bytes d') \<and> fault d' = fault d \<and> decoded_ok d' \<and>
        buffers_from d d')"
  proof (cases ?l)
    case None
    then have "0 \<notin> set (input_bytes d)"
      unfolding skip_cstring_loop_none input_bytes_def .
    then have "skip_cstring_loop (input_bytes d) [] = None" by (simp add: skip_cstring_loop_none)
    with None show ?thesis by (simp add: as_reader_def skip_cstring_def at_end_def)
  next
    case (Some r)
    obtain a p where r: "r = (a, p)" by (cases r)
    from skip_cstring_loop_bytes [OF Some [unfolded r]] obtain v where
      v: "input_bytes d = v @ 0 # a @ concat p" "0 \<notin> set v" and p: "set p \<subseteq> set (pending d)"
      "\<exists>b \<in> set (area d # pending d). length a \<le> length b"
      by (auto simp: input_bytes_def)
    then have "skip_cstring_loop (input_bytes d) [] = Some (a @ concat p, [])"
      by (simp add: dropWhile_append)
    moreover have "flat (d\<lparr>area := a, pending := p\<rparr>) = (flat d)\<lparr>area := a @ concat p, pending := []\<rparr>"
      by (simp add: flat_def input_bytes_def)
    moreover have "input_bytes d = (v @ [0]) @ input_bytes (d\<lparr>area := a, pending := p\<rparr>)"
      using v by (simp add: input_bytes_def)
    ultimately show ?thesis using Some r p ok
      by (auto simp: as_reader_def skip_cstring_def decoded_ok_def buffers_from_def)
  qed
qed

section \<open>Reading what was encoded\<close>

lemma be_nat_snoc: "be_nat (bs @ [b]) = be_nat bs * 256 + unat b"
  by (simp add: be_nat_def)

lemma be_nat_be_word16: "be_nat (be_word (w :: 16 word)) = unat w"
proof -
  have "unat w < 2 ^ LENGTH(16)" by (rule unsigned_less)
  then have "unat w mod 65536 = unat w" by simp
  moreover have "(unat w div 256 mod 256) * 256 + unat w mod 256 = unat w mod 65536"
    using mod_mult2_eq [of "unat w" 256 256] by simp
  ultimately show ?thesis
    by (simp add: be_nat_def be_word_def le_word_def unsigned_ucast_eq unsigned_drop_bit_eq
        take_bit_eq_mod drop_bit_eq_div upt_rec unat_div_distrib)
qed

lemma be_nat_be_word32: "be_nat (be_word (w :: 32 word)) = unat w"
proof -
  have "unat w < 2 ^ LENGTH(32)" by (rule unsigned_less)
  then have "unat w mod (256 * 256 * 256 * 256) = unat w" by simp
  moreover have "(((unat w div 16777216 mod 256) * 256 + unat w div 65536 mod 256) * 256 +
      unat w div 256 mod 256) * 256 + unat w mod 256 = unat w mod (256 * 256 * 256 * 256)"
    by (simp only: mod_mult2_eq) (simp add: div_mult2_eq [symmetric])
  ultimately show ?thesis
    by (simp add: be_nat_def be_word_def le_word_def unsigned_ucast_eq unsigned_drop_bit_eq
        take_bit_eq_mod drop_bit_eq_div upt_rec unat_div_distrib)
qed

end
