(* ===== verification/WS_BdxStates.thy ===== *)
theory WS_BdxStates
  imports WS_BdxInput WS_JavaState
begin

text \<open>
  The block state texts of BDX: \<open>state_string\<close> and \<open>escaped\<close> of
  \<open>src/formats/bdx_writer.cpp\<close>, and \<open>unquote\<close> and \<open>parse_block_states\<close> of
  \<open>src/formats/bdx.cpp\<close> (its \<open>trim\<close> is the one of the Java texts). The lemmas show when the
  parser reads back what the writer printed, and where it does not.
\<close>

abbreviation quote :: char where "quote \<equiv> CHR 0x22"
abbreviation backslash :: char where "backslash \<equiv> CHR 0x5C"

section \<open>Printing\<close>

definition escaped :: "string \<Rightarrow> string" where
  "escaped value =
    concat (map (\<lambda>c. if c = backslash \<or> c = quote then [backslash, c] else [c]) value)"

definition property_text :: "block_property \<Rightarrow> string" where
  "property_text p =
    quote # escaped (prop_name p) @ [quote, CHR ''=''] @
    (if prop_type p = VString then quote # escaped (prop_value p) @ [quote]
     else if prop_type p = VByte then (if prop_value p = ''0'' then ''false'' else ''true'')
     else prop_value p)"

definition state_string :: "block_state \<Rightarrow> string" where
  "state_string st =
    (if states st = [] then ''[]''
     else ''['' @ join '','' (map property_text (sort_key prop_name (states st))) @ '']'')"

section \<open>Parsing\<close>

fun unquote_loop :: "string \<Rightarrow> string" where
  "unquote_loop [] = []"
| "unquote_loop [c] = [c]"
| "unquote_loop (c # d # cs) =
     (if c = backslash then d # unquote_loop cs else c # unquote_loop (d # cs))"

definition is_quoted :: "string \<Rightarrow> bool" where
  "is_quoted value \<longleftrightarrow> 2 \<le> length value \<and> hd value = quote \<and> last value = quote"

definition unquote :: "string \<Rightarrow> string" where
  "unquote value = (if is_quoted value then unquote_loop (butlast (tl value)) else value)"

text \<open>
  The scans carry whether the character before is a backslash and whether the position is
  between quotes.
\<close>

definition toggles :: "bool \<Rightarrow> char \<Rightarrow> bool \<Rightarrow> bool" where
  "toggles behind_backslash c quoted = (if c = quote \<and> \<not> behind_backslash then \<not> quoted else quoted)"

fun split_parts :: "bool \<Rightarrow> bool \<Rightarrow> string \<Rightarrow> string list" where
  "split_parts b q [] = [[]]"
| "split_parts b q (c # cs) =
     (let q' = toggles b c q; rest = split_parts (c = backslash) q' cs
      in if c = CHR '','' \<and> \<not> q' then [] # rest else (c # hd rest) # tl rest)"

fun find_separator :: "bool \<Rightarrow> bool \<Rightarrow> string \<Rightarrow> (string \<times> char \<times> string) option" where
  "find_separator b q [] = None"
| "find_separator b q (c # cs) =
     (let q' = toggles b c q
      in if (c = CHR ''='' \<or> c = CHR '':'') \<and> \<not> q' then Some ([], c, cs)
         else map_option (\<lambda>(k, s, v). (c # k, s, v)) (find_separator (c = backslash) q' cs))"

definition kMaximumStateProperties :: nat where "kMaximumStateProperties = 128"

definition parse_value :: "string \<Rightarrow> (bdx_error, block_state_value_type \<times> string) result" where
  "parse_value value =
    (let boolean = map tolower value
     in if boolean = ''true'' \<or> boolean = ''false''
        then Inr (VByte, if boolean = ''true'' then ''1'' else ''0'')
        else if is_quoted value then Inr (VString, unquote value)
        else case parse_exact INT32_MIN INT32_MAX value of
            None \<Rightarrow> Inl (StatesBadValue value)
          | Some n \<Rightarrow> Inr (VInt, to_string n))"

definition parse_part ::
  "string \<Rightarrow> block_property list \<times> char option \<Rightarrow> (bdx_error, block_property list \<times> char option) result" where
  "parse_part part acc =
    (let (result, mode) = acc
     in case find_separator False False part of
          None \<Rightarrow> if trim part \<noteq> [] then Inl StatesNoSeparator else Inr acc
        | Some (key, sep, rest) \<Rightarrow>
            if kMaximumStateProperties \<le> length result then Inl StatesTooMany
            else if mode \<noteq> None \<and> mode \<noteq> Some sep then Inl StatesMixedSeparators
            else and_then (parse_value (trim rest)) (\<lambda>(t, v).
              Inr (result @ [\<lparr>prop_name = unquote (trim key), prop_type = t, prop_value = v\<rparr>], Some sep)))"

definition parse_block_states :: "string \<Rightarrow> (bdx_error, block_property list) result" where
  "parse_block_states encoded =
    (case dropWhile (\<lambda>c. \<not> is_open c) encoded of
       [] \<Rightarrow> Inr []
     | _ # behind \<Rightarrow>
         and_then (fold_result parse_part
             (split_parts False False (up_to_last {CHR '']'', CHR ''}''} behind)) ([], None))
           (\<lambda>(result, _). Inr result))"

section \<open>The parser reads what the writer prints\<close>

text \<open>
  A text can be quoted when it does not end with a backslash: the closing quote would be
  taken for an escaped one. A property comes back with a byte value normalised to 0 or 1 and
  with every other number as an int.
\<close>

definition quotable :: "string \<Rightarrow> bool" where
  "quotable s \<longleftrightarrow> s = [] \<or> last s \<noteq> backslash"

definition writable :: "block_property \<Rightarrow> bool" where
  "writable p \<longleftrightarrow> quotable (prop_name p) \<and>
    (prop_type p = VString \<longrightarrow> quotable (prop_value p)) \<and>
    (prop_type p \<in> {VShort, VInt, VLong} \<longrightarrow> (\<exists>n. in_s32 n \<and> prop_value p = to_string n))"

definition read_back :: "block_property \<Rightarrow> block_property" where
  "read_back p =
    (if prop_type p = VString then p
     else if prop_type p = VByte then p\<lparr>prop_value := if prop_value p = ''0'' then ''0'' else ''1''\<rparr>
     else p\<lparr>prop_type := VInt\<rparr>)"

lemma split_parts_nonempty [simp]: "split_parts b q s \<noteq> []"
  by (cases s) (simp_all add: Let_def)

lemma split_parts_escaped:
  "split_parts b True (escaped t @ r) =
    (let rest = split_parts (if t = [] then b else last t = backslash) True r
     in (escaped t @ hd rest) # tl rest)"
proof (induction t arbitrary: b)
  case Nil
  then show ?case by (simp add: escaped_def)
next
  case (Cons c t)
  have "escaped (c # t) = (if c = backslash \<or> c = quote then [backslash, c] else [c]) @ escaped t"
    by (simp add: escaped_def)
  then show ?case using Cons.IH by (auto simp: toggles_def Let_def)
qed

lemma split_parts_quoted:
  assumes "quotable t"
  shows "split_parts False False (quote # escaped t @ quote # r) =
    (let rest = split_parts False False r in (quote # escaped t @ quote # hd rest) # tl rest)"
  using assms split_parts_escaped [of False t "quote # r"]
  by (auto simp: toggles_def Let_def quotable_def)

definition plain :: "char \<Rightarrow> bool" where
  "plain c \<longleftrightarrow> c \<noteq> quote \<and> c \<noteq> backslash \<and> c \<noteq> CHR '',''"

lemma split_parts_plain:
  "list_all plain s \<Longrightarrow> split_parts False False (s @ r) =
    (let rest = split_parts False False r in (s @ hd rest) # tl rest)"
  by (induction s) (auto simp: toggles_def Let_def plain_def)

lemma find_separator_escaped:
  "find_separator b True (escaped t @ r) =
    map_option (\<lambda>(k, s, v). (escaped t @ k, s, v))
      (find_separator (if t = [] then b else last t = backslash) True r)"
proof (induction t arbitrary: b)
  case Nil
  then show ?case by (simp add: escaped_def option.map_ident_strong)
next
  case (Cons c t)
  have "escaped (c # t) = (if c = backslash \<or> c = quote then [backslash, c] else [c]) @ escaped t"
    by (simp add: escaped_def)
  then show ?case using Cons.IH
    by (auto simp: toggles_def Let_def option.map_comp comp_def case_prod_unfold)
qed

lemma unquote_loop_escaped: "unquote_loop (escaped t) = t"
proof (induction t)
  case Nil
  then show ?case by (simp add: escaped_def)
next
  case (Cons c t)
  have e: "escaped (c # t) = (if c = backslash \<or> c = quote then [backslash, c] else [c]) @ escaped t"
    by (simp add: escaped_def)
  show ?case
  proof (cases "c = backslash \<or> c = quote")
    case True
    with e Cons show ?thesis by auto
  next
    case False
    with e Cons show ?thesis by (cases "escaped t") auto
  qed
qed

lemma is_quoted_quoted: "is_quoted (quote # s @ [quote])"
  by (simp add: is_quoted_def)

lemma unquote_escaped: "unquote (quote # escaped t @ [quote]) = t"
  by (simp add: unquote_def is_quoted_quoted butlast_append unquote_loop_escaped)

definition value_text :: "block_property \<Rightarrow> string" where
  "value_text p =
    (if prop_type p = VString then quote # escaped (prop_value p) @ [quote]
     else if prop_type p = VByte then (if prop_value p = ''0'' then ''false'' else ''true'')
     else prop_value p)"

lemma property_text_value:
  "property_text p = quote # escaped (prop_name p) @ quote # CHR ''='' # value_text p"
  by (simp add: property_text_def value_text_def)

lemma find_separator_property:
  assumes "quotable (prop_name p)"
  shows "find_separator False False (property_text p) =
    Some (quote # escaped (prop_name p) @ [quote], CHR ''='', value_text p)"
  using assms find_separator_escaped [of False "prop_name p" "quote # CHR ''='' # value_text p"]
  by (auto simp: property_text_value toggles_def Let_def quotable_def)

lemma to_string_chars: "c \<in> set (to_string n) \<Longrightarrow> is_digit c \<or> c = CHR ''-''"
  by (auto simp: to_string_def dest: show_nat_digits split: if_splits)

lemma to_string_nonempty: "to_string n \<noteq> []"
  by (simp add: to_string_def show_nat_nonempty)

lemma digit_plain:
  "is_digit c \<or> c = CHR ''-'' \<Longrightarrow>
   plain c \<and> \<not> is_space c \<and> tolower c = c \<and> c \<noteq> CHR ''t'' \<and> c \<noteq> CHR ''f''"
  by (auto simp: is_digit_def plain_def is_space_def tolower_def Let_def)

lemma value_text_trimmed:
  assumes "writable p"
  shows "trimmed (value_text p)"
proof (cases "prop_type p \<in> {VShort, VInt, VLong}")
  case True
  then obtain n where "prop_value p = to_string n" using assms unfolding writable_def by blast
  moreover have "\<not> is_space (hd (to_string n))" "\<not> is_space (last (to_string n))"
    using to_string_nonempty [of n] digit_plain to_string_chars [of _ n] by (meson hd_in_set last_in_set)+
  moreover have "prop_type p \<noteq> VString \<and> prop_type p \<noteq> VByte" using True by auto
  ultimately show ?thesis by (simp add: value_text_def trimmed_def)
next
  case False
  then have "prop_type p = VString \<or> prop_type p = VByte" by (cases "prop_type p") auto
  then show ?thesis by (auto simp: value_text_def trimmed_def is_space_def)
qed

lemma parse_value_text:
  assumes "writable p"
  shows "parse_value (value_text p) = Inr (prop_type (read_back p), prop_value (read_back p))"
proof (cases "prop_type p \<in> {VShort, VInt, VLong}")
  case True
  then obtain n where n: "in_s32 n" "prop_value p = to_string n" using assms unfolding writable_def by blast
  have t: "prop_type p \<noteq> VString" "prop_type p \<noteq> VByte" using True by auto
  have hd: "is_digit (hd (to_string n)) \<or> hd (to_string n) = CHR ''-''"
    using to_string_nonempty to_string_chars by (meson hd_in_set)
  have low: "map tolower (to_string n) = to_string n"
    using to_string_chars [of _ n] digit_plain by (intro map_idI) blast
  have "to_string n \<noteq> ''true''" "to_string n \<noteq> ''false''" "hd (to_string n) \<noteq> quote"
    using hd digit_plain [OF hd] by (auto simp: is_digit_def plain_def)
  moreover have "parse_exact INT32_MIN INT32_MAX (to_string n) = Some n"
    using n by (intro parse_exact_to_string) (auto simp: range_simps)
  ultimately show ?thesis using t low n
    by (simp add: parse_value_def value_text_def read_back_def is_quoted_def)
next
  case False
  then consider "prop_type p = VString" | "prop_type p = VByte" by (cases "prop_type p") auto
  then show ?thesis
  proof cases
    case 1
    have "tolower quote = quote" by (simp add: tolower_def)
    then show ?thesis using 1
      by (simp add: parse_value_def value_text_def read_back_def is_quoted_quoted unquote_escaped)
  next
    case 2
    then show ?thesis
      by (auto simp: parse_value_def value_text_def read_back_def tolower_def)
  qed
qed

lemma parse_part_property:
  assumes "writable p" and "length result < kMaximumStateProperties"
    and "mode = None \<or> mode = Some CHR ''=''"
  shows "parse_part (property_text p) (result, mode) = Inr (result @ [read_back p], Some CHR ''='')"
proof -
  have "quotable (prop_name p)" using assms(1) by (simp add: writable_def)
  moreover have "trimmed (quote # escaped (prop_name p) @ [quote])"
    by (simp add: trimmed_def is_space_def)
  moreover have "prop_name (read_back p) = prop_name p" by (simp add: read_back_def)
  ultimately show ?thesis
    using assms by (auto simp: parse_part_def find_separator_property trim_trimmed
        value_text_trimmed parse_value_text unquote_escaped)
qed

lemma split_parts_value:
  assumes "writable p"
  shows "split_parts False False (value_text p @ r) =
    (let rest = split_parts False False r in (value_text p @ hd rest) # tl rest)"
proof (cases "prop_type p = VString")
  case True
  then show ?thesis using assms split_parts_quoted [of "prop_value p" r]
    by (simp add: value_text_def writable_def)
next
  case False
  have "list_all plain (value_text p)"
  proof (cases "prop_type p = VByte")
    case True
    then show ?thesis by (auto simp: value_text_def plain_def)
  next
    case f: False
    with False have "prop_type p \<in> {VShort, VInt, VLong}" by (cases "prop_type p") auto
    then obtain n where "prop_value p = to_string n" using assms unfolding writable_def by blast
    then show ?thesis using f False to_string_chars [of _ n] digit_plain
      by (auto simp: value_text_def list_all_iff)
  qed
  then show ?thesis by (rule split_parts_plain)
qed

lemma split_parts_property:
  assumes "writable p"
  shows "split_parts False False (property_text p @ r) =
    (let rest = split_parts False False r in (property_text p @ hd rest) # tl rest)"
proof -
  have "split_parts False False (CHR ''='' # s) =
      (let rest = split_parts False False s in (CHR ''='' # hd rest) # tl rest)" for s
    by (simp add: toggles_def Let_def)
  then show ?thesis
    using assms split_parts_quoted [of "prop_name p" "CHR ''='' # value_text p @ r"] split_parts_value [OF assms]
    by (simp add: property_text_value writable_def Let_def)
qed

lemma split_parts_join:
  "list_all writable ps \<Longrightarrow> ps \<noteq> [] \<Longrightarrow>
   split_parts False False (join '','' (map property_text ps)) = map property_text ps"
proof (induction ps rule: induct_list012)
  case (2 p)
  then show ?case using split_parts_property [of p "[]"] by simp
next
  case (3 p q ps)
  have "join '','' (map property_text (p # q # ps)) =
      property_text p @ CHR '','' # join '','' (map property_text (q # ps))" by simp
  with 3 show ?case
    using split_parts_property [of p "CHR '','' # join '','' (map property_text (q # ps))"]
    by (simp add: toggles_def Let_def)
qed simp

lemma fold_parse_part:
  assumes "list_all writable ps" and "length result + length ps \<le> kMaximumStateProperties"
    and "mode = None \<or> mode = Some CHR ''=''"
  shows "\<exists>m. fold_result parse_part (map property_text ps) (result, mode) = Inr (result @ map read_back ps, m)"
  using assms
proof (induction ps arbitrary: result mode)
  case Nil
  then show ?case by simp
next
  case (Cons p ps)
  then have "parse_part (property_text p) (result, mode) = Inr (result @ [read_back p], Some CHR ''='')"
    by (intro parse_part_property) simp_all
  moreover from Cons.prems have "\<exists>m. fold_result parse_part (map property_text ps)
      (result @ [read_back p], Some CHR ''='') = Inr ((result @ [read_back p]) @ map read_back ps, m)"
    by (intro Cons.IH) simp_all
  ultimately show ?case by simp
qed

lemma up_to_last_snoc: "c \<in> C \<Longrightarrow> up_to_last C (s @ [c]) = s"
  by (simp add: up_to_last_def)

lemma parse_state_string:
  assumes "list_all writable (states st)" and "length (states st) \<le> kMaximumStateProperties"
  shows "parse_block_states (state_string st) = Inr (map read_back (sort_key prop_name (states st)))"
proof (cases "states st = []")
  case True
  have "up_to_last {CHR '']'', CHR ''}''} '']'' = []" by (simp add: up_to_last_def)
  moreover have "trim [] = []" by (simp add: trim_def)
  ultimately show ?thesis using True
    by (simp add: parse_block_states_def state_string_def is_open_def parse_part_def)
next
  case False
  let ?ps = "sort_key prop_name (states st)"
  let ?text = "join '','' (map property_text ?ps)"
  have ps: "list_all writable ?ps" "length ?ps \<le> kMaximumStateProperties"
    using assms by (simp_all add: list_all_iff)
  have ne: "?ps \<noteq> []" using False by (metis length_0_conv length_sort)
  obtain m where "fold_result parse_part (map property_text ?ps) ([], None) = Inr (map read_back ?ps, m)"
    using fold_parse_part [OF ps(1), of "[]" None] ps(2) by auto
  moreover have "dropWhile (\<lambda>c. \<not> is_open c) (state_string st) = CHR ''['' # ?text @ '']''"
    using False by (simp add: state_string_def is_open_def)
  ultimately show ?thesis
    by (simp add: parse_block_states_def up_to_last_snoc split_parts_join [OF ps(1) ne])
qed

section \<open>Properties\<close>


definition sign_state :: block_state where
  "sign_state = \<lparr>state_name = ''minecraft:sign'', states =
     [\<lparr>prop_name = ''text'', prop_type = VString, prop_value = ''a]=,'' @ [quote, backslash, CHR ''b'']\<rparr>,
      \<lparr>prop_name = ''lit'', prop_type = VByte, prop_value = ''1''\<rparr>], state_version = 0\<rparr>"



end
