(* ===== verification/WS_BdxCommands.thy ===== *)
theory WS_BdxCommands
  imports WS_BdxStates WS_Canonical
begin

text \<open>
  The operands of the BDX commands (\<open>src/formats/bdx.cpp\<close>): command block and chest data,
  the NBT skipper, the table of the move commands and, for each command, what is read behind
  its id. The NBT reader and writer of libnbt are parameters. In bounds mode the code skips
  the operands of every command that places a block; \<open>skips_what_is_read\<close> shows that it
  skips exactly what the full mode reads.
\<close>

section \<open>Command block and chest data\<close>

type_synonym compound = "(string, nbt_tag) omap"

definition kMaximumConstantStringBytes :: nat where "kMaximumConstantStringBytes = 4194304"

record command_block_data =
  cb_mode :: nat
  cb_command :: string
  cb_custom_name :: string
  cb_last_output :: string
  cb_tick_delay :: int
  cb_execute_on_first_tick :: bool
  cb_track_output :: bool
  cb_conditional :: bool
  cb_needs_redstone :: bool

definition read_command_block_data :: "decoded \<Rightarrow> (bdx_error, command_block_data \<times> decoded) result" where
  "read_command_block_data d =
    and_then (read_u32 d) (\<lambda>(mode, d).
    and_then (read_cstring kMaximumConstantStringBytes d) (\<lambda>(command, d).
    and_then (read_cstring kMaximumConstantStringBytes d) (\<lambda>(custom_name, d).
    and_then (read_cstring kMaximumConstantStringBytes d) (\<lambda>(last_output, d).
    and_then (read_i32 d) (\<lambda>(tick_delay, d).
    and_then (read_u8 d) (\<lambda>(execute, d).
    and_then (read_u8 d) (\<lambda>(track, d).
    and_then (read_u8 d) (\<lambda>(conditional, d).
    and_then (read_u8 d) (\<lambda>(redstone, d).
      Inr (\<lparr>cb_mode = mode, cb_command = command, cb_custom_name = custom_name,
            cb_last_output = last_output, cb_tick_delay = tick_delay,
            cb_execute_on_first_tick = execute \<noteq> 0, cb_track_output = track \<noteq> 0,
            cb_conditional = conditional \<noteq> 0, cb_needs_redstone = redstone \<noteq> 0\<rparr>, d))))))))))"

definition skip_command_block_data :: "decoded \<Rightarrow> (bdx_error, decoded) result" where
  "skip_command_block_data d =
    and_then (skip 4 d) (\<lambda>d. and_then (skip_cstring d) (\<lambda>d. and_then (skip_cstring d) (\<lambda>d.
    and_then (skip_cstring d) (\<lambda>d. skip 8 d))))"

definition flag_tag :: "bool \<Rightarrow> nbt_tag" where
  "flag_tag b = TagByte (if b then 1 else 0)"

definition command_block_nbt :: "command_block_data \<Rightarrow> compound" where
  "command_block_nbt cb =
    fold (\<lambda>(k, v). omap_put k v)
      [(''Command'', TagString (cb_command cb)), (''CustomName'', TagString (cb_custom_name cb)),
       (''LastOutput'', TagString (cb_last_output cb)),
       (''TickDelay'', TagInt (word_of_int (cb_tick_delay cb))),
       (''ExecuteOnFirstTick'', flag_tag (cb_execute_on_first_tick cb)),
       (''TrackOutput'', flag_tag (cb_track_output cb)),
       (''conditionalMode'', flag_tag (cb_conditional cb)),
       (''auto'', flag_tag (\<not> cb_needs_redstone cb)), (''id'', TagString ''CommandBlock'')] []"

fun repeat_read :: "(decoded \<Rightarrow> (bdx_error, 'a \<times> decoded) result) \<Rightarrow> nat \<Rightarrow> decoded \<Rightarrow>
  (bdx_error, 'a list \<times> decoded) result" where
  "repeat_read f 0 d = Inr ([], d)"
| "repeat_read f (Suc n) d =
     and_then (f d) (\<lambda>(v, d). and_then (repeat_read f n d) (\<lambda>(vs, d). Inr (v # vs, d)))"

definition read_chest_item :: "decoded \<Rightarrow> (bdx_error, nbt_tag \<times> decoded) result" where
  "read_chest_item d =
    and_then (read_cstring kMaximumConstantStringBytes d) (\<lambda>(name, d).
    and_then (read_u8 d) (\<lambda>(count, d).
    and_then (read_u16 d) (\<lambda>(damage, d).
    and_then (read_u8 d) (\<lambda>(slot, d).
      Inr (TagCompound (fold (\<lambda>(k, v). omap_put k v)
        [(''Name'', TagString name), (''Count'', TagByte (word_of_nat count)),
         (''Damage'', TagShort (word_of_nat damage)), (''Slot'', TagByte (word_of_nat slot))] []), d)))))"

definition read_chest_nbt :: "decoded \<Rightarrow> (bdx_error, compound \<times> decoded) result" where
  "read_chest_nbt d =
    and_then (read_u8 d) (\<lambda>(count, d). and_then (repeat_read read_chest_item count d) (\<lambda>(items, d).
      Inr ([(''Items'', TagList items)], d)))"

definition skip_chest_nbt :: "decoded \<Rightarrow> (bdx_error, decoded) result" where
  "skip_chest_nbt d =
    and_then (read_u8 d) (\<lambda>(count, d).
      and_then (repeat_read (\<lambda>d. and_then (as_reader skip_cstring d) (\<lambda>(_, d). as_reader (skip 4) d)) count d)
        (\<lambda>(_, d). Inr d))"

section \<open>Skipping NBT\<close>

text \<open>
  The loop over a compound reads at least one byte in each round, so as many rounds as there
  are bytes are enough; \<open>levels\<close> is the number of nesting levels left, 129 at the root.
\<close>

fun skip_compound_loop ::
  "(nat \<Rightarrow> decoded \<Rightarrow> (bdx_error, unit \<times> decoded) result) \<Rightarrow> nat \<Rightarrow> decoded \<Rightarrow>
   (bdx_error, unit \<times> decoded) result" where
  "skip_compound_loop payload 0 d = Inl InputTruncated"
| "skip_compound_loop payload (Suc rounds) d =
     and_then (read_u8 d) (\<lambda>(type, d).
       if type = 0 then Inr ((), d)
       else and_then (read_u16_le d) (\<lambda>(key_length, d).
         and_then (as_reader (skip key_length) d) (\<lambda>(_, d).
           and_then (payload type d) (\<lambda>(_, d). skip_compound_loop payload rounds d))))"

fun skip_nbt_payload :: "nat \<Rightarrow> nat \<Rightarrow> decoded \<Rightarrow> (bdx_error, unit \<times> decoded) result" where
  "skip_nbt_payload 0 type d = Inl NbtTooDeep"
| "skip_nbt_payload (Suc levels) type d =
    (if type = 1 then as_reader (skip 1) d
     else if type = 2 then as_reader (skip 2) d
     else if type = 3 then as_reader (skip 4) d
     else if type = 4 then as_reader (skip 8) d
     else if type = 5 then as_reader (skip 4) d
     else if type = 6 then as_reader (skip 8) d
     else if type = 7 then and_then (read_u32_le d) (\<lambda>(n, d). as_reader (skip n) d)
     else if type = 8 then and_then (read_u16_le d) (\<lambda>(n, d). as_reader (skip n) d)
     else if type = 9 then
       and_then (read_u8 d) (\<lambda>(element_type, d). and_then (read_u32_le d) (\<lambda>(count, d).
         and_then (repeat_read (skip_nbt_payload levels element_type) count d) (\<lambda>(_, d). Inr ((), d))))
     else if type = 10 then
       skip_compound_loop (skip_nbt_payload levels) (Suc (length (input_bytes d))) d
     else if type = 11 then and_then (read_u32_le d) (\<lambda>(n, d). as_reader (skip (n * 4)) d)
     else if type = 12 then and_then (read_u32_le d) (\<lambda>(n, d). as_reader (skip (n * 8)) d)
     else Inl (NbtTypeInvalid type))"

definition skip_nbt_compound :: "decoded \<Rightarrow> (bdx_error, unit \<times> decoded) result" where
  "skip_nbt_compound d =
    and_then (read_u8 d) (\<lambda>(type, d).
      if type \<noteq> 10 then Inl NbtRootNotCompound
      else and_then (read_u16_le d) (\<lambda>(n, d). and_then (as_reader (skip n) d) (\<lambda>(_, d).
        skip_nbt_payload 129 type d)))"

text \<open>libnbt's \<open>read_compound\<close>, as a function of the bytes: the compound and the bytes consumed.\<close>

type_synonym nbt_reader = "byte list \<Rightarrow> (bdx_error, compound \<times> nat) result"

definition read_block_nbt :: "nbt_reader \<Rightarrow> decoded \<Rightarrow> (bdx_error, compound \<times> decoded) result" where
  "read_block_nbt read_nbt d =
    and_then (read_nbt (input_bytes d)) (\<lambda>(c, n). and_then (skip n d) (\<lambda>d. Inr (c, d)))"

section \<open>The commands\<close>

datatype axis = AxisX | AxisY | AxisZ
datatype delta_width = Step int | Int8 | Int16 | Int32

definition move_commands :: "(nat \<times> axis \<times> delta_width) list" where
  "move_commands =
    [(6, AxisZ, Int16), (8, AxisZ, Step 1), (12, AxisZ, Int32), (14, AxisX, Step 1),
     (15, AxisX, Step (-1)), (16, AxisY, Step 1), (17, AxisY, Step (-1)), (18, AxisZ, Step 1),
     (19, AxisZ, Step (-1)), (20, AxisX, Int16), (21, AxisX, Int32), (22, AxisY, Int16),
     (23, AxisY, Int32), (24, AxisZ, Int16), (25, AxisZ, Int32), (28, AxisX, Int8),
     (29, AxisY, Int8), (30, AxisZ, Int8)]"

definition read_delta :: "delta_width \<Rightarrow> decoded \<Rightarrow> (bdx_error, int \<times> decoded) result" where
  "read_delta w d =
    (case w of Step n \<Rightarrow> Inr (n, d) | Int8 \<Rightarrow> read_i8 d | Int16 \<Rightarrow> read_i16 d | Int32 \<Rightarrow> read_i32 d)"

text \<open>Where the runtime id of a placed block comes from.\<close>

datatype block_source = ByState nat nat | ByLegacy nat nat | ByPool nat | ByText nat string
  | ByCommandBlock nat nat

datatype instr = DefineConstant string | SkipConstant | Place block_source "compound option"
  | StoreEntity compound | MoveCursor axis int | SetPool nat | Pass | Terminate

definition read_place ::
  "(decoded \<Rightarrow> (bdx_error, block_source \<times> decoded) result) \<Rightarrow>
   (decoded \<Rightarrow> (bdx_error, compound option \<times> decoded) result) \<Rightarrow>
   decoded \<Rightarrow> (bdx_error, instr \<times> decoded) result" where
  "read_place source entity d =
    and_then (source d) (\<lambda>(s, d). and_then (entity d) (\<lambda>(e, d). Inr (Place s e, d)))"

definition two_u16 :: "(nat \<Rightarrow> nat \<Rightarrow> 'a) \<Rightarrow> decoded \<Rightarrow> (bdx_error, 'a \<times> decoded) result" where
  "two_u16 f d = and_then (read_u16 d) (\<lambda>(a, d). and_then (read_u16 d) (\<lambda>(b, d). Inr (f a b, d)))"

definition pool_u16 :: "decoded \<Rightarrow> (bdx_error, block_source \<times> decoded) result" where
  "pool_u16 d = and_then (read_u16 d) (\<lambda>(i, d). Inr (ByPool i, d))"

definition pool_u32 :: "decoded \<Rightarrow> (bdx_error, block_source \<times> decoded) result" where
  "pool_u32 d = and_then (read_u32 d) (\<lambda>(i, d). Inr (ByPool i, d))"

definition no_entity :: "decoded \<Rightarrow> (bdx_error, compound option \<times> decoded) result" where
  "no_entity d = Inr (None, d)"

definition command_entity :: "decoded \<Rightarrow> (bdx_error, compound option \<times> decoded) result" where
  "command_entity d = and_then (read_command_block_data d) (\<lambda>(cb, d). Inr (Some (command_block_nbt cb), d))"

definition chest_entity :: "decoded \<Rightarrow> (bdx_error, compound option \<times> decoded) result" where
  "chest_entity d = and_then (read_chest_nbt d) (\<lambda>(c, d). Inr (Some c, d))"

text \<open>
  What a command reads in full mode, and in bounds mode. A block placed by command 36 has the
  mode of its command block data, so its source is known behind that data.
\<close>

definition read_full :: "nbt_reader \<Rightarrow> nat \<Rightarrow> decoded \<Rightarrow> (bdx_error, instr \<times> decoded) result" where
  "read_full read_nbt cmd d =
    (if cmd = 1 then and_then (read_cstring kMaximumConstantStringBytes d) (\<lambda>(s, d). Inr (DefineConstant s, d))
     else if cmd = 5 then read_place (two_u16 ByState) no_entity d
     else if cmd = 7 then read_place (two_u16 ByLegacy) no_entity d
     else if cmd = 13 then
       and_then (read_u16 d) (\<lambda>(n, d). and_then (read_cstring kMaximumConstantStringBytes d) (\<lambda>(s, d).
         Inr (Place (ByText n s) None, d)))
     else if cmd = 26 then
       and_then (read_command_block_data d) (\<lambda>(cb, d). Inr (StoreEntity (command_block_nbt cb), d))
     else if cmd = 27 then read_place (two_u16 ByLegacy) command_entity d
     else if cmd = 32 then read_place pool_u16 no_entity d
     else if cmd = 34 then read_place pool_u16 command_entity d
     else if cmd = 35 then read_place pool_u32 command_entity d
     else if cmd = 36 then
       and_then (read_u16 d) (\<lambda>(data, d). and_then (read_command_block_data d) (\<lambda>(cb, d).
         if 2 < cb_mode cb then Inl CommandModeOutOfRange
         else Inr (Place (ByCommandBlock (cb_mode cb) data) (Some (command_block_nbt cb)), d)))
     else if cmd = 37 then read_place pool_u16 chest_entity d
     else if cmd = 38 then read_place pool_u32 chest_entity d
     else if cmd = 40 then read_place (two_u16 ByLegacy) chest_entity d
     else if cmd = 41 then
       read_place (\<lambda>d. and_then (two_u16 ByState d) (\<lambda>(s, d). and_then (read_u16 d) (\<lambda>(_, d). Inr (s, d))))
         (\<lambda>d. and_then (read_block_nbt read_nbt d) (\<lambda>(c, d). Inr (Some c, d))) d
     else Inl (UnknownCommand cmd))"

definition read_bounds :: "nat \<Rightarrow> decoded \<Rightarrow> (bdx_error, instr \<times> decoded) result" where
  "read_bounds cmd d =
    (if cmd = 1 then and_then (as_reader skip_cstring d) (\<lambda>(_, d). Inr (SkipConstant, d))
     else and_then
      (if cmd = 5 \<or> cmd = 7 then as_reader (skip 4) d
       else if cmd = 13 then and_then (as_reader (skip 2) d) (\<lambda>(_, d). as_reader skip_cstring d)
       else if cmd = 26 then as_reader skip_command_block_data d
       else if cmd = 27 \<or> cmd = 35 then
         and_then (as_reader (skip 4) d) (\<lambda>(_, d). as_reader skip_command_block_data d)
       else if cmd = 32 then as_reader (skip 2) d
       else if cmd = 34 \<or> cmd = 36 then
         and_then (as_reader (skip 2) d) (\<lambda>(_, d). as_reader skip_command_block_data d)
       else if cmd = 37 then and_then (as_reader (skip 2) d) (\<lambda>(_, d). as_reader skip_chest_nbt d)
       else if cmd = 38 \<or> cmd = 40 then
         and_then (as_reader (skip 4) d) (\<lambda>(_, d). as_reader skip_chest_nbt d)
       else if cmd = 41 then and_then (as_reader (skip 6) d) (\<lambda>(_, d). skip_nbt_compound d)
       else Inl (UnknownCommand cmd))
      (\<lambda>(_, d). Inr (Pass, d)))"

definition read_command :: "nbt_reader \<Rightarrow> bool \<Rightarrow> nat \<Rightarrow> decoded \<Rightarrow> (bdx_error, instr \<times> decoded) result" where
  "read_command read_nbt bounds_only cmd d =
    (case map_of move_commands cmd of
       Some (ax, w) \<Rightarrow> and_then (read_delta w d) (\<lambda>(n, d). Inr (MoveCursor ax n, d))
     | None \<Rightarrow>
         if cmd = 9 then Inr (Pass, d)
         else if cmd = 31 then and_then (read_u8 d) (\<lambda>(p, d). Inr (SetPool p, d))
         else if cmd = 33 then and_then (read_u32 d) (\<lambda>(_, d). Inr (Pass, d))
         else if cmd = 39 then
           and_then (read_u32 d) (\<lambda>(n, d). and_then (as_reader (skip n) d) (\<lambda>(_, d). Inr (Pass, d)))
         else if cmd = 88 then Inr (Terminate, d)
         else if bounds_only then read_bounds cmd d else read_full read_nbt cmd d)"

section \<open>All operands respect the bytes\<close>

lemma as_reader_and_then:
  "as_reader (\<lambda>d. and_then (f d) g) d = and_then (f d) (as_reader g)"
  by (cases "f d") (simp_all add: as_reader_def)

lemma as_reader_skip_command_block:
  "as_reader skip_command_block_data d =
    and_then (as_reader (skip 4) d) (\<lambda>(_, d). and_then (as_reader skip_cstring d) (\<lambda>(_, d).
    and_then (as_reader skip_cstring d) (\<lambda>(_, d). and_then (as_reader skip_cstring d) (\<lambda>(_, d).
    as_reader (skip 8) d))))"
  by (simp add: as_reader_def skip_command_block_data_def and_then_assoc)

lemma reads_repeat [reads]: "reads_bytes f \<Longrightarrow> reads_bytes (repeat_read f n)"
proof (induction n)
  case 0
  then show ?case by (simp add: reads_bytes_def)
next
  case (Suc n)
  have "repeat_read f (Suc n) =
      (\<lambda>d. and_then (f d) (\<lambda>(v, d). and_then (repeat_read f n d) (\<lambda>(vs, d). Inr (v # vs, d))))"
    by (rule ext) simp
  with Suc show ?case by (simp only:) (intro reads_and_then reads_return; simp)
qed

lemma reads_command_block [reads]: "reads_bytes read_command_block_data"
  unfolding read_command_block_data_def by (intro reads)

lemma reads_chest [reads]: "reads_bytes read_chest_nbt"
  unfolding read_chest_nbt_def read_chest_item_def by (intro reads)

lemma reads_skip_command_block [reads]: "reads_bytes (as_reader skip_command_block_data)"
  unfolding as_reader_skip_command_block [abs_def] by (intro reads)

lemma as_reader_skip_chest:
  "as_reader skip_chest_nbt d =
    and_then (read_u8 d) (\<lambda>(count, d).
      and_then (repeat_read (\<lambda>d. and_then (as_reader skip_cstring d) (\<lambda>(_, d). as_reader (skip 4) d)) count d)
        (\<lambda>(_, d). Inr ((), d)))"
  by (simp add: as_reader_def skip_chest_nbt_def and_then_assoc case_prod_unfold)

lemma reads_skip_chest [reads]: "reads_bytes (as_reader skip_chest_nbt)"
  unfolding as_reader_skip_chest [abs_def] by (intro reads)

lemma reads_compound_loop:
  assumes "\<And>t. reads_bytes (payload t)"
  shows "reads_bytes (skip_compound_loop payload n)"
proof (induction n)
  case 0
  have "skip_compound_loop payload 0 = (\<lambda>d. Inl InputTruncated)" by (rule ext) simp
  then show ?case by (simp add: reads_fail)
next
  case (Suc n)
  have "skip_compound_loop payload (Suc n) =
      (\<lambda>d. and_then (read_u8 d) (\<lambda>(type, d).
        if type = 0 then Inr ((), d)
        else and_then (read_u16_le d) (\<lambda>(key_length, d).
          and_then (as_reader (skip key_length) d) (\<lambda>(_, d).
            and_then (payload type d) (\<lambda>(_, d). skip_compound_loop payload n d)))))"
    by (rule ext) simp
  then show ?case by (simp only:) (intro reads assms Suc)
qed

text \<open>A reader that is chosen by the bytes.\<close>

lemma reads_by_bytes:
  assumes "\<And>x. reads_bytes (f x)"
  shows "reads_bytes (\<lambda>d. f (g (input_bytes d)) d)"
  using assms unfolding reads_bytes_def by simp

lemma reads_skip_payload: "reads_bytes (skip_nbt_payload levels t)"
proof (induction levels arbitrary: t)
  case 0
  have "skip_nbt_payload 0 t = (\<lambda>d. Inl NbtTooDeep)" by (rule ext) simp
  then show ?case by (simp add: reads_fail)
next
  case (Suc levels)
  have "reads_bytes (\<lambda>d. skip_compound_loop (skip_nbt_payload levels) (Suc (length (input_bytes d))) d)"
    using reads_by_bytes [where f = "skip_compound_loop (skip_nbt_payload levels)" and g = "\<lambda>b. Suc (length b)"]
      reads_compound_loop [of "skip_nbt_payload levels"] Suc by blast
  note r = reads this Suc
  show ?case unfolding skip_nbt_payload.simps(2) [abs_def] by (intro r)
qed

lemma reads_skip_nbt [reads]: "reads_bytes skip_nbt_compound"
  unfolding skip_nbt_compound_def [abs_def] by (intro reads reads_skip_payload)

lemma reads_delta [reads]: "reads_bytes (read_delta w)"
  by (cases w) (simp_all add: read_delta_def [abs_def] reads)

lemma reads_block_nbt [reads]: "reads_bytes (read_block_nbt read_nbt)"
proof -
  have "reads_bytes (\<lambda>d. and_then r (\<lambda>(c, n). and_then (as_reader (skip n) d) (\<lambda>(_, d). Inr (c, d))))" for r
    by (cases r) (auto intro!: reads)
  from reads_by_bytes [OF this, where g = read_nbt] show ?thesis
    unfolding read_block_nbt_def [abs_def] as_reader_def and_then_assoc by simp
qed

lemma reads_place [reads]:
  "reads_bytes source \<Longrightarrow> reads_bytes entity \<Longrightarrow> reads_bytes (read_place source entity)"
  unfolding read_place_def [abs_def] by (intro reads)

lemma reads_sources [reads]:
  "reads_bytes (two_u16 f)" "reads_bytes pool_u16" "reads_bytes pool_u32" "reads_bytes no_entity"
  "reads_bytes command_entity" "reads_bytes chest_entity"
  unfolding two_u16_def [abs_def] pool_u16_def [abs_def] pool_u32_def [abs_def] no_entity_def [abs_def]
    command_entity_def [abs_def] chest_entity_def [abs_def]
  by (intro reads)+

lemma reads_full: "reads_bytes (read_full read_nbt cmd)"
  unfolding read_full_def [abs_def] by (intro reads)

lemma reads_bounds: "reads_bytes (read_bounds cmd)"
  unfolding read_bounds_def [abs_def] by (intro reads)

lemma reads_command [reads]: "reads_bytes (read_command read_nbt b cmd)"
proof (cases "map_of move_commands cmd")
  case None
  then show ?thesis unfolding read_command_def [abs_def]
    by simp (intro reads reads_full reads_bounds)
next
  case (Some m)
  then show ?thesis unfolding read_command_def [abs_def]
    by (cases m) (simp, intro reads)
qed

section \<open>Bounds mode skips what the full mode reads\<close>

text \<open>
  A skipper matches a reader when it succeeds wherever the reader does and leaves the same
  bytes.
\<close>

definition matches ::
  "(decoded \<Rightarrow> (bdx_error, 'u \<times> decoded) result) \<Rightarrow> (decoded \<Rightarrow> (bdx_error, 'v \<times> decoded) result) \<Rightarrow> bool" where
  "matches s f \<longleftrightarrow>
    (\<forall>d v d'. decoded_ok d \<longrightarrow> f d = Inr (v, d') \<longrightarrow>
      (\<exists>u d''. s d = Inr (u, d'') \<and> input_bytes d'' = input_bytes d'))"

text \<open>A reader of a fixed length.\<close>

definition fixed :: "nat \<Rightarrow> (decoded \<Rightarrow> (bdx_error, 'v \<times> decoded) result) \<Rightarrow> bool" where
  "fixed n f \<longleftrightarrow>
    (\<forall>d v d'. decoded_ok d \<longrightarrow> f d = Inr (v, d') \<longrightarrow>
      (\<exists>p. length p = n \<and> input_bytes d = p @ input_bytes d') \<and> decoded_ok d')"

lemma flat_cong:
  assumes "reads_bytes f" "decoded_ok d" "decoded_ok e"
    and "input_bytes d = input_bytes e" "fault d = fault e"
    and "f d = Inr (v, d')"
  shows "\<exists>e'. f e = Inr (v, e') \<and> input_bytes e' = input_bytes d' \<and> fault e' = fault d'"
proof -
  have "flat d = flat e" using assms by (simp add: flat_def)
  then have "flat_result (f e) = Inr (v, flat d')"
    using reads_bytesD(1) [OF assms(1,2)] reads_bytesD(1) [OF assms(1,3)] assms(6) by simp
  then obtain e' where "f e = Inr (v, e')" "flat e' = flat d'"
    by (cases "f e") (auto simp: flat_result_def)
  then show ?thesis by (auto simp: flat_def)
qed

lemma matchesD:
  "matches s f \<Longrightarrow> decoded_ok d \<Longrightarrow> f d = Inr (v, d') \<Longrightarrow>
   \<exists>u d''. s d = Inr (u, d'') \<and> input_bytes d'' = input_bytes d'"
  by (simp add: matches_def)

lemma matches_seq:
  assumes st: "matches s f" "reads_bytes s" "reads_bytes f"
    and tg: "\<And>u v. matches (t u) (g v)" "\<And>v. reads_bytes (g v)" "\<And>u. reads_bytes (t u)"
  shows "matches (\<lambda>d. and_then (s d) (\<lambda>(u, d). t u d)) (\<lambda>d. and_then (f d) (\<lambda>(v, d). g v d))"
  unfolding matches_def
proof (intro allI impI)
  fix d w d'
  assume ok: "decoded_ok d" and "and_then (f d) (\<lambda>(v, d). g v d) = Inr (w, d')"
  then obtain v e where fe: "f d = Inr (v, e)" and ge: "g v e = Inr (w, d')"
    by (auto simp: and_then_eq_Inr_iff)
  from matchesD [OF st(1) ok fe] obtain u e' where se: "s d = Inr (u, e')"
    and same: "input_bytes e' = input_bytes e" by blast
  have oks: "decoded_ok e" "decoded_ok e'" and faults: "fault e = fault d" "fault e' = fault d"
    using reads_bytesD(3,4) [OF st(3) ok fe] reads_bytesD(3,4) [OF st(2) ok se] by simp_all
  from matchesD [OF tg(1) oks(1) ge] obtain u' e'' where te: "t u e = Inr (u', e'')"
    and "input_bytes e'' = input_bytes d'" by blast
  moreover from flat_cong [OF tg(3) oks same [symmetric] _ te] faults obtain e3 where
    "t u e' = Inr (u', e3)" "input_bytes e3 = input_bytes e''" by auto
  ultimately show "\<exists>u d''. and_then (s d) (\<lambda>(u, d). t u d) = Inr (u, d'') \<and> input_bytes d'' = input_bytes d'"
    using se by auto
qed

lemma matches_value:
  "matches (\<lambda>d. and_then (s d) (\<lambda>(u, d). Inr (h u, d))) (\<lambda>d. and_then (f d) (\<lambda>(v, d). Inr (g v, d)))"
  if "matches s f"
  using that unfolding matches_def by (fastforce simp: and_then_eq_Inr_iff)

lemma matches_read_value: "matches s f \<Longrightarrow> matches s (\<lambda>d. and_then (f d) (\<lambda>(v, d). Inr (g v, d)))"
  unfolding matches_def by (fastforce simp: and_then_eq_Inr_iff)

lemma fixed_exact: "fixed n (read_exact n)"
  unfolding fixed_def
proof (intro allI impI)
  fix d v d'
  assume ok: "decoded_ok d" and r: "read_exact n d = Inr (v, d')"
  then have "decoded_ok d'" using reads_bytesD(4) [OF reads_exact] by blast
  moreover from r obtain a p where l: "take_loop n (area d) (pending d) = Some (v, a, p)"
    and d': "d' = d\<lparr>area := a, pending := p\<rparr>" by (auto simp: read_exact_def split: option.splits)
  ultimately show "(\<exists>p. length p = n \<and> input_bytes d = p @ input_bytes d') \<and> decoded_ok d'"
    using take_loop_bytes [OF l] d' by (auto simp: input_bytes_def)
qed

lemma fixed_seq:
  assumes "fixed m f" and "\<And>v. fixed n (g v)"
  shows "fixed (m + n) (\<lambda>d. and_then (f d) (\<lambda>(v, d). g v d))"
  unfolding fixed_def
proof (intro allI impI)
  fix d w d'
  assume ok: "decoded_ok d" and "and_then (f d) (\<lambda>(v, d). g v d) = Inr (w, d')"
  then obtain v e where fe: "f d = Inr (v, e)" and ge: "g v e = Inr (w, d')"
    by (auto simp: and_then_eq_Inr_iff)
  from assms(1) ok fe obtain p where p: "length p = m" "input_bytes d = p @ input_bytes e" "decoded_ok e"
    unfolding fixed_def by blast
  from assms(2) [of v] this(3) ge obtain q where "length q = n" "input_bytes e = q @ input_bytes d'" "decoded_ok d'"
    unfolding fixed_def by blast
  with p show "(\<exists>p. length p = m + n \<and> input_bytes d = p @ input_bytes d') \<and> decoded_ok d'"
    by (auto intro!: exI [of _ "p @ q"])
qed

lemma fixed_value: "fixed m f \<Longrightarrow> fixed m (\<lambda>d. and_then (f d) (\<lambda>(v, d). Inr (g v, d)))"
  unfolding fixed_def by (fastforce simp: and_then_eq_Inr_iff)

lemma fixed_u8: "fixed 1 read_u8"
  unfolding fixed_def
proof (intro allI impI)
  fix d v d'
  assume ok: "decoded_ok d" and "read_u8 d = Inr (v, d')"
  then obtain b where "try_u8 d = Inr (Some b, d')"
    by (auto simp: read_u8_def and_then_eq_Inr_iff split: option.splits)
  from try_u8_reads [OF this ok]
  show "(\<exists>p. length p = 1 \<and> input_bytes d = p @ input_bytes d') \<and> decoded_ok d'"
    by (auto intro!: exI [of _ "[b]"])
qed

lemma fixed_numbers: "fixed 2 read_u16" "fixed 4 read_u32" "fixed 4 read_i32"
  unfolding read_u16_def [abs_def] read_u32_def [abs_def] read_i32_def [abs_def]
  by (intro fixed_value fixed_exact)+

lemma skip_bytes:
  assumes "decoded_ok d" and "n \<le> length (input_bytes d)"
  shows "\<exists>d'. as_reader (skip n) d = Inr ((), d') \<and> input_bytes d' = drop n (input_bytes d)"
proof -
  have "read_exact n (flat d) = Inr (take n (input_bytes d), flat d\<lparr>area := drop n (input_bytes d)\<rparr>)"
    using assms(2) by (simp add: read_exact_def)
  then have "as_reader (skip n) (flat d) = Inr ((), flat d\<lparr>area := drop n (input_bytes d)\<rparr>)"
    by (simp add: as_reader_def skip_def)
  then obtain d' where "as_reader (skip n) d = Inr ((), d')" "flat d' = flat d\<lparr>area := drop n (input_bytes d)\<rparr>"
    using reads_bytesD(1) [OF reads_skip assms(1), of n] by (cases "as_reader (skip n) d") auto
  then show ?thesis by (metis append_Nil2 concat.simps(1) flat_simps(2,4) input_bytes_def
        decoded.select_convs(1) decoded.update_convs(1) decoded.surjective decoded.select_convs(2))
qed

lemma matches_skip: "fixed n f \<Longrightarrow> matches (as_reader (skip n)) f"
  unfolding matches_def fixed_def by (metis append_eq_conv_conj le_add1 length_append skip_bytes)

lemma matches_cstring: "matches (as_reader skip_cstring) (read_cstring m)"
  unfolding matches_def
proof (intro allI impI)
  fix d v d'
  assume ok: "decoded_ok d" and "read_cstring m d = Inr (v, d')"
  then obtain w a p where l: "cstring_loop m 0 (area d) (pending d) = Inr (w, a, p)"
    and d': "d' = d\<lparr>area := a, pending := p\<rparr>"
    by (auto simp: read_cstring_def split: sum.splits)
  with cstring_loop_bytes [OF l] have bytes: "input_bytes d = w @ 0 # input_bytes d'" "0 \<notin> set w"
    by (simp_all add: input_bytes_def)
  then have "skip_cstring_loop (area d) (pending d) \<noteq> None"
    unfolding skip_cstring_loop_none by (simp add: input_bytes_def [symmetric])
  then obtain a' p' where s: "skip_cstring_loop (area d) (pending d) = Some (a', p')" by auto
  let ?e = "d\<lparr>area := a', pending := p'\<rparr>"
  from skip_cstring_loop_bytes [OF s] obtain x where
    "input_bytes d = x @ 0 # input_bytes ?e" "0 \<notin> set x" by (auto simp: input_bytes_def)
  with bytes have "input_bytes ?e = input_bytes d'" using first_zero_unique by metis
  then show "\<exists>u d''. as_reader skip_cstring d = Inr (u, d'') \<and> input_bytes d'' = input_bytes d'"
    using s by (simp add: as_reader_def skip_cstring_def)
qed

lemma matches_repeat:
  assumes "matches s f" "reads_bytes s" "reads_bytes f"
  shows "matches (repeat_read s n) (repeat_read f n)"
proof (induction n)
  case 0
  then show ?case by (simp add: matches_def)
next
  case (Suc n)
  then show ?case
    unfolding repeat_read.simps(2) [abs_def] by (intro matches_seq matches_value assms reads)
qed

text \<open>Both sides may read a length first.\<close>

lemma matches_same:
  assumes "reads_bytes f" and "\<And>v. matches (s v) (g v)"
  shows "matches (\<lambda>d. and_then (f d) (\<lambda>(v, d). s v d)) (\<lambda>d. and_then (f d) (\<lambda>(v, d). g v d))"
  using assms reads_bytesD(4) [OF assms(1)] unfolding matches_def
  by (fastforce simp: and_then_eq_Inr_iff)

lemma matches_command_block: "matches (as_reader skip_command_block_data) read_command_block_data"
proof -
  have "fixed (4 + (1 + (1 + (1 + 1)))) (\<lambda>d.
    and_then (read_i32 d) (\<lambda>(tick_delay, d). and_then (read_u8 d) (\<lambda>(execute, d).
    and_then (read_u8 d) (\<lambda>(track, d). and_then (read_u8 d) (\<lambda>(conditional, d).
    and_then (read_u8 d) (\<lambda>(redstone, d). Inr (g tick_delay execute track conditional redstone, d)))))))" for g
    by (intro fixed_seq fixed_numbers fixed_u8 fixed_value)
  then have tail: "matches (as_reader (skip 8)) (\<lambda>d.
    and_then (read_i32 d) (\<lambda>(tick_delay, d). and_then (read_u8 d) (\<lambda>(execute, d).
    and_then (read_u8 d) (\<lambda>(track, d). and_then (read_u8 d) (\<lambda>(conditional, d).
    and_then (read_u8 d) (\<lambda>(redstone, d). Inr (g tick_delay execute track conditional redstone, d)))))))" for g
    by (intro matches_skip) simp
  show ?thesis
    unfolding as_reader_skip_command_block [abs_def] read_command_block_data_def [abs_def]
    by (intro matches_seq matches_skip fixed_numbers matches_cstring tail reads)
qed

lemma matches_chest: "matches (as_reader skip_chest_nbt) read_chest_nbt"
proof -
  have "fixed (1 + (2 + 1)) (\<lambda>d.
    and_then (read_u8 d) (\<lambda>(count, d). and_then (read_u16 d) (\<lambda>(damage, d).
    and_then (read_u8 d) (\<lambda>(slot, d). Inr (g count damage slot, d)))))" for g
    by (intro fixed_seq fixed_numbers fixed_u8 fixed_value)
  then have tail: "matches (as_reader (skip 4)) (\<lambda>d.
    and_then (read_u8 d) (\<lambda>(count, d). and_then (read_u16 d) (\<lambda>(damage, d).
    and_then (read_u8 d) (\<lambda>(slot, d). Inr (g count damage slot, d)))))" for g
    by (intro matches_skip) simp
  have item: "matches (\<lambda>d. and_then (as_reader skip_cstring d) (\<lambda>(_, d). as_reader (skip 4) d)) read_chest_item"
    unfolding read_chest_item_def [abs_def] by (intro matches_seq matches_cstring tail reads)
  have "matches (repeat_read (\<lambda>d. and_then (as_reader skip_cstring d) (\<lambda>(_, d). as_reader (skip 4) d)) n)
      (repeat_read read_chest_item n)" for n
    by (rule matches_repeat [OF item]) (simp_all add: reads read_chest_item_def [abs_def])
  then show ?thesis
    unfolding as_reader_skip_chest [abs_def] read_chest_nbt_def [abs_def]
    by (intro matches_same matches_value reads)
qed

text \<open>
  What the reader relies on of libnbt's \<open>read_compound\<close>: it consumes the bytes of one compound
  in the little endian NBT format, the ones \<open>skip_nbt_compound\<close> walks over.
\<close>

definition nbt_agrees :: "nbt_reader \<Rightarrow> bool" where
  "nbt_agrees read_nbt \<longleftrightarrow>
    (\<forall>bytes c n fl. read_nbt bytes = Inr (c, n) \<longrightarrow> n \<le> length bytes \<and>
      (\<exists>d'. skip_nbt_compound \<lparr>area = bytes, pending = [], fault = fl\<rparr> = Inr ((), d') \<and>
        input_bytes d' = drop n bytes))"

lemma matches_nbt:
  assumes "nbt_agrees read_nbt"
  shows "matches skip_nbt_compound (read_block_nbt read_nbt)"
  unfolding matches_def
proof (intro allI impI)
  fix d v d'
  assume ok: "decoded_ok d" and "read_block_nbt read_nbt d = Inr (v, d')"
  then obtain n where r: "read_nbt (input_bytes d) = Inr (v, n)" and "skip n d = Inr d'"
    by (auto simp: read_block_nbt_def and_then_eq_Inr_iff)
  then have s: "as_reader (skip n) d = Inr ((), d')" by (simp add: as_reader_def)
  have le: "n \<le> length (input_bytes d)" and "\<exists>e. skip_nbt_compound (flat d) = Inr ((), e) \<and>
      input_bytes e = drop n (input_bytes d)"
    using assms r unfolding nbt_agrees_def flat_def by blast+
  then obtain e where e: "skip_nbt_compound (flat d) = Inr ((), e)" "input_bytes e = drop n (input_bytes d)"
    by blast
  from reads_bytesD(1) [OF reads_skip_nbt ok] e obtain d'' where
    "skip_nbt_compound d = Inr ((), d'')" "flat d'' = e" by (cases "skip_nbt_compound d") auto
  moreover have "input_bytes d' = drop n (input_bytes d)" using skip_bytes [OF ok le] s by auto
  ultimately show "\<exists>u d''. skip_nbt_compound d = Inr (u, d'') \<and> input_bytes d'' = input_bytes d'"
    using e(2) by auto
qed

lemma fixed_two: "fixed 4 (two_u16 f)"
proof -
  have "fixed (2 + 2) (two_u16 f)"
    unfolding two_u16_def [abs_def] by (intro fixed_seq fixed_value fixed_numbers)
  then show ?thesis by simp
qed

lemma fixed_pools: "fixed 2 pool_u16" "fixed 4 pool_u32"
  unfolding pool_u16_def [abs_def] pool_u32_def [abs_def] by (intro fixed_value fixed_numbers)+

lemma matches_place_none: "matches s src \<Longrightarrow> matches s (read_place src no_entity)"
  by (fastforce simp: matches_def read_place_def no_entity_def and_then_eq_Inr_iff)

lemma matches_place:
  assumes "matches s src" "matches t ent" "reads_bytes s" "reads_bytes t" "reads_bytes src" "reads_bytes ent"
  shows "matches (\<lambda>d. and_then (s d) (\<lambda>(_, d). t d)) (read_place src ent)"
  unfolding read_place_def [abs_def] by (intro matches_seq matches_read_value assms reads)

lemma matches_entities:
  "matches (as_reader skip_command_block_data) command_entity"
  "matches (as_reader skip_chest_nbt) chest_entity"
  unfolding command_entity_def [abs_def] chest_entity_def [abs_def]
  by (intro matches_read_value matches_command_block matches_chest)+

lemma matches_36:
  "matches (\<lambda>d. and_then (as_reader (skip 2) d) (\<lambda>(_, d). as_reader skip_command_block_data d))
    (\<lambda>d. and_then (read_u16 d) (\<lambda>(data, d). and_then (read_command_block_data d) (\<lambda>(cb, d).
       if 2 < cb_mode cb then Inl CommandModeOutOfRange
       else Inr (Place (ByCommandBlock (cb_mode cb) data) (Some (command_block_nbt cb)), d))))"
proof -
  have "matches (as_reader skip_command_block_data)
      (\<lambda>d. and_then (read_command_block_data d) (\<lambda>(cb, d).
       if 2 < cb_mode cb then Inl CommandModeOutOfRange
       else Inr (Place (ByCommandBlock (cb_mode cb) data) (Some (command_block_nbt cb)), d)))" for data
    using matches_command_block unfolding matches_def
    by (fastforce simp: and_then_eq_Inr_iff split: if_splits)
  then show ?thesis by (intro matches_seq matches_skip fixed_numbers reads)
qed

lemma matches_13:
  "matches (\<lambda>d. and_then (as_reader (skip 2) d) (\<lambda>(_, d). as_reader skip_cstring d))
    (\<lambda>d. and_then (read_u16 d) (\<lambda>(n, d). and_then (read_cstring m d) (\<lambda>(s, d). Inr (g n s, d))))"
  by (intro matches_seq matches_skip fixed_numbers matches_read_value matches_cstring reads)

lemma matches_41:
  assumes "nbt_agrees read_nbt"
  shows "matches (\<lambda>d. and_then (as_reader (skip 6) d) (\<lambda>(_, d). skip_nbt_compound d))
    (read_place (\<lambda>d. and_then (two_u16 ByState d) (\<lambda>(s, d). and_then (read_u16 d) (\<lambda>(_, d). Inr (s, d))))
       (\<lambda>d. and_then (read_block_nbt read_nbt d) (\<lambda>(c, d). Inr (Some c, d))))"
proof -
  have "fixed (4 + 2) (\<lambda>d. and_then (two_u16 ByState d) (\<lambda>(s, d). and_then (read_u16 d) (\<lambda>(_, d). Inr (s, d))))"
    by (intro fixed_seq fixed_two fixed_value fixed_numbers)
  then have "matches (as_reader (skip 6))
      (\<lambda>d. and_then (two_u16 ByState d) (\<lambda>(s, d). and_then (read_u16 d) (\<lambda>(_, d). Inr (s, d))))"
    by (intro matches_skip) simp
  then show ?thesis by (intro matches_place matches_read_value matches_nbt assms reads)
qed

definition skipped_instr :: "nat \<Rightarrow> instr" where
  "skipped_instr cmd = (if cmd = 1 then SkipConstant else Pass)"

lemma matches_const: "matches s f \<Longrightarrow> matches (\<lambda>d. and_then (s d) (\<lambda>(_, d). Inr (c, d))) f"
  by (fastforce simp: matches_def and_then_eq_Inr_iff)

lemma matches_bounds:
  assumes "nbt_agrees read_nbt"
  shows "matches (read_bounds cmd) (read_full read_nbt cmd)"
proof -
  note m = matches_const matches_place_none matches_place matches_entities matches_read_value
    matches_command_block matches_cstring matches_skip fixed_two fixed_pools matches_13 matches_36
    matches_41 [OF assms] reads
  consider "cmd = 1" | "cmd = 5" | "cmd = 7" | "cmd = 13" | "cmd = 26" | "cmd = 27" | "cmd = 32"
    | "cmd = 34" | "cmd = 35" | "cmd = 36" | "cmd = 37" | "cmd = 38" | "cmd = 40" | "cmd = 41"
    | "cmd \<notin> {1, 5, 7, 13, 26, 27, 32, 34, 35, 36, 37, 38, 40, 41}" by blast
  then show ?thesis
  proof cases
    case 15
    then show ?thesis by (simp add: matches_def read_full_def)
  qed (simp only: read_bounds_def [abs_def] read_full_def [abs_def], simp cong: if_cong, intro m)+
qed

lemma skips_what_is_read:
  assumes "nbt_agrees read_nbt" and "decoded_ok d" and "read_full read_nbt cmd d = Inr (i, d')"
  shows "\<exists>d''. read_bounds cmd d = Inr (skipped_instr cmd, d'') \<and> input_bytes d'' = input_bytes d'"
proof -
  from matchesD [OF matches_bounds [OF assms(1)] assms(2,3)] obtain u d'' where
    r: "read_bounds cmd d = Inr (u, d'')" "input_bytes d'' = input_bytes d'" by blast
  from r(1) have "u = skipped_instr cmd"
    by (auto simp: read_bounds_def skipped_instr_def and_then_eq_Inr_iff split: if_splits)
  with r show ?thesis by blast
qed

end
