(* ===== verification/WS_BdxReader.thy ===== *)
theory WS_BdxReader
  imports WS_BdxCommands WS_Registry "HOL-Library.Sublist"
begin

text \<open>
  The BDX reader, \<open>BdxStructure::read\<close> of \<open>src/formats/bdx.cpp\<close>: the state of the command
  loop with its two runtime caches and the pool cache, the effect of each command, the
  bounds-only fast path, the Z run fast path and the loop that chooses among them, and the
  computation of the result. The consumers a caller installs are modelled by the log of the
  calls they receive. Profiling counters, and the command number and offset in the texts of
  errors, are left out.
\<close>

section \<open>State\<close>

definition kMaximumConstants :: nat where "kMaximumConstants = 65536"
definition kMaximumConstantBytes :: nat where "kMaximumConstantBytes = 67108864"
definition kMaximumMaterializedBlocks :: nat where "kMaximumMaterializedBlocks = 8000000"
definition kMaximumBlockEntities :: nat where "kMaximumBlockEntities = 1000000"
definition kMaximumRuntimeCacheEntries :: nat where "kMaximumRuntimeCacheEntries = 262144"

record bdx_env =
  bdx_registry :: registry
  serialize :: "compound \<Rightarrow> byte list"
  read_nbt :: nbt_reader
  bounds_only :: bool
  materialize :: bool
  capture_entities :: bool
  block_consumer :: bool
  run_consumer :: bool
  placement_consumer :: bool
  placement_run_consumer :: bool

datatype consumer_call = SingleCall block_pos runtime_id | RunCall block_pos "runtime_id list" bool

record bdx_state =
  bdx_in :: decoded
  constants :: "string list"
  constant_bytes :: nat
  legacy_cache :: "(nat, runtime_id) umap"
  state_cache :: "(nat, runtime_id) umap"
  state_direct :: "nat \<Rightarrow> (nat \<times> runtime_id) option"
  cached_pool_id :: nat
  cached_pool :: "runtime_id list"
  pool_id :: nat
  cursor :: block_pos
  low :: block_pos
  high :: block_pos
  command_index :: nat
  placed_blocks :: "(block_pos \<times> runtime_id) list"
  entity_map :: "(block_pos, nbt_payload) umap"
  non_air :: nat
  block_calls :: "consumer_call list"
  placement_calls :: "consumer_call list"

definition bdx_init :: "decoded \<Rightarrow> bdx_state" where
  "bdx_init d =
    \<lparr>bdx_in = d, constants = [], constant_bytes = 0, legacy_cache = [], state_cache = [],
     state_direct = (\<lambda>_. None), cached_pool_id = 255, cached_pool = [], pool_id = 0,
     cursor = BlockPos 0 0 0, low = BlockPos 0 0 0, high = BlockPos 0 0 0, command_index = 0,
     placed_blocks = [], entity_map = [], non_air = 0, block_calls = [], placement_calls = []\<rparr>"

abbreviation air :: "bdx_env \<Rightarrow> runtime_id" where
  "air env \<equiv> air_runtime_id (bdx_registry env)"

section \<open>Cursor and bounds\<close>

definition add_coordinate :: "int \<Rightarrow> int \<Rightarrow> (bdx_error, int) result" where
  "add_coordinate coordinate delta =
    (let value = coordinate + delta
     in if value < INT32_MIN \<or> INT32_MAX < value then Inl CursorOutOfRange else Inr value)"

definition move_cursor :: "axis \<Rightarrow> int \<Rightarrow> bdx_state \<Rightarrow> (bdx_error, bdx_state) result" where
  "move_cursor ax delta st =
    (let p = cursor st
     in and_then
       (case ax of
          AxisX \<Rightarrow> and_then (add_coordinate (pos_x p) delta) (\<lambda>v. Inr (BlockPos v (pos_y p) (pos_z p)))
        | AxisY \<Rightarrow> and_then (add_coordinate (pos_y p) delta) (\<lambda>v. Inr (BlockPos (pos_x p) v (pos_z p)))
        | AxisZ \<Rightarrow> and_then (add_coordinate (pos_z p) delta) (\<lambda>v. Inr (BlockPos (pos_x p) (pos_y p) v)))
       (\<lambda>q. Inr (st\<lparr>cursor := q\<rparr>)))"

definition pos_min :: "block_pos \<Rightarrow> block_pos \<Rightarrow> block_pos" where
  "pos_min p q = BlockPos (min (pos_x p) (pos_x q)) (min (pos_y p) (pos_y q)) (min (pos_z p) (pos_z q))"

definition pos_max :: "block_pos \<Rightarrow> block_pos \<Rightarrow> block_pos" where
  "pos_max p q = BlockPos (max (pos_x p) (pos_x q)) (max (pos_y p) (pos_y q)) (max (pos_z p) (pos_z q))"

definition update_bounds :: "bdx_state \<Rightarrow> bdx_state" where
  "update_bounds st = st\<lparr>low := pos_min (low st) (cursor st), high := pos_max (high st) (cursor st)\<rparr>"

section \<open>Runtime ids\<close>

definition constant_string :: "nat \<Rightarrow> bdx_state \<Rightarrow> string option" where
  "constant_string i st = (if i < length (constants st) then Some (constants st ! i) else None)"

definition by_name_or_air :: "bdx_env \<Rightarrow> string \<Rightarrow> runtime_id" where
  "by_name_or_air env name =
    (case find_runtime (bdx_registry env) name [] 0 of Some r \<Rightarrow> r | None \<Rightarrow> air env)"

definition legacy_or_name :: "bdx_env \<Rightarrow> string \<Rightarrow> nat \<Rightarrow> runtime_id" where
  "legacy_or_name env name data =
    (case legacy_runtime_id (bdx_registry env) name data of
       Some r \<Rightarrow> r | None \<Rightarrow> by_name_or_air env name)"

definition cache_put :: "nat \<Rightarrow> runtime_id \<Rightarrow> (nat, runtime_id) umap \<Rightarrow> (nat, runtime_id) umap" where
  "cache_put key r cache =
    (if length cache < kMaximumRuntimeCacheEntries then umap_emplace key r cache else cache)"

definition legacy_runtime :: "bdx_env \<Rightarrow> nat \<Rightarrow> nat \<Rightarrow> bdx_state \<Rightarrow> runtime_id \<times> bdx_state" where
  "legacy_runtime env name_id data st =
    (let key = name_id * 65536 + data
     in case map_of (legacy_cache st) key of
          Some r \<Rightarrow> (r, st)
        | None \<Rightarrow>
            (case constant_string name_id st of
               None \<Rightarrow> (air env, st)
             | Some name \<Rightarrow>
                 let r = legacy_or_name env name data
                 in (r, st\<lparr>legacy_cache := cache_put key r (legacy_cache st)\<rparr>)))"

definition resolve_state_runtime ::
  "bdx_env \<Rightarrow> nat \<Rightarrow> string \<Rightarrow> bdx_state \<Rightarrow> (bdx_error, runtime_id) result" where
  "resolve_state_runtime env name_id text st =
    (case constant_string name_id st of
       None \<Rightarrow> Inr (air env)
     | Some name \<Rightarrow>
         and_then (parse_block_states text) (\<lambda>props.
           case legacy_state_runtime_id (bdx_registry env) name props of
             Some r \<Rightarrow> Inr r
           | None \<Rightarrow>
               (case find_compatible (bdx_registry env)
                   \<lparr>state_name = name, states = props, state_version = 0\<rparr> of
                  Some r \<Rightarrow> Inr r
                | None \<Rightarrow> Inr (legacy_or_name env name 0))))"

definition direct_slot :: "nat \<Rightarrow> nat" where
  "direct_slot key = (key * 2654435761 mod 4294967296) mod 256"

definition direct_hit :: "nat \<Rightarrow> bdx_state \<Rightarrow> runtime_id option" where
  "direct_hit key st =
    (case state_direct st (direct_slot key) of
       Some (k, r) \<Rightarrow> if k = key then Some r else None
     | None \<Rightarrow> None)"

definition direct_put :: "nat \<Rightarrow> runtime_id \<Rightarrow> bdx_state \<Rightarrow> bdx_state" where
  "direct_put key r st = st\<lparr>state_direct := (state_direct st)(direct_slot key := Some (key, r))\<rparr>"

definition constant_state_runtime ::
  "bdx_env \<Rightarrow> nat \<Rightarrow> nat \<Rightarrow> bdx_state \<Rightarrow> (bdx_error, runtime_id \<times> bdx_state) result" where
  "constant_state_runtime env name_id states_id st =
    (let key = name_id * 65536 + states_id
     in case direct_hit key st of
          Some r \<Rightarrow> Inr (r, st)
        | None \<Rightarrow>
            (case map_of (state_cache st) key of
               Some r \<Rightarrow> Inr (r, direct_put key r st)
             | None \<Rightarrow>
                 and_then (case constant_string states_id st of
                     Some text \<Rightarrow> resolve_state_runtime env name_id text st
                   | None \<Rightarrow> Inr (air env))
                   (\<lambda>r. Inr (r, direct_put key r (st\<lparr>state_cache := cache_put key r (state_cache st)\<rparr>)))))"

definition pool_runtime :: "bdx_env \<Rightarrow> nat \<Rightarrow> bdx_state \<Rightarrow> (bdx_error, runtime_id \<times> bdx_state) result" where
  "pool_runtime env index st =
    (let st' = (if cached_pool_id st \<noteq> pool_id st
                then st\<lparr>cached_pool_id := pool_id st,
                       cached_pool := legacy_pool_snapshot (bdx_registry env) (pool_id st)\<rparr>
                else st)
     in if length (cached_pool st') \<le> index then Inl (PoolIndexOutOfRange (pool_id st) index)
        else Inr (cached_pool st' ! index, st'))"

section \<open>Placing\<close>

definition block_entity_id :: "string \<Rightarrow> string" where
  "block_entity_id name =
    (if name = ''minecraft:blast_furnace'' \<or> name = ''minecraft:lit_blast_furnace'' then ''BlastFurnace''
     else if name = ''minecraft:furnace'' \<or> name = ''minecraft:lit_furnace'' then ''Furnace''
     else if name = ''minecraft:smoker'' \<or> name = ''minecraft:lit_smoker'' then ''Smoker''
     else if name = ''minecraft:chest'' \<or> name = ''minecraft:trapped_chest'' then ''Chest''
     else if name = ''minecraft:hopper'' then ''Hopper''
     else if name = ''minecraft:dispenser'' then ''Dispenser''
     else if name = ''minecraft:dropper'' then ''Dropper''
     else if name = ''minecraft:barrel'' then ''Barrel''
     else if name = ''minecraft:crafter'' then ''Crafter''
     else if sublist ''shulker_box'' name then ''ShulkerBox''
     else [])"

definition entity_payload :: "bdx_env \<Rightarrow> runtime_id \<Rightarrow> compound \<Rightarrow> byte list" where
  "entity_payload env r c =
    serialize env
      (case registry_state (bdx_registry env) r of
         None \<Rightarrow> c
       | Some s \<Rightarrow>
           let i = block_entity_id (state_name s)
           in if i \<noteq> [] then omap_put ''id'' (TagString i) c else c)"

definition store_entity ::
  "bdx_env \<Rightarrow> compound option \<Rightarrow> runtime_id \<Rightarrow> bdx_state \<Rightarrow> (bdx_error, bdx_state) result" where
  "store_entity env entity r st =
    (case entity of
       None \<Rightarrow> Inr st
     | Some c \<Rightarrow>
         if \<not> capture_entities env then Inr st
         else if kMaximumBlockEntities \<le> length (entity_map st) \<and> map_of (entity_map st) (cursor st) = None
         then Inl TooManyEntities
         else if kMaximumConstantStringBytes < length (entity_payload env r c) then Inl EntityTooLarge
         else Inr (st\<lparr>entity_map := umap_put (cursor st) (entity_payload env r c) (entity_map st)\<rparr>))"

definition drop_entity :: "bdx_env \<Rightarrow> compound option \<Rightarrow> bdx_state \<Rightarrow> bdx_state" where
  "drop_entity env entity st =
    (if capture_entities env \<and> entity = None
     then st\<lparr>entity_map := umap_erase (cursor st) (entity_map st)\<rparr> else st)"

definition notify_placement :: "bdx_env \<Rightarrow> runtime_id \<Rightarrow> bdx_state \<Rightarrow> bdx_state" where
  "notify_placement env r st =
    (if placement_consumer env
     then st\<lparr>placement_calls := placement_calls st @ [SingleCall (cursor st) r]\<rparr> else st)"

definition keep_block :: "bdx_env \<Rightarrow> runtime_id \<Rightarrow> bdx_state \<Rightarrow> bdx_state" where
  "keep_block env r st =
    (if materialize env then st\<lparr>placed_blocks := placed_blocks st @ [(cursor st, r)]\<rparr> else st)"

definition notify_block :: "bdx_env \<Rightarrow> runtime_id \<Rightarrow> bdx_state \<Rightarrow> bdx_state" where
  "notify_block env r st =
    (if block_consumer env
     then st\<lparr>block_calls := block_calls st @ [SingleCall (cursor st) r]\<rparr> else st)"

definition place ::
  "bdx_env \<Rightarrow> runtime_id \<Rightarrow> compound option \<Rightarrow> bdx_state \<Rightarrow> (bdx_error, bdx_state) result" where
  "place env r entity st =
    and_then (store_entity env entity r (drop_entity env entity st)) (\<lambda>st1.
      let st2 = notify_placement env r st1
      in if r = air env then Inr st2
         else if materialize env \<and> kMaximumMaterializedBlocks \<le> length (placed_blocks st2)
         then Inl TooManyBlocks
         else
           let st3 = notify_block env r (keep_block env r st2)
           in Inr (st3\<lparr>non_air := non_air st3 + 1\<rparr>))"

definition command_block_names :: "string list" where
  "command_block_names =
    [''minecraft:command_block'', ''minecraft:repeating_command_block'', ''minecraft:chain_command_block'']"

definition source_runtime ::
  "bdx_env \<Rightarrow> block_source \<Rightarrow> bdx_state \<Rightarrow> (bdx_error, runtime_id \<times> bdx_state) result" where
  "source_runtime env src st =
    (case src of
       ByState n s \<Rightarrow> constant_state_runtime env n s st
     | ByLegacy n data \<Rightarrow> Inr (legacy_runtime env n data st)
     | ByPool i \<Rightarrow> pool_runtime env i st
     | ByText n text \<Rightarrow> and_then (resolve_state_runtime env n text st) (\<lambda>r. Inr (r, st))
     | ByCommandBlock mode data \<Rightarrow> Inr (legacy_or_name env (command_block_names ! mode) data, st))"

section \<open>One command\<close>

definition define_constant :: "string \<Rightarrow> bdx_state \<Rightarrow> (bdx_error, bdx_state) result" where
  "define_constant value st =
    (if kMaximumConstants \<le> length (constants st) then Inl ConstantTableFull
     else if kMaximumConstantStringBytes < length value \<or>
       kMaximumConstantBytes - length value < constant_bytes st then Inl ConstantTableTooLarge
     else Inr (st\<lparr>constants := constants st @ [value],
                 constant_bytes := constant_bytes st + length value\<rparr>))"

definition execute :: "bdx_env \<Rightarrow> instr \<Rightarrow> bdx_state \<Rightarrow> (bdx_error, bdx_state) result" where
  "execute env i st =
    (case i of
       DefineConstant s \<Rightarrow> define_constant s st
     | SkipConstant \<Rightarrow> if kMaximumConstants \<le> length (constants st) then Inl ConstantTableFull else Inr st
     | Place src e \<Rightarrow> and_then (source_runtime env src st) (\<lambda>(r, st'). place env r e st')
     | StoreEntity c \<Rightarrow> store_entity env (Some c) 0 st
     | MoveCursor ax delta \<Rightarrow> move_cursor ax delta st
     | SetPool p \<Rightarrow> Inr (st\<lparr>pool_id := p\<rparr>)
     | Pass \<Rightarrow> Inr st
     | Terminate \<Rightarrow> Inr st)"

definition is_metadata :: "instr \<Rightarrow> bool" where
  "is_metadata i = (case i of DefineConstant _ \<Rightarrow> True | SkipConstant \<Rightarrow> True | SetPool _ \<Rightarrow> True | _ \<Rightarrow> False)"

datatype progress = EndOfInput | Finished bdx_state | Continue bdx_state

definition slow_command :: "bdx_env \<Rightarrow> bdx_state \<Rightarrow> (bdx_error, progress) result" where
  "slow_command env st =
    and_then (try_u8 (bdx_in st)) (\<lambda>(c, d).
      case c of
        None \<Rightarrow> Inr EndOfInput
      | Some b \<Rightarrow>
          and_then (read_command (read_nbt env) (bounds_only env) (unat b) d) (\<lambda>(i, d').
            and_then (execute env i (st\<lparr>bdx_in := d', command_index := command_index st + 1\<rparr>)) (\<lambda>st'.
              let st'' = (if is_metadata i then st' else update_bounds st')
              in Inr (if i = Terminate then Finished st'' else Continue st''))))"

section \<open>The bounds fast path\<close>

definition fast_length :: "nat \<Rightarrow> nat" where
  "fast_length cmd =
    (if cmd \<in> {5, 7} then 5
     else if cmd \<in> {6, 20, 22, 24} then 3
     else if cmd \<in> {8, 9, 14, 15, 16, 17, 18, 19} then 1
     else if cmd \<in> {12, 21, 23, 25, 33} then 5
     else if cmd \<in> {28, 29, 30} then 2
     else if cmd = 31 then 2
     else if cmd = 32 then 3
     else 0)"

definition signed_be16 :: "byte list \<Rightarrow> int" where "signed_be16 p = s16 (int (be_nat (take 2 p)))"
definition signed_be32 :: "byte list \<Rightarrow> int" where "signed_be32 p = s32 (int (be_nat (take 4 p)))"
definition signed_8 :: "byte list \<Rightarrow> int" where "signed_8 p = s8 (int (unat (hd p)))"

definition fast_effect :: "nat \<Rightarrow> byte list \<Rightarrow> bdx_state \<Rightarrow> (bdx_error, bdx_state) result" where
  "fast_effect cmd payload st =
    (if cmd = 6 then move_cursor AxisZ (signed_be16 payload) st
     else if cmd = 8 then move_cursor AxisZ 1 st
     else if cmd = 12 then move_cursor AxisZ (signed_be32 payload) st
     else if cmd = 14 then move_cursor AxisX 1 st
     else if cmd = 15 then move_cursor AxisX (-1) st
     else if cmd = 16 then move_cursor AxisY 1 st
     else if cmd = 17 then move_cursor AxisY (-1) st
     else if cmd = 18 then move_cursor AxisZ 1 st
     else if cmd = 19 then move_cursor AxisZ (-1) st
     else if cmd = 20 then move_cursor AxisX (signed_be16 payload) st
     else if cmd = 21 then move_cursor AxisX (signed_be32 payload) st
     else if cmd = 22 then move_cursor AxisY (signed_be16 payload) st
     else if cmd = 23 then move_cursor AxisY (signed_be32 payload) st
     else if cmd = 24 then move_cursor AxisZ (signed_be16 payload) st
     else if cmd = 25 then move_cursor AxisZ (signed_be32 payload) st
     else if cmd = 28 then move_cursor AxisX (signed_8 payload) st
     else if cmd = 29 then move_cursor AxisY (signed_8 payload) st
     else if cmd = 30 then move_cursor AxisZ (signed_8 payload) st
     else if cmd = 31 then Inr (st\<lparr>pool_id := unat (hd payload)\<rparr>)
     else Inr st)"

function bounds_scan :: "byte list \<Rightarrow> bdx_state \<Rightarrow> (bdx_error, nat \<times> bdx_state) result" where
  "bounds_scan [] st = Inr (0, st)"
| "bounds_scan (b # bs) st =
     (let n = fast_length (unat b)
      in if n = 0 \<or> length (b # bs) < n then Inr (0, st)
         else and_then (fast_effect (unat b) (take (n - 1) bs) st) (\<lambda>st'.
           let st1 = st'\<lparr>command_index := command_index st' + 1\<rparr>;
               st2 = (if unat b = 31 then st1 else update_bounds st1)
           in and_then (bounds_scan (drop (n - 1) bs) st2) (\<lambda>(m, st3). Inr (n + m, st3))))"
  by pat_completeness auto
termination by (relation "measure (length \<circ> fst)") auto

definition bounds_step :: "bdx_state \<Rightarrow> (bdx_error, nat \<times> bdx_state) result" where
  "bounds_step st =
    and_then (refill_contiguous (bdx_in st)) (\<lambda>d.
      and_then (bounds_scan (area d) st) (\<lambda>(n, st'). Inr (n, st'\<lparr>bdx_in := consume n d\<rparr>)))"

section \<open>The Z run fast path\<close>

text \<open>The longest prefix of pairs of a block placement (5) and a step along Z (18).\<close>

fun zrun_pairs :: "byte list \<Rightarrow> (nat \<times> nat) list" where
  "zrun_pairs (b0 # b1 # b2 # b3 # b4 # b5 # bs) =
     (if b0 = 5 \<and> b5 = 18 then (be_nat [b1, b2], be_nat [b3, b4]) # zrun_pairs bs else [])"
| "zrun_pairs _ = []"

fun resolve_run ::
  "bdx_env \<Rightarrow> (nat \<times> nat) list \<Rightarrow> bdx_state \<Rightarrow> (bdx_error, runtime_id list \<times> bdx_state) result" where
  "resolve_run env [] st = Inr ([], st)"
| "resolve_run env (p # ps) st =
     and_then (constant_state_runtime env (fst p) (snd p) st) (\<lambda>(r, st').
       let st'' = (if r \<noteq> air env then st'\<lparr>non_air := non_air st' + 1\<rparr> else st')
       in and_then (resolve_run env ps st'') (\<lambda>(rs, st3). Inr (r # rs, st3)))"

definition run_position :: "block_pos \<Rightarrow> nat \<Rightarrow> block_pos" where
  "run_position start i = BlockPos (pos_x start) (pos_y start) (pos_z start + int i)"

definition in_run :: "block_pos \<Rightarrow> nat \<Rightarrow> block_pos \<Rightarrow> bool" where
  "in_run start n p \<longleftrightarrow> pos_x p = pos_x start \<and> pos_y p = pos_y start \<and>
    pos_z start \<le> pos_z p \<and> pos_z p \<le> pos_z start + int n - 1"

definition erase_run_entities :: "nat \<Rightarrow> bdx_state \<Rightarrow> bdx_state" where
  "erase_run_entities n st =
    (if length (entity_map st) < n
     then st\<lparr>entity_map := filter (\<lambda>e. \<not> in_run (cursor st) n (fst e)) (entity_map st)\<rparr>
     else st\<lparr>entity_map :=
            fold (\<lambda>i m. umap_erase (run_position (cursor st) i) m) [0..<n] (entity_map st)\<rparr>)"

text \<open>The placed blocks of a run that are not air, in order.\<close>

definition run_blocks :: "bdx_env \<Rightarrow> block_pos \<Rightarrow> runtime_id list \<Rightarrow> (block_pos \<times> runtime_id) list" where
  "run_blocks env start rs =
    filter (\<lambda>b. snd b \<noteq> air env) (map (\<lambda>(i, r). (run_position start i, r)) (enumerate 0 rs))"

definition notify_run_placements :: "bdx_env \<Rightarrow> runtime_id list \<Rightarrow> bdx_state \<Rightarrow> bdx_state" where
  "notify_run_placements env rs st =
    (if placement_run_consumer env
     then st\<lparr>placement_calls := placement_calls st @ [RunCall (cursor st) rs (air env \<in> set rs)]\<rparr>
     else st)"

definition drop_run_entities :: "bdx_env \<Rightarrow> nat \<Rightarrow> bdx_state \<Rightarrow> bdx_state" where
  "drop_run_entities env n st =
    (if capture_entities env \<and> entity_map st \<noteq> [] then erase_run_entities n st else st)"

definition keep_run :: "bdx_env \<Rightarrow> runtime_id list \<Rightarrow> bdx_state \<Rightarrow> bdx_state" where
  "keep_run env rs st =
    (if materialize env
     then st\<lparr>placed_blocks := placed_blocks st @ run_blocks env (cursor st) rs\<rparr> else st)"

definition notify_run_blocks :: "bdx_env \<Rightarrow> runtime_id list \<Rightarrow> bdx_state \<Rightarrow> bdx_state" where
  "notify_run_blocks env rs st =
    (if run_consumer env
     then st\<lparr>block_calls := block_calls st @ [RunCall (cursor st) rs (air env \<in> set rs)]\<rparr>
     else if block_consumer env
     then st\<lparr>block_calls := block_calls st @
            map (\<lambda>(p, r). SingleCall p r) (run_blocks env (cursor st) rs)\<rparr>
     else st)"

definition place_run :: "bdx_env \<Rightarrow> runtime_id list \<Rightarrow> nat \<Rightarrow> bdx_state \<Rightarrow> (bdx_error, bdx_state) result" where
  "place_run env rs n st =
    (let end_z = pos_z (cursor st) + int n - 1
     in if INT32_MAX < end_z \<or> end_z < INT32_MIN then Inl ZRunOutOfRange
        else
          let st1 = drop_run_entities env n (notify_run_placements env rs st)
          in if materialize env \<and>
               kMaximumMaterializedBlocks - min kMaximumMaterializedBlocks (length (placed_blocks st1))
                 < length (filter (\<lambda>r. r \<noteq> air env) rs)
             then Inl TooManyBlocks
             else
               let st2 = update_bounds (notify_run_blocks env rs (keep_run env rs st1))
               in if INT32_MAX < int n then Inl ZRunOutOfRange
                  else and_then (move_cursor AxisZ (int n) st2) (\<lambda>st3.
                    let st4 = update_bounds st3
                    in Inr (st4\<lparr>command_index := command_index st4 + n * 2\<rparr>)))"

definition z_run :: "bdx_env \<Rightarrow> (nat \<times> nat) list \<Rightarrow> bdx_state \<Rightarrow> (bdx_error, bdx_state) result" where
  "z_run env pairs st =
    and_then (resolve_run env pairs st) (\<lambda>(rs, st1). place_run env rs (length pairs) st1)"

section \<open>The loop\<close>

definition bdx_iterate :: "bdx_env \<Rightarrow> bdx_state \<Rightarrow> (bdx_error, progress) result" where
  "bdx_iterate env st =
    (if bounds_only env then
       and_then (bounds_step st) (\<lambda>(n, st').
         if n \<noteq> 0 then Inr (Continue st') else slow_command env st')
     else
       and_then (refill_contiguous (bdx_in st)) (\<lambda>d.
         let pairs = zrun_pairs (area d); st' = st\<lparr>bdx_in := d\<rparr>
         in if 4 \<le> length pairs
            then and_then (z_run env pairs st') (\<lambda>st''.
              Inr (Continue (st''\<lparr>bdx_in := consume (6 * length pairs) (bdx_in st'')\<rparr>)))
            else slow_command env st'))"

text \<open>The result is \<open>None\<close> when the loop does not end.\<close>

partial_function (option) bdx_loop ::
  "bdx_env \<Rightarrow> bdx_state \<Rightarrow> (bdx_error, bdx_state) result option" where
  "bdx_loop env st =
    (case bdx_iterate env st of
       Inl e \<Rightarrow> Some (Inl e)
     | Inr EndOfInput \<Rightarrow> Some (Inl MissingTerminate)
     | Inr (Finished st') \<Rightarrow> Some (Inr st')
     | Inr (Continue st') \<Rightarrow> bdx_loop env st')"

text \<open>The reference: every command is executed on its own.\<close>

partial_function (option) bdx_slow_loop ::
  "bdx_env \<Rightarrow> bdx_state \<Rightarrow> (bdx_error, bdx_state) result option" where
  "bdx_slow_loop env st =
    (case slow_command env st of
       Inl e \<Rightarrow> Some (Inl e)
     | Inr EndOfInput \<Rightarrow> Some (Inl MissingTerminate)
     | Inr (Finished st') \<Rightarrow> Some (Inr st')
     | Inr (Continue st') \<Rightarrow> bdx_slow_loop env st')"

section \<open>The result\<close>

record bdx_result =
  bdx_author :: string
  bdx_min :: block_pos
  bdx_original_size :: wsize
  bdx_blocks :: "(block_pos \<times> runtime_id) list"
  bdx_entities :: "(block_pos, nbt_payload) umap"
  bdx_non_air :: nat

definition dimension :: "int \<Rightarrow> int \<Rightarrow> (bdx_error, int) result" where
  "dimension minimum maximum =
    (let span = maximum - minimum + 1
     in if span \<le> 0 \<or> INT32_MAX < span then Inl DimensionOutOfRange else Inr span)"

definition shift_coordinate :: "int \<Rightarrow> int \<Rightarrow> (bdx_error, int) result" where
  "shift_coordinate value origin =
    (let shifted = value - origin
     in if shifted < 0 \<or> INT32_MAX < shifted then Inl CoordinateOutOfRange else Inr shifted)"

definition shift_position :: "block_pos \<Rightarrow> block_pos \<Rightarrow> (bdx_error, block_pos) result" where
  "shift_position origin p =
    and_then (shift_coordinate (pos_x p) (pos_x origin)) (\<lambda>x.
    and_then (shift_coordinate (pos_y p) (pos_y origin)) (\<lambda>y.
    and_then (shift_coordinate (pos_z p) (pos_z origin)) (\<lambda>z. Inr (BlockPos x y z))))"

definition shift_entries ::
  "block_pos \<Rightarrow> (block_pos \<times> 'v) list \<Rightarrow> (bdx_error, (block_pos \<times> 'v) list) result" where
  "shift_entries origin entries =
    fold_result (\<lambda>(p, v) acc. and_then (shift_position origin p) (\<lambda>q. Inr (acc @ [(q, v)]))) entries []"

definition finish_read :: "string \<Rightarrow> bdx_state \<Rightarrow> (bdx_error, bdx_result) result" where
  "finish_read author st =
    and_then (dimension (pos_x (low st)) (pos_x (high st))) (\<lambda>w.
    and_then (dimension (pos_y (low st)) (pos_y (high st))) (\<lambda>h.
    and_then (dimension (pos_z (low st)) (pos_z (high st))) (\<lambda>l.
    and_then (shift_entries (low st) (placed_blocks st)) (\<lambda>bs.
    and_then (shift_entries (low st) (entity_map st)) (\<lambda>es.
      Inr \<lparr>bdx_author = author, bdx_min = low st,
           bdx_original_size = \<lparr>width = w, height = h, len = l\<rparr>,
           bdx_blocks = bs, bdx_entities = es, bdx_non_air = non_air st\<rparr>)))))"

definition read_metadata :: "decoded \<Rightarrow> (bdx_error, string \<times> decoded) result" where
  "read_metadata d =
    and_then (read_u8 d) (\<lambda>(b, d). if b \<noteq> 66 then Inl BadMetadataHeader else
    and_then (read_u8 d) (\<lambda>(b, d). if b \<noteq> 68 then Inl BadMetadataHeader else
    and_then (read_u8 d) (\<lambda>(b, d). if b \<noteq> 88 then Inl BadMetadataHeader else
    and_then (read_cstring kMaximumConstantStringBytes d) (\<lambda>(author, d).
    and_then (read_u8 d) (\<lambda>(_, d). Inr (author, d))))))"

text \<open>
  A file: its first three bytes, its size and the outcomes of decoding the rest. The read is
  parametrised by the loop, so that the same text is the code's read and the reference.
\<close>

definition read_with ::
  "(bdx_state \<Rightarrow> (bdx_error, bdx_state) result option) \<Rightarrow> decoded \<Rightarrow> (bdx_error, bdx_result) result option" where
  "read_with loop d =
    (case read_metadata d of
       Inl e \<Rightarrow> Some (Inl e)
     | Inr (author, d') \<Rightarrow>
         map_option (\<lambda>r. and_then r (finish_read author)) (loop (bdx_init d')))"

definition bdx_read ::
  "bdx_env \<Rightarrow> byte list \<Rightarrow> nat \<Rightarrow> brotli_outcome list \<Rightarrow> (bdx_error, bdx_result) result option" where
  "bdx_read env file_header file_size outcomes =
    (if file_header \<noteq> [66, 68, 64] then Some (Inl BadFileHeader)
     else read_with (bdx_loop env) (decoded_input (decoded_limit (file_size - 3)) outcomes))"

text \<open>The expanded size of the structure, once an offset is set.\<close>

definition bdx_set_offset :: "block_pos \<Rightarrow> wsize \<Rightarrow> wsize" where
  "bdx_set_offset off original =
    (let expanded = (\<lambda>base delta. min (base + (if delta < 0 then - delta else delta)) INT32_MAX)
     in \<lparr>width = s32 (expanded (width original) (pos_x off)),
         height = s32 (expanded (height original) (pos_y off)),
         len = s32 (expanded (len original) (pos_z off))\<rparr>)"

end
