(* ===== verification/WS_BdxFrame.thy ===== *)
theory WS_BdxFrame
  imports WS_BdxReader
begin

text \<open>
  Comparing states of the BDX reader. States are compared after \<open>normalize_state\<close>: the input
  flattened to its bytes, and every call of a run consumer replaced by the single calls it
  stands for. The executor ignores both, so a command does the same on the normalised state;
  runs of the reference loop are sequences of commands, and that loop always returns.
\<close>

section \<open>Normalised states\<close>

definition single_blocks :: "bdx_env \<Rightarrow> consumer_call \<Rightarrow> consumer_call list" where
  "single_blocks env c =
    (case c of SingleCall p r \<Rightarrow> [SingleCall p r]
     | RunCall p rs _ \<Rightarrow> map (\<lambda>(q, r). SingleCall q r) (run_blocks env p rs))"

definition single_placements :: "consumer_call \<Rightarrow> consumer_call list" where
  "single_placements c =
    (case c of SingleCall p r \<Rightarrow> [SingleCall p r]
     | RunCall p rs _ \<Rightarrow> map (\<lambda>(i, r). SingleCall (run_position p i) r) (enumerate 0 rs))"

definition normalize_state :: "bdx_env \<Rightarrow> bdx_state \<Rightarrow> bdx_state" where
  "normalize_state env st =
    st\<lparr>bdx_in := flat (bdx_in st),
       block_calls := concat (map (single_blocks env) (block_calls st)),
       placement_calls := concat (map single_placements (placement_calls st))\<rparr>"

text \<open>
  An update of the fields the executor does not look at: the input, and the logs up to what
  is appended to them.
\<close>

definition framed :: "decoded \<Rightarrow> (consumer_call list \<Rightarrow> consumer_call list) \<Rightarrow>
  (consumer_call list \<Rightarrow> consumer_call list) \<Rightarrow> bdx_state \<Rightarrow> bdx_state" where
  "framed d f g st =
    st\<lparr>bdx_in := d, block_calls := f (block_calls st), placement_calls := g (placement_calls st)\<rparr>"

definition keeps_singles :: "(consumer_call list \<Rightarrow> consumer_call list) \<Rightarrow> bool" where
  "keeps_singles f \<longleftrightarrow> (\<forall>xs p r. f (xs @ [SingleCall p r]) = f xs @ [SingleCall p r])"

lemma normalize_framed:
  "normalize_state env st =
    framed (flat (bdx_in st)) (\<lambda>cs. concat (map (single_blocks env) cs))
      (\<lambda>cs. concat (map single_placements cs)) st"
  by (simp add: normalize_state_def framed_def)

lemma keeps_singles_norm:
  "keeps_singles (\<lambda>cs. concat (map (single_blocks env) cs))"
  "keeps_singles (\<lambda>cs. concat (map single_placements cs))"
  by (simp_all add: keeps_singles_def single_blocks_def single_placements_def)

lemma framed_simps [simp]:
  "bdx_in (framed d f g st) = d"
  "block_calls (framed d f g st) = f (block_calls st)"
  "placement_calls (framed d f g st) = g (placement_calls st)"
  "constants (framed d f g st) = constants st"
  "constant_bytes (framed d f g st) = constant_bytes st"
  "legacy_cache (framed d f g st) = legacy_cache st"
  "state_cache (framed d f g st) = state_cache st"
  "state_direct (framed d f g st) = state_direct st"
  "cached_pool_id (framed d f g st) = cached_pool_id st"
  "cached_pool (framed d f g st) = cached_pool st"
  "pool_id (framed d f g st) = pool_id st"
  "cursor (framed d f g st) = cursor st"
  "low (framed d f g st) = low st"
  "high (framed d f g st) = high st"
  "command_index (framed d f g st) = command_index st"
  "placed_blocks (framed d f g st) = placed_blocks st"
  "entity_map (framed d f g st) = entity_map st"
  "non_air (framed d f g st) = non_air st"
  by (simp_all add: framed_def)

lemma framed_upd [simp]:
  "(framed d f g st)\<lparr>constants := a1\<rparr> = framed d f g (st\<lparr>constants := a1\<rparr>)"
  "(framed d f g st)\<lparr>constant_bytes := a2\<rparr> = framed d f g (st\<lparr>constant_bytes := a2\<rparr>)"
  "(framed d f g st)\<lparr>legacy_cache := a3\<rparr> = framed d f g (st\<lparr>legacy_cache := a3\<rparr>)"
  "(framed d f g st)\<lparr>state_cache := a4\<rparr> = framed d f g (st\<lparr>state_cache := a4\<rparr>)"
  "(framed d f g st)\<lparr>state_direct := a5\<rparr> = framed d f g (st\<lparr>state_direct := a5\<rparr>)"
  "(framed d f g st)\<lparr>cached_pool_id := a6\<rparr> = framed d f g (st\<lparr>cached_pool_id := a6\<rparr>)"
  "(framed d f g st)\<lparr>cached_pool := a7\<rparr> = framed d f g (st\<lparr>cached_pool := a7\<rparr>)"
  "(framed d f g st)\<lparr>pool_id := a8\<rparr> = framed d f g (st\<lparr>pool_id := a8\<rparr>)"
  "(framed d f g st)\<lparr>cursor := a9\<rparr> = framed d f g (st\<lparr>cursor := a9\<rparr>)"
  "(framed d f g st)\<lparr>low := b1\<rparr> = framed d f g (st\<lparr>low := b1\<rparr>)"
  "(framed d f g st)\<lparr>high := b2\<rparr> = framed d f g (st\<lparr>high := b2\<rparr>)"
  "(framed d f g st)\<lparr>command_index := b3\<rparr> = framed d f g (st\<lparr>command_index := b3\<rparr>)"
  "(framed d f g st)\<lparr>placed_blocks := b4\<rparr> = framed d f g (st\<lparr>placed_blocks := b4\<rparr>)"
  "(framed d f g st)\<lparr>entity_map := b5\<rparr> = framed d f g (st\<lparr>entity_map := b5\<rparr>)"
  "(framed d f g st)\<lparr>non_air := b6\<rparr> = framed d f g (st\<lparr>non_air := b6\<rparr>)"
  by (simp_all add: framed_def)

lemma framed_calls:
  "keeps_singles f \<Longrightarrow> (framed d f g st)\<lparr>block_calls := f (block_calls st) @ [SingleCall p r]\<rparr> =
    framed d f g (st\<lparr>block_calls := block_calls st @ [SingleCall p r]\<rparr>)"
  "keeps_singles g \<Longrightarrow> (framed d f g st)\<lparr>placement_calls := g (placement_calls st) @ [SingleCall p r]\<rparr> =
    framed d f g (st\<lparr>placement_calls := placement_calls st @ [SingleCall p r]\<rparr>)"
  by (simp_all add: framed_def keeps_singles_def)

section \<open>The executor ignores the frame\<close>

definition map_state :: "(bdx_state \<Rightarrow> bdx_state) \<Rightarrow> (bdx_error, bdx_state) result \<Rightarrow> (bdx_error, bdx_state) result" where
  "map_state h r = (case r of Inl e \<Rightarrow> Inl e | Inr st \<Rightarrow> Inr (h st))"

definition map_snd :: "(bdx_state \<Rightarrow> bdx_state) \<Rightarrow> (bdx_error, 'a \<times> bdx_state) result \<Rightarrow> (bdx_error, 'a \<times> bdx_state) result" where
  "map_snd h r = (case r of Inl e \<Rightarrow> Inl e | Inr (v, st) \<Rightarrow> Inr (v, h st))"

lemma map_state_simps [simp]: "map_state h (Inl e) = Inl e" "map_state h (Inr st) = Inr (h st)"
  by (simp_all add: map_state_def)

lemma map_snd_simps [simp]: "map_snd h (Inl e) = Inl e" "map_snd h (Inr (v, st)) = Inr (v, h st)"
  by (simp_all add: map_snd_def)

lemma and_then_map:
  "map_snd h (and_then m (\<lambda>v. Inr (f v, k v))) = and_then m (\<lambda>v. Inr (f v, h (k v)))"
  by (cases m) simp_all

lemma move_cursor_framed: "move_cursor ax n (framed d f g st) = map_state (framed d f g) (move_cursor ax n st)"
  by (cases ax) (simp_all add: move_cursor_def add_coordinate_def Let_def)

lemma constant_string_framed [simp]: "constant_string i (framed d f g st) = constant_string i st"
  by (simp add: constant_string_def)

lemma resolve_framed [simp]: "resolve_state_runtime env n t (framed d f g st) = resolve_state_runtime env n t st"
  by (simp add: resolve_state_runtime_def)

lemma state_runtime_framed:
  "constant_state_runtime env n s (framed d f g st) =
    map_snd (framed d f g) (constant_state_runtime env n s st)"
proof -
  have hit: "direct_hit k (framed d f g st) = direct_hit k st" for k by (simp add: direct_hit_def)
  have put: "direct_put k r (framed d f g s) = framed d f g (direct_put k r s)" for k r s
    by (simp add: direct_put_def)
  show ?thesis
    unfolding constant_state_runtime_def Let_def hit
    by (simp add: put and_then_map split: option.split)
qed

lemma legacy_runtime_framed:
  "legacy_runtime env n data (framed d f g st) =
    (let (r, st') = legacy_runtime env n data st in (r, framed d f g st'))"
  by (simp add: legacy_runtime_def Let_def split: option.splits)

lemma pool_runtime_framed:
  "pool_runtime env i (framed d f g st) = map_snd (framed d f g) (pool_runtime env i st)"
  by (simp add: pool_runtime_def Let_def)

lemma source_runtime_framed:
  "source_runtime env src (framed d f g st) = map_snd (framed d f g) (source_runtime env src st)"
proof (cases src)
  case (ByText n t)
  then show ?thesis by (cases "resolve_state_runtime env n t st") (simp_all add: source_runtime_def)
qed (simp_all add: source_runtime_def state_runtime_framed legacy_runtime_framed
    pool_runtime_framed Let_def case_prod_unfold map_snd_def)

lemma store_entity_framed:
  "store_entity env e r (framed d f g st) = map_state (framed d f g) (store_entity env e r st)"
  by (cases e; cases "capture_entities env"; cases "map_of (entity_map st) (cursor st)")
    (simp_all add: store_entity_def Let_def)

lemma place_stages_framed:
  "drop_entity env e (framed d f g st) = framed d f g (drop_entity env e st)"
  "keep_block env r (framed d f g st) = framed d f g (keep_block env r st)"
  "keeps_singles f \<Longrightarrow> notify_block env r (framed d f g st) = framed d f g (notify_block env r st)"
  "keeps_singles g \<Longrightarrow> notify_placement env r (framed d f g st) = framed d f g (notify_placement env r st)"
  by (simp_all add: drop_entity_def keep_block_def notify_block_def notify_placement_def framed_calls)

lemma place_framed:
  assumes "keeps_singles f" "keeps_singles g"
  shows "place env r e (framed d f g st) = map_state (framed d f g) (place env r e st)"
  by (cases "store_entity env e r (drop_entity env e st)")
    (simp_all add: place_def Let_def place_stages_framed assms store_entity_framed)

lemma execute_framed:
  assumes "keeps_singles f" "keeps_singles g"
  shows "execute env i (framed d f g st) = map_state (framed d f g) (execute env i st)"
proof (cases i)
  case (Place src e)
  show ?thesis
    by (cases "source_runtime env src st")
      (auto simp: Place execute_def source_runtime_framed place_framed [OF assms])
qed (simp_all add: execute_def define_constant_def store_entity_framed move_cursor_framed)

lemma update_bounds_framed [simp]: "update_bounds (framed d f g st) = framed d f g (update_bounds st)"
  by (simp add: update_bounds_def)

lemma execute_input:
  assumes "execute env i st = Inr st'"
  shows "bdx_in st' = bdx_in st"
proof -
  have "keeps_singles (\<lambda>cs. cs)" by (simp add: keeps_singles_def)
  from execute_framed [OF this this, of env i "bdx_in st" st] assms
  have "Inr st' = map_state (framed (bdx_in st) (\<lambda>cs. cs) (\<lambda>cs. cs)) (Inr st')"
    by (simp add: framed_def)
  then have "st' = framed (bdx_in st) (\<lambda>cs. cs) (\<lambda>cs. cs) st'" by simp
  then show ?thesis by (metis framed_simps(1))
qed

section \<open>One command on the flat input\<close>

definition map_progress :: "(bdx_state \<Rightarrow> bdx_state) \<Rightarrow> (bdx_error, progress) result \<Rightarrow> (bdx_error, progress) result" where
  "map_progress h r =
    (case r of Inl e \<Rightarrow> Inl e | Inr EndOfInput \<Rightarrow> Inr EndOfInput
     | Inr (Finished st) \<Rightarrow> Inr (Finished (h st)) | Inr (Continue st) \<Rightarrow> Inr (Continue (h st)))"

lemma map_progress_simps [simp]:
  "map_progress h (Inl e) = Inl e" "map_progress h (Inr EndOfInput) = Inr EndOfInput"
  "map_progress h (Inr (Finished st)) = Inr (Finished (h st))"
  "map_progress h (Inr (Continue st)) = Inr (Continue (h st))"
  by (simp_all add: map_progress_def)

abbreviation state_ok :: "bdx_state \<Rightarrow> bool" where
  "state_ok st \<equiv> decoded_ok (bdx_in st)"

abbreviation bytes_left :: "bdx_state \<Rightarrow> nat" where
  "bytes_left st \<equiv> length (input_bytes (bdx_in st))"

definition run_instr :: "bdx_env \<Rightarrow> instr \<Rightarrow> bdx_state \<Rightarrow> (bdx_error, progress) result" where
  "run_instr env i st =
    and_then (execute env i (st\<lparr>command_index := command_index st + 1\<rparr>)) (\<lambda>st'.
      let st'' = (if is_metadata i then st' else update_bounds st')
      in Inr (if i = Terminate then Finished st'' else Continue st''))"

lemma slow_command_run:
  "slow_command env st =
    and_then (try_u8 (bdx_in st)) (\<lambda>(c, d).
      case c of None \<Rightarrow> Inr EndOfInput
      | Some b \<Rightarrow> and_then (read_command (read_nbt env) (bounds_only env) (unat b) d)
          (\<lambda>(i, d'). run_instr env i (st\<lparr>bdx_in := d'\<rparr>)))"
  unfolding slow_command_def run_instr_def by (simp cong: option.case_cong)

lemma run_instr_framed:
  assumes "keeps_singles f" "keeps_singles g"
  shows "run_instr env i (framed d f g st) = map_progress (framed d f g) (run_instr env i st)"
proof -
  show ?thesis
    by (cases "execute env i (st\<lparr>command_index := command_index st + 1\<rparr>)")
      (simp_all add: run_instr_def execute_framed [OF assms])
qed

lemma run_instr_input:
  assumes "run_instr env i st = Inr (Continue st') \<or> run_instr env i st = Inr (Finished st')"
  shows "bdx_in st' = bdx_in st"
proof -
  obtain st1 where "execute env i (st\<lparr>command_index := command_index st + 1\<rparr>) = Inr st1"
    "bdx_in st' = bdx_in st1"
    using assms by (auto simp: run_instr_def and_then_eq_Inr_iff Let_def update_bounds_def split: if_splits)
  then show ?thesis using execute_input by fastforce
qed

lemma normalize_frame_input:
  "framed (flat d) (\<lambda>cs. concat (map (single_blocks env) cs)) (\<lambda>cs. concat (map single_placements cs)) st =
    normalize_state env (st\<lparr>bdx_in := d\<rparr>)"
  by (simp add: normalize_state_def framed_def)

lemma run_instr_normalize:
  "run_instr env i (normalize_state env st) = map_progress (normalize_state env) (run_instr env i st)"
proof (cases "run_instr env i st")
  case (Inr r)
  then show ?thesis
    using run_instr_input [of env i st]
    by (cases r) (simp_all add: normalize_framed run_instr_framed [OF keeps_singles_norm])
qed (simp add: normalize_framed run_instr_framed [OF keeps_singles_norm])

lemma normalize_input [simp]:
  "bdx_in (normalize_state env st) = flat (bdx_in st)"
  "(normalize_state env st)\<lparr>bdx_in := flat d\<rparr> = normalize_state env (st\<lparr>bdx_in := d\<rparr>)"
  by (simp_all add: normalize_state_def)

lemma slow_command_normalize:
  assumes ok: "state_ok st"
  shows "slow_command env (normalize_state env st) = map_progress (normalize_state env) (slow_command env st)"
proof (cases "try_u8 (bdx_in st)")
  case (Inl e)
  then show ?thesis by (simp add: slow_command_run try_u8_flat [OF ok])
next
  case (Inr r)
  obtain c d where r: "r = (c, d)" by (cases r)
  note t = try_u8_reads [OF Inr [unfolded r] ok]
  show ?thesis
  proof (cases c)
    case None
    then show ?thesis using Inr r by (simp add: slow_command_run try_u8_flat [OF ok])
  next
    case (Some b)
    have rc: "read_command (read_nbt env) (bounds_only env) (unat b) (flat d) =
        flat_result (read_command (read_nbt env) (bounds_only env) (unat b) d)"
      by (rule reads_bytesD(1) [OF reads_command t(3)])
    show ?thesis
      by (cases "read_command (read_nbt env) (bounds_only env) (unat b) d")
        (auto simp: slow_command_run try_u8_flat [OF ok] Inr r Some rc run_instr_normalize)
  qed
qed

lemma slow_command_progress:
  assumes "slow_command env st = Inr (Continue st') \<or> slow_command env st = Inr (Finished st')"
    and ok: "state_ok st"
  shows "state_ok st'" and "bytes_left st' < bytes_left st" and "fault (bdx_in st') = fault (bdx_in st)"
    and "buffers_from (bdx_in st) (bdx_in st')"
proof -
  obtain b d i d' where t: "try_u8 (bdx_in st) = Inr (Some b, d)"
    and rc: "read_command (read_nbt env) (bounds_only env) (unat b) d = Inr (i, d')"
    and ri: "run_instr env i (st\<lparr>bdx_in := d'\<rparr>) = Inr (Continue st') \<or>
             run_instr env i (st\<lparr>bdx_in := d'\<rparr>) = Inr (Finished st')"
    using assms(1) by (auto simp: slow_command_run and_then_eq_Inr_iff split: option.splits)
  note u = try_u8_reads [OF t ok]
  have "bdx_in st' = d'" using run_instr_input [OF ri] by simp
  then show "state_ok st'" "bytes_left st' < bytes_left st" "fault (bdx_in st') = fault (bdx_in st)"
    "buffers_from (bdx_in st) (bdx_in st')"
    using reads_bytesD(3,4) [OF reads_command u(3) rc] reads_bytes_length [OF reads_command u(3) rc] u
      buffers_from_trans [OF try_u8_buffers [OF t] reads_bytesD(5) [OF reads_command u(3) rc]]
    by simp_all
qed

section \<open>Runs of the reference loop\<close>

inductive slow_run :: "bdx_env \<Rightarrow> bdx_state \<Rightarrow> bdx_state \<Rightarrow> bool" for env where
  refl: "slow_run env st st"
| step: "slow_command env st = Inr (Continue st') \<Longrightarrow> slow_run env st' st'' \<Longrightarrow> slow_run env st st''"

definition slow_fails :: "bdx_env \<Rightarrow> bdx_state \<Rightarrow> bool" where
  "slow_fails env st \<longleftrightarrow> (\<exists>st' e. slow_run env st st' \<and> slow_command env st' = Inl e)"

lemma slow_run_trans: "slow_run env a b \<Longrightarrow> slow_run env b c \<Longrightarrow> slow_run env a c"
  by (induction rule: slow_run.induct) (auto intro: slow_run.step)

lemma slow_run_loop: "slow_run env st st' \<Longrightarrow> bdx_slow_loop env st = bdx_slow_loop env st'"
  by (induction rule: slow_run.induct) (simp_all add: bdx_slow_loop.simps)

lemma slow_fails_loop: "slow_fails env st \<Longrightarrow> \<exists>e. bdx_slow_loop env st = Some (Inl e)"
  by (auto simp: slow_fails_def bdx_slow_loop.simps [of env st' for st'] dest: slow_run_loop)

lemma slow_fails_run: "slow_run env st st' \<Longrightarrow> slow_fails env st' \<Longrightarrow> slow_fails env st"
  using slow_run_trans unfolding slow_fails_def by blast

lemma slow_loop_returns: "state_ok st \<Longrightarrow> \<exists>r. bdx_slow_loop env st = Some r"
proof (induction "bytes_left st" arbitrary: st rule: less_induct)
  case less
  show ?case
  proof (cases "\<exists>st'. slow_command env st = Inr (Continue st')")
    case True
    then obtain st' where s: "slow_command env st = Inr (Continue st')" ..
    with less slow_command_progress(1,2) [of env st st'] have "\<exists>r. bdx_slow_loop env st' = Some r"
      by blast
    with s show ?thesis by (simp add: bdx_slow_loop.simps [of env st])
  next
    case False
    then show ?thesis
      by (subst bdx_slow_loop.simps) (auto split: sum.split progress.split)
  qed
qed

lemma slow_loop_normalize:
  "state_ok st \<Longrightarrow> bdx_slow_loop env (normalize_state env st) =
    map_option (map_state (normalize_state env)) (bdx_slow_loop env st)"
proof (induction "bytes_left st" arbitrary: st rule: less_induct)
  case less
  show ?case
  proof (cases "slow_command env st")
    case (Inl e)
    then show ?thesis using slow_command_normalize [OF less.prems, of env]
      by (simp add: bdx_slow_loop.simps [of env st] bdx_slow_loop.simps [of env "normalize_state env st"])
  next
    case (Inr p)
    then show ?thesis
      using slow_command_normalize [OF less.prems, of env] less slow_command_progress(1,2) [of env st]
      by (cases p)
        (simp_all add: bdx_slow_loop.simps [of env st] bdx_slow_loop.simps [of env "normalize_state env st"])
  qed
qed

section \<open>The bounds fast path\<close>

definition flat_input :: "byte list \<Rightarrow> brotli_fault option \<Rightarrow> decoded" where
  "flat_input xs f = \<lparr>area = xs, pending = [], fault = f\<rparr>"

abbreviation at_bytes :: "byte list \<Rightarrow> brotli_fault option \<Rightarrow> bdx_state \<Rightarrow> bdx_state" where
  "at_bytes xs f st \<equiv> st\<lparr>bdx_in := flat_input xs f\<rparr>"

lemma flat_eq_flat_input: "flat d = flat_input (input_bytes d) (fault d)"
  by (simp add: flat_def flat_input_def)

lemma flat_input_simps [simp]:
  "input_bytes (flat_input xs f) = xs" "decoded_ok (flat_input xs f)" "flat (flat_input xs f) = flat_input xs f"
  by (simp_all add: flat_input_def input_bytes_def decoded_ok_def flat_def)

lemma try_u8_input [simp]: "try_u8 (flat_input (b # xs) f) = Inr (Some b, flat_input xs f)"
  by (simp add: try_u8_def refill_def flat_input_def consume_def)

lemma read_u8_input [simp]: "read_u8 (flat_input (b # xs) f) = Inr (unat b, flat_input xs f)"
  by (simp add: read_u8_def)

lemma read_exact_input [simp]:
  "length p = n \<Longrightarrow> read_exact n (flat_input (p @ xs) f) = Inr (p, flat_input xs f)"
  by (simp add: read_exact_def flat_input_def)

lemma skip_input: "length p = n \<Longrightarrow> as_reader (skip n) (flat_input (p @ xs) f) = Inr ((), flat_input xs f)"
  by (simp add: as_reader_def skip_def)

definition payload_delta :: "delta_width \<Rightarrow> byte list \<Rightarrow> int" where
  "payload_delta w p =
    (case w of Step n \<Rightarrow> n | Int8 \<Rightarrow> signed_8 p | Int16 \<Rightarrow> signed_be16 p | Int32 \<Rightarrow> signed_be32 p)"

definition fast_instr :: "nat \<Rightarrow> byte list \<Rightarrow> instr" where
  "fast_instr cmd p =
    (case map_of move_commands cmd of
       Some (ax, w) \<Rightarrow> MoveCursor ax (payload_delta w p)
     | None \<Rightarrow> if cmd = 31 then SetPool (unat (hd p)) else Pass)"

lemma fast_length_cases:
  assumes "fast_length cmd = Suc k"
  shows "(cmd, k) \<in> {(5, 4), (7, 4), (6, 2), (20, 2), (22, 2), (24, 2), (8, 0), (9, 0), (14, 0), (15, 0),
    (16, 0), (17, 0), (18, 0), (19, 0), (12, 4), (21, 4), (23, 4), (25, 4), (33, 4), (28, 1), (29, 1),
    (30, 1), (31, 1), (32, 2)}"
  using assms unfolding fast_length_def by (auto split: if_splits)

definition width_bytes :: "delta_width \<Rightarrow> nat" where
  "width_bytes w = (case w of Step n \<Rightarrow> 0 | Int8 \<Rightarrow> 1 | Int16 \<Rightarrow> 2 | Int32 \<Rightarrow> 4)"

lemma read_delta_input:
  assumes "length p = width_bytes w"
  shows "read_delta w (flat_input (p @ xs) f) = Inr (payload_delta w p, flat_input xs f)"
proof (cases w)
  case Int8
  with assms obtain c where "p = [c]" by (auto simp: length_Suc_conv width_bytes_def)
  then show ?thesis using Int8 by (simp add: read_delta_def read_i8_def payload_delta_def signed_8_def)
qed (use assms in \<open>simp_all add: width_bytes_def read_delta_def read_i16_def read_u16_def read_i32_def read_u32_def
      payload_delta_def signed_be16_def signed_be32_def\<close>)

lemma fast_length_move:
  assumes "fast_length cmd = Suc k" and "map_of move_commands cmd = Some (ax, w)"
  shows "k = width_bytes w"
  using fast_length_cases [OF assms(1)] assms(2)
  by (elim insertE emptyE) (auto simp add: move_commands_def width_bytes_def)

lemma fast_length_other:
  assumes "fast_length cmd = Suc k" and "map_of move_commands cmd = None"
  shows "(cmd, k) \<in> {(5, 4), (7, 4), (9, 0), (31, 1), (32, 2), (33, 4)}"
  using fast_length_cases [OF assms(1)] assms(2)
  by (elim insertE emptyE) (simp_all add: move_commands_def)

lemma read_command_fast:
  assumes "fast_length cmd = Suc k" and "length p = k"
  shows "read_command nbt True cmd (flat_input (p @ xs) f) = Inr (fast_instr cmd p, flat_input xs f)"
proof (cases "map_of move_commands cmd")
  case None
  from fast_length_other [OF assms(1) None] consider "cmd \<in> {5, 7}" "k = 4" | "cmd = 9" "k = 0"
    | "cmd = 31" "k = 1" | "cmd = 32" "k = 2" | "cmd = 33" "k = 4" by auto
  then show ?thesis
  proof cases
    case 3
    then obtain c where "p = [c]" using assms(2) by (auto simp: length_Suc_conv)
    with 3 None show ?thesis by (simp add: read_command_def fast_instr_def)
  qed (use None assms(2) in \<open>auto simp: read_command_def fast_instr_def read_bounds_def skip_input read_u32_def\<close>)
next
  case (Some m)
  obtain ax w where m: "m = (ax, w)" by (cases m)
  have "length p = width_bytes w" using fast_length_move [OF assms(1) Some [unfolded m]] assms(2) by simp
  then show ?thesis using Some m by (simp add: read_command_def fast_instr_def read_delta_input)
qed

lemma execute_fast:
  assumes "fast_length cmd = Suc k"
  shows "execute env (fast_instr cmd p) st = fast_effect cmd p st"
  using fast_length_cases [OF assms]
  by (elim insertE emptyE)
    (simp_all add: fast_instr_def move_commands_def fast_effect_def execute_def payload_delta_def)

definition fast_done :: "nat \<Rightarrow> bdx_state \<Rightarrow> bdx_state" where
  "fast_done cmd st =
    (let st' = st\<lparr>command_index := command_index st + 1\<rparr>
     in if cmd = 31 then st' else update_bounds st')"

lemma move_cursor_other:
  "move_cursor ax n (st\<lparr>bdx_in := d, command_index := c\<rparr>) =
    map_state (\<lambda>s. s\<lparr>bdx_in := d, command_index := c\<rparr>) (move_cursor ax n st)"
  by (cases ax) (auto simp: move_cursor_def add_coordinate_def Let_def)

lemma fast_effect_other:
  "fast_effect cmd p (st\<lparr>bdx_in := d, command_index := c\<rparr>) =
    map_state (\<lambda>s. s\<lparr>bdx_in := d, command_index := c\<rparr>) (fast_effect cmd p st)"
  unfolding fast_effect_def by (simp add: move_cursor_other)

lemma move_cursor_index: "move_cursor ax n st = Inr st' \<Longrightarrow> command_index st' = command_index st"
  by (auto simp: move_cursor_def and_then_eq_Inr_iff Let_def)

lemma fast_effect_index: "fast_effect cmd p st = Inr st' \<Longrightarrow> command_index st' = command_index st"
  unfolding fast_effect_def by (auto dest: move_cursor_index split: if_splits)

lemma fast_step:
  assumes env: "bounds_only env" and n: "fast_length (unat b) = Suc k" and p: "length p = k"
  shows "slow_command env (at_bytes (b # p @ xs) f st) =
    (case fast_effect (unat b) p st of Inl e \<Rightarrow> Inl e
     | Inr st' \<Rightarrow> Inr (Continue (at_bytes xs f (fast_done (unat b) st'))))"
proof -
  have meta: "is_metadata (fast_instr (unat b) p) = (unat b = 31)" "fast_instr (unat b) p \<noteq> Terminate"
    using fast_length_cases [OF n]
    by (elim insertE emptyE; simp add: fast_instr_def move_commands_def is_metadata_def)+
  have "slow_command env (at_bytes (b # p @ xs) f st) =
      run_instr env (fast_instr (unat b) p) (at_bytes xs f st)"
    using env read_command_fast [OF n p] by (simp add: slow_command_run)
  also have "\<dots> = and_then (fast_effect (unat b) p
      (st\<lparr>bdx_in := flat_input xs f, command_index := command_index st + 1\<rparr>)) (\<lambda>st'.
      Inr (Continue (if unat b = 31 then st' else update_bounds st')))"
    by (simp add: run_instr_def meta execute_fast [OF n])
  finally show ?thesis unfolding fast_effect_other
    by (cases "fast_effect (unat b) p st")
      (auto simp: fast_done_def update_bounds_def Let_def fast_effect_index)
qed

lemma bounds_scan_run:
  assumes "bounds_only env"
  shows "(\<forall>n st'. bounds_scan bs st = Inr (n, st') \<longrightarrow>
      n \<le> length bs \<and> slow_run env (at_bytes (bs @ rest) f st) (at_bytes (drop n bs @ rest) f st')) \<and>
    (\<forall>e. bounds_scan bs st = Inl e \<longrightarrow> slow_fails env (at_bytes (bs @ rest) f st))"
proof (induction bs st rule: bounds_scan.induct)
  case (1 st)
  then show ?case by (simp add: slow_run.refl)
next
  case (2 b bs st)
  let ?n = "fast_length (unat b)"
  show ?case
  proof (cases "?n = 0 \<or> length (b # bs) < ?n")
    case True
    then show ?thesis by (auto simp: slow_run.refl)
  next
    case False
    then obtain k where k: "?n = Suc k" "k \<le> length bs" by (cases ?n) auto
    have split: "bs = take k bs @ drop k bs" "length (take k bs) = k" using k by simp_all
    have step: "slow_command env (at_bytes ((b # bs) @ rest) f st) =
      (case fast_effect (unat b) (take k bs) st of Inl e \<Rightarrow> Inl e
       | Inr st' \<Rightarrow> Inr (Continue (at_bytes (drop k bs @ rest) f (fast_done (unat b) st'))))"
      using fast_step [OF assms k(1) split(2), of "drop k bs @ rest" f st] split(1)
      by (metis append.assoc append_Cons)
    show ?thesis
    proof (cases "fast_effect (unat b) (take k bs) st")
      case (Inl e)
      have "slow_command env (at_bytes ((b # bs) @ rest) f st) = Inl e" using step Inl by simp
      then have "slow_fails env (at_bytes ((b # bs) @ rest) f st)"
        unfolding slow_fails_def using slow_run.refl by blast
      then show ?thesis using False k Inl by simp
    next
      case (Inr st1)
      let ?st2 = "fast_done (unat b) st1"
      have scan: "bounds_scan (b # bs) st =
          and_then (bounds_scan (drop k bs) ?st2) (\<lambda>(m, st3). Inr (?n + m, st3))"
        using False k Inr by (simp add: fast_done_def Let_def)
      have IH: "(\<forall>n st'. bounds_scan (drop k bs) ?st2 = Inr (n, st') \<longrightarrow>
          n \<le> length (drop k bs) \<and> slow_run env (at_bytes (drop k bs @ rest) f ?st2) (at_bytes (drop n (drop k bs) @ rest) f st')) \<and>
        (\<forall>e. bounds_scan (drop k bs) ?st2 = Inl e \<longrightarrow> slow_fails env (at_bytes (drop k bs @ rest) f ?st2))"
        using 2 [OF HOL.refl False, of st1] False k Inr by (simp add: fast_done_def Let_def)
      have one: "slow_run env (at_bytes ((b # bs) @ rest) f st) (at_bytes (drop k bs @ rest) f ?st2)"
        using step Inr by (intro slow_run.step [OF _ slow_run.refl]) simp
      show ?thesis
      proof (cases "bounds_scan (drop k bs) ?st2")
        case (Inl e)
        then have "slow_fails env (at_bytes (drop k bs @ rest) f ?st2)" using IH by blast
        with one Inl show ?thesis unfolding scan by (auto intro: slow_fails_run)
      next
        case r: (Inr r)
        obtain m st3 where m: "r = (m, st3)" by (cases r)
        with r IH have "m \<le> length (drop k bs)"
          "slow_run env (at_bytes (drop k bs @ rest) f ?st2) (at_bytes (drop m (drop k bs) @ rest) f st3)" by blast+
        with one r m k show ?thesis unfolding scan
          by (auto intro: slow_run_trans simp: add.commute)
      qed
    qed
  qed
qed

end
