(* ===== verification/WS_BdxRun.thy ===== *)
theory WS_BdxRun
  imports WS_BdxFrame
begin

text \<open>
  The Z run fast path of the BDX reader: resolving all runtime ids first and then placing the
  whole run does what placing and stepping pair by pair does.
\<close>

section \<open>The Z run: resolving\<close>

definition same_tables :: "bdx_state \<Rightarrow> bdx_state \<Rightarrow> bool" where
  "same_tables s t \<longleftrightarrow> constants s = constants t \<and> state_cache s = state_cache t \<and>
    state_direct s = state_direct t"

definition with_tables :: "bdx_state \<Rightarrow> bdx_state \<Rightarrow> bdx_state" where
  "with_tables s t = t\<lparr>state_cache := state_cache s, state_direct := state_direct s\<rparr>"

lemma state_runtime_tables:
  assumes "same_tables s t"
  shows "constant_state_runtime env n i t =
    (case constant_state_runtime env n i s of Inl e \<Rightarrow> Inl e | Inr (r, s') \<Rightarrow> Inr (r, with_tables s' t))"
    and "constant_state_runtime env n i s = Inr (r, s') \<Longrightarrow> s' = with_tables s' s"
proof -
  have hit: "direct_hit k t = direct_hit k s" for k using assms by (simp add: direct_hit_def same_tables_def)
  have res: "resolve_state_runtime env n x t = resolve_state_runtime env n x s"
    "constant_string i t = constant_string i s" for x
    using assms by (simp_all add: resolve_state_runtime_def constant_string_def same_tables_def)
  show "constant_state_runtime env n i t =
    (case constant_state_runtime env n i s of Inl e \<Rightarrow> Inl e | Inr (r, s') \<Rightarrow> Inr (r, with_tables s' t))"
  proof (cases "direct_hit (n * 65536 + i) s")
    case (Some r)
    then show ?thesis using assms
      by (simp add: constant_state_runtime_def hit Let_def with_tables_def same_tables_def)
  next
    case None
    show ?thesis
    proof (cases "map_of (state_cache s) (n * 65536 + i)")
      case (Some r)
      then show ?thesis using None assms
        by (simp add: constant_state_runtime_def hit Let_def with_tables_def same_tables_def direct_put_def)
    next
      case n2: None
      let ?v = "case constant_string i s of Some x \<Rightarrow> resolve_state_runtime env n x s | None \<Rightarrow> Inr (air env)"
      have v: "(case constant_string i t of Some x \<Rightarrow> resolve_state_runtime env n x t | None \<Rightarrow> Inr (air env)) = ?v"
        by (simp add: res cong: option.case_cong)
      show ?thesis using None n2 assms
        by (cases ?v) (simp_all add: constant_state_runtime_def hit Let_def with_tables_def same_tables_def
            direct_put_def v)
    qed
  qed
  show "constant_state_runtime env n i s = Inr (r, s') \<Longrightarrow> s' = with_tables s' s"
    by (auto simp: constant_state_runtime_def Let_def with_tables_def direct_put_def and_then_eq_Inr_iff
        split: option.splits)
qed

abbreviation not_air :: "bdx_env \<Rightarrow> runtime_id list \<Rightarrow> nat" where
  "not_air env rs \<equiv> length (filter (\<lambda>r. r \<noteq> air env) rs)"

definition resolved :: "bdx_env \<Rightarrow> runtime_id list \<Rightarrow> bdx_state \<Rightarrow> bdx_state \<Rightarrow> bdx_state" where
  "resolved env rs s t = (with_tables s t)\<lparr>non_air := non_air t + not_air env rs\<rparr>"

lemma resolve_run_tables:
  assumes "same_tables s t"
  shows "resolve_run env ps t =
      (case resolve_run env ps s of Inl e \<Rightarrow> Inl e | Inr (rs, s') \<Rightarrow> Inr (rs, resolved env rs s' t))"
    and "resolve_run env ps s = Inr (rs, s') \<Longrightarrow> s' = resolved env rs s' s \<and> length rs = length ps"
proof -
  have "resolve_run env ps t =
      (case resolve_run env ps s of Inl e \<Rightarrow> Inl e | Inr (rs, s') \<Rightarrow> Inr (rs, resolved env rs s' t)) \<and>
    (\<forall>rs s'. resolve_run env ps s = Inr (rs, s') \<longrightarrow> s' = resolved env rs s' s \<and> length rs = length ps)"
    using assms
  proof (induction ps arbitrary: s t)
    case Nil
    then show ?case by (simp add: resolved_def with_tables_def same_tables_def)
  next
    case (Cons p ps)
    note c = state_runtime_tables [OF Cons.prems, of env "fst p" "snd p"]
    show ?case
    proof (cases "constant_state_runtime env (fst p) (snd p) s")
      case (Inl e)
      then show ?thesis using c(1) by simp
    next
      case (Inr x)
      obtain r s1 where x: "x = (r, s1)" by (cases x)
      have s1: "s1 = with_tables s1 s" using c(2) Inr x by blast
      let ?s2 = "if r \<noteq> air env then s1\<lparr>non_air := non_air s1 + 1\<rparr> else s1"
      let ?t1 = "with_tables s1 t"
      let ?t2 = "if r \<noteq> air env then ?t1\<lparr>non_air := non_air ?t1 + 1\<rparr> else ?t1"
      have "constants s1 = constants s" by (subst s1) (simp add: with_tables_def)
      then have tab: "same_tables ?s2 ?t2"
        using Cons.prems by (simp add: same_tables_def with_tables_def)
      have t: "resolve_run env (p # ps) t =
          and_then (resolve_run env ps ?t2) (\<lambda>(rs, s3). Inr (r # rs, s3))"
        using c(1) Inr x by (simp add: Let_def)
      have s: "resolve_run env (p # ps) s =
          and_then (resolve_run env ps ?s2) (\<lambda>(rs, s3). Inr (r # rs, s3))"
        using Inr x by (simp add: Let_def)
      show ?thesis
      proof (cases "resolve_run env ps ?s2")
        case (Inl e)
        then show ?thesis using Cons.IH [OF tab] s t by simp
      next
        case r2: (Inr y)
        obtain rs s3 where y: "y = (rs, s3)" by (cases y)
        have s3: "s3 = resolved env rs s3 ?s2" "length rs = length ps"
          and t3: "resolve_run env ps ?t2 = Inr (rs, resolved env rs s3 ?t2)"
          using Cons.IH [OF tab] r2 y by auto
        have tt: "resolved env rs s3 ?t2 = resolved env (r # rs) s3 t"
          by (simp add: resolved_def with_tables_def)
        have "with_tables s3 (s1\<lparr>non_air := k\<rparr>) = with_tables s3 (s\<lparr>non_air := k\<rparr>)" for k
          by (subst s1) (simp add: with_tables_def)
        moreover have "non_air s1 = non_air s" by (subst s1) (simp add: with_tables_def)
        moreover have "resolved env ws s3 u = with_tables s3 (u\<lparr>non_air := non_air u + not_air env ws\<rparr>)" for ws u
          by (simp add: resolved_def with_tables_def)
        ultimately have "resolved env rs s3 ?s2 = resolved env (r # rs) s3 s" by simp
        with s t r2 y s3 t3 tt show ?thesis by auto
      qed
    qed
  qed
  then show "resolve_run env ps t =
      (case resolve_run env ps s of Inl e \<Rightarrow> Inl e | Inr (rs, s') \<Rightarrow> Inr (rs, resolved env rs s' t))"
    and "resolve_run env ps s = Inr (rs, s') \<Longrightarrow> s' = resolved env rs s' s \<and> length rs = length ps"
    by blast+
qed

section \<open>The Z run: its effect\<close>

definition ok_part :: "('e, 'a) result \<Rightarrow> 'a option" where
  "ok_part r = (case r of Inl e \<Rightarrow> None | Inr a \<Rightarrow> Some a)"

lemma ok_part_simps [simp]: "ok_part (Inl e) = None" "ok_part (Inr a) = Some a"
  by (simp_all add: ok_part_def)

lemma ok_part_iff: "ok_part r = Some a \<longleftrightarrow> r = Inr a" "ok_part r = None \<longleftrightarrow> (\<exists>e. r = Inl e)"
  by (cases r; simp)+

lemma ok_part_and_then: "ok_part (and_then m f) = Option.bind (ok_part m) (\<lambda>a. ok_part (f a))"
  by (cases m) simp_all

definition single_call :: "block_pos \<times> runtime_id \<Rightarrow> consumer_call" where
  "single_call b = SingleCall (fst b) (snd b)"

definition run_cells :: "block_pos \<Rightarrow> runtime_id list \<Rightarrow> (block_pos \<times> runtime_id) list" where
  "run_cells start rs = map (\<lambda>(i, r). (run_position start i, r)) (enumerate 0 rs)"

definition run_effect :: "bdx_env \<Rightarrow> runtime_id list \<Rightarrow> bdx_state \<Rightarrow> bdx_state" where
  "run_effect env rs st =
    (let p = cursor st; q = run_position p (length rs); cells = run_cells p rs;
         solid = filter (\<lambda>b. snd b \<noteq> air env) cells
     in st\<lparr>placement_calls := placement_calls st @
             (if placement_consumer env then map single_call cells else []),
           entity_map := (if capture_entities env
             then fold (\<lambda>b m. umap_erase (fst b) m) cells (entity_map st) else entity_map st),
           placed_blocks := placed_blocks st @ (if materialize env then solid else []),
           block_calls := block_calls st @ (if block_consumer env then map single_call solid else []),
           low := pos_min (pos_min (low st) p) q,
           high := pos_max (pos_max (high st) p) q,
           cursor := q,
           command_index := command_index st + length rs * 2\<rparr>)"

definition fits :: "bdx_env \<Rightarrow> runtime_id list \<Rightarrow> bdx_state \<Rightarrow> bool" where
  "fits env rs st \<longleftrightarrow> pos_z (cursor st) + int (length rs) \<le> INT32_MAX \<and>
    (materialize env \<and> not_air env rs \<noteq> 0 \<longrightarrow>
      length (placed_blocks st) + not_air env rs \<le> kMaximumMaterializedBlocks)"

lemma run_cells_simps [simp]: "run_cells p [] = []"
  "run_cells p (r # rs) = (p, r) # run_cells (run_position p 1) rs"
proof -
  have "enumerate (Suc 0) rs = map (\<lambda>(i, r). (Suc i, r)) (enumerate 0 rs)"
    by (auto simp: enumerate_Suc_eq)
  moreover have "run_position p 0 = p" by (cases p) (simp add: run_position_def)
  moreover have "run_position p (Suc i) = run_position (run_position p 1) i" for i
    by (simp add: run_position_def algebra_simps)
  ultimately show "run_cells p (r # rs) = (p, r) # run_cells (run_position p 1) rs"
    by (simp add: run_cells_def case_prod_unfold comp_def del: One_nat_def)
qed (simp add: run_cells_def)

lemma run_blocks_cells: "run_blocks env p rs = filter (\<lambda>b. snd b \<noteq> air env) (run_cells p rs)"
  by (simp add: run_blocks_def run_cells_def)

lemma run_position_add: "run_position (run_position p m) n = run_position p (m + n)"
  by (simp add: run_position_def algebra_simps)

lemma length_run_solid: "length (filter (\<lambda>b. snd b \<noteq> air env) (run_cells p rs)) = not_air env rs"
  by (induction rs arbitrary: p) simp_all

lemma run_bounds:
  "pos_min (pos_min (pos_min (pos_min l p) (run_position p 1)) (run_position p 1)) (run_position p (1 + n)) =
    pos_min (pos_min l p) (run_position p (1 + n))"
  "pos_max (pos_max (pos_max (pos_max l p) (run_position p 1)) (run_position p 1)) (run_position p (1 + n)) =
    pos_max (pos_max l p) (run_position p (1 + n))"
  by (simp_all add: pos_min_def pos_max_def run_position_def)

lemma run_effect_cons:
  "run_effect env (r # rs) st = run_effect env rs (run_effect env [r] st)" if "rs \<noteq> []"
  using run_bounds [of "low st" "cursor st" "length rs"] run_bounds [of "high st" "cursor st" "length rs"]
  by (simp add: run_effect_def Let_def run_position_add)

lemma fits_cons: "fits env (r # rs) st \<longleftrightarrow> fits env [r] st \<and> fits env rs (run_effect env [r] st)"
  by (auto simp: fits_def run_effect_def Let_def run_position_def)

lemma resolved_run_effect:
  "resolved env ws s (run_effect env rs t) = run_effect env rs (resolved env ws s t)"
  by (simp add: resolved_def with_tables_def run_effect_def Let_def)

lemma fits_resolved [simp]: "fits env rs (resolved env ws s t) = fits env rs t"
  by (simp add: resolved_def with_tables_def fits_def)

definition run_once :: "bdx_env \<Rightarrow> instr \<Rightarrow> bdx_state \<Rightarrow> (bdx_error, bdx_state) result" where
  "run_once env i st =
    and_then (execute env i (st\<lparr>command_index := command_index st + 1\<rparr>)) (\<lambda>s. Inr (update_bounds s))"

definition pair_step :: "bdx_env \<Rightarrow> nat \<times> nat \<Rightarrow> bdx_state \<Rightarrow> (bdx_error, bdx_state) result" where
  "pair_step env p st =
    and_then (run_once env (Place (ByState (fst p) (snd p)) None) st) (run_once env (MoveCursor AxisZ 1))"

lemma place_plain:
  "place env r None st =
    (if r \<noteq> air env \<and> materialize env \<and> kMaximumMaterializedBlocks \<le> length (placed_blocks st)
     then Inl TooManyBlocks
     else Inr (if r = air env then notify_placement env r (drop_entity env None st)
       else let s = notify_block env r (keep_block env r (notify_placement env r (drop_entity env None st)))
            in s\<lparr>non_air := non_air s + 1\<rparr>))"
  by (simp add: place_def store_entity_def Let_def notify_placement_def drop_entity_def)

lemma pair_step_eq:
  assumes "in_s32 (pos_z (cursor st))"
  shows "ok_part (pair_step env p st) =
    Option.bind (ok_part (constant_state_runtime env (fst p) (snd p) st)) (\<lambda>(r, s).
      if fits env [r] st then Some (run_effect env [r] (resolved env [r] s st)) else None)"
proof (cases "constant_state_runtime env (fst p) (snd p) st")
  case (Inl e)
  have "same_tables st (st\<lparr>command_index := command_index st + 1\<rparr>)" by (simp add: same_tables_def)
  from state_runtime_tables(1) [OF this, of env "fst p" "snd p"] Inl show ?thesis
    by (simp add: pair_step_def run_once_def execute_def source_runtime_def)
next
  case (Inr x)
  obtain r s where x: "x = (r, s)" by (cases x)
  let ?st1 = "st\<lparr>command_index := command_index st + 1\<rparr>"
  have "same_tables st ?st1" by (simp add: same_tables_def)
  from state_runtime_tables(1) [OF this, of env "fst p" "snd p"] Inr x
  have src: "source_runtime env (ByState (fst p) (snd p)) ?st1 = Inr (r, with_tables s ?st1)"
    by (simp add: source_runtime_def)
  have step: "run_position q 1 = BlockPos (pos_x q) (pos_y q) (pos_z q + 1)" for q
    by (simp add: run_position_def)
  have z: "- 2147483648 \<le> pos_z (cursor st)" using assms by (simp add: range_simps)
  have over: "(kMaximumMaterializedBlocks \<le> n) = (\<not> n + 1 \<le> kMaximumMaterializedBlocks)" for n by auto
  show ?thesis
  proof (cases "r \<noteq> air env \<and> materialize env \<and> kMaximumMaterializedBlocks \<le> length (placed_blocks st)")
    case True
    then have "\<not> fits env [r] st" by (auto simp: fits_def)
    with True Inr x show ?thesis
      by (simp add: pair_step_def run_once_def execute_def src [simplified] place_plain with_tables_def)
  next
    case ok: False
    have fit: "fits env [r] st \<longleftrightarrow> pos_z (cursor st) + 1 \<le> 2147483647"
      using ok by (auto simp: fits_def range_simps)
    define t where "t = (if r = air env then notify_placement env r (drop_entity env None (with_tables s ?st1))
       else let s = notify_block env r (keep_block env r (notify_placement env r (drop_entity env None (with_tables s ?st1))))
            in s\<lparr>non_air := non_air s + 1\<rparr>)"
    have one: "run_once env (Place (ByState (fst p) (snd p)) None) st = Inr (update_bounds t)"
      using ok by (auto simp: run_once_def execute_def src [simplified] place_plain t_def with_tables_def)
    have cur: "cursor t = cursor st"
      by (simp add: t_def Let_def notify_placement_def drop_entity_def notify_block_def keep_block_def with_tables_def)
    have two: "ok_part (run_once env (MoveCursor AxisZ 1) (update_bounds t)) =
      (if pos_z (cursor st) + 1 \<le> 2147483647
       then Some (update_bounds ((update_bounds t)\<lparr>command_index := command_index t + 1,
         cursor := run_position (cursor st) 1\<rparr>)) else None)"
      using z by (simp add: run_once_def execute_def move_cursor_def add_coordinate_def Let_def update_bounds_def
          cur range_simps step [simplified])
    have "update_bounds ((update_bounds t)\<lparr>command_index := command_index t + 1,
         cursor := run_position (cursor st) 1\<rparr>) = run_effect env [r] (resolved env [r] s st)"
      by (rule bdx_state.equality)
        (simp_all add: t_def Let_def notify_placement_def drop_entity_def notify_block_def keep_block_def
          with_tables_def resolved_def run_effect_def update_bounds_def single_call_def)
    then show ?thesis using one two fit Inr x by (simp add: pair_step_def)
  qed
qed

lemma run_effect_cursor [simp]:
  "cursor (run_effect env rs st) = run_position (cursor st) (length rs)"
  by (simp add: run_effect_def Let_def)

lemma same_tables_run_effect: "same_tables st (run_effect env rs st)"
  by (simp add: same_tables_def run_effect_def Let_def)

lemma fold_pairs:
  assumes "ps \<noteq> []" and "in_s32 (pos_z (cursor st))"
  shows "ok_part (fold_result (pair_step env) ps st) =
    Option.bind (ok_part (resolve_run env ps st)) (\<lambda>(rs, s).
      if fits env rs st then Some (run_effect env rs s) else None)"
  using assms
proof (induction ps arbitrary: st rule: list_nonempty_induct)
  case (single p)
  note step = pair_step_eq [OF single, of env p]
  show ?case
  proof (cases "constant_state_runtime env (fst p) (snd p) st")
    case (Inl e)
    then show ?thesis using step by (auto simp: ok_part_and_then)
  next
    case (Inr x)
    obtain r s where x: "x = (r, s)" by (cases x)
    have s: "s = with_tables s st" using state_runtime_tables(2) [of st st] Inr x by (simp add: same_tables_def)
    have "with_tables s st = s" using s by simp
    moreover have "resolved env [r] s st = (with_tables s st)\<lparr>non_air := non_air (with_tables s st) + not_air env [r]\<rparr>"
      by (simp add: resolved_def with_tables_def)
    ultimately have "resolved env [r] s st = s\<lparr>non_air := non_air s + not_air env [r]\<rparr>" by simp
    then show ?thesis using step Inr x by (simp add: ok_part_and_then Let_def option.case_eq_if)
  qed
next
  case (cons p ps)
  note step = pair_step_eq [OF cons.prems, of env p]
  show ?case
  proof (cases "constant_state_runtime env (fst p) (snd p) st")
    case (Inl e)
    then show ?thesis using step by (auto simp: ok_part_and_then)
  next
    case (Inr x)
    obtain r s where x: "x = (r, s)" by (cases x)
    have "with_tables s st = s"
      using state_runtime_tables(2) [of st st env "fst p" "snd p" r s] Inr x by (simp add: same_tables_def)
    moreover have "resolved env [r] s st = (with_tables s st)\<lparr>non_air := non_air (with_tables s st) + not_air env [r]\<rparr>"
      by (simp add: resolved_def with_tables_def)
    ultimately have res: "(if r \<noteq> air env then s\<lparr>non_air := non_air s + 1\<rparr> else s) = resolved env [r] s st"
      by simp
    let ?s1 = "resolved env [r] s st" and ?t = "run_effect env [r] (resolved env [r] s st)"
    have run: "resolve_run env (p # ps) st =
        and_then (resolve_run env ps ?s1) (\<lambda>(rs, s3). Inr (r # rs, s3))"
      using Inr x by (simp add: Let_def res)
    note tab = resolve_run_tables(1) [OF same_tables_run_effect [of ?s1 env "[r]"], of env ps]
    show ?thesis
    proof (cases "fits env [r] st")
      case False
      have "\<not> fits env (r # rs) st" for rs using False fits_cons by blast
      then show ?thesis using step False Inr x run
        by (cases "resolve_run env ps ?s1") (auto simp: ok_part_and_then)
    next
      case True
      have cur: "cursor ?s1 = cursor st" by (simp add: resolved_def with_tables_def)
      have "in_s32 (pos_z (cursor ?t))"
        using True cons.prems cur by (simp add: fits_def run_position_def range_simps)
      note IH = cons.IH [OF this]
      have "ok_part (fold_result (pair_step env) (p # ps) st) = ok_part (fold_result (pair_step env) ps ?t)"
        using step True Inr x by (simp add: ok_part_and_then)
      also have "\<dots> = Option.bind (ok_part (resolve_run env (p # ps) st)) (\<lambda>(rs, s).
          if fits env rs st then Some (run_effect env rs s) else None)"
      proof (cases "resolve_run env ps ?s1")
        case (Inl e)
        then show ?thesis using IH tab run by simp
      next
        case (Inr y)
        obtain rs s3 where y: "y = (rs, s3)" by (cases y)
        note s3 = resolve_run_tables(2) [of ?s1 ?s1 env ps rs s3]
        have eq: "resolved env rs s3 ?s1 = s3" and len: "length rs = length ps"
          using s3 Inr y by (simp_all add: same_tables_def)
        have ne: "rs \<noteq> []" using len cons.hyps by auto
        have "resolved env rs s3 ?t = run_effect env [r] s3"
          unfolding resolved_run_effect eq ..
        moreover have "fits env rs ?t \<longleftrightarrow> fits env (r # rs) st"
          using True fits_cons [of env r rs ?s1] by simp
        ultimately show ?thesis using IH tab run Inr y run_effect_cons [OF ne, of env r s3] by simp
      qed
      finally show ?thesis .
    qed
  qed
qed

lemma fold_erase:
  "fold (\<lambda>b m. umap_erase (f b) m) xs m = filter (\<lambda>e. fst e \<notin> f ` set xs) m"
  by (induction xs arbitrary: m) (auto simp: umap_erase_def intro: filter_cong)

lemma in_run_iff: "in_run p n q \<longleftrightarrow> q \<in> run_position p ` {0..<n}"
proof
  assume r: "in_run p n q"
  then have "q = run_position p (nat (pos_z q - pos_z p))" "nat (pos_z q - pos_z p) < n"
    by (cases q, auto simp: in_run_def run_position_def)
  then show "q \<in> run_position p ` {0..<n}" by auto
qed (auto simp: in_run_def run_position_def)

lemma run_cells_fst: "fst ` set (run_cells p rs) = run_position p ` {0..<length rs}"
proof -
  have "map fst (run_cells p rs) = map (run_position p \<circ> fst) (enumerate 0 rs)"
    by (simp add: run_cells_def case_prod_unfold comp_def)
  also have "\<dots> = map (run_position p) (map fst (enumerate 0 rs))" by (simp only: map_map)
  also have "map fst (enumerate 0 rs) = [0..<length rs]" by (simp add: enumerate_eq_zip)
  finally have "map fst (run_cells p rs) = map (run_position p) [0..<length rs]" .
  then have "set (map fst (run_cells p rs)) = set (map (run_position p) [0..<length rs])" by simp
  then show ?thesis by simp
qed

lemma erase_run_entities_eq:
  "erase_run_entities (length rs) st =
    st\<lparr>entity_map := fold (\<lambda>b m. umap_erase (fst b) m) (run_cells (cursor st) rs) (entity_map st)\<rparr>"
  by (simp add: erase_run_entities_def fold_erase in_run_iff run_cells_fst)

definition consistent :: "bdx_env \<Rightarrow> bool" where
  "consistent env \<longleftrightarrow> (run_consumer env \<longrightarrow> block_consumer env) \<and>
    placement_run_consumer env = placement_consumer env"

lemma normalize_calls [simp]:
  "concat (map (single_blocks env \<circ> single_call) cells) = map single_call cells"
  "concat (map (single_placements \<circ> single_call) cells) = map single_call cells"
  by (induction cells) (simp_all add: single_blocks_def single_placements_def single_call_def)

lemma single_blocks_run:
  "single_blocks env (RunCall p rs b) = map single_call (filter (\<lambda>b. snd b \<noteq> air env) (run_cells p rs))"
  by (simp add: single_blocks_def run_blocks_cells single_call_def case_prod_unfold)

lemma single_placements_run: "single_placements (RunCall p rs b) = map single_call (run_cells p rs)"
  by (simp add: single_placements_def run_cells_def single_call_def case_prod_unfold)

lemma place_run_stages:
  "cursor (drop_run_entities env n st) = cursor st" "cursor (notify_run_placements env rs st) = cursor st"
  "cursor (keep_run env rs st) = cursor st" "cursor (notify_run_blocks env rs st) = cursor st"
  "placed_blocks (drop_run_entities env n st) = placed_blocks st"
  "placed_blocks (notify_run_placements env rs st) = placed_blocks st"
  by (simp_all add: drop_run_entities_def erase_run_entities_def notify_run_placements_def keep_run_def
      notify_run_blocks_def)

lemma drop_run_entities_eq:
  "drop_run_entities env (length rs) st =
    (if capture_entities env
     then st\<lparr>entity_map := fold (\<lambda>b m. umap_erase (fst b) m) (run_cells (cursor st) rs) (entity_map st)\<rparr>
     else st)"
  by (simp add: drop_run_entities_def erase_run_entities_eq fold_erase)

lemma materialize_limit:
  "\<not> (m - min m (n :: nat) < k) \<longleftrightarrow> k = 0 \<or> n + k \<le> m"
  by auto

lemma place_run_eq:
  assumes env: "consistent env" and z: "in_s32 (pos_z (cursor s))"
    and n: "n = length rs" "0 < n" "int n \<le> INT32_MAX"
  shows "map_option (normalize_state env) (ok_part (place_run env rs n s)) =
    (if fits env rs s then Some (normalize_state env (run_effect env rs s)) else None)"
proof -
  let ?p = "cursor s"
  let ?s1 = "drop_run_entities env n (notify_run_placements env rs s)"
  let ?s2 = "update_bounds (notify_run_blocks env rs (keep_run env rs ?s1))"
  have z': "- 2147483648 \<le> pos_z ?p" "1 \<le> int n" "int n \<le> 2147483647"
    using z n(2,3) by (simp_all add: range_simps)
  have limit: "(materialize env \<and> kMaximumMaterializedBlocks -
      min kMaximumMaterializedBlocks (length (placed_blocks ?s1)) < not_air env rs) \<longleftrightarrow>
    materialize env \<and> \<not> (not_air env rs = 0 \<or> length (placed_blocks s) + not_air env rs \<le> kMaximumMaterializedBlocks)"
    using materialize_limit [of kMaximumMaterializedBlocks "length (placed_blocks s)" "not_air env rs"]
    by (auto simp: place_run_stages)
  have cur: "cursor ?s2 = ?p" by (simp add: update_bounds_def place_run_stages)
  have move: "move_cursor AxisZ (int n) ?s2 =
      (if 2147483647 < pos_z ?p + int n then Inl CursorOutOfRange
       else Inr (?s2\<lparr>cursor := run_position ?p n\<rparr>))"
    using z' by (simp add: move_cursor_def add_coordinate_def Let_def cur range_simps run_position_def)
  have fit: "fits env rs s \<longleftrightarrow> pos_z ?p + int n \<le> 2147483647 \<and>
      \<not> (materialize env \<and> \<not> (not_air env rs = 0 \<or> length (placed_blocks s) + not_air env rs \<le> kMaximumMaterializedBlocks))"
    using n(1) by (auto simp: fits_def range_simps)
  have run: "place_run env rs n s =
    (if 2147483647 < pos_z ?p + int n - 1 then Inl ZRunOutOfRange
     else if materialize env \<and> \<not> (not_air env rs = 0 \<or> length (placed_blocks s) + not_air env rs \<le> kMaximumMaterializedBlocks)
     then Inl TooManyBlocks
     else and_then (move_cursor AxisZ (int n) ?s2) (\<lambda>st3.
       Inr ((update_bounds st3)\<lparr>command_index := command_index (update_bounds st3) + n * 2\<rparr>)))"
    unfolding place_run_def Let_def limit using z' by (simp add: range_simps)
  show ?thesis
  proof (cases "fits env rs s")
    case False
    then have "ok_part (place_run env rs n s) = None" unfolding run move using fit by auto
    with False show ?thesis by simp
  next
    case True
    let ?t = "update_bounds (?s2\<lparr>cursor := run_position ?p n\<rparr>)"
    have "ok_part (place_run env rs n s) = Some (?t\<lparr>command_index := command_index ?t + n * 2\<rparr>)"
      unfolding run move using fit True by auto
    moreover have "normalize_state env (?t\<lparr>command_index := command_index ?t + n * 2\<rparr>) =
        normalize_state env (run_effect env rs s)"
      using env unfolding n(1) consistent_def
      by (intro bdx_state.equality)
        (simp_all add: normalize_state_def update_bounds_def run_effect_def Let_def keep_run_def
          notify_run_blocks_def notify_run_placements_def drop_run_entities_eq single_blocks_run
          single_placements_run run_blocks_cells single_call_def [symmetric] case_prod_unfold
          del: One_nat_def)
    ultimately show ?thesis using True by simp
  qed
qed

lemma z_run_eq:
  assumes env: "consistent env" and z: "in_s32 (pos_z (cursor st))"
    and len: "ps \<noteq> []" "int (length ps) \<le> INT32_MAX"
  shows "map_option (normalize_state env) (ok_part (z_run env ps st)) =
    map_option (normalize_state env) (ok_part (fold_result (pair_step env) ps st))"
proof (cases "resolve_run env ps st")
  case (Inl e)
  then show ?thesis by (simp add: z_run_def fold_pairs [OF len(1) z])
next
  case (Inr x)
  obtain rs s where x: "x = (rs, s)" by (cases x)
  have s: "s = resolved env rs s st" and l: "length rs = length ps"
    using resolve_run_tables(2) [of st st env ps rs s] Inr x by (simp_all add: same_tables_def)
  have "fits env rs s = fits env rs st" using fits_resolved [of env rs rs s st] s by simp
  moreover have "cursor s = cursor st" by (subst s) (simp add: resolved_def with_tables_def)
  moreover have "0 < length ps" using len(1) by simp
  ultimately show ?thesis
    using place_run_eq [OF env, of s "length ps" rs] z len l Inr x
    by (simp add: z_run_def fold_pairs [OF len(1) z])
qed

end
