(* ===== verification/WS_BdxEquiv.thy ===== *)
theory WS_BdxEquiv
  imports WS_BdxRun
begin

text \<open>
  The two fast paths of the BDX reader and the buffers the decoder fills cannot be observed:
  reading is equivalent to executing the commands of the flat input one by one. The loop
  always returns.
\<close>

section \<open>The cursor stays in range\<close>

lemma with_tables_cursor [simp]: "cursor (with_tables s t) = cursor t" "low (with_tables s t) = low t"
  "high (with_tables s t) = high t" "placed_blocks (with_tables s t) = placed_blocks t"
  "entity_map (with_tables s t) = entity_map t" "non_air (with_tables s t) = non_air t"
  by (simp_all add: with_tables_def)

text \<open>What a source looks up leaves the positions alone.\<close>

definition same_geometry :: "bdx_state \<Rightarrow> bdx_state \<Rightarrow> bool" where
  "same_geometry s t \<longleftrightarrow> cursor s = cursor t \<and> low s = low t \<and> high s = high t \<and>
    placed_blocks s = placed_blocks t \<and> entity_map s = entity_map t \<and> non_air s = non_air t"

lemma legacy_geometry: "legacy_runtime env n data st = (r, st') \<Longrightarrow> same_geometry st' st"
  by (auto simp: legacy_runtime_def Let_def same_geometry_def split: option.splits)

lemma pool_geometry: "pool_runtime env i st = Inr (r, st') \<Longrightarrow> same_geometry st' st"
  by (auto simp: pool_runtime_def Let_def same_geometry_def split: if_splits)

lemma source_runtime_geometry: "source_runtime env src st = Inr (r, st') \<Longrightarrow> same_geometry st' st"
proof (cases src)
  case (ByState n i)
  assume "source_runtime env src st = Inr (r, st')"
  then have eq: "with_tables st' st = st'"
    using ByState state_runtime_tables(2) [of st st env n i r st']
    by (simp add: source_runtime_def same_tables_def)
  have "same_geometry (with_tables st' st) st" by (simp add: same_geometry_def)
  then show ?thesis by (simp only: eq)
qed (auto simp: source_runtime_def and_then_eq_Inr_iff same_geometry_def [of s s for s]
    dest: legacy_geometry pool_geometry)

lemma store_entity_cursor: "store_entity env e r st = Inr st' \<Longrightarrow>
    cursor st' = cursor st \<and> low st' = low st \<and> high st' = high st \<and>
    placed_blocks st' = placed_blocks st \<and> non_air st' = non_air st"
  by (auto simp: store_entity_def split: option.splits if_splits)

lemma place_stages_cursor [simp]:
  "cursor (drop_entity env e st) = cursor st" "low (drop_entity env e st) = low st" "high (drop_entity env e st) = high st"
  "cursor (notify_placement env r st) = cursor st" "low (notify_placement env r st) = low st"
  "high (notify_placement env r st) = high st"
  "cursor (keep_block env r st) = cursor st" "low (keep_block env r st) = low st" "high (keep_block env r st) = high st"
  "cursor (notify_block env r st) = cursor st" "low (notify_block env r st) = low st"
  "high (notify_block env r st) = high st"
  by (simp_all add: drop_entity_def notify_placement_def keep_block_def notify_block_def)

lemma place_cursor: "place env r e st = Inr st' \<Longrightarrow>
    cursor st' = cursor st \<and> low st' = low st \<and> high st' = high st"
  by (auto simp: place_def Let_def and_then_eq_Inr_iff dest!: store_entity_cursor split: if_splits)

lemma move_cursor_range:
  "move_cursor ax n st = Inr st' \<Longrightarrow> in_s32 (pos_z (cursor st)) \<Longrightarrow> in_s32 (pos_z (cursor st'))"
  by (cases ax) (auto simp: move_cursor_def add_coordinate_def Let_def and_then_eq_Inr_iff in_s32_def
      split: if_splits)

lemma execute_cursor:
  "execute env i st = Inr st' \<Longrightarrow>
   cursor st' = cursor st \<or> (\<exists>ax n. i = MoveCursor ax n \<and> move_cursor ax n st = Inr st')"
  by (cases i) (auto simp: execute_def and_then_eq_Inr_iff define_constant_def same_geometry_def
      dest!: place_cursor source_runtime_geometry store_entity_cursor split: if_splits)

lemma slow_command_cursor:
  assumes "slow_command env st = Inr (Continue st')" and "in_s32 (pos_z (cursor st))"
  shows "in_s32 (pos_z (cursor st'))"
proof -
  obtain i s s' where ex: "execute env i s = Inr s'" and c: "cursor s = cursor st" "cursor st' = cursor s'"
    using assms(1) by (fastforce simp: slow_command_def and_then_eq_Inr_iff Let_def update_bounds_def
        split: option.splits if_splits)
  from execute_cursor [OF ex] show ?thesis
    using move_cursor_range [of _ _ s s'] c assms(2) by auto
qed

section \<open>The Z run on the input\<close>

lemma run_instr_once:
  "\<not> is_metadata i \<Longrightarrow> i \<noteq> Terminate \<Longrightarrow>
   run_instr env i st = and_then (run_once env i st) (\<lambda>s. Inr (Continue s))"
  by (simp add: run_instr_def run_once_def and_then_assoc Let_def)

lemma run_once_input: "run_once env i (at_bytes xs f st) = map_state (at_bytes xs f) (run_once env i st)"
proof -
  have k: "keeps_singles (\<lambda>cs. cs)" by (simp add: keeps_singles_def)
  have fr: "framed (flat_input xs f) (\<lambda>cs. cs) (\<lambda>cs. cs) s = at_bytes xs f s" for s
    by (simp add: framed_def)
  have "run_once env i (framed (flat_input xs f) (\<lambda>cs. cs) (\<lambda>cs. cs) st) =
      map_state (framed (flat_input xs f) (\<lambda>cs. cs) (\<lambda>cs. cs)) (run_once env i st)"
    by (cases "execute env i (st\<lparr>command_index := command_index st + 1\<rparr>)")
      (simp_all add: run_once_def execute_framed [OF k k])
  then show ?thesis unfolding fr by (simp add: fr fun_eq_iff map_state_def split: sum.splits)
qed

lemma read_place_input:
  "read_command nbt False 5 (flat_input (b1 # b2 # b3 # b4 # xs) f) =
    Inr (Place (ByState (be_nat [b1, b2]) (be_nat [b3, b4])) None, flat_input xs f)"
proof -
  have "read_u16 (flat_input (b1 # b2 # ys) f) = Inr (be_nat [b1, b2], flat_input ys f)" for b1 b2 ys
    using read_exact_input [of "[b1, b2]" 2 ys f] by (simp add: read_u16_def)
  then show ?thesis
    by (simp add: read_command_def move_commands_def read_full_def read_place_def two_u16_def no_entity_def)
qed

lemma pair_run:
  assumes env: "\<not> bounds_only env"
  shows "case pair_step env (be_nat [b1, b2], be_nat [b3, b4]) st of
      Inr st' \<Rightarrow> slow_run env (at_bytes (5 # b1 # b2 # b3 # b4 # 18 # xs) f st) (at_bytes xs f st')
    | Inl e \<Rightarrow> slow_fails env (at_bytes (5 # b1 # b2 # b3 # b4 # 18 # xs) f st)"
proof -
  let ?i = "Place (ByState (be_nat [b1, b2]) (be_nat [b3, b4])) None" and ?m = "MoveCursor AxisZ 1"
  have u: "unat (5 :: byte) = 5" "unat (18 :: byte) = 18" by simp_all
  have first: "slow_command env (at_bytes (5 # b1 # b2 # b3 # b4 # 18 # xs) f st) =
      and_then (map_state (at_bytes (18 # xs) f) (run_once env ?i st)) (\<lambda>s. Inr (Continue s))"
    using env by (simp add: slow_command_run u read_place_input run_instr_once is_metadata_def run_once_input)
  have "read_command (read_nbt env) False 18 (flat_input xs f) = Inr (?m, flat_input xs f)"
    by (simp add: read_command_def move_commands_def read_delta_def)
  then have second: "slow_command env (at_bytes (18 # xs) f s) =
      and_then (map_state (at_bytes xs f) (run_once env ?m s)) (\<lambda>s. Inr (Continue s))" for s
    using env by (simp add: slow_command_run u run_instr_once is_metadata_def run_once_input)
  show ?thesis
  proof (cases "run_once env ?i st")
    case (Inl e)
    with first show ?thesis by (auto simp: pair_step_def slow_fails_def intro: slow_run.refl)
  next
    case (Inr s)
    then have one: "slow_run env (at_bytes (5 # b1 # b2 # b3 # b4 # 18 # xs) f st) (at_bytes (18 # xs) f s)"
      using first by (auto intro!: slow_run.step [OF _ slow_run.refl])
    show ?thesis
    proof (cases "run_once env ?m s")
      case (Inl e)
      with one second [of s] Inr show ?thesis by (auto simp: pair_step_def slow_fails_def)
    next
      case r: (Inr t)
      then have "slow_run env (at_bytes (18 # xs) f s) (at_bytes xs f t)"
        using second [of s] by (auto intro!: slow_run.step [OF _ slow_run.refl])
      with one Inr r show ?thesis by (auto simp: pair_step_def intro: slow_run_trans)
    qed
  qed
qed

lemma zrun_pairs_length: "6 * length (zrun_pairs bs) \<le> length bs"
  by (induction bs rule: zrun_pairs.induct) auto

lemma pairs_run:
  assumes env: "\<not> bounds_only env"
  shows "case fold_result (pair_step env) (zrun_pairs bs) st of
      Inr st' \<Rightarrow> slow_run env (at_bytes (bs @ rest) f st)
        (at_bytes (drop (6 * length (zrun_pairs bs)) bs @ rest) f st')
    | Inl e \<Rightarrow> slow_fails env (at_bytes (bs @ rest) f st)"
proof (induction bs arbitrary: st rule: zrun_pairs.induct)
  case (1 b0 b1 b2 b3 b4 b5 bs)
  show ?case
  proof (cases "b0 = 5 \<and> b5 = 18")
    case True
    note pr = pair_run [OF env, where ?b1.0 = b1 and ?b2.0 = b2 and ?b3.0 = b3 and ?b4.0 = b4 and st = st and xs = "bs @ rest" and f = f]
    show ?thesis
    proof (cases "pair_step env (be_nat [b1, b2], be_nat [b3, b4]) st")
      case (Inl e)
      then show ?thesis using True pr by simp
    next
      case (Inr s)
      note IH = 1 [OF True, of s]
      show ?thesis
      proof (cases "fold_result (pair_step env) (zrun_pairs bs) s")
        case (Inl e)
        then show ?thesis using True pr Inr IH by (auto intro: slow_fails_run)
      next
        case r: (Inr t)
        have "drop (6 + 6 * n) (b0 # b1 # b2 # b3 # b4 # b5 # bs) = drop (6 * n) bs" for n
          by (simp add: numeral_eq_Suc)
        then show ?thesis using True pr Inr IH r by (auto intro: slow_run_trans)
      qed
    qed
  qed (auto intro: slow_run.refl)
qed (auto intro: slow_run.refl)

section \<open>One round of the loop\<close>

definition kBrotliBufferSize :: nat where "kBrotliBufferSize = 1048576"

text \<open>The decoder's output buffer bounds the get area; the cursor is a 32-bit integer.\<close>

definition buffers_small :: "decoded \<Rightarrow> bool" where
  "buffers_small d \<longleftrightarrow> (\<forall>b \<in> set (area d # pending d). length b \<le> kBrotliBufferSize)"

definition loop_inv :: "bdx_state \<Rightarrow> bool" where
  "loop_inv st \<longleftrightarrow> state_ok st \<and> buffers_small (bdx_in st) \<and> in_s32 (pos_z (cursor st))"

lemma buffers_small_from: "buffers_small d \<Longrightarrow> buffers_from d d' \<Longrightarrow> buffers_small d'"
  unfolding buffers_small_def buffers_from_def by (meson le_trans)

lemma refill_contiguous_cases:
  assumes "refill_contiguous d = Inr d'"
  shows "d' = refill d"
  using assms by (auto simp: refill_contiguous_def Let_def split: if_splits option.splits)

lemma refill_contiguous_fails:
  assumes "refill_contiguous (bdx_in st) = Inl e" and "state_ok st"
  shows "slow_command env st = Inl e"
proof -
  have "area (refill (bdx_in st)) = []" "\<exists>f. fault (bdx_in st) = Some f \<and> e = DecoderFault f"
    using assms(1) by (auto simp: refill_contiguous_def Let_def split: if_splits option.splits)
  then have "try_u8 (bdx_in st) = Inl e" using assms(2) try_u8_empty refill_area by fastforce
  then show ?thesis by (simp add: slow_command_def)
qed

lemma flat_refill [simp]: "flat (refill d) = flat d"
  by (simp add: flat_def)

lemma normalize_refill: "normalize_state env (st\<lparr>bdx_in := refill (bdx_in st)\<rparr>) = normalize_state env st"
  by (simp add: normalize_state_def)

text \<open>The flat state, with the logs as they are.\<close>

definition flat_state :: "bdx_state \<Rightarrow> bdx_state" where
  "flat_state st = st\<lparr>bdx_in := flat (bdx_in st)\<rparr>"

lemma normalize_flat_state [simp]: "normalize_state env (flat_state st) = normalize_state env st"
  by (simp add: normalize_state_def flat_state_def)

lemma flat_state_at: "flat_state st = at_bytes (input_bytes (bdx_in st)) (fault (bdx_in st)) st"
  by (simp add: flat_state_def flat_eq_flat_input)

lemma loop_inv_flat [simp]: "state_ok (flat_state st)" "bytes_left (flat_state st) = bytes_left st"
  by (simp_all add: flat_state_def)

definition normal_loop :: "bdx_env \<Rightarrow> bdx_state \<Rightarrow> (bdx_error, bdx_state) result option" where
  "normal_loop env st = bdx_slow_loop env (normalize_state env st)"

lemma normal_loop_flat: "normal_loop env st = map_option (map_state (normalize_state env)) (bdx_slow_loop env (flat_state st))"
  using slow_loop_normalize [of "flat_state st" env] by (simp add: normal_loop_def)

lemma normal_loop_eq:
  "state_ok st \<Longrightarrow> normal_loop env st = map_option (map_state (normalize_state env)) (bdx_slow_loop env st)"
  unfolding normal_loop_def by (rule slow_loop_normalize)

lemma normal_loop_run:
  "slow_run env (flat_state st) st' \<Longrightarrow> state_ok st' \<Longrightarrow> normal_loop env st = normal_loop env st'"
  by (simp add: normal_loop_flat [of env st] slow_run_loop normal_loop_eq)

lemma normal_loop_fails: "slow_fails env (flat_state st) \<Longrightarrow> \<exists>e. normal_loop env st = Some (Inl e)"
  by (drule slow_fails_loop) (auto simp: normal_loop_flat)

definition round_ok :: "bdx_env \<Rightarrow> bdx_state \<Rightarrow> (bdx_error, progress) result \<Rightarrow> bool" where
  "round_ok env st r =
    (case r of
       Inl e \<Rightarrow> (\<exists>e. normal_loop env st = Some (Inl e))
     | Inr EndOfInput \<Rightarrow> normal_loop env st = Some (Inl MissingTerminate)
     | Inr (Finished st') \<Rightarrow> normal_loop env st = Some (Inr (normalize_state env st'))
     | Inr (Continue st') \<Rightarrow>
         normal_loop env st = normal_loop env st' \<and> loop_inv st' \<and> bytes_left st' < bytes_left st)"

lemma round_ok_slow:
  assumes inv: "loop_inv st"
  shows "round_ok env st (slow_command env st)"
proof -
  have ok: "state_ok st" using inv by (simp add: loop_inv_def)
  show ?thesis
  proof (cases "slow_command env st")
    case (Inl e)
    then show ?thesis using normal_loop_eq [OF ok, of env]
      by (simp add: round_ok_def bdx_slow_loop.simps [of env st])
  next
    case (Inr p)
    show ?thesis
    proof (cases p)
      case (Continue st')
      note pr = slow_command_progress [OF _ ok, of env st']
      have "loop_inv st'"
        using inv Inr Continue pr(1,4) slow_command_cursor [of env st st'] buffers_small_from
        by (auto simp: loop_inv_def)
      then show ?thesis
        using Inr Continue pr(1,2) normal_loop_eq [OF ok, of env] normal_loop_eq [of st' env]
        by (simp add: round_ok_def bdx_slow_loop.simps [of env st])
    qed (use Inr normal_loop_eq [OF ok, of env] in
        \<open>simp_all add: round_ok_def bdx_slow_loop.simps [of env st]\<close>)
  qed
qed

lemma round_ok_same:
  assumes "round_ok env st' r" and "normal_loop env st = normal_loop env st'"
    and "bytes_left st' = bytes_left st"
  shows "round_ok env st r"
  using assms by (auto simp: round_ok_def split: sum.splits progress.splits)

lemma bounds_scan_cursor:
  "bounds_scan bs st = Inr (n, st') \<Longrightarrow> in_s32 (pos_z (cursor st)) \<Longrightarrow> in_s32 (pos_z (cursor st'))"
proof (induction bs st arbitrary: n st' rule: bounds_scan.induct)
  case (2 b bs st)
  have range: "in_s32 (pos_z (cursor s))" if "fast_effect c p st = Inr s" for c p s
    using that "2.prems"(2) unfolding fast_effect_def by (auto dest: move_cursor_range split: if_splits)
  show ?case
  proof (cases "fast_length (unat b) = 0 \<or> length (b # bs) < fast_length (unat b)")
    case True
    then show ?thesis using "2.prems" by auto
  next
    case False
    with "2.prems"(1) obtain s m where s: "fast_effect (unat b) (take (fast_length (unat b) - 1) bs) st = Inr s"
      and r: "bounds_scan (drop (fast_length (unat b) - 1) bs)
        (if unat b = 31 then s\<lparr>command_index := command_index s + 1\<rparr>
         else update_bounds (s\<lparr>command_index := command_index s + 1\<rparr>)) = Inr (m, st')"
      by (auto simp: and_then_eq_Inr_iff Let_def simp del: One_nat_def)
    show ?thesis
      by (rule "2.IH" [OF HOL.refl False s HOL.refl HOL.refl r]) (use range [OF s] in \<open>auto simp: update_bounds_def\<close>)
  qed
qed simp

lemma place_run_frame:
  assumes "place_run env rs n st = Inr st'" and "in_s32 (pos_z (cursor st))"
  shows "bdx_in st' = bdx_in st" and "in_s32 (pos_z (cursor st'))"
proof -
  let ?s = "update_bounds (notify_run_blocks env rs (keep_run env rs
    (drop_run_entities env n (notify_run_placements env rs st))))"
  obtain s where m: "move_cursor AxisZ (int n) ?s = Inr s"
    and st': "st' = (update_bounds s)\<lparr>command_index := command_index (update_bounds s) + n * 2\<rparr>"
    using assms(1) by (auto simp: place_run_def Let_def and_then_eq_Inr_iff split: if_splits)
  have "bdx_in s = bdx_in ?s" using m by (auto simp: move_cursor_def and_then_eq_Inr_iff Let_def)
  then show "bdx_in st' = bdx_in st" using st'
    by (simp add: update_bounds_def notify_run_blocks_def keep_run_def drop_run_entities_def
        erase_run_entities_def notify_run_placements_def)
  have "in_s32 (pos_z (cursor s))"
    using move_cursor_range [OF m] assms(2) by (simp add: update_bounds_def place_run_stages)
  then show "in_s32 (pos_z (cursor st'))" using st' by (simp add: update_bounds_def)
qed

lemma z_run_frame:
  assumes "z_run env ps st = Inr st'" and "in_s32 (pos_z (cursor st))"
  shows "bdx_in st' = bdx_in st" and "in_s32 (pos_z (cursor st'))"
proof -
  obtain rs s where r: "resolve_run env ps st = Inr (rs, s)" and p: "place_run env rs (length ps) s = Inr st'"
    using assms(1) by (auto simp: z_run_def and_then_eq_Inr_iff)
  have "s = resolved env rs s st"
    using resolve_run_tables(2) [of st st env ps rs s] r by (simp add: same_tables_def)
  then obtain u where u: "s = resolved env rs u st" by blast
  have "bdx_in s = bdx_in st" "cursor s = cursor st"
    by (simp_all add: u resolved_def with_tables_def)
  with place_run_frame [OF p] assms(2) show "bdx_in st' = bdx_in st" "in_s32 (pos_z (cursor st'))"
    by simp_all
qed

lemma normal_loop_same: "normalize_state env s = normalize_state env t \<Longrightarrow> normal_loop env s = normal_loop env t"
  by (simp add: normal_loop_def)

lemma loop_inv_input:
  assumes "buffers_small (bdx_in st)" "buffers_from (bdx_in st) d" "decoded_ok d" "in_s32 (pos_z (cursor s))"
  shows "loop_inv (s\<lparr>bdx_in := d\<rparr>)"
  using assms buffers_small_from by (simp add: loop_inv_def)

lemma round_ok_bounds:
  assumes env: "bounds_only env" and inv: "loop_inv st"
  shows "round_ok env st (bdx_iterate env st)"
proof -
  have ok: "state_ok st" using inv by (simp add: loop_inv_def)
  let ?d = "refill (bdx_in st)"
  let ?bs = "area ?d" and ?rest = "concat (pending ?d)" and ?f = "fault ?d"
  have fl: "at_bytes (?bs @ ?rest) ?f st = flat_state st"
    using refill_bytes(1) [of "bdx_in st"] by (simp add: flat_state_at input_bytes_def)
  note run = bounds_scan_run [OF env, of ?bs st ?rest ?f, unfolded fl]
  show ?thesis
  proof (cases "refill_contiguous (bdx_in st)")
    case (Inl e)
    then show ?thesis
      using round_ok_slow [OF inv, of env] refill_contiguous_fails [OF Inl ok, of env] env
      by (simp add: bdx_iterate_def bounds_step_def)
  next
    case (Inr d)
    then have d: "d = ?d" by (rule refill_contiguous_cases)
    show ?thesis
    proof (cases "bounds_scan ?bs st")
      case (Inl e)
      with run have "slow_fails env (flat_state st)" by blast
      then show ?thesis using env Inr Inl d normal_loop_fails
        by (simp add: bdx_iterate_def bounds_step_def round_ok_def)
    next
      case scan: (Inr r)
      obtain n t where r: "r = (n, t)" by (cases r)
      let ?s = "t\<lparr>bdx_in := consume n ?d\<rparr>"
      have n: "n \<le> length ?bs" and sr: "slow_run env (flat_state st) (at_bytes (drop n ?bs @ ?rest) ?f t)"
        using run scan r by blast+
      have "at_bytes (drop n ?bs @ ?rest) ?f t = flat_state ?s"
        by (simp add: flat_state_at input_bytes_def consume_def)
      with normal_loop_run [OF sr] have nl: "normal_loop env st = normal_loop env ?s"
        using normal_loop_same [of env "flat_state ?s" ?s] by simp
      have left: "bytes_left st = n + bytes_left ?s"
        using consume_bytes [OF n] n by (simp add: min_def)
      have li: "loop_inv ?s"
        using inv refill_ok [OF ok] bounds_scan_cursor [OF scan [unfolded r]]
          buffers_from_trans [OF buffers_from_refill buffers_from_consume]
        by (intro loop_inv_input [of st]) (simp_all add: loop_inv_def)
      show ?thesis
      proof (cases "n = 0")
        case True
        then show ?thesis
          using env Inr scan r d round_ok_same [OF round_ok_slow [OF li] nl] left
          by (simp add: bdx_iterate_def bounds_step_def)
      next
        case False
        then show ?thesis using env Inr scan r d nl li left
          by (simp add: bdx_iterate_def bounds_step_def round_ok_def)
      qed
    qed
  qed
qed

lemma ok_part_cases: "ok_part r = None \<longleftrightarrow> (\<exists>e. r = Inl e)" "ok_part r = Some v \<longleftrightarrow> r = Inr v"
  by (cases r; simp)+

lemma pairs_short: "buffers_small d \<Longrightarrow> int (length (zrun_pairs (area (refill d)))) \<le> INT32_MAX"
  using buffers_small_from [OF _ buffers_from_refill, of d] zrun_pairs_length [of "area (refill d)"]
  by (simp add: buffers_small_def kBrotliBufferSize_def range_simps)

lemma round_ok_runs:
  assumes env: "\<not> bounds_only env" "consistent env" and inv: "loop_inv st"
  shows "round_ok env st (bdx_iterate env st)"
proof -
  have ok: "state_ok st" using inv by (simp add: loop_inv_def)
  let ?d = "refill (bdx_in st)"
  let ?s = "st\<lparr>bdx_in := ?d\<rparr>"
  let ?bs = "area ?d" and ?rest = "concat (pending ?d)" and ?f = "fault ?d"
  let ?ps = "zrun_pairs ?bs"
  have fl: "at_bytes (?bs @ ?rest) ?f ?s = flat_state st"
    using refill_bytes(1) [of "bdx_in st"] by (simp add: flat_state_at input_bytes_def)
  have nl: "normal_loop env st = normal_loop env ?s"
    using normal_loop_same [OF normalize_refill] by simp
  have li: "loop_inv ?s"
    using inv refill_ok [OF ok] by (intro loop_inv_input [of st]) (simp_all add: loop_inv_def buffers_from_refill)
  have small: "int (length ?ps) \<le> INT32_MAX" using inv pairs_short by (simp add: loop_inv_def)
  show ?thesis
  proof (cases "refill_contiguous (bdx_in st)")
    case (Inl e)
    then show ?thesis
      using round_ok_slow [OF inv, of env] refill_contiguous_fails [OF Inl ok, of env] env
      by (simp add: bdx_iterate_def)
  next
    case (Inr d)
    then have d: "d = ?d" by (rule refill_contiguous_cases)
    show ?thesis
    proof (cases "4 \<le> length ?ps")
      case False
      then show ?thesis
        using env Inr d round_ok_same [OF round_ok_slow [OF li] nl] by (simp add: bdx_iterate_def Let_def)
    next
      case True
      then have ne: "?ps \<noteq> []" by auto
      have it: "bdx_iterate env st = and_then (z_run env ?ps ?s) (\<lambda>s.
          Inr (Continue (s\<lparr>bdx_in := consume (6 * length ?ps) (bdx_in s)\<rparr>)))"
        using env Inr d True by (simp add: bdx_iterate_def Let_def)
      have z: "in_s32 (pos_z (cursor ?s))" using inv by (simp add: loop_inv_def)
      note zr = z_run_eq [OF env(2) z ne small]
      note pr = pairs_run [OF env(1), where bs = ?bs and st = ?s and rest = ?rest and f = ?f, unfolded fl]
      show ?thesis
      proof (cases "z_run env ?ps ?s")
        case (Inl e)
        then have "ok_part (fold_result (pair_step env) ?ps ?s) = None" using zr by auto
        then obtain e' where "fold_result (pair_step env) ?ps ?s = Inl e'" unfolding ok_part_cases by blast
        with pr have "slow_fails env (flat_state st)" by simp
        then show ?thesis using it Inl normal_loop_fails by (simp add: round_ok_def)
      next
        case r: (Inr t)
        let ?n = "6 * length ?ps"
        let ?t = "t\<lparr>bdx_in := consume ?n ?d\<rparr>"
        note fr = z_run_frame [OF r z]
        have "map_option (normalize_state env) (ok_part (fold_result (pair_step env) ?ps ?s)) =
            Some (normalize_state env t)" using zr r by simp
        then obtain u where "ok_part (fold_result (pair_step env) ?ps ?s) = Some u"
          and nu: "normalize_state env u = normalize_state env t" by auto
        then have u: "fold_result (pair_step env) ?ps ?s = Inr u" by (simp only: ok_part_cases)
        let ?u = "at_bytes (drop ?n ?bs @ ?rest) ?f u"
        have sr: "slow_run env (flat_state st) ?u" using pr u by simp
        have nx: "normalize_state env (s\<lparr>bdx_in := x\<rparr>) = (normalize_state env s)\<lparr>bdx_in := flat x\<rparr>" for s x
          by (simp add: normalize_state_def)
        have "flat (consume ?n ?d) = flat_input (drop ?n ?bs @ ?rest) ?f"
          by (simp add: flat_eq_flat_input) (simp add: input_bytes_def consume_def)
        then have "normalize_state env ?u = normalize_state env ?t" unfolding nx nu by simp
        note same = normal_loop_same [OF this]
        have eq: "normal_loop env st = normal_loop env ?t"
          using normal_loop_run [OF sr] unfolding same by simp
        have left: "bytes_left st = ?n + bytes_left ?t"
          using consume_bytes [of ?n ?d] zrun_pairs_length [of ?bs] by (simp add: min_def)
        have "loop_inv ?t"
          using inv refill_ok [OF ok] fr(2) buffers_from_trans [OF buffers_from_refill buffers_from_consume]
          by (intro loop_inv_input [of st]) (simp_all add: loop_inv_def)
        then show ?thesis using it r fr(1) eq left True ne by (simp add: round_ok_def)
      qed
    qed
  qed
qed

text \<open>Errors may differ: the run path resolves a whole run before it checks its blocks.\<close>

definition same_outcome ::
  "bdx_env \<Rightarrow> (bdx_error, bdx_state) result option \<Rightarrow> (bdx_error, bdx_state) result option \<Rightarrow> bool" where
  "same_outcome env x y =
    (case (x, y) of
       (Some (Inl _), Some (Inl _)) \<Rightarrow> True
     | (Some (Inr s), Some (Inr t)) \<Rightarrow> normalize_state env s = normalize_state env t
     | _ \<Rightarrow> False)"

lemma bdx_loop_normal:
  assumes "consistent env" and "loop_inv st"
  shows "\<exists>r. bdx_loop env st = Some r \<and>
    (\<exists>q. normal_loop env st = Some q \<and>
      map_option (normalize_state env) (ok_part r) = ok_part q)"
  using assms(2)
proof (induction "bytes_left st" arbitrary: st rule: less_induct)
  case less
  have ro: "round_ok env st (bdx_iterate env st)"
    using round_ok_bounds round_ok_runs assms(1) less.prems by blast
  show ?case
  proof (cases "bdx_iterate env st")
    case (Inl e)
    with ro show ?thesis by (auto simp: round_ok_def bdx_loop.simps [of env st])
  next
    case (Inr p)
    show ?thesis
    proof (cases p)
      case (Continue s)
      with ro Inr less(1) [of s] show ?thesis by (simp add: round_ok_def bdx_loop.simps [of env st])
    qed (use ro Inr in \<open>simp_all add: round_ok_def bdx_loop.simps [of env st]\<close>)
  qed
qed

lemma bdx_loop_same_outcome:
  assumes "consistent env" and "loop_inv st"
  shows "same_outcome env (bdx_loop env st) (bdx_slow_loop env (flat_state st))"
proof -
  from bdx_loop_normal [OF assms] obtain r q where r: "bdx_loop env st = Some r"
    "normal_loop env st = Some q" "map_option (normalize_state env) (ok_part r) = ok_part q" by blast
  then obtain p where "bdx_slow_loop env (flat_state st) = Some p" "q = map_state (normalize_state env) p"
    unfolding normal_loop_flat by auto
  with r show ?thesis by (cases r; cases p; simp add: same_outcome_def)
qed

end
