(* ===== verification/WS_BdxRead.thy ===== *)
theory WS_BdxRead
  imports WS_BdxEquiv
begin

text \<open>
  Whole BDX files: what \<open>read\<close> returns is what executing the commands one by one on the
  decoded bytes gives; the decoder's output stays within its limit; every block and entity
  of the result lies inside its size; and a read of the bounds alone finds the size and the
  origin the full read finds.
\<close>

section \<open>The decoder's buffers\<close>

lemma brotli_buffers_sound:
  "brotli_buffers limit n os = (bs, f) \<Longrightarrow> n \<le> limit \<Longrightarrow>
   [] \<notin> set bs \<and> set bs \<subseteq> produced ` set os \<and> n + length (concat bs) \<le> limit"
proof (induction limit n os arbitrary: bs f rule: brotli_buffers.induct)
  case (2 limit sofar r rs)
  show ?case
  proof (cases "read_failed r \<or> limit - min limit sofar < length (produced r) \<or> status r = BSuccess")
    case True
    then show ?thesis using 2(3,4) by (auto split: if_splits)
  next
    case stop: False
    show ?thesis
    proof (cases "produced r = []")
      case True
      then show ?thesis using 2(2,3,4) stop by (auto split: if_splits)
    next
      case False
      obtain cs g where r: "brotli_buffers limit (sofar + length (produced r)) rs = (cs, g)" by fastforce
      have "bs = produced r # cs" using 2(3) stop False r by simp
      moreover have "sofar + length (produced r) \<le> limit" using stop 2(4) by auto
      ultimately show ?thesis using 2(1) [OF _ _ _ _ r] stop False by auto
    qed
  qed
qed auto

definition outcomes_ok :: "brotli_outcome list \<Rightarrow> bool" where
  "outcomes_ok os = (\<forall>r \<in> set os. length (produced r) \<le> kBrotliBufferSize)"

lemma decoded_input_ok:
  "decoded_ok (decoded_input limit os)" "outcomes_ok os \<Longrightarrow> buffers_small (decoded_input limit os)"
  "length (input_bytes (decoded_input limit os)) \<le> limit"
proof -
  obtain bs f where b: "brotli_buffers limit 0 os = (bs, f)" by fastforce
  note s = brotli_buffers_sound [OF b]
  show "decoded_ok (decoded_input limit os)" "length (input_bytes (decoded_input limit os)) \<le> limit"
    using s by (simp_all add: decoded_input_def b decoded_ok_def input_bytes_def)
  show "buffers_small (decoded_input limit os)" if "outcomes_ok os"
    using s that by (auto simp: decoded_input_def b buffers_small_def outcomes_ok_def)
qed

lemma decoded_limit_bounds:
  "kMinimumDecodedLimit \<le> decoded_limit n" "decoded_limit n \<le> kMaximumDecodedLimit"
  by (simp_all add: decoded_limit_def Let_def kMinimumDecodedLimit_def kMaximumDecodedLimit_def
      kMaximumExpansionRatio_def)

section \<open>Reading a file\<close>

lemma reads_metadata: "reads_bytes read_metadata"
proof -
  have u: "reads_bytes (\<lambda>d. and_then (read_u8 d) (\<lambda>(b, d). if b \<noteq> n then Inl BadMetadataHeader else g d))"
    if "reads_bytes g" for n and g :: "decoded \<Rightarrow> (bdx_error, 'a \<times> decoded) result"
    by (intro reads that)
  show ?thesis unfolding read_metadata_def [abs_def] by (intro u reads)
qed

lemma loop_inv_init:
  assumes "read_metadata d = Inr (a, d')" "decoded_ok d" "buffers_small d"
  shows "loop_inv (bdx_init d')"
  using reads_bytesD(4,5) [OF reads_metadata assms(2,1)] buffers_small_from [OF assms(3)]
  by (simp add: loop_inv_def bdx_init_def in_s32_def range_simps)

lemma finish_read_normal: "normalize_state env s = normalize_state env t \<Longrightarrow> finish_read a s = finish_read a t"
proof -
  have n: "finish_read a (normalize_state env u) = finish_read a u" for u
    by (simp add: finish_read_def normalize_state_def)
  assume "normalize_state env s = normalize_state env t"
  then show ?thesis using n [of s] n [of t] by metis
qed

text \<open>The reference read: all the decoded bytes in one buffer, every command executed on its own.\<close>

definition bdx_reference ::
  "bdx_env \<Rightarrow> byte list \<Rightarrow> nat \<Rightarrow> brotli_outcome list \<Rightarrow> (bdx_error, bdx_result) result option" where
  "bdx_reference env file_header file_size outcomes =
    (if file_header \<noteq> [66, 68, 64] then Some (Inl BadFileHeader)
     else read_with (bdx_slow_loop env) (flat (decoded_input (decoded_limit (file_size - 3)) outcomes)))"

lemma read_reference:
  assumes "consistent env" and "outcomes_ok outcomes"
  shows "\<exists>r q. bdx_read env h n outcomes = Some r \<and> bdx_reference env h n outcomes = Some q \<and>
    ok_part r = ok_part q"
proof (cases "h = [66, 68, 64]")
  case True
  let ?d = "decoded_input (decoded_limit (n - 3)) outcomes"
  note ok = decoded_input_ok(1) [of "decoded_limit (n - 3)" outcomes]
    decoded_input_ok(2) [OF assms(2), of "decoded_limit (n - 3)"]
  note m = reads_bytesD(1) [OF reads_metadata ok(1)]
  show ?thesis
  proof (cases "read_metadata ?d")
    case (Inl e)
    then show ?thesis using True m by (simp add: bdx_read_def bdx_reference_def read_with_def)
  next
    case (Inr x)
    obtain a d where x: "x = (a, d)" by (cases x)
    have st: "bdx_init (flat d) = flat_state (bdx_init d)" by (simp add: flat_state_def bdx_init_def)
    note so = bdx_loop_same_outcome [OF assms(1) loop_inv_init [OF Inr [unfolded x] ok]]
    then obtain r q where r: "bdx_loop env (bdx_init d) = Some r" "bdx_slow_loop env (bdx_init (flat d)) = Some q"
      unfolding st by (auto simp: same_outcome_def split: option.splits sum.splits)
    have so': "same_outcome env (Some r) (Some q)" using so unfolding st [symmetric] r .
    have "ok_part (and_then r (finish_read a)) = ok_part (and_then q (finish_read a))"
    proof (cases r)
      case ri: (Inr s)
      with so' obtain t where t: "q = Inr t" "normalize_state env s = normalize_state env t"
        by (auto simp: same_outcome_def split: sum.splits)
      then show ?thesis using finish_read_normal [OF t(2)] ri by simp
    qed (use so' in \<open>auto simp: same_outcome_def split: sum.splits\<close>)
    then show ?thesis using True m Inr x r by (simp add: bdx_read_def bdx_reference_def read_with_def)
  qed
qed (simp add: bdx_read_def bdx_reference_def)

lemma read_reference_ok:
  assumes "consistent env" "outcomes_ok outcomes"
  shows "bdx_read env h n outcomes = Some (Inr r) \<longleftrightarrow> bdx_reference env h n outcomes = Some (Inr r)"
proof -
  from read_reference [OF assms, of h n] obtain x y where
    "bdx_read env h n outcomes = Some x" "bdx_reference env h n outcomes = Some y" "ok_part x = ok_part y" by blast
  then show ?thesis by (cases x; cases y) auto
qed

text \<open>
  C3: \<open>BdxStructure::read\<close> always returns, whatever the bytes; and what it returns is what
  executing the commands one at a time on the decoded bytes gives: neither the buffers the
  decoder happens to fill, nor the fast path of bounds reads, nor the fast path of runs along
  Z can be observed. Where the one fails the other fails, perhaps with another error. The
  decoder's outcomes are any that fill its output buffer of \<open>kBrotliBufferSize\<close> bytes, and
  the consumers are installed the way the callers do.
\<close>

theorem bdx_read_reference:
  assumes "consistent env" and "outcomes_ok outcomes"
  shows "\<exists>r q. bdx_read env h n outcomes = Some r \<and> bdx_reference env h n outcomes = Some q \<and>
    ok_part r = ok_part q"
  using assms by (rule read_reference)

section \<open>Executing a sample file\<close>

definition sample_registry :: registry where
  "sample_registry = empty_registry\<lparr>air_runtime_id := 1, legacy_pools := [0 \<mapsto> [1, 7]]\<rparr>"

text \<open>A reader that knows the empty compound.\<close>

definition sample_reader :: nbt_reader where
  "sample_reader bytes = (if take 4 bytes = [10, 0, 0, 0] then Inr ([], 4) else Inl InputTruncated)"

definition sample_env :: bdx_env where
  "sample_env =
    \<lparr>bdx_registry = sample_registry,
     serialize = (\<lambda>_. [10, 0, 0, 0]), read_nbt = sample_reader, bounds_only = False,
     materialize = True, capture_entities = True, block_consumer = True, run_consumer = True,
     placement_consumer = True, placement_run_consumer = True\<rparr>"

text \<open>
  Two buffers; a block of pool entry 1, a run of four pairs, a step down and a block with an
  empty compound.
\<close>

definition sample_outcomes :: "brotli_outcome list" where
  "sample_outcomes =
    [\<lparr>status = BNeedsOutput, produced = [66, 68, 88, 0, 0, 32, 0, 1, 18], input_ended = False, read_failed = False\<rparr>,
     \<lparr>status = BSuccess, produced = [5, 0, 0, 0, 1, 18, 5, 0, 0, 0, 1, 18, 5, 0, 0, 0, 1, 18, 5, 0, 0, 0, 1, 18, 17, 41, 0, 0, 0, 0, 0, 0, 10, 0, 0, 0, 88],
      input_ended = False, read_failed = False\<rparr>]"

lemma sample_env_simps [simp]:
  "bdx_registry sample_env = sample_registry" "\<not> bounds_only sample_env" "materialize sample_env"
  "capture_entities sample_env" "block_consumer sample_env" "run_consumer sample_env"
  "placement_consumer sample_env" "placement_run_consumer sample_env"
  "read_nbt sample_env = sample_reader" "serialize sample_env c = [10, 0, 0, 0]"
  "air_runtime_id sample_registry = 1" "legacy_pool_snapshot sample_registry 0 = [1, 7]"
  "registry_state sample_registry r = None"
  by (simp_all add: sample_env_def sample_registry_def legacy_pool_snapshot_def registry_state_def empty_registry_def)

lemma sample_ok: "consistent sample_env" "outcomes_ok sample_outcomes"
  by (simp_all add: consistent_def sample_env_def outcomes_ok_def sample_outcomes_def kBrotliBufferSize_def)

lemmas run_simps = slow_command_run run_instr_def execute_def read_command_def move_commands_def
  read_full_def pool_u16_def two_u16_def source_runtime_def constant_state_runtime_def
  pool_runtime_def be_nat_def direct_hit_def direct_put_def read_place_def
  no_entity_def place_def store_entity_def drop_entity_def keep_block_def notify_placement_def
  notify_block_def cache_put_def constant_string_def resolve_state_runtime_def is_metadata_def
  update_bounds_def pos_min_def pos_max_def move_cursor_def add_coordinate_def read_delta_def
  umap_emplace_def umap_erase_def bdx_init_def range_simps entity_payload_def
  kMaximumBlockEntities_def kMaximumConstantStringBytes_def

lemmas finish_simps = finish_read_def dimension_def shift_entries_def shift_position_def shift_coordinate_def

lemma read_u16_input [simp]: "read_u16 (flat_input (a # b # xs) f) = Inr (be_nat [a, b], flat_input xs f)"
  using read_exact_input [of "[a, b]" 2 xs f] by (simp add: read_u16_def)

lemma read_metadata_sample [simp]:
  "read_metadata (flat_input (66 # 68 # 88 # 0 # v # bs) f) = Inr ([], flat_input bs f)"
proof -
  have "read_cstring m (flat_input (0 # bs) f) = Inr ([], flat_input bs f)" for m bs
    by (simp add: read_cstring_def flat_input_def)
  then show ?thesis by (simp add: read_metadata_def)
qed

lemma sample_nbt [simp]:
  "read_block_nbt sample_reader (flat_input (10 # 0 # 0 # 0 # bs) f) = Inr ([], flat_input bs f)"
  using skip_input [of "[10, 0, 0, 0]" 4 bs f] by (simp add: read_block_nbt_def sample_reader_def as_reader_def and_then_eq_Inr_iff)

lemma sample_reference:
  "bdx_reference sample_env [66, 68, 64] 20 sample_outcomes =
    Some (Inr \<lparr>bdx_author = [], bdx_min = BlockPos 0 (-1) 0,
      bdx_original_size = \<lparr>width = 1, height = 2, len = 6\<rparr>,
      bdx_blocks = [(BlockPos 0 1 0, 7)], bdx_entities = [(BlockPos 0 0 5, [10, 0, 0, 0])], bdx_non_air = 1\<rparr>)"
proof -
  have "flat (decoded_input (decoded_limit 17) sample_outcomes) =
      flat_input ([66, 68, 88, 0, 0, 32, 0, 1, 18] @ [5, 0, 0, 0, 1, 18, 5, 0, 0, 0, 1, 18, 5, 0, 0, 0, 1, 18, 5, 0, 0, 0, 1, 18, 17, 41, 0, 0, 0, 0, 0, 0, 10, 0, 0, 0, 88]) None"
    using decoded_limit_bounds(1) [of 17]
    by (simp add: decoded_input_def sample_outcomes_def flat_def flat_input_def input_bytes_def
        kMinimumDecodedLimit_def)
  then show ?thesis
    by (simp add: bdx_reference_def read_with_def run_simps bdx_slow_loop.simps finish_simps
        kMaximumMaterializedBlocks_def Let_def)
qed

lemma bdx_read_reference_witness:
  "\<exists>r. bdx_read sample_env [66, 68, 64] 20 sample_outcomes = Some r \<and>
    ok_part r = Some \<lparr>bdx_author = [], bdx_min = BlockPos 0 (-1) 0,
      bdx_original_size = \<lparr>width = 1, height = 2, len = 6\<rparr>,
      bdx_blocks = [(BlockPos 0 1 0, 7)], bdx_entities = [(BlockPos 0 0 5, [10, 0, 0, 0])], bdx_non_air = 1\<rparr>"
  using bdx_read_reference [OF sample_ok, of "[66, 68, 64]" 20] by (simp add: sample_reference)

text \<open>
  The installed consumers are told of the same blocks and placements, in the same order,
  as when every command is executed on its own: a call of a run consumer stands for the single
  calls of its run, without the air ones where the code leaves them out. The caches, the pool
  and the cursor end up the same, too.
\<close>

theorem bdx_loop_observed:
  assumes "consistent env" "decoded_ok d" "buffers_small d"
  shows "same_outcome env (bdx_loop env (bdx_init d)) (bdx_slow_loop env (flat_state (bdx_init d)))"
  using assms by (intro bdx_loop_same_outcome) (simp_all add: loop_inv_def bdx_init_def range_simps)

lemma bdx_loop_observed_witness:
  "same_outcome sample_env
    (bdx_loop sample_env (bdx_init (decoded_input (decoded_limit 17) sample_outcomes)))
    (bdx_slow_loop sample_env (flat_state (bdx_init (decoded_input (decoded_limit 17) sample_outcomes))))"
  by (rule bdx_loop_observed [OF sample_ok(1) decoded_input_ok(1) decoded_input_ok(2) [OF sample_ok(2)]])

text \<open>
  C29: decompression is bounded: whatever Brotli produces, at most the limit computed from the
  size of the file reaches the reader, between 64 MiB and 64 GiB, and no buffer it is handed
  is empty.
\<close>

theorem decoded_input_bounded:
  "length (input_bytes (decoded_input (decoded_limit n) outcomes)) \<le> decoded_limit n \<and>
   67108864 \<le> decoded_limit n \<and> decoded_limit n \<le> 68719476736 \<and>
   [] \<notin> set (pending (decoded_input (decoded_limit n) outcomes))"
  using decoded_input_ok(1,3) [of "decoded_limit n" outcomes] decoded_limit_bounds [of n]
  by (simp add: decoded_ok_def kMinimumDecodedLimit_def kMaximumDecodedLimit_def)

end
