(* ===== verification/WS_BdxBounds.thy ===== *)
theory WS_BdxBounds
  imports WS_BdxRead
begin

text \<open>
  A read of the bounds alone (\<open>BdxStructure::read\<close> with \<open>bounds_only\<close>) compared with the full
  read: it skips what places blocks, but moves the cursor and updates the bounds alike, so it
  finds the size and the origin of the full read.
\<close>

definition bounds_env :: "bdx_env \<Rightarrow> bdx_env" where
  "bounds_env env = env\<lparr>bounds_only := True\<rparr>"

section \<open>Reading\<close>

lemma flat_agrees:
  assumes "reads_bytes f" "decoded_ok d" "decoded_ok e" "flat d = flat e" "f d = Inr (v, d')"
  shows "\<exists>e'. f e = Inr (v, e') \<and> flat e' = flat d' \<and> decoded_ok e'"
proof -
  have "flat_result (f e) = Inr (v, flat d')"
    using reads_bytesD(1) [OF assms(1,2)] reads_bytesD(1) [OF assms(1,3)] assms(4,5) by simp
  then obtain e' where "f e = Inr (v, e')" "flat e' = flat d'"
    by (cases "f e") (auto simp: flat_result_def)
  with reads_bytesD(4) [OF assms(1,3)] show ?thesis by blast
qed

lemma flat_eqI: "input_bytes d = input_bytes e \<Longrightarrow> fault d = fault e \<Longrightarrow> flat d = flat e"
  by (simp add: flat_def)

lemma read_full_instr:
  assumes "read_full nbt cmd d = Inr (i, d')"
  shows "if cmd = 1 then \<exists>s. i = DefineConstant s
    else (\<exists>src e. i = Place src e) \<or> (\<exists>c. i = StoreEntity c)"
  using assms unfolding read_full_def read_place_def
  by (auto simp: and_then_eq_Inr_iff split: if_splits)

text \<open>The instruction of a bounds read for the one of a full read.\<close>

definition skipped :: "instr \<Rightarrow> instr" where
  "skipped i = (case i of DefineConstant _ \<Rightarrow> SkipConstant | Place _ _ \<Rightarrow> Pass | StoreEntity _ \<Rightarrow> Pass | _ \<Rightarrow> i)"

lemma read_command_skipped:
  assumes nbt: "nbt_agrees nbt" and ok: "decoded_ok d" and r: "read_command nbt False cmd d = Inr (i, d')"
  shows "\<exists>d''. read_command nbt True cmd d = Inr (skipped i, d'') \<and> flat d'' = flat d'"
proof (cases "read_command nbt False cmd d = read_full nbt cmd d \<and> read_command nbt True cmd d = read_bounds cmd d")
  case True
  then have f: "read_full nbt cmd d = Inr (i, d')" using r by simp
  obtain d'' where b: "read_bounds cmd d = Inr (skipped_instr cmd, d'')" "input_bytes d'' = input_bytes d'"
    using skips_what_is_read [OF nbt ok f] by blast
  have "fault d'' = fault d" "fault d' = fault d"
    using reads_bytesD(3) [OF reads_command ok, of nbt True cmd] reads_bytesD(3) [OF reads_command ok r] True b
    by simp_all
  moreover have "skipped i = skipped_instr cmd"
    using read_full_instr [OF f] by (auto simp: skipped_def skipped_instr_def split: if_splits)
  ultimately show ?thesis using True b flat_eqI [of d'' d'] by simp
next
  case False
  then have same: "read_command nbt True cmd d = read_command nbt False cmd d"
    by (auto simp: read_command_def split: option.splits if_splits)
  have "skipped i = i"
    using r False unfolding read_command_def
    by (auto simp: skipped_def and_then_eq_Inr_iff split: option.splits if_splits)
  then show ?thesis using same r by simp
qed

section \<open>Executing\<close>

definition nothing_placed :: "bdx_state \<Rightarrow> bool" where
  "nothing_placed st \<longleftrightarrow> constants st = [] \<and> placed_blocks st = [] \<and> entity_map st = []"

lemma nothing_placed_simps [simp]:
  "nothing_placed (st\<lparr>bdx_in := d\<rparr>) = nothing_placed st"
  "nothing_placed (st\<lparr>command_index := n\<rparr>) = nothing_placed st"
  "nothing_placed (update_bounds st) = nothing_placed st"
  by (simp_all add: nothing_placed_def update_bounds_def)

definition bounds_sim :: "bdx_state \<Rightarrow> bdx_state \<Rightarrow> bool" where
  "bounds_sim s t \<longleftrightarrow> flat (bdx_in s) = flat (bdx_in t) \<and> state_ok s \<and> state_ok t \<and>
    cursor s = cursor t \<and> low s = low t \<and> high s = high t \<and> nothing_placed t"

lemma execute_geometry:
  assumes "execute env i st = Inr st'" and "\<And>ax n. i \<noteq> MoveCursor ax n"
  shows "cursor st' = cursor st \<and> low st' = low st \<and> high st' = high st"
  using assms
  by (cases i) (auto simp: execute_def and_then_eq_Inr_iff define_constant_def same_geometry_def
      dest!: place_cursor source_runtime_geometry store_entity_cursor split: if_splits)

lemma move_cursor_agrees:
  assumes "move_cursor ax n s = Inr s'" "cursor s = cursor t"
  shows "\<exists>t'. move_cursor ax n t = Inr t' \<and> cursor t' = cursor s' \<and> low s' = low s \<and> high s' = high s \<and>
    low t' = low t \<and> high t' = high t \<and> nothing_placed t' = nothing_placed t \<and> bdx_in t' = bdx_in t"
  using assms by (cases ax) (auto simp: move_cursor_def Let_def and_then_eq_Inr_iff nothing_placed_def)

lemma execute_skipped:
  assumes "execute env i s = Inr s'" "cursor s = cursor t" "low s = low t" "high s = high t" "nothing_placed t"
  shows "\<exists>t'. execute (bounds_env env) (skipped i) t = Inr t' \<and> cursor s' = cursor t' \<and> low s' = low t' \<and>
    high s' = high t' \<and> nothing_placed t'"
proof (cases "\<exists>ax n. i = MoveCursor ax n")
  case True
  then show ?thesis
    using assms move_cursor_agrees [of _ _ s s' t] by (auto simp: execute_def skipped_def) metis+
next
  case False
  then show ?thesis
    using execute_geometry [OF assms(1)] assms(2-)
    by (cases i) (auto simp: skipped_def execute_def nothing_placed_def kMaximumConstants_def)
qed

lemma bounds_env_simps [simp]: "bounds_only (bounds_env env)" "read_nbt (bounds_env env) = read_nbt env"
  "consistent (bounds_env env) = consistent env"
  by (simp_all add: bounds_env_def consistent_def)

lemma run_instr_skipped:
  assumes "run_instr env i s = Inr p" "cursor s = cursor t" "low s = low t" "high s = high t" "nothing_placed t"
    and "flat (bdx_in s) = flat (bdx_in t)" "state_ok s" "state_ok t"
  shows "\<exists>q s' t'. run_instr (bounds_env env) (skipped i) t = Inr q \<and> bounds_sim s' t' \<and>
    (p = Continue s' \<and> q = Continue t' \<or> p = Finished s' \<and> q = Finished t')"
proof -
  let ?c = "\<lambda>st. st\<lparr>command_index := command_index st + 1\<rparr>"
  obtain s1 where s1: "execute env i (?c s) = Inr s1"
    and p: "p = (let s2 = (if is_metadata i then s1 else update_bounds s1)
      in if i = Terminate then Finished s2 else Continue s2)"
    using assms(1) by (auto simp: run_instr_def and_then_eq_Inr_iff Let_def)
  obtain t1 where t1: "execute (bounds_env env) (skipped i) (?c t) = Inr t1"
    and g: "cursor s1 = cursor t1" "low s1 = low t1" "high s1 = high t1" "nothing_placed t1"
    using execute_skipped [OF s1, of "?c t"] assms(2-5) by auto
  have meta: "is_metadata (skipped i) = is_metadata i" "skipped i = Terminate \<longleftrightarrow> i = Terminate"
    by (cases i; simp add: skipped_def is_metadata_def)+
  have "bdx_in s1 = bdx_in s" "bdx_in t1 = bdx_in t"
    using execute_input [OF s1] execute_input [OF t1] by simp_all
  then have "bounds_sim (if is_metadata i then s1 else update_bounds s1) (if is_metadata i then t1 else update_bounds t1)"
    using g assms(6-8) by (auto simp: bounds_sim_def) (simp_all add: update_bounds_def)
  then show ?thesis using t1 p meta by (auto simp: run_instr_def Let_def)
qed

lemma slow_command_skipped:
  assumes nbt: "nbt_agrees (read_nbt env)" and full: "\<not> bounds_only env" and sim: "bounds_sim s t"
    and r: "slow_command env s = Inr p" and p: "p \<noteq> EndOfInput"
  shows "\<exists>q s' t'. slow_command (bounds_env env) t = Inr q \<and> bounds_sim s' t' \<and>
    (p = Continue s' \<and> q = Continue t' \<or> p = Finished s' \<and> q = Finished t')"
proof -
  have ok: "state_ok s" "state_ok t" "flat (bdx_in s) = flat (bdx_in t)" using sim by (simp_all add: bounds_sim_def)
  obtain b d i d1 where t8: "try_u8 (bdx_in s) = Inr (Some b, d)"
    and rc: "read_command (read_nbt env) False (unat b) d = Inr (i, d1)"
    and ri: "run_instr env i (s\<lparr>bdx_in := d1\<rparr>) = Inr p"
    using r p full by (auto simp: slow_command_run and_then_eq_Inr_iff split: option.splits)
  note okd = try_u8_reads(3) [OF t8 ok(1)]
  obtain e where e: "try_u8 (bdx_in t) = Inr (Some b, e)" "flat e = flat d" "decoded_ok e"
    using flat_agrees [OF reads_try_u8 ok t8] by blast
  obtain d2 where d2: "read_command (read_nbt env) True (unat b) d = Inr (skipped i, d2)" "flat d2 = flat d1"
    using read_command_skipped [OF nbt okd rc] by blast
  obtain e2 where e2: "read_command (read_nbt env) True (unat b) e = Inr (skipped i, e2)" "flat e2 = flat d2"
    "decoded_ok e2" using flat_agrees [OF reads_command okd e(3) e(2) [symmetric] d2(1)] by blast
  have "\<exists>q s' t'. run_instr (bounds_env env) (skipped i) (t\<lparr>bdx_in := e2\<rparr>) = Inr q \<and> bounds_sim s' t' \<and>
    (p = Continue s' \<and> q = Continue t' \<or> p = Finished s' \<and> q = Finished t')"
    by (rule run_instr_skipped [OF ri])
      (use sim e2 d2 reads_bytesD(4) [OF reads_command okd rc] in \<open>simp_all add: bounds_sim_def\<close>)
  then show ?thesis using e(1) e2(1) by (simp add: slow_command_run)
qed

lemma slow_loop_skipped:
  assumes nbt: "nbt_agrees (read_nbt env)" and full: "\<not> bounds_only env"
  shows "bounds_sim s t \<Longrightarrow> bdx_slow_loop env s = Some (Inr s') \<Longrightarrow>
    \<exists>t'. bdx_slow_loop (bounds_env env) t = Some (Inr t') \<and> low s' = low t' \<and> high s' = high t' \<and>
      nothing_placed t'"
proof (induction "bytes_left s" arbitrary: s t rule: less_induct)
  case less
  obtain p where p: "slow_command env s = Inr p" "p \<noteq> EndOfInput"
    using less.prems(2) by (subst (asm) bdx_slow_loop.simps) (auto split: sum.splits progress.splits)
  note step = slow_command_skipped [OF nbt full less.prems(1) p]
  show ?case
  proof (cases p)
    case (Finished u)
    then show ?thesis using step p less.prems(2)
      by (auto simp: bdx_slow_loop.simps [of env s] bdx_slow_loop.simps [of "bounds_env env" t] bounds_sim_def)
  next
    case (Continue u)
    then obtain v where v: "slow_command (bounds_env env) t = Inr (Continue v)" "bounds_sim u v"
      using step by auto
    have "bytes_left u < bytes_left s"
      using slow_command_progress(2) [of env s u] p Continue less.prems(1) by (simp add: bounds_sim_def)
    moreover have "bdx_slow_loop env u = Some (Inr s')"
      using less.prems(2) p Continue by (simp add: bdx_slow_loop.simps [of env s])
    ultimately show ?thesis using less.hyps v by (simp add: bdx_slow_loop.simps [of "bounds_env env" t])
  qed (use p in simp)
qed

section \<open>Whole files\<close>

lemma finish_read_bounds:
  assumes "finish_read a s = Inr r" "low s = low t" "high s = high t" "nothing_placed t"
  shows "\<exists>r'. finish_read a t = Inr r' \<and> bdx_author r' = bdx_author r \<and> bdx_min r' = bdx_min r \<and>
    bdx_original_size r' = bdx_original_size r"
  using assms by (auto simp: finish_read_def and_then_eq_Inr_iff nothing_placed_def shift_entries_def)

lemma reference_bounds:
  assumes nbt: "nbt_agrees (read_nbt env)" and full: "\<not> bounds_only env"
    and r: "bdx_reference env h n outcomes = Some (Inr r)"
  shows "\<exists>r'. bdx_reference (bounds_env env) h n outcomes = Some (Inr r') \<and> bdx_author r' = bdx_author r \<and>
    bdx_min r' = bdx_min r \<and> bdx_original_size r' = bdx_original_size r"
proof -
  let ?d = "flat (decoded_input (decoded_limit (n - 3)) outcomes)"
  have h: "h = [66, 68, 64]" using r by (auto simp: bdx_reference_def split: if_splits)
  obtain a d s where m: "read_metadata ?d = Inr (a, d)"
    and s: "bdx_slow_loop env (bdx_init d) = Some (Inr s)" and f: "finish_read a s = Inr r"
    using r h by (auto simp: bdx_reference_def read_with_def and_then_eq_Inr_iff split: sum.splits)
  have "decoded_ok d" using reads_bytesD(4) [OF reads_metadata _ m] by simp
  then have sim: "bounds_sim (bdx_init d) (bdx_init d)"
    by (simp add: bounds_sim_def bdx_init_def nothing_placed_def)
  from slow_loop_skipped [OF nbt full sim s] obtain t where
    t: "bdx_slow_loop (bounds_env env) (bdx_init d) = Some (Inr t)" "low s = low t" "high s = high t"
      "nothing_placed t" by blast
  with finish_read_bounds [OF f t(2-4)] h m show ?thesis
    by (auto simp: bdx_reference_def read_with_def)
qed


lemma sample_nbt_agrees: "nbt_agrees sample_reader"
proof -
  have "\<exists>d'. skip_nbt_compound \<lparr>area = bytes, pending = [], fault = f\<rparr> = Inr ((), d') \<and>
      input_bytes d' = drop 4 bytes \<and> 4 \<le> length bytes" if "take 4 bytes = [10, 0, 0, 0]" for bytes f
  proof -
    have "bytes = [10, 0, 0, 0] @ drop 4 bytes" using that append_take_drop_id [of 4 bytes] by simp
    then obtain xs where xs: "bytes = 10 # 0 # 0 # 0 # xs" by auto
    have u: "read_u16_le (flat_input (0 # 0 # ys) f) = Inr (0, flat_input ys f)" for ys
      using read_exact_input [of "[0, 0]" 2 ys f] by (simp add: read_u16_le_def le_nat_def be_nat_def)
    have levels: "skip_nbt_payload 129 10 (flat_input (0 # ys) f) = Inr ((), flat_input ys f)" for ys
    proof -
      have "skip_nbt_payload (Suc 128) 10 (flat_input (0 # ys) f) = Inr ((), flat_input ys f)"
        by (simp only: skip_nbt_payload.simps) simp
      moreover have "Suc 128 = 129" by simp
      ultimately show ?thesis by metis
    qed
    have "skip_nbt_compound (flat_input bytes f) = Inr ((), flat_input xs f)"
      using skip_input [of "[]" 0 _ f] levels by (simp add: xs skip_nbt_compound_def u)
    then show ?thesis using xs by (simp add: flat_input_def input_bytes_def)
  qed
  then show ?thesis unfolding nbt_agrees_def sample_reader_def by (fastforce split: if_splits)
qed


end
