(* ===== verification/WS_BdxInside.thy ===== *)
theory WS_BdxInside
  imports WS_BdxRead
begin

text \<open>
  What a BDX read returns is well formed: every block and every entity lies inside the size
  of the result, no listed block is air and the counter of blocks is the number listed.
\<close>

section \<open>The invariant of the command loop\<close>

definition pos_within :: "block_pos \<Rightarrow> block_pos \<Rightarrow> block_pos \<Rightarrow> bool" where
  "pos_within l h p \<longleftrightarrow> pos_x l \<le> pos_x p \<and> pos_x p \<le> pos_x h \<and> pos_y l \<le> pos_y p \<and> pos_y p \<le> pos_y h \<and>
    pos_z l \<le> pos_z p \<and> pos_z p \<le> pos_z h"

definition call_start :: "consumer_call \<Rightarrow> block_pos" where
  "call_start c = (case c of SingleCall p r \<Rightarrow> p | RunCall p rs a \<Rightarrow> p)"

definition is_single :: "consumer_call \<Rightarrow> bool" where
  "is_single c = (case c of SingleCall p r \<Rightarrow> True | RunCall p rs a \<Rightarrow> False)"

definition positions :: "bdx_state \<Rightarrow> block_pos set" where
  "positions st = fst ` set (placed_blocks st) \<union> fst ` set (entity_map st) \<union>
    call_start ` set (placement_calls st)"

definition geometry_ok :: "bdx_state \<Rightarrow> bool" where
  "geometry_ok st \<longleftrightarrow>
    (\<forall>p \<in> {cursor st, low st, high st}. in_s32 (pos_x p) \<and> in_s32 (pos_y p) \<and> in_s32 (pos_z p))"

definition read_inv :: "bdx_env \<Rightarrow> bdx_state \<Rightarrow> bool" where
  "read_inv env st \<longleftrightarrow> geometry_ok st \<and> (\<forall>p \<in> insert (cursor st) (positions st). pos_within (low st) (high st) p) \<and>
    (\<forall>b \<in> set (placed_blocks st). snd b \<noteq> air env) \<and>
    (\<forall>c \<in> set (placement_calls st). is_single c) \<and>
    (materialize env \<longrightarrow> non_air st = length (placed_blocks st))"

lemma pos_within_update: "pos_within (pos_min l c) (pos_max h c) p" if "pos_within l h p \<or> p = c"
  using that by (auto simp: pos_within_def pos_min_def pos_max_def)

lemma positions_frame [simp]:
  "positions (update_bounds st) = positions st" "positions (st\<lparr>bdx_in := d\<rparr>) = positions st"
  "positions (st\<lparr>command_index := n\<rparr>) = positions st" "positions (st\<lparr>low := l, high := h\<rparr>) = positions st"
  by (simp_all add: positions_def update_bounds_def)

lemma store_entity_positions:
  "store_entity env e r st = Inr st' \<Longrightarrow>
    positions st' \<subseteq> insert (cursor st) (positions st) \<and> placed_blocks st' = placed_blocks st \<and>
    placement_calls st' = placement_calls st \<and> non_air st' = non_air st"
proof -
  have up: "positions (st\<lparr>entity_map := umap_put (cursor st) v (entity_map st)\<rparr>) = insert (cursor st) (positions st)" for v
    unfolding positions_def by (simp add: set_fst_umap_put)
  assume "store_entity env e r st = Inr st'"
  then have "st' = st \<or> (\<exists>v. st' = st\<lparr>entity_map := umap_put (cursor st) v (entity_map st)\<rparr>)"
    by (auto simp: store_entity_def split: option.splits if_splits)
  then show ?thesis using up by auto
qed

lemma place_stages_positions:
  "positions (drop_entity env e st) \<subseteq> positions st"
  "positions (notify_placement env r st) =
    (if placement_consumer env then insert (cursor st) (positions st) else positions st)"
  "positions (notify_block env r st) = positions st"
  "positions (keep_block env r st) = (if materialize env then insert (cursor st) (positions st) else positions st)"
  by (auto simp: positions_def drop_entity_def notify_placement_def notify_block_def keep_block_def
      call_start_def umap_erase_def split: if_splits)

lemma place_stages_blocks [simp]:
  "placed_blocks (drop_entity env e st) = placed_blocks st" "non_air (drop_entity env e st) = non_air st"
  "placed_blocks (notify_placement env r st) = placed_blocks st" "non_air (notify_placement env r st) = non_air st"
  "placed_blocks (notify_block env r st) = placed_blocks st" "non_air (notify_block env r st) = non_air st"
  "placed_blocks (keep_block env r st) = (if materialize env then placed_blocks st @ [(cursor st, r)] else placed_blocks st)"
  "non_air (keep_block env r st) = non_air st" "placement_calls (drop_entity env e st) = placement_calls st"
  "placement_calls (notify_block env r st) = placement_calls st"
  "placement_calls (keep_block env r st) = placement_calls st"
  "placement_calls (notify_placement env r st) =
    (if placement_consumer env then placement_calls st @ [SingleCall (cursor st) r] else placement_calls st)"
  by (simp_all add: drop_entity_def notify_placement_def notify_block_def keep_block_def)

definition blocks_inv :: "bdx_env \<Rightarrow> bdx_state \<Rightarrow> bool" where
  "blocks_inv env st \<longleftrightarrow> (\<forall>b \<in> set (placed_blocks st). snd b \<noteq> air env) \<and>
    (\<forall>c \<in> set (placement_calls st). is_single c) \<and>
    (materialize env \<longrightarrow> non_air st = length (placed_blocks st))"

lemma place_inv:
  assumes "place env r e st = Inr st'"
  shows "positions st' \<subseteq> insert (cursor st) (positions st)" and "blocks_inv env st \<Longrightarrow> blocks_inv env st'"
proof -
  obtain s where s: "store_entity env e r (drop_entity env e st) = Inr s"
    using assms by (auto simp: place_def and_then_eq_Inr_iff)
  then have st': "st' = notify_placement env r s \<or> r \<noteq> air env \<and>
      st' = (let t = notify_block env r (keep_block env r (notify_placement env r s)) in t\<lparr>non_air := non_air t + 1\<rparr>)"
    using assms by (simp add: place_def Let_def split: if_splits)
  have c: "cursor s = cursor st" using store_entity_cursor [OF s] by simp
  have up: "positions (t\<lparr>non_air := n\<rparr>) = positions t" for t n by (simp add: positions_def)
  have "positions s \<subseteq> insert (cursor st) (positions st)"
    using store_entity_positions [OF s] place_stages_positions(1) [of env e st] by auto
  with st' show "positions st' \<subseteq> insert (cursor st) (positions st)"
    by (auto simp: place_stages_positions c up Let_def split: if_splits)
  show "blocks_inv env st'" if "blocks_inv env st"
    using that st' store_entity_positions [OF s] by (auto simp: blocks_inv_def is_single_def Let_def split: if_splits)
qed

lemma source_runtime_calls:
  "source_runtime env src st = Inr (r, st') \<Longrightarrow> placement_calls st' = placement_calls st"
  by (auto simp: source_runtime_def constant_state_runtime_def legacy_runtime_def pool_runtime_def direct_put_def
      Let_def and_then_eq_Inr_iff split: block_source.splits option.splits if_splits)

lemma execute_inv:
  assumes "execute env i st = Inr st'"
  shows "positions st' \<subseteq> insert (cursor st) (positions st) \<and> (blocks_inv env st \<longrightarrow> blocks_inv env st') \<and>
    low st' = low st \<and> high st' = high st \<and> ((\<exists>ax n. i = MoveCursor ax n) \<or> cursor st' = cursor st)"
proof (cases i)
  case (Place src e)
  then obtain r s where s: "source_runtime env src st = Inr (r, s)" and p: "place env r e s = Inr st'"
    using assms by (auto simp: execute_def and_then_eq_Inr_iff)
  have "same_geometry s st" using source_runtime_geometry [OF s] .
  then have "positions s = positions st" "cursor s = cursor st" "blocks_inv env s = blocks_inv env st"
    "low s = low st" "high s = high st"
    using source_runtime_calls [OF s] by (simp_all add: same_geometry_def positions_def blocks_inv_def)
  then show ?thesis using place_inv [OF p] place_cursor [OF p] by auto
next
  case (StoreEntity c)
  then show ?thesis using assms store_entity_positions [of env "Some c" 0 st st'] store_entity_cursor [of env "Some c" 0 st st']
    by (auto simp: execute_def blocks_inv_def)
next
  case (MoveCursor ax n)
  then show ?thesis using assms
    by (cases ax) (auto simp: execute_def move_cursor_def Let_def and_then_eq_Inr_iff positions_def blocks_inv_def)
qed (use assms in \<open>auto simp: execute_def define_constant_def positions_def blocks_inv_def split: if_splits\<close>)

lemma execute_geometry_ok:
  assumes "execute env i st = Inr st'" "geometry_ok st"
  shows "geometry_ok st'" "geometry_ok (update_bounds st')"
proof -
  have "low st' = low st" "high st' = high st" "(\<exists>ax n. i = MoveCursor ax n) \<or> cursor st' = cursor st"
    using execute_inv [OF assms(1)] by simp_all
  moreover have "in_s32 (pos_x (cursor st')) \<and> in_s32 (pos_y (cursor st')) \<and> in_s32 (pos_z (cursor st'))"
    if "i = MoveCursor ax n" for ax n
    using assms that
    by (cases ax) (auto simp: execute_def move_cursor_def add_coordinate_def Let_def and_then_eq_Inr_iff
        geometry_ok_def in_s32_def split: if_splits)
  ultimately show "geometry_ok st'" using assms(2) by (auto simp: geometry_ok_def)
  then show "geometry_ok (update_bounds st')"
    by (auto simp: geometry_ok_def update_bounds_def pos_min_def pos_max_def min_def max_def)
qed

lemma read_inv_iff:
  "read_inv env st \<longleftrightarrow> geometry_ok st \<and> (\<forall>p \<in> insert (cursor st) (positions st). pos_within (low st) (high st) p) \<and> blocks_inv env st"
  by (auto simp: read_inv_def blocks_inv_def)

lemma slow_command_inv:
  assumes "slow_command env st = Inr (Continue st') \<or> slow_command env st = Inr (Finished st')" and inv: "read_inv env st"
  shows "read_inv env st'"
proof -
  obtain d i s where ex: "execute env i (st\<lparr>bdx_in := d, command_index := command_index st + 1\<rparr>) = Inr s"
    and st': "st' = (if is_metadata i then s else update_bounds s)"
    using assms(1) by (auto simp: slow_command_def and_then_eq_Inr_iff Let_def split: option.splits if_split_asm)
  note e = execute_inv [OF ex]
  have g: "geometry_ok s" "geometry_ok (update_bounds s)"
    using execute_geometry_ok [OF ex] inv by (simp_all add: read_inv_def geometry_ok_def)
  have pos: "\<forall>p \<in> positions s. pos_within (low s) (high s) p" and b: "blocks_inv env s"
    using e inv by (auto simp: read_inv_iff) (auto simp: blocks_inv_def)
  show ?thesis
  proof (cases "is_metadata i")
    case True
    then have "cursor s = cursor st" using e by (auto simp: is_metadata_def split: instr.splits)
    then show ?thesis using pos b e g inv st' True by (auto simp: read_inv_iff)
  next
    case False
    have "positions (update_bounds s) = positions s" "blocks_inv env (update_bounds s) = blocks_inv env s"
      by (simp_all add: blocks_inv_def update_bounds_def)
    then show ?thesis using pos b g st' False pos_within_update
      by (simp add: read_inv_iff) (simp add: update_bounds_def)
  qed
qed

lemma slow_loop_inv:
  "bdx_slow_loop env st = Some (Inr st') \<Longrightarrow> state_ok st \<Longrightarrow> read_inv env st \<Longrightarrow> read_inv env st'"
proof (induction "bytes_left st" arbitrary: st rule: less_induct)
  case less
  note l = less.prems(1) [unfolded bdx_slow_loop.simps [of env st]]
  show ?case
  proof (cases "\<exists>s. slow_command env st = Inr (Continue s)")
    case True
    then obtain s where s: "slow_command env st = Inr (Continue s)" ..
    have "bytes_left s < bytes_left st" "state_ok s"
      using slow_command_progress(1,2) [of env st s] s less.prems(2) by simp_all
    then show ?thesis using less.hyps [of s] s l slow_command_inv [of env st s] less.prems(3) by simp
  next
    case False
    then have "slow_command env st = Inr (Finished st')" using l by (auto split: sum.splits progress.splits)
    then show ?thesis using slow_command_inv less.prems(3) by blast
  qed
qed

section \<open>The result\<close>

lemma shift_position_eq:
  "shift_position o' p = Inr q \<Longrightarrow> q = BlockPos (pos_x p - pos_x o') (pos_y p - pos_y o') (pos_z p - pos_z o')"
  by (auto simp: shift_position_def shift_coordinate_def Let_def and_then_eq_Inr_iff split: if_splits)

lemma shift_loop_eq:
  "fold_result (\<lambda>(p, v) acc. and_then (shift_position o' p) (\<lambda>q. Inr (acc @ [(q, v)]))) es acc = Inr out \<Longrightarrow>
   out = acc @ map (\<lambda>(p, v). (BlockPos (pos_x p - pos_x o') (pos_y p - pos_y o') (pos_z p - pos_z o'), v)) es"
proof (induction es arbitrary: acc)
  case (Cons e es)
  obtain p v where e: "e = (p, v)" by (cases e)
  obtain q where q: "shift_position o' p = Inr q" using Cons.prems e by (auto simp: and_then_eq_Inr_iff)
  show ?case using Cons.IH [of "acc @ [(q, v)]"] Cons.prems e q shift_position_eq [OF q] by simp
qed simp

lemma shift_entries_eq:
  "shift_entries o' es = Inr out \<Longrightarrow>
   out = map (\<lambda>(p, v). (BlockPos (pos_x p - pos_x o') (pos_y p - pos_y o') (pos_z p - pos_z o'), v)) es"
  unfolding shift_entries_def by (drule shift_loop_eq) simp

definition inside_size :: "wsize \<Rightarrow> block_pos \<Rightarrow> bool" where
  "inside_size s p \<longleftrightarrow> 0 \<le> pos_x p \<and> pos_x p < width s \<and> 0 \<le> pos_y p \<and> pos_y p < height s \<and>
    0 \<le> pos_z p \<and> pos_z p < len s"

definition well_formed_result :: "bdx_env \<Rightarrow> bdx_result \<Rightarrow> bool" where
  "well_formed_result env r \<longleftrightarrow>
    (\<forall>(p, rid) \<in> set (bdx_blocks r). inside_size (bdx_original_size r) p \<and> rid \<noteq> air env) \<and>
    (\<forall>(p, _) \<in> set (bdx_entities r). inside_size (bdx_original_size r) p) \<and>
    (materialize env \<longrightarrow> bdx_non_air r = length (bdx_blocks r)) \<and>
    width (bdx_original_size r) \<in> {1..INT32_MAX} \<and> height (bdx_original_size r) \<in> {1..INT32_MAX} \<and>
    len (bdx_original_size r) \<in> {1..INT32_MAX}"

lemma dimension_eq: "dimension l h = Inr n \<Longrightarrow> n = h - l + 1 \<and> 1 \<le> n \<and> n \<le> INT32_MAX"
  by (auto simp: dimension_def Let_def split: if_splits)

lemma finish_read_well_formed:
  assumes "finish_read a st = Inr r" and inv: "read_inv env st"
  shows "well_formed_result env r"
proof -
  obtain w h l bs es where
    dims: "dimension (pos_x (low st)) (pos_x (high st)) = Inr w" "dimension (pos_y (low st)) (pos_y (high st)) = Inr h"
      "dimension (pos_z (low st)) (pos_z (high st)) = Inr l"
    and bs: "shift_entries (low st) (placed_blocks st) = Inr bs" and es: "shift_entries (low st) (entity_map st) = Inr es"
    and r: "r = \<lparr>bdx_author = a, bdx_min = low st, bdx_original_size = \<lparr>width = w, height = h, len = l\<rparr>,
      bdx_blocks = bs, bdx_entities = es, bdx_non_air = non_air st\<rparr>"
    using assms(1) by (auto simp: finish_read_def and_then_eq_Inr_iff)
  note d = dims [THEN dimension_eq]
  have inside: "inside_size \<lparr>width = w, height = h, len = l\<rparr>
      (BlockPos (pos_x p - pos_x (low st)) (pos_y p - pos_y (low st)) (pos_z p - pos_z (low st)))"
    if "p \<in> positions st" for p
    using inv that d by (auto simp: read_inv_def pos_within_def inside_size_def)
  have "\<forall>(p, rid) \<in> set bs. inside_size \<lparr>width = w, height = h, len = l\<rparr> p \<and> rid \<noteq> air env"
    using inside inv shift_entries_eq [OF bs] by (fastforce simp: positions_def read_inv_def)
  moreover have "\<forall>(p, _) \<in> set es. inside_size \<lparr>width = w, height = h, len = l\<rparr> p"
    using inside shift_entries_eq [OF es] by (fastforce simp: positions_def)
  moreover have "materialize env \<longrightarrow> non_air st = length bs"
    using inv shift_entries_eq [OF bs] by (simp add: read_inv_def)
  ultimately show ?thesis using d by (simp add: well_formed_result_def r)
qed

text \<open>
  C5: a file that is read gives a well-formed structure: every block and every block entity
  lies inside the size computed from the bounds, no block of the list is air, the counter
  \<open>mNonAirBlocks\<close> is the number of the blocks when they are kept, and every dimension is a
  positive 32-bit integer.
\<close>

theorem bdx_result_well_formed:
  assumes "consistent env" "outcomes_ok outcomes" and "bdx_read env h n outcomes = Some (Inr r)"
  shows "well_formed_result env r"
proof -
  let ?d = "flat (decoded_input (decoded_limit (n - 3)) outcomes)"
  have "bdx_reference env h n outcomes = Some (Inr r)" using read_reference_ok [OF assms(1,2)] assms(3) by blast
  then obtain a d s where m: "read_metadata ?d = Inr (a, d)"
    and s: "bdx_slow_loop env (bdx_init d) = Some (Inr s)" and f: "finish_read a s = Inr r"
    by (auto simp: bdx_reference_def read_with_def and_then_eq_Inr_iff split: sum.splits if_splits)
  have "read_inv env (bdx_init d)" 
    by (simp add: read_inv_def geometry_ok_def in_s32_def range_simps bdx_init_def positions_def pos_within_def)
  moreover have "state_ok (bdx_init d)" using reads_bytesD(4) [OF reads_metadata _ m] by (simp add: bdx_init_def)
  ultimately show ?thesis using finish_read_well_formed [OF f] slow_loop_inv [OF s] by blast
qed

lemma bdx_result_well_formed_witness:
  "\<exists>r. bdx_read sample_env [66, 68, 64] 20 sample_outcomes = Some (Inr r) \<and> well_formed_result sample_env r"
  using bdx_result_well_formed [OF sample_ok read_reference_ok [OF sample_ok, THEN iffD2, OF sample_reference]]
    read_reference_ok [OF sample_ok, THEN iffD2, OF sample_reference] by blast

end
