(* ===== verification/WS_BdxWriter.thy ===== *)
theory WS_BdxWriter
  imports WS_BdxRead
begin

text \<open>
  The BDX writer, \<open>src/formats/bdx_writer.cpp\<close>: the staging buffer of
  \<open>BrotliCommandWriter\<close>, the encoders of the commands, the palette of constants and the
  loops of \<open>write_bdx\<close> over rows of chunks, batches, sub-chunks and cells. The Brotli encoder
  is outside: what it is handed, piece by piece, is the list \<open>pumped\<close>, and a piece is never
  refused. The structure is a parameter, its \<open>get_chunks_layer0\<close>.
\<close>

section \<open>The staging buffer\<close>

record command_writer =
  buffer_limit :: nat
  staging :: "byte list"
  pumped :: "byte list list"
  finished :: bool

definition new_writer :: "nat \<Rightarrow> command_writer" where
  "new_writer command_buffer_size =
    \<lparr>buffer_limit = max command_buffer_size 4096, staging = [], pumped = [], finished = False\<rparr>"

definition flush_staging :: "command_writer \<Rightarrow> command_writer" where
  "flush_staging w =
    (if staging w = [] then w else w\<lparr>pumped := pumped w @ [staging w], staging := []\<rparr>)"

definition make_room :: "command_writer \<Rightarrow> command_writer" where
  "make_room w = (if length (staging w) = buffer_limit w then flush_staging w else w)"

definition append_byte :: "byte \<Rightarrow> command_writer \<Rightarrow> command_writer" where
  "append_byte v w = (let w = make_room w in w\<lparr>staging := staging w @ [v]\<rparr>)"

text \<open>
  The loop makes progress because the limit is positive (\<open>append_bytes_progress\<close>); with a
  limit of zero, which the constructor excludes, it is left at once.
\<close>

function append_bytes :: "byte list \<Rightarrow> command_writer \<Rightarrow> command_writer" where
  "append_bytes bytes w =
    (let w' = make_room w; count = min (length bytes) (buffer_limit w' - length (staging w'))
     in if bytes = [] \<or> count = 0 then w
        else append_bytes (drop count bytes) (w'\<lparr>staging := staging w' @ take count bytes\<rparr>))"
  by auto
termination
  by (relation "measure (length \<circ> fst)") (auto simp: Let_def)

declare append_bytes.simps [simp del]

definition finish :: "command_writer \<Rightarrow> command_writer" where
  "finish w = (if finished w then w else (flush_staging w)\<lparr>finished := True\<rparr>)"

section \<open>The encoders\<close>

definition append_u16 :: "nat \<Rightarrow> command_writer \<Rightarrow> command_writer" where
  "append_u16 v w = append_byte (word_of_nat v) (append_byte (word_of_nat (v div 256)) w)"

definition append_u32 :: "nat \<Rightarrow> command_writer \<Rightarrow> command_writer" where
  "append_u32 v w =
    append_byte (word_of_nat v) (append_byte (word_of_nat (v div 256))
      (append_byte (word_of_nat (v div 65536)) (append_byte (word_of_nat (v div 16777216)) w)))"

definition append_text :: "string \<Rightarrow> command_writer \<Rightarrow> command_writer" where
  "append_text text w = append_bytes (map byte_of text) w"

definition append_cstring :: "string \<Rightarrow> command_writer \<Rightarrow> command_writer" where
  "append_cstring value w = append_byte 0 (append_text value w)"

text \<open>The commands of an axis: increment, decrement and the moves by 8, 16 and 32 bits.\<close>

record axis_commands =
  increment :: byte
  decrement :: byte
  int8_command :: byte
  int16_command :: byte
  int32_command :: byte

function far_up :: "byte \<Rightarrow> int \<Rightarrow> command_writer \<Rightarrow> int \<times> command_writer" where
  "far_up cmd difference w =
    (if INT32_MAX < difference
     then far_up cmd (difference - INT32_MAX) (append_u32 (nat (u32 INT32_MAX)) (append_byte cmd w))
     else (difference, w))"
  by auto
termination
  by (relation "measure (\<lambda>(_, d, _). nat d)") (auto simp: range_simps)

function far_down :: "byte \<Rightarrow> int \<Rightarrow> command_writer \<Rightarrow> int \<times> command_writer" where
  "far_down cmd difference w =
    (if difference < INT32_MIN
     then far_down cmd (difference - INT32_MIN) (append_u32 (nat (u32 INT32_MIN)) (append_byte cmd w))
     else (difference, w))"
  by auto
termination
  by (relation "measure (\<lambda>(_, d, _). nat (- d))") (auto simp: range_simps)

declare far_up.simps [simp del] far_down.simps [simp del]

definition near_move :: "axis_commands \<Rightarrow> int \<Rightarrow> command_writer \<Rightarrow> command_writer" where
  "near_move c difference w =
    (if difference = 1 then append_byte (increment c) w
     else if difference = -1 then append_byte (decrement c) w
     else if - 128 \<le> difference \<and> difference \<le> 127
     then append_byte (word_of_int difference) (append_byte (int8_command c) w)
     else if - 32768 \<le> difference \<and> difference \<le> 32767
     then append_u16 (nat (u16 difference)) (append_byte (int16_command c) w)
     else append_u32 (nat (u32 difference)) (append_byte (int32_command c) w))"

definition append_move_axis :: "axis_commands \<Rightarrow> int \<Rightarrow> command_writer \<Rightarrow> command_writer" where
  "append_move_axis c difference w =
    (if difference = 0 then w
     else
       let (d, w) = far_up (int32_command c) difference w;
           (d, w) = far_down (int32_command c) d w
       in near_move c d w)"

definition x_commands :: axis_commands where
  "x_commands = \<lparr>increment = 14, decrement = 15, int8_command = 28, int16_command = 20, int32_command = 21\<rparr>"
definition y_commands :: axis_commands where
  "y_commands = \<lparr>increment = 16, decrement = 17, int8_command = 29, int16_command = 22, int32_command = 23\<rparr>"
definition z_commands :: axis_commands where
  "z_commands = \<lparr>increment = 18, decrement = 19, int8_command = 30, int16_command = 24, int32_command = 25\<rparr>"

definition append_move :: "block_pos \<Rightarrow> block_pos \<Rightarrow> command_writer \<Rightarrow> command_writer" where
  "append_move source target w =
    append_move_axis z_commands (pos_z target - pos_z source)
      (append_move_axis y_commands (pos_y target - pos_y source)
        (append_move_axis x_commands (pos_x target - pos_x source) w))"

section \<open>Placing a block\<close>

datatype 'e writer_error = SizeInvalid | BudgetTooSmall | EstimateOverflow | ChunkOverBudget
  | ChunksFailed 'e | PaletteFull

record writer_state =
  out :: command_writer
  palette :: "(runtime_id, nat \<times> nat) umap"
  at :: block_pos

definition unknown_state :: block_state where
  "unknown_state = \<lparr>state_name = ''minecraft:unknown'', states = [], state_version = 0\<rparr>"

definition placed_state :: "registry \<Rightarrow> runtime_id \<Rightarrow> block_state" where
  "placed_state reg rid = (case registry_state reg rid of Some s \<Rightarrow> s | None \<Rightarrow> unknown_state)"

definition append_constants :: "block_state \<Rightarrow> command_writer \<Rightarrow> command_writer" where
  "append_constants st w =
    append_cstring (state_string st) (append_byte 1 (append_cstring (state_name st) (append_byte 1 w)))"

definition append_place :: "nat \<times> nat \<Rightarrow> command_writer \<Rightarrow> command_writer" where
  "append_place ids w = append_u16 (snd ids) (append_u16 (fst ids) (append_byte 5 w))"

definition kMaximumPalette :: nat where "kMaximumPalette = 32768"

definition writer_place ::
  "registry \<Rightarrow> runtime_id \<times> block_pos \<Rightarrow> writer_state \<Rightarrow> ('e writer_error, writer_state) result" where
  "writer_place reg p s =
    (let (rid, position) = p; w = append_move (at s) position (out s)
     in case map_of (palette s) rid of
          Some ids \<Rightarrow> Inr (s\<lparr>out := append_place ids w, at := position\<rparr>)
        | None \<Rightarrow>
            if kMaximumPalette \<le> length (palette s) then Inl PaletteFull
            else
              let name_id = length (palette s) * 2 mod 65536;
                  ids = (name_id, (name_id + 1) mod 65536)
              in Inr (s\<lparr>out := append_place ids (append_constants (placed_state reg rid) w),
                        palette := umap_emplace rid ids (palette s), at := position\<rparr>))"

section \<open>The loops\<close>

text \<open>The batch size: at most 32, the request, and what fits half of the memory budget.\<close>

definition subchunk_count :: "wsize \<Rightarrow> int" where
  "subchunk_count sz = (height sz + 15) div 16"

definition estimated_chunk_bytes :: "wsize \<Rightarrow> nat" where
  "estimated_chunk_bytes sz = nat (min (65536 + subchunk_count sz * 32768) UINT64_MAX)"

definition writer_batch :: "wsize \<Rightarrow> nat \<Rightarrow> nat \<Rightarrow> ('e writer_error, nat) result" where
  "writer_batch sz budget max_in_flight =
    (if width sz \<le> 0 \<or> height sz \<le> 0 \<or> len sz \<le> 0 then Inl SizeInvalid
     else if budget < 65536 then Inl BudgetTooSmall
     else if (UINT64_MAX - 65536) div 32768 < subchunk_count sz then Inl EstimateOverflow
     else
       let requested = (if max_in_flight = 0 then 32 else max 1 max_in_flight);
           budget_batch = (budget div 2) div max 1 (estimated_chunk_bytes sz)
       in if budget_batch = 0 then Inl ChunkOverBudget
          else Inr (min 32 (min requested budget_batch)))"

definition layer_at :: "chunk_map \<Rightarrow> chunk_pos \<Rightarrow> int \<Rightarrow> block_layer option" where
  "layer_at chunks c sy =
    (case map_of chunks c of
       None \<Rightarrow> None
     | Some ch \<Rightarrow> (case sub_chunks ch sy of None \<Rightarrow> None | Some sub \<Rightarrow> Some (layer0 sub)))"

text \<open>
  The cells of a layer in the order of the three loops: \<open>break\<close> ends the loop over x or z
  where the structure ends, \<open>continue\<close> leaves out a y outside it.
\<close>

definition layer_placements ::
  "runtime_id \<Rightarrow> wsize \<Rightarrow> block_layer \<Rightarrow> chunk_pos \<Rightarrow> int \<Rightarrow> (runtime_id \<times> block_pos) list" where
  "layer_placements air_id sz layer c sy =
    [(rid, BlockPos x y z).
       x \<leftarrow> takeWhile (\<lambda>x. x < width sz) (map (\<lambda>i. chunk_x c * 16 + i) [0..15]),
       local_y \<leftarrow> [0..15],
       y \<leftarrow> [sy * 16 + 64 + local_y], 0 \<le> y \<and> y < height sz,
       z \<leftarrow> takeWhile (\<lambda>z. z < len sz) (map (\<lambda>i. chunk_z c * 16 + i) [0..15]),
       rid \<leftarrow> [layer (nat ((local_y * 16 + (z - chunk_z c * 16)) * 16 + (x - chunk_x c * 16)))],
       rid \<noteq> air_id]"

definition write_layer ::
  "registry \<Rightarrow> wsize \<Rightarrow> chunk_map \<Rightarrow> chunk_pos \<Rightarrow> int \<Rightarrow> writer_state \<Rightarrow> ('e writer_error, writer_state) result" where
  "write_layer reg sz chunks c sy s =
    (case layer_at chunks c sy of
       None \<Rightarrow> Inr s
     | Some layer \<Rightarrow>
         fold_result (writer_place reg) (layer_placements (air_runtime_id reg) sz layer c sy) s)"

definition sub_ys :: "wsize \<Rightarrow> int list" where
  "sub_ys sz = [floor_div (-64) 16..floor_div (height sz - 1 - 64) 16]"

definition write_chunk ::
  "registry \<Rightarrow> wsize \<Rightarrow> chunk_map \<Rightarrow> chunk_pos \<Rightarrow> writer_state \<Rightarrow> ('e writer_error, writer_state) result" where
  "write_chunk reg sz chunks c s = fold_result (write_layer reg sz chunks c) (sub_ys sz) s"

definition write_batch ::
  "(chunk_pos list \<Rightarrow> ('e, chunk_map) result) \<Rightarrow> registry \<Rightarrow> wsize \<Rightarrow> chunk_pos list \<Rightarrow>
   writer_state \<Rightarrow> ('e writer_error, writer_state) result" where
  "write_batch source reg sz positions s =
    (case source positions of
       Inl e \<Rightarrow> Inl (ChunksFailed e)
     | Inr chunks \<Rightarrow> fold_result (write_chunk reg sz chunks) positions s)"

function write_row ::
  "(chunk_pos list \<Rightarrow> ('e, chunk_map) result) \<Rightarrow> registry \<Rightarrow> wsize \<Rightarrow> nat \<Rightarrow> int \<Rightarrow> int \<Rightarrow>
   writer_state \<Rightarrow> ('e writer_error, writer_state) result" where
  "write_row source reg sz n cz batch_x s =
    (if chunk_x_count sz \<le> batch_x \<or> n = 0 then Inr s
     else
       let batch_end = min (chunk_x_count sz) (batch_x + int n)
       in and_then (write_batch source reg sz (map (\<lambda>x. ChunkPos x cz) [batch_x..batch_end - 1]) s)
            (write_row source reg sz n cz (batch_x + int n)))"
  by auto
termination
  by (relation "measure (\<lambda>(_, _, sz, _, _, batch_x, _). nat (chunk_x_count sz - batch_x))") auto

declare write_row.simps [simp del]

definition write_rows ::
  "(chunk_pos list \<Rightarrow> ('e, chunk_map) result) \<Rightarrow> registry \<Rightarrow> wsize \<Rightarrow> nat \<Rightarrow> writer_state \<Rightarrow>
   ('e writer_error, writer_state) result" where
  "write_rows source reg sz n s =
    fold_result (\<lambda>cz. write_row source reg sz n cz 0) [0..chunk_z_count sz - 1] s"

definition write_start :: "nat \<Rightarrow> writer_state" where
  "write_start budget =
    \<lparr>out = append_byte 0 (append_byte 0 (append_text ''BDX''
       (new_writer (min 262144 (max 4096 (budget div 8)))))),
     palette = [], at = BlockPos 0 0 0\<rparr>"

text \<open>The pieces the encoder is handed, in order; the file is the header \<open>BD@\<close> and their compression.\<close>

definition write_bdx ::
  "(chunk_pos list \<Rightarrow> ('e, chunk_map) result) \<Rightarrow> registry \<Rightarrow> wsize \<Rightarrow> nat \<Rightarrow> nat \<Rightarrow>
   ('e writer_error, byte list list) result" where
  "write_bdx source reg sz budget max_in_flight =
    and_then (writer_batch sz budget max_in_flight) (\<lambda>n.
    and_then (write_rows source reg sz n (write_start budget)) (\<lambda>s.
      Inr (pumped (finish (append_byte 88 (out s))))))"

end
