(* ===== verification/WS_BdxMoves.thy ===== *)
theory WS_BdxMoves
  imports WS_BdxWriter WS_BdxInside
begin

text \<open>
  What the encoders of the BDX writer append, and that the command loop of the reader executes
  it as meant: the staging buffer loses nothing, and the moves from one position to another
  bring the cursor there.
\<close>

section \<open>The staging buffer\<close>

definition contents :: "command_writer \<Rightarrow> byte list" where
  "contents w = concat (pumped w) @ staging w"

definition writer_ok :: "command_writer \<Rightarrow> bool" where
  "writer_ok w \<longleftrightarrow> \<not> finished w \<and> 0 < buffer_limit w \<and> length (staging w) \<le> buffer_limit w \<and>
    (\<forall>p \<in> set (pumped w). p \<noteq> [] \<and> length p \<le> buffer_limit w)"

text \<open>An operation writes the given bytes.\<close>

definition writes :: "(command_writer \<Rightarrow> command_writer) \<Rightarrow> byte list \<Rightarrow> bool" where
  "writes f bs \<longleftrightarrow>
    (\<forall>w. writer_ok w \<longrightarrow> writer_ok (f w) \<and> contents (f w) = contents w @ bs \<and>
      buffer_limit (f w) = buffer_limit w)"

named_theorems writing \<open>what the encoders write\<close>

lemma writesD:
  "writes f bs \<Longrightarrow> writer_ok w \<Longrightarrow> writer_ok (f w)"
  "writes f bs \<Longrightarrow> writer_ok w \<Longrightarrow> contents (f w) = contents w @ bs"
  "writes f bs \<Longrightarrow> writer_ok w \<Longrightarrow> buffer_limit (f w) = buffer_limit w"
  by (simp_all add: writes_def)

lemma writes_nothing [writing]: "writes (\<lambda>w. w) []"
  by (simp add: writes_def)

lemma writes_then: "writes f a \<Longrightarrow> writes g b \<Longrightarrow> writes (\<lambda>w. g (f w)) (a @ b)"
  by (simp add: writes_def)

lemma writes_flush: "writes flush_staging []"
  by (auto simp: writes_def flush_staging_def writer_ok_def contents_def)

lemma writes_room: "writes make_room []"
  using writes_flush by (simp add: writes_def make_room_def)

lemma make_room_free: "writer_ok w \<Longrightarrow> length (staging (make_room w)) < buffer_limit (make_room w)"
  by (auto simp: make_room_def flush_staging_def writer_ok_def)

lemma writes_byte [writing]: "writes (append_byte v) [v]"
  unfolding writes_def
proof (intro allI impI)
  fix w
  assume ok: "writer_ok w"
  note r = writesD [OF writes_room ok] make_room_free [OF ok]
  show "writer_ok (append_byte v w) \<and> contents (append_byte v w) = contents w @ [v] \<and>
      buffer_limit (append_byte v w) = buffer_limit w"
    using r by (simp add: append_byte_def Let_def) (simp add: writer_ok_def contents_def)
qed

lemma append_bytes_progress:
  "writer_ok w \<Longrightarrow> bytes \<noteq> [] \<Longrightarrow>
   0 < min (length bytes) (buffer_limit (make_room w) - length (staging (make_room w)))"
  using make_room_free [of w] by simp

lemma writes_bytes [writing]: "writes (append_bytes bs) bs"
  unfolding writes_def
proof (intro allI impI)
  fix w
  assume "writer_ok w"
  then show "writer_ok (append_bytes bs w) \<and> contents (append_bytes bs w) = contents w @ bs \<and>
      buffer_limit (append_bytes bs w) = buffer_limit w"
  proof (induction bs w rule: append_bytes.induct)
    case (1 bs w)
    let ?w = "make_room w"
    let ?n = "min (length bs) (buffer_limit ?w - length (staging ?w))"
    show ?case
    proof (cases "bs = []")
      case True
      then show ?thesis using "1.prems" by (simp add: append_bytes.simps [of "[]" w])
    next
      case False
      then have n: "?n \<noteq> 0" using append_bytes_progress [OF "1.prems"] by blast
      let ?v = "?w\<lparr>staging := staging ?w @ take ?n bs\<rparr>"
      note r = writesD [OF writes_room "1.prems"]
      have v: "writer_ok ?v" "contents ?v = contents w @ take ?n bs" "buffer_limit ?v = buffer_limit w"
        using r by (auto simp: writer_ok_def contents_def)
      have step: "append_bytes bs w = append_bytes (drop ?n bs) ?v"
        unfolding append_bytes.simps [of bs w] Let_def by (simp only: False n simp_thms if_False)
      note IH = "1.IH" [OF HOL.refl HOL.refl _ v(1)]
      then show ?thesis using False n v by (simp add: step append_take_drop_id)
    qed
  qed
qed

lemma writes_cong: "writes f bs \<Longrightarrow> bs = cs \<Longrightarrow> (\<And>w. f w = g w) \<Longrightarrow> writes g cs"
  by (simp add: writes_def)

definition u16_bytes :: "nat \<Rightarrow> byte list" where
  "u16_bytes v = [word_of_nat (v div 256), word_of_nat v]"

definition u32_bytes :: "nat \<Rightarrow> byte list" where
  "u32_bytes v = [word_of_nat (v div 16777216), word_of_nat (v div 65536), word_of_nat (v div 256), word_of_nat v]"

lemma bytes_length [simp]: "length (u16_bytes v) = 2" "length (u32_bytes v) = 4"
  by (simp_all add: u16_bytes_def u32_bytes_def)

lemma writes_numbers [writing]: "writes (append_u16 v) (u16_bytes v)" "writes (append_u32 v) (u32_bytes v)"
proof -
  have "writes (\<lambda>w. append_byte b (append_byte a w)) ([a] @ [b])" for a b
    by (intro writes_then writing)
  then show "writes (append_u16 v) (u16_bytes v)"
    by (simp add: append_u16_def [abs_def] u16_bytes_def)
  have "writes (\<lambda>w. append_byte d (append_byte c (append_byte b (append_byte a w)))) ((([a] @ [b]) @ [c]) @ [d])"
    for a b c d by (intro writes_then writing)
  then show "writes (append_u32 v) (u32_bytes v)"
    by (simp add: append_u32_def [abs_def] u32_bytes_def)
qed

lemma writes_texts [writing]:
  "writes (append_text t) (map byte_of t)" "writes (append_cstring t) (map byte_of t @ [0])"
proof -
  show t: "writes (append_text t) (map byte_of t)" unfolding append_text_def [abs_def] by (intro writing)
  show "writes (append_cstring t) (map byte_of t @ [0])"
    unfolding append_cstring_def [abs_def] by (intro writes_then t writing)
qed

lemma be_nat_u16: "v < 65536 \<Longrightarrow> be_nat (u16_bytes v) = v"
  by (simp add: be_nat_def u16_bytes_def unsigned_of_nat take_bit_eq_mod)

lemma be_nat_u32: "v < 4294967296 \<Longrightarrow> be_nat (u32_bytes v) = v"
proof -
  assume "v < 4294967296"
  then have "v mod (256 * 256 * 256 * 256) = v" by simp
  moreover have "(((v div 16777216 mod 256) * 256 + v div 65536 mod 256) * 256 + v div 256 mod 256) * 256 +
      v mod 256 = v mod (256 * 256 * 256 * 256)"
    by (simp only: mod_mult2_eq) (simp add: div_mult2_eq [symmetric])
  ultimately show ?thesis
    by (simp add: be_nat_def u32_bytes_def unsigned_of_nat take_bit_eq_mod)
qed

section \<open>Commands the loop executes\<close>

definition runs :: "bdx_env \<Rightarrow> byte list \<Rightarrow> bdx_state \<Rightarrow> bdx_state \<Rightarrow> bool" where
  "runs env bs st st' \<longleftrightarrow> (\<forall>rest f. slow_run env (at_bytes (bs @ rest) f st) (at_bytes rest f st'))"

lemma runs_nothing: "runs env [] st st"
  by (simp add: runs_def slow_run.refl)

lemma runs_then: "runs env a r s \<Longrightarrow> runs env b s t \<Longrightarrow> runs env (a @ b) r t"
  unfolding runs_def by (simp add: slow_run_trans) (meson slow_run_trans)

lemma runs_command:
  assumes "\<And>rest f. read_command (read_nbt env) (bounds_only env) (unat b) (flat_input (p @ rest) f) =
      Inr (i, flat_input rest f)"
    and "\<And>rest f. run_instr env i (at_bytes rest f st) = Inr (Continue (at_bytes rest f st'))"
  shows "runs env (b # p) st st'"
  unfolding runs_def
proof (intro allI)
  fix rest f
  have "slow_command env (at_bytes ((b # p) @ rest) f st) = Inr (Continue (at_bytes rest f st'))"
    using assms by (simp add: slow_command_run)
  then show "slow_run env (at_bytes ((b # p) @ rest) f st) (at_bytes rest f st')"
    by (auto intro: slow_run.step slow_run.refl)
qed

text \<open>The state once the cursor is moved to a position by some commands.\<close>

definition moved_to :: "block_pos \<Rightarrow> nat \<Rightarrow> bdx_state \<Rightarrow> bdx_state" where
  "moved_to q k st =
    st\<lparr>cursor := q, low := pos_min (low st) q, high := pos_max (high st) q,
       command_index := command_index st + k\<rparr>"

definition shifted :: "axis \<Rightarrow> int \<Rightarrow> block_pos \<Rightarrow> block_pos" where
  "shifted ax d p =
    (case ax of AxisX \<Rightarrow> BlockPos (pos_x p + d) (pos_y p) (pos_z p)
     | AxisY \<Rightarrow> BlockPos (pos_x p) (pos_y p + d) (pos_z p)
     | AxisZ \<Rightarrow> BlockPos (pos_x p) (pos_y p) (pos_z p + d))"

definition pos_ok :: "block_pos \<Rightarrow> bool" where
  "pos_ok p \<longleftrightarrow> in_s32 (pos_x p) \<and> in_s32 (pos_y p) \<and> in_s32 (pos_z p)"

lemma move_cursor_shifted:
  assumes "pos_ok (cursor st)" "pos_ok (shifted ax d (cursor st))"
  shows "move_cursor ax d st = Inr (st\<lparr>cursor := shifted ax d (cursor st)\<rparr>)"
  using assms
  by (cases ax) (auto simp: pos_ok_def shifted_def move_cursor_def add_coordinate_def Let_def in_s32_def)

lemma runs_move:
  assumes "map_of move_commands (unat b) = Some (ax, w)" "length p = width_bytes w" "payload_delta w p = d"
    and "pos_ok (cursor st)" "pos_ok (shifted ax d (cursor st))"
  shows "runs env (b # p) st (moved_to (shifted ax d (cursor st)) 1 st)"
proof (rule runs_command)
  show "read_command (read_nbt env) (bounds_only env) (unat b) (flat_input (p @ rest) f) =
      Inr (MoveCursor ax d, flat_input rest f)" for rest f
    using assms(1-3) by (simp add: read_command_def read_delta_input)
  show "run_instr env (MoveCursor ax d) (at_bytes rest f st) =
      Inr (Continue (at_bytes rest f (moved_to (shifted ax d (cursor st)) 1 st)))" for rest f
    using assms(4,5)
    by (simp add: run_instr_def execute_def move_cursor_shifted is_metadata_def)
      (simp add: update_bounds_def moved_to_def)
qed

text \<open>
  Two moves in a row are one when the first does not leave the box that the second one's
  target spans with the bounds so far.
\<close>

definition spanned :: "bdx_state \<Rightarrow> block_pos \<Rightarrow> block_pos \<Rightarrow> bool" where
  "spanned st q p \<longleftrightarrow> pos_within (pos_min (low st) q) (pos_max (high st) q) p"

lemma min_max_absorb: "min l q \<le> p \<Longrightarrow> min (min l p) q = min l q" "p \<le> max h q \<Longrightarrow> max (max h p) q = max h q"
  for l h p q :: int by auto

lemma spanned_bounds:
  "spanned st q p \<Longrightarrow> pos_min (pos_min (low st) p) q = pos_min (low st) q \<and> pos_max (pos_max (high st) p) q = pos_max (high st) q"
  by (simp add: spanned_def pos_within_def pos_min_def pos_max_def min_max_absorb)

lemma moved_to_moved: "spanned st q p \<Longrightarrow> moved_to q k (moved_to p j st) = moved_to q (j + k) st"
  by (drule spanned_bounds) (simp add: moved_to_def)

lemma moved_to_same: "pos_within (low st) (high st) (cursor st) \<Longrightarrow> moved_to (cursor st) 0 st = st"
  by (rule bdx_state.equality) (simp_all add: moved_to_def pos_within_def pos_min_def pos_max_def block_pos.expand)

lemma moved_to_simps [simp]: "cursor (moved_to q k st) = q"
  "low (moved_to q k st) = pos_min (low st) q" "high (moved_to q k st) = pos_max (high st) q"
  by (simp_all add: moved_to_def)

lemma moved_to_within: "pos_within (low (moved_to q k st)) (high (moved_to q k st)) q"
  using pos_within_update by simp

lemma spanned_shifted:
  assumes "pos_within (low st) (high st) (cursor st)" "0 \<le> a \<and> a \<le> b \<or> b \<le> a \<and> a \<le> 0"
  shows "spanned st (shifted ax b (cursor st)) (shifted ax a (cursor st))"
  using assms by (cases ax) (auto simp: spanned_def shifted_def pos_within_def pos_min_def pos_max_def)

lemma shifted_shifted [simp]: "shifted ax b (shifted ax a p) = shifted ax (a + b) p"
  by (cases ax) (simp_all add: shifted_def)

lemma shifted_0 [simp]: "shifted ax 0 p = p"
  by (cases ax) (simp_all add: shifted_def)

lemma pos_ok_between:
  "pos_ok p \<Longrightarrow> pos_ok (shifted ax b p) \<Longrightarrow> 0 \<le> a \<and> a \<le> b \<or> b \<le> a \<and> a \<le> 0 \<Longrightarrow> pos_ok (shifted ax a p)"
  by (cases ax) (auto simp: pos_ok_def shifted_def in_s32_def)

definition axis_ok :: "axis \<Rightarrow> axis_commands \<Rightarrow> bool" where
  "axis_ok ax c \<longleftrightarrow> map_of move_commands (unat (increment c)) = Some (ax, Step 1) \<and>
    map_of move_commands (unat (decrement c)) = Some (ax, Step (-1)) \<and>
    map_of move_commands (unat (int8_command c)) = Some (ax, Int8) \<and>
    map_of move_commands (unat (int16_command c)) = Some (ax, Int16) \<and>
    map_of move_commands (unat (int32_command c)) = Some (ax, Int32)"

lemma axes_ok: "axis_ok AxisX x_commands" "axis_ok AxisY y_commands" "axis_ok AxisZ z_commands"
  by (simp_all add: axis_ok_def x_commands_def y_commands_def z_commands_def move_commands_def)

lemma s_mod: "- 128 \<le> d \<Longrightarrow> d \<le> 127 \<Longrightarrow> s8 (d mod 256) = d"
  "- 32768 \<le> d \<Longrightarrow> d \<le> 32767 \<Longrightarrow> s16 (d mod 65536) = d"
  "- 2147483648 \<le> d \<Longrightarrow> d \<le> 2147483647 \<Longrightarrow> s32 (d mod 4294967296) = d"
  by (simp_all add: s8_def s16_def s32_def mod_simps)

lemma payload_deltas:
  "- 128 \<le> d \<Longrightarrow> d \<le> 127 \<Longrightarrow> payload_delta Int8 [word_of_int d] = d"
  "- 32768 \<le> d \<Longrightarrow> d \<le> 32767 \<Longrightarrow> payload_delta Int16 (u16_bytes (nat (u16 d))) = d"
  "in_s32 d \<Longrightarrow> payload_delta Int32 (u32_bytes (nat (u32 d))) = d"
proof -
  have "int (unat (word_of_int d :: byte)) = d mod 256" by (simp add: uint_word_of_int)
  then show "- 128 \<le> d \<Longrightarrow> d \<le> 127 \<Longrightarrow> payload_delta Int8 [word_of_int d] = d"
    by (simp only: payload_delta_def signed_8_def delta_width.case list.sel s_mod)
  have t: "take 2 (u16_bytes n) = u16_bytes n" "take 4 (u32_bytes n) = u32_bytes n" for n
    by (simp_all add: u16_bytes_def u32_bytes_def)
  have n: "int (be_nat (u16_bytes (nat (d mod 65536)))) = d mod 65536"
    "int (be_nat (u32_bytes (nat (d mod 4294967296)))) = d mod 4294967296"
    by (subst be_nat_u16 be_nat_u32; simp add: nat_less_iff)+
  show "- 32768 \<le> d \<Longrightarrow> d \<le> 32767 \<Longrightarrow> payload_delta Int16 (u16_bytes (nat (u16 d))) = d"
    by (simp only: payload_delta_def signed_be16_def delta_width.case t u16_def n s_mod)
  show "in_s32 d \<Longrightarrow> payload_delta Int32 (u32_bytes (nat (u32 d))) = d"
    by (simp only: payload_delta_def signed_be32_def delta_width.case t u32_def n s_mod range_simps)
qed

definition axis_move :: "bdx_env \<Rightarrow> axis \<Rightarrow> int \<Rightarrow> byte list \<Rightarrow> bool" where
  "axis_move env ax d bs \<longleftrightarrow>
    (\<forall>st. pos_ok (cursor st) \<and> pos_ok (shifted ax d (cursor st)) \<and> pos_within (low st) (high st) (cursor st) \<longrightarrow>
      (\<exists>k. runs env bs st (moved_to (shifted ax d (cursor st)) k st)))"

lemma axis_move_none: "axis_move env ax 0 []"
  unfolding axis_move_def using runs_nothing moved_to_same by (metis shifted_0)

lemma axis_move_one:
  assumes "map_of move_commands (unat b) = Some (ax, w)" "length p = width_bytes w" "payload_delta w p = d"
  shows "axis_move env ax d (b # p)"
  unfolding axis_move_def using runs_move [OF assms] by blast

lemma axis_move_then:
  assumes "axis_move env ax a as" "axis_move env ax b bs" "0 \<le> a \<and> 0 \<le> b \<or> a \<le> 0 \<and> b \<le> 0"
  shows "axis_move env ax (a + b) (as @ bs)"
  unfolding axis_move_def
proof (intro allI impI)
  fix st :: bdx_state
  assume st: "pos_ok (cursor st) \<and> pos_ok (shifted ax (a + b) (cursor st)) \<and> pos_within (low st) (high st) (cursor st)"
  let ?p = "shifted ax a (cursor st)"
  have p: "pos_ok ?p" using pos_ok_between [of "cursor st" ax "a + b" a] st assms(3) by auto
  obtain k where k: "runs env as st (moved_to ?p k st)" using assms(1) st p unfolding axis_move_def by blast
  have "pos_ok (shifted ax b ?p)" using st by simp
  then obtain j where "runs env bs (moved_to ?p k st) (moved_to (shifted ax b ?p) j (moved_to ?p k st))"
    using assms(2) p moved_to_within unfolding axis_move_def by (metis moved_to_simps(1))
  moreover have "spanned st (shifted ax (a + b) (cursor st)) ?p"
    by (rule spanned_shifted) (use st assms(3) in auto)
  ultimately show "\<exists>k. runs env (as @ bs) st (moved_to (shifted ax (a + b) (cursor st)) k st)"
    using runs_then [OF k] moved_to_moved by auto
qed

lemma axis_move_near:
  assumes "axis_ok ax c" "in_s32 d"
  shows "\<exists>bs. writes (near_move c d) bs \<and> axis_move env ax d bs"
proof -
  have one: "\<exists>bs. writes (\<lambda>w. g (append_byte b w)) bs \<and> axis_move env ax d bs"
    if "writes g p" "map_of move_commands (unat b) = Some (ax, w)" "length p = width_bytes w" "payload_delta w p = d"
    for g b p w
    using writes_then [OF writes_byte [of b] that(1)] axis_move_one [OF that(2-4)] by auto
  consider "d = 1" | "d = -1" | "d \<notin> {1, -1}" "- 128 \<le> d" "d \<le> 127"
    | "\<not> (- 128 \<le> d \<and> d \<le> 127)" "- 32768 \<le> d" "d \<le> 32767"
    | "\<not> (- 128 \<le> d \<and> d \<le> 127)" "\<not> (- 32768 \<le> d \<and> d \<le> 32767)" by auto
  then show ?thesis
  proof cases
    case 1
    then show ?thesis using one [OF writes_nothing, of "increment c" "Step 1"] assms(1)
      by (simp add: near_move_def [abs_def] axis_ok_def width_bytes_def payload_delta_def)
  next
    case 2
    then show ?thesis using one [OF writes_nothing, of "decrement c" "Step (-1)"] assms(1)
      by (simp add: near_move_def [abs_def] axis_ok_def width_bytes_def payload_delta_def)
  next
    case 3
    then show ?thesis using one [OF writes_byte [of "word_of_int d"], of "int8_command c" Int8] assms(1) payload_deltas(1)
      by (simp add: near_move_def [abs_def] axis_ok_def width_bytes_def)
  next
    case 4
    then have "near_move c d = (\<lambda>w. append_u16 (nat (u16 d)) (append_byte (int16_command c) w))"
      by (auto simp: near_move_def)
    then show ?thesis
      using one [OF writes_numbers(1), of "int16_command c" Int16] assms(1) payload_deltas(2) 4
      by (simp add: axis_ok_def width_bytes_def u16_bytes_def)
  next
    case 5
    then have "near_move c d = (\<lambda>w. append_u32 (nat (u32 d)) (append_byte (int32_command c) w))"
      by (auto simp: near_move_def)
    then show ?thesis
      using one [OF writes_numbers(2), of "int32_command c" Int32] assms payload_deltas(3)
      by (simp add: axis_ok_def width_bytes_def u32_bytes_def)
  qed
qed

text \<open>The first loop leaves a difference of at most \<open>INT32_MAX\<close>, the second one of at least \<open>INT32_MIN\<close>.\<close>

lemma axis_move_far_up:
  assumes "map_of move_commands (unat b) = Some (ax, Int32)"
  shows "\<exists>bs r. (\<forall>w. fst (far_up b d w) = r) \<and> writes (\<lambda>w. snd (far_up b d w)) bs \<and>
    axis_move env ax (d - r) bs \<and> r \<le> INT32_MAX \<and> (if INT32_MAX < d then 0 < r \<and> r \<le> d else r = d)"
proof (induction "nat d" arbitrary: d rule: less_induct)
  case less
  show ?case
  proof (cases "INT32_MAX < d")
    case False
    then show ?thesis
      using writes_nothing axis_move_none by (auto simp: far_up.simps [of b d] intro!: exI [of _ "[]"])
  next
    case True
    then have "nat (d - INT32_MAX) < nat d" by (simp add: range_simps)
    from less [OF this] obtain bs r where IH: "\<forall>w. fst (far_up b (d - INT32_MAX) w) = r"
      "writes (\<lambda>w. snd (far_up b (d - INT32_MAX) w)) bs" "axis_move env ax (d - INT32_MAX - r) bs" "r \<le> INT32_MAX"
      "if INT32_MAX < d - INT32_MAX then 0 < r \<and> r \<le> d - INT32_MAX else r = d - INT32_MAX" by blast
    let ?p = "b # u32_bytes (nat (u32 INT32_MAX))"
    have "axis_move env ax INT32_MAX ?p"
      by (rule axis_move_one [OF assms _ payload_deltas(3)])
        (simp_all add: width_bytes_def in_s32_def INT32_MIN_def INT32_MAX_def)
    then have "axis_move env ax (INT32_MAX + (d - INT32_MAX - r)) (?p @ bs)"
      by (rule axis_move_then [OF _ IH(3)]) (use IH(5) True in \<open>auto simp: range_simps split: if_splits\<close>)
    moreover have "writes (\<lambda>w. snd (far_up b d w)) (([b] @ u32_bytes (nat (u32 INT32_MAX))) @ bs)"
      using writes_then [OF writes_then [OF writes_byte writes_numbers(2)] IH(2)] True
      by (simp add: far_up.simps [of b d])
    moreover have "\<forall>w. fst (far_up b d w) = r" using IH(1) True by (simp add: far_up.simps [of b d])
    ultimately show ?thesis using IH(4,5) True
      by (intro exI [of _ "?p @ bs"] exI [of _ r]) (auto simp: range_simps split: if_splits)
  qed
qed

lemma axis_move_far_down:
  assumes "map_of move_commands (unat b) = Some (ax, Int32)"
  shows "\<exists>bs r. (\<forall>w. fst (far_down b d w) = r) \<and> writes (\<lambda>w. snd (far_down b d w)) bs \<and>
    axis_move env ax (d - r) bs \<and> INT32_MIN \<le> r \<and> (if d < INT32_MIN then r < 0 \<and> d \<le> r else r = d)"
proof (induction "nat (- d)" arbitrary: d rule: less_induct)
  case less
  show ?case
  proof (cases "d < INT32_MIN")
    case False
    then show ?thesis
      using writes_nothing axis_move_none by (auto simp: far_down.simps [of b d] intro!: exI [of _ "[]"])
  next
    case True
    then have "nat (- (d - INT32_MIN)) < nat (- d)" by (simp add: range_simps)
    from less [OF this] obtain bs r where IH: "\<forall>w. fst (far_down b (d - INT32_MIN) w) = r"
      "writes (\<lambda>w. snd (far_down b (d - INT32_MIN) w)) bs" "axis_move env ax (d - INT32_MIN - r) bs" "INT32_MIN \<le> r"
      "if d - INT32_MIN < INT32_MIN then r < 0 \<and> d - INT32_MIN \<le> r else r = d - INT32_MIN" by blast
    let ?p = "b # u32_bytes (nat (u32 INT32_MIN))"
    have "axis_move env ax INT32_MIN ?p"
      by (rule axis_move_one [OF assms _ payload_deltas(3)])
        (simp_all add: width_bytes_def in_s32_def INT32_MIN_def INT32_MAX_def)
    then have "axis_move env ax (INT32_MIN + (d - INT32_MIN - r)) (?p @ bs)"
      by (rule axis_move_then [OF _ IH(3)]) (use IH(5) True in \<open>auto simp: range_simps split: if_splits\<close>)
    moreover have "writes (\<lambda>w. snd (far_down b d w)) (([b] @ u32_bytes (nat (u32 INT32_MIN))) @ bs)"
      using writes_then [OF writes_then [OF writes_byte writes_numbers(2)] IH(2)] True
      by (simp add: far_down.simps [of b d])
    moreover have "\<forall>w. fst (far_down b d w) = r" using IH(1) True by (simp add: far_down.simps [of b d])
    ultimately show ?thesis using IH(4,5) True
      by (intro exI [of _ "?p @ bs"] exI [of _ r]) (auto simp: range_simps split: if_splits)
  qed
qed

lemma axis_move_append:
  assumes c: "axis_ok ax c"
  shows "\<exists>bs. writes (append_move_axis c d) bs \<and> axis_move env ax d bs"
proof (cases "d = 0")
  case True
  then show ?thesis using writes_nothing axis_move_none by (auto simp: append_move_axis_def [abs_def])
next
  case False
  have i32: "map_of move_commands (unat (int32_command c)) = Some (ax, Int32)" using c by (simp add: axis_ok_def)
  obtain as r where u: "\<And>w. fst (far_up (int32_command c) d w) = r" "writes (\<lambda>w. snd (far_up (int32_command c) d w)) as"
    "axis_move env ax (d - r) as" "r \<le> INT32_MAX" "if INT32_MAX < d then 0 < r \<and> r \<le> d else r = d"
    using axis_move_far_up [OF i32, of d env] by blast
  obtain bs q where v: "\<And>w. fst (far_down (int32_command c) r w) = q" "writes (\<lambda>w. snd (far_down (int32_command c) r w)) bs"
    "axis_move env ax (r - q) bs" "INT32_MIN \<le> q" "if r < INT32_MIN then q < 0 \<and> r \<le> q else q = r"
    using axis_move_far_down [OF i32, of r env] by blast
  have "in_s32 q" using u(4) v(4,5) by (auto simp: range_simps in_s32_def split: if_splits)
  then obtain cs where n: "writes (near_move c q) cs" "axis_move env ax q cs" using axis_move_near [OF c] by blast
  have eq: "append_move_axis c d = (\<lambda>w. near_move c q (snd (far_down (int32_command c) r (snd (far_up (int32_command c) d w)))))"
    using False u(1) v(1) by (auto simp: append_move_axis_def case_prod_unfold Let_def)
  have "writes (append_move_axis c d) ((as @ bs) @ cs)"
    unfolding eq by (intro writes_then u(2) v(2) n(1))
  moreover have "axis_move env ax (d - r + (r - q) + q) ((as @ bs) @ cs)"
    by (rule axis_move_then [OF axis_move_then [OF u(3) v(3)] n(2)])
      (use u(5) v(5) in \<open>auto simp: range_simps split: if_splits\<close>)
  ultimately show ?thesis by auto
qed

section \<open>Moves\<close>

lemma spanned_axis:
  assumes "pos_within (low st) (high st) (cursor st)"
    and "pos_x p \<in> {pos_x (cursor st), pos_x q}" "pos_y p \<in> {pos_y (cursor st), pos_y q}"
      "pos_z p \<in> {pos_z (cursor st), pos_z q}"
  shows "spanned st q p"
  using assms unfolding spanned_def pos_within_def pos_min_def pos_max_def by (simp split: if_splits) linarith

lemma append_move_runs:
  assumes "pos_ok p" "pos_ok q"
  shows "\<exists>bs. writes (append_move p q) bs \<and>
    (\<forall>st. cursor st = p \<and> pos_within (low st) (high st) p \<longrightarrow> (\<exists>k. runs env bs st (moved_to q k st)))"
proof -
  obtain xs where x: "writes (append_move_axis x_commands (pos_x q - pos_x p)) xs" "axis_move env AxisX (pos_x q - pos_x p) xs"
    using axis_move_append [OF axes_ok(1)] by blast
  obtain ys where y: "writes (append_move_axis y_commands (pos_y q - pos_y p)) ys" "axis_move env AxisY (pos_y q - pos_y p) ys"
    using axis_move_append [OF axes_ok(2)] by blast
  obtain zs where z: "writes (append_move_axis z_commands (pos_z q - pos_z p)) zs" "axis_move env AxisZ (pos_z q - pos_z p) zs"
    using axis_move_append [OF axes_ok(3)] by blast
  have "writes (append_move p q) ((xs @ ys) @ zs)"
    unfolding append_move_def [abs_def] by (intro writes_then x(1) y(1) z(1))
  moreover have "\<exists>k. runs env ((xs @ ys) @ zs) st (moved_to q k st)"
    if st: "cursor st = p" "pos_within (low st) (high st) p" for st
  proof -
    let ?a = "BlockPos (pos_x q) (pos_y p) (pos_z p)" and ?b = "BlockPos (pos_x q) (pos_y q) (pos_z p)"
    have sh: "shifted AxisX (pos_x q - pos_x p) p = ?a" "shifted AxisY (pos_y q - pos_y p) ?a = ?b"
      "shifted AxisZ (pos_z q - pos_z p) ?b = q"
      by (simp_all add: shifted_def)
    have ok: "pos_ok ?a" "pos_ok ?b" using assms by (simp_all add: pos_ok_def)
    obtain i where i: "runs env xs st (moved_to ?a i st)"
      using x(2) st assms(1) ok(1) unfolding axis_move_def by (metis sh(1))
    obtain j where j: "runs env ys (moved_to ?a i st) (moved_to ?b j (moved_to ?a i st))"
      using y(2) ok moved_to_within [of ?a i st] unfolding axis_move_def by (metis sh(2) moved_to_simps(1))
    obtain k where k: "runs env zs (moved_to ?b j (moved_to ?a i st)) (moved_to q k (moved_to ?b j (moved_to ?a i st)))"
      using z(2) ok(2) assms(2) moved_to_within [of ?b j "moved_to ?a i st"] unfolding axis_move_def
      by (metis sh(3) moved_to_simps(1))
    have "spanned st ?b ?a" "spanned st q ?b" using st by (auto intro!: spanned_axis)
    then have "moved_to q k (moved_to ?b j (moved_to ?a i st)) = moved_to q (i + j + k) st"
      by (simp add: moved_to_moved)
    then show ?thesis using runs_then [OF runs_then [OF i j] k] by auto
  qed
  ultimately show ?thesis by blast
qed

end
