(* ===== verification/WS_BdxRoundTrip.thy ===== *)
theory WS_BdxRoundTrip
  imports WS_BdxMoves
begin

text \<open>
  What the reader makes of the commands the writer appends for one block: it goes to the
  position, learns the constants of a new runtime id and places the block. \<open>synced\<close> relates
  the reader's state to what the writer has placed so far.
\<close>

section \<open>Constants\<close>

definition text_ok :: "string \<Rightarrow> bool" where
  "text_ok t \<longleftrightarrow> CHR 0x00 \<notin> set t \<and> length t \<le> kMaximumConstantStringBytes"

lemma byte_of_zero: "byte_of c = 0 \<longleftrightarrow> c = CHR 0x00"
proof -
  have "byte_of (CHR 0x00) = 0" by (simp add: byte_of_def)
  then show ?thesis by (metis char_of_byte_of)
qed

lemma cstring_loop_text:
  "0 \<notin> set v \<Longrightarrow> n + length v \<le> m \<Longrightarrow> cstring_loop m n (v @ 0 # xs) [] = Inr (v, xs, [])"
  by (induction v arbitrary: n) auto

lemma read_cstring_input:
  assumes "text_ok t"
  shows "read_cstring kMaximumConstantStringBytes (flat_input (map byte_of t @ 0 # xs) f) = Inr (t, flat_input xs f)"
proof -
  have "0 \<notin> set (map byte_of t)" using assms byte_of_zero unfolding text_ok_def set_map by (metis imageE)
  then show ?thesis
    using cstring_loop_text [of "map byte_of t" 0 kMaximumConstantStringBytes xs] assms
    by (auto simp: read_cstring_def flat_input_def text_ok_def comp_def)
qed

definition with_constant :: "string \<Rightarrow> bdx_state \<Rightarrow> bdx_state" where
  "with_constant t st =
    st\<lparr>constants := constants st @ [t], constant_bytes := constant_bytes st + length t,
       command_index := command_index st + 1\<rparr>"

lemma runs_constant:
  assumes "\<not> bounds_only env" "text_ok t" "length (constants st) < kMaximumConstants"
    and "constant_bytes st + length t \<le> kMaximumConstantBytes"
  shows "runs env (1 # map byte_of t @ [0]) st (with_constant t st)"
proof (rule runs_command)
  show "read_command (read_nbt env) (bounds_only env) (unat (1 :: byte)) (flat_input ((map byte_of t @ [0]) @ rest) f) =
      Inr (DefineConstant t, flat_input rest f)" for rest f
    using assms(1) by (simp add: read_command_def move_commands_def read_full_def read_cstring_input [OF assms(2)])
  show "run_instr env (DefineConstant t) (at_bytes rest f st) =
      Inr (Continue (at_bytes rest f (with_constant t st)))" for rest f
    using assms(2-4)
    by (simp add: run_instr_def execute_def define_constant_def text_ok_def is_metadata_def with_constant_def)
qed

section \<open>Resolving a state\<close>

text \<open>What a name and a state text resolve to; the reader finds the runtime id the writer wrote.\<close>

definition resolve_text :: "bdx_env \<Rightarrow> string \<Rightarrow> string \<Rightarrow> (bdx_error, runtime_id) result" where
  "resolve_text env name text =
    and_then (parse_block_states text) (\<lambda>props.
      case legacy_state_runtime_id (bdx_registry env) name props of
        Some r \<Rightarrow> Inr r
      | None \<Rightarrow>
          (case find_compatible (bdx_registry env) \<lparr>state_name = name, states = props, state_version = 0\<rparr> of
             Some r \<Rightarrow> Inr r
           | None \<Rightarrow> Inr (legacy_or_name env name 0)))"

lemma resolve_state_text:
  "constant_string n st = Some name \<Longrightarrow> resolve_state_runtime env n text st = resolve_text env name text"
  by (simp add: resolve_state_runtime_def resolve_text_def)

definition name_of :: "registry \<Rightarrow> runtime_id \<Rightarrow> string" where
  "name_of reg rid = state_name (placed_state reg rid)"

definition text_of :: "registry \<Rightarrow> runtime_id \<Rightarrow> string" where
  "text_of reg rid = state_string (placed_state reg rid)"

definition restores :: "bdx_env \<Rightarrow> runtime_id \<Rightarrow> bool" where
  "restores env rid \<longleftrightarrow>
    resolve_text env (name_of (bdx_registry env) rid) (text_of (bdx_registry env) rid) = Inr rid \<and>
    text_ok (name_of (bdx_registry env) rid) \<and> text_ok (text_of (bdx_registry env) rid) \<and> rid \<noteq> air env"

definition palette_of :: "runtime_id list \<Rightarrow> (runtime_id, nat \<times> nat) umap" where
  "palette_of rids = map (\<lambda>(i, rid). (rid, (2 * i, 2 * i + 1))) (enumerate 0 rids)"

fun const_texts :: "registry \<Rightarrow> runtime_id list \<Rightarrow> string list" where
  "const_texts reg [] = []"
| "const_texts reg (rid # rids) = name_of reg rid # text_of reg rid # const_texts reg rids"

lemma const_texts_append [simp]: "const_texts reg (a @ b) = const_texts reg a @ const_texts reg b"
  by (induction a) simp_all

lemma const_texts_length [simp]: "length (const_texts reg rids) = 2 * length rids"
  by (induction rids) simp_all

lemma const_texts_nth:
  "i < length rids \<Longrightarrow> const_texts reg rids ! (2 * i) = name_of reg (rids ! i) \<and>
    const_texts reg rids ! (2 * i + 1) = text_of reg (rids ! i)"
  by (induction rids arbitrary: i) (auto simp: less_Suc_eq_0_disj nth_Cons split: nat.split)

lemma palette_of_simps [simp]:
  "palette_of [] = []" "length (palette_of rids) = length rids"
  "palette_of (rids @ [r]) = palette_of rids @ [(r, (2 * length rids, 2 * length rids + 1))]"
  by (simp_all add: palette_of_def enumerate_append_eq)

lemma map_of_palette:
  "map_of (palette_of rids) rid = Some ids \<Longrightarrow> \<exists>i < length rids. rids ! i = rid \<and> ids = (2 * i, 2 * i + 1)"
  by (drule map_of_SomeD) (auto simp: palette_of_def in_set_enumerate_eq)

lemma map_of_palette_None: "map_of (palette_of rids) rid = None \<longleftrightarrow> rid \<notin> set rids"
proof -
  have "map fst (palette_of rids) = rids" by (simp add: palette_of_def case_prod_unfold comp_def)
  then show ?thesis by (metis list.set_map map_of_eq_None_iff)
qed

text \<open>The caches only hold what the constants resolve to.\<close>

definition pair_key :: "nat \<Rightarrow> nat" where
  "pair_key i = 2 * i * 65536 + (2 * i + 1)"

definition cached_right :: "runtime_id list \<Rightarrow> nat \<Rightarrow> runtime_id \<Rightarrow> bool" where
  "cached_right rids key r \<longleftrightarrow> (\<exists>i < length rids. key = pair_key i \<and> r = rids ! i)"

definition caches_right :: "runtime_id list \<Rightarrow> bdx_state \<Rightarrow> bool" where
  "caches_right rids st \<longleftrightarrow>
    (\<forall>key r. map_of (state_cache st) key = Some r \<longrightarrow> cached_right rids key r) \<and>
    (\<forall>slot key r. state_direct st slot = Some (key, r) \<longrightarrow> cached_right rids key r)"

lemma pair_key_inj: "pair_key i = pair_key j \<Longrightarrow> i = j"
  by (simp add: pair_key_def)

lemma caches_right_more: "caches_right rids st \<Longrightarrow> caches_right (rids @ [r]) st"
  unfolding caches_right_def cached_right_def by (metis length_append_singleton less_SucI nth_append)

lemma state_runtime_right:
  assumes "caches_right rids st" "constants st = const_texts (bdx_registry env) rids" "i < length rids"
    and "restores env (rids ! i)"
  shows "\<exists>st'. constant_state_runtime env (2 * i) (2 * i + 1) st = Inr (rids ! i, st') \<and> caches_right rids st' \<and>
    st' = with_tables st' st"
proof -
  let ?k = "pair_key i" and ?r = "rids ! i"
  define a b where "a = 2 * i" and "b = 2 * i + 1"
  have key: "a * 65536 + b = ?k" by (simp add: pair_key_def a_def b_def)
  have right: "cached_right rids ?k r \<longleftrightarrow> r = ?r" for r
    using assms(3) pair_key_inj by (auto simp: cached_right_def)
  have put: "caches_right rids (direct_put ?k ?r s)" if "caches_right rids s" for s
    using that right [of ?r] unfolding caches_right_def direct_put_def by auto
  have run: "\<exists>st'. constant_state_runtime env a b st = Inr (?r, st') \<and> caches_right rids st'"
  proof (cases "direct_hit ?k st")
    case (Some r)
    then have "state_direct st (direct_slot ?k) = Some (?k, r)"
      by (auto simp: direct_hit_def split: option.splits prod.splits if_splits)
    then have "cached_right rids ?k r" using assms(1) unfolding caches_right_def by blast
    then have "r = ?r" using right by simp
    then show ?thesis using Some assms(1) by (simp add: constant_state_runtime_def Let_def key)
  next
    case None
    show ?thesis
    proof (cases "map_of (state_cache st) ?k")
      case (Some r)
      then have "r = ?r" using assms(1) right by (auto simp: caches_right_def)
      then show ?thesis using Some None put [OF assms(1)] by (simp add: constant_state_runtime_def Let_def key)
    next
      case none: None
      have c: "constant_string a st = Some (name_of (bdx_registry env) ?r)"
        "constant_string b st = Some (text_of (bdx_registry env) ?r)"
        using const_texts_nth [OF assms(3), of "bdx_registry env"] assms(2,3)
        by (simp_all add: constant_string_def a_def b_def)
      have "caches_right rids (st\<lparr>state_cache := cache_put ?k ?r (state_cache st)\<rparr>)"
        using assms(1) right unfolding caches_right_def cache_put_def umap_emplace_def
        by (auto simp: map_add_Some_iff split: if_splits option.splits)
      then show ?thesis using None none assms(4) put c resolve_state_text [OF c(1), of env]
        by (simp add: constant_state_runtime_def Let_def key restores_def)
    qed
  qed
  then obtain st' where st': "constant_state_runtime env a b st = Inr (?r, st')" "caches_right rids st'" by blast
  have "same_tables st st" by (simp add: same_tables_def)
  from state_runtime_tables(2) [OF this st'(1)] st' show ?thesis unfolding a_def b_def by blast
qed

section \<open>The reader follows the writer\<close>

definition origin :: block_pos where "origin = BlockPos 0 0 0"

definition synced ::
  "bdx_env \<Rightarrow> runtime_id list \<Rightarrow> (runtime_id \<times> block_pos) list \<Rightarrow> block_pos \<Rightarrow> block_pos \<Rightarrow> bdx_state \<Rightarrow> bool" where
  "synced env rids ps p h st \<longleftrightarrow>
    constants st = const_texts (bdx_registry env) rids \<and>
    constant_bytes st = sum_list (map length (constants st)) \<and> caches_right rids st \<and>
    cursor st = p \<and> low st = origin \<and> high st = h \<and> pos_within origin h p \<and> entity_map st = [] \<and>
    placed_blocks st = (if materialize env then map (\<lambda>(rid, q). (q, rid)) ps else []) \<and>
    non_air st = length ps"

definition non_negative :: "block_pos \<Rightarrow> bool" where
  "non_negative p \<longleftrightarrow> 0 \<le> pos_x p \<and> 0 \<le> pos_y p \<and> 0 \<le> pos_z p"

lemma synced_moved:
  assumes "synced env rids ps p h st" "non_negative q"
  shows "synced env rids ps q (pos_max h q) (moved_to q k st)"
proof -
  have "pos_min origin q = origin" using assms(2)
    by (simp add: pos_min_def origin_def non_negative_def min_def)
  moreover have "pos_within origin (pos_max h q) q"
    using assms(2) by (simp add: pos_within_def pos_max_def origin_def non_negative_def)
  ultimately show ?thesis using assms(1) by (simp add: synced_def caches_right_def) (simp add: moved_to_def)
qed

lemma synced_constants:
  assumes "synced env rids ps p h st"
  shows "synced env (rids @ [rid]) ps p h
    (with_constant (text_of (bdx_registry env) rid) (with_constant (name_of (bdx_registry env) rid) st))"
proof -
  have "caches_right (rids @ [rid]) (with_constant t s) = caches_right (rids @ [rid]) s" for t s
    by (simp add: with_constant_def caches_right_def)
  moreover have "caches_right (rids @ [rid]) st" using assms caches_right_more by (simp add: synced_def)
  ultimately show ?thesis using assms by (simp add: synced_def) (simp add: with_constant_def)
qed

text \<open>Placing the block of a known runtime id at the cursor.\<close>

lemma place_synced:
  assumes sy: "synced env rids ps p h st" and i: "i < length rids" "rids ! i = rid"
    and r: "restores env rid" and room: "materialize env \<longrightarrow> length ps < kMaximumMaterializedBlocks"
  shows "\<exists>st'. execute env (Place (ByState (2 * i) (2 * i + 1)) None) (st\<lparr>bdx_in := d, command_index := c\<rparr>) =
      Inr (st'\<lparr>bdx_in := d\<rparr>) \<and> synced env rids (ps @ [(rid, p)]) p h (update_bounds st')"
proof -
  let ?st = "st\<lparr>bdx_in := d, command_index := c\<rparr>"
  have "caches_right rids ?st" "constants ?st = const_texts (bdx_registry env) rids"
    using sy by (simp_all add: synced_def caches_right_def)
  from state_runtime_right [OF this i(1)] r i(2) obtain s where
    s: "constant_state_runtime env (2 * i) (2 * i + 1) ?st = Inr (rid, s)" "caches_right rids s" "s = with_tables s ?st"
    by auto
  let ?pl = "\<lambda>s. let t = notify_block env rid (keep_block env rid (notify_placement env rid (drop_entity env None s)))
    in t\<lparr>non_air := non_air t + 1\<rparr>"
  let ?t = "?pl (with_tables s ?st)"
  have pl: "place env rid None s = Inr (?pl s)"
  proof -
    have "placed_blocks (with_tables s ?st) = placed_blocks st" by (simp add: with_tables_def)
    then have "placed_blocks s = placed_blocks st" using s(3) by metis
    moreover have "rid \<noteq> air env" using r by (simp add: restores_def)
    ultimately show ?thesis using room sy
      by (auto simp: place_def store_entity_def Let_def synced_def)
  qed
  have ex: "execute env (Place (ByState (2 * i) (2 * i + 1)) None) ?st = Inr ?t"
    using s(1) pl s(3) by (simp add: execute_def source_runtime_def del: One_nat_def) 
  have ent: "entity_map st = []" using sy by (simp add: synced_def)
  have low: "pos_min origin p = origin" "pos_max h p = h"
    using sy by (auto simp: synced_def pos_within_def pos_min_def pos_max_def origin_def block_pos.expand)
  have "caches_right rids (update_bounds ?t)"
    using s(2) by (simp add: caches_right_def update_bounds_def notify_block_def keep_block_def
        notify_placement_def drop_entity_def with_tables_def Let_def)
  then have "synced env rids (ps @ [(rid, p)]) p h (update_bounds ?t)"
    using sy low by (simp add: synced_def) (simp add: update_bounds_def Let_def notify_block_def keep_block_def
        notify_placement_def drop_entity_def with_tables_def umap_erase_def)
  moreover have "?t\<lparr>bdx_in := d\<rparr> = ?t"
    by (rule bdx_state.equality) (simp_all add: Let_def notify_block_def keep_block_def
        notify_placement_def drop_entity_def with_tables_def)
  ultimately show ?thesis using ex by metis
qed

lemma run_instr_at_bytes: "run_instr env i (at_bytes xs f st) = map_progress (at_bytes xs f) (run_instr env i st)"
proof -
  have k: "keeps_singles (\<lambda>cs. cs)" by (simp add: keeps_singles_def)
  have fr: "framed (flat_input xs f) (\<lambda>cs. cs) (\<lambda>cs. cs) = at_bytes xs f"
    by (rule ext) (simp add: framed_def)
  show ?thesis using run_instr_framed [OF k k, of env i "flat_input xs f" st] unfolding fr .
qed

lemma runs_place:
  assumes full: "\<not> bounds_only env" and sy: "synced env rids ps p h st" and i: "i < length rids" "rids ! i = rid"
    and small: "i < 32768" and r: "restores env rid"
    and room: "materialize env \<longrightarrow> length ps < kMaximumMaterializedBlocks"
  shows "\<exists>st'. runs env (5 # u16_bytes (2 * i) @ u16_bytes (2 * i + 1)) st st' \<and> synced env rids (ps @ [(rid, p)]) p h st'"
proof -
  let ?i = "Place (ByState (2 * i) (2 * i + 1)) None"
  obtain s where s: "execute env ?i (st\<lparr>bdx_in := bdx_in st, command_index := command_index st + 1\<rparr>) =
      Inr (s\<lparr>bdx_in := bdx_in st\<rparr>)" "synced env rids (ps @ [(rid, p)]) p h (update_bounds s)"
    using place_synced [OF sy i r room] by blast
  let ?t = "update_bounds (s\<lparr>bdx_in := bdx_in st\<rparr>)"
  have "synced env rids (ps @ [(rid, p)]) p h ?t"
    using s(2) by (auto simp: synced_def caches_right_def update_bounds_def)
  moreover have "runs env (5 # u16_bytes (2 * i) @ u16_bytes (2 * i + 1)) st ?t"
  proof (rule runs_command)
    have n: "be_nat (u16_bytes (2 * i)) = 2 * i" "be_nat (u16_bytes (2 * i + 1)) = 2 * i + 1"
      using small by (intro be_nat_u16; simp)+
    show "read_command (read_nbt env) (bounds_only env) (unat (5 :: byte))
        (flat_input ((u16_bytes (2 * i) @ u16_bytes (2 * i + 1)) @ rest) f) = Inr (?i, flat_input rest f)" for rest f
      using read_place_input [of "read_nbt env" _ _ _ _ rest f] full n by (simp add: u16_bytes_def)
    show "run_instr env ?i (at_bytes rest f st) = Inr (Continue (at_bytes rest f ?t))" for rest f
      unfolding run_instr_at_bytes using s(1) by (simp add: run_instr_def is_metadata_def)
  qed
  ultimately show ?thesis by blast
qed

lemma writes_place: "writes (append_place (a, b)) (5 # u16_bytes a @ u16_bytes b)"
proof -
  have "writes (\<lambda>w. append_u16 b (append_u16 a (append_byte 5 w))) (([5] @ u16_bytes a) @ u16_bytes b)"
    by (intro writes_then writing)
  then show ?thesis by (simp add: append_place_def [abs_def])
qed

lemma writes_constants:
  "writes (append_constants st) ((1 # map byte_of (state_name st) @ [0]) @ (1 # map byte_of (state_string st) @ [0]))"
proof -
  have "writes (append_constants st)
      ((([1] @ map byte_of (state_name st) @ [0]) @ [1]) @ map byte_of (state_string st) @ [0])"
    unfolding append_constants_def [abs_def] by (intro writes_then writing)
  then show ?thesis by simp
qed

lemma runs_constants:
  assumes full: "\<not> bounds_only env" and sy: "synced env rids ps p h st" and r: "restores env rid"
    and small: "length rids < 32768"
    and bytes: "sum_list (map length (const_texts (bdx_registry env) (rids @ [rid]))) \<le> kMaximumConstantBytes"
  shows "\<exists>st'. runs env ((1 # map byte_of (name_of (bdx_registry env) rid) @ [0]) @
      (1 # map byte_of (text_of (bdx_registry env) rid) @ [0])) st st' \<and> synced env (rids @ [rid]) ps p h st'"
proof -
  let ?n = "name_of (bdx_registry env) rid" and ?t = "text_of (bdx_registry env) rid"
  have c: "length (constants st) = 2 * length rids"
    "constant_bytes st = sum_list (map length (const_texts (bdx_registry env) rids))"
    using sy by (simp_all add: synced_def)
  have "runs env (1 # map byte_of ?n @ [0]) st (with_constant ?n st)"
    using r small bytes c by (intro runs_constant [OF full]) (simp_all add: restores_def kMaximumConstants_def)
  moreover have "runs env (1 # map byte_of ?t @ [0]) (with_constant ?n st) (with_constant ?t (with_constant ?n st))"
    using r small bytes c
    by (intro runs_constant [OF full]) (simp_all add: restores_def kMaximumConstants_def with_constant_def)
  ultimately show ?thesis using runs_then synced_constants [OF sy] by blast
qed

lemma palette_emplace:
  "rid \<notin> set rids \<Longrightarrow> umap_emplace rid (2 * length rids, 2 * length rids + 1) (palette_of rids) = palette_of (rids @ [rid])"
  by (simp add: umap_emplace_def map_of_palette_None [THEN iffD2])

definition writer_synced :: "runtime_id list \<Rightarrow> writer_state \<Rightarrow> bool" where
  "writer_synced rids s \<longleftrightarrow> writer_ok (out s) \<and> palette s = palette_of rids \<and> length rids \<le> 32768 \<and> pos_ok (at s)"

definition texts_fit :: "registry \<Rightarrow> runtime_id list \<Rightarrow> bool" where
  "texts_fit reg rids \<longleftrightarrow> sum_list (map length (const_texts reg rids)) \<le> kMaximumConstantBytes"

definition add_rid :: "runtime_id \<Rightarrow> runtime_id list \<Rightarrow> runtime_id list" where
  "add_rid rid rids = (if rid \<in> set rids then rids else rids @ [rid])"

lemma writer_place_step:
  assumes full: "\<not> bounds_only env" and p: "writer_place (bdx_registry env) (rid, q) s = Inr s'"
    and ws: "writer_synced rids s" and q: "pos_ok q" "non_negative q" and r: "restores env rid"
    and room: "materialize env \<longrightarrow> length ps < kMaximumMaterializedBlocks"
    and fit: "texts_fit (bdx_registry env) (add_rid rid rids)"
  shows "\<exists>bs. contents (out s') = contents (out s) @ bs \<and> writer_synced (add_rid rid rids) s' \<and> at s' = q \<and>
    buffer_limit (out s') = buffer_limit (out s) \<and>
    (\<forall>st. synced env rids ps (at s) h st \<longrightarrow>
      (\<exists>st'. runs env bs st st' \<and> synced env (add_rid rid rids) (ps @ [(rid, q)]) q (pos_max h q) st'))"
proof -
  let ?reg = "bdx_registry env"
  let ?w = "append_move (at s) q (out s)"
  have ok: "writer_ok (out s)" and pal: "palette s = palette_of rids" using ws by (simp_all add: writer_synced_def)
  obtain ms where ms: "writes (append_move (at s) q) ms" and
    mr: "\<And>st. cursor st = at s \<Longrightarrow> pos_within (low st) (high st) (at s) \<Longrightarrow> \<exists>k. runs env ms st (moved_to q k st)"
    using append_move_runs [of "at s" q env] ws q(1) by (auto simp: writer_synced_def)
  have moved: "\<exists>st'. runs env ms st st' \<and> synced env rids ps q (pos_max h q) st'" if "synced env rids ps (at s) h st" for st
    using mr [of st] synced_moved [OF that q(2)] that by (auto simp: synced_def)
  show ?thesis
  proof (cases "rid \<in> set rids")
    case True
    then obtain i where i: "map_of (palette_of rids) rid = Some (2 * i, 2 * i + 1)" "i < length rids" "rids ! i = rid"
      using map_of_palette [of rids rid] map_of_palette_None [of rids rid] by fastforce
    let ?bs = "5 # u16_bytes (2 * i) @ u16_bytes (2 * i + 1)"
    have small: "i < 32768" using i(2) ws by (simp add: writer_synced_def)
    have s': "s' = s\<lparr>out := append_place (2 * i, 2 * i + 1) ?w, at := q\<rparr>"
      using p i(1) pal by (simp add: writer_place_def Let_def)
    note w = writesD [OF writes_then [OF ms writes_place [of "2 * i" "2 * i + 1"]] ok]
    show ?thesis
    proof (intro exI [of _ "ms @ ?bs"] conjI allI impI)
      show "contents (out s') = contents (out s) @ ms @ ?bs" "at s' = q" "buffer_limit (out s') = buffer_limit (out s)"
        "writer_synced (add_rid rid rids) s'"
        using w ws q(1) True by (simp_all add: s' writer_synced_def add_rid_def)
      show "\<exists>st'. runs env (ms @ ?bs) st st' \<and> synced env (add_rid rid rids) (ps @ [(rid, q)]) q (pos_max h q) st'"
        if st: "synced env rids ps (at s) h st" for st
      proof -
        obtain t where t: "runs env ms st t" "synced env rids ps q (pos_max h q) t" using moved [OF st] by blast
        from runs_place [OF full t(2) i(2,3) small r room] runs_then [OF t(1)] True show ?thesis
          by (auto simp: add_rid_def)
      qed
    qed
  next
    case False
    let ?n = "length rids" and ?st = "placed_state ?reg rid"
    let ?cs = "(1 # map byte_of (name_of ?reg rid) @ [0]) @ (1 # map byte_of (text_of ?reg rid) @ [0])"
    let ?bs = "5 # u16_bytes (2 * ?n) @ u16_bytes (2 * ?n + 1)"
    have none: "map_of (palette_of rids) rid = None" using False by (simp add: map_of_palette_None)
    have small: "?n < 32768" using p none pal by (auto simp: writer_place_def kMaximumPalette_def split: if_splits)
    then have ids: "?n * 2 mod 65536 = 2 * ?n" "(2 * ?n + 1) mod 65536 = 2 * ?n + 1" by simp_all
    have s': "s' = s\<lparr>out := append_place (2 * ?n, 2 * ?n + 1) (append_constants ?st ?w),
        palette := palette_of (rids @ [rid]), at := q\<rparr>"
      using p none pal small palette_emplace [OF False]
      by (simp only: writer_place_def Let_def prod.case palette_of_simps(2) option.case kMaximumPalette_def
          ids not_le if_False) simp
    have add: "add_rid rid rids = rids @ [rid]" using False by (simp add: add_rid_def)
    have cs: "writes (append_constants ?st) ?cs" using writes_constants by (simp add: name_of_def text_of_def)
    note w = writesD [OF writes_then [OF writes_then [OF ms cs] writes_place [of "2 * ?n" "2 * ?n + 1"]] ok]
    show ?thesis
    proof (intro exI [of _ "(ms @ ?cs) @ ?bs"] conjI allI impI)
      show "contents (out s') = contents (out s) @ ((ms @ ?cs) @ ?bs)" "at s' = q" "buffer_limit (out s') = buffer_limit (out s)"
        "writer_synced (add_rid rid rids) s'"
        using w ws q(1) small by (simp_all add: s' writer_synced_def add)
      show "\<exists>st'. runs env ((ms @ ?cs) @ ?bs) st st' \<and> synced env (add_rid rid rids) (ps @ [(rid, q)]) q (pos_max h q) st'"
        if st: "synced env rids ps (at s) h st" for st
      proof -
        obtain t where t: "runs env ms st t" "synced env rids ps q (pos_max h q) t" using moved [OF st] by blast
        obtain u where u: "runs env ?cs t u" "synced env (rids @ [rid]) ps q (pos_max h q) u"
          using runs_constants [OF full t(2) r small] fit by (auto simp: texts_fit_def add)
        have "?n < length (rids @ [rid])" "(rids @ [rid]) ! ?n = rid" by simp_all
        from runs_place [OF full u(2) this small r room] runs_then [OF runs_then [OF t(1) u(1)]] add show ?thesis
          by metis
      qed
    qed
  qed
qed

section \<open>Many blocks\<close>

lemma fold_add_rid_prefix: "\<exists>more. fold add_rid xs rids = rids @ more"
proof (induction xs arbitrary: rids)
  case (Cons x xs)
  obtain more where "fold add_rid xs (add_rid x rids) = add_rid x rids @ more" using Cons by blast
  then show ?case by (cases "x \<in> set rids") (auto simp: add_rid_def [of x])
qed simp

lemma texts_fit_prefix: "texts_fit reg (a @ b) \<Longrightarrow> texts_fit reg a"
  by (simp add: texts_fit_def)

definition reach :: "block_pos \<Rightarrow> (runtime_id \<times> block_pos) list \<Rightarrow> block_pos" where
  "reach h qs = fold (\<lambda>q m. pos_max m (snd q)) qs h"

lemma reach_simps [simp]: "reach h [] = h" "reach h (q # qs) = reach (pos_max h (snd q)) qs"
  by (simp_all add: reach_def)

lemma writer_fold:
  assumes full: "\<not> bounds_only env" and fold: "fold_result (writer_place (bdx_registry env)) qs s =
      (Inr s' :: ('e writer_error, writer_state) result)"
    and ws: "writer_synced rids s"
    and qs: "\<And>rid q. (rid, q) \<in> set qs \<Longrightarrow> pos_ok q \<and> non_negative q \<and> restores env rid"
    and room: "materialize env \<longrightarrow> length ps + length qs \<le> kMaximumMaterializedBlocks"
    and fit: "texts_fit (bdx_registry env) (fold add_rid (map fst qs) rids)"
  shows "\<exists>bs. contents (out s') = contents (out s) @ bs \<and> writer_synced (fold add_rid (map fst qs) rids) s' \<and>
    buffer_limit (out s') = buffer_limit (out s) \<and>
    (\<forall>st. synced env rids ps (at s) h st \<longrightarrow>
      (\<exists>st'. runs env bs st st' \<and> synced env (fold add_rid (map fst qs) rids) (ps @ qs) (at s') (reach h qs) st'))"
  using assms(2-)
proof (induction qs arbitrary: s rids ps h)
  case Nil
  then show ?case using runs_nothing by (auto intro!: exI [of _ "[]"])
next
  case (Cons rq qs)
  obtain rid q where rq: "rq = (rid, q)" by (cases rq)
  obtain t where t: "writer_place (bdx_registry env) (rid, q) s = (Inr t :: ('e writer_error, writer_state) result)"
    and rest: "fold_result (writer_place (bdx_registry env)) qs t =
      (Inr s' :: ('e writer_error, writer_state) result)"
    using Cons.prems(1) rq by (auto simp: and_then_eq_Inr_iff)
  let ?rids = "add_rid rid rids"
  have fit: "texts_fit (bdx_registry env) (fold add_rid (map fst qs) ?rids)" using Cons.prems(5) rq by simp
  obtain more where "fold add_rid (map fst qs) ?rids = ?rids @ more" using fold_add_rid_prefix by blast
  then have fit1: "texts_fit (bdx_registry env) ?rids" using fit texts_fit_prefix by metis
  have q: "pos_ok q" "non_negative q" "restores env rid" using Cons.prems(3) [of rid q] rq by auto
  have room1: "materialize env \<longrightarrow> length ps < kMaximumMaterializedBlocks" using Cons.prems(4) rq by auto
  obtain as where as: "contents (out t) = contents (out s) @ as" "writer_synced ?rids t" "at t = q"
    "buffer_limit (out t) = buffer_limit (out s)"
    and ar: "\<And>st. synced env rids ps (at s) h st \<Longrightarrow>
      \<exists>st'. runs env as st st' \<and> synced env ?rids (ps @ [(rid, q)]) q (pos_max h q) st'"
    using writer_place_step [OF full t Cons.prems(2) q room1 fit1, of h] by blast
  obtain bs where bs: "contents (out s') = contents (out t) @ bs" "writer_synced (fold add_rid (map fst qs) ?rids) s'"
    "buffer_limit (out s') = buffer_limit (out t)"
    and br: "\<And>st. synced env ?rids (ps @ [(rid, q)]) (at t) (pos_max h q) st \<Longrightarrow>
      \<exists>st'. runs env bs st st' \<and>
        synced env (fold add_rid (map fst qs) ?rids) ((ps @ [(rid, q)]) @ qs) (at s') (reach (pos_max h q) qs) st'"
    using Cons.IH [OF rest as(2) _ _ fit, of "ps @ [(rid, q)]" "pos_max h q"] Cons.prems(3,4) by auto
  show ?case
  proof (intro exI [of _ "as @ bs"] conjI allI impI)
    show "contents (out s') = contents (out s) @ as @ bs" "writer_synced (fold add_rid (map fst (rq # qs)) rids) s'"
      "buffer_limit (out s') = buffer_limit (out s)" using as bs rq by simp_all
    show "\<exists>st'. runs env (as @ bs) st st' \<and>
        synced env (fold add_rid (map fst (rq # qs)) rids) (ps @ rq # qs) (at s') (reach h (rq # qs)) st'"
      if st: "synced env rids ps (at s) h st" for st
    proof -
      obtain u where u: "runs env as st u" "synced env ?rids (ps @ [(rid, q)]) q (pos_max h q) u" using ar [OF st] by blast
      then show ?thesis using br [of u] as(3) runs_then [OF u(1)] rq by fastforce
    qed
  qed
qed

section \<open>The whole input\<close>

lemma runs_loop:
  assumes "runs env bs st st'"
  shows "bdx_slow_loop env (at_bytes (bs @ [88]) f st) =
    Some (Inr (update_bounds (st'\<lparr>bdx_in := flat_input [] f, command_index := command_index st' + 1\<rparr>)))"
proof -
  have "slow_run env (at_bytes (bs @ [88]) f st) (at_bytes [88] f st')"
    using assms unfolding runs_def by blast
  then have "bdx_slow_loop env (at_bytes (bs @ [88]) f st) = bdx_slow_loop env (at_bytes [88] f st')"
    by (rule slow_run_loop)
  also have "\<dots> = Some (Inr (update_bounds (st'\<lparr>bdx_in := flat_input [] f, command_index := command_index st' + 1\<rparr>)))"
    by (subst bdx_slow_loop.simps)
      (simp add: slow_command_run run_instr_def read_command_def move_commands_def execute_def is_metadata_def)
  finally show ?thesis .
qed

lemma shift_origin:
  "\<forall>(p, v) \<in> set es. non_negative p \<and> pos_ok p \<Longrightarrow> shift_entries origin es = Inr es"
proof -
  have "shift_position origin p = Inr p" if "non_negative p" "pos_ok p" for p
    using that by (simp add: shift_position_def shift_coordinate_def origin_def non_negative_def pos_ok_def in_s32_def)
  then have "fold_result (\<lambda>(p, v) acc. and_then (shift_position origin p) (\<lambda>q. Inr (acc @ [(q, v)]))) es acc = Inr (acc @ es)"
    if "\<forall>(p, v) \<in> set es. non_negative p \<and> pos_ok p" for es and acc :: "(block_pos \<times> 'a) list"
    using that by (induction es arbitrary: acc) auto
  then show "\<forall>(p, v) \<in> set es. non_negative p \<and> pos_ok p \<Longrightarrow> shift_entries origin es = Inr es"
    by (simp add: shift_entries_def)
qed

lemma reach_within:
  "pos_within origin b h \<Longrightarrow> \<forall>(rid, q) \<in> set qs. pos_within origin b q \<Longrightarrow> pos_within origin b (reach h qs)"
proof (induction qs arbitrary: h)
  case (Cons q qs)
  have "pos_within origin b (pos_max h (snd q))"
    using Cons.prems by (auto simp: pos_within_def pos_max_def)
  then show ?case using Cons by simp
qed simp

lemma finish_synced:
  assumes sy: "synced env rids qs p (reach origin qs) st" and m: "materialize env"
    and qs: "\<forall>(rid, q) \<in> set qs. inside_size sz q" and sz: "size_in_range sz"
      "0 < width sz" "0 < height sz" "0 < len sz"
  shows "\<exists>r. finish_read a (update_bounds (st\<lparr>bdx_in := d, command_index := c\<rparr>)) = Inr r \<and> bdx_author r = a \<and>
    bdx_min r = origin \<and> bdx_blocks r = map (\<lambda>(rid, q). (q, rid)) qs \<and> bdx_entities r = [] \<and>
    bdx_non_air r = length qs"
proof -
  let ?b = "BlockPos (width sz - 1) (height sz - 1) (len sz - 1)" and ?h = "reach origin qs"
  have "pos_within origin ?b q" if "inside_size sz q" for q
    using that by (auto simp: inside_size_def pos_within_def origin_def)
  then have h: "pos_within origin ?b ?h"
    using qs sz by (intro reach_within) (auto simp: pos_within_def origin_def)
  have up: "pos_min origin p = origin" "pos_max ?h p = ?h"
    using sy by (auto simp: synced_def pos_within_def pos_min_def pos_max_def origin_def block_pos.expand)
  have dims: "dimension (pos_x origin) (pos_x ?h) = Inr (pos_x ?h + 1)" "dimension (pos_y origin) (pos_y ?h) = Inr (pos_y ?h + 1)"
    "dimension (pos_z origin) (pos_z ?h) = Inr (pos_z ?h + 1)"
    using h sz by (auto simp: dimension_def pos_within_def origin_def size_in_range_def in_s32_def)
  have "shift_entries origin (map (\<lambda>(rid, q). (q, rid)) qs) = Inr (map (\<lambda>(rid, q). (q, rid)) qs)"
    using qs sz by (intro shift_origin)
      (auto simp: inside_size_def non_negative_def pos_ok_def size_in_range_def in_s32_def range_simps)
  moreover have "shift_entries origin ([] :: (block_pos \<times> nbt_payload) list) = Inr []" by (simp add: shift_entries_def)
  ultimately show ?thesis using sy m up dims
    by (simp add: finish_read_def update_bounds_def synced_def)
qed

end
