(* ===== verification/WS_BdxCopy.thy ===== *)
theory WS_BdxCopy
  imports WS_BdxRoundTrip WS_Stream
begin

text \<open>
  Writing a structure as BDX and reading the file gives the same blocks. The loops of
  \<open>write_bdx\<close> place every block of the structure that is not air exactly once; with what the
  reader makes of the commands this is the round trip of whole structures.
\<close>

section \<open>The loops place every block once\<close>

text \<open>A structure that answers every request, a chunk at a time independent of the rest of it.\<close>

definition answers :: "(chunk_pos list \<Rightarrow> ('e, chunk_map) result) \<Rightarrow> (chunk_pos \<Rightarrow> chunk_data) \<Rightarrow> bool" where
  "answers source data \<longleftrightarrow>
    (\<forall>ps. ps \<noteq> [] \<longrightarrow> (\<exists>m. source ps = Inr m \<and> (\<forall>p \<in> set ps. map_of m p = Some (data p))))"

definition source_block :: "runtime_id \<Rightarrow> (chunk_pos \<Rightarrow> chunk_data) \<Rightarrow> block_pos \<Rightarrow> runtime_id" where
  "source_block air_id data p =
    (case sub_chunks (data (ChunkPos (pos_x p div 16) (pos_z p div 16))) ((pos_y p - 64) div 16) of
       None \<Rightarrow> air_id
     | Some sub \<Rightarrow> layer0 sub (nat ((pos_y p mod 16 * 16 + pos_z p mod 16) * 16 + pos_x p mod 16)))"

definition sub_placements ::
  "runtime_id \<Rightarrow> wsize \<Rightarrow> (chunk_pos \<Rightarrow> chunk_data) \<Rightarrow> chunk_pos \<Rightarrow> int \<Rightarrow> (runtime_id \<times> block_pos) list" where
  "sub_placements air_id sz data c sy =
    (case sub_chunks (data c) sy of
       None \<Rightarrow> []
     | Some sub \<Rightarrow> layer_placements air_id sz (layer0 sub) c sy)"

definition chunk_placements ::
  "runtime_id \<Rightarrow> wsize \<Rightarrow> (chunk_pos \<Rightarrow> chunk_data) \<Rightarrow> chunk_pos \<Rightarrow> (runtime_id \<times> block_pos) list" where
  "chunk_placements air_id sz data c = concat (map (sub_placements air_id sz data c) (sub_ys sz))"

definition all_placements ::
  "runtime_id \<Rightarrow> wsize \<Rightarrow> (chunk_pos \<Rightarrow> chunk_data) \<Rightarrow> (runtime_id \<times> block_pos) list" where
  "all_placements air_id sz data = concat (map (chunk_placements air_id sz data) (grid sz))"

lemma concat_map_concat: "concat (map h (concat yss)) = concat (map (\<lambda>ys. concat (map h ys)) yss)"
  by (induction yss) simp_all

lemma fold_result_same:
  assumes "\<And>x s. x \<in> set xs \<Longrightarrow> f x s = fold_result g (h x) s"
  shows "fold_result f xs s = fold_result g (concat (map h xs)) s"
  unfolding fold_result_concat_map [symmetric] using assms by (rule fold_result_cong [OF HOL.refl HOL.refl])

lemma write_layer_placements:
  assumes "map_of m c = Some (data c)"
  shows "write_layer reg sz m c sy s = fold_result (writer_place reg) (sub_placements (air_runtime_id reg) sz data c sy) s"
  by (simp add: write_layer_def layer_at_def sub_placements_def assms split: option.split)

lemma write_chunk_placements:
  assumes "map_of m c = Some (data c)"
  shows "write_chunk reg sz m c s = fold_result (writer_place reg) (chunk_placements (air_runtime_id reg) sz data c) s"
  unfolding write_chunk_def chunk_placements_def
  by (rule fold_result_same) (rule write_layer_placements [where data = data, OF assms])

lemma write_batch_placements:
  assumes "answers source data" "ps \<noteq> []"
  shows "write_batch source reg sz ps s =
    fold_result (writer_place reg) (concat (map (chunk_placements (air_runtime_id reg) sz data) ps)) s"
proof -
  obtain m where "source ps = Inr m" and m: "\<forall>p \<in> set ps. map_of m p = Some (data p)"
    using assms unfolding answers_def by blast
  then show ?thesis unfolding write_batch_def
    by (simp del: fold_result.simps) (rule fold_result_same, rule write_chunk_placements, blast)
qed

lemma write_row_placements:
  assumes src: "answers source data" and n: "0 < n"
  shows "write_row source reg sz n cz bx s = fold_result (writer_place reg)
    (concat (map (chunk_placements (air_runtime_id reg) sz data) (map (\<lambda>x. ChunkPos x cz) [bx..chunk_x_count sz - 1]))) s"
proof (induction "nat (chunk_x_count sz - bx)" arbitrary: bx s rule: less_induct)
  case less
  show ?case
  proof (cases "chunk_x_count sz \<le> bx")
    case True
    then show ?thesis by (simp add: write_row.simps [of source reg sz n cz bx s])
  next
    case False
    let ?e = "min (chunk_x_count sz) (bx + int n)" and ?f = "\<lambda>x. ChunkPos x cz"
    have split: "[bx..chunk_x_count sz - 1] = [bx..?e - 1] @ [?e..chunk_x_count sz - 1]"
      using upto_split2 [of bx "?e - 1" "chunk_x_count sz - 1"] False n by simp
    have tail: "[bx + int n..chunk_x_count sz - 1] = [?e..chunk_x_count sz - 1]"
      by (cases "bx + int n \<le> chunk_x_count sz") (simp_all add: min_def)
    have ne: "map ?f [bx..?e - 1] \<noteq> []" using False n by simp
    have "write_row source reg sz n cz bx s =
        and_then (write_batch source reg sz (map ?f [bx..?e - 1]) s) (write_row source reg sz n cz (bx + int n))"
      using False n by (subst write_row.simps) (simp add: Let_def)
    also have "write_row source reg sz n cz (bx + int n) = (\<lambda>t. fold_result (writer_place reg)
        (concat (map (chunk_placements (air_runtime_id reg) sz data) (map ?f [?e..chunk_x_count sz - 1]))) t)"
      using less [of "bx + int n"] False n unfolding tail by (intro ext) simp
    finally show ?thesis
      unfolding write_batch_placements [OF src ne] split map_append concat_append fold_result_append .
  qed
qed

lemma write_rows_placements:
  assumes src: "answers source data" and n: "0 < n" and pos: "0 < chunk_x_count sz" "0 < chunk_z_count sz"
  shows "write_rows source reg sz n s = fold_result (writer_place reg) (all_placements (air_runtime_id reg) sz data) s"
proof -
  have g: "grid sz = concat (map (\<lambda>z. map (\<lambda>x. ChunkPos x z) [0..chunk_x_count sz - 1]) [0..chunk_z_count sz - 1])"
    using pos by (simp add: grid_def)
  have "write_rows source reg sz n s = fold_result (writer_place reg)
      (concat (map (\<lambda>cz. concat (map (chunk_placements (air_runtime_id reg) sz data)
        (map (\<lambda>x. ChunkPos x cz) [0..chunk_x_count sz - 1]))) [0..chunk_z_count sz - 1])) s"
    unfolding write_rows_def by (rule fold_result_same) (rule write_row_placements [OF src n])
  then show ?thesis by (simp only: all_placements_def g concat_map_concat map_map comp_def)
qed

section \<open>What is placed\<close>

lemma takeWhile_upto: "takeWhile (\<lambda>x. x < b) [a..c] = [a..min c (b - 1)]" for a b c :: int
proof (induction a c rule: upto.induct)
  case (1 a c)
  then show ?case by (cases "a \<le> c"; cases "a < b") (simp_all add: upto_rec1 min_def)
qed

lemma shifted_cells: "map (\<lambda>i. a + i) [0..15] = [a..a + 15]" for a :: int
  by (simp add: upto.simps)

lemma layer_placements_eq:
  "layer_placements air_id sz layer c sy =
    [(rid, BlockPos x y z).
       x \<leftarrow> [chunk_x c * 16..min (chunk_x c * 16 + 15) (width sz - 1)],
       local_y \<leftarrow> [0..15],
       y \<leftarrow> [sy * 16 + 64 + local_y], 0 \<le> y \<and> y < height sz,
       z \<leftarrow> [chunk_z c * 16..min (chunk_z c * 16 + 15) (len sz - 1)],
       rid \<leftarrow> [layer (nat ((local_y * 16 + (z - chunk_z c * 16)) * 16 + (x - chunk_x c * 16)))],
       rid \<noteq> air_id]"
  unfolding layer_placements_def shifted_cells takeWhile_upto ..

lemma in_cell: "c * 16 \<le> x \<and> x \<le> c * 16 + 15 \<longleftrightarrow> c = x div 16" for c x :: int
  by presburger

lemma set_cells:
  "(rid, BlockPos x y z) \<in> set [(rid, BlockPos x y z). x \<leftarrow> xs, ly \<leftarrow> ys, y \<leftarrow> [f ly], P y, z \<leftarrow> zs,
      rid \<leftarrow> [g ly z x], rid \<noteq> a] \<longleftrightarrow>
    x \<in> set xs \<and> z \<in> set zs \<and> (\<exists>ly \<in> set ys. y = f ly \<and> P y \<and> rid \<noteq> a \<and> rid = g ly z x)"
  by auto

lemma set_layer_placements:
  "(rid, BlockPos x y z) \<in> set (layer_placements air_id sz layer c sy) \<longleftrightarrow>
    chunk_x c = x div 16 \<and> x < width sz \<and> chunk_z c = z div 16 \<and> z < len sz \<and>
    sy = (y - 64) div 16 \<and> 0 \<le> y \<and> y < height sz \<and> rid \<noteq> air_id \<and>
    rid = layer (nat ((y mod 16 * 16 + z mod 16) * 16 + x mod 16))"
proof -
  have x: "x \<in> set [chunk_x c * 16..min (chunk_x c * 16 + 15) (width sz - 1)] \<longleftrightarrow> chunk_x c = x div 16 \<and> x < width sz"
    using in_cell [of "chunk_x c" x] by auto
  have z: "z \<in> set [chunk_z c * 16..min (chunk_z c * 16 + 15) (len sz - 1)] \<longleftrightarrow> chunk_z c = z div 16 \<and> z < len sz"
    using in_cell [of "chunk_z c" z] by auto
  have y: "(\<exists>ly. 0 \<le> ly \<and> ly \<le> 15 \<and> y = sy * 16 + 64 + ly \<and> P ly) \<longleftrightarrow> sy = (y - 64) div 16 \<and> P (y mod 16)" for P
  proof
    assume "\<exists>ly. 0 \<le> ly \<and> ly \<le> 15 \<and> y = sy * 16 + 64 + ly \<and> P ly"
    then obtain ly where ly: "0 \<le> ly" "ly \<le> 15" "y = sy * 16 + 64 + ly" "P ly" by blast
    then have "sy = (y - 64) div 16" using in_cell [of sy "y - 64"] by simp
    moreover have "y mod 16 = ly"
    proof -
      have "y = ly + (sy + 4) * 16" using ly(3) by simp
      then have "y mod 16 = ly mod 16" by (simp only: mod_mult_self1)
      then show ?thesis using ly(1,2) by simp
    qed
    ultimately have "y mod 16 = ly" "(y - 64) div 16 = sy" by simp_all
    with ly show "sy = (y - 64) div 16 \<and> P (y mod 16)" by simp
  next
    assume "sy = (y - 64) div 16 \<and> P (y mod 16)"
    moreover have "y = (y - 64) div 16 * 16 + 64 + y mod 16"
    proof -
      have "(y - 64) mod 16 = y mod 16" using mod_mult_self1 [of "y - 64" 4 16] by simp
      then show ?thesis using div_mult_mod_eq [of "y - 64" 16] by linarith
    qed
    ultimately show "\<exists>ly. 0 \<le> ly \<and> ly \<le> 15 \<and> y = sy * 16 + 64 + ly \<and> P ly"
      by (intro exI [of _ "y mod 16"]) simp
  qed
  let ?cell = "\<lambda>ly. layer (nat ((ly * 16 + (z - chunk_z c * 16)) * 16 + (x - chunk_x c * 16)))"
  have "(rid, BlockPos x y z) \<in> set (layer_placements air_id sz layer c sy) \<longleftrightarrow>
      x \<in> set [chunk_x c * 16..min (chunk_x c * 16 + 15) (width sz - 1)] \<and>
      z \<in> set [chunk_z c * 16..min (chunk_z c * 16 + 15) (len sz - 1)] \<and>
      (\<exists>ly. 0 \<le> ly \<and> ly \<le> 15 \<and> y = sy * 16 + 64 + ly \<and> ((0 \<le> y \<and> y < height sz) \<and> rid \<noteq> air_id \<and>
        rid = layer (nat ((ly * 16 + (z - chunk_z c * 16)) * 16 + (x - chunk_x c * 16)))))"
    unfolding layer_placements_eq set_cells set_upto Bex_def atLeastAtMost_iff conj_assoc ..
  then have eq: "(rid, BlockPos x y z) \<in> set (layer_placements air_id sz layer c sy) \<longleftrightarrow>
      (chunk_x c = x div 16 \<and> x < width sz) \<and> (chunk_z c = z div 16 \<and> z < len sz) \<and>
      sy = (y - 64) div 16 \<and> (0 \<le> y \<and> y < height sz) \<and> rid \<noteq> air_id \<and> rid = ?cell (y mod 16)"
    unfolding x z y [of "\<lambda>ly. (0 \<le> y \<and> y < height sz) \<and> rid \<noteq> air_id \<and> rid = ?cell ly"] .
  show ?thesis
  proof (cases "chunk_x c = x div 16 \<and> chunk_z c = z div 16")
    case True
    then show ?thesis unfolding eq by (simp only: minus_div_mult_eq_mod simp_thms) blast
  next
    case False
    then show ?thesis unfolding eq by blast
  qed
qed

lemma set_chunk_placements:
  assumes "in_s32 (height sz)" "0 < height sz"
  shows "(rid, BlockPos x y z) \<in> set (chunk_placements air_id sz data c) \<longleftrightarrow>
    c = ChunkPos (x div 16) (z div 16) \<and> x < width sz \<and> z < len sz \<and> 0 \<le> y \<and> y < height sz \<and>
    rid \<noteq> air_id \<and> rid = source_block air_id data (BlockPos x y z)"
proof -
  have ys: "sub_ys sz = [-4..(height sz - 65) div 16]"
    using assms by (simp add: sub_ys_def floor_div_eq range_simps)
  have mem: "(y - 64) div 16 \<in> set (sub_ys sz)" if "0 \<le> y" "y < height sz"
    using that zdiv_mono1 [of "-64" "y - 64" 16] zdiv_mono1 [of "y - 64" "height sz - 65" 16] unfolding ys by simp
  have sub: "(rid, BlockPos x y z) \<in> set (sub_placements air_id sz data c sy) \<longleftrightarrow>
      c = ChunkPos (x div 16) (z div 16) \<and> x < width sz \<and> z < len sz \<and> sy = (y - 64) div 16 \<and> 0 \<le> y \<and>
      y < height sz \<and> rid \<noteq> air_id \<and> rid = source_block air_id data (BlockPos x y z)" for sy
  proof (cases "c = ChunkPos (x div 16) (z div 16) \<and> sy = (y - 64) div 16")
    case True
    then show ?thesis
      by (auto simp: sub_placements_def set_layer_placements source_block_def split: option.split)
  next
    case False
    then show ?thesis
      by (cases c) (auto simp: sub_placements_def set_layer_placements split: option.split)
  qed
  have "(rid, BlockPos x y z) \<in> set (chunk_placements air_id sz data c) \<longleftrightarrow>
      (\<exists>sy \<in> set (sub_ys sz). (rid, BlockPos x y z) \<in> set (sub_placements air_id sz data c sy))"
    by (simp add: chunk_placements_def)
  then show ?thesis unfolding sub using mem by blast
qed

lemma set_all_placements:
  assumes "size_in_range sz" "0 < height sz"
  shows "(rid, p) \<in> set (all_placements air_id sz data) \<longleftrightarrow>
    inside_size sz p \<and> rid \<noteq> air_id \<and> rid = source_block air_id data p"
proof -
  obtain x y z where p: "p = BlockPos x y z" by (cases p)
  have "x < width sz \<Longrightarrow> 0 \<le> x div 16 \<and> x div 16 < chunk_x_count sz \<longleftrightarrow> 0 \<le> x"
    using assms(1) chunk_x_count_eq [of sz] by (auto simp: size_in_range_def)
  moreover have "z < len sz \<Longrightarrow> 0 \<le> z div 16 \<and> z div 16 < chunk_z_count sz \<longleftrightarrow> 0 \<le> z"
    using assms(1) chunk_z_count_eq [of sz] by (auto simp: size_in_range_def)
  ultimately show ?thesis
    using assms by (auto simp: all_placements_def p set_chunk_placements set_grid inside_size_def size_in_range_def)
qed

lemma distinct_map_concat:
  assumes "distinct xs" "\<And>x. x \<in> set xs \<Longrightarrow> distinct (map g (f x))"
    and "\<And>x y a b. x \<in> set xs \<Longrightarrow> y \<in> set xs \<Longrightarrow> x \<noteq> y \<Longrightarrow> a \<in> set (f x) \<Longrightarrow> b \<in> set (f y) \<Longrightarrow> g a \<noteq> g b"
  shows "distinct (map g (concat (map f xs)))"
  using assms
proof (induction xs)
  case (Cons x xs)
  have "distinct (map g (concat (map f xs)))"
  proof (rule Cons.IH)
    show "g a \<noteq> g b" if "u \<in> set xs" "v \<in> set xs" "u \<noteq> v" "a \<in> set (f u)" "b \<in> set (f v)" for u v a b
      using Cons.prems(3) [of u v a b] that by simp
  qed (use Cons.prems(1,2) in simp_all)
  moreover have "g ` set (f x) \<inter> g ` set (concat (map f xs)) = {}"
    using Cons.prems(1) Cons.prems(3) [of x] by fastforce
  ultimately show ?case using Cons.prems(2) [of x] by simp
qed simp

lemma distinct_cells:
  assumes "distinct xs" "distinct ys" "distinct zs" "inj f"
  shows "distinct (map snd [(rid, BlockPos x y z). x \<leftarrow> xs, ly \<leftarrow> ys, y \<leftarrow> [f ly], P y, z \<leftarrow> zs,
      rid \<leftarrow> [g ly z x], rid \<noteq> a])"
proof -
  let ?z = "\<lambda>x ly z. concat (map (\<lambda>rid. if rid \<noteq> a then [(rid, BlockPos x (f ly) z)] else []) [g ly z x])"
  let ?y = "\<lambda>x ly. concat (map (\<lambda>y. if P y then concat (map (\<lambda>z. concat (map
      (\<lambda>rid. if rid \<noteq> a then [(rid, BlockPos x y z)] else []) [g ly z x])) zs) else []) [f ly])"
  have row: "distinct (map snd (?y x ly))" for x ly
  proof (cases "P (f ly)")
    case True
    have "distinct (map snd (concat (map (?z x ly) zs)))"
      by (rule distinct_map_concat [OF assms(3)]) (auto split: if_splits)
    then show ?thesis using True by simp
  qed simp
  have plane: "distinct (map snd (concat (map (?y x) ys)))" for x
    by (rule distinct_map_concat [OF assms(2) row]) (use assms(4) in \<open>auto dest: injD split: if_splits\<close>)
  show ?thesis
    by (rule distinct_map_concat [OF assms(1) plane]) (auto split: if_splits)
qed

lemma distinct_layer: "distinct (map snd (layer_placements air_id sz layer c sy))"
  unfolding layer_placements_eq
  by (rule distinct_cells [OF distinct_upto distinct_upto distinct_upto]) (simp add: inj_def)

lemma distinct_all: "distinct (map snd (all_placements air_id sz data))"
proof -
  have sub: "a \<in> set (sub_placements air_id sz data c sy) \<Longrightarrow>
      c = ChunkPos (pos_x (snd a) div 16) (pos_z (snd a) div 16) \<and> sy = (pos_y (snd a) - 64) div 16" for a c sy
    by (cases a; cases "snd a"; cases c) (auto simp: sub_placements_def set_layer_placements split: option.splits)
  have "distinct (map snd (sub_placements air_id sz data c sy))" for c sy
    by (simp add: sub_placements_def distinct_layer split: option.split)
  then have "distinct (map snd (chunk_placements air_id sz data c))" for c
    unfolding chunk_placements_def sub_ys_def
    by (intro distinct_map_concat distinct_upto) (metis sub)+
  moreover have chunk: "a \<in> set (chunk_placements air_id sz data c) \<Longrightarrow>
      c = ChunkPos (pos_x (snd a) div 16) (pos_z (snd a) div 16)" for a c
    using sub by (fastforce simp: chunk_placements_def)
  ultimately show ?thesis
    unfolding all_placements_def by (intro distinct_map_concat distinct_grid) (metis chunk)+
qed

section \<open>Writing and reading\<close>

lemma writer_start:
  "writer_synced [] (write_start budget)" "contents (out (write_start budget)) = [66, 68, 88, 0, 0]"
  "at (write_start budget) = origin"
proof -
  have new: "writer_ok (new_writer n)" "contents (new_writer n) = []" for n
    by (simp_all add: new_writer_def writer_ok_def contents_def)
  have "writes (\<lambda>w. append_byte 0 (append_byte 0 (append_text ''BDX'' w))) ((map byte_of ''BDX'' @ [0]) @ [0])"
    by (intro writes_then writing)
  note w = writesD [OF this new(1)]
  show "writer_synced [] (write_start budget)" "contents (out (write_start budget)) = [66, 68, 88, 0, 0]"
    "at (write_start budget) = origin"
    using w new by (simp_all add: write_start_def writer_synced_def byte_of_def pos_ok_def origin_def range_simps)
qed

lemma finish_pieces:
  assumes "writer_ok w"
  shows "concat (pumped (finish w)) = contents w" and "\<forall>p \<in> set (pumped (finish w)). p \<noteq> [] \<and> length p \<le> buffer_limit w"
proof -
  have "finish w = (flush_staging w)\<lparr>finished := True\<rparr>" using assms by (simp add: finish_def writer_ok_def)
  moreover have "staging (flush_staging w) = []" by (simp add: flush_staging_def)
  ultimately show "concat (pumped (finish w)) = contents w" "\<forall>p \<in> set (pumped (finish w)). p \<noteq> [] \<and> length p \<le> buffer_limit w"
    using writesD [OF writes_flush assms] by (simp_all add: contents_def writer_ok_def)
qed

lemma writer_batch_ok:
  assumes "writer_batch sz budget m = Inr n"
  shows "0 < width sz" "0 < height sz" "0 < len sz" "0 < n" "n \<le> 32"
  using assms by (auto simp: writer_batch_def Let_def split: if_splits)

lemma writer_ok_synced: "writer_synced rids s \<Longrightarrow> writer_ok (out s)"
  by (simp add: writer_synced_def)

lemma synced_init: "synced env [] [] origin origin (bdx_init d)"
  by (simp add: synced_def bdx_init_def origin_def caches_right_def pos_within_def)

definition written_rids :: "(runtime_id \<times> block_pos) list \<Rightarrow> runtime_id list" where
  "written_rids ps = fold add_rid (map fst ps) []"

text \<open>What is asked of a structure so that its blocks can come back.\<close>

definition restorable :: "bdx_env \<Rightarrow> (runtime_id \<times> block_pos) list \<Rightarrow> bool" where
  "restorable env ps \<longleftrightarrow> (\<forall>rid \<in> set (map fst ps). restores env rid) \<and>
    texts_fit (bdx_registry env) (written_rids ps) \<and> length ps \<le> kMaximumMaterializedBlocks"

lemma write_read:
  assumes src: "answers (source :: chunk_pos list \<Rightarrow> ('e, chunk_map) result) data" and sz: "size_in_range sz"
    and w: "write_bdx source (bdx_registry env) sz budget m = Inr pieces"
    and env: "\<not> bounds_only env" "materialize env" and rest: "restorable env (all_placements (air env) sz data)"
    and d: "input_bytes d = concat pieces"
  shows "\<exists>r. read_with (bdx_slow_loop env) (flat d) = Some (Inr r) \<and> bdx_author r = [] \<and> bdx_min r = origin \<and>
    bdx_blocks r = map (\<lambda>(rid, q). (q, rid)) (all_placements (air env) sz data) \<and> bdx_entities r = []"
proof -
  let ?ps = "all_placements (air env) sz data" and ?s0 = "write_start budget"
  obtain n s where n: "writer_batch sz budget m = (Inr n :: ('e writer_error, nat) result)"
    and s: "write_rows source (bdx_registry env) sz n ?s0 = Inr s"
    and pieces: "pieces = pumped (finish (append_byte 88 (out s)))"
    using w by (auto simp: write_bdx_def and_then_eq_Inr_iff)
  note pos = writer_batch_ok [OF n]
  have "0 < chunk_x_count sz" "0 < chunk_z_count sz"
    using pos sz by (simp_all add: size_in_range_def chunk_x_count_eq chunk_z_count_eq)
  then have fold: "fold_result (writer_place (bdx_registry env)) ?ps ?s0 =
      (Inr s :: ('e writer_error, writer_state) result)"
    using s write_rows_placements [OF src pos(4)] by simp
  have inside: "inside_size sz q" "rid \<noteq> air env" if "(rid, q) \<in> set ?ps" for rid q
    using that set_all_placements [OF sz pos(2)] by blast+
  have qs: "pos_ok q \<and> non_negative q \<and> restores env rid" if "(rid, q) \<in> set ?ps" for rid q
  proof -
    have "rid \<in> set (map fst ?ps)" using that by force
    then show ?thesis using inside(1) [OF that] sz rest unfolding restorable_def
      by (auto simp: inside_size_def pos_ok_def non_negative_def size_in_range_def in_s32_def range_simps)
  qed
  have room: "materialize env \<longrightarrow> length ([] :: (runtime_id \<times> block_pos) list) + length ?ps \<le> kMaximumMaterializedBlocks"
    and fit: "texts_fit (bdx_registry env) (fold add_rid (map fst ?ps) [])"
    using rest by (simp_all add: restorable_def written_rids_def)
  obtain bs where bs: "contents (out s) = contents (out ?s0) @ bs" "writer_synced (fold add_rid (map fst ?ps) []) s"
    and br: "\<And>st. synced env [] [] (at ?s0) origin st \<Longrightarrow> \<exists>st'. runs env bs st st' \<and>
      synced env (fold add_rid (map fst ?ps) []) ([] @ ?ps) (at s) (reach origin ?ps) st'"
    using writer_fold [OF env(1) fold writer_start(1) qs room fit, of origin] by blast
  have "writer_ok (append_byte 88 (out s))" "contents (append_byte 88 (out s)) = [66, 68, 88, 0, 0] @ bs @ [88]"
    using writesD [OF writes_byte writer_ok_synced [OF bs(2)]] bs(1) writer_start(2) by simp_all
  then have bytes: "concat pieces = [66, 68, 88, 0, 0] @ bs @ [88]" using finish_pieces(1) pieces by simp
  let ?f = "fault d" and ?st = "bdx_init d"
  have fl: "flat d = flat_input ([66, 68, 88, 0, 0] @ bs @ [88]) ?f" using d bytes by (simp add: flat_eq_flat_input)
  have meta: "read_metadata (flat d) = Inr ([], flat_input (bs @ [88]) ?f)" unfolding fl by simp
  obtain t where t: "runs env bs ?st t" "synced env (fold add_rid (map fst ?ps) []) ?ps (at s) (reach origin ?ps) t"
    using br [of ?st] synced_init writer_start(3) by auto
  have "bdx_init (flat_input (bs @ [88]) ?f) = at_bytes (bs @ [88]) ?f ?st" by (simp add: bdx_init_def)
  note loop = runs_loop [OF t(1), of ?f, folded this]
  have "\<forall>(rid, q) \<in> set ?ps. inside_size sz q" using inside(1) by blast
  from finish_synced [OF t(2) env(2) this sz pos(1-3), of "[]"] show ?thesis
    by (auto simp: read_with_def meta loop)
qed

section \<open>A sample structure\<close>

definition copy_registry :: registry where
  "copy_registry = empty_registry\<lparr>air_runtime_id := 1,
     by_runtime_id := [7 \<mapsto> \<lparr>state_name = ''stone'', states = [], state_version = 0\<rparr>],
     legacy_by_state := [''minecraft:stone'' \<mapsto> [(legacy_state_search_key [], 7)]]\<rparr>"

definition copy_env :: bdx_env where
  "copy_env = sample_env\<lparr>bdx_registry := copy_registry\<rparr>"

text \<open>Two blocks of stone at opposite corners of a box of 2 by 2 by 1.\<close>

definition copy_data :: "chunk_pos \<Rightarrow> chunk_data" where
  "copy_data c = \<lparr>sub_chunks = [-4 \<mapsto> \<lparr>layer0 = (\<lambda>i. if i = 0 \<or> i = 257 then 7 else 1), layer1 = (\<lambda>_. 1)\<rparr>],
     layout = Internal\<rparr>"

definition copy_source :: "chunk_pos list \<Rightarrow> (nat, chunk_map) result" where
  "copy_source ps = Inr (map (\<lambda>p. (p, copy_data p)) ps)"

definition copy_size :: wsize where "copy_size = \<lparr>width = 2, height = 2, len = 1\<rparr>"

definition copy_bytes :: "byte list" where
  "copy_bytes = [66, 68, 88, 0, 0, 1, 115, 116, 111, 110, 101, 0, 1, 91, 93, 0, 5, 0, 0, 0, 1,
     14, 16, 5, 0, 0, 0, 1, 88]"

definition copy_outcomes :: "brotli_outcome list" where
  "copy_outcomes = [\<lparr>status = BSuccess, produced = copy_bytes, input_ended = False, read_failed = False\<rparr>]"

lemma copy_placements: "all_placements 1 copy_size copy_data = [(7, BlockPos 0 0 0), (7, BlockPos 1 1 0)]"
  by code_simp

lemma copy_answers: "answers copy_source copy_data"
proof -
  have "p \<in> set ps \<Longrightarrow> map_of (map (\<lambda>p. (p, copy_data p)) ps) p = Some (copy_data p)" for p ps
    by (induction ps) auto
  then show ?thesis by (simp add: answers_def copy_source_def)
qed

lemma copy_state: "placed_state copy_registry 7 = \<lparr>state_name = ''stone'', states = [], state_version = 0\<rparr>"
  "state_string \<lparr>state_name = ''stone'', states = [], state_version = 0\<rparr> = ''[]''"
  by (simp_all add: placed_state_def registry_state_def copy_registry_def state_string_def)

lemma copy_env_simps [simp]: "bdx_registry copy_env = copy_registry" "air_runtime_id copy_registry = 1"
  "\<not> bounds_only copy_env" "materialize copy_env" "consistent copy_env"
  using sample_ok(1) by (simp_all add: copy_env_def copy_registry_def consistent_def)

lemma copy_restorable: "restorable copy_env (all_placements 1 copy_size copy_data)"
proof -
  have names: "name_of copy_registry 7 = ''stone''" "text_of copy_registry 7 = ''[]''"
    by (simp_all add: name_of_def text_of_def copy_state)
  have "parse_block_states ''[]'' = Inr []" "normalize_legacy_name ''stone'' = ''minecraft:stone''" by code_simp+
  then have "resolve_text copy_env ''stone'' ''[]'' = Inr 7"
    by (simp add: resolve_text_def legacy_state_runtime_id_def) (simp add: copy_registry_def)
  then show ?thesis
    unfolding copy_placements
    by (simp add: restorable_def restores_def names text_ok_def texts_fit_def written_rids_def add_rid_def
        kMaximumConstantStringBytes_def kMaximumConstantBytes_def kMaximumMaterializedBlocks_def)
qed

lemma append_bytes_room:
  "length (staging w) + length bs < buffer_limit w \<Longrightarrow> append_bytes bs w = w\<lparr>staging := staging w @ bs\<rparr>"
  by (subst append_bytes.simps, subst append_bytes.simps) (auto simp: Let_def make_room_def)

abbreviation staged :: "byte list \<Rightarrow> command_writer" where
  "staged bs \<equiv> \<lparr>buffer_limit = 125000, staging = bs, pumped = [], finished = False\<rparr>"

lemma append_staged:
  "length bs < 125000 \<Longrightarrow> append_byte v (staged bs) = staged (bs @ [v])"
  "length bs + length cs < 125000 \<Longrightarrow> append_bytes cs (staged bs) = staged (bs @ cs)"
  by (simp_all add: append_byte_def make_room_def append_bytes_room)

lemma copy_pieces: "write_bdx copy_source copy_registry copy_size 1000000 0 = Inr [copy_bytes]"
proof -
  have b: "writer_batch copy_size 1000000 0 = (Inr 5 :: (nat writer_error, nat) result)"
    by (simp add: writer_batch_def estimated_chunk_bytes_def subchunk_count_def range_simps copy_size_def)
  have p: "write_rows copy_source copy_registry copy_size 5 (write_start 1000000) =
      fold_result (writer_place copy_registry) [(7, BlockPos 0 0 0), (7, BlockPos 1 1 0)] (write_start 1000000)"
    using write_rows_placements [OF copy_answers, of 5 copy_size copy_registry "write_start 1000000"] copy_placements
    by (simp add: chunk_x_count_eq chunk_z_count_eq range_simps copy_size_def)
  note w = append_staged append_u16_def append_place_def append_cstring_def append_text_def byte_of_def
    append_constants_def copy_state
  have start: "write_start 1000000 = \<lparr>out = staged [66, 68, 88, 0, 0], palette = [], at = BlockPos 0 0 0\<rparr>"
    by (simp add: write_start_def new_writer_def w)
  have stay: "append_move q q v = v" for q v by (simp add: append_move_def append_move_axis_def)
  have first: "writer_place copy_registry (7, BlockPos 0 0 0) (write_start 1000000) =
     (Inr \<lparr>out = staged [66, 68, 88, 0, 0, 1, 115, 116, 111, 110, 101, 0, 1, 91, 93, 0, 5, 0, 0, 0, 1],
       palette = [(7, (0, 1))], at = BlockPos 0 0 0\<rparr> :: (nat writer_error, writer_state) result)"
    by (simp add: start writer_place_def Let_def stay w umap_emplace_def kMaximumPalette_def)
  have move: "append_move (BlockPos 0 0 0) (BlockPos 1 1 0) v = append_byte 16 (append_byte 14 v)" for v
    by (simp add: append_move_def append_move_axis_def far_up.simps [of _ 1] far_down.simps [of _ 1] near_move_def
        x_commands_def y_commands_def range_simps)
  show ?thesis
    unfolding write_bdx_def b and_then.simps p fold_result.simps first
    by (simp add: writer_place_def Let_def move w finish_def flush_staging_def copy_bytes_def)
qed

section \<open>Properties\<close>

text \<open>
  C2: a structure written as BDX and read back has the same blocks. When \<open>write_bdx\<close> succeeds
  and Brotli gives the written bytes back, the reader succeeds with an empty author, the
  origin as its minimum and no entities, and its list of blocks holds each position of the
  structure with a block other than air exactly once, with that block. The hypotheses are
  that the structure answers its requests, that the registry finds each runtime id by the
  name and the state text written for it, and that the texts and the number of blocks stay
  within the reader's limits.
\<close>

theorem bdx_write_read:
  assumes "answers source data" and "size_in_range sz"
    and "write_bdx source (bdx_registry env) sz budget m = Inr pieces"
    and "consistent env" "\<not> bounds_only env" "materialize env"
    and "restorable env (all_placements (air env) sz data)"
    and "outcomes_ok outcomes" "input_bytes (decoded_input (decoded_limit (n - 3)) outcomes) = concat pieces"
  shows "\<exists>r. bdx_read env [66, 68, 64] n outcomes = Some (Inr r) \<and>
    bdx_author r = [] \<and> bdx_min r = BlockPos 0 0 0 \<and> bdx_entities r = [] \<and> distinct (map fst (bdx_blocks r)) \<and>
    set (bdx_blocks r) = {(p, rid). inside_size sz p \<and> rid \<noteq> air env \<and> source_block (air env) data p = rid}"
proof -
  let ?d = "decoded_input (decoded_limit (n - 3)) outcomes" and ?ps = "all_placements (air env) sz data"
  obtain r where r: "read_with (bdx_slow_loop env) (flat ?d) = Some (Inr r)" "bdx_author r = []" "bdx_min r = origin"
    "bdx_blocks r = map (\<lambda>(rid, q). (q, rid)) ?ps" "bdx_entities r = []"
    using write_read [OF assms(1-3,5-7,9)] by blast
  have "bdx_reference env [66, 68, 64] n outcomes = Some (Inr r)" using r(1) by (simp add: bdx_reference_def)
  then have "bdx_read env [66, 68, 64] n outcomes = Some (Inr r)" using read_reference_ok [OF assms(4,8)] by blast
  moreover have "map fst (bdx_blocks r) = map snd ?ps" by (simp add: r(4) case_prod_unfold comp_def)
  then have "distinct (map fst (bdx_blocks r))" using distinct_all by simp
  moreover have "0 < height sz" using assms(3) writer_batch_ok(2) by (fastforce simp: write_bdx_def and_then_eq_Inr_iff)
  then have "set (bdx_blocks r) = {(p, rid). inside_size sz p \<and> rid \<noteq> air env \<and> source_block (air env) data p = rid}"
    using set_all_placements [OF assms(2), of _ _ "air env" data] unfolding r(4) by (auto simp: image_iff)
  ultimately show ?thesis using r(2,3,5) unfolding origin_def by blast
qed

lemma bdx_write_read_witness:
  "\<exists>r. bdx_read copy_env [66, 68, 64] 30 copy_outcomes = Some (Inr r) \<and>
    set (bdx_blocks r) = {(p, rid). inside_size copy_size p \<and> rid \<noteq> 1 \<and> source_block 1 copy_data p = rid}"
proof -
  have "outcomes_ok copy_outcomes" by (simp add: outcomes_ok_def copy_outcomes_def copy_bytes_def kBrotliBufferSize_def)
  moreover have "input_bytes (decoded_input (decoded_limit (30 - 3)) copy_outcomes) = concat [copy_bytes]"
    using decoded_limit_bounds(1) [of 27]
    by (simp add: decoded_input_def copy_outcomes_def input_bytes_def copy_bytes_def kMinimumDecodedLimit_def)
  moreover have "size_in_range copy_size" by (simp add: size_in_range_def copy_size_def in_s32_def range_simps)
  ultimately have "\<exists>r. bdx_read copy_env [66, 68, 64] 30 copy_outcomes = Some (Inr r) \<and>
    bdx_author r = [] \<and> bdx_min r = BlockPos 0 0 0 \<and> bdx_entities r = [] \<and> distinct (map fst (bdx_blocks r)) \<and>
    set (bdx_blocks r) = {(p, rid). inside_size copy_size p \<and> rid \<noteq> air copy_env \<and> source_block (air copy_env) copy_data p = rid}"
    using bdx_write_read [OF copy_answers _ _ _ _ _ _, of copy_size copy_env 1000000 0 "[copy_bytes]" copy_outcomes 30]
      copy_pieces copy_restorable by simp
  then show ?thesis by auto
qed

text \<open>
  C28: the moves of the writer take the reader's cursor from any position to any other, even
  where the distance needs more than 32 bits: the commands run without an error and the
  bounds grow by the target only.
\<close>

theorem bdx_moves_arrive:
  assumes "pos_ok p" "pos_ok q"
  shows "\<exists>bs. (\<forall>w. writer_ok w \<longrightarrow> contents (append_move p q w) = contents w @ bs) \<and>
    (\<forall>st rest f. cursor st = p \<and> pos_within (low st) (high st) p \<longrightarrow>
      (\<exists>k. slow_run env (at_bytes (bs @ rest) f st) (at_bytes rest f (moved_to q k st))))"
  using append_move_runs [OF assms, of env] by (auto simp: writes_def runs_def) (metis)

lemma bdx_moves_arrive_witness:
  "\<exists>bs. contents (append_move (BlockPos INT32_MIN 0 0) (BlockPos INT32_MAX (-1) 200) (new_writer 0)) = bs \<and>
    (\<exists>k. slow_run sample_env
      (at_bytes bs None ((bdx_init (flat_input [] None))\<lparr>cursor := BlockPos INT32_MIN 0 0, low := BlockPos INT32_MIN 0 0\<rparr>))
      (at_bytes [] None (moved_to (BlockPos INT32_MAX (-1) 200) k
        ((bdx_init (flat_input [] None))\<lparr>cursor := BlockPos INT32_MIN 0 0, low := BlockPos INT32_MIN 0 0\<rparr>))))"
proof -
  let ?p = "BlockPos INT32_MIN 0 0" and ?q = "BlockPos INT32_MAX (-1) 200"
  let ?st = "(bdx_init (flat_input [] None))\<lparr>cursor := ?p, low := ?p\<rparr>"
  have ok: "pos_ok ?p" "pos_ok ?q" by (simp_all add: pos_ok_def in_s32_def range_simps)
  obtain bs where bs: "\<And>w. writer_ok w \<Longrightarrow> contents (append_move ?p ?q w) = contents w @ bs"
    and run: "\<And>st rest f. cursor st = ?p \<and> pos_within (low st) (high st) ?p \<Longrightarrow>
      \<exists>k. slow_run sample_env (at_bytes (bs @ rest) f st) (at_bytes rest f (moved_to ?q k st))"
    using bdx_moves_arrive [OF ok, of sample_env] by blast
  have "writer_ok (new_writer 0)" "contents (new_writer 0) = []"
    by (simp_all add: new_writer_def writer_ok_def contents_def)
  with bs have "contents (append_move ?p ?q (new_writer 0)) = bs" by simp
  moreover have "cursor ?st = ?p \<and> pos_within (low ?st) (high ?st) ?p"
    by (simp add: pos_within_def bdx_init_def range_simps)
  ultimately show ?thesis using run [of ?st "[]" None] by simp
qed

text \<open>
  The staging buffer loses, reorders and repeats nothing: after any sequence of bytes and
  byte strings the encoder has been handed exactly those bytes, in pieces that are never empty
  and never longer than the limit.
\<close>

theorem staging_faithful:
  "concat (pumped (finish (fold append_bytes bss (new_writer n)))) = concat bss \<and>
   (\<forall>p \<in> set (pumped (finish (fold append_bytes bss (new_writer n)))). p \<noteq> [] \<and> length p \<le> max n 4096)"
proof -
  have "writer_ok (fold append_bytes bss w) \<and> contents (fold append_bytes bss w) = contents w @ concat bss \<and>
      buffer_limit (fold append_bytes bss w) = buffer_limit w" if "writer_ok w" for w
    using that by (induction bss arbitrary: w) (simp_all add: writesD [OF writes_bytes])
  moreover have "writer_ok (new_writer n)" "contents (new_writer n) = []" "buffer_limit (new_writer n) = max n 4096"
    by (simp_all add: new_writer_def writer_ok_def contents_def)
  ultimately show ?thesis using finish_pieces [of "fold append_bytes bss (new_writer n)"] by simp
qed

lemma staging_faithful_witness:
  "concat (pumped (finish (fold append_bytes [replicate 5000 1, [2]] (new_writer 0)))) = replicate 5000 1 @ [2]"
  using staging_faithful [of "[replicate 5000 1, [2]]" 0] by simp

end
