(* ===== verification/WS_BdxSpool.thy ===== *)
theory WS_BdxSpool
  imports WS_BdxInside WS_Sparse WS_ChunkIndex
begin

unbundle bit_operations_syntax

text \<open>
  Random access to the chunks of a BDX file (\<open>BdxStructure\<close> in \<open>src/formats/bdx.cpp\<close>). A
  compressed command stream cannot be entered in the middle, so the first request replays it
  once into a spool: 1024 files of fixed-size placement records, one file for every class of
  chunk columns, with at most 16 of them open; later requests replay only the files of the
  requested columns. The state is the object with its spool; the temporary directory is an
  environment that says which file operation fails. The fallback without a spool and the path
  over a block list are here, too. The lemmas give the record codec, the contents of the
  spool, and what a request answers.
\<close>

section \<open>Placement records\<close>

definition kPlacementShardCount :: nat where "kPlacementShardCount = 1024"
definition kPlacementOpenShardLimit :: nat where "kPlacementOpenShardLimit = 16"
definition kPlacementRecordBytes :: nat where "kPlacementRecordBytes = 16"

definition write_u32_le :: "byte list \<Rightarrow> nat \<Rightarrow> 32 word \<Rightarrow> byte list" where
  "write_u32_le out off v =
    out[off := ucast v, off + 1 := ucast (drop_bit 8 v), off + 2 := ucast (drop_bit 16 v),
        off + 3 := ucast (drop_bit 24 v)]"

definition record_u32_le :: "byte list \<Rightarrow> nat \<Rightarrow> 32 word" where
  "record_u32_le bs off =
    ucast (bs ! off) OR push_bit 8 (ucast (bs ! (off + 1))) OR
    push_bit 16 (ucast (bs ! (off + 2))) OR push_bit 24 (ucast (bs ! (off + 3)))"

definition record_i32_le :: "byte list \<Rightarrow> nat \<Rightarrow> int" where
  "record_i32_le bs off =
    (let v = record_u32_le bs off
     in if uint v \<le> INT32_MAX then uint v else INT32_MIN + uint (v - 0x80000000))"

definition encode_placement_record :: "block_pos \<Rightarrow> runtime_id \<Rightarrow> byte list" where
  "encode_placement_record p r =
    write_u32_le (write_u32_le (write_u32_le (write_u32_le (replicate kPlacementRecordBytes 0)
      0 (word_of_int (pos_x p))) 4 (word_of_int (pos_y p))) 8 (word_of_int (pos_z p))) 12 (word_of_nat r)"

text \<open>What the replay reads back from a record.\<close>

definition record_position :: "byte list \<Rightarrow> block_pos" where
  "record_position bs = BlockPos (record_i32_le bs 0) (record_i32_le bs 4) (record_i32_le bs 8)"

definition record_runtime :: "byte list \<Rightarrow> runtime_id" where
  "record_runtime bs = unat (record_u32_le bs 12)"

section \<open>Coordinates and shards\<close>

definition normalize_placement_coordinate :: "int \<Rightarrow> int \<Rightarrow> int \<Rightarrow> int \<Rightarrow> int option" where
  "normalize_placement_coordinate raw minimum off dim =
    (let src = raw - minimum
     in if dim \<le> 0 \<or> src < 0 \<or> dim \<le> src then None
        else let target = src + off
             in if target < INT32_MIN \<or> INT32_MAX < target then None else Some target)"

definition placement_coordinate_in_extent :: "int \<Rightarrow> int \<Rightarrow> int \<Rightarrow> bool" where
  "placement_coordinate_in_extent v off dim \<longleftrightarrow> \<not> dim \<le> 0 \<and> off \<le> v \<and> v \<le> off + dim - 1"

definition placement_shard :: "chunk_pos \<Rightarrow> nat" where
  "placement_shard p =
    (let v0 = push_bit 32 (ucast (word_of_int (chunk_x p) :: 32 word)) XOR
           ucast (word_of_int (chunk_z p) :: 32 word) :: 64 word;
         v1 = v0 XOR drop_bit 30 v0;
         v2 = v1 * 0xbf58476d1ce4e5b9;
         v3 = v2 XOR drop_bit 27 v2;
         v4 = v3 * 0x94d049bb133111eb;
         v5 = v4 XOR drop_bit 31 v4
     in unat (v5 mod 1024))"

section \<open>The temporary directory\<close>

datatype claim = Claimed | AlreadyExists | ClaimFailed

datatype spool_error = SourcePathEmpty | SpoolDisabled | NoTemporaryDirectory | DirectoryNotCreated
  | NoUniqueDirectory | SpoolTooLarge | SpoolOverLimit | ShardNotOpened | ShardNotFlushed | ShardNotWritten
  | RunOutOfRange | ShardSizeUnknown | ShardSizeMismatch | ParseFailed bdx_error

text \<open>
  The file system as the builder sees it: whether there is a temporary directory, what each
  attempt to claim a name gives, which operation on a stream or file (counted from 0) fails,
  and which shards can be opened for reading later.
\<close>

record spool_disk =
  root_found :: bool
  root_created :: bool
  claim_result :: "nat \<Rightarrow> claim"
  fault :: "nat \<Rightarrow> bool"
  readable :: "nat \<Rightarrow> bool"

fun claim_directory :: "(nat \<Rightarrow> claim) \<Rightarrow> nat list \<Rightarrow> (spool_error, nat) result" where
  "claim_directory f [] = Inl NoUniqueDirectory"
| "claim_directory f (attempt # rest) =
     (case f attempt of
        Claimed \<Rightarrow> Inr attempt
      | ClaimFailed \<Rightarrow> Inl DirectoryNotCreated
      | AlreadyExists \<Rightarrow> claim_directory f rest)"

definition make_bdx_spool_directory :: "spool_disk \<Rightarrow> (spool_error, nat) result" where
  "make_bdx_spool_directory disk =
    (if \<not> root_found disk then Inl NoTemporaryDirectory
     else if \<not> root_created disk then Inl DirectoryNotCreated
     else claim_directory (claim_result disk) [0..<128])"

section \<open>The object\<close>

type_synonym bdx_file = "byte list \<times> nat \<times> brotli_outcome list"

record bdx_structure =
  struct_env :: bdx_env
  struct_source :: "bdx_file option"
  struct_size :: wsize
  struct_original_size :: wsize
  struct_offset :: block_pos
  struct_min :: block_pos
  struct_blocks :: "(block_pos \<times> runtime_id) list"
  struct_index :: chunk_index
  struct_entities :: "(block_pos, nbt_payload) umap"
  blocks_loaded :: bool
  allow_spool :: bool
  spool_limit :: nat
  spool_ready :: bool
  spool_shards :: "nat \<Rightarrow> byte list option"
  spool_size :: nat
  spool_error :: "spool_error option"

definition air_of :: "bdx_structure \<Rightarrow> runtime_id" where
  "air_of S = air (struct_env S)"

definition invalidate_placement_spool :: "bdx_structure \<Rightarrow> bdx_structure" where
  "invalidate_placement_spool S =
    S\<lparr>spool_ready := False, spool_shards := (\<lambda>_. None), spool_size := 0, spool_error := None\<rparr>"

definition cleanup_placement_spool :: "bdx_structure \<Rightarrow> bdx_structure" where
  "cleanup_placement_spool S =
    S\<lparr>spool_ready := False, spool_shards := (\<lambda>_. None), spool_size := 0, spool_error := None\<rparr>"

definition structure_set_offset :: "block_pos \<Rightarrow> bdx_structure \<Rightarrow> bdx_structure" where
  "structure_set_offset off S =
    (let S1 = invalidate_placement_spool S
     in S1\<lparr>struct_offset := off, struct_index := index_clear (struct_index S1),
           struct_size := bdx_set_offset off (struct_original_size S1)\<rparr>)"

definition set_streaming_options :: "bool \<Rightarrow> nat \<Rightarrow> bdx_structure \<Rightarrow> bdx_structure" where
  "set_streaming_options allow limit S =
    (invalidate_placement_spool S)\<lparr>allow_spool := allow, spool_limit := limit\<rparr>"

definition temporary_spool_bytes :: "bdx_structure \<Rightarrow> nat" where
  "temporary_spool_bytes S = spool_size S"

definition new_structure :: "bdx_env \<Rightarrow> bdx_structure" where
  "new_structure env =
    \<lparr>struct_env = env, struct_source = None, struct_size = zero_size, struct_original_size = zero_size,
     struct_offset = BlockPos 0 0 0, struct_min = BlockPos 0 0 0, struct_blocks = [],
     struct_index = \<lparr>ready = False, buckets = []\<rparr>, struct_entities = [], blocks_loaded = False,
     allow_spool = True, spool_limit = 0, spool_ready = False, spool_shards = (\<lambda>_. None), spool_size = 0,
     spool_error = None\<rparr>"

text \<open>The members a successful \<open>read\<close> leaves, after its last lines.\<close>

definition loaded_structure :: "bdx_file \<Rightarrow> bdx_result \<Rightarrow> bdx_structure \<Rightarrow> bdx_structure" where
  "loaded_structure file r S =
    structure_set_offset (BlockPos 0 0 0)
      ((invalidate_placement_spool S)\<lparr>struct_source := Some file, struct_blocks := bdx_blocks r,
         struct_entities := bdx_entities r, struct_min := bdx_min r,
         struct_original_size := bdx_original_size r, blocks_loaded := materialize (struct_env S)\<rparr>)"

definition open_structure :: "bdx_env \<Rightarrow> bdx_file \<Rightarrow> (bdx_error, bdx_structure) result option" where
  "open_structure env file =
    (case file of (h, n, outcomes) \<Rightarrow>
      map_option (\<lambda>r. and_then r (\<lambda>res. Inr (loaded_structure file res (new_structure env))))
        (bdx_read env h n outcomes))"

section \<open>Replaying the command stream\<close>

text \<open>
  The reader the requests create for the same file: it neither keeps blocks nor entities and
  reports every placement, air included, to its two placement consumers.
\<close>

definition streamed_env :: "bdx_env \<Rightarrow> bdx_env" where
  "streamed_env env =
    env\<lparr>bounds_only := False, materialize := False, capture_entities := False,
       block_consumer := False, run_consumer := False,
       placement_consumer := True, placement_run_consumer := True\<rparr>"

text \<open>The calls the consumers receive from a read that succeeds.\<close>

definition observed_with ::
  "(bdx_state \<Rightarrow> (bdx_error, bdx_state) result option) \<Rightarrow> decoded \<Rightarrow>
   (bdx_error, consumer_call list) result option" where
  "observed_with loop d =
    (case read_metadata d of
       Inl e \<Rightarrow> Some (Inl e)
     | Inr (author, d') \<Rightarrow>
         map_option (\<lambda>r. and_then r (\<lambda>st. and_then (finish_read author st) (\<lambda>_. Inr (placement_calls st))))
           (loop (bdx_init d')))"

definition placement_log :: "bdx_env \<Rightarrow> bdx_file \<Rightarrow> (bdx_error, consumer_call list) result option" where
  "placement_log env file =
    (case file of (h, n, outcomes) \<Rightarrow>
      if h \<noteq> [66, 68, 64] then Some (Inl BadFileHeader)
      else observed_with (bdx_loop (streamed_env env)) (decoded_input (decoded_limit (n - 3)) outcomes))"

text \<open>The structure coordinates of a raw placement, if it lies inside.\<close>

definition local_position :: "bdx_structure \<Rightarrow> block_pos \<Rightarrow> block_pos option" where
  "local_position S raw =
    (case (normalize_placement_coordinate (pos_x raw) (pos_x (struct_min S)) (pos_x (struct_offset S))
             (width (struct_original_size S)),
           normalize_placement_coordinate (pos_y raw) (pos_y (struct_min S)) (pos_y (struct_offset S))
             (height (struct_original_size S)),
           normalize_placement_coordinate (pos_z raw) (pos_z (struct_min S)) (pos_z (struct_offset S))
             (len (struct_original_size S))) of
       (Some x, Some y, Some z) \<Rightarrow> Some (BlockPos x y z)
     | _ \<Rightarrow> None)"

text \<open>
  A run consumer hands its placements on one by one (\<open>append_run\<close> and \<open>apply_run\<close>).
\<close>

fun deliver_run ::
  "(block_pos \<Rightarrow> runtime_id \<Rightarrow> 's \<Rightarrow> (spool_error, 's) result) \<Rightarrow> block_pos \<Rightarrow> nat \<Rightarrow> runtime_id list \<Rightarrow>
   's \<Rightarrow> (spool_error, 's) result" where
  "deliver_run consume1 start i [] s = Inr s"
| "deliver_run consume1 start i (r # rs) s =
     (let z64 = pos_z start + int i
      in if z64 < INT32_MIN \<or> INT32_MAX < z64 then Inl RunOutOfRange
         else and_then (consume1 (BlockPos (pos_x start) (pos_y start) z64) r s)
           (deliver_run consume1 start (i + 1) rs))"

definition deliver ::
  "(block_pos \<Rightarrow> runtime_id \<Rightarrow> 's \<Rightarrow> (spool_error, 's) result) \<Rightarrow> consumer_call \<Rightarrow> 's \<Rightarrow>
   (spool_error, 's) result" where
  "deliver consume1 c s =
    (case c of SingleCall p r \<Rightarrow> consume1 p r s | RunCall p rs _ \<Rightarrow> deliver_run consume1 p 0 rs s)"


section \<open>Building the spool\<close>

text \<open>
  The locals of the builder: the named shards, their open streams, the list of open shards with
  the latest used first (\<open>in_lru\<close> is membership), the bytes of each file, the count of bytes, and
  the number of stream operations so far.
\<close>

record spool_build =
  shard_named :: "nat \<Rightarrow> bool"
  shard_open :: "nat \<Rightarrow> bool"
  lru :: "nat list"
  shard_bytes :: "nat \<Rightarrow> byte list"
  spooled :: nat
  stream_ops :: nat

definition empty_build :: spool_build where
  "empty_build = \<lparr>shard_named = (\<lambda>_. False), shard_open = (\<lambda>_. False), lru = [],
     shard_bytes = (\<lambda>_. []), spooled = 0, stream_ops = 0\<rparr>"

definition close_shard :: "spool_disk \<Rightarrow> nat \<Rightarrow> spool_build \<Rightarrow> (spool_error, spool_build) result" where
  "close_shard disk s b =
    (if shard_open b s
     then if fault disk (stream_ops b) then Inl ShardNotFlushed
          else Inr (b\<lparr>shard_open := (shard_open b)(s := False), stream_ops := stream_ops b + 1\<rparr>)
     else Inr b)"

lemma close_shard_lru: "close_shard disk s b = Inr b' \<Longrightarrow> lru b' = lru b"
  by (auto simp: close_shard_def split: if_splits)

function evict :: "spool_disk \<Rightarrow> spool_build \<Rightarrow> (spool_error, spool_build) result" where
  "evict disk b =
    (if kPlacementOpenShardLimit < length (lru b)
     then (case close_shard disk (last (lru b)) (b\<lparr>lru := butlast (lru b)\<rparr>) of
             Inl e \<Rightarrow> Inl e
           | Inr b' \<Rightarrow> evict disk b')
     else Inr b)"
  by pat_completeness auto
termination
  by (relation "measure (\<lambda>(disk, b). length (lru b))") (auto dest: close_shard_lru)

definition touch :: "spool_disk \<Rightarrow> nat \<Rightarrow> spool_build \<Rightarrow> (spool_error, spool_build) result" where
  "touch disk s b =
    (if s \<in> set (lru b) then Inr (b\<lparr>lru := s # remove1 s (lru b)\<rparr>)
     else evict disk (b\<lparr>lru := s # lru b\<rparr>))"

definition open_shard :: "spool_disk \<Rightarrow> nat \<Rightarrow> spool_build \<Rightarrow> (spool_error, spool_build) result" where
  "open_shard disk s b =
    (if shard_open b s then Inr b
     else if fault disk (stream_ops b) then Inl ShardNotOpened
     else Inr (b\<lparr>shard_named := (shard_named b)(s := True), shard_open := (shard_open b)(s := True),
                stream_ops := stream_ops b + 1\<rparr>))"

definition write_shard :: "spool_disk \<Rightarrow> nat \<Rightarrow> byte list \<Rightarrow> spool_build \<Rightarrow> (spool_error, spool_build) result" where
  "write_shard disk s bs b =
    (if fault disk (stream_ops b) then Inl ShardNotWritten
     else Inr (b\<lparr>shard_bytes := (shard_bytes b)(s := shard_bytes b s @ bs),
                spooled := spooled b + length bs, stream_ops := stream_ops b + 1\<rparr>))"

definition shard_of :: "block_pos \<Rightarrow> nat" where
  "shard_of p = placement_shard (ChunkPos (floor_div (pos_x p) 16) (floor_div (pos_z p) 16))"

definition append_placement ::
  "spool_disk \<Rightarrow> bdx_structure \<Rightarrow> block_pos \<Rightarrow> runtime_id \<Rightarrow> spool_build \<Rightarrow> (spool_error, spool_build) result" where
  "append_placement disk S raw r b =
    (case local_position S raw of
       None \<Rightarrow> Inr b
     | Some p \<Rightarrow>
         if 18446744073709551615 - kPlacementRecordBytes < spooled b then Inl SpoolTooLarge
         else if spool_limit S \<noteq> 0 \<and> (spool_limit S < kPlacementRecordBytes \<or>
           spool_limit S - kPlacementRecordBytes < spooled b) then Inl SpoolOverLimit
         else
           and_then (open_shard disk (shard_of p) b) (\<lambda>b1.
           and_then (touch disk (shard_of p) b1)
             (write_shard disk (shard_of p) (encode_placement_record p r))))"

fun close_shards :: "spool_disk \<Rightarrow> nat list \<Rightarrow> spool_build \<Rightarrow> (spool_error, spool_build) result" where
  "close_shards disk [] b = Inr b"
| "close_shards disk (s # ss) b = and_then (close_shard disk s b) (close_shards disk ss)"

fun measure_shards :: "spool_disk \<Rightarrow> nat list \<Rightarrow> nat \<Rightarrow> spool_build \<Rightarrow> (spool_error, nat) result" where
  "measure_shards disk [] persisted0 b = Inr persisted0"
| "measure_shards disk (s # ss) persisted0 b =
     (if \<not> shard_named b s then measure_shards disk ss persisted0 b
      else if fault disk (stream_ops b) \<or> 18446744073709551615 - persisted0 < length (shard_bytes b s)
      then Inl ShardSizeUnknown
      else measure_shards disk ss (persisted0 + length (shard_bytes b s)) (b\<lparr>stream_ops := stream_ops b + 1\<rparr>))"

text \<open>The checks after the replay: the sizes on disk must add up to the bytes written.\<close>

definition finish_spool ::
  "spool_disk \<Rightarrow> bdx_structure \<Rightarrow> spool_build \<Rightarrow> (spool_error, (nat \<Rightarrow> byte list option) \<times> nat) result" where
  "finish_spool disk S b =
    and_then (close_shards disk [0..<kPlacementShardCount] b) (\<lambda>b1.
    and_then (measure_shards disk [0..<kPlacementShardCount] 0 b1) (\<lambda>persisted.
      if persisted \<noteq> spooled b1 then Inl ShardSizeMismatch
      else if spool_limit S \<noteq> 0 \<and> spool_limit S < persisted then Inl SpoolOverLimit
      else Inr (\<lambda>s. if shard_named b1 s then Some (shard_bytes b1 s) else None, spooled b1)))"

definition spool_calls ::
  "spool_disk \<Rightarrow> bdx_structure \<Rightarrow> consumer_call list \<Rightarrow>
   (spool_error, (nat \<Rightarrow> byte list option) \<times> nat) result" where
  "spool_calls disk S calls =
    and_then (fold_result (deliver (append_placement disk S)) calls empty_build) (finish_spool disk S)"

text \<open>
  The whole build. A consumer that throws ends the read with its error; the model replays the
  calls of the finished read, so where both the file and the spool are at fault it gives the
  error of the file.
\<close>

definition build_spool ::
  "spool_disk \<Rightarrow> bdx_structure \<Rightarrow> (spool_error, (nat \<Rightarrow> byte list option) \<times> nat) result option" where
  "build_spool disk S =
    (case struct_source S of
       None \<Rightarrow> Some (Inl SourcePathEmpty)
     | Some file \<Rightarrow>
         (case make_bdx_spool_directory disk of
            Inl e \<Rightarrow> Some (Inl e)
          | Inr _ \<Rightarrow>
              (case placement_log (struct_env S) file of
                 None \<Rightarrow> None
               | Some (Inl e) \<Rightarrow> Some (Inl (ParseFailed e))
               | Some (Inr calls) \<Rightarrow> Some (spool_calls disk S calls))))"

text \<open>\<open>ensure_placement_spool\<close> as a single thread runs it.\<close>

definition ensure_placement_spool ::
  "spool_disk \<Rightarrow> bdx_structure \<Rightarrow> ((spool_error, unit) result \<times> bdx_structure) option" where
  "ensure_placement_spool disk S =
    (if \<not> allow_spool S then Some (Inl SpoolDisabled, S)
     else if spool_ready S then Some (Inr (), S)
     else case build_spool disk S of
            None \<Rightarrow> None
          | Some (Inl e) \<Rightarrow>
              Some (Inl e, (invalidate_placement_spool S)\<lparr>spool_error := Some e\<rparr>)
          | Some (Inr (shards, bytes)) \<Rightarrow>
              Some (Inr (), S\<lparr>spool_shards := shards, spool_size := bytes, spool_error := None,
                             spool_ready := True\<rparr>))"


section \<open>Answering a request\<close>

datatype chunk_error = SourceUnknown | SpoolFailed spool_error | ShardNotReadable nat | ShardTruncated nat
  | ShardOutOfExtent nat | StreamedParse bdx_error | StreamedRun | IndexTooLarge

text \<open>One placement at structure coordinates, into the requested chunks.\<close>

definition apply_placement :: "runtime_id \<Rightarrow> block_pos \<Rightarrow> runtime_id \<Rightarrow> chunk_map \<Rightarrow> chunk_map" where
  "apply_placement air_id p r m =
    (let cp = ChunkPos (floor_div (pos_x p) 16) (floor_div (pos_z p) 16)
     in case map_of m cp of
          None \<Rightarrow> m
        | Some ch \<Rightarrow>
            let sy = s32 (floor_div64 (pos_y p - 64) 16);
                local_y = s32 (pos_y p - (sy * 16 + 64))
            in umap_put cp
                 (put_cell air_id True sy (layer_index (floor_mod (pos_x p) 16) local_y (floor_mod (pos_z p) 16)) r ch)
                 m)"

definition only_air :: "runtime_id \<Rightarrow> sub_chunk_data \<Rightarrow> bool" where
  "only_air air_id sub \<longleftrightarrow> list_all (\<lambda>i. layer0 sub i = air_id) [0..<4096]"

definition drop_air_sub_chunks :: "runtime_id \<Rightarrow> chunk_data \<Rightarrow> chunk_data" where
  "drop_air_sub_chunks air_id ch =
    ch\<lparr>sub_chunks := (\<lambda>sy. case sub_chunks ch sy of
         None \<Rightarrow> None | Some sub \<Rightarrow> if only_air air_id sub then None else Some sub)\<rparr>"

definition drop_air :: "runtime_id \<Rightarrow> chunk_map \<Rightarrow> chunk_map" where
  "drop_air air_id m = map (\<lambda>(cp, ch). (cp, drop_air_sub_chunks air_id ch)) m"

definition position_in_extent :: "bdx_structure \<Rightarrow> block_pos \<Rightarrow> bool" where
  "position_in_extent S p \<longleftrightarrow>
    placement_coordinate_in_extent (pos_x p) (pos_x (struct_offset S)) (width (struct_original_size S)) \<and>
    placement_coordinate_in_extent (pos_y p) (pos_y (struct_offset S)) (height (struct_original_size S)) \<and>
    placement_coordinate_in_extent (pos_z p) (pos_z (struct_offset S)) (len (struct_original_size S))"

function replay_shard :: "bdx_structure \<Rightarrow> nat \<Rightarrow> byte list \<Rightarrow> chunk_map \<Rightarrow> (chunk_error, chunk_map) result" where
  "replay_shard S s bs m =
    (if bs = [] then Inr m
     else if length bs < kPlacementRecordBytes then Inl (ShardTruncated s)
     else if \<not> position_in_extent S (record_position (take kPlacementRecordBytes bs)) then Inl (ShardOutOfExtent s)
     else replay_shard S s (drop kPlacementRecordBytes bs)
            (apply_placement (air_of S) (record_position (take kPlacementRecordBytes bs))
              (record_runtime (take kPlacementRecordBytes bs)) m))"
  by pat_completeness auto
termination
  by (relation "measure (\<lambda>(S, s, bs, m). length bs)") (auto simp: kPlacementRecordBytes_def)

fun replay_shards ::
  "spool_disk \<Rightarrow> bdx_structure \<Rightarrow> chunk_pos list \<Rightarrow> nat list \<Rightarrow> chunk_map \<Rightarrow> (chunk_error, chunk_map) result" where
  "replay_shards disk S wanted [] m = Inr m"
| "replay_shards disk S wanted (s # ss) m =
     (if s \<notin> set (map placement_shard wanted) then replay_shards disk S wanted ss m
      else case spool_shards S s of
             None \<Rightarrow> replay_shards disk S wanted ss m
           | Some bs \<Rightarrow>
               if \<not> readable disk s then Inl (ShardNotReadable s)
               else and_then (replay_shard S s bs m) (replay_shards disk S wanted ss))"

definition spooled_chunks ::
  "spool_disk \<Rightarrow> bdx_structure \<Rightarrow> chunk_pos list \<Rightarrow> (chunk_error, chunk_map) result" where
  "spooled_chunks disk S wanted =
    and_then (replay_shards disk S wanted [0..<kPlacementShardCount] (emplace_all empty_chunk wanted))
      (\<lambda>m. Inr (drop_air (air_of S) m))"

text \<open>Without a spool: the command stream is replayed into the requested chunks.\<close>

definition stream_placement ::
  "bdx_structure \<Rightarrow> block_pos \<Rightarrow> runtime_id \<Rightarrow> chunk_map \<Rightarrow> (spool_error, chunk_map) result" where
  "stream_placement S raw r m =
    (case local_position S raw of
       None \<Rightarrow> Inr m
     | Some p \<Rightarrow> Inr (apply_placement (air_of S) p r m))"

definition streamed_chunks ::
  "bdx_structure \<Rightarrow> consumer_call list \<Rightarrow> chunk_pos list \<Rightarrow> (chunk_error, chunk_map) result" where
  "streamed_chunks S calls wanted =
    (case fold_result (deliver (stream_placement S)) calls (emplace_all empty_chunk wanted) of
       Inl _ \<Rightarrow> Inl StreamedRun
     | Inr m \<Rightarrow> Inr (drop_air (air_of S) m))"

text \<open>With the blocks in memory: the blocks the chunk index lists for the chunk, in order.\<close>

definition indexed_block ::
  "bdx_structure \<Rightarrow> chunk_pos \<Rightarrow> nat \<Rightarrow> chunk_data \<Rightarrow> chunk_data" where
  "indexed_block S cp i ch =
    (let p = shifted (struct_offset S) (fst (struct_blocks S ! i));
         sy = floor_div (s32 (pos_y p - 64)) 16;
         lx = s32 (pos_x p - s32 (chunk_x cp * 16));
         ly = s32 (pos_y p - s32 (s32 (sy * 16) + 64));
         lz = s32 (pos_z p - s32 (chunk_z cp * 16))
     in put_cell (air_of S) True sy (layer_index lx ly lz) (snd (struct_blocks S ! i)) ch)"

definition indexed_chunks :: "bdx_structure \<Rightarrow> chunk_pos list \<Rightarrow> chunk_map" where
  "indexed_chunks S wanted =
    map (\<lambda>(cp, ch).
      (cp, case index_find (struct_index S) cp of
             None \<Rightarrow> ch
           | Some is \<Rightarrow> fold (indexed_block S cp) is ch)) (emplace_all empty_chunk wanted)"

definition structure_get_chunks ::
  "spool_disk \<Rightarrow> bdx_structure \<Rightarrow> chunk_pos list \<Rightarrow>
   ((chunk_error, chunk_map) result \<times> bdx_structure) option" where
  "structure_get_chunks disk S wanted =
    (if \<not> blocks_loaded S then
       (case struct_source S of
          None \<Rightarrow> Some (Inl SourceUnknown, S)
        | Some file \<Rightarrow>
            if allow_spool S then
              (case ensure_placement_spool disk S of
                 None \<Rightarrow> None
               | Some (Inl e, S') \<Rightarrow> Some (Inl (SpoolFailed e), S')
               | Some (Inr _, S') \<Rightarrow> Some (spooled_chunks disk S' wanted, S'))
            else
              (case placement_log (struct_env S) file of
                 None \<Rightarrow> None
               | Some (Inl e) \<Rightarrow> Some (Inl (StreamedParse e), S)
               | Some (Inr calls) \<Rightarrow> Some (streamed_chunks S calls wanted, S)))
     else
       (case index_ensure fst (struct_blocks S) (struct_offset S) (struct_index S) of
          (False, ix) \<Rightarrow> Some (Inl IndexTooLarge, S)
        | (True, ix) \<Rightarrow>
            let S' = S\<lparr>struct_index := ix\<rparr> in Some (Inr (indexed_chunks S' wanted), S')))"

text \<open>The block entities of the requested chunks, at chunk coordinates.\<close>

definition deliver_bdx_entity ::
  "bdx_structure \<Rightarrow> block_pos \<times> nbt_payload \<Rightarrow> nbt_chunk_map \<Rightarrow> nbt_chunk_map" where
  "deliver_bdx_entity S ent m =
    (let p = shifted (struct_offset S) (fst ent)
     in if pos_y p < 0 \<or> height (struct_size S) \<le> pos_y p then m
        else
          let cp = block_to_chunk p
          in case map_of m cp of
               None \<Rightarrow> m
             | Some es \<Rightarrow> umap_put cp
                 (es @ [\<lparr>entity_pos = BlockPos (floor_mod (pos_x p) 16) (structure_y_to_chunk_local (pos_y p))
                           (floor_mod (pos_z p) 16),
                         entity_payload = snd ent\<rparr>]) m)"

definition structure_get_chunk_nbt :: "bdx_structure \<Rightarrow> chunk_pos list \<Rightarrow> nbt_chunk_map" where
  "structure_get_chunk_nbt S wanted =
    fold (deliver_bdx_entity S) (struct_entities S) (emplace_all [] wanted)"

end
