(* ===== verification/WS_BdxChunks.thy ===== *)
theory WS_BdxChunks
  imports WS_BdxSpool
begin

unbundle bit_operations_syntax

text \<open>
  The placement spool holds what the command stream places: the record codec is lossless, the
  files of the spool are the encoded placements of their chunk columns in command order, and
  replaying the files of the requested columns gives what replaying the whole stream gives.
\<close>

declare evict.simps [simp del] replay_shard.simps [simp del]

section \<open>The record codec\<close>

lemma four_bytes:
  "ucast (ucast v :: byte) OR push_bit 8 (ucast (ucast (drop_bit 8 v) :: byte)) OR
    push_bit 16 (ucast (ucast (drop_bit 16 v) :: byte)) OR push_bit 24 (ucast (ucast (drop_bit 24 v) :: byte)) =
    (v :: 32 word)" (is "?l = _")
proof (rule bit_word_eqI)
  fix n assume "n < LENGTH(32)"
  then consider "n < 8" | "8 \<le> n" "n < 16" | "16 \<le> n" "n < 24" | "24 \<le> n" "n < 32" by fastforce
  then show "bit (?l :: 32 word) n = bit v n" by cases (auto simp: bit_simps)
qed

definition four :: "32 word \<Rightarrow> byte list" where
  "four v = [ucast v, ucast (drop_bit 8 v), ucast (drop_bit 16 v), ucast (drop_bit 24 v)]"

lemma encode_eq:
  "encode_placement_record p r = four (word_of_int (pos_x p)) @ four (word_of_int (pos_y p)) @
     four (word_of_int (pos_z p)) @ four (word_of_nat r)"
proof -
  have z: "replicate kPlacementRecordBytes (0::byte) = [0,0,0,0,0,0,0,0,0,0,0,0,0,0,0,0]"
    by (simp add: kPlacementRecordBytes_def eval_nat_numeral)
  show ?thesis unfolding encode_placement_record_def z
    by (simp add: write_u32_le_def four_def)
qed

lemma uint_of_int: "0 \<le> n \<Longrightarrow> n < 4294967296 \<Longrightarrow> uint (word_of_int n :: 32 word) = n"
  by (simp add: uint_word_of_int)

lemma record_i32_word:
  assumes "in_s32 x" "record_u32_le bs off = word_of_int x"
  shows "record_i32_le bs off = x"
proof (cases "0 \<le> x")
  case True
  then show ?thesis using assms uint_of_int [of x]
    by (simp add: record_i32_le_def in_s32_def range_simps)
next
  case False
  have s: "word_of_int x = (word_of_int (x + 4294967296) :: 32 word)"
    "word_of_int x - 0x80000000 = (word_of_int (x + 2147483648) :: 32 word)"
    by (simp_all add: word_of_int_eq_iff take_bit_eq_mod del: word_of_int_numeral) 
  have "uint (word_of_int x :: 32 word) = x + 4294967296"
    unfolding s(1) using False assms(1) by (intro uint_of_int) (auto simp: in_s32_def range_simps)
  moreover have "uint (word_of_int x - 0x80000000 :: 32 word) = x + 2147483648"
    unfolding s(2) using False assms(1) by (intro uint_of_int) (auto simp: in_s32_def range_simps)
  ultimately show ?thesis using assms by (simp add: record_i32_le_def in_s32_def range_simps)
qed

lemma record_fields:
  "record_u32_le (four a @ four b @ four c @ four d) 0 = a"
  "record_u32_le (four a @ four b @ four c @ four d) 4 = b"
  "record_u32_le (four a @ four b @ four c @ four d) 8 = c"
  "record_u32_le (four a @ four b @ four c @ four d) 12 = d"
  by (simp_all add: four_def record_u32_le_def four_bytes)

lemma record_position_encode:
  assumes "in_s32 (pos_x p)" "in_s32 (pos_y p)" "in_s32 (pos_z p)"
  shows "record_position (encode_placement_record p r) = p" 
  using assms by (cases p) (simp add: record_position_def encode_eq record_i32_word record_fields)

lemma record_runtime_encode: "r < 4294967296 \<Longrightarrow> record_runtime (encode_placement_record p r) = r"
  unfolding encode_eq record_runtime_def record_fields
  by (simp add: unsigned_of_nat take_bit_nat_eq_self)
lemma length_encode [simp]: "length (encode_placement_record p r) = 16" by (simp add: encode_eq four_def)


section \<open>The calls of the consumers\<close>

text \<open>The single placements a call stands for.\<close>

definition call_placements :: "consumer_call \<Rightarrow> (block_pos \<times> runtime_id) list" where
  "call_placements c =
    (case c of SingleCall p r \<Rightarrow> [(p, r)]
     | RunCall p rs _ \<Rightarrow> map (\<lambda>(i, r). (run_position p i, r)) (enumerate 0 rs))"

definition log_placements :: "consumer_call list \<Rightarrow> (block_pos \<times> runtime_id) list" where
  "log_placements calls = concat (map call_placements calls)"

definition log_ok :: "consumer_call list \<Rightarrow> bool" where
  "log_ok calls \<longleftrightarrow> (\<forall>(p, r) \<in> set (log_placements calls). in_s32 (pos_z p))"

lemma deliver_run_eq:
  "(\<And>j. i \<le> j \<Longrightarrow> j < i + length rs \<Longrightarrow> in_s32 (pos_z p + int j)) \<Longrightarrow>
   deliver_run f p i rs s =
    fold_result (\<lambda>(q, r). f q r) (map (\<lambda>(i, r). (run_position p i, r)) (enumerate i rs)) s"
proof (induction rs arbitrary: i s)
  case (Cons r rs)
  have "in_s32 (pos_z p + int i)" using Cons.prems [of i] by simp
  moreover have "deliver_run f p (i + 1) rs = fold_result (\<lambda>(q, r). f q r)
      (map (\<lambda>(i, r). (run_position p i, r)) (enumerate (Suc i) rs))"
    by (rule ext) (use Cons.IH [of "i + 1"] Cons.prems in auto)
  ultimately show ?case by (simp add: in_s32_def run_position_def Let_def)
qed simp

lemma and_then_fold_Nil [simp]: "and_then m (fold_result f []) = m"
  by (cases m) simp_all

lemma deliver_eq:
  assumes "\<And>q r. (q, r) \<in> set (call_placements c) \<Longrightarrow> in_s32 (pos_z q)"
  shows "deliver f c s = fold_result (\<lambda>(q, r). f q r) (call_placements c) s"
proof (cases c)
  case (RunCall p rs a)
  have "in_s32 (pos_z p + int j)" if "j < length rs" for j
  proof -
    have "(j, rs ! j) \<in> set (enumerate 0 rs)" using that by (simp add: in_set_enumerate_eq)
    then have "(run_position p j, rs ! j) \<in> set (call_placements c)"
      unfolding RunCall call_placements_def by force
    from assms [OF this] show ?thesis by (simp add: run_position_def)
  qed
  then show ?thesis using deliver_run_eq [of 0 rs p f s] by (simp add: RunCall deliver_def call_placements_def)
qed (simp add: deliver_def call_placements_def)

lemma deliver_log:
  assumes "log_ok calls"
  shows "fold_result (deliver f) calls s = fold_result (\<lambda>(q, r). f q r) (log_placements calls) s"
  using assms
proof (induction calls arbitrary: s)
  case (Cons c calls)
  have d: "deliver f c s = fold_result (\<lambda>(q, r). f q r) (call_placements c) s"
    by (rule deliver_eq) (use Cons.prems in \<open>auto simp: log_ok_def log_placements_def\<close>)
  have "log_ok calls" using Cons.prems by (auto simp: log_ok_def log_placements_def)
  then have "fold_result (deliver f) calls = fold_result (\<lambda>(q, r). f q r) (log_placements calls)"
    using Cons.IH by blast
  then show ?case by (simp add: d log_placements_def fold_result_append)
qed (simp add: log_placements_def)

text \<open>The placements that lie inside, at structure coordinates.\<close>

definition local_placements ::
  "bdx_structure \<Rightarrow> (block_pos \<times> runtime_id) list \<Rightarrow> (block_pos \<times> runtime_id) list" where
  "local_placements S ws =
    List.map_filter (\<lambda>(q, r). map_option (\<lambda>p. (p, r)) (local_position S q)) ws"

lemma local_placements_simps [simp]:
  "local_placements S [] = []"
  "local_placements S ((q, r) # ws) =
    (case local_position S q of None \<Rightarrow> local_placements S ws | Some p \<Rightarrow> (p, r) # local_placements S ws)"
  by (auto simp: local_placements_def map_filter_simps split: option.split)

lemma local_position_ok:
  assumes "local_position S q = Some p"
  shows "in_s32 (pos_x p)" "in_s32 (pos_y p)" "in_s32 (pos_z p)" "position_in_extent S p"
proof -
  have n: "in_s32 v \<and> placement_coordinate_in_extent v off dim"
    if "normalize_placement_coordinate raw mn off dim = Some v" for raw mn off dim v
    using that by (auto simp: normalize_placement_coordinate_def placement_coordinate_in_extent_def in_s32_def
        Let_def split: if_splits)
  from assms obtain x y z where "p = BlockPos x y z"
    "normalize_placement_coordinate (pos_x q) (pos_x (struct_min S)) (pos_x (struct_offset S)) (width (struct_original_size S)) = Some x"
    "normalize_placement_coordinate (pos_y q) (pos_y (struct_min S)) (pos_y (struct_offset S)) (height (struct_original_size S)) = Some y"
    "normalize_placement_coordinate (pos_z q) (pos_z (struct_min S)) (pos_z (struct_offset S)) (len (struct_original_size S)) = Some z"
    by (auto simp: local_position_def split: option.splits)
  with n show "in_s32 (pos_x p)" "in_s32 (pos_y p)" "in_s32 (pos_z p)" "position_in_extent S p"
    by (auto simp: position_in_extent_def)
qed

lemma local_placements_ok:
  "(p, r) \<in> set (local_placements S ws) \<Longrightarrow>
    (\<exists>q. (q, r) \<in> set ws \<and> local_position S q = Some p)"
  by (induction ws) (fastforce split: option.splits)+

section \<open>Placements into the requested chunks\<close>

definition chunk_of :: "block_pos \<Rightarrow> chunk_pos" where
  "chunk_of p = ChunkPos (floor_div (pos_x p) 16) (floor_div (pos_z p) 16)"

definition write_cell :: "runtime_id \<Rightarrow> block_pos \<Rightarrow> runtime_id \<Rightarrow> chunk_data \<Rightarrow> chunk_data" where
  "write_cell air_id p r ch =
    (let sy = s32 (floor_div64 (pos_y p - 64) 16)
     in put_cell air_id True sy
          (layer_index (floor_mod (pos_x p) 16) (s32 (pos_y p - (sy * 16 + 64))) (floor_mod (pos_z p) 16)) r ch)"

lemma umap_put_present:
  "umap_ok m \<Longrightarrow> map_of m k = Some v \<Longrightarrow>
   umap_put k w m = map (\<lambda>(j, u). (j, if j = k then w else u)) m"
proof (induction k w m rule: umap_put.induct)
  case (2 k w k' v' m)
  show ?case
  proof (cases "k = k'")
    case True
    then have "map (\<lambda>(j, u). (j, if j = k then w else u)) m = m"
      using 2(2) by (intro map_idI) (auto simp: umap_ok_def image_iff)
    then show ?thesis using True by simp
  qed (use 2 in \<open>auto simp: umap_ok_def\<close>)
qed simp

lemma apply_placement_eq:
  assumes "umap_ok m"
  shows "apply_placement air_id p r m =
    map (\<lambda>(cp, ch). (cp, if cp = chunk_of p then write_cell air_id p r ch else ch)) m"
proof (cases "map_of m (chunk_of p)")
  case None
  then have "map (\<lambda>(cp, ch). (cp, if cp = chunk_of p then write_cell air_id p r ch else ch)) m = m"
    by (intro map_idI) (force simp: map_of_eq_None_iff)
  then show ?thesis using None by (simp add: apply_placement_def chunk_of_def Let_def)
next
  case (Some c)
  have "apply_placement air_id p r m = umap_put (chunk_of p) (write_cell air_id p r c) m"
    using Some by (simp add: apply_placement_def chunk_of_def write_cell_def Let_def)
  also have "\<dots> = map (\<lambda>(j, u). (j, if j = chunk_of p then write_cell air_id p r c else u)) m"
    by (rule umap_put_present [OF assms Some])
  also have "\<dots> = map (\<lambda>(cp, ch). (cp, if cp = chunk_of p then write_cell air_id p r ch else ch)) m"
    using assms Some by (intro map_cong refl) (auto simp: umap_ok_def dest: eq_key_imp_eq_value)
  finally show ?thesis .
qed

definition write_chunk_cells ::
  "runtime_id \<Rightarrow> (block_pos \<times> runtime_id) list \<Rightarrow> chunk_pos \<Rightarrow> chunk_data \<Rightarrow> chunk_data" where
  "write_chunk_cells air_id ws cp = fold (\<lambda>(p, r). write_cell air_id p r) (filter (\<lambda>w. chunk_of (fst w) = cp) ws)"

lemma fold_apply_placement:
  "umap_ok m \<Longrightarrow> fold (\<lambda>(p, r). apply_placement air_id p r) ws m =
    map (\<lambda>(cp, ch). (cp, write_chunk_cells air_id ws cp ch)) m"
proof (induction ws arbitrary: m)
  case Nil
  then show ?case by (simp add: write_chunk_cells_def)
next
  case (Cons w ws)
  obtain p r where w: "w = (p, r)" by (cases w)
  have ok: "umap_ok (apply_placement air_id p r m)"
    using Cons.prems by (simp add: apply_placement_eq umap_ok_def comp_def case_prod_unfold)
  then show ?case
    using Cons by (auto simp: w apply_placement_eq write_chunk_cells_def)
qed


section \<open>Replaying shards\<close>

definition encoded :: "(block_pos \<times> runtime_id) list \<Rightarrow> byte list" where
  "encoded ws = concat (map (\<lambda>(p, r). encode_placement_record p r) ws)"

lemma encoded_simps [simp]:
  "encoded [] = []" "encoded ((p, r) # ws) = encode_placement_record p r @ encoded ws"
  "encoded (ws @ vs) = encoded ws @ encoded vs" "length (encoded ws) = 16 * length ws"
  by (simp_all add: encoded_def length_concat comp_def case_prod_unfold sum_list_triv)

definition records_ok :: "bdx_structure \<Rightarrow> (block_pos \<times> runtime_id) list \<Rightarrow> bool" where
  "records_ok S ws \<longleftrightarrow> (\<forall>(p, r) \<in> set ws. in_s32 (pos_x p) \<and> in_s32 (pos_y p) \<and> in_s32 (pos_z p) \<and>
    position_in_extent S p \<and> r < 4294967296)"

lemma replay_shard_encoded:
  "records_ok S ws \<Longrightarrow>
   replay_shard S s (encoded ws) m = Inr (fold (\<lambda>(p, r). apply_placement (air_of S) p r) ws m)"
proof (induction ws arbitrary: m)
  case Nil
  then show ?case by (simp add: replay_shard.simps)
next
  case (Cons w ws)
  obtain p r where w: "w = (p, r)" by (cases w)
  have ok: "in_s32 (pos_x p)" "in_s32 (pos_y p)" "in_s32 (pos_z p)" "position_in_extent S p" "r < 4294967296"
    "records_ok S ws" using Cons.prems by (auto simp: records_ok_def w)
  let ?e = "encode_placement_record p r"
  have e: "?e \<noteq> []" using length_encode [of p r] by (metis list.size(3) zero_neq_numeral)
  have "take kPlacementRecordBytes (?e @ encoded ws) = ?e" "drop kPlacementRecordBytes (?e @ encoded ws) = encoded ws"
    by (simp_all add: kPlacementRecordBytes_def)
  then have "replay_shard S s (?e @ encoded ws) m = replay_shard S s (encoded ws) (apply_placement (air_of S) p r m)"
    using ok e by (subst replay_shard.simps) (simp add: record_position_encode record_runtime_encode kPlacementRecordBytes_def)
  then show ?case using Cons.IH [OF ok(6)] by (simp add: w)
qed

lemma shard_of_chunk: "shard_of p = placement_shard (chunk_of p)"
  by (simp add: shard_of_def chunk_of_def)

lemma placement_shard_bound: "placement_shard p < kPlacementShardCount"
proof -
  have "unat ((v :: 64 word) mod 1024) < 1024" for v by (simp add: unat_mod_distrib)
  then show ?thesis by (simp add: placement_shard_def Let_def kPlacementShardCount_def)
qed

definition shard_placements :: "nat \<Rightarrow> (block_pos \<times> runtime_id) list \<Rightarrow> (block_pos \<times> runtime_id) list" where
  "shard_placements s ws = filter (\<lambda>w. shard_of (fst w) = s) ws"

lemma write_chunk_cells_shard:
  "write_chunk_cells a (shard_placements s ws) cp =
    (if placement_shard cp = s then write_chunk_cells a ws cp else id)"
proof -
  have "filter (\<lambda>w. chunk_of (fst w) = cp) (shard_placements s ws) =
      (if placement_shard cp = s then filter (\<lambda>w. chunk_of (fst w) = cp) ws else [])"
    by (auto simp: shard_placements_def shard_of_chunk intro!: filter_cong simp: filter_empty_conv)
  then show ?thesis by (simp add: write_chunk_cells_def)
qed

text \<open>A spool whose files are the encoded placements of their columns, in order.\<close>

definition spool_holds :: "(nat \<Rightarrow> byte list option) \<Rightarrow> (block_pos \<times> runtime_id) list \<Rightarrow> bool" where
  "spool_holds shards ws \<longleftrightarrow>
    (\<forall>s. shards s = (if shard_placements s ws = [] then None else Some (encoded (shard_placements s ws))))"

lemma replay_shards_eq:
  assumes "spool_holds (spool_shards S) ws" "records_ok S ws" "\<And>s. readable disk s"
  shows "distinct ss \<Longrightarrow> umap_ok m \<Longrightarrow> fst ` set m \<subseteq> set wanted \<Longrightarrow>
    replay_shards disk S wanted ss m =
      Inr (map (\<lambda>(cp, ch). (cp, if placement_shard cp \<in> set ss then write_chunk_cells (air_of S) ws cp ch else ch)) m)"
proof (induction ss arbitrary: m)
  case Nil
  have "map (\<lambda>(cp, ch). (cp, if placement_shard cp \<in> set [] then write_chunk_cells (air_of S) ws cp ch else ch)) m = m"
    by (rule map_idI) auto
  then show ?case by simp
next
  case (Cons s ss)
  let ?ws = "shard_placements s ws"
  let ?m = "map (\<lambda>(cp, ch). (cp, if placement_shard cp = s then write_chunk_cells (air_of S) ws cp ch else ch)) m"
  have step: "replay_shards disk S wanted (s # ss) m = replay_shards disk S wanted ss ?m"
  proof (cases "s \<in> placement_shard ` set wanted \<and> ?ws \<noteq> []")
    case True
    have "records_ok S ?ws" using assms(2) by (auto simp: records_ok_def shard_placements_def)
    from replay_shard_encoded [OF this, of s m]
    have "replay_shard S s (encoded ?ws) m = Inr (map (\<lambda>(cp, ch). (cp, write_chunk_cells (air_of S) ?ws cp ch)) m)"
      unfolding fold_apply_placement [OF Cons.prems(2)] .
    also have "\<dots> = Inr ?m"
      unfolding write_chunk_cells_shard by (simp add: case_prod_unfold if_distribR)
    finally show ?thesis using True assms(1,3) by (simp add: spool_holds_def)
  next
    case False
    have "?m = m"
    proof (rule map_idI)
      fix e assume e: "e \<in> set m"
      obtain cp ch where cp: "e = (cp, ch)" by (cases e)
      show "(case e of (cp, ch) \<Rightarrow> (cp, if placement_shard cp = s then write_chunk_cells (air_of S) ws cp ch else ch)) = e"
      proof (cases "placement_shard cp = s")
        case True
        then have "s \<in> placement_shard ` set wanted" using e cp Cons.prems(3) by force
        then have "?ws = []" using False by blast
        then show ?thesis using write_chunk_cells_shard [of "air_of S" s ws cp] True
          by (simp add: write_chunk_cells_def cp)
      qed (simp add: cp)
    qed
    then show ?thesis using False assms(1) by (auto simp: spool_holds_def)
  qed
  have "umap_ok ?m" "fst ` set ?m \<subseteq> set wanted"
    using Cons.prems by (auto simp: umap_ok_def comp_def case_prod_unfold)
  then show ?case using Cons.IH [of ?m] Cons.prems(1) unfolding step by (auto simp: case_prod_unfold)
qed

lemma umap_ok_keys [simp]: "umap_ok (emplace_all v ps)" "fst ` set (emplace_all v ps) = set ps"
  by (simp_all add: umap_ok_emplace_all dom_map_of_conv_image_fst [symmetric] map_of_emplace_all dom_def)

text \<open>What a request answers: every requested chunk with the writes of its placements, in order.\<close>

definition answer ::
  "bdx_structure \<Rightarrow> (block_pos \<times> runtime_id) list \<Rightarrow> chunk_pos list \<Rightarrow> chunk_map" where
  "answer S ws wanted =
    map (\<lambda>(cp, ch). (cp, drop_air_sub_chunks (air_of S) (write_chunk_cells (air_of S) ws cp ch)))
      (emplace_all empty_chunk wanted)"

lemma spooled_chunks_eq:
  assumes "spool_holds (spool_shards S) ws" "records_ok S ws" "\<And>s. readable disk s"
  shows "spooled_chunks disk S wanted = Inr (answer S ws wanted)"
  using replay_shards_eq [OF assms, of "[0..<kPlacementShardCount]" "emplace_all empty_chunk wanted" wanted]
  by (simp add: spooled_chunks_def placement_shard_bound drop_air_def answer_def case_prod_unfold)

lemma stream_fold:
  "fold_result (\<lambda>(q, r). stream_placement S q r) ws m =
    Inr (fold (\<lambda>(p, r). apply_placement (air_of S) p r) (local_placements S ws) m)"
  by (induction ws arbitrary: m) (auto simp: stream_placement_def split: option.split)

lemma streamed_chunks_eq:
  assumes "log_ok calls"
  shows "streamed_chunks S calls wanted = Inr (answer S (local_placements S (log_placements calls)) wanted)"
  unfolding streamed_chunks_def deliver_log [OF assms] stream_fold fold_apply_placement [OF umap_ok_keys(1)]
  by (simp add: drop_air_def answer_def case_prod_unfold)

end
