(* ===== verification/WS_BdxBuild.thy ===== *)
theory WS_BdxBuild
  imports WS_BdxChunks
begin

text \<open>
  The builder of the placement spool: what its files hold while the commands are replayed, the
  streams it keeps open, when it fails, and the two ways to answer a request compared.
\<close>

section \<open>The invariant of the builder\<close>

definition streams_ok :: "spool_build \<Rightarrow> bool" where
  "streams_ok b \<longleftrightarrow> (\<forall>s. shard_open b s \<longleftrightarrow> s \<in> set (lru b)) \<and> distinct (lru b)"

definition build_inv :: "bdx_structure \<Rightarrow> (block_pos \<times> runtime_id) list \<Rightarrow> spool_build \<Rightarrow> bool" where
  "build_inv S ws b \<longleftrightarrow>
    (\<forall>s. shard_bytes b s = encoded (shard_placements s ws)) \<and>
    (\<forall>s. shard_named b s \<longleftrightarrow> shard_placements s ws \<noteq> []) \<and>
    (\<forall>s \<in> set (lru b). shard_named b s) \<and>
    spooled b = 16 * length ws \<and> streams_ok b \<and> length (lru b) \<le> kPlacementOpenShardLimit \<and>
    (spool_limit S \<noteq> 0 \<longrightarrow> 16 * length ws \<le> spool_limit S)"

text \<open>The parts of the state that opening, touching and closing streams leaves alone.\<close>

definition same_files :: "spool_build \<Rightarrow> spool_build \<Rightarrow> bool" where
  "same_files b c \<longleftrightarrow> shard_bytes c = shard_bytes b \<and> spooled c = spooled b"

lemma close_last:
  assumes "streams_ok b" "lru b = ls @ [s]"
  shows "case close_shard disk s (b\<lparr>lru := ls\<rparr>) of
      Inl e \<Rightarrow> \<exists>n. fault disk n
    | Inr c \<Rightarrow> streams_ok c \<and> lru c = ls \<and> same_files b c \<and> shard_named c = shard_named b"
  using assms by (auto simp: close_shard_def streams_ok_def same_files_def)

lemma evict_one:
  assumes "streams_ok b" "length (lru b) \<le> Suc kPlacementOpenShardLimit"
  shows "case evict disk b of
      Inl e \<Rightarrow> \<exists>n. fault disk n
    | Inr c \<Rightarrow> streams_ok c \<and> lru c = take kPlacementOpenShardLimit (lru b) \<and> same_files b c \<and>
        shard_named c = shard_named b"
proof (cases "kPlacementOpenShardLimit < length (lru b)")
  case True
  then have l: "length (lru b) = Suc kPlacementOpenShardLimit" using assms(2) by simp
  then obtain ls s where ls: "lru b = ls @ [s]" by (metis length_Suc_conv_rev)
  note c = close_last [OF assms(1) ls, of disk]
  have ll: "length ls = kPlacementOpenShardLimit" using l ls by simp
  have settled: "evict disk c = Inr c" if "lru c = ls" for c
    using that ll by (simp add: evict.simps [of disk c])
  show ?thesis
  proof (cases "close_shard disk s (b\<lparr>lru := ls\<rparr>)")
    case (Inl e)
    then show ?thesis using c True ls by (simp add: evict.simps [of disk b])
  next
    case (Inr d)
    then have "evict disk b = Inr d" using c True ls settled [of d] by (simp add: evict.simps [of disk b])
    then show ?thesis using c Inr ll ls by simp
  qed
next
  case False
  then show ?thesis using assms by (simp add: evict.simps same_files_def)
qed

lemma open_touch:
  assumes "streams_ok b" "length (lru b) \<le> kPlacementOpenShardLimit"
  shows "case and_then (open_shard disk s b) (touch disk s) of
      Inl e \<Rightarrow> \<exists>n. fault disk n
    | Inr c \<Rightarrow> streams_ok c \<and> length (lru c) \<le> kPlacementOpenShardLimit \<and> s \<in> set (lru c) \<and>
        set (lru c) \<subseteq> insert s (set (lru b)) \<and> same_files b c \<and>
        (\<forall>t. shard_named c t \<longleftrightarrow> shard_named b t \<or> t = s \<and> s \<notin> set (lru b))"
proof (cases "s \<in> set (lru b)")
  case True
  then have "length (lru b) > 0" by (cases "lru b") auto
  then show ?thesis using True assms
    by (auto simp: open_shard_def touch_def streams_ok_def same_files_def length_remove1)
next
  case new: False
  show ?thesis
  proof (cases "fault disk (stream_ops b)")
    case True
    then show ?thesis using new assms by (auto simp: open_shard_def streams_ok_def)
  next
    case False
    let ?b = "b\<lparr>shard_named := (shard_named b)(s := True), shard_open := (shard_open b)(s := True),
      stream_ops := stream_ops b + 1, lru := s # lru b\<rparr>"
    have "streams_ok ?b" "length (lru ?b) \<le> Suc kPlacementOpenShardLimit"
      using new assms by (auto simp: streams_ok_def)
    note e = evict_one [OF this, of disk]
    have t: "and_then (open_shard disk s b) (touch disk s) = evict disk ?b"
      using new assms(1) False by (simp add: open_shard_def touch_def streams_ok_def)
    have "s \<in> set (take kPlacementOpenShardLimit (lru ?b))" by (simp add: kPlacementOpenShardLimit_def)
    moreover have "set (take kPlacementOpenShardLimit (lru ?b)) \<subseteq> insert s (set (lru b))"
      using set_take_subset [of kPlacementOpenShardLimit "lru ?b"] by simp
    ultimately show ?thesis using e new unfolding t by (auto simp: same_files_def split: sum.splits)
  qed
qed


section \<open>Appending placements\<close>

lemma shard_placements_snoc [simp]:
  "shard_placements s (ws @ [(p, r)]) =
    (if shard_of p = s then shard_placements s ws @ [(p, r)] else shard_placements s ws)"
  by (simp add: shard_placements_def)

lemma append_inside:
  assumes inv: "build_inv S ws b" and p: "local_position S q = Some p"
    and small: "16 * length ws + 16 < 18446744073709551616"
  shows "case append_placement disk S q r b of
      Inl e \<Rightarrow> (\<exists>n. fault disk n) \<or> spool_limit S \<noteq> 0 \<and> spool_limit S < 16 * length ws + 16
    | Inr c \<Rightarrow> build_inv S (ws @ [(p, r)]) c"
proof -
  let ?s = "shard_of p"
  have sp: "spooled b = 16 * length ws" using inv by (simp add: build_inv_def)
  show ?thesis
  proof (cases "spool_limit S \<noteq> 0 \<and> spool_limit S < 16 * length ws + 16")
    case True
    then show ?thesis using p sp small
      by (auto simp: append_placement_def kPlacementRecordBytes_def)
  next
    case False
    let ?m = "and_then (open_shard disk ?s b) (touch disk ?s)"
    have a: "append_placement disk S q r b = and_then ?m (write_shard disk ?s (encode_placement_record p r))"
      using p sp small False by (auto simp: append_placement_def kPlacementRecordBytes_def and_then_assoc)
    have ot: "case ?m of Inl e \<Rightarrow> \<exists>n. fault disk n
      | Inr c \<Rightarrow> streams_ok c \<and> length (lru c) \<le> kPlacementOpenShardLimit \<and> ?s \<in> set (lru c) \<and>
          set (lru c) \<subseteq> insert ?s (set (lru b)) \<and> same_files b c \<and>
          (\<forall>t. shard_named c t \<longleftrightarrow> shard_named b t \<or> t = ?s \<and> ?s \<notin> set (lru b))"
      using inv by (intro open_touch) (simp_all add: build_inv_def)
    show ?thesis
    proof (cases ?m)
      case (Inl e)
      then show ?thesis using ot a by simp
    next
      case (Inr c)
      note c = ot [unfolded Inr sum.case]
      show ?thesis
      proof (cases "fault disk (stream_ops c)")
        case True
        then show ?thesis by (auto simp: a Inr write_shard_def)
      next
        case ok: False
        have named: "shard_named c t \<longleftrightarrow> shard_placements t (ws @ [(p, r)]) \<noteq> []" for t
          using c inv by (auto simp: build_inv_def)
        moreover have "\<forall>t \<in> set (lru c). shard_placements t (ws @ [(p, r)]) \<noteq> []"
          using c inv by (auto simp: build_inv_def)
        moreover have "spool_limit S \<noteq> 0 \<longrightarrow> 16 * length (ws @ [(p, r)]) \<le> spool_limit S" using False by auto
        ultimately show ?thesis using c inv sp
          by (simp add: a Inr write_shard_def ok build_inv_def same_files_def streams_ok_def)
      qed
    qed
  qed
qed

lemma append_all:
  assumes "16 * length (ws @ local_placements S qs) < 18446744073709551616" "build_inv S ws b"
  shows "case fold_result (\<lambda>(q, r). append_placement disk S q r) qs b of
      Inl e \<Rightarrow> (\<exists>n. fault disk n) \<or> spool_limit S \<noteq> 0 \<and> spool_limit S < 16 * length (ws @ local_placements S qs)
    | Inr c \<Rightarrow> build_inv S (ws @ local_placements S qs) c"
  using assms
proof (induction qs arbitrary: ws b)
  case (Cons qr qs)
  obtain q r where qr: "qr = (q, r)" by (cases qr)
  show ?case
  proof (cases "local_position S q")
    case None
    then have "append_placement disk S q r b = Inr b" by (simp add: append_placement_def)
    moreover have "local_placements S (qr # qs) = local_placements S qs" by (simp add: qr None)
    ultimately show ?thesis using Cons.IH [OF _ Cons.prems(2)] Cons.prems(1) by (auto simp: qr split: sum.splits)
  next
    case (Some p)
    have "16 * length ws + 16 < 18446744073709551616" using Cons.prems(1) Some by (simp add: qr)
    note a = append_inside [OF Cons.prems(2) Some this, of disk r]
    show ?thesis
    proof (cases "append_placement disk S q r b")
      case (Inl e)
      then show ?thesis using a Some by (auto simp: qr)
    next
      case (Inr c)
      then show ?thesis using a Some Cons.IH [of "ws @ [(p, r)]" c] Cons.prems(1)
        by (auto simp: qr split: sum.splits)
    qed
  qed
qed simp

section \<open>Finishing\<close>

lemma close_shards_ok:
  "case close_shards disk ss b of
     Inl e \<Rightarrow> \<exists>n. fault disk n
   | Inr c \<Rightarrow> shard_bytes c = shard_bytes b \<and> shard_named c = shard_named b \<and> spooled c = spooled b"
proof (induction ss arbitrary: b)
  case (Cons s ss)
  show ?case
  proof (cases "close_shard disk s b")
    case (Inl e)
    then show ?thesis by (auto simp: close_shard_def split: if_splits)
  next
    case (Inr c)
    then show ?thesis using Cons.IH [of c]
      by (auto simp: close_shard_def split: if_splits sum.splits)
  qed
qed simp

definition file_sizes :: "spool_build \<Rightarrow> nat list \<Rightarrow> nat" where
  "file_sizes b ss = (\<Sum>s\<leftarrow>ss. if shard_named b s then length (shard_bytes b s) else 0)"

lemma file_sizes_simps [simp]:
  "file_sizes b [] = 0" "file_sizes (b\<lparr>stream_ops := k\<rparr>) ss = file_sizes b ss"
  "file_sizes b (s # ss) = (if shard_named b s then length (shard_bytes b s) else 0) + file_sizes b ss"
  by (simp_all add: file_sizes_def cong: if_cong)

lemma measure_shards_ok:
  "n + file_sizes b ss < 18446744073709551616 \<Longrightarrow>
   case measure_shards disk ss n b of
     Inl e \<Rightarrow> \<exists>k. fault disk k
   | Inr m \<Rightarrow> m = n + file_sizes b ss"
proof (induction ss arbitrary: n b)
  case (Cons s ss)
  let ?b = "b\<lparr>stream_ops := stream_ops b + 1\<rparr>"
  show ?case
  proof (cases "shard_named b s \<and> \<not> fault disk (stream_ops b)")
    case True
    then have "\<not> 18446744073709551615 - n < length (shard_bytes b s)" using Cons.prems by simp
    with True have "measure_shards disk (s # ss) n b = measure_shards disk ss (n + length (shard_bytes b s)) ?b"
      by simp
    then show ?thesis using Cons.IH [of "n + length (shard_bytes b s)" ?b] Cons.prems True
      by (auto simp: add.assoc split: sum.splits)
  qed (use Cons.IH [of n b] Cons.prems in \<open>auto split: sum.splits\<close>)
qed simp

text \<open>Every placement is in exactly one shard.\<close>

lemma shards_partition:
  assumes "set (map (shard_of \<circ> fst) ws) \<subseteq> set ss" "distinct ss"
  shows "(\<Sum>s\<leftarrow>ss. length (shard_placements s ws)) = length ws"
  using assms(1)
proof (induction ws)
  case Nil
  show ?case by (simp add: shard_placements_def sum_list_triv)
next
  case (Cons w ws)
  have "(\<Sum>s\<leftarrow>ss. length (shard_placements s (w # ws))) =
      (\<Sum>s\<leftarrow>ss. (if shard_of (fst w) = s then 1 else 0) + length (shard_placements s ws))"
    by (intro arg_cong [where f = sum_list] map_cong refl) (auto simp: shard_placements_def)
  also have "\<dots> = (\<Sum>s\<leftarrow>ss. if shard_of (fst w) = s then 1 else 0) + length ws"
    using Cons by (simp add: sum_list_addf)
  also have "(\<Sum>s\<leftarrow>ss. if shard_of (fst w) = s then 1 else 0) = (1 :: nat)"
    using assms(2) Cons.prems by (simp add: sum_list_distinct_conv_sum_set)
  finally show ?case by simp
qed

lemma shard_bytes_sum:
  assumes "build_inv S ws b"
  shows "file_sizes b [0..<kPlacementShardCount] = 16 * length ws"
proof -
  have "file_sizes b [0..<kPlacementShardCount] =
      (\<Sum>s\<leftarrow>[0..<kPlacementShardCount]. 16 * length (shard_placements s ws))"
    unfolding file_sizes_def using assms
    by (intro arg_cong [where f = sum_list] map_cong refl) (auto simp: build_inv_def)
  also have "\<dots> = 16 * (\<Sum>s\<leftarrow>[0..<kPlacementShardCount]. length (shard_placements s ws))"
    by (simp add: sum_list_const_mult)
  also have "(\<Sum>s\<leftarrow>[0..<kPlacementShardCount]. length (shard_placements s ws)) = length ws"
    by (rule shards_partition) (auto simp: shard_of_chunk placement_shard_bound)
  finally show ?thesis .
qed

lemma finish_spool_ok:
  assumes inv: "build_inv S ws b" and small: "16 * length ws < 18446744073709551616"
  shows "case finish_spool disk S b of
      Inl e \<Rightarrow> \<exists>n. fault disk n
    | Inr (shards, n) \<Rightarrow> spool_holds shards ws \<and> n = 16 * length ws"
proof (cases "close_shards disk [0..<kPlacementShardCount] b")
  case (Inl e)
  then show ?thesis using close_shards_ok [of disk b "[0..<kPlacementShardCount]"] by (simp add: finish_spool_def)
next
  case (Inr c)
  have c: "shard_bytes c = shard_bytes b" "shard_named c = shard_named b" "spooled c = spooled b"
    using close_shards_ok [of disk b "[0..<kPlacementShardCount]"] Inr by simp_all
  have h: "spool_holds (\<lambda>s. if shard_named c s then Some (shard_bytes c s) else None) ws"
    using inv by (simp add: spool_holds_def build_inv_def c)
  have n: "spooled b = 16 * length ws" "spool_limit S \<noteq> 0 \<longrightarrow> 16 * length ws \<le> spool_limit S"
    using inv by (simp_all add: build_inv_def)
  have fs: "file_sizes c ss = file_sizes b ss" for ss by (simp add: file_sizes_def c cong: if_cong)
  show ?thesis
    using measure_shards_ok [where n = 0 and b = c and ss = "[0..<kPlacementShardCount]" and disk = disk] shard_bytes_sum [OF inv] small h n fs
    by (cases "measure_shards disk [0..<kPlacementShardCount] 0 c") (auto simp: finish_spool_def Inr c)
qed

lemma build_inv_empty: "build_inv S [] empty_build"
  by (simp add: build_inv_def empty_build_def streams_ok_def shard_placements_def)

lemma spool_calls_ok:
  fixes S :: bdx_structure and calls :: "consumer_call list"
  defines "ws \<equiv> local_placements S (log_placements calls)"
  assumes ok: "log_ok calls" and small: "16 * length ws < 18446744073709551616"
  shows "case spool_calls disk S calls of
      Inl e \<Rightarrow> (\<exists>n. fault disk n) \<or> spool_limit S \<noteq> 0 \<and> spool_limit S < 16 * length ws
    | Inr (shards, n) \<Rightarrow> spool_holds shards ws \<and> n = 16 * length ws \<and>
        (spool_limit S \<noteq> 0 \<longrightarrow> n \<le> spool_limit S)"
proof -
  let ?f = "fold_result (\<lambda>(q, r). append_placement disk S q r) (log_placements calls) empty_build"
  have s: "spool_calls disk S calls = and_then ?f (finish_spool disk S)"
    by (simp add: spool_calls_def deliver_log [OF ok])
  have a: "case ?f of Inl e \<Rightarrow> (\<exists>n. fault disk n) \<or> spool_limit S \<noteq> 0 \<and> spool_limit S < 16 * length ws
    | Inr c \<Rightarrow> build_inv S ws c"
    using append_all [of "[]" S "log_placements calls" empty_build disk] small build_inv_empty
    unfolding ws_def append_Nil by blast
  show ?thesis
  proof (cases ?f)
    case (Inl e)
    then show ?thesis using a by (simp add: s)
  next
    case (Inr b)
    then have inv: "build_inv S ws b" using a by simp
    then have "spool_limit S \<noteq> 0 \<longrightarrow> 16 * length ws \<le> spool_limit S" by (simp add: build_inv_def)
    then show ?thesis using finish_spool_ok [OF inv small, of disk] Inr
      by (auto simp: s split: sum.splits)
  qed
qed


section \<open>The placements of a file\<close>

lemma single_placements_eq: "single_placements c = map (\<lambda>(p, r). SingleCall p r) (call_placements c)"
  by (simp add: single_placements_def call_placements_def case_prod_unfold split: consumer_call.split)

lemma log_placements_normal:
  assumes "concat (map single_placements cs) = concat (map single_placements ds)"
  shows "log_placements cs = log_placements ds"
proof -
  have e: "map (\<lambda>c. case c of SingleCall p r \<Rightarrow> (p, r) | RunCall p rs a \<Rightarrow> (p, 0)) (concat (map single_placements xs)) =
      log_placements xs" for xs
    by (induction xs) (simp_all add: log_placements_def single_placements_eq comp_def case_prod_unfold)
  show ?thesis unfolding e [symmetric] assms ..
qed

lemma log_placements_starts:
  "\<forall>c \<in> set cs. is_single c \<Longrightarrow> fst ` set (log_placements cs) = call_start ` set cs"
  by (induction cs)
    (auto simp: log_placements_def call_placements_def call_start_def is_single_def split: consumer_call.splits)

lemma streamed_env_simps [simp]:
  "consistent (streamed_env env)" "\<not> bounds_only (streamed_env env)" "read_nbt (streamed_env env) = read_nbt env"
  "bdx_registry (streamed_env env) = bdx_registry env"
  by (simp_all add: streamed_env_def consistent_def)

text \<open>
  The log of a file comes from a state of the reference loop that satisfies the reader's
  invariant, and whose bounds are those of the result.
\<close>

lemma placement_log_state:
  assumes "outcomes_ok outcomes" and "placement_log env (h, n, outcomes) = Some (Inr calls)"
  shows "\<exists>a t r. finish_read a t = Inr r \<and> bdx_read (streamed_env env) h n outcomes = Some (Inr r) \<and>
    log_placements calls = log_placements (placement_calls t) \<and> read_inv (streamed_env env) t"
proof -
  let ?env = "streamed_env env" and ?d = "decoded_input (decoded_limit (n - 3)) outcomes"
  obtain a d s r where h: "h = [66, 68, 64]" and m: "read_metadata ?d = Inr (a, d)"
    and s: "bdx_loop ?env (bdx_init d) = Some (Inr s)" and f: "finish_read a s = Inr r"
    and c: "calls = placement_calls s"
    using assms(2)
    by (auto simp: placement_log_def observed_with_def and_then_eq_Inr_iff split: if_splits sum.splits)
  note ok = decoded_input_ok(1) [of "decoded_limit (n - 3)" outcomes]
    decoded_input_ok(2) [OF assms(1), of "decoded_limit (n - 3)"]
  have li: "loop_inv (bdx_init d)" by (rule loop_inv_init [OF m ok])
  obtain t where t: "bdx_slow_loop ?env (flat_state (bdx_init d)) = Some (Inr t)"
    and nt: "normalize_state ?env s = normalize_state ?env t"
    using bdx_loop_same_outcome [OF streamed_env_simps(1) [of env] li] s
    by (auto simp: same_outcome_def split: option.splits sum.splits)
  have "read_inv ?env (flat_state (bdx_init d))"
    by (simp add: flat_state_def read_inv_def geometry_ok_def in_s32_def range_simps bdx_init_def positions_def
        pos_within_def)
  moreover have "state_ok (flat_state (bdx_init d))"
    using li by (simp add: loop_inv_def flat_state_def)
  ultimately have "read_inv ?env t" using slow_loop_inv [OF t] by blast
  moreover have "log_placements calls = log_placements (placement_calls t)"
    using arg_cong [OF nt, of placement_calls] unfolding c
    by (intro log_placements_normal) (simp add: normalize_state_def)
  moreover have "finish_read a t = Inr r" using finish_read_normal [OF nt] f by simp
  moreover have "bdx_read ?env h n outcomes = Some (Inr r)"
    using h m s f by (simp add: bdx_read_def read_with_def)
  ultimately show ?thesis by blast
qed

lemma placement_log_inside:
  assumes "outcomes_ok outcomes" and "placement_log env (h, n, outcomes) = Some (Inr calls)"
  shows "log_ok calls" and
    "\<exists>r. bdx_read (streamed_env env) h n outcomes = Some (Inr r) \<and>
      (\<forall>(q, rid) \<in> set (log_placements calls).
        inside_size (bdx_original_size r)
          (BlockPos (pos_x q - pos_x (bdx_min r)) (pos_y q - pos_y (bdx_min r)) (pos_z q - pos_z (bdx_min r))))"
proof -
  obtain a t r where f: "finish_read a t = Inr r" and b: "bdx_read (streamed_env env) h n outcomes = Some (Inr r)"
    and l: "log_placements calls = log_placements (placement_calls t)" and inv: "read_inv (streamed_env env) t"
    using placement_log_state [OF assms] by blast
  have "fst ` set (log_placements calls) \<subseteq> positions t"
    using inv unfolding l positions_def by (subst log_placements_starts) (auto simp: read_inv_def)
  then have w: "pos_within (low t) (high t) q" if "(q, rid) \<in> set (log_placements calls)" for q rid
    using that inv by (auto simp: read_inv_def)
  have "geometry_ok t" using inv by (simp add: read_inv_def)
  then show "log_ok calls" unfolding log_ok_def
    by (auto dest!: w simp: pos_within_def geometry_ok_def in_s32_def)
  have dims: "bdx_min r = low t" "width (bdx_original_size r) = pos_x (high t) - pos_x (low t) + 1"
    "height (bdx_original_size r) = pos_y (high t) - pos_y (low t) + 1"
    "len (bdx_original_size r) = pos_z (high t) - pos_z (low t) + 1"
    using f by (auto simp: finish_read_def and_then_eq_Inr_iff dest!: dimension_eq)
  then have "\<forall>(q, rid) \<in> set (log_placements calls).
      inside_size (bdx_original_size r)
        (BlockPos (pos_x q - pos_x (bdx_min r)) (pos_y q - pos_y (bdx_min r)) (pos_z q - pos_z (bdx_min r)))"
    by (auto dest!: w simp: pos_within_def inside_size_def)
  then show "\<exists>r. bdx_read (streamed_env env) h n outcomes = Some (Inr r) \<and>
      (\<forall>(q, rid) \<in> set (log_placements calls).
        inside_size (bdx_original_size r)
          (BlockPos (pos_x q - pos_x (bdx_min r)) (pos_y q - pos_y (bdx_min r)) (pos_z q - pos_z (bdx_min r))))"
    using b by blast
qed

lemma placement_log_returns:
  assumes "outcomes_ok outcomes"
  shows "\<exists>r. placement_log env (h, n, outcomes) = Some r"
proof (cases "h = [66, 68, 64]")
  case True
  let ?d = "decoded_input (decoded_limit (n - 3)) outcomes"
  note ok = decoded_input_ok(1) [of "decoded_limit (n - 3)" outcomes]
    decoded_input_ok(2) [OF assms(1), of "decoded_limit (n - 3)"]
  show ?thesis
  proof (cases "read_metadata ?d")
    case (Inr x)
    then show ?thesis
      using bdx_loop_normal [OF streamed_env_simps(1) loop_inv_init [OF _ ok], of "fst x" "snd x" env] True
      by (auto simp: placement_log_def observed_with_def case_prod_unfold)
  qed (simp add: placement_log_def observed_with_def True)
qed (simp add: placement_log_def)

section \<open>Requests\<close>

definition ids_fit :: "(block_pos \<times> runtime_id) list \<Rightarrow> bool" where
  "ids_fit ws \<longleftrightarrow> (\<forall>(q, r) \<in> set ws. r < 4294967296)"

lemma local_records_ok:
  assumes "ids_fit ws"
  shows "records_ok S (local_placements S ws)"
proof -
  have "in_s32 (pos_x p) \<and> in_s32 (pos_y p) \<and> in_s32 (pos_z p) \<and> position_in_extent S p \<and> r < 4294967296"
    if m: "(p, r) \<in> set (local_placements S ws)" for p r
  proof -
    obtain q where "(q, r) \<in> set ws" "local_position S q = Some p" using local_placements_ok [OF m] by blast
    then show ?thesis using local_position_ok [of S q p] assms by (auto simp: ids_fit_def)
  qed
  then show ?thesis by (auto simp: records_ok_def)
qed

lemma local_placements_length: "length (local_placements S ws) \<le> length ws"
  by (induction ws) (auto split: option.split)

text \<open>
  A request answered from a spool that holds the placements of the file.
\<close>

lemma ready_request:
  assumes "\<not> blocks_loaded S" "struct_source S = Some file" "allow_spool S" "spool_ready S"
    and "spool_holds (spool_shards S) ws" "records_ok S ws" "\<And>s. readable disk s"
  shows "structure_get_chunks disk S wanted = Some (Inr (answer S ws wanted), S)"
  using assms spooled_chunks_eq [OF assms(5-7)]
  by (simp add: structure_get_chunks_def ensure_placement_spool_def)

end
