(* ===== verification/WS_BdxAccess.thy ===== *)
theory WS_BdxAccess
  imports WS_BdxBuild WS_BdxBounds
begin

text \<open>
  What a caller of \<open>BdxStructure::get_chunks\<close> sees: the spool answers as the replay of the
  command stream does, a request delivers at every position the last placement of the file,
  and the box of the structure does not depend on the mode it was opened in.
\<close>

section \<open>The cells of one chunk\<close>

lemma write_cell_world:
  assumes "in_s32 (pos_x p)" "in_s32 (pos_y p)" "in_s32 (pos_z p)"
  shows "write_cell a p r ch =
    put_cell a True (fst (world_cell (pos_x p) (pos_y p) (pos_z p))) (snd (world_cell (pos_x p) (pos_y p) (pos_z p))) r ch"
proof -
  let ?w = "pos_y p - 64"
  have r: "- 2147483648 \<le> pos_y p" "pos_y p \<le> 2147483647" using assms(2) by (simp_all add: in_s32_def range_simps)
  have fd: "floor_div64 ?w 16 = ?w div 16"
    using r by (intro floor_div64_eq) (simp_all add: in_s64_def range_simps)
  have "?w div 16 \<le> pos_y p div 16" "- 2147483712 div 16 \<le> ?w div 16"
    using r by (simp_all add: zdiv_mono1)
  then have sy: "in_s32 (?w div 16)" using r by (simp add: in_s32_def range_simps)
  have ly: "pos_y p - (?w div 16 * 16 + 64) = ?w mod 16" by (simp add: minus_div_mult_eq_mod [symmetric])
  have "in_s32 (?w mod 16)" by (rule s32_mod16)
  then show ?thesis
    using assms by (simp add: write_cell_def Let_def fd s32_id [OF sy] ly s32_id world_cell_def)
qed

definition cells_ok :: "(block_pos \<times> runtime_id) list \<Rightarrow> bool" where
  "cells_ok ws \<longleftrightarrow> (\<forall>(p, r) \<in> set ws. in_s32 (pos_x p) \<and> in_s32 (pos_y p) \<and> in_s32 (pos_z p))"

lemma get_write_chunk_cells:
  assumes "cells_ok ws" and "in_s32 x" "in_s32 z"
  shows "get_cell a (write_chunk_cells a ws (ChunkPos (x div 16) (z div 16)) empty_chunk) (world_cell x y z) =
    (case map_of (rev ws) (BlockPos x y z) of Some r \<Rightarrow> r | None \<Rightarrow> a)"
proof -
  let ?cp = "ChunkPos (x div 16) (z div 16)"
  let ?vs = "filter (\<lambda>w. chunk_of (fst w) = ?cp) ws"
  let ?cell = "\<lambda>p. world_cell (pos_x p) (pos_y p) (pos_z p)"
  let ?cvs = "map (\<lambda>(p, r). (?cell p, r)) ?vs"
  have ok: "in_s32 (pos_x p) \<and> in_s32 (pos_y p) \<and> in_s32 (pos_z p)" if "(p, r) \<in> set ws" for p r
    using assms(1) that by (auto simp: cells_ok_def)
  have "write_chunk_cells a ws ?cp = fold (\<lambda>(c, v). put_cell a True (fst c) (snd c) v) ?cvs"
    unfolding write_chunk_cells_def fold_map
    by (intro fold_cong refl ext) (auto simp: write_cell_world ok)
  then have "get_cell a (write_chunk_cells a ws ?cp empty_chunk) (world_cell x y z) =
      (case map_of (rev ?cvs) (world_cell x y z) of Some r \<Rightarrow> r | None \<Rightarrow> a)"
    by (simp only: cells.rd_fold_wr get_cell_empty)
  also have "map_of (rev ?cvs) (world_cell x y z) = map_of (rev ws) (BlockPos x y z)"
    using ok
  proof (induction ws rule: rev_induct)
    case (snoc w ws)
    obtain p r where w: "w = (p, r)" by (cases w)
    have p: "in_s32 (pos_x p)" "in_s32 (pos_z p)" using snoc.prems [of p r] by (simp_all add: w)
    have c: "chunk_of p = ?cp \<longleftrightarrow> pos_x p div 16 = x div 16 \<and> pos_z p div 16 = z div 16"
      using p by (simp add: chunk_of_def)
    have "?cell p = world_cell x y z \<longleftrightarrow> p = BlockPos x y z" if "chunk_of p = ?cp"
      using world_cell_inj [of "pos_x p" "pos_y p" "pos_z p" x y z] that c by (cases p) auto
    moreover have "p \<noteq> BlockPos x y z" if "chunk_of p \<noteq> ?cp" using that c by auto
    moreover have "map_of (rev (map (\<lambda>(p, r). (?cell p, r)) (filter (\<lambda>w. chunk_of (fst w) = ?cp) ws)))
        (world_cell x y z) = map_of (rev ws) (BlockPos x y z)"
      by (rule snoc.IH) (use snoc.prems in auto)
    ultimately show ?case by (auto simp: w)
  qed simp
  finally show ?thesis .
qed

lemma world_cell_index: "snd (world_cell x y z) < 4096"
  by (simp add: world_cell_def layer_index_bound)

lemma get_cell_drop_air: "i < 4096 \<Longrightarrow> get_cell a (drop_air_sub_chunks a ch) (sy, i) = get_cell a ch (sy, i)"
  by (auto simp: get_cell_def drop_air_sub_chunks_def only_air_def list_all_iff split: option.splits)

text \<open>The block a request delivers: the last placement at a position.\<close>

definition last_placed :: "runtime_id \<Rightarrow> (block_pos \<times> runtime_id) list \<Rightarrow> block_pos \<Rightarrow> runtime_id" where
  "last_placed a ws p = (case map_of (rev ws) p of Some r \<Rightarrow> r | None \<Rightarrow> a)"

lemma answer_keys: "fst ` set (answer S ws wanted) = set wanted"
  by (simp add: answer_def image_image case_prod_unfold) 

lemma map_of_answer:
  "map_of (answer S ws wanted) cp =
    (if cp \<in> set wanted then Some (drop_air_sub_chunks (air_of S) (write_chunk_cells (air_of S) ws cp empty_chunk))
     else None)"
proof -
  have m: "map_of (map (\<lambda>(k, v). (k, f k v)) m) cp = map_option (f cp) (map_of m cp)" for f and m :: chunk_map
    by (induction m) auto
  show ?thesis unfolding answer_def m [of "\<lambda>cp ch. drop_air_sub_chunks (air_of S) (write_chunk_cells (air_of S) ws cp ch)"]
    by (simp add: map_of_emplace_all)
qed

lemma block_at_answer:
  assumes "cells_ok ws" "world_pos_ok x y z" "ChunkPos (x div 16) (z div 16) \<in> set wanted"
  shows "block_at (answer S ws wanted) (air_of S) x y z = last_placed (air_of S) ws (BlockPos x y z)"
proof -
  have "get_cell a (drop_air_sub_chunks a ch) (world_cell x y z) = get_cell a ch (world_cell x y z)" for a ch
    using get_cell_drop_air [OF world_cell_index] by (metis prod.collapse)
  then show ?thesis using assms get_write_chunk_cells [OF assms(1), of x z "air_of S" y]
    by (simp add: block_at_eq world_pos_ok_def map_of_answer last_placed_def)
qed

lemma answer_sub_chunks:
  "(cp, ch) \<in> set (answer S ws wanted) \<Longrightarrow> sub_chunks ch sy = Some sub \<Longrightarrow> \<not> only_air (air_of S) sub"
  by (auto simp: answer_def drop_air_sub_chunks_def split: option.splits if_splits)


section \<open>The box of the structure\<close>

lemma bounds_instr:
  assumes "read_command nbt True cmd d = Inr (i, d')"
  shows "(\<forall>src e. i \<noteq> Place src e) \<and> (\<forall>c. i \<noteq> StoreEntity c)"
  using assms unfolding read_command_def read_bounds_def
  by (auto simp: and_then_eq_Inr_iff skipped_instr_def split: option.splits if_splits)

lemma execute_flags: "(\<forall>src e. i \<noteq> Place src e) \<and> (\<forall>c. i \<noteq> StoreEntity c) \<Longrightarrow> execute env i = execute env' i"
  by (rule ext) (simp add: execute_def split: instr.split)

lemma and_then_cong_ok: "(\<And>a. m = Inr a \<Longrightarrow> f a = g a) \<Longrightarrow> and_then m f = and_then m g"
  by (cases m) auto

lemma slow_command_flags:
  assumes "read_nbt env = read_nbt env'"
  shows "slow_command (bounds_env env) st = slow_command (bounds_env env') st"
proof -
  have x: "execute (bounds_env env) i = execute (bounds_env env') i"
    if "read_command nbt True cmd d = Inr (i, d')" for nbt cmd d i d'
    by (rule execute_flags) (rule bounds_instr [OF that])
  show ?thesis
    unfolding slow_command_def
    by (rule and_then_cong_ok)
      (auto simp: assms split: option.split intro!: and_then_cong_ok dest!: x)
qed

lemma slow_loop_flags:
  assumes "read_nbt env = read_nbt env'"
  shows "state_ok st \<Longrightarrow> bdx_slow_loop (bounds_env env) st = bdx_slow_loop (bounds_env env') st"
proof (induction "bytes_left st" arbitrary: st rule: less_induct)
  case less
  note c = slow_command_flags [OF assms, of st]
  show ?case
  proof (cases "\<exists>s. slow_command (bounds_env env') st = Inr (Continue s)")
    case True
    then obtain s where s: "slow_command (bounds_env env') st = Inr (Continue s)" ..
    then have "bytes_left s < bytes_left st" "state_ok s"
      using slow_command_progress(1,2) [of "bounds_env env'" st s] less.prems by simp_all
    with less.hyps show ?thesis
      by (simp add: bdx_slow_loop.simps [of _ st] c s)
  next
    case False
    then show ?thesis
      by (auto simp: bdx_slow_loop.simps [of _ st] c split: sum.split progress.split)
  qed
qed

text \<open>Two reads of one file that succeed find the same box, whatever their modes are.\<close>

lemma same_box:
  assumes nbt: "nbt_agrees (read_nbt env)" "read_nbt env' = read_nbt env" and con: "consistent env" "consistent env'"
    and out: "outcomes_ok outcomes"
    and r: "bdx_read env h n outcomes = Some (Inr r)" "bdx_read env' h n outcomes = Some (Inr r')"
  shows "bdx_min r = bdx_min r' \<and> bdx_original_size r = bdx_original_size r'"
proof -
  let ?ref = "\<lambda>e. bdx_reference (bounds_env e) h n outcomes"
  have b: "\<exists>q. ?ref e = Some (Inr q) \<and> bdx_min q = bdx_min p \<and> bdx_original_size q = bdx_original_size p"
    if "nbt_agrees (read_nbt e)" "consistent e" "bdx_read e h n outcomes = Some (Inr p)" for e p
  proof (cases "bounds_only e")
    case True
    then have "bounds_env e = e" by (simp add: bounds_env_def)
    then show ?thesis using read_reference_ok [OF that(2) out] that(3) by auto
  next
    case False
    have "bdx_reference e h n outcomes = Some (Inr p)" using read_reference_ok [OF that(2) out] that(3) by blast
    with reference_bounds [OF that(1) False] show ?thesis by blast
  qed
  obtain q q' where q: "?ref env = Some (Inr q)" "bdx_min q = bdx_min r" "bdx_original_size q = bdx_original_size r"
    "?ref env' = Some (Inr q')" "bdx_min q' = bdx_min r'" "bdx_original_size q' = bdx_original_size r'"
    using b [OF nbt(1) con(1) r(1)] b [of env' r'] nbt con(2) r(2) by auto
  have "?ref env = ?ref env'"
  proof -
    let ?d = "flat (decoded_input (decoded_limit (n - 3)) outcomes)"
    have "bdx_slow_loop (bounds_env env) (bdx_init d) = bdx_slow_loop (bounds_env env') (bdx_init d)"
      if "read_metadata ?d = Inr (a, d)" for a d
      by (rule slow_loop_flags) (use nbt reads_bytesD(4) [OF reads_metadata _ that] in \<open>simp_all add: bdx_init_def\<close>)
    then show ?thesis by (auto simp: bdx_reference_def read_with_def split: sum.split)
  qed
  with q show ?thesis by simp
qed


section \<open>Opened structures\<close>

definition raw_position :: "bdx_structure \<Rightarrow> block_pos \<Rightarrow> block_pos" where
  "raw_position S p =
    BlockPos (pos_x p - pos_x (struct_offset S) + pos_x (struct_min S))
      (pos_y p - pos_y (struct_offset S) + pos_y (struct_min S))
      (pos_z p - pos_z (struct_offset S) + pos_z (struct_min S))"

definition inside_box :: "bdx_structure \<Rightarrow> block_pos \<Rightarrow> bool" where
  "inside_box S q \<longleftrightarrow> inside_size (struct_original_size S)
    (BlockPos (pos_x q - pos_x (struct_min S)) (pos_y q - pos_y (struct_min S)) (pos_z q - pos_z (struct_min S)))"

lemma normalize_inside:
  "0 \<le> raw - mn \<Longrightarrow> raw - mn < dim \<Longrightarrow>
   normalize_placement_coordinate raw mn off dim = (if in_s32 (raw - mn + off) then Some (raw - mn + off) else None)"
  by (auto simp: normalize_placement_coordinate_def in_s32_def Let_def)

lemma local_position_iff:
  assumes "inside_box S q" "in_s32 (pos_x p)" "in_s32 (pos_y p)" "in_s32 (pos_z p)"
  shows "local_position S q = Some p \<longleftrightarrow> q = raw_position S p"
  using assms
  by (cases q; cases p)
    (auto simp: local_position_def inside_box_def inside_size_def normalize_inside raw_position_def split: if_splits)

lemma cells_ok_local: "cells_ok (local_placements S ws)"
proof -
  have "in_s32 (pos_x p) \<and> in_s32 (pos_y p) \<and> in_s32 (pos_z p)" if "(p, r) \<in> set (local_placements S ws)" for p r
    using local_placements_ok [OF that] local_position_ok by blast
  then show ?thesis by (auto simp: cells_ok_def)
qed

lemma local_placements_append: "local_placements S (ws @ vs) = local_placements S ws @ local_placements S vs"
  by (induction ws) (auto split: option.split)

lemma last_placed_local:
  assumes "\<And>q r. (q, r) \<in> set ws \<Longrightarrow> inside_box S q" "in_s32 (pos_x p)" "in_s32 (pos_y p)" "in_s32 (pos_z p)"
  shows "last_placed a (local_placements S ws) p = last_placed a ws (raw_position S p)"
proof -
  have "map_of (rev (local_placements S ws)) p = map_of (rev ws) (raw_position S p)"
    using assms(1)
  proof (induction ws rule: rev_induct)
    case (snoc w ws)
    obtain q r where w: "w = (q, r)" by (cases w)
    have "inside_box S q" using snoc.prems [of q r] by (simp add: w)
    note iff = local_position_iff [OF this assms(2-4)]
    have ih: "map_of (rev (local_placements S ws)) p = map_of (rev ws) (raw_position S p)"
      by (rule snoc.IH) (use snoc.prems in auto)
    show ?case using iff ih by (cases "local_position S q") (auto simp: w local_placements_append)
  qed simp
  then show ?thesis by (simp add: last_placed_def)
qed

lemma opened:
  assumes "open_structure env (h, n, outcomes) = Some (Inr S)"
  obtains r where "bdx_read env h n outcomes = Some (Inr r)"
    "S = loaded_structure (h, n, outcomes) r (new_structure env)"
  using assms by (auto simp: open_structure_def and_then_eq_Inr_iff)

lemma opened_simps [simp]:
  "struct_min (loaded_structure f r (new_structure env)) = bdx_min r"
  "struct_original_size (loaded_structure f r (new_structure env)) = bdx_original_size r"
  "struct_env (loaded_structure f r (new_structure env)) = env"
  "struct_source (loaded_structure f r (new_structure env)) = Some f"
  "blocks_loaded (loaded_structure f r (new_structure env)) = materialize env"
  "struct_min (structure_set_offset off S) = struct_min S"
  "struct_original_size (structure_set_offset off S) = struct_original_size S"
  "struct_env (structure_set_offset off S) = struct_env S"
  "struct_source (structure_set_offset off S) = struct_source S"
  "blocks_loaded (structure_set_offset off S) = blocks_loaded S"
  "struct_offset (structure_set_offset off S) = off"
  "struct_min (set_streaming_options b l S) = struct_min S"
  "struct_original_size (set_streaming_options b l S) = struct_original_size S"
  "struct_env (set_streaming_options b l S) = struct_env S"
  "struct_source (set_streaming_options b l S) = struct_source S"
  "blocks_loaded (set_streaming_options b l S) = blocks_loaded S"
  "struct_offset (set_streaming_options b l S) = struct_offset S"
  "allow_spool (set_streaming_options b l S) = b" "spool_limit (set_streaming_options b l S) = l"
  "\<not> spool_ready (set_streaming_options b l S)"
  by (simp_all add: loaded_structure_def new_structure_def structure_set_offset_def invalidate_placement_spool_def
      set_streaming_options_def Let_def)

lemma opened_inside:
  assumes "consistent env" "nbt_agrees (read_nbt env)" "outcomes_ok outcomes"
    and "open_structure env (h, n, outcomes) = Some (Inr S)"
    and log: "placement_log env (h, n, outcomes) = Some (Inr calls)" and q: "(q, rid) \<in> set (log_placements calls)"
  shows "inside_box S q"
proof -
  obtain r where r: "bdx_read env h n outcomes = Some (Inr r)"
    and S: "S = loaded_structure (h, n, outcomes) r (new_structure env)" using opened [OF assms(4)] .
  obtain r' where r': "bdx_read (streamed_env env) h n outcomes = Some (Inr r')"
    and i: "\<forall>(q, rid) \<in> set (log_placements calls). inside_size (bdx_original_size r')
      (BlockPos (pos_x q - pos_x (bdx_min r')) (pos_y q - pos_y (bdx_min r')) (pos_z q - pos_z (bdx_min r')))"
    using placement_log_inside(2) [OF assms(3) log] by blast
  have "bdx_min r = bdx_min r'" "bdx_original_size r = bdx_original_size r'"
    using same_box [OF assms(2) _ assms(1) _ assms(3) r r'] by simp_all
  then show ?thesis using i q by (auto simp: S inside_box_def)
qed



section \<open>The spool and the stream\<close>

lemma built_spool:
  assumes "struct_source S = Some (h, n, outcomes)" "placement_log (struct_env S) (h, n, outcomes) = Some (Inr calls)"
    and "allow_spool S" "\<not> spool_ready S"
    and "ensure_placement_spool disk S = Some (Inr (), S')"
  shows "\<exists>shards k. spool_calls disk S calls = Inr (shards, k) \<and>
    S' = S\<lparr>spool_shards := shards, spool_size := k, spool_error := None, spool_ready := True\<rparr>"
  using assms
  by (auto simp: ensure_placement_spool_def build_spool_def split: sum.splits)

lemma failed_spool:
  assumes "struct_source S = Some (h, n, outcomes)" "placement_log (struct_env S) (h, n, outcomes) = Some (Inr calls)"
    and "allow_spool S" "\<not> spool_ready S"
    and "ensure_placement_spool disk S = Some (Inl e, S')"
  shows "make_bdx_spool_directory disk = Inl e \<or> spool_calls disk S calls = Inl e"
  using assms
  by (auto simp: ensure_placement_spool_def build_spool_def split: sum.splits)

lemma set_spool_simps [simp]:
  "local_position (S\<lparr>spool_shards := a, spool_size := b, spool_error := c, spool_ready := d\<rparr>) = local_position S"
  "local_position (S\<lparr>allow_spool := f\<rparr>) = local_position S"
  by (simp_all add: local_position_def fun_eq_iff)

lemma set_spool_local [simp]:
  "local_placements (S\<lparr>spool_shards := a, spool_size := b, spool_error := c, spool_ready := d\<rparr>) = local_placements S"
  "local_placements (S\<lparr>allow_spool := f\<rparr>) = local_placements S"
  "records_ok (S\<lparr>spool_shards := a, spool_size := b, spool_error := c, spool_ready := d\<rparr>) = records_ok S"
  "answer (S\<lparr>spool_shards := a, spool_size := b, spool_error := c, spool_ready := d\<rparr>) = answer S"
  "answer (S\<lparr>allow_spool := f\<rparr>) = answer S"
  by (simp_all add: local_placements_def records_ok_def position_in_extent_def answer_def air_of_def fun_eq_iff)

text \<open>
  C6: the spool cannot be observed. The first request builds it; it fails only where the
  temporary directory or one of its files does, or where the placements do not fit the limit.
  When it succeeds, the spool counts 16 bytes for every placement inside the structure, within
  the limit, and the first request as well as every later one, for any columns, gets what a
  request without a spool gets from replaying the whole file.
\<close>

theorem spool_unobservable:
  fixes S :: bdx_structure
  defines "ws calls \<equiv> local_placements S (log_placements calls)"
  assumes "outcomes_ok outcomes" "struct_source S = Some (h, n, outcomes)"
    and "placement_log (struct_env S) (h, n, outcomes) = Some (Inr calls)"
    and "ids_fit (log_placements calls)" "length (log_placements calls) < 1152921504606846976"
    and "\<not> blocks_loaded S" "allow_spool S" "\<not> spool_ready S" and "\<forall>s. readable disk s"
  shows "\<exists>res S'. structure_get_chunks disk S wanted = Some (res, S') \<and>
    (case res of
       Inl e \<Rightarrow> (\<exists>k. fault disk k) \<or> \<not> is_ok (make_bdx_spool_directory disk) \<or>
         spool_limit S \<noteq> 0 \<and> spool_limit S < 16 * length (ws calls)
     | Inr m \<Rightarrow> temporary_spool_bytes S' = 16 * length (ws calls) \<and>
         (spool_limit S \<noteq> 0 \<longrightarrow> temporary_spool_bytes S' \<le> spool_limit S) \<and>
         structure_get_chunks disk (S\<lparr>allow_spool := False\<rparr>) wanted = Some (Inr m, S\<lparr>allow_spool := False\<rparr>) \<and>
         (\<forall>later. \<exists>m'. structure_get_chunks disk S' later = Some (Inr m', S') \<and>
            structure_get_chunks disk (S\<lparr>allow_spool := False\<rparr>) later = Some (Inr m', S\<lparr>allow_spool := False\<rparr>)))"
proof -
  let ?ws = "ws calls"
  have ok: "log_ok calls" by (rule placement_log_inside(1) [OF assms(2,4)])
  have rec: "records_ok S ?ws" unfolding ws_def by (rule local_records_ok [OF assms(5)])
  have small: "16 * length ?ws < 18446744073709551616"
    using local_placements_length [of S "log_placements calls"] assms(6) by (simp add: ws_def)
  note spool = spool_calls_ok [OF ok small [unfolded ws_def], of disk, folded ws_def]
  have stream: "structure_get_chunks disk (S\<lparr>allow_spool := False\<rparr>) later =
      Some (Inr (answer S ?ws later), S\<lparr>allow_spool := False\<rparr>)" for later
    using assms(3,4,7) streamed_chunks_eq [OF ok, of "S\<lparr>allow_spool := False\<rparr>" later]
    by (simp add: structure_get_chunks_def ws_def)
  have first: "structure_get_chunks disk S wanted =
      (case ensure_placement_spool disk S of
         None \<Rightarrow> None
       | Some (Inl e, S') \<Rightarrow> Some (Inl (SpoolFailed e), S')
       | Some (Inr _, S') \<Rightarrow> Some (spooled_chunks disk S' wanted, S'))"
    using assms(3,7,8) by (simp add: structure_get_chunks_def)
  have "\<exists>r S'. ensure_placement_spool disk S = Some (r, S')"
    using assms(3,4) by (auto simp: ensure_placement_spool_def build_spool_def split: sum.split)
  then obtain r S' where e: "ensure_placement_spool disk S = Some (r, S')" by blast
  show ?thesis
  proof (cases r)
    case (Inl err)
    then have "\<not> is_ok (make_bdx_spool_directory disk) \<or> (\<exists>k. fault disk k) \<or>
        spool_limit S \<noteq> 0 \<and> spool_limit S < 16 * length ?ws"
      using failed_spool [OF assms(3,4,8,9)] e spool by fastforce
    then show ?thesis unfolding first e Inl by auto
  next
    case (Inr u)
    obtain shards k where b: "spool_calls disk S calls = Inr (shards, k)"
      and S': "S' = S\<lparr>spool_shards := shards, spool_size := k, spool_error := None, spool_ready := True\<rparr>"
      using built_spool [OF assms(3,4,8,9), of disk S'] e Inr by auto
    have h: "spool_holds shards ?ws" "k = 16 * length ?ws" "spool_limit S \<noteq> 0 \<longrightarrow> k \<le> spool_limit S"
      using spool unfolding b by auto
    have later: "structure_get_chunks disk S' ps = Some (Inr (answer S ?ws ps), S')" for ps
      using ready_request [of S' "(h, n, outcomes)" ?ws disk ps] assms(3,7,8,10) h(1) rec by (simp add: S')
    have "spooled_chunks disk S' wanted = Inr (answer S ?ws wanted)"
      using spooled_chunks_eq [of S' ?ws disk wanted] h(1) rec assms(10) by (simp add: S')
    then show ?thesis
      unfolding first e Inr using stream later h(2,3) by (simp add: temporary_spool_bytes_def S')
  qed
qed


section \<open>Samples\<close>

definition reference_log :: "bdx_env \<Rightarrow> bdx_file \<Rightarrow> (bdx_error, consumer_call list) result option" where
  "reference_log env file =
    (case file of (h, n, outcomes) \<Rightarrow>
      if h \<noteq> [66, 68, 64] then Some (Inl BadFileHeader)
      else observed_with (bdx_slow_loop (streamed_env env))
        (flat (decoded_input (decoded_limit (n - 3)) outcomes)))"

lemma placement_log_reference:
  assumes "outcomes_ok outcomes" and "reference_log env (h, n, outcomes) = Some (Inr cs)"
  shows "\<exists>ds. placement_log env (h, n, outcomes) = Some (Inr ds) \<and> log_placements ds = log_placements cs"
proof -
  let ?env = "streamed_env env" and ?d = "decoded_input (decoded_limit (n - 3)) outcomes"
  note ok = decoded_input_ok(1) [of "decoded_limit (n - 3)" outcomes]
    decoded_input_ok(2) [OF assms(1), of "decoded_limit (n - 3)"]
  obtain a d t r where h: "h = [66, 68, 64]" and m: "read_metadata (flat ?d) = Inr (a, d)"
    and t: "bdx_slow_loop ?env (bdx_init d) = Some (Inr t)" and f: "finish_read a t = Inr r"
    and c: "cs = placement_calls t"
    using assms(2)
    by (auto simp: reference_log_def observed_with_def and_then_eq_Inr_iff split: if_splits sum.splits)
  obtain d' where m': "read_metadata ?d = Inr (a, d')" and d: "d = flat d'"
    using reads_bytesD(1) [OF reads_metadata ok(1)] m
    by (cases "read_metadata ?d") (auto simp: flat_result_def)
  have "bdx_init d = flat_state (bdx_init d')" by (simp add: d flat_state_def bdx_init_def)
  then obtain s where s: "bdx_loop ?env (bdx_init d') = Some (Inr s)"
    and n: "normalize_state ?env s = normalize_state ?env t"
    using bdx_loop_same_outcome [OF streamed_env_simps(1) [of env] loop_inv_init [OF m' ok]] t
    by (auto simp: same_outcome_def split: option.splits sum.splits)
  have "log_placements (placement_calls s) = log_placements cs"
    using arg_cong [OF n, of placement_calls] unfolding c
    by (intro log_placements_normal) (simp add: normalize_state_def)
  moreover have "finish_read a s = Inr r" using finish_read_normal [OF n] f by simp
  ultimately show ?thesis using h m' s by (auto simp: placement_log_def observed_with_def)
qed

definition access_env :: bdx_env where "access_env = sample_env\<lparr>materialize := False\<rparr>"

definition sample_file :: bdx_file where "sample_file = ([66, 68, 64], 20, sample_outcomes)"

definition good_disk :: spool_disk where
  "good_disk = \<lparr>root_found = True, root_created = True, claim_result = (\<lambda>_. Claimed), fault = (\<lambda>_. False),
     readable = (\<lambda>_. True)\<rparr>"

lemma access_env_simps [simp]:
  "bdx_registry access_env = sample_registry" "\<not> bounds_only access_env" "\<not> materialize access_env"
  "capture_entities access_env" "block_consumer access_env" "run_consumer access_env"
  "placement_consumer access_env" "placement_run_consumer access_env"
  "read_nbt access_env = sample_reader" "serialize access_env c = [10, 0, 0, 0]" "consistent access_env"
  "\<not> materialize (streamed_env access_env)" "\<not> capture_entities (streamed_env access_env)"
  "\<not> block_consumer (streamed_env access_env)" "placement_consumer (streamed_env access_env)"
  using sample_ok(1) by (simp_all add: access_env_def consistent_def streamed_env_def)

lemma sample_input:
  "flat (decoded_input (decoded_limit 17) sample_outcomes) =
    flat_input ([66, 68, 88, 0, 0, 32, 0, 1, 18] @ [5, 0, 0, 0, 1, 18, 5, 0, 0, 0, 1, 18, 5, 0, 0, 0, 1, 18, 5, 0, 0, 0, 1, 18, 17, 41, 0, 0, 0, 0, 0, 0, 10, 0, 0, 0, 88]) None"
  using decoded_limit_bounds(1) [of 17]
  by (simp add: decoded_input_def sample_outcomes_def flat_def flat_input_def input_bytes_def
      kMinimumDecodedLimit_def)

lemma sample_reference_log:
  "reference_log access_env sample_file =
    Some (Inr [SingleCall (BlockPos 0 0 0) 7, SingleCall (BlockPos 0 0 1) 1, SingleCall (BlockPos 0 0 2) 1,
      SingleCall (BlockPos 0 0 3) 1, SingleCall (BlockPos 0 0 4) 1, SingleCall (BlockPos 0 (-1) 5) 1])"
  by (simp add: sample_file_def reference_log_def observed_with_def sample_input run_simps bdx_slow_loop.simps
      finish_simps kMaximumMaterializedBlocks_def Let_def)

lemma access_reference:
  "bdx_reference access_env [66, 68, 64] 20 sample_outcomes =
    Some (Inr \<lparr>bdx_author = [], bdx_min = BlockPos 0 (-1) 0,
      bdx_original_size = \<lparr>width = 1, height = 2, len = 6\<rparr>,
      bdx_blocks = [], bdx_entities = [(BlockPos 0 0 5, [10, 0, 0, 0])], bdx_non_air = 1\<rparr>)"
  by (simp add: bdx_reference_def read_with_def sample_input run_simps bdx_slow_loop.simps finish_simps
      kMaximumMaterializedBlocks_def Let_def)


lemma sample_log:
  "\<exists>calls. placement_log access_env sample_file = Some (Inr calls) \<and>
    log_placements calls = [(BlockPos 0 0 0, 7), (BlockPos 0 0 1, 1), (BlockPos 0 0 2, 1), (BlockPos 0 0 3, 1),
      (BlockPos 0 0 4, 1), (BlockPos 0 (-1) 5, 1)]"
  using placement_log_reference [OF sample_ok(2)] sample_reference_log
  unfolding sample_file_def by (fastforce simp: log_placements_def call_placements_def)

definition sample_structure :: bdx_structure where
  "sample_structure =
    loaded_structure sample_file
      \<lparr>bdx_author = [], bdx_min = BlockPos 0 (-1) 0, bdx_original_size = \<lparr>width = 1, height = 2, len = 6\<rparr>,
       bdx_blocks = [], bdx_entities = [(BlockPos 0 0 5, [10, 0, 0, 0])], bdx_non_air = 1\<rparr>
      (new_structure access_env)"

lemma sample_opened: "open_structure access_env sample_file = Some (Inr sample_structure)"
  using read_reference_ok [OF access_env_simps(11) sample_ok(2), THEN iffD2, OF access_reference]
  by (simp add: open_structure_def sample_file_def sample_structure_def)


lemma spool_unobservable_witness:
  "\<exists>m S'. structure_get_chunks good_disk sample_structure [ChunkPos 0 0] = Some (Inr m, S') \<and>
    temporary_spool_bytes S' = 96 \<and>
    structure_get_chunks good_disk (sample_structure\<lparr>allow_spool := False\<rparr>) [ChunkPos 0 0] =
      Some (Inr m, sample_structure\<lparr>allow_spool := False\<rparr>)"
proof -
  obtain calls where c: "placement_log access_env sample_file = Some (Inr calls)"
    "log_placements calls = [(BlockPos 0 0 0, 7), (BlockPos 0 0 1, 1), (BlockPos 0 0 2, 1), (BlockPos 0 0 3, 1),
      (BlockPos 0 0 4, 1), (BlockPos 0 (-1) 5, 1)]" using sample_log by blast
  have s: "struct_source sample_structure = Some ([66, 68, 64], 20, sample_outcomes)"
    "struct_env sample_structure = access_env" "\<not> blocks_loaded sample_structure"
    by (simp_all add: sample_structure_def sample_file_def)
  have t: "allow_spool sample_structure" "\<not> spool_ready sample_structure" "spool_limit sample_structure = 0"
    "\<forall>s. readable good_disk s" "is_ok (make_bdx_spool_directory good_disk)" "\<not> fault good_disk k" for k
    by (simp_all add: sample_structure_def loaded_structure_def new_structure_def structure_set_offset_def
        invalidate_placement_spool_def good_disk_def make_bdx_spool_directory_def upt_conv_Cons)
  have f: "ids_fit (log_placements calls)" "length (log_placements calls) < 1152921504606846976"
    by (simp_all add: c(2) ids_fit_def)
  have "length (local_placements sample_structure (log_placements calls)) = 6"
    by (simp add: c(2) local_position_def normalize_inside sample_structure_def loaded_structure_def
        structure_set_offset_def invalidate_placement_spool_def Let_def in_s32_def range_simps)
  moreover note all = spool_unobservable [OF sample_ok(2) s(1) c(1) [folded s(2), unfolded sample_file_def] f s(3) t(1,2,4),
    of "[ChunkPos 0 0]"]
  ultimately show ?thesis using t(3,5,6) all by (elim exE conjE, split sum.split_asm) auto
qed

end
