(* ===== verification/WS_BdxSpoolLife.thy ===== *)
theory WS_BdxSpoolLife
  imports WS_Prelude "HOL-Library.Multiset"
begin

text \<open>
  The life of the placement spool under concurrent requests and invalidations (the members of
  \<open>BdxStructure\<close> under \<open>mPlacementSpoolMutex\<close>, \<open>src/formats/bdx.cpp\<close>). A thread is in
  \<open>get_chunks\<close> (waiting in or building in \<open>ensure_placement_spool\<close>, reading shards) or in
  \<open>invalidate_placement_spool\<close>, which \<open>cleanup_placement_spool\<close> repeats; a step is one critical
  section, with the predicate of the wait it starts with as its guard, or one action on the disk
  outside the lock. Directories are numbers; removing one is taken to succeed. The lemmas
  show that no thread reads from a removed directory, that there is one builder at a time and
  that no state is stuck; and that a late waiter can make the program lose a directory.
\<close>

section \<open>State and steps\<close>

datatype spool_pc = Outside | Entering | WaitingBuild | Building "nat option" | Cleaning "nat option"
  | Ensured | Reading nat | InvalidateCalled | Draining | Removing "nat option"

record spool_life =
  is_ready :: bool
  is_building :: bool
  is_invalidating :: bool
  reader_count :: nat
  error_set :: bool
  directory :: "nat option"
  on_disk :: "nat set"
  thread_pcs :: "spool_pc list"
  lost :: "nat list"

definition new_life :: "nat \<Rightarrow> spool_life" where
  "new_life n = \<lparr>is_ready = False, is_building = False, is_invalidating = False, reader_count = 0,
     error_set = False, directory = None, on_disk = {}, thread_pcs = replicate n Outside, lost = []\<rparr>"

definition at_pc :: "nat \<Rightarrow> spool_pc \<Rightarrow> spool_life \<Rightarrow> spool_life" where
  "at_pc i pc s = s\<lparr>thread_pcs := (thread_pcs s)[i := pc]\<rparr>"

text \<open>\<open>lost\<close> is a record of the directories that are overwritten while they are named.\<close>

definition overwrite_directory :: "nat option \<Rightarrow> spool_life \<Rightarrow> spool_life" where
  "overwrite_directory d s =
    s\<lparr>directory := d, lost := (case directory s of None \<Rightarrow> lost s | Some old \<Rightarrow> old # lost s)\<rparr>"

text \<open>\<open>ensure_placement_spool\<close>: the section after the first wait, the one after the second.\<close>

definition start_build :: "nat \<Rightarrow> spool_life \<Rightarrow> spool_life" where
  "start_build i s = at_pc i (Building None) (s\<lparr>is_building := True, error_set := False\<rparr>)"

definition enter_ensure :: "nat \<Rightarrow> spool_life \<Rightarrow> spool_life" where
  "enter_ensure i s =
    (if is_ready s then at_pc i Ensured s
     else if is_building s then at_pc i WaitingBuild s
     else start_build i s)"

definition wake_build :: "nat \<Rightarrow> spool_life \<Rightarrow> spool_life" where
  "wake_build i s =
    (if is_ready s then at_pc i Ensured s
     else if error_set s then at_pc i Outside s
     else start_build i s)"

definition publish_spool :: "nat \<Rightarrow> nat \<Rightarrow> spool_life \<Rightarrow> spool_life" where
  "publish_spool i d s =
    at_pc i Ensured ((overwrite_directory (Some d) s)\<lparr>error_set := False, is_building := False, is_ready := True\<rparr>)"

definition publish_failure :: "nat \<Rightarrow> nat option \<Rightarrow> bool \<Rightarrow> spool_life \<Rightarrow> spool_life" where
  "publish_failure i d recorded s =
    at_pc i (Cleaning d)
      ((overwrite_directory None s)\<lparr>is_building := False, is_ready := False, error_set := recorded\<rparr>)"

definition remove_directory :: "nat option \<Rightarrow> spool_life \<Rightarrow> spool_life" where
  "remove_directory d s = (case d of None \<Rightarrow> s | Some n \<Rightarrow> s\<lparr>on_disk := on_disk s - {n}\<rparr>)"

text \<open>\<open>get_chunks\<close>: taking the shards, and releasing them.\<close>

definition acquire_spool :: "nat \<Rightarrow> spool_life \<Rightarrow> spool_life" where
  "acquire_spool i s =
    (if is_invalidating s \<or> \<not> is_ready s then at_pc i Entering s
     else case directory s of
            None \<Rightarrow> at_pc i Outside s
          | Some d \<Rightarrow> at_pc i (Reading d) (s\<lparr>reader_count := reader_count s + 1\<rparr>))"

definition release_spool :: "nat \<Rightarrow> spool_life \<Rightarrow> spool_life" where
  "release_spool i s =
    at_pc i Outside (s\<lparr>reader_count := (if reader_count s \<noteq> 0 then reader_count s - 1 else 0)\<rparr>)"

text \<open>\<open>invalidate_placement_spool\<close>.\<close>

definition drain_wait :: "spool_life \<Rightarrow> bool" where
  "drain_wait s \<longleftrightarrow> \<not> is_building s \<and> reader_count s = 0"

definition drain_spool :: "nat \<Rightarrow> spool_life \<Rightarrow> spool_life" where
  "drain_spool i s = at_pc i (Removing (directory s)) (s\<lparr>is_ready := False, directory := None, error_set := False\<rparr>)"

definition start_invalidate :: "nat \<Rightarrow> spool_life \<Rightarrow> spool_life" where
  "start_invalidate i s =
    (let s1 = s\<lparr>is_invalidating := True, is_ready := False\<rparr>
     in if is_building s1 \<or> reader_count s1 \<noteq> 0 then at_pc i Draining s1 else drain_spool i s1)"

definition finish_invalidate :: "nat \<Rightarrow> nat option \<Rightarrow> spool_life \<Rightarrow> spool_life" where
  "finish_invalidate i d s = at_pc i Outside ((remove_directory d s)\<lparr>is_invalidating := False\<rparr>)"

definition in_pc :: "nat \<Rightarrow> spool_pc \<Rightarrow> spool_life \<Rightarrow> bool" where
  "in_pc i pc s \<longleftrightarrow> i < length (thread_pcs s) \<and> thread_pcs s ! i = pc"

text \<open>A directory is claimed exclusively: its name was not on the disk.\<close>

inductive life_call :: "spool_life \<Rightarrow> spool_life \<Rightarrow> bool" where
  call_chunks: "in_pc i Outside s \<Longrightarrow> life_call s (at_pc i Entering s)"
| call_invalidate: "in_pc i Outside s \<Longrightarrow> life_call s (at_pc i InvalidateCalled s)"

inductive life_work :: "spool_life \<Rightarrow> spool_life \<Rightarrow> bool" where
  enter: "in_pc i Entering s \<Longrightarrow> \<not> is_invalidating s \<Longrightarrow> life_work s (enter_ensure i s)"
| wake: "in_pc i WaitingBuild s \<Longrightarrow> \<not> is_building s \<or> is_ready s \<Longrightarrow> life_work s (wake_build i s)"
| claim: "in_pc i (Building None) s \<Longrightarrow> d \<notin> on_disk s \<Longrightarrow>
    life_work s (at_pc i (Building (Some d)) (s\<lparr>on_disk := insert d (on_disk s)\<rparr>))"
| built: "in_pc i (Building (Some d)) s \<Longrightarrow> life_work s (publish_spool i d s)"
| failed: "in_pc i (Building d) s \<Longrightarrow> life_work s (publish_failure i d recorded s)"
| clean: "in_pc i (Cleaning d) s \<Longrightarrow> life_work s (at_pc i Outside (remove_directory d s))"
| acquire: "in_pc i Ensured s \<Longrightarrow> life_work s (acquire_spool i s)"
| release: "in_pc i (Reading d) s \<Longrightarrow> life_work s (release_spool i s)"
| invalidate: "in_pc i InvalidateCalled s \<Longrightarrow> \<not> is_invalidating s \<Longrightarrow> life_work s (start_invalidate i s)"
| drain: "in_pc i Draining s \<Longrightarrow> drain_wait s \<Longrightarrow> life_work s (drain_spool i s)"
| remove: "in_pc i (Removing d) s \<Longrightarrow> life_work s (finish_invalidate i d s)"

definition life_step :: "spool_life \<Rightarrow> spool_life \<Rightarrow> bool" where
  "life_step s t \<longleftrightarrow> life_call s t \<or> life_work s t"

section \<open>The invariant\<close>

fun held :: "spool_pc \<Rightarrow> nat multiset" where
  "held (Building (Some d)) = {#d#}"
| "held (Cleaning (Some d)) = {#d#}"
| "held (Removing (Some d)) = {#d#}"
| "held _ = {#}"

definition of_opt :: "nat option \<Rightarrow> nat multiset" where
  "of_opt d = (case d of None \<Rightarrow> {#} | Some n \<Rightarrow> {#n#})"

fun builds :: "spool_pc \<Rightarrow> nat" where "builds (Building d) = 1" | "builds _ = 0"
fun reads :: "spool_pc \<Rightarrow> nat" where "reads (Reading d) = 1" | "reads _ = 0"
fun invalidates :: "spool_pc \<Rightarrow> nat" where
  "invalidates Draining = 1" | "invalidates (Removing d) = 1" | "invalidates _ = 0"

definition summed :: "(spool_pc \<Rightarrow> 'a::comm_monoid_add) \<Rightarrow> spool_life \<Rightarrow> 'a" where
  "summed f s = sum_list (map f (thread_pcs s))"

definition life_inv :: "spool_life \<Rightarrow> bool" where
  "life_inv s \<longleftrightarrow>
    summed builds s = of_bool (is_building s) \<and> summed reads s = reader_count s \<and>
    summed invalidates s = of_bool (is_invalidating s) \<and>
    finite (on_disk s) \<and> mset_set (on_disk s) = summed held s + of_opt (directory s) + mset (lost s) \<and>
    (\<forall>d. Reading d \<in> set (thread_pcs s) \<longrightarrow> directory s = Some d \<or> d \<in> set (lost s)) \<and>
    (is_ready s \<longrightarrow> directory s \<noteq> None)"

lemma summed_at_pc: "in_pc i pc s \<Longrightarrow> summed f (at_pc i pc' s) + f pc = summed f s + f pc'"
  using sum_list_update [of i "thread_pcs s" f pc'] by (simp add: in_pc_def summed_def at_pc_def)

lemma at_pc_simps [simp]:
  "is_ready (at_pc i pc s) = is_ready s" "is_building (at_pc i pc s) = is_building s"
  "is_invalidating (at_pc i pc s) = is_invalidating s" "reader_count (at_pc i pc s) = reader_count s"
  "error_set (at_pc i pc s) = error_set s" "directory (at_pc i pc s) = directory s"
  "on_disk (at_pc i pc s) = on_disk s" "lost (at_pc i pc s) = lost s"
  by (simp_all add: at_pc_def)

lemma reading_at_pc:
  "Reading d \<in> set (thread_pcs (at_pc i pc s)) \<Longrightarrow> pc = Reading d \<or> Reading d \<in> set (thread_pcs s)"
  using set_update_subset_insert [of "thread_pcs s" i pc] by (auto simp: at_pc_def)

lemma summed_pos: "in_pc i pc s \<Longrightarrow> f pc \<le> (summed f s :: nat)"
  unfolding in_pc_def summed_def by (intro member_le_sum_list) auto


lemma summed_fields [simp]:
  "summed f (s\<lparr>is_ready := a\<rparr>) = summed f s" "summed f (s\<lparr>is_building := a\<rparr>) = summed f s"
  "summed f (s\<lparr>is_invalidating := a\<rparr>) = summed f s" "summed f (s\<lparr>reader_count := n\<rparr>) = summed f s"
  "summed f (s\<lparr>error_set := a\<rparr>) = summed f s" "summed f (s\<lparr>directory := d\<rparr>) = summed f s"
  "summed f (s\<lparr>on_disk := D\<rparr>) = summed f s" "summed f (s\<lparr>lost := l\<rparr>) = summed f s"
  "summed f (overwrite_directory d s) = summed f s" "summed f (remove_directory d s) = summed f s"
  by (simp_all add: summed_def overwrite_directory_def remove_directory_def split: option.split)

lemma in_pc_fields [simp]:
  "in_pc i pc (s\<lparr>is_ready := a\<rparr>) = in_pc i pc s" "in_pc i pc (s\<lparr>is_building := a\<rparr>) = in_pc i pc s"
  "in_pc i pc (s\<lparr>is_invalidating := a\<rparr>) = in_pc i pc s" "in_pc i pc (s\<lparr>reader_count := n\<rparr>) = in_pc i pc s"
  "in_pc i pc (s\<lparr>error_set := a\<rparr>) = in_pc i pc s" "in_pc i pc (s\<lparr>directory := d\<rparr>) = in_pc i pc s"
  "in_pc i pc (s\<lparr>on_disk := D\<rparr>) = in_pc i pc s"
  "in_pc i pc (overwrite_directory d s) = in_pc i pc s" "in_pc i pc (remove_directory d s) = in_pc i pc s"
  by (simp_all add: in_pc_def overwrite_directory_def remove_directory_def split: option.split)

lemma overwrite_simps [simp]:
  "is_ready (overwrite_directory d s) = is_ready s" "is_building (overwrite_directory d s) = is_building s"
  "is_invalidating (overwrite_directory d s) = is_invalidating s"
  "reader_count (overwrite_directory d s) = reader_count s" "directory (overwrite_directory d s) = d"
  "on_disk (overwrite_directory d s) = on_disk s" "thread_pcs (overwrite_directory d s) = thread_pcs s"
  "mset (lost (overwrite_directory d s)) = of_opt (directory s) + mset (lost s)"
  by (simp_all add: overwrite_directory_def of_opt_def split: option.split)

lemma lost_overwrite [simp]:
  "d \<in> set (lost (overwrite_directory d' s)) \<longleftrightarrow> directory s = Some d \<or> d \<in> set (lost s)"
  by (auto simp: overwrite_directory_def split: option.split)

lemma remove_simps [simp]:
  "is_ready (remove_directory d s) = is_ready s" "is_building (remove_directory d s) = is_building s"
  "is_invalidating (remove_directory d s) = is_invalidating s"
  "reader_count (remove_directory d s) = reader_count s" "directory (remove_directory d s) = directory s"
  "thread_pcs (remove_directory d s) = thread_pcs s" "lost (remove_directory d s) = lost s"
  by (simp_all add: remove_directory_def split: option.split)

lemma reading_fields [simp]:
  "Reading d \<in> set (thread_pcs (at_pc i pc (s\<lparr>is_ready := a\<rparr>))) \<longleftrightarrow> Reading d \<in> set (thread_pcs (at_pc i pc s))"
  by (simp add: at_pc_def)

lemma held_le: "in_pc i pc s \<Longrightarrow> held pc \<subseteq># summed held s"
  using summed_at_pc [of i pc s held Outside] by (metis add.right_neutral held.simps(4) mset_subset_eq_add_right)

lemma no_reader: "summed reads s = 0 \<Longrightarrow> Reading d \<notin> set (thread_pcs s)"
  unfolding summed_def by (auto simp: sum_list_eq_0_iff)


lemma of_opt_simps [simp]: "of_opt None = {#}" "of_opt (Some d) = {#d#}"
  by (simp_all add: of_opt_def)

text \<open>
  A step of thread \<open>i\<close> that moves it from \<open>pc\<close> to \<open>pc'\<close> and changes the guarded members from
  those of \<open>s\<close> to those of \<open>u\<close> keeps the invariant when the counters of the two agree.
\<close>

lemma life_inv_move:
  assumes inv: "life_inv s" and pc: "in_pc i pc u" and th: "thread_pcs u = thread_pcs s"
    and b: "of_bool (is_building s) + builds pc' = of_bool (is_building u) + builds pc"
    and r: "reader_count s + reads pc' = reader_count u + reads pc"
    and v: "of_bool (is_invalidating s) + invalidates pc' = of_bool (is_invalidating u) + invalidates pc"
    and fin: "finite (on_disk u)"
    and d: "mset_set (on_disk u) + held pc + of_opt (directory s) + mset (lost s) =
      mset_set (on_disk s) + held pc' + of_opt (directory u) + mset (lost u)"
    and rd: "\<And>d. Reading d \<in> set (thread_pcs s) \<or> pc' = Reading d \<Longrightarrow> directory s = Some d \<or> d \<in> set (lost s) \<Longrightarrow>
      directory u = Some d \<or> d \<in> set (lost u)"
    and rd': "\<And>d. pc' = Reading d \<Longrightarrow> directory s = Some d"
    and rdy: "is_ready u \<Longrightarrow> directory u \<noteq> None"
  shows "life_inv (at_pc i pc' u)"
proof -
  have sm: "summed f u = summed f s" for f :: "spool_pc \<Rightarrow> 'a::comm_monoid_add" by (simp add: summed_def th)
  have sb: "summed f (at_pc i pc' u) + f pc = summed f s + f pc'" for f :: "spool_pc \<Rightarrow> nat"
    using summed_at_pc [OF pc, of f pc'] by (simp add: summed_def th)
  have sh: "summed held (at_pc i pc' u) + held pc = summed held s + held pc'"
    using summed_at_pc [OF pc, of held pc'] by (simp add: summed_def th)
  have "mset_set (on_disk u) + held pc + (of_opt (directory s) + mset (lost s)) =
      summed held (at_pc i pc' u) + held pc + (of_opt (directory u) + mset (lost u)) +
        (of_opt (directory s) + mset (lost s))"
    using d inv unfolding sh by (simp add: life_inv_def ac_simps)
  then have "mset_set (on_disk u) + held pc = summed held (at_pc i pc' u) + held pc + (of_opt (directory u) + mset (lost u))"
    by (simp add: ac_simps)
  then have "mset_set (on_disk u) = summed held (at_pc i pc' u) + of_opt (directory u) + mset (lost u)"
    by (simp add: ac_simps)
  moreover have "directory u = Some d \<or> d \<in> set (lost u)" if "Reading d \<in> set (thread_pcs (at_pc i pc' u))" for d
    using reading_at_pc [OF that] rd [of d] rd' [of d] inv by (auto simp: life_inv_def th)
  ultimately show ?thesis
    using inv b r v fin rdy sb [of builds] sb [of reads] sb [of invalidates]
    by (auto simp: life_inv_def)
qed


lemma pc_members:
  assumes "life_inv s" "in_pc i pc s"
  shows "builds pc = 1 \<Longrightarrow> is_building s" "reads pc = 1 \<Longrightarrow> reader_count s \<noteq> 0"
    "invalidates pc = 1 \<Longrightarrow> is_invalidating s" "reader_count s = 0 \<Longrightarrow> Reading d \<notin> set (thread_pcs s)"
proof -
  have "builds pc \<le> of_bool (is_building s)" "reads pc \<le> reader_count s" "invalidates pc \<le> of_bool (is_invalidating s)"
    using assms(1) summed_pos [OF assms(2), of builds] summed_pos [OF assms(2), of reads]
      summed_pos [OF assms(2), of invalidates] by (simp_all add: life_inv_def)
  then show "builds pc = 1 \<Longrightarrow> is_building s" "reads pc = 1 \<Longrightarrow> reader_count s \<noteq> 0"
    "invalidates pc = 1 \<Longrightarrow> is_invalidating s" by (cases "is_building s"; cases "is_invalidating s"; simp)+
  show "reader_count s = 0 \<Longrightarrow> Reading d \<notin> set (thread_pcs s)"
    using assms(1) no_reader [of s d] by (simp add: life_inv_def)
qed

lemma held_on_disk:
  assumes "life_inv s" "in_pc i pc s" "held pc = {#d#}"
  shows "d \<in> on_disk s"
proof -
  have "held pc \<subseteq># mset_set (on_disk s)"
    using held_le [OF assms(2)] assms(1) unfolding life_inv_def
    by (metis add.assoc mset_subset_eq_add_left subset_mset.order_trans)
  then have "d \<in># mset_set (on_disk s)" using assms(3) by simp
  moreover have "finite (on_disk s)" using assms(1) by (simp add: life_inv_def)
  ultimately show ?thesis using elem_mset_set [of "on_disk s" d] by simp
qed

lemma plain_move:
  assumes "life_inv s" "in_pc i pc s" "builds pc' = builds pc" "reads pc' = reads pc"
    "invalidates pc' = invalidates pc" "held pc' = held pc" "\<And>d. pc' \<noteq> Reading d"
  shows "life_inv (at_pc i pc' s)"
  by (rule life_inv_move [OF assms(1,2)]) (use assms in \<open>auto simp: life_inv_def\<close>)

lemma start_build_inv:
  assumes inv: "life_inv s" and pc: "in_pc i pc s" and p: "pc = Entering \<or> pc = WaitingBuild" and nb: "\<not> is_building s"
  shows "life_inv (start_build i s)"
  unfolding start_build_def
  by (rule life_inv_move [OF inv]) (use assms in \<open>auto simp: life_inv_def\<close>)

lemma publish_inv:
  assumes inv: "life_inv s" and pc: "in_pc i (Building (Some d)) s"
  shows "life_inv (publish_spool i d s)"
  unfolding publish_spool_def
  by (rule life_inv_move [OF inv, of _ "Building (Some d)"])
    (use pc_members(1) [OF inv pc] inv pc in \<open>simp_all add: life_inv_def ac_simps\<close>)

lemma failure_inv:
  assumes inv: "life_inv s" and pc: "in_pc i (Building d) s"
  shows "life_inv (publish_failure i d r s)"
proof -
  have h: "held (Building d) = held (Cleaning d)" by (cases d) simp_all
  show ?thesis unfolding publish_failure_def
  by (rule life_inv_move [OF inv, of _ "Building d"])
    (use pc_members(1) [OF inv pc] inv pc h in \<open>simp_all add: life_inv_def ac_simps\<close>)
qed

lemma on_disk_remove:
  assumes "life_inv s" "in_pc i pc s" "held pc = of_opt d"
  shows "mset_set (on_disk (remove_directory d s)) + of_opt d = mset_set (on_disk s)"
proof (cases d)
  case (Some n)
  then have "n \<in> on_disk s" using held_on_disk [OF assms(1,2)] assms(3) by simp
  moreover have "finite (on_disk s)" using assms(1) by (simp add: life_inv_def)
  ultimately show ?thesis
    using mset_set.remove [of "on_disk s" n] Some by (simp add: remove_directory_def)
qed (simp add: remove_directory_def)

lemma life_inv_step:
  assumes "life_step s t" and inv: "life_inv s"
  shows "life_inv t"
proof -
  have "life_inv t" if "life_call s t" using that
    by cases (simp_all add: plain_move [OF inv])
  moreover have "life_inv t" if "life_work s t" using that
  proof cases
    case (enter i)
    then show ?thesis using start_build_inv [OF inv] plain_move [OF inv enter(2)]
      by (auto simp: enter_ensure_def)
  next
    case (wake i)
    then show ?thesis using start_build_inv [OF inv] plain_move [OF inv wake(2)]
      by (auto simp: wake_build_def)
  next
    case (claim i d)
    show ?thesis unfolding claim(1)
      by (rule life_inv_move [OF inv, of _ "Building None"]) (use inv claim in \<open>auto simp: life_inv_def\<close>)
  next
    case (built i d)
    then show ?thesis using publish_inv [OF inv] by simp
  next
    case (failed i d r)
    then show ?thesis using failure_inv [OF inv] by simp
  next
    case (clean i d)
    have h: "held (Cleaning d) = of_opt d" by (cases d) simp_all
    show ?thesis unfolding clean(1)
      by (rule life_inv_move [OF inv, of _ "Cleaning d"])
        (use inv clean on_disk_remove [OF inv clean(2) h] in \<open>auto simp: life_inv_def h remove_directory_def ac_simps split: option.splits\<close>)
  next
    case (acquire i)
    show ?thesis
    proof (cases "is_invalidating s \<or> \<not> is_ready s")
      case True
      then show ?thesis using acquire plain_move [OF inv acquire(2)] by (simp add: acquire_spool_def)
    next
      case False
      then obtain d where "directory s = Some d" using inv by (auto simp: life_inv_def)
      then show ?thesis using False unfolding acquire(1) acquire_spool_def
        by simp (rule life_inv_move [OF inv, of _ Ensured], use inv acquire in \<open>auto simp: life_inv_def\<close>)
    qed
  next
    case (release i d)
    show ?thesis unfolding release(1) release_spool_def
      by (rule life_inv_move [OF inv, of _ "Reading d"])
        (use inv release pc_members(2) [OF inv release(2)] in \<open>auto simp: life_inv_def\<close>)
  next
    case (invalidate i)
    show ?thesis
    proof (cases "is_building s \<or> reader_count s \<noteq> 0")
      case True
      then show ?thesis unfolding invalidate(1) start_invalidate_def Let_def
        by simp (rule life_inv_move [OF inv, of _ InvalidateCalled], use inv invalidate in \<open>auto simp: life_inv_def\<close>)
    next
      case False
      have h: "held (Removing (directory s)) = of_opt (directory s)" by (cases "directory s") simp_all
      show ?thesis using False pc_members(4) [OF inv invalidate(2)]
        unfolding invalidate(1) start_invalidate_def Let_def drain_spool_def
        by simp (rule life_inv_move [OF inv, of _ InvalidateCalled],
            use inv invalidate in \<open>auto simp: life_inv_def h\<close>)
    qed
  next
    case (drain i)
    have h: "held (Removing (directory s)) = of_opt (directory s)" by (cases "directory s") simp_all
    show ?thesis using pc_members(4) [OF inv drain(2)] drain(3) unfolding drain(1) drain_spool_def drain_wait_def
      by (intro life_inv_move [OF inv, of _ Draining]) (use inv drain in \<open>auto simp: life_inv_def h\<close>)
  next
    case (remove i d)
    have h: "held (Removing d) = of_opt d" by (cases d) simp_all
    show ?thesis unfolding remove(1) finish_invalidate_def
      by (rule life_inv_move [OF inv, of _ "Removing d"])
        (use inv remove on_disk_remove [OF inv remove(2) h] pc_members(3) [OF inv remove(2)]
          in \<open>auto simp: life_inv_def h remove_directory_def ac_simps split: option.splits\<close>)
  qed
  ultimately show ?thesis using assms(1) by (auto simp: life_step_def)
qed


section \<open>Reachable states\<close>

lemma life_inv_init: "life_inv (new_life n)"
proof -
  have "sum_list (replicate n ({#} :: nat multiset)) = {#}" by (induction n) simp_all
  then show ?thesis by (simp add: life_inv_def new_life_def summed_def sum_list_replicate)
qed

lemma life_inv_reachable:
  assumes "life_step\<^sup>*\<^sup>* (new_life n) s"
  shows "life_inv s"
  using assms by (induction rule: rtranclp_induct) (use life_inv_init life_inv_step in blast)+

lemma reading_safe:
  assumes inv: "life_inv s" and r: "Reading d \<in> set (thread_pcs s)"
  shows "d \<in> on_disk s" "pc \<in> set (thread_pcs s) \<Longrightarrow> d \<notin># held pc"
proof -
  have m: "mset_set (on_disk s) = summed held s + of_opt (directory s) + mset (lost s)" and f: "finite (on_disk s)"
    using inv by (simp_all add: life_inv_def)
  have d: "d \<in># of_opt (directory s) + mset (lost s)" using inv r by (auto simp: life_inv_def)
  then have "d \<in># mset_set (on_disk s)" unfolding m by auto
  then show "d \<in> on_disk s" using f by simp
  show "d \<notin># held pc" if pc: "pc \<in> set (thread_pcs s)"
  proof
    assume "d \<in># held pc"
    obtain i where "in_pc i pc s" using pc by (auto simp: in_set_conv_nth in_pc_def)
    then have "d \<in># summed held s" using held_le \<open>d \<in># held pc\<close> by (meson mset_subset_eqD)
    then have "count (summed held s) d > 0" "count (of_opt (directory s) + mset (lost s)) d > 0"
      using d by (simp_all only: count_greater_zero_iff)
    moreover have "count (mset_set (on_disk s)) d =
        count (summed held s) d + count (of_opt (directory s) + mset (lost s)) d"
      unfolding m by (simp only: count_union add.assoc)
    ultimately have "count (mset_set (on_disk s)) d \<ge> 2" by linarith
    then show False using f by (simp add: count_mset_set' split: if_splits)
  qed
qed

lemma life_progress:
  assumes inv: "life_inv s" and pc: "pc \<in> set (thread_pcs s)" "pc \<noteq> Outside"
  shows "\<exists>t. life_work s t"
proof -
  have at: "\<exists>i. in_pc i p s" if "p \<in> set (thread_pcs s)" for p
    using that by (auto simp: in_set_conv_nth in_pc_def)
  show ?thesis
  proof (cases "\<exists>p \<in> set (thread_pcs s). \<exists>d. p = Building d \<or> p = Cleaning d \<or> p = Ensured \<or> p = Removing d \<or> (\<exists>n. p = Reading n)")
    case True
    then obtain p i where "in_pc i p s" "(\<exists>d. p = Building d \<or> p = Cleaning d \<or> p = Ensured \<or> p = Removing d) \<or> (\<exists>n. p = Reading n)"
      using at by blast
    then consider d where "in_pc i (Building d) s" | d where "in_pc i (Cleaning d) s" | "in_pc i Ensured s"
      | d where "in_pc i (Removing d) s" | n where "in_pc i (Reading n) s" by blast
    then show ?thesis
      by cases (rule exI, erule failed clean acquire remove release)+
  next
    case False
    have "builds p = 0 \<and> reads p = 0" if "p \<in> set (thread_pcs s)" for p
      using False that by (cases p) auto
    then have "summed builds s = 0" "summed reads s = 0" by (auto simp: summed_def sum_list_eq_0_iff)
    then have quiet: "\<not> is_building s" "reader_count s = 0"
      using inv by (simp_all add: life_inv_def)
    show ?thesis
    proof (cases "Draining \<in> set (thread_pcs s)")
      case True
      then obtain i where "in_pc i Draining s" using at by blast
      then show ?thesis using drain [of i s] quiet by (auto simp: drain_wait_def)
    next
      case nd: False
      have "invalidates p = 0" if "p \<in> set (thread_pcs s)" for p
        using False nd that by (cases p) auto
      then have "summed invalidates s = 0" by (auto simp: summed_def sum_list_eq_0_iff)
      then have "\<not> is_invalidating s" using inv by (simp add: life_inv_def)
      moreover obtain i where "in_pc i pc s" using at [OF pc(1)] ..
      ultimately consider "in_pc i Entering s" | "in_pc i WaitingBuild s" | "in_pc i InvalidateCalled s"
        using pc False nd by (cases pc) auto
      then show ?thesis using \<open>\<not> is_invalidating s\<close> quiet(1)
        by cases (rule exI, erule enter wake invalidate, simp)+
    qed
  qed
qed

text \<open>
  C20: whatever requests, offset changes and option changes run at the same time, a thread that
  reads shards reads from a directory that is on the disk and that nobody is about to remove;
  the spool has at most one builder and at most one invalidation past its wait; and as long as
  a call has not returned, some thread can move.
\<close>

theorem spool_life_safe:
  assumes "life_step\<^sup>*\<^sup>* (new_life n) s"
  shows "(\<forall>d. Reading d \<in> set (thread_pcs s) \<longrightarrow>
      d \<in> on_disk s \<and> (\<forall>pc \<in> set (thread_pcs s). pc \<noteq> Removing (Some d) \<and> pc \<noteq> Cleaning (Some d))) \<and>
    (\<Sum>pc\<leftarrow>thread_pcs s. builds pc) \<le> 1 \<and> (\<Sum>pc\<leftarrow>thread_pcs s. invalidates pc) \<le> 1 \<and>
    (set (thread_pcs s) \<subseteq> {Outside} \<or> (\<exists>t. life_work s t))"
proof -
  note inv = life_inv_reachable [OF assms]
  have "d \<in> on_disk s \<and> (\<forall>pc \<in> set (thread_pcs s). pc \<noteq> Removing (Some d) \<and> pc \<noteq> Cleaning (Some d))"
    if "Reading d \<in> set (thread_pcs s)" for d
    using reading_safe [OF inv that] by fastforce
  moreover have "(\<Sum>pc\<leftarrow>thread_pcs s. builds pc) \<le> 1" "(\<Sum>pc\<leftarrow>thread_pcs s. invalidates pc) \<le> 1"
    using inv by (simp_all add: life_inv_def summed_def)
  moreover have "set (thread_pcs s) \<subseteq> {Outside} \<or> (\<exists>t. life_work s t)"
    using life_progress [OF inv] by blast
  ultimately show ?thesis by blast
qed


section \<open>A directory that is lost\<close>

text \<open>
  Three threads. Thread 0 builds a spool that thread 1 waits for, publishes it and starts to
  read. Thread 2 invalidates: it takes back \<open>mPlacementSpoolReady\<close> and waits for the reader.
  Only now thread 1 looks again: it finds no builder, no spool and no error, and, as the second
  wait does not test \<open>mPlacementSpoolInvalidating\<close>, builds a spool of its own and overwrites
  the name of the first directory. The other steps are the ends of the calls and a second
  invalidation, the destructor's.
\<close>

definition leak_state ::
  "bool \<Rightarrow> bool \<Rightarrow> bool \<Rightarrow> nat \<Rightarrow> nat option \<Rightarrow> nat set \<Rightarrow> spool_pc list \<Rightarrow> nat list \<Rightarrow> spool_life" where
  "leak_state r b v n d D pcs l =
    \<lparr>is_ready = r, is_building = b, is_invalidating = v, reader_count = n, error_set = False,
     directory = d, on_disk = D, thread_pcs = pcs, lost = l\<rparr>"

lemmas life_defs = leak_state_def in_pc_def at_pc_def enter_ensure_def wake_build_def start_build_def
  publish_spool_def overwrite_directory_def remove_directory_def acquire_spool_def release_spool_def
  drain_wait_def drain_spool_def start_invalidate_def finish_invalidate_def

lemma life_works:
  "in_pc i Outside s \<Longrightarrow> t = at_pc i Entering s \<Longrightarrow> life_step s t"
  "in_pc i Outside s \<Longrightarrow> t = at_pc i InvalidateCalled s \<Longrightarrow> life_step s t"
  "in_pc i Entering s \<Longrightarrow> \<not> is_invalidating s \<Longrightarrow> t = enter_ensure i s \<Longrightarrow> life_step s t"
  "in_pc i WaitingBuild s \<Longrightarrow> \<not> is_building s \<or> is_ready s \<Longrightarrow> t = wake_build i s \<Longrightarrow> life_step s t"
  "in_pc i (Building None) s \<Longrightarrow> d \<notin> on_disk s \<Longrightarrow>
    t = at_pc i (Building (Some d)) (s\<lparr>on_disk := insert d (on_disk s)\<rparr>) \<Longrightarrow> life_step s t"
  "in_pc i (Building (Some d)) s \<Longrightarrow> t = publish_spool i d s \<Longrightarrow> life_step s t"
  "in_pc i Ensured s \<Longrightarrow> t = acquire_spool i s \<Longrightarrow> life_step s t"
  "in_pc i (Reading d) s \<Longrightarrow> t = release_spool i s \<Longrightarrow> life_step s t"
  "in_pc i InvalidateCalled s \<Longrightarrow> \<not> is_invalidating s \<Longrightarrow> t = start_invalidate i s \<Longrightarrow> life_step s t"
  "in_pc i Draining s \<Longrightarrow> drain_wait s \<Longrightarrow> t = drain_spool i s \<Longrightarrow> life_step s t"
  "in_pc i (Removing e) s \<Longrightarrow> t = finish_invalidate i e s \<Longrightarrow> life_step s t"
  unfolding life_step_def by (auto intro: life_call.intros life_work.intros)

lemma leak_first:
  "life_step\<^sup>*\<^sup>* (new_life 3) (leak_state True False False 1 (Some 0) {0} [Reading 0, WaitingBuild, Outside] [])"
proof -
  have n: "new_life 3 = leak_state False False False 0 None {} [Outside, Outside, Outside] []"
    by (simp add: new_life_def leak_state_def numeral_3_eq_3)
  have 1: "life_step (new_life 3) (leak_state False False False 0 None {} [Entering, Outside, Outside] [])"
    by (rule life_works(1) [of 0]) (simp_all add: n life_defs)
  have 2: "life_step (leak_state False False False 0 None {} [Entering, Outside, Outside] [])
      (leak_state False True False 0 None {} [Building None, Outside, Outside] [])"
    by (rule life_works(3) [of 0]) (simp_all add: life_defs)
  have 3: "life_step (leak_state False True False 0 None {} [Building None, Outside, Outside] [])
      (leak_state False True False 0 None {0} [Building (Some 0), Outside, Outside] [])"
    by (rule life_works(5) [of 0 _ 0]) (simp_all add: life_defs)
  have 4: "life_step (leak_state False True False 0 None {0} [Building (Some 0), Outside, Outside] [])
      (leak_state False True False 0 None {0} [Building (Some 0), Entering, Outside] [])"
    by (rule life_works(1) [of 1]) (simp_all add: life_defs)
  have 5: "life_step (leak_state False True False 0 None {0} [Building (Some 0), Entering, Outside] [])
      (leak_state False True False 0 None {0} [Building (Some 0), WaitingBuild, Outside] [])"
    by (rule life_works(3) [of 1]) (simp_all add: life_defs)
  have 6: "life_step (leak_state False True False 0 None {0} [Building (Some 0), WaitingBuild, Outside] [])
      (leak_state True False False 0 (Some 0) {0} [Ensured, WaitingBuild, Outside] [])"
    by (rule life_works(6) [of 0 0]) (simp_all add: life_defs)
  have 7: "life_step (leak_state True False False 0 (Some 0) {0} [Ensured, WaitingBuild, Outside] [])
      (leak_state True False False 1 (Some 0) {0} [Reading 0, WaitingBuild, Outside] [])"
    by (rule life_works(7) [of 0]) (simp_all add: life_defs)
  show ?thesis by (meson 1 2 3 4 5 6 7 rtranclp.intros)
qed

lemma leak_second:
  "life_step\<^sup>*\<^sup>* (leak_state True False False 1 (Some 0) {0} [Reading 0, WaitingBuild, Outside] [])
    (leak_state True False True 1 (Some 1) {0, 1} [Reading 0, Ensured, Draining] [0])"
proof -
  let ?s = leak_state
  have 1: "life_step (?s True False False 1 (Some 0) {0} [Reading 0, WaitingBuild, Outside] [])
      (?s True False False 1 (Some 0) {0} [Reading 0, WaitingBuild, InvalidateCalled] [])"
    by (rule life_works(2) [of 2]) (simp_all add: life_defs)
  have 2: "life_step (?s True False False 1 (Some 0) {0} [Reading 0, WaitingBuild, InvalidateCalled] [])
      (?s False False True 1 (Some 0) {0} [Reading 0, WaitingBuild, Draining] [])"
    by (rule life_works(9) [of 2]) (simp_all add: life_defs)
  have 3: "life_step (?s False False True 1 (Some 0) {0} [Reading 0, WaitingBuild, Draining] [])
      (?s False True True 1 (Some 0) {0} [Reading 0, Building None, Draining] [])"
    by (rule life_works(4) [of 1]) (simp_all add: life_defs)
  have 4: "life_step (?s False True True 1 (Some 0) {0} [Reading 0, Building None, Draining] [])
      (?s False True True 1 (Some 0) {0, 1} [Reading 0, Building (Some 1), Draining] [])"
    by (rule life_works(5) [of 1 _ 1]) (auto simp: life_defs)
  have 5: "life_step (?s False True True 1 (Some 0) {0, 1} [Reading 0, Building (Some 1), Draining] [])
      (?s True False True 1 (Some 1) {0, 1} [Reading 0, Ensured, Draining] [0])"
    by (rule life_works(6) [of 1 1]) (simp_all add: life_defs)
  show ?thesis by (meson 1 2 3 4 5 rtranclp.intros)
qed

lemma leak_third:
  "life_step\<^sup>*\<^sup>* (leak_state True False True 1 (Some 1) {0, 1} [Reading 0, Ensured, Draining] [0])
    (leak_state False False False 0 None {0} [Outside, Entering, Outside] [0])"
proof -
  let ?s = leak_state
  have 1: "life_step (?s True False True 1 (Some 1) {0, 1} [Reading 0, Ensured, Draining] [0])
      (?s True False True 1 (Some 1) {0, 1} [Reading 0, Entering, Draining] [0])"
    by (rule life_works(7) [of 1]) (simp_all add: life_defs)
  have 2: "life_step (?s True False True 1 (Some 1) {0, 1} [Reading 0, Entering, Draining] [0])
      (?s True False True 0 (Some 1) {0, 1} [Outside, Entering, Draining] [0])"
    by (rule life_works(8) [of 0 0]) (simp_all add: life_defs)
  have 3: "life_step (?s True False True 0 (Some 1) {0, 1} [Outside, Entering, Draining] [0])
      (?s False False True 0 None {0, 1} [Outside, Entering, Removing (Some 1)] [0])"
    by (rule life_works(10) [of 2]) (simp_all add: life_defs)
  have 4: "life_step (?s False False True 0 None {0, 1} [Outside, Entering, Removing (Some 1)] [0])
      (?s False False False 0 None {0} [Outside, Entering, Outside] [0])"
    by (rule life_works(11) [of 2 "Some 1"]) (auto simp: life_defs)
  show ?thesis by (meson 1 2 3 4 rtranclp.intros)
qed

lemma leak_fourth:
  "life_step\<^sup>*\<^sup>* (leak_state False False False 0 None {0} [Outside, Entering, Outside] [0])
    (leak_state False False False 0 None {0} [Outside, Outside, Outside] [0])"
proof -
  let ?s = leak_state
  have 1: "life_step (?s False False False 0 None {0} [Outside, Entering, Outside] [0])
      (?s False True False 0 None {0} [Outside, Building None, Outside] [0])"
    by (rule life_works(3) [of 1]) (simp_all add: life_defs)
  have 2: "life_step (?s False True False 0 None {0} [Outside, Building None, Outside] [0])
      (?s False True False 0 None {0, 2} [Outside, Building (Some 2), Outside] [0])"
    by (rule life_works(5) [of 1 _ 2]) (auto simp: life_defs)
  have 3: "life_step (?s False True False 0 None {0, 2} [Outside, Building (Some 2), Outside] [0])
      (?s True False False 0 (Some 2) {0, 2} [Outside, Ensured, Outside] [0])"
    by (rule life_works(6) [of 1 2]) (simp_all add: life_defs)
  have 4: "life_step (?s True False False 0 (Some 2) {0, 2} [Outside, Ensured, Outside] [0])
      (?s True False False 1 (Some 2) {0, 2} [Outside, Reading 2, Outside] [0])"
    by (rule life_works(7) [of 1]) (simp_all add: life_defs)
  have 5: "life_step (?s True False False 1 (Some 2) {0, 2} [Outside, Reading 2, Outside] [0])
      (?s True False False 0 (Some 2) {0, 2} [Outside, Outside, Outside] [0])"
    by (rule life_works(8) [of 1 2]) (simp_all add: life_defs)
  have 6: "life_step (?s True False False 0 (Some 2) {0, 2} [Outside, Outside, Outside] [0])
      (?s True False False 0 (Some 2) {0, 2} [Outside, Outside, InvalidateCalled] [0])"
    by (rule life_works(2) [of 2]) (simp_all add: life_defs)
  have 7: "life_step (?s True False False 0 (Some 2) {0, 2} [Outside, Outside, InvalidateCalled] [0])
      (?s False False True 0 None {0, 2} [Outside, Outside, Removing (Some 2)] [0])"
    by (rule life_works(9) [of 2]) (simp_all add: life_defs)
  have 8: "life_step (?s False False True 0 None {0, 2} [Outside, Outside, Removing (Some 2)] [0])
      (?s False False False 0 None {0} [Outside, Outside, Outside] [0])"
    by (rule life_works(11) [of 2 "Some 2"]) (auto simp: life_defs)
  show ?thesis by (meson 1 2 3 4 5 6 7 8 rtranclp.intros)
qed

text \<open>
  C21: the late waiter makes the program lose a directory: three threads that make one request
  each, or an invalidation, reach a state where every call has returned, an invalidation has
  cleaned up after the last request, the object names no directory, and a directory of it is
  still on the disk.
\<close>

theorem spool_directory_lost:
  "\<exists>s. life_step\<^sup>*\<^sup>* (new_life 3) s \<and> set (thread_pcs s) = {Outside} \<and> directory s = None \<and> on_disk s \<noteq> {}"
proof -
  have "life_step\<^sup>*\<^sup>* (new_life 3) (leak_state False False False 0 None {0} [Outside, Outside, Outside] [0])"
    using leak_first leak_second leak_third leak_fourth by (meson rtranclp_trans)
  then show ?thesis
    by (intro exI [of _ "leak_state False False False 0 None {0} [Outside, Outside, Outside] [0]"] conjI)
      (simp_all add: leak_state_def)
qed

text \<open>Without a lost directory nothing is left behind.\<close>

lemma nothing_left:
  assumes "life_inv s" "set (thread_pcs s) \<subseteq> {Outside}" "lost s = []"
  shows "on_disk s = set_mset (of_opt (directory s))"
proof -
  have "summed held s = {#}"
  proof -
    have "sum_list (map held pcs) = {#}" if "set pcs \<subseteq> {Outside}" for pcs
      using that by (induction pcs) simp_all
    then show ?thesis using assms(2) by (simp add: summed_def)
  qed
  then have "mset_set (on_disk s) = of_opt (directory s)" "finite (on_disk s)"
    using assms(1,3) by (simp_all add: life_inv_def)
  then show ?thesis by (metis finite_set_mset_mset_set)
qed

lemma spool_life_safe_witness:
  "0 \<in> on_disk (leak_state True False True 1 (Some 1) {0, 1} [Reading 0, Ensured, Draining] [0]) \<and>
    (\<exists>t. life_work (leak_state True False True 1 (Some 1) {0, 1} [Reading 0, Ensured, Draining] [0]) t)"
proof -
  have r: "life_step\<^sup>*\<^sup>* (new_life 3) (leak_state True False True 1 (Some 1) {0, 1} [Reading 0, Ensured, Draining] [0])"
    using leak_first leak_second by (meson rtranclp_trans)
  show ?thesis using spool_life_safe [OF r] by (simp add: leak_state_def)
qed

end
