(* ===== verification/WS_Nbt.thy ===== *)
theory WS_Nbt
  imports WS_Canonical
begin

unbundle bit_operations_syntax

text \<open>
  The binary NBT format as the readers and writers of the Minecraft formats use it: the
  stream primitives and tags of the bundled library (\<open>src/thirdparty/libnbt\<close>), and
  \<open>skip_payload\<close> of \<open>litematic.cpp\<close> and \<open>schematic.cpp\<close>, which consume a value without
  building it. An input is the list of the bytes that are left; a tag is a value of
  \<open>nbt\<close>, a compound the list of its entries in key order (the library keeps them in a
  \<open>std::map\<close>). The lemmas show that a value is read back as it was written, that skipping
  accepts the same bytes as reading, and that no loop runs out of the bound it is given.
\<close>

section \<open>Tags\<close>

datatype tag_type = TEnd | TByte | TShort | TInt | TLong | TFloat | TDouble | TByteArray
  | TString | TList | TCompound | TIntArray | TLongArray

datatype endian = Big | Little

datatype nbt = NByte "8 word" | NShort "16 word" | NInt "32 word" | NLong "64 word"
  | NFloat "32 word" | NDouble "64 word" | NByteArray "8 word list" | NString string
  | NList tag_type "nbt list" | NCompound "(string \<times> nbt) list"
  | NIntArray "32 word list" | NLongArray "64 word list"

datatype nbt_error = StreamEnd | InvalidTagType | TooDeep | NegativeLength | InvalidPayload
  | StringOver65535 | ArrayTooLarge | ListTypeMismatch | LoopExhausted

fun type_code :: "tag_type \<Rightarrow> byte" where
  "type_code TEnd = 0" | "type_code TByte = 1" | "type_code TShort = 2" | "type_code TInt = 3"
| "type_code TLong = 4" | "type_code TFloat = 5" | "type_code TDouble = 6"
| "type_code TByteArray = 7" | "type_code TString = 8" | "type_code TList = 9"
| "type_code TCompound = 10" | "type_code TIntArray = 11" | "type_code TLongArray = 12"

definition all_tag_types :: "tag_type list" where
  "all_tag_types = [TEnd, TByte, TShort, TInt, TLong, TFloat, TDouble, TByteArray, TString,
     TList, TCompound, TIntArray, TLongArray]"

definition type_of_code :: "byte \<Rightarrow> tag_type option" where
  "type_of_code b = (if unat b < 13 then Some (all_tag_types ! unat b) else None)"

fun nbt_type :: "nbt \<Rightarrow> tag_type" where
  "nbt_type (NByte _) = TByte" | "nbt_type (NShort _) = TShort" | "nbt_type (NInt _) = TInt"
| "nbt_type (NLong _) = TLong" | "nbt_type (NFloat _) = TFloat" | "nbt_type (NDouble _) = TDouble"
| "nbt_type (NByteArray _) = TByteArray" | "nbt_type (NString _) = TString"
| "nbt_type (NList _ _) = TList" | "nbt_type (NCompound _) = TCompound"
| "nbt_type (NIntArray _) = TIntArray" | "nbt_type (NLongArray _) = TLongArray"

lemma type_of_code_code [simp]: "type_of_code (type_code t) = Some t"
  by (cases t) (simp_all add: type_of_code_def all_tag_types_def)

lemma nbt_type_not_End [simp]: "nbt_type t \<noteq> TEnd" "TEnd \<noteq> nbt_type t"
  by (cases t; simp)+

section \<open>Reading from a stream\<close>

text \<open>
  \<open>endian::read\<close>: the value of a number is assembled from its bytes, the most significant
  first for \<open>endian::big\<close>.
\<close>

definition word_of_be :: "byte list \<Rightarrow> 'a::len word" where
  "word_of_be bs = fold (\<lambda>b v. push_bit 8 v OR ucast b) bs 0"

definition word_of_bytes :: "endian \<Rightarrow> byte list \<Rightarrow> 'a::len word" where
  "word_of_bytes e bs = (case e of Big \<Rightarrow> word_of_be bs | Little \<Rightarrow> word_of_be (rev bs))"

definition num_bytes :: "endian \<Rightarrow> 'a::len word \<Rightarrow> byte list" where
  "num_bytes e w = (case e of Big \<Rightarrow> be_word w | Little \<Rightarrow> le_word w)"

definition read_bytes :: "nat \<Rightarrow> byte list \<Rightarrow> (nbt_error, byte list \<times> byte list) result" where
  "read_bytes n bs = (if length bs < n then Inl StreamEnd else Inr (take n bs, drop n bs))"

definition read_num :: "endian \<Rightarrow> byte list \<Rightarrow> (nbt_error, 'a::len word \<times> byte list) result" where
  "read_num e bs =
    and_then (read_bytes (LENGTH('a) div 8) bs) (\<lambda>(b, rest). Inr (word_of_bytes e b, rest))"

definition read_type :: "bool \<Rightarrow> byte list \<Rightarrow> (nbt_error, tag_type \<times> byte list) result" where
  "read_type allow_end bs =
    (case bs of
       [] \<Rightarrow> Inl StreamEnd
     | b # rest \<Rightarrow>
         (case type_of_code b of
            None \<Rightarrow> Inl InvalidTagType
          | Some t \<Rightarrow> if t = TEnd \<and> \<not> allow_end then Inl InvalidTagType else Inr (t, rest)))"

definition read_string :: "endian \<Rightarrow> byte list \<Rightarrow> (nbt_error, string \<times> byte list) result" where
  "read_string e bs =
    and_then (read_num e bs) (\<lambda>(n :: 16 word, rest).
      and_then (read_bytes (unat n) rest) (\<lambda>(b, rest'). Inr (map char_of_byte b, rest')))"

definition read_length :: "endian \<Rightarrow> byte list \<Rightarrow> (nbt_error, nat \<times> byte list) result" where
  "read_length e bs =
    and_then (read_num e bs) (\<lambda>(n :: 32 word, rest).
      if sint n < 0 then Inl NegativeLength else Inr (unat n, rest))"

text \<open>
  The loop \<open>for (i = 0; i < length; ++i)\<close> over the elements of a list, and the loop of a
  compound, which reads a type, stops at \<open>TAG_End\<close>, reads a name and hands the value to
  the body of the loop. Each round of the latter consumes a byte, so the number of bytes
  bounds the rounds.
\<close>

primrec read_elems ::
  "nat \<Rightarrow> (byte list \<Rightarrow> ('e, 'a \<times> byte list) result) \<Rightarrow> byte list \<Rightarrow> ('e, 'a list \<times> byte list) result" where
  "read_elems 0 rd bs = Inr ([], bs)"
| "read_elems (Suc n) rd bs =
     and_then (rd bs) (\<lambda>(x, bs1). and_then (read_elems n rd bs1) (\<lambda>(xs, bs2). Inr (x # xs, bs2)))"

primrec fields_loop ::
  "nat \<Rightarrow> endian \<Rightarrow> (string \<Rightarrow> tag_type \<Rightarrow> 's \<Rightarrow> byte list \<Rightarrow> (nbt_error, 's \<times> byte list) result) \<Rightarrow>
   's \<Rightarrow> byte list \<Rightarrow> (nbt_error, 's \<times> byte list) result" where
  "fields_loop 0 e body s bs = Inl LoopExhausted"
| "fields_loop (Suc f) e body s bs =
     and_then (read_type True bs) (\<lambda>(ty, bs1).
       if ty = TEnd then Inr (s, bs1)
       else
         and_then (read_string e bs1) (\<lambda>(key, bs2).
           and_then (body key ty s bs2) (\<lambda>(s', bs3). fields_loop f e body s' bs3)))"

definition read_fields ::
  "endian \<Rightarrow> (string \<Rightarrow> tag_type \<Rightarrow> 's \<Rightarrow> byte list \<Rightarrow> (nbt_error, 's \<times> byte list) result) \<Rightarrow>
   's \<Rightarrow> byte list \<Rightarrow> (nbt_error, 's \<times> byte list) result" where
  "read_fields e body s bs = fields_loop (Suc (length bs)) e body s bs"

text \<open>
  \<open>read_payload\<close> of the tags. The library counts the open values and refuses more than
  \<open>MAX_DEPTH\<close>; the first argument is the number of levels that are left.
\<close>

definition MAX_DEPTH :: nat where "MAX_DEPTH = 1024"

primrec read_payload :: "nat \<Rightarrow> endian \<Rightarrow> tag_type \<Rightarrow> byte list \<Rightarrow> (nbt_error, nbt \<times> byte list) result" where
  "read_payload 0 e ty bs = Inl TooDeep"
| "read_payload (Suc r) e ty bs =
    (case ty of
       TByte \<Rightarrow> and_then (read_num e bs) (\<lambda>(v, rest). Inr (NByte v, rest))
     | TShort \<Rightarrow> and_then (read_num e bs) (\<lambda>(v, rest). Inr (NShort v, rest))
     | TInt \<Rightarrow> and_then (read_num e bs) (\<lambda>(v, rest). Inr (NInt v, rest))
     | TLong \<Rightarrow> and_then (read_num e bs) (\<lambda>(v, rest). Inr (NLong v, rest))
     | TFloat \<Rightarrow> and_then (read_num e bs) (\<lambda>(v, rest). Inr (NFloat v, rest))
     | TDouble \<Rightarrow> and_then (read_num e bs) (\<lambda>(v, rest). Inr (NDouble v, rest))
     | TByteArray \<Rightarrow> and_then (read_length e bs) (\<lambda>(n, bs1).
         and_then (read_bytes n bs1) (\<lambda>(b, rest). Inr (NByteArray b, rest)))
     | TString \<Rightarrow> and_then (read_string e bs) (\<lambda>(s, rest). Inr (NString s, rest))
     | TList \<Rightarrow> and_then (read_type True bs) (\<lambda>(el, bs1). and_then (read_length e bs1) (\<lambda>(n, bs2).
         if el = TEnd then Inr (NList TEnd [], bs2)
         else and_then (read_elems n (read_payload r e el) bs2) (\<lambda>(ts, rest). Inr (NList el ts, rest))))
     | TCompound \<Rightarrow>
         and_then (read_fields e (\<lambda>key ty' kvs bs'.
             and_then (read_payload r e ty' bs') (\<lambda>(t, rest). Inr (omap_emplace key t kvs, rest))) [] bs)
           (\<lambda>(kvs, rest). Inr (NCompound kvs, rest))
     | TIntArray \<Rightarrow> and_then (read_length e bs) (\<lambda>(n, bs1).
         and_then (read_elems n (read_num e) bs1) (\<lambda>(vs, rest). Inr (NIntArray vs, rest)))
     | TLongArray \<Rightarrow> and_then (read_length e bs) (\<lambda>(n, bs1).
         and_then (read_elems n (read_num e) bs1) (\<lambda>(vs, rest). Inr (NLongArray vs, rest)))
     | TEnd \<Rightarrow> Inl InvalidPayload)"

text \<open>
  \<open>skip_payload\<close>: the same grammar, without values. The one of \<open>litematic.cpp\<close> treats a
  list of \<open>TAG_End\<close> as empty, as the library does; the one of \<open>schematic.cpp\<close> does not
  (\<open>end_list_empty\<close> is false there).
\<close>

definition skip_bytes :: "nat \<Rightarrow> byte list \<Rightarrow> (nbt_error, unit \<times> byte list) result" where
  "skip_bytes n bs = and_then (read_bytes n bs) (\<lambda>(b, rest). Inr ((), rest))"

primrec skip_payload ::
  "nat \<Rightarrow> bool \<Rightarrow> endian \<Rightarrow> tag_type \<Rightarrow> byte list \<Rightarrow> (nbt_error, unit \<times> byte list) result" where
  "skip_payload 0 end_list_empty e ty bs = Inl TooDeep"
| "skip_payload (Suc r) end_list_empty e ty bs =
    (case ty of
       TByte \<Rightarrow> skip_bytes 1 bs
     | TShort \<Rightarrow> skip_bytes 2 bs
     | TInt \<Rightarrow> skip_bytes 4 bs
     | TLong \<Rightarrow> skip_bytes 8 bs
     | TFloat \<Rightarrow> skip_bytes 4 bs
     | TDouble \<Rightarrow> skip_bytes 8 bs
     | TByteArray \<Rightarrow> and_then (read_length e bs) (\<lambda>(n, bs1). skip_bytes n bs1)
     | TString \<Rightarrow> and_then (read_string e bs) (\<lambda>(s, rest). Inr ((), rest))
     | TList \<Rightarrow> and_then (read_type True bs) (\<lambda>(el, bs1). and_then (read_length e bs1) (\<lambda>(n, bs2).
         if el = TEnd \<and> end_list_empty then Inr ((), bs2)
         else and_then (read_elems n (skip_payload r end_list_empty e el) bs2) (\<lambda>(us, rest). Inr ((), rest))))
     | TCompound \<Rightarrow>
         read_fields e (\<lambda>key ty' u bs'. skip_payload r end_list_empty e ty' bs') () bs
     | TIntArray \<Rightarrow> and_then (read_length e bs) (\<lambda>(n, bs1). skip_bytes (n * 4) bs1)
     | TLongArray \<Rightarrow> and_then (read_length e bs) (\<lambda>(n, bs1). skip_bytes (n * 8) bs1)
     | TEnd \<Rightarrow> Inl InvalidPayload)"

section \<open>Writing to a stream\<close>

definition write_string :: "endian \<Rightarrow> string \<Rightarrow> (nbt_error, byte list) result" where
  "write_string e s =
    (if 65535 < length s then Inl StringOver65535
     else Inr (num_bytes e (word_of_nat (length s) :: 16 word) @ map byte_of s))"

definition write_length :: "endian \<Rightarrow> nat \<Rightarrow> (nbt_error, byte list) result" where
  "write_length e n =
    (if INT32_MAX < int n then Inl ArrayTooLarge
     else Inr (num_bytes e (word_of_nat n :: 32 word)))"

fun write_payload :: "endian \<Rightarrow> nbt \<Rightarrow> (nbt_error, byte list) result" where
  "write_payload e (NByte v) = Inr (num_bytes e v)"
| "write_payload e (NShort v) = Inr (num_bytes e v)"
| "write_payload e (NInt v) = Inr (num_bytes e v)"
| "write_payload e (NLong v) = Inr (num_bytes e v)"
| "write_payload e (NFloat v) = Inr (num_bytes e v)"
| "write_payload e (NDouble v) = Inr (num_bytes e v)"
| "write_payload e (NByteArray vs) = and_then (write_length e (length vs)) (\<lambda>n. Inr (n @ vs))"
| "write_payload e (NString s) = write_string e s"
| "write_payload e (NList el ts) =
     and_then (write_length e (length ts)) (\<lambda>n.
       and_then (append_each (\<lambda>t. if nbt_type t \<noteq> el then Inl ListTypeMismatch else write_payload e t) ts)
         (\<lambda>b. Inr (type_code el # n @ b)))"
| "write_payload e (NCompound kvs) =
     and_then (append_each (\<lambda>kv. and_then (write_string e (fst kv)) (\<lambda>k.
         and_then (write_payload e (snd kv)) (\<lambda>b. Inr (type_code (nbt_type (snd kv)) # k @ b)))) kvs)
       (\<lambda>b. Inr (b @ [type_code TEnd]))"
| "write_payload e (NIntArray vs) =
     and_then (write_length e (length vs)) (\<lambda>n. Inr (n @ concat (map (num_bytes e) vs)))"
| "write_payload e (NLongArray vs) =
     and_then (write_length e (length vs)) (\<lambda>n. Inr (n @ concat (map (num_bytes e) vs)))"

definition write_tag :: "endian \<Rightarrow> string \<Rightarrow> nbt \<Rightarrow> (nbt_error, byte list) result" where
  "write_tag e key t =
    and_then (write_string e key) (\<lambda>k. and_then (write_payload e t) (\<lambda>b.
      Inr (type_code (nbt_type t) # k @ b)))"

section \<open>Numbers, strings and lengths read back\<close>

lemma bit_word_of_be:
  "n < LENGTH('a) \<Longrightarrow> bit (word_of_be (rev xs) :: 'a::len word) n \<longleftrightarrow>
    n div 8 < length xs \<and> bit (xs ! (n div 8)) (n mod 8)"
proof (induction xs arbitrary: n)
  case Nil
  then show ?case by (simp add: word_of_be_def)
next
  case (Cons x xs)
  have step: "word_of_be (rev (x # xs)) = (push_bit 8 (word_of_be (rev xs)) OR ucast x :: 'a word)"
    by (simp add: word_of_be_def)
  show ?case
  proof (cases "n < 8")
    case True
    then show ?thesis using Cons.prems unfolding step by (simp add: bit_simps)
  next
    case False
    then obtain m where m: "n = m + 8" by (metis add.commute le_Suc_ex not_less)
    have "\<not> bit x n" using False bit_imp_le_length [of x n] by auto
    moreover have "(m + 8) div 8 = Suc (m div 8)" by simp
    ultimately show ?thesis using Cons.prems Cons.IH [of m] unfolding step m by (simp add: bit_simps)  qed
qed

lemma word_of_be_word:
  assumes "8 dvd LENGTH('a::len)"
  shows "word_of_be (be_word (w :: 'a word)) = w"
proof (rule bit_word_eqI)
  fix n assume n: "n < LENGTH('a)"
  then have "n div 8 < LENGTH('a) div 8" using assms by auto
  then show "bit (word_of_be (be_word w) :: 'a word) n = bit w n"
    using le_word_bit [OF n assms, of w] unfolding be_word_def bit_word_of_be [OF n] by simp
qed

lemma word_of_num_bytes [simp]:
  "8 dvd LENGTH('a::len) \<Longrightarrow> word_of_bytes e (num_bytes e (w :: 'a word)) = w"
  using word_of_be_word [of w]
  by (cases e) (simp_all add: word_of_bytes_def num_bytes_def be_word_def)

lemma length_num_bytes [simp]: "length (num_bytes e (w :: 'a::len word)) = LENGTH('a) div 8"
  by (cases e) (simp_all add: num_bytes_def)

named_theorems nbt_read \<open>what was written is read back\<close>

lemma read_bytes_append [nbt_read]: "length b = n \<Longrightarrow> read_bytes n (b @ rest) = Inr (b, rest)"
  by (simp add: read_bytes_def)

lemma read_num_written [nbt_read]:
  "8 dvd LENGTH('a::len) \<Longrightarrow> read_num e (num_bytes e (w :: 'a word) @ rest) = Inr (w, rest)"
  by (simp add: read_num_def read_bytes_append)

lemma read_type_written [nbt_read]: "read_type True (type_code t # rest) = Inr (t, rest)"
  by (simp add: read_type_def)

lemma read_string_written [nbt_read]:
  assumes "write_string e s = Inr b"
  shows "read_string e (b @ rest) = Inr (s, rest)"
proof -
  have s: "length s \<le> 65535" "b = num_bytes e (word_of_nat (length s) :: 16 word) @ map byte_of s"
    using assms by (auto simp: write_string_def split: if_splits)
  have "unat (word_of_nat (length s) :: 16 word) = length s"
    using s(1) by (simp add: unat_of_nat)
  then show ?thesis
    by (simp add: read_string_def s(2) read_num_written read_bytes_append o_def)
qed

lemma read_length_written [nbt_read]:
  assumes "write_length e n = Inr b"
  shows "read_length e (b @ rest) = Inr (n, rest)"
proof -
  have n: "int n \<le> 2147483647" "b = num_bytes e (word_of_nat n :: 32 word)"
    using assms by (auto simp: write_length_def INT32_MAX_def split: if_splits)
  have "sint (word_of_nat n :: 32 word) = int n"
    using n(1) by (simp add: signed_of_nat signed_take_bit_int_eq_self)
  moreover have "unat (word_of_nat n :: 32 word) = n"
    using n(1) by (simp add: unat_of_nat)
  ultimately show ?thesis by (simp add: read_length_def n(2) read_num_written)
qed

lemma read_length_int32:
  assumes "read_length e bs = Inr (n, rest)"
  shows "int n \<le> INT32_MAX"
proof -
  obtain w :: "32 word" where w: "\<not> sint w < 0" "n = unat w"
    using assms by (auto simp: read_length_def and_then_eq_Inr_iff split: if_splits)
  have "int n = sint w"
    using w sint_lt [of w] uint_sint [of w] by (simp add: take_bit_int_eq_self)
  then show ?thesis using sint_lt [of w] by (simp add: range_simps)
qed

lemma read_nums_written [nbt_read]:
  "8 dvd LENGTH('a::len) \<Longrightarrow>
    read_elems (length vs) (read_num e) (concat (map (num_bytes e) (vs :: 'a word list)) @ rest) = Inr (vs, rest)"
  by (induction vs) (simp_all add: read_num_written)

section \<open>Every read consumes\<close>

text \<open>What a reader leaves is never longer than what it was given.\<close>

definition shrinks :: "(byte list \<Rightarrow> ('e, 'a \<times> byte list) result) \<Rightarrow> bool" where
  "shrinks rd \<longleftrightarrow> (\<forall>bs x rest. rd bs = Inr (x, rest) \<longrightarrow> length rest \<le> length bs)"

lemma shrinksD: "shrinks rd \<Longrightarrow> rd bs = Inr (x, rest) \<Longrightarrow> length rest \<le> length bs"
  by (auto simp: shrinks_def)

lemma shrinks_bind:
  assumes "shrinks rd" and "\<And>x. shrinks (f x)"
  shows "shrinks (\<lambda>bs. and_then (rd bs) (\<lambda>(x, rest). f x rest))"
  using assms unfolding shrinks_def by (fastforce simp: and_then_eq_Inr_iff)

lemma shrinks_return [simp]: "shrinks (\<lambda>rest. Inr (x, rest))" "shrinks (\<lambda>rest. Inl e)"
  by (simp_all add: shrinks_def)

lemma shrinks_read_bytes [simp]: "shrinks (read_bytes n)"
  by (auto simp: shrinks_def read_bytes_def split: if_splits)

lemma shrinks_read_num [simp]: "shrinks (read_num e :: _ \<Rightarrow> (_, 'a::len word \<times> _) result)"
  unfolding read_num_def by (rule shrinks_bind) simp_all

lemma shrinks_read_string [simp]: "shrinks (read_string e)"
  unfolding read_string_def by (intro shrinks_bind) simp_all

lemma shrinks_read_length [simp]: "shrinks (read_length e)"
proof -
  have "shrinks (\<lambda>rest. if sint n < 0 then Inl NegativeLength else Inr (unat n, rest))" for n :: "32 word"
    by (cases "sint n < 0") simp_all
  then show ?thesis unfolding read_length_def by (intro shrinks_bind) simp_all
qed

lemma read_type_shrinks: "read_type a bs = Inr (t, rest) \<Longrightarrow> length rest < length bs"
  by (auto simp: read_type_def split: list.splits option.splits if_splits)

lemma shrinks_read_type [simp]: "shrinks (read_type a)"
  using read_type_shrinks by (fastforce simp: shrinks_def)

lemma shrinks_read_elems: "shrinks rd \<Longrightarrow> shrinks (read_elems n rd)"
proof (induction n)
  case (Suc n)
  then show ?case unfolding read_elems.simps by (intro shrinks_bind) simp_all
qed (simp add: shrinks_def)

lemma shrinks_fields_loop:
  assumes "\<And>key ty s. shrinks (body key ty s)"
  shows "shrinks (fields_loop f e body s)"
proof (induction f arbitrary: s)
  case (Suc f)
  show ?case unfolding fields_loop.simps
  proof (rule shrinks_bind)
    fix ty show "shrinks (\<lambda>bs1. if ty = TEnd then Inr (s, bs1)
       else and_then (read_string e bs1) (\<lambda>(key, bs2). and_then (body key ty s bs2)
         (\<lambda>(s', bs3). fields_loop f e body s' bs3)))"
      by (cases "ty = TEnd") (auto intro!: shrinks_bind assms Suc)
  qed simp
qed (simp add: shrinks_def)

lemma fields_loop_fuel:
  assumes body: "\<And>key ty s. shrinks (body key ty s)"
  shows "length bs < f \<Longrightarrow> length bs < g \<Longrightarrow> fields_loop f e body s bs = fields_loop g e body s bs"
proof (induction f arbitrary: g s bs)
  case (Suc f)
  then obtain g' where g: "g = Suc g'" by (cases g) auto
  show ?case unfolding g fields_loop.simps
  proof (rule and_then_cong [OF HOL.refl], clarify, rule if_cong [OF HOL.refl HOL.refl],
      rule and_then_cong [OF HOL.refl], clarify, rule and_then_cong [OF HOL.refl], clarify)
    fix ty bs1 key bs2 s' bs3
    assume r: "read_type True bs = Inr (ty, bs1)" "read_string e bs1 = Inr (key, bs2)"
      "body key ty s bs2 = Inr (s', bs3)"
    have "length bs3 < length bs"
      using read_type_shrinks [OF r(1)] shrinksD [OF shrinks_read_string r(2)] shrinksD [OF body r(3)] by simp
    then show "fields_loop f e body s' bs3 = fields_loop g' e body s' bs3"
      using Suc.prems g by (intro Suc.IH) auto
  qed
qed simp

lemma read_fields_eq:
  assumes body: "\<And>key ty s. shrinks (body key ty s)"
  shows "read_fields e body s bs =
     and_then (read_type True bs) (\<lambda>(ty, bs1).
       if ty = TEnd then Inr (s, bs1)
       else
         and_then (read_string e bs1) (\<lambda>(key, bs2).
           and_then (body key ty s bs2) (\<lambda>(s', bs3). read_fields e body s' bs3)))"
  unfolding read_fields_def
proof (subst fields_loop.simps, rule and_then_cong [OF HOL.refl], clarify, rule if_cong [OF HOL.refl HOL.refl],
      rule and_then_cong [OF HOL.refl], clarify, rule and_then_cong [OF HOL.refl], clarify)
    fix ty bs1 key bs2 s' bs3
    assume r: "read_type True bs = Inr (ty, bs1)" "read_string e bs1 = Inr (key, bs2)"
      "body key ty s bs2 = Inr (s', bs3)"
    have "length bs3 < length bs"
      using read_type_shrinks [OF r(1)] shrinksD [OF shrinks_read_string r(2)] shrinksD [OF body r(3)] by simp
    then show "fields_loop (length bs) e body s' bs3 = fields_loop (Suc (length bs3)) e body s' bs3"
      by (intro fields_loop_fuel body) auto
qed

lemma fields_loop_invariant:
  assumes "\<And>key ty s bs s' rest. P s \<Longrightarrow> body key ty s bs = Inr (s', rest) \<Longrightarrow> P s'"
  shows "fields_loop f e body s bs = Inr (s', rest) \<Longrightarrow> P s \<Longrightarrow> P s'"
proof (induction f arbitrary: s bs)
  case (Suc f)
  then show ?case using assms by (fastforce simp: and_then_eq_Inr_iff split: if_splits)
qed simp

lemma read_fields_invariant:
  assumes "read_fields e body s bs = Inr (s', rest)" and "P s"
    and "\<And>key ty s bs s' rest. P s \<Longrightarrow> body key ty s bs = Inr (s', rest) \<Longrightarrow> P s'"
  shows "P s'"
  by (rule fields_loop_invariant [where P = P and body = body, OF _ assms(1) [unfolded read_fields_def] assms(2)])
    (rule assms(3))

lemma shrinks_read_fields:
  assumes "\<And>key ty s. shrinks (body key ty s)"
  shows "shrinks (read_fields e body s)"
proof -
  have "shrinks (fields_loop f e body s)" for f by (rule shrinks_fields_loop) (rule assms)
  then show ?thesis unfolding shrinks_def read_fields_def by blast
qed

lemma shrinks_read_payload: "shrinks (read_payload r e ty)"
proof (induction r arbitrary: ty)
  case (Suc r)
  have list: "shrinks (\<lambda>bs2. if el = TEnd then Inr (NList TEnd [], bs2)
      else and_then (read_elems n (read_payload r e el) bs2) (\<lambda>(ts, rest). Inr (NList el ts, rest)))" for el n
    by (cases "el = TEnd") (auto intro!: shrinks_bind shrinks_read_elems Suc)
  show ?case
    unfolding read_payload.simps
    by (cases ty; simp only: tag_type.case)
      (intro shrinks_bind shrinks_return shrinks_read_num shrinks_read_bytes shrinks_read_string
        shrinks_read_length shrinks_read_type shrinks_read_elems shrinks_read_fields list Suc)+
qed (simp add: shrinks_def)

lemma shrinks_skip_bytes [simp]: "shrinks (skip_bytes n)"
  unfolding skip_bytes_def by (intro shrinks_bind) simp_all

lemma shrinks_skip_payload: "shrinks (skip_payload r q e ty)"
proof (induction r arbitrary: ty)
  case (Suc r)
  have list: "shrinks (\<lambda>bs2. if el = TEnd \<and> q then Inr ((), bs2)
      else and_then (read_elems n (skip_payload r q e el) bs2) (\<lambda>(us, rest). Inr ((), rest)))" for el n
    by (cases "el = TEnd \<and> q") (simp, simp only: if_False, intro shrinks_bind shrinks_read_elems Suc shrinks_return)
  show ?case
    unfolding skip_payload.simps
    by (cases ty; simp only: tag_type.case)
      (intro shrinks_bind shrinks_return shrinks_skip_bytes shrinks_read_string
        shrinks_read_length shrinks_read_type shrinks_read_elems shrinks_read_fields list Suc)+
qed (simp add: shrinks_def)

section \<open>Skipping accepts what reading accepts\<close>

definition forget :: "('e, 'a \<times> 'b) result \<Rightarrow> ('e, unit \<times> 'b) result" where
  "forget r = and_then r (\<lambda>(x, rest). Inr ((), rest))"

lemma forget_simps [simp]: "forget (Inl e) = Inl e" "forget (Inr (x, rest)) = Inr ((), rest)"
  by (simp_all add: forget_def)

lemma forget_and_then: "forget (and_then m f) = and_then m (\<lambda>a. forget (f a))"
  by (cases m) (simp_all add: forget_def)

lemma forget_bind: "(\<And>x rest. f x rest = Inr (g x, rest)) \<Longrightarrow>
    forget (and_then m (\<lambda>(x, rest). f x rest)) = forget m"
  by (cases m) auto

lemma skip_num: "skip_bytes (LENGTH('a::len) div 8) bs = forget (read_num e bs :: (_, 'a word \<times> _) result)"
  by (simp add: skip_bytes_def read_num_def read_bytes_def)

lemma skip_bytes_add: "skip_bytes (m + n) bs = and_then (skip_bytes m bs) (\<lambda>(u, rest). skip_bytes n rest)"
  by (auto simp: skip_bytes_def read_bytes_def add.commute)

lemma skip_nums:
  "skip_bytes (n * (LENGTH('a::len) div 8)) bs = forget (read_elems n (read_num e :: _ \<Rightarrow> (_, 'a word \<times> _) result) bs)"
proof (induction n arbitrary: bs)
  case 0
  then show ?case by (simp add: skip_bytes_def read_bytes_def)
next
  case (Suc n)
  show ?case
    unfolding mult_Suc skip_bytes_add skip_num [of bs e, where 'a = 'a] Suc
    by (cases "read_num e bs :: (_, 'a word \<times> _) result") (auto simp: forget_bind)
qed

lemma forget_read_elems:
  assumes "\<And>bs. f bs = forget (g bs)"
  shows "forget (read_elems n f bs) = forget (read_elems n g bs)"
proof (induction n arbitrary: bs)
  case (Suc n)
  show ?case using Suc
    by (cases "g bs") (auto simp: assms forget_bind)
qed simp

lemma forget_fields_loop:
  assumes "\<And>key ty s u bs. f key ty u bs = forget (g key ty s bs)"
  shows "fields_loop n e f u bs = forget (fields_loop n e g s bs)"
proof (induction n arbitrary: u s bs)
  case (Suc n)
  show ?case
    unfolding fields_loop.simps forget_and_then
  proof (rule and_then_cong [OF HOL.refl], simp only: split_paired_all prod.case)
    fix ty bs1
    show "(if ty = TEnd then Inr (u, bs1)
         else and_then (read_string e bs1) (\<lambda>(key, bs2).
           and_then (f key ty u bs2) (\<lambda>(s', bs3). fields_loop n e f s' bs3))) =
       forget (if ty = TEnd then Inr (s, bs1)
         else and_then (read_string e bs1) (\<lambda>(key, bs2).
           and_then (g key ty s bs2) (\<lambda>(s', bs3). fields_loop n e g s' bs3)))"
    proof (cases "ty = TEnd")
      case False
      have "and_then (f key ty u bs2) (\<lambda>(s', bs3). fields_loop n e f s' bs3) =
        forget (and_then (g key ty s bs2) (\<lambda>(s', bs3). fields_loop n e g s' bs3))" for key bs2
        using Suc unfolding assms [of key ty u bs2 s] by (cases "g key ty s bs2") auto
      with False show ?thesis by (simp add: forget_and_then split_def)
    qed simp
  qed
qed simp

lemma skip_payload_eq: "skip_payload r True e ty bs = forget (read_payload r e ty bs)"
proof (induction r arbitrary: ty bs)
  case (Suc r)
  have fields: "read_fields e (\<lambda>key ty' u bs'. skip_payload r True e ty' bs') () bs =
      forget (read_fields e (\<lambda>key ty' kvs bs'.
             and_then (read_payload r e ty' bs') (\<lambda>(t, rest). Inr (omap_emplace key t kvs, rest))) [] bs)"
    unfolding read_fields_def by (rule forget_fields_loop) (simp add: Suc forget_bind)
  have elems: "forget (read_elems n (skip_payload r True e el) bs2) = forget (read_elems n (read_payload r e el) bs2)"
    for n el bs2
    by (rule forget_read_elems) (rule Suc)
  have list: "(if el = TEnd \<and> True then Inr ((), bs2)
      else and_then (read_elems n (skip_payload r True e el) bs2) (\<lambda>(us, rest). Inr ((), rest))) =
    forget (if el = TEnd then Inr (NList TEnd [], bs2)
      else and_then (read_elems n (read_payload r e el) bs2) (\<lambda>(ts, rest). Inr (NList el ts, rest)))" for el n bs2
    using elems [of n el bs2] by (simp add: forget_bind forget_def [symmetric])
  show ?case
  proof (cases ty)
    case TByteArray
    then show ?thesis
      by (simp add: forget_def split_def skip_bytes_def and_then_assoc)
  next
    case TIntArray
    then show ?thesis
      using skip_nums [where 'a = 32 and e = e] by (simp add: forget_def split_def and_then_assoc)
  next
    case TLongArray
    then show ?thesis
      using skip_nums [where 'a = 64 and e = e] by (simp add: forget_def split_def and_then_assoc)
  next
    case TList
    show ?thesis unfolding TList read_payload.simps skip_payload.simps tag_type.case forget_and_then
      by (intro and_then_cong [OF HOL.refl]) (clarsimp simp: forget_and_then list [simplified] split_def)
  next
    case TCompound
    then show ?thesis using fields by (simp add: forget_bind)
  qed (simp_all add: forget_bind forget_def [symmetric] skip_num [where 'a = 8 and e = e, simplified]
      skip_num [where 'a = 16 and e = e, simplified] skip_num [where 'a = 32 and e = e, simplified]
      skip_num [where 'a = 64 and e = e, simplified])
qed simp

section \<open>A value is read back as it was written\<close>

text \<open>
  A value that fits in \<open>r\<close> levels and whose compounds are in key order, as a \<open>std::map\<close>
  keeps them.
\<close>

primrec fits :: "nat \<Rightarrow> nbt \<Rightarrow> bool" where
  "fits 0 t \<longleftrightarrow> False"
| "fits (Suc r) t \<longleftrightarrow>
    (case t of
       NList el ts \<Rightarrow> list_all (fits r) ts
     | NCompound kvs \<Rightarrow> omap_ok kvs \<and> list_all (\<lambda>kv. fits r (snd kv)) kvs
     | _ \<Rightarrow> True)"

definition write_fields :: "endian \<Rightarrow> (string \<times> nbt) list \<Rightarrow> (nbt_error, byte list) result" where
  "write_fields e kvs = append_each (\<lambda>kv. and_then (write_string e (fst kv)) (\<lambda>k.
     and_then (write_payload e (snd kv)) (\<lambda>b. Inr (type_code (nbt_type (snd kv)) # k @ b)))) kvs"

lemma write_compound: "write_payload e (NCompound kvs) = and_then (write_fields e kvs) (\<lambda>b. Inr (b @ [type_code TEnd]))"
  by (simp add: write_fields_def)

lemma read_elems_written:
  assumes "append_each f ts = Inr b"
    and "\<And>t b rest. t \<in> set ts \<Longrightarrow> f t = Inr b \<Longrightarrow> rd (b @ rest) = Inr (g t, rest)"
  shows "read_elems (length ts) rd (b @ rest) = Inr (map g ts, rest)"
  using assms
proof (induction ts arbitrary: b)
  case (Cons t ts)
  from Cons.prems(1) obtain x y where b: "f t = Inr x" "append_each f ts = Inr y" "b = x @ y"
    by (auto simp: and_then_eq_Inr_iff)
  have "read_elems (length ts) rd (y @ rest) = Inr (map g ts, rest)"
    by (rule Cons.IH [OF b(2)]) (simp add: Cons.prems(2))
  with Cons.prems(2) [of t x "y @ rest"] b show ?case by simp
qed simp

text \<open>
  The body of a compound loop meets the fields in their order when each of them is consumed
  exactly: the loop is the fold of what the body does with each field.
\<close>

lemma read_fields_written:
  assumes shr: "\<And>key ty s. shrinks (body key ty s)"
    and "write_fields e kvs = Inr b"
    and body: "\<And>k t s pay rest. (k, t) \<in> set kvs \<Longrightarrow> write_payload e t = Inr pay \<Longrightarrow>
        body k (nbt_type t) s (pay @ rest) = and_then (g (k, t) s) (\<lambda>s'. Inr (s', rest))"
  shows "read_fields e body s (b @ type_code TEnd # rest) =
    and_then (fold_result g kvs s) (\<lambda>s'. Inr (s', rest))"
  using assms(2) body
proof (induction kvs arbitrary: b s)
  case Nil
  then show ?case
    by (simp add: read_fields_eq [OF shr] write_fields_def read_type_written del: type_code.simps)
next
  case (Cons kv kvs)
  obtain k t where kv: "kv = (k, t)" by force
  from Cons.prems(1) obtain ks pay y where w: "write_string e k = Inr ks" "write_payload e t = Inr pay"
    "write_fields e kvs = Inr y" "b = type_code (nbt_type t) # ks @ pay @ y"
    by (auto simp: write_fields_def and_then_eq_Inr_iff kv)
  have IH: "read_fields e body s' (y @ type_code TEnd # rest) =
      and_then (fold_result g kvs s') (\<lambda>s'. Inr (s', rest))" for s'
    by (rule Cons.IH [OF w(3)]) (simp add: Cons.prems(2))
  show ?case
    using Cons.prems(2) [OF _ w(2), of k s "y @ type_code TEnd # rest"] read_string_written [OF w(1)]
    unfolding read_fields_eq [OF shr, where s = s] w(4)
    by (cases "g (k, t) s") (simp_all add: kv read_type_written IH del: type_code.simps)
qed

lemma read_fields_written_total:
  assumes "\<And>key ty s. shrinks (body key ty s)" "write_fields e kvs = Inr b"
    and "\<And>k t s pay rest. (k, t) \<in> set kvs \<Longrightarrow> write_payload e t = Inr pay \<Longrightarrow>
        body k (nbt_type t) s (pay @ rest) = Inr (g (k, t) s, rest)"
  shows "read_fields e body s (b @ type_code TEnd # rest) = Inr (fold g kvs s, rest)"
proof -
  have "read_fields e body s (b @ type_code TEnd # rest) =
      and_then (fold_result (\<lambda>kv s. Inr (g kv s)) kvs s) (\<lambda>s'. Inr (s', rest))"
    using assms by (intro read_fields_written) auto
  then show ?thesis by (simp add: fold_result_total)
qed

lemma read_fields_step:
  assumes shr: "\<And>key ty s. shrinks (body key ty s)"
    and w: "write_tag e k t = Inr b"
    and body: "\<And>pay. write_payload e t = Inr pay \<Longrightarrow> body k (nbt_type t) s (pay @ rest) = Inr (s', rest)"
  shows "read_fields e body s (b @ rest) = read_fields e body s' rest"
proof -
  obtain ks pay where "write_string e k = Inr ks" "write_payload e t = Inr pay" "b = type_code (nbt_type t) # ks @ pay"
    using w by (auto simp: write_tag_def and_then_eq_Inr_iff)
  then show ?thesis
    using body [of pay] read_string_written [of e k ks "pay @ rest"]
    by (subst read_fields_eq [OF shr]) (simp add: read_type_written del: type_code.simps)
qed

lemma omap_emplace_snoc:
  assumes "omap_ok (m @ (k, v) # m')"
  shows "omap_emplace k v m = m @ [(k, v)]"
proof -
  have less: "\<forall>kv \<in> set m. fst kv < k" using assms by (auto simp: omap_ok_def sorted_wrt_append)
  then have "omap_find m k = None" by (force simp: omap_find_def map_of_eq_None_iff)
  moreover have "omap_put k v m = m @ [(k, v)]" using less
    by (induction m) auto
  ultimately show ?thesis by (simp add: omap_emplace_def)
qed

lemma fold_emplace_sorted:
  "omap_ok (m @ kvs) \<Longrightarrow> fold (\<lambda>kv m. omap_emplace (fst kv) (snd kv) m) kvs m = m @ kvs"
proof (induction kvs arbitrary: m)
  case (Cons kv kvs)
  obtain k v where kv: "kv = (k, v)" by force
  with Cons show ?case using omap_emplace_snoc [of m k v kvs] Cons.IH [of "m @ [(k, v)]"] by simp
qed simp

lemma read_payload_written:
  "fits r t \<Longrightarrow> write_payload e t = Inr b \<Longrightarrow>
    read_payload r e (nbt_type t) (b @ rest) = Inr (t, rest)"
proof (induction r arbitrary: t b rest)
  case (Suc r)
  show ?case
  proof (cases t)
    case (NList el ts)
    from Suc.prems(2) obtain n y where w: "write_length e (length ts) = Inr n"
      "append_each (\<lambda>t. if nbt_type t \<noteq> el then Inl ListTypeMismatch else write_payload e t) ts = Inr y"
      "b = type_code el # n @ y"
      by (auto simp: NList and_then_eq_Inr_iff)
    have "read_elems (length ts) (read_payload r e el) (y @ rest) = Inr (map id ts, rest)"
    proof (rule read_elems_written [OF w(2)])
      fix t b rest
      assume "t \<in> set ts" "(if nbt_type t \<noteq> el then Inl ListTypeMismatch else write_payload e t) = Inr b"
      then show "read_payload r e el (b @ rest) = Inr (id t, rest)"
        using Suc.IH [of t b rest] Suc.prems(1) by (auto simp: NList list_all_iff split: if_splits)
    qed
    moreover have "el = TEnd \<Longrightarrow> ts = []"
      using w(2) by (cases ts) auto
    ultimately show ?thesis
      using w(1,3) by (auto simp: NList nbt_read simp del: type_code.simps)
  next
    case (NCompound kvs)
    from Suc.prems(2) obtain y where w: "write_fields e kvs = Inr y" "b = y @ [type_code TEnd]"
      unfolding NCompound write_compound by (auto simp: and_then_eq_Inr_iff)
    let ?body = "\<lambda>key ty' kvs bs'. and_then (read_payload r e ty' bs') (\<lambda>(t, rest). Inr (omap_emplace key t kvs, rest))"
    have "read_fields e ?body [] (y @ type_code TEnd # rest) =
        Inr (fold (\<lambda>kv m. omap_emplace (fst kv) (snd kv) m) kvs [], rest)"
    proof (rule read_fields_written_total [OF _ w(1)])
      show "shrinks (?body key ty s)" for key ty s
        by (intro shrinks_bind shrinks_read_payload shrinks_return)
      fix k t s pay rest
      assume "(k, t) \<in> set kvs" "write_payload e t = Inr pay"
      then show "?body k (nbt_type t) s (pay @ rest) = Inr (omap_emplace (fst (k, t)) (snd (k, t)) s, rest)"
        using Suc.IH [of t pay rest] Suc.prems(1) by (auto simp: NCompound list_all_iff)
    qed
    moreover have "omap_ok kvs" using Suc.prems(1) by (simp add: NCompound)
    ultimately show ?thesis
      using fold_emplace_sorted [of "[]" kvs] by (simp add: NCompound w(2))
  qed (use Suc.prems(2) in \<open>auto simp: and_then_eq_Inr_iff nbt_read split_def\<close>)
qed simp

section \<open>No loop runs out of its bound\<close>

definition loop_error :: "nat \<Rightarrow> nat \<Rightarrow> nbt_error \<Rightarrow> bool" where
  "loop_error n r x \<longleftrightarrow> x = LoopExhausted \<or> x = TooDeep \<and> n < r"

lemma primitives_no_loop_error:
  assumes "loop_error n r x"
  shows "read_bytes m bs \<noteq> Inl x" "read_num e bs \<noteq> Inl x" "read_type a bs \<noteq> Inl x"
    "read_string e bs \<noteq> Inl x" "read_length e bs \<noteq> Inl x" "skip_bytes m bs \<noteq> Inl x"
proof -
  show b: "read_bytes m bs \<noteq> Inl x" for m bs
    using assms by (auto simp: read_bytes_def loop_error_def)
  show n: "read_num e bs \<noteq> Inl x" for e bs
    using b by (auto simp: read_num_def and_then_eq_Inl_iff)
  show "read_type a bs \<noteq> Inl x"
    using assms by (auto simp: read_type_def loop_error_def split: list.splits option.splits)
  show "read_string e bs \<noteq> Inl x"
    using b n by (auto simp: read_string_def and_then_eq_Inl_iff)
  show "read_length e bs \<noteq> Inl x"
    using assms n by (auto simp: read_length_def and_then_eq_Inl_iff loop_error_def split: if_splits)
  show "skip_bytes m bs \<noteq> Inl x"
    using b by (auto simp: skip_bytes_def and_then_eq_Inl_iff)
qed

lemma read_elems_no_loop_error:
  assumes "\<And>bs'. length bs' \<le> length bs \<Longrightarrow> rd bs' \<noteq> Inl x" and "shrinks rd"
  shows "read_elems n rd bs \<noteq> Inl x"
  using assms(1)
proof (induction n arbitrary: bs)
  case (Suc n)
  show ?case
  proof
    assume "read_elems (Suc n) rd bs = Inl x"
    with Suc.prems [of bs] obtain a bs1 where r: "rd bs = Inr (a, bs1)" "read_elems n rd bs1 = Inl x"
      by (auto simp: and_then_eq_Inl_iff)
    from shrinksD [OF assms(2) r(1)] Suc.IH [of bs1] Suc.prems r(2) show False by auto
  qed
qed simp

lemma fields_loop_no_loop_error:
  assumes x: "loop_error m r x" and shr: "\<And>key ty s. shrinks (body key ty s)"
    and "\<And>key ty s bs'. length bs' < length bs \<Longrightarrow> body key ty s bs' \<noteq> Inl x"
    and "length bs < f"
  shows "fields_loop f e body s bs \<noteq> Inl x"
  using assms(3,4)
proof (induction f arbitrary: s bs)
  case (Suc f)
  show ?case
  proof
    assume "fields_loop (Suc f) e body s bs = Inl x"
    then obtain ty bs1 key bs2 where r: "read_type True bs = Inr (ty, bs1)" "read_string e bs1 = Inr (key, bs2)"
      and "body key ty s bs2 = Inl x \<or>
        (\<exists>s' bs3. body key ty s bs2 = Inr (s', bs3) \<and> fields_loop f e body s' bs3 = Inl x)"
      using primitives_no_loop_error [OF x] by (auto simp: and_then_eq_Inl_iff split: if_splits)
    moreover have less: "length bs2 < length bs"
      using read_type_shrinks [OF r(1)] shrinksD [OF shrinks_read_string r(2)] by simp
    ultimately obtain s' bs3 where s': "body key ty s bs2 = Inr (s', bs3)" "fields_loop f e body s' bs3 = Inl x"
      using Suc.prems(1) by blast
    have "length bs3 < length bs" using shrinksD [OF shr s'(1)] less by simp
    with s'(2) Suc.IH [of bs3 s'] Suc.prems show False by auto
  qed
qed simp

lemma skip_payload_no_loop_error:
  "loop_error (length bs) r x \<Longrightarrow> skip_payload r q e ty bs \<noteq> Inl x"
proof (induction r arbitrary: ty bs)
  case 0
  then show ?case by (auto simp: loop_error_def)
next
  case (Suc r)
  note prim = primitives_no_loop_error [OF Suc.prems]
  have rec: "length bs' < length bs \<Longrightarrow> skip_payload r q e ty' bs' \<noteq> Inl x" for ty' bs'
    using Suc.prems by (intro Suc.IH) (auto simp: loop_error_def)
  have fields: "read_fields e (\<lambda>key ty' u bs'. skip_payload r q e ty' bs') () bs \<noteq> Inl x"
    unfolding read_fields_def
    by (rule fields_loop_no_loop_error [OF Suc.prems]) (simp_all add: shrinks_skip_payload rec)
  have elems: "read_elems n (skip_payload r q e el) bs2 \<noteq> Inl x" if "length bs2 < length bs" for n el bs2
    using that by (intro read_elems_no_loop_error shrinks_skip_payload rec) simp
  have list: "read_type True bs = Inr (el, bs1) \<Longrightarrow> read_length e bs1 = Inr (n, bs2) \<Longrightarrow> length bs2 < length bs"
    for el bs1 n bs2
    using read_type_shrinks shrinksD [OF shrinks_read_length] by fastforce
  have nested: "skip_payload (Suc r) q e TList bs \<noteq> Inl x"
  proof
    assume "skip_payload (Suc r) q e TList bs = Inl x"
    then obtain el bs1 n bs2 where "read_type True bs = Inr (el, bs1)" "read_length e bs1 = Inr (n, bs2)"
      "read_elems n (skip_payload r q e el) bs2 = Inl x"
      using prim by (auto simp: and_then_eq_Inl_iff split: if_splits)
    with list elems show False by blast
  qed
  show ?case
  proof (cases ty)
    case TEnd
    then show ?thesis using Suc.prems by (auto simp: loop_error_def)
  qed (use prim fields nested in \<open>auto simp: and_then_eq_Inl_iff\<close>)
qed

lemma forget_eq_Inl [simp]: "forget r = Inl x \<longleftrightarrow> r = Inl x"
  by (cases r) auto

lemma read_payload_no_loop_error:
  "loop_error (length bs) r x \<Longrightarrow> read_payload r e ty bs \<noteq> Inl x"
  using skip_payload_no_loop_error [of bs r x True e ty] by (simp add: skip_payload_eq)

section \<open>Properties\<close>

text \<open>
  C18: A tag that fits the nesting limit is read back exactly as it was written, and what
  follows it in the stream is left untouched, in either byte order.
\<close>

theorem nbt_write_read:
  assumes "fits r t" and "write_payload e t = Inr b"
  shows "read_payload r e (nbt_type t) (b @ rest) = Inr (t, rest)"
  using assms by (rule read_payload_written)

definition sample_tag :: nbt where
  "sample_tag = NCompound [(''a'', NList TCompound [NCompound []]), (''b'', NLongArray [5]), (''c'', NString ''x'')]"

theorem nbt_write_read_witness:
  "fits 3 sample_tag \<and> \<not> fits 2 sample_tag \<and> (\<exists>b. write_payload Big sample_tag = Inr b \<and>
    read_payload 3 Big TCompound (b @ [7, 7]) = Inr (sample_tag, [7, 7]))"
proof -
  have f: "fits 3 sample_tag" and nf: "\<not> fits 2 sample_tag"
    by (simp_all add: sample_tag_def numeral_3_eq_3 numeral_2_eq_2 omap_ok_def)
  obtain b where b: "write_payload Big sample_tag = Inr b"
    by (simp add: sample_tag_def write_string_def write_length_def INT32_MAX_def)
  from nbt_write_read [OF f b, of "[7, 7]"] f nf b show ?thesis
    by (simp add: sample_tag_def)
qed

text \<open>
  C19: \<open>skip_payload\<close> of the Litematic reader accepts exactly the bytes the library's own
  reader accepts, consumes the same number of them and fails in the same way otherwise, so
  a value that is skipped is validated as if it had been decoded.
\<close>

theorem skip_agrees_with_read:
  "skip_payload r True e ty bs =
    (case read_payload r e ty bs of Inl x \<Rightarrow> Inl x | Inr (t, rest) \<Rightarrow> Inr ((), rest))"
  unfolding skip_payload_eq by (auto simp: forget_def split: sum.split)

text \<open>
  The loops over lists and compounds end: the bound given to the compound loop, one
  round per remaining byte, is never reached, and a reader without a depth limit needs no
  more levels than there are bytes left.
\<close>

theorem nbt_loops_end:
  "read_payload r e ty bs \<noteq> Inl LoopExhausted \<and> skip_payload r q e ty bs \<noteq> Inl LoopExhausted \<and>
    skip_payload (Suc (length bs)) q e ty bs \<noteq> Inl TooDeep"
  by (intro conjI read_payload_no_loop_error skip_payload_no_loop_error) (simp_all add: loop_error_def)

end
