(* ===== verification/WS_Dense.thy ===== *)
theory WS_Dense
  imports WS_Sparse
begin

text \<open>
  Structures that keep their blocks as one dense array: \<open>get_chunks_impl\<close> of
  \<open>litematic.cpp\<close> and \<open>schematic.cpp\<close> walks, for every requested chunk, the part of the
  box that falls into it, layer by layer and row by row, looks the block of each position up
  by its index \<open>(y * length + z) * width + x\<close> and writes what is not air. The lookup is the
  only difference between the two: it may leave a position out, and it may fail. The locale
  \<open>dense_source\<close> states what the loop needs of a structure and proves once that the chunks
  hold exactly the blocks of the grid.
\<close>

section \<open>The loop\<close>

definition dense_index :: "wsize \<Rightarrow> int \<Rightarrow> int \<Rightarrow> int \<Rightarrow> nat" where
  "dense_index sz x y z =
    (let layer_size = u64 (u64 (width sz) * u64 (len sz))
     in nat (u64 (u64 (u64 y * layer_size) + u64 (u64 z * u64 (width sz)) + u64 x)))"

definition dense_cell ::
  "runtime_id \<Rightarrow> bool \<Rightarrow> wsize \<Rightarrow> block_pos \<Rightarrow> (nat \<Rightarrow> ('e, runtime_id option) result) \<Rightarrow> chunk_pos \<Rightarrow>
   int \<Rightarrow> int \<Rightarrow> int \<Rightarrow> chunk_data \<Rightarrow> ('e, chunk_data) result" where
  "dense_cell air include_layer1 sz off look cp y z x chunk =
    (let chunk_min_x = chunk_x cp * 16;
         chunk_min_z = chunk_z cp * 16;
         structure_y = s32 (y + pos_y off);
         sub_y = floor_div (s32 (structure_y - 64)) 16;
         local_y = s32 (structure_y - s32 (s32 (sub_y * 16) + 64))
     in and_then (look (dense_index sz x y z)) (\<lambda>found.
          case found of
            None \<Rightarrow> Inr chunk
          | Some runtime_id \<Rightarrow>
              let local_x = s32 (x + pos_x off - chunk_min_x);
                  local_z = s32 (z + pos_z off - chunk_min_z)
              in Inr (put_cell air include_layer1 sub_y (layer_index local_x local_y local_z) runtime_id chunk)))"

definition dense_chunk ::
  "runtime_id \<Rightarrow> bool \<Rightarrow> wsize \<Rightarrow> block_pos \<Rightarrow> (nat \<Rightarrow> ('e, runtime_id option) result) \<Rightarrow> chunk_pos \<Rightarrow>
   chunk_data \<Rightarrow> ('e, chunk_data) result" where
  "dense_chunk air include_layer1 sz off look cp chunk =
    (let chunk_min_x = chunk_x cp * 16;
         chunk_min_z = chunk_z cp * 16;
         min_x = max 0 (chunk_min_x - pos_x off);
         max_x = min (width sz - 1) (chunk_min_x + 15 - pos_x off);
         min_z = max 0 (chunk_min_z - pos_z off);
         max_z = min (len sz - 1) (chunk_min_z + 15 - pos_z off)
     in if max_x < min_x \<or> max_z < min_z then Inr chunk
        else
          fold_result (\<lambda>y. fold_result (\<lambda>z. fold_result (\<lambda>x.
              dense_cell air include_layer1 sz off look cp y z x) [min_x..max_x]) [min_z..max_z])
            [0..height sz - 1] chunk)"

definition dense_chunks ::
  "runtime_id \<Rightarrow> bool \<Rightarrow> wsize \<Rightarrow> block_pos \<Rightarrow> (nat \<Rightarrow> ('e, runtime_id option) result) \<Rightarrow> chunk_pos list \<Rightarrow>
   ('e, chunk_map) result" where
  "dense_chunks air include_layer1 sz off look positions =
    fill_chunks (dense_chunk air include_layer1 sz off look) positions"

text \<open>\<open>set_offset\<close>, the same in both files: the size grows by the offset.\<close>

definition offset_size :: "wsize \<Rightarrow> block_pos \<Rightarrow> wsize" where
  "offset_size sz off =
    \<lparr>width = s32 (width sz + s32 \<bar>pos_x off\<bar>),
     height = s32 (height sz + s32 \<bar>pos_y off\<bar>),
     len = s32 (len sz + s32 \<bar>pos_z off\<bar>)\<rparr>"

section \<open>The loop as a walk over positions\<close>

definition dense_positions :: "wsize \<Rightarrow> block_pos \<Rightarrow> chunk_pos \<Rightarrow> block_pos list" where
  "dense_positions sz off cp =
    concat (map (\<lambda>y. concat (map (\<lambda>z. map (\<lambda>x. BlockPos x y z)
      [max 0 (chunk_x cp * 16 - pos_x off)..min (width sz - 1) (chunk_x cp * 16 + 15 - pos_x off)])
      [max 0 (chunk_z cp * 16 - pos_z off)..min (len sz - 1) (chunk_z cp * 16 + 15 - pos_z off)]))
      [0..height sz - 1])"

lemma set_dense_positions:
  "p \<in> set (dense_positions sz off cp) \<longleftrightarrow> \<not> outside sz p \<and> in_chunk off cp p"
proof -
  have "p \<in> set (dense_positions sz off cp) \<longleftrightarrow>
      max 0 (chunk_x cp * 16 - pos_x off) \<le> pos_x p \<and> pos_x p \<le> min (width sz - 1) (chunk_x cp * 16 + 15 - pos_x off) \<and>
      max 0 (chunk_z cp * 16 - pos_z off) \<le> pos_z p \<and> pos_z p \<le> min (len sz - 1) (chunk_z cp * 16 + 15 - pos_z off) \<and>
      0 \<le> pos_y p \<and> pos_y p \<le> height sz - 1"
  proof -
    have "p \<in> set (dense_positions sz off cp) \<longleftrightarrow> (\<exists>y \<in> {0..height sz - 1}.
        \<exists>z \<in> {max 0 (chunk_z cp * 16 - pos_z off)..min (len sz - 1) (chunk_z cp * 16 + 15 - pos_z off)}.
        \<exists>x \<in> {max 0 (chunk_x cp * 16 - pos_x off)..min (width sz - 1) (chunk_x cp * 16 + 15 - pos_x off)}.
        p = BlockPos x y z)"
      unfolding dense_positions_def set_concat set_map set_upto image_image UN_iff image_iff by blast
    then show ?thesis by (cases p) auto
  qed
  also have "\<dots> \<longleftrightarrow> \<not> outside sz p \<and> in_chunk off cp p"
    unfolding outside_def in_chunk_def div16_iff by auto
  finally show ?thesis .
qed

lemma dense_chunk_positions:
  "dense_chunk air il1 sz off look cp ch =
    fold_result (\<lambda>p. dense_cell air il1 sz off look cp (pos_y p) (pos_z p) (pos_x p)) (dense_positions sz off cp) ch"
proof -
  have nil: "fold_result f [] = Inr" for f :: "int \<Rightarrow> chunk_data \<Rightarrow> ('e, chunk_data) result"
    by (rule ext) simp
  have none: "fold_result (\<lambda>x. Inr) ys s = (Inr s :: ('e, chunk_data) result)" for ys :: "int list" and s
    by (induction ys arbitrary: s) simp_all
  have none': "fold_result (\<lambda>x. fold_result (\<lambda>x. Inr) ys) zs s = (Inr s :: ('e, chunk_data) result)"
    for ys zs :: "int list" and s
    by (induction zs arbitrary: s) (simp_all add: none)
  show ?thesis
    unfolding dense_chunk_def dense_positions_def Let_def fold_result_concat fold_result_map block_pos.sel
    by (auto simp: none none' nil split: if_splits)
qed

lemma dense_cell_eq:
  assumes ok: "shift_ok off p" and "in_chunk off cp p"
  shows "dense_cell air il1 sz off look cp (pos_y p) (pos_z p) (pos_x p) ch =
    and_then (look (dense_index sz (pos_x p) (pos_y p) (pos_z p))) (\<lambda>f. Inr (case f of
      None \<Rightarrow> ch | Some v \<Rightarrow> put_cell air il1 (fst (cell_of off p)) (snd (cell_of off p)) v ch))"
proof -
  let ?x = "pos_x p + pos_x off" and ?y = "pos_y p + pos_y off" and ?z = "pos_z p + pos_z off"
  have c: "chunk_x cp = ?x div 16" "chunk_z cp = ?z div 16" using assms(2) by (simp_all add: in_chunk_def)
  have r: "in_s32 ?x" "in_s32 ?y" "in_s32 (?y - 64)" "in_s32 ?z" using ok by (simp_all add: shift_ok_def)
  have m: "?x - ?x div 16 * 16 = ?x mod 16" "?z - ?z div 16 * 16 = ?z mod 16"
    by (simp_all add: minus_div_mult_eq_mod)
  show ?thesis
    unfolding dense_cell_def Let_def c s32_id [OF r(2)] s32_id [OF r(3)] floor_div16 [OF r(3)]
      sub_chunk_local_y [OF r(3,2)] m s32_id [OF s32_mod16]
    by (rule arg_cong [where f = "and_then _"]) (auto simp: cell_of_def world_cell_def split: option.split)
qed

definition dense_writes ::
  "block_pos \<Rightarrow> (block_pos \<Rightarrow> runtime_id option) \<Rightarrow> block_pos list \<Rightarrow> ((int \<times> nat) \<times> runtime_id) list" where
  "dense_writes off blk ps =
    concat (map (\<lambda>p. case blk p of None \<Rightarrow> [] | Some v \<Rightarrow> [(cell_of off p, v)]) ps)"

lemma dense_chunk_writes:
  assumes "\<And>p. p \<in> set (dense_positions sz off cp) \<Longrightarrow>
      shift_ok off p \<and> look (dense_index sz (pos_x p) (pos_y p) (pos_z p)) = Inr (blk p)"
  shows "dense_chunk air il1 sz off look cp ch =
    Inr (fold (\<lambda>(c, v). put_cell air il1 (fst c) (snd c) v) (dense_writes off blk (dense_positions sz off cp)) ch)"
proof -
  let ?g = "\<lambda>p ch. case blk p of None \<Rightarrow> ch | Some v \<Rightarrow> put_cell air il1 (fst (cell_of off p)) (snd (cell_of off p)) v ch"
  have "dense_chunk air il1 sz off look cp ch = Inr (fold ?g (dense_positions sz off cp) ch)"
    unfolding dense_chunk_positions
  proof (rule fold_result_total)
    fix p s
    assume p: "p \<in> set (dense_positions sz off cp)"
    then have "in_chunk off cp p" by (simp add: set_dense_positions)
    with assms [OF p] show "dense_cell air il1 sz off look cp (pos_y p) (pos_z p) (pos_x p) s = Inr (?g p s)"
      by (simp add: dense_cell_eq)
  qed
  also have "fold ?g ps ch = fold (\<lambda>(c, v). put_cell air il1 (fst c) (snd c) v) (dense_writes off blk ps) ch" for ps ch
    by (induction ps arbitrary: ch) (simp_all add: dense_writes_def split: option.split)
  finally show ?thesis .
qed

lemma dense_writes_iff:
  assumes "in_chunk off cp p" "\<And>q. q \<in> set ps \<Longrightarrow> in_chunk off cp q"
  shows "(cell_of off p, w) \<in> set (dense_writes off blk ps) \<longleftrightarrow> p \<in> set ps \<and> blk p = Some w"
proof -
  have "(cell_of off p, w) \<in> set (dense_writes off blk ps) \<longleftrightarrow>
      (\<exists>q \<in> set ps. blk q = Some w \<and> cell_of off p = cell_of off q)"
    unfolding dense_writes_def set_concat set_map image_image UN_iff
    by (rule bex_cong) (auto split: option.splits)
  also have "\<dots> \<longleftrightarrow> (\<exists>q \<in> set ps. blk q = Some w \<and> p = q)"
    using cell_of_eq_iff [OF assms(1)] assms(2) by auto
  finally show ?thesis by blast
qed

section \<open>The interface of a dense structure\<close>

locale dense_source =
  fixes dims :: "'s \<Rightarrow> wsize"
    and shift :: "'s \<Rightarrow> block_pos"
    and look :: "'s \<Rightarrow> nat \<Rightarrow> ('e, runtime_id option) result"
    and valid :: "'s \<Rightarrow> bool"
    and grid_block :: "'s \<Rightarrow> block_pos \<Rightarrow> runtime_id option"
  assumes shifts: "valid s \<Longrightarrow> \<not> outside (dims s) p \<Longrightarrow> shift_ok (shift s) p"
    and looks: "valid s \<Longrightarrow> \<not> outside (dims s) p \<Longrightarrow>
      look s (dense_index (dims s) (pos_x p) (pos_y p) (pos_z p)) = Inr (grid_block s p)"
begin

definition grid_at :: "runtime_id \<Rightarrow> 's \<Rightarrow> block_pos \<Rightarrow> runtime_id" where
  "grid_at air s p =
    (if outside (dims s) p then air else case grid_block s p of Some v \<Rightarrow> v | None \<Rightarrow> air)"

lemma chunk_cells:
  assumes v: "valid s" and p: "in_chunk (shift s) cp p"
  shows "\<exists>ch. dense_chunk air il1 (dims s) (shift s) (look s) cp empty_chunk = Inr ch \<and>
    get_cell air ch (cell_of (shift s) p) = grid_at air s p"
proof -
  let ?ps = "dense_positions (dims s) (shift s) cp"
  let ?ws = "dense_writes (shift s) (grid_block s) ?ps"
  let ?ch = "fold (\<lambda>(c, v). put_cell air il1 (fst c) (snd c) v) ?ws empty_chunk"
  have ch: "dense_chunk air il1 (dims s) (shift s) (look s) cp empty_chunk = Inr ?ch"
    by (rule dense_chunk_writes) (simp add: set_dense_positions shifts [OF v] looks [OF v])
  have ws: "(cell_of (shift s) p, w) \<in> set ?ws \<longleftrightarrow> \<not> outside (dims s) p \<and> grid_block s p = Some w" for w
    using dense_writes_iff [OF p, of ?ps w "grid_block s"] p by (auto simp: set_dense_positions)
  have "get_cell air ?ch (cell_of (shift s) p) =
      (if cell_of (shift s) p \<in> fst ` set ?ws then grid_at air s p else get_cell air empty_chunk (cell_of (shift s) p))"
    by (rule cells.rd_fold_wr_unique) (simp add: ws grid_at_def)
  moreover have "cell_of (shift s) p \<in> fst ` set ?ws \<longleftrightarrow> \<not> outside (dims s) p \<and> grid_block s p \<noteq> None"
  proof -
    have "cell_of (shift s) p \<in> fst ` set ?ws \<longleftrightarrow> (\<exists>w. (cell_of (shift s) p, w) \<in> set ?ws)" by force
    then show ?thesis by (auto simp: ws)
  qed
  ultimately show ?thesis using ch by (auto simp: grid_at_def)
qed

lemma chunks_refine:
  assumes v: "valid s"
  shows "\<exists>m. dense_chunks air il1 (dims s) (shift s) (look s) ps = Inr m \<and> fst ` set m = set ps \<and>
    (\<forall>x y z. world_pos_ok x y z \<and> ChunkPos (x div 16) (z div 16) \<in> set ps \<longrightarrow>
      block_at m air x y z =
        grid_at air s (BlockPos (x - pos_x (shift s)) (y - pos_y (shift s)) (z - pos_z (shift s))))"
proof -
  have "\<exists>ch. dense_chunk air il1 (dims s) (shift s) (look s) cp empty_chunk = Inr ch" for cp
    using chunk_cells [OF v, of cp "BlockPos (chunk_x cp * 16 - pos_x (shift s)) 0 (chunk_z cp * 16 - pos_z (shift s))"]
    by (auto simp: in_chunk_def)
  then obtain g where g: "\<And>cp. dense_chunk air il1 (dims s) (shift s) (look s) cp empty_chunk = Inr (g cp)" by metis
  obtain m where m: "dense_chunks air il1 (dims s) (shift s) (look s) ps = Inr m"
      "\<And>k. map_of m k = (if k \<in> set ps then Some (g k) else None)"
    unfolding dense_chunks_def using fill_chunks_eq [of ps _ g] g by blast
  have "fst ` set m = set ps"
    using m(2) by (auto simp: set_eq_iff dom_map_of_conv_image_fst [symmetric] domIff)
  moreover have "block_at m air x y z =
        grid_at air s (BlockPos (x - pos_x (shift s)) (y - pos_y (shift s)) (z - pos_z (shift s)))"
    if "world_pos_ok x y z" "ChunkPos (x div 16) (z div 16) \<in> set ps" for x y z
  proof -
    let ?cp = "ChunkPos (x div 16) (z div 16)"
    let ?p = "BlockPos (x - pos_x (shift s)) (y - pos_y (shift s)) (z - pos_z (shift s))"
    have "in_chunk (shift s) ?cp ?p" by (simp add: in_chunk_def)
    from chunk_cells [OF v this, of air il1] g [of ?cp]
    have "get_cell air (g ?cp) (world_cell x y z) = grid_at air s ?p" by (simp add: cell_of_def)
    then show ?thesis using that m(2) [of ?cp] by (simp add: block_at_eq world_pos_ok_def)
  qed
  ultimately show ?thesis using m(1) by blast
qed

end

text \<open>The index of a position in the array: a bijection onto \<open>[0, volume)\<close>.\<close>

definition grid_index :: "wsize \<Rightarrow> block_pos \<Rightarrow> int" where
  "grid_index sz p = (pos_y p * len sz + pos_z p) * width sz + pos_x p"

lemma grid_index_bounds:
  assumes "\<not> outside sz p"
  shows "0 \<le> grid_index sz p \<and> grid_index sz p < width sz * height sz * len sz"
proof -
  obtain x y z where p: "p = BlockPos x y z" by (cases p)
  have b: "0 \<le> x" "x < width sz" "0 \<le> y" "y < height sz" "0 \<le> z" "z < len sz"
    using assms by (auto simp: outside_def p)
  have "y * len sz + z + 1 \<le> height sz * len sz"
    using b mult_right_mono [of "y + 1" "height sz" "len sz"] by (simp add: algebra_simps)
  then have "(y * len sz + z + 1) * width sz \<le> height sz * len sz * width sz"
    using b by (intro mult_right_mono) auto
  moreover have "0 \<le> (y * len sz + z) * width sz" using b by simp
  ultimately show ?thesis using b by (simp add: grid_index_def p algebra_simps)
qed

lemma mod3: "(a mod m + b mod m + c) mod m = (a + b + c) mod (m::int)"
  by (metis mod_add_eq mod_add_left_eq)

lemma dense_index_eq:
  assumes out: "\<not> outside sz p" and vol: "width sz * height sz * len sz \<le> INT64_MAX"
  shows "dense_index sz (pos_x p) (pos_y p) (pos_z p) = nat (grid_index sz p)"
proof -
  obtain x y z where p: "p = BlockPos x y z" by (cases p)
  have e: "y * (width sz * len sz) + z * width sz + x = grid_index sz p"
    by (simp add: grid_index_def p algebra_simps)
  have "dense_index sz x y z = nat (u64 (y * (width sz * len sz) + z * width sz + x))"
    using mod3 [where a = "y * (width sz * len sz)" and b = "z * width sz" and c = x and m = 18446744073709551616]
    by (simp add: dense_index_def Let_def u64_def mod_simps)
  moreover have "u64 (grid_index sz p) = grid_index sz p"
    using grid_index_bounds [OF out] vol by (simp add: u64_def INT64_MAX_def)
  ultimately show ?thesis unfolding e by (simp add: p)
qed

text \<open>The positions of the box in the order of the index, as the writers visit them.\<close>

definition grid_positions :: "wsize \<Rightarrow> block_pos list" where
  "grid_positions sz =
    concat (map (\<lambda>y. concat (map (\<lambda>z. map (\<lambda>x. BlockPos x y z) [0..width sz - 1]) [0..len sz - 1]))
      [0..height sz - 1])"

lemma nth_concat_uniform:
  "\<lbrakk>\<forall>x \<in> set xs. length (g x) = n; i < length xs; j < n\<rbrakk> \<Longrightarrow>
    concat (map g xs) ! (i * n + j) = g (xs ! i) ! j"
proof (induction xs arbitrary: i)
  case (Cons x xs)
  then show ?case by (cases i) (simp_all add: nth_append)
qed simp

lemma length_concat_uniform: "\<forall>x \<in> set xs. length (g x) = n \<Longrightarrow> length (concat (map g xs)) = length xs * n"
  by (induction xs) simp_all

lemma length_grid_row: "length (map f [0..n - 1]) = nat n"
  by simp

lemma length_grid_layer:
  "length (concat (map (\<lambda>z. map (\<lambda>x. BlockPos x y z) [0..w - 1]) [0..l - 1])) = nat l * nat w"
  by (subst length_concat_uniform [where n = "nat w"]) simp_all

lemma length_grid_positions: "length (grid_positions sz) = nat (height sz) * (nat (len sz) * nat (width sz))"
  unfolding grid_positions_def
  by (subst length_concat_uniform [where n = "nat (len sz) * nat (width sz)"]) (simp_all only: length_grid_layer, simp_all)

lemma nth_grid_positions:
  assumes "\<not> outside sz p"
  shows "grid_positions sz ! nat (grid_index sz p) = p"
proof -
  obtain x y z where p: "p = BlockPos x y z" by (cases p)
  have b: "0 \<le> x" "x < width sz" "0 \<le> y" "y < height sz" "0 \<le> z" "z < len sz"
    using assms by (auto simp: outside_def p)
  have i: "nat (grid_index sz p) = nat y * (nat (len sz) * nat (width sz)) + (nat z * nat (width sz) + nat x)"
    using b by (simp add: grid_index_def p nat_add_distrib nat_mult_distrib algebra_simps)
  have "nat z * nat (width sz) + nat x < (nat z + 1) * nat (width sz)" using b by simp
  also have "\<dots> \<le> nat (len sz) * nat (width sz)" using b by (intro mult_right_mono) auto
  finally have zx: "nat z * nat (width sz) + nat x < nat (len sz) * nat (width sz)" .
  have "grid_positions sz ! nat (grid_index sz p) =
      concat (map (\<lambda>z. map (\<lambda>x. BlockPos x ([0..height sz - 1] ! nat y) z) [0..width sz - 1]) [0..len sz - 1]) !
        (nat z * nat (width sz) + nat x)"
    unfolding i grid_positions_def by (rule nth_concat_uniform) (use b zx length_grid_layer in auto)
  also have "\<dots> = map (\<lambda>x. BlockPos x ([0..height sz - 1] ! nat y) ([0..len sz - 1] ! nat z)) [0..width sz - 1] ! nat x"
    by (rule nth_concat_uniform) (use b in auto)
  also have "\<dots> = p" using b by (simp add: p)
  finally show ?thesis .
qed

lemma grid_positions_inside: "p \<in> set (grid_positions sz) \<longleftrightarrow> \<not> outside sz p"
  by (cases p) (auto simp: grid_positions_def outside_def image_iff)

lemma grid_index_length:
  assumes "\<not> outside sz p"
  shows "nat (grid_index sz p) < length (grid_positions sz)"
proof -
  have "0 < width sz" "0 < height sz" "0 < len sz" using assms by (auto simp: outside_def)
  then have "int (length (grid_positions sz)) = width sz * height sz * len sz"
    by (simp add: length_grid_positions)
  then show ?thesis using grid_index_bounds [OF assms] by linarith
qed

lemma set_box: "{p. \<not> outside sz p} = (\<lambda>(x, y, z). BlockPos x y z) ` ({0..<width sz} \<times> {0..<height sz} \<times> {0..<len sz})"
proof -
  have "p \<in> (\<lambda>(x, y, z). BlockPos x y z) ` ({0..<width sz} \<times> {0..<height sz} \<times> {0..<len sz}) \<longleftrightarrow> \<not> outside sz p" for p
    by (cases p) (auto simp: outside_def image_iff)
  then show ?thesis by blast
qed

lemma card_box: "card {p. \<not> outside sz p} = length (grid_positions sz)"
  unfolding set_box length_grid_positions
  by (subst card_image) (auto simp: inj_on_def card_cartesian_product)

lemma grid_index_image: "(\<lambda>p. nat (grid_index sz p)) ` {p. \<not> outside sz p} = {..<length (grid_positions sz)}"
proof (rule card_subset_eq)
  show "(\<lambda>p. nat (grid_index sz p)) ` {p. \<not> outside sz p} \<subseteq> {..<length (grid_positions sz)}"
    using grid_index_length by auto
  have "inj_on (\<lambda>p. nat (grid_index sz p)) {p. \<not> outside sz p}"
    by (rule inj_on_inverseI [where g = "\<lambda>i. grid_positions sz ! i"]) (simp add: nth_grid_positions)
  then show "card ((\<lambda>p. nat (grid_index sz p)) ` {p. \<not> outside sz p}) = card {..<length (grid_positions sz)}"
    by (simp add: card_image card_box)
qed simp

text \<open>A count over the array is a count over the positions of the box.\<close>

lemma count_grid:
  "length (filter P [0..<length (grid_positions sz)]) = card {p. \<not> outside sz p \<and> P (nat (grid_index sz p))}"
proof -
  have "length (filter P [0..<length (grid_positions sz)]) = card {i \<in> {..<length (grid_positions sz)}. P i}"
    by (simp add: length_filter_conv_card [where xs = "[0..<length (grid_positions sz)]"] cong: conj_cong)
  also have "{i \<in> {..<length (grid_positions sz)}. P i} =
      (\<lambda>p. nat (grid_index sz p)) ` {p. \<not> outside sz p \<and> P (nat (grid_index sz p))}"
    unfolding grid_index_image [symmetric] by blast
  also have "card \<dots> = card {p. \<not> outside sz p \<and> P (nat (grid_index sz p))}"
    by (intro card_image inj_on_inverseI [where g = "\<lambda>i. grid_positions sz ! i"]) (simp add: nth_grid_positions)
  finally show ?thesis .
qed

section \<open>What the writers share\<close>

text \<open>
  Both writers fetch every chunk of the structure in one request, column by column, after
  they have checked that the window fits the options. The sums are those of 64-bit unsigned
  integers.
\<close>

definition writer_positions :: "wsize \<Rightarrow> chunk_pos list" where
  "writer_positions sz =
    concat (map (\<lambda>x. map (\<lambda>z. ChunkPos x z) [0..chunk_z_count sz - 1]) [0..chunk_x_count sz - 1])"

definition writer_chunk_count :: "wsize \<Rightarrow> int" where
  "writer_chunk_count sz = u64 (u64 (chunk_x_count sz) * u64 (chunk_z_count sz))"

definition writer_chunk_bytes :: "wsize \<Rightarrow> int" where
  "writer_chunk_bytes sz =
    (let subs = u64 (s32 (height sz + 15) sdiv 16)
     in max 65536 (u64 (u64 (u64 (subs * 4096) * 4) + 8192)))"

lemma writer_positions_cover:
  assumes "size_in_range sz" and "\<not> outside sz (BlockPos x y z)"
  shows "ChunkPos (x div 16) (z div 16) \<in> set (writer_positions sz)"
proof -
  have c: "chunk_x_count sz = max 0 ((width sz + 15) div 16)" "chunk_z_count sz = max 0 ((len sz + 15) div 16)"
    using assms(1) by (simp_all add: size_in_range_def chunk_x_count_eq chunk_z_count_eq)
  have "0 \<le> x div 16 \<and> x div 16 \<le> (width sz + 15) div 16 - 1"
    "0 \<le> z div 16 \<and> z div 16 \<le> (len sz + 15) div 16 - 1"
    using assms(2) by (auto simp: outside_def)
  then show ?thesis unfolding writer_positions_def c by (auto simp: image_iff)
qed

end
