(* ===== verification/WS_Schematic.thy ===== *)
theory WS_Schematic
  imports WS_Nbt WS_Dense WS_Registry
begin

text \<open>
  The MCEdit format: \<open>SchematicStructure\<close> (\<open>src/formats/schematic.cpp\<close>) and
  \<open>write_schematic\<close> (\<open>schematic_writer.cpp\<close>). A file is the NBT stream inside the gzip
  container; the container itself is zlib's and not modelled. The reader scans the root
  compound once, keeps the first occurrence of each of its five fields and skips the rest,
  then resolves each pair of a legacy id and its data value that occurs in the file. A read
  that fails leaves an object which the callers drop, so a failure has no state here.

  \<open>mRuntimeCache\<close> and \<open>mRuntimeCacheState\<close>, two arrays over the 65,536 pairs, are one map:
  a pair not seen is absent, \<open>Some None\<close> is state 2 (no mapping), \<open>Some (Some r)\<close> state 1.
\<close>

section \<open>The reader\<close>

datatype schematic_error = BadRoot | ParseFailed nbt_error | SizeNotPositive | ArraysMissing
  | LengthMismatch | NoSchematicMapping | PairUnmapped nat nat

definition is_integer_type :: "tag_type \<Rightarrow> bool" where
  "is_integer_type ty \<longleftrightarrow> ty = TByte \<or> ty = TShort \<or> ty = TInt \<or> ty = TLong"

definition read_integer :: "tag_type \<Rightarrow> byte list \<Rightarrow> (nbt_error, int \<times> byte list) result" where
  "read_integer ty bs =
    (case ty of
       TByte \<Rightarrow> and_then (read_num Big bs) (\<lambda>(v :: 8 word, rest). Inr (sint v, rest))
     | TShort \<Rightarrow> and_then (read_num Big bs) (\<lambda>(v :: 16 word, rest). Inr (sint v, rest))
     | TInt \<Rightarrow> and_then (read_num Big bs) (\<lambda>(v :: 32 word, rest). Inr (sint v, rest))
     | TLong \<Rightarrow> and_then (read_num Big bs) (\<lambda>(v :: 64 word, rest). Inr (s32 (sint v), rest))
     | _ \<Rightarrow> Inl InvalidPayload)"

definition read_byte_array :: "byte list \<Rightarrow> (nbt_error, byte list \<times> byte list) result" where
  "read_byte_array bs = and_then (read_length Big bs) (\<lambda>(n, rest). read_bytes n rest)"

text \<open>A value the reader does not want; there is no limit on the nesting here.\<close>

definition schematic_skip :: "tag_type \<Rightarrow> byte list \<Rightarrow> (nbt_error, unit \<times> byte list) result" where
  "schematic_skip ty bs = skip_payload (Suc (length bs)) False Big ty bs"

record schematic_scan =
  scan_size :: wsize
  scan_blocks :: "byte list"
  scan_data :: "byte list"
  saw_width :: bool
  saw_height :: bool
  saw_length :: bool
  saw_blocks :: bool
  saw_data :: bool
  has_blocks :: bool
  has_data :: bool

definition empty_scan :: schematic_scan where
  "empty_scan = \<lparr>scan_size = zero_size, scan_blocks = [], scan_data = [], saw_width = False,
    saw_height = False, saw_length = False, saw_blocks = False, saw_data = False,
    has_blocks = False, has_data = False\<rparr>"

definition integer_or_skip ::
  "tag_type \<Rightarrow> byte list \<Rightarrow> (int \<Rightarrow> schematic_scan \<Rightarrow> schematic_scan) \<Rightarrow> schematic_scan \<Rightarrow>
   (nbt_error, schematic_scan \<times> byte list) result" where
  "integer_or_skip ty bs put_value sc =
    (if is_integer_type ty
     then and_then (read_integer ty bs) (\<lambda>(v, rest). Inr (put_value v sc, rest))
     else and_then (schematic_skip ty bs) (\<lambda>(u, rest). Inr (sc, rest)))"

definition array_or_skip ::
  "tag_type \<Rightarrow> byte list \<Rightarrow> (byte list \<Rightarrow> schematic_scan \<Rightarrow> schematic_scan) \<Rightarrow> schematic_scan \<Rightarrow>
   (nbt_error, schematic_scan \<times> byte list) result" where
  "array_or_skip ty bs put_array sc =
    (if ty = TByteArray
     then and_then (read_byte_array bs) (\<lambda>(b, rest). Inr (put_array b sc, rest))
     else and_then (schematic_skip ty bs) (\<lambda>(u, rest). Inr (sc, rest)))"

definition schematic_field ::
  "string \<Rightarrow> tag_type \<Rightarrow> schematic_scan \<Rightarrow> byte list \<Rightarrow> (nbt_error, schematic_scan \<times> byte list) result" where
  "schematic_field key ty sc bs =
    (if key = ''Width'' \<and> \<not> saw_width sc then
       integer_or_skip ty bs (\<lambda>v s. s\<lparr>scan_size := (scan_size s)\<lparr>width := v\<rparr>\<rparr>) (sc\<lparr>saw_width := True\<rparr>)
     else if key = ''Height'' \<and> \<not> saw_height sc then
       integer_or_skip ty bs (\<lambda>v s. s\<lparr>scan_size := (scan_size s)\<lparr>height := v\<rparr>\<rparr>) (sc\<lparr>saw_height := True\<rparr>)
     else if key = ''Length'' \<and> \<not> saw_length sc then
       integer_or_skip ty bs (\<lambda>v s. s\<lparr>scan_size := (scan_size s)\<lparr>len := v\<rparr>\<rparr>) (sc\<lparr>saw_length := True\<rparr>)
     else if key = ''Blocks'' \<and> \<not> saw_blocks sc then
       array_or_skip ty bs (\<lambda>b s. s\<lparr>scan_blocks := b, has_blocks := True\<rparr>) (sc\<lparr>saw_blocks := True\<rparr>)
     else if key = ''Data'' \<and> \<not> saw_data sc then
       array_or_skip ty bs (\<lambda>b s. s\<lparr>scan_data := b, has_data := True\<rparr>) (sc\<lparr>saw_data := True\<rparr>)
     else and_then (schematic_skip ty bs) (\<lambda>(u, rest). Inr (sc, rest)))"

record schematic =
  sch_size :: wsize
  sch_original_size :: wsize
  sch_offset :: block_pos
  sch_blocks :: "byte list"
  sch_data :: "byte list"
  runtime_cache :: "nat \<rightharpoonup> runtime_id option"

definition sch_set_offset :: "block_pos \<Rightarrow> schematic \<Rightarrow> schematic" where
  "sch_set_offset off s = s\<lparr>sch_offset := off, sch_size := offset_size (sch_original_size s) off\<rparr>"

definition cache_index :: "byte \<Rightarrow> byte \<Rightarrow> nat" where
  "cache_index b d = unat b * 256 + unat d"

definition cache_pair ::
  "registry \<Rightarrow> byte \<times> byte \<Rightarrow> (nat \<rightharpoonup> runtime_id option) \<Rightarrow> (nat \<rightharpoonup> runtime_id option)" where
  "cache_pair reg bd cache =
    (case cache (cache_index (fst bd) (snd bd)) of
       Some known \<Rightarrow> cache
     | None \<Rightarrow> cache(cache_index (fst bd) (snd bd) \<mapsto> schematic_runtime_id reg (unat (fst bd)) (unat (snd bd))))"

definition schematic_read :: "registry \<Rightarrow> byte list \<Rightarrow> (schematic_error, schematic) result" where
  "schematic_read reg bytes =
    (case read_type False bytes of
       Inl e \<Rightarrow> Inl (ParseFailed e)
     | Inr (ty, bs1) \<Rightarrow>
         if ty \<noteq> TCompound then Inl BadRoot
         else
           (case read_string Big bs1 of
              Inl e \<Rightarrow> Inl (ParseFailed e)
            | Inr (name, bs2) \<Rightarrow>
                if name \<noteq> ''Schematic'' then Inl BadRoot
                else
                  (case read_fields Big schematic_field empty_scan bs2 of
                     Inl e \<Rightarrow> Inl (ParseFailed e)
                   | Inr (sc, rest) \<Rightarrow>
                       let sz = scan_size sc
                       in if width sz \<le> 0 \<or> height sz \<le> 0 \<or> len sz \<le> 0 then Inl SizeNotPositive
                          else if \<not> has_blocks sc \<or> \<not> has_data sc then Inl ArraysMissing
                          else if length (scan_blocks sc) \<noteq> nat (volume sz) \<or>
                            length (scan_data sc) \<noteq> nat (volume sz) then Inl LengthMismatch
                          else if schematic_runtime_id reg 0 0 = None then Inl NoSchematicMapping
                          else
                            Inr (sch_set_offset (BlockPos 0 0 0)
                              \<lparr>sch_size = zero_size, sch_original_size = sz, sch_offset = BlockPos 0 0 0,
                               sch_blocks = scan_blocks sc, sch_data = scan_data sc,
                               runtime_cache = fold (cache_pair reg) (zip (scan_blocks sc) (scan_data sc)) Map.empty\<rparr>))))"

section \<open>Requests\<close>

definition runtime_for :: "schematic \<Rightarrow> byte \<Rightarrow> byte \<Rightarrow> (schematic_error, runtime_id) result" where
  "runtime_for s b d =
    (case runtime_cache s (cache_index b d) of
       Some (Some rid) \<Rightarrow> Inr rid
     | _ \<Rightarrow> Inl (PairUnmapped (unat b) (unat d)))"

definition schematic_look :: "runtime_id \<Rightarrow> schematic \<Rightarrow> nat \<Rightarrow> (schematic_error, runtime_id option) result" where
  "schematic_look air s i =
    and_then (runtime_for s (sch_blocks s ! i) (sch_data s ! i)) (\<lambda>rid.
      Inr (if rid = air then None else Some rid))"

definition schematic_chunks_impl ::
  "runtime_id \<Rightarrow> schematic \<Rightarrow> chunk_pos list \<Rightarrow> bool \<Rightarrow> (schematic_error, chunk_map) result" where
  "schematic_chunks_impl air s positions include_layer1 =
    dense_chunks air include_layer1 (sch_original_size s) (sch_offset s) (schematic_look air s) positions"

definition schematic_chunks where
  "schematic_chunks air s positions = schematic_chunks_impl air s positions True"

definition schematic_chunks_layer0 where
  "schematic_chunks_layer0 air s positions = schematic_chunks_impl air s positions False"

definition schematic_chunk_nbt :: "schematic \<Rightarrow> chunk_pos list \<Rightarrow> nbt_chunk_map" where
  "schematic_chunk_nbt s positions = emplace_all [] positions"

definition schematic_count_non_air :: "schematic \<Rightarrow> nat" where
  "schematic_count_non_air s = length (filter (\<lambda>b. unat b \<noteq> 0) (sch_blocks s))"

section \<open>The writer\<close>

datatype 'e schematic_write_error = SchematicSize | SchematicBudget | SchematicTooManyChunks
  | SchematicOverBudget | SchematicChunks 'e | SchematicSerialise nbt_error

definition schematic_size_bad :: "wsize \<Rightarrow> bool" where
  "schematic_size_bad sz \<longleftrightarrow> width sz \<le> 0 \<or> height sz \<le> 0 \<or> len sz \<le> 0 \<or>
    32767 < width sz \<or> 32767 < height sz \<or> 32767 < len sz \<or> volume sz \<le> 0 \<or> INT32_MAX < volume sz"

definition legacy_pair :: "registry \<Rightarrow> runtime_id \<Rightarrow> nat \<times> nat" where
  "legacy_pair reg rid = (case schematic_block reg rid of Some p \<Rightarrow> p | None \<Rightarrow> (0, 0))"

definition written_bytes :: "registry \<Rightarrow> chunk_map \<Rightarrow> wsize \<Rightarrow> (nat \<times> nat \<Rightarrow> nat) \<Rightarrow> byte list" where
  "written_bytes reg chunks sz part =
    map (\<lambda>p. word_of_nat (part (legacy_pair reg (block_at chunks (air_runtime_id reg) (pos_x p) (pos_y p) (pos_z p)))))
      (grid_positions sz)"

definition write_byte_array :: "string \<Rightarrow> int \<Rightarrow> byte list \<Rightarrow> (nbt_error, byte list) result" where
  "write_byte_array name n contents =
    and_then (write_string Big name) (\<lambda>k.
      Inr (type_code TByteArray # k @ num_bytes Big (word_of_int n :: 32 word) @ contents))"

definition schematic_stream :: "registry \<Rightarrow> chunk_map \<Rightarrow> wsize \<Rightarrow> (nbt_error, byte list) result" where
  "schematic_stream reg chunks sz =
    and_then (write_string Big ''Schematic'') (\<lambda>name.
    and_then (write_tag Big ''Length'' (NShort (word_of_int (len sz)))) (\<lambda>l.
    and_then (write_tag Big ''Height'' (NShort (word_of_int (height sz)))) (\<lambda>h.
    and_then (write_tag Big ''Width'' (NShort (word_of_int (width sz)))) (\<lambda>w.
    and_then (write_tag Big ''Materials'' (NString ''Alpha'')) (\<lambda>mat.
    and_then (write_byte_array ''Blocks'' (volume sz) (written_bytes reg chunks sz fst)) (\<lambda>b.
    and_then (write_byte_array ''Data'' (volume sz) (written_bytes reg chunks sz snd)) (\<lambda>d.
      Inr (type_code TCompound # name @ l @ h @ w @ mat @ b @ d @ [type_code TEnd]))))))))"

definition write_schematic ::
  "wsize \<Rightarrow> (chunk_pos list \<Rightarrow> ('e, chunk_map) result) \<Rightarrow> registry \<Rightarrow> int \<Rightarrow> int \<Rightarrow>
   ('e schematic_write_error, byte list) result" where
  "write_schematic sz get_layer0 reg budget max_in_flight =
    (if schematic_size_bad sz then Inl SchematicSize
     else if budget < 65536 then Inl SchematicBudget
     else if max_in_flight \<noteq> 0 \<and> max_in_flight < writer_chunk_count sz then Inl SchematicTooManyChunks
     else if budget < u64 (writer_chunk_count sz * writer_chunk_bytes sz) then Inl SchematicOverBudget
     else
       (case get_layer0 (writer_positions sz) of
          Inl e \<Rightarrow> Inl (SchematicChunks e)
        | Inr chunks \<Rightarrow>
            (case schematic_stream reg chunks sz of
               Inl e \<Rightarrow> Inl (SchematicSerialise e)
             | Inr b \<Rightarrow> Inr b)))"

section \<open>Reading what was written\<close>

lemma shrinks_schematic_skip [simp]: "shrinks (schematic_skip ty)"
  using shrinksD [OF shrinks_skip_payload] unfolding shrinks_def schematic_skip_def by blast

lemma shrinks_read_integer [simp]: "shrinks (read_integer ty)"
  unfolding read_integer_def
  by (cases ty; simp only: tag_type.case)
    (rule shrinks_return shrinks_bind [OF shrinks_read_num], (rule shrinks_return)?)+

lemma shrinks_integer_or_skip: "shrinks (\<lambda>bs. integer_or_skip ty bs f sc)"
  unfolding integer_or_skip_def by (cases "is_integer_type ty") (auto intro!: shrinks_bind)

lemma shrinks_array_or_skip: "shrinks (\<lambda>bs. array_or_skip ty bs f sc)"
proof -
  have "shrinks read_byte_array"
    unfolding read_byte_array_def by (intro shrinks_bind) simp_all
  then show ?thesis unfolding array_or_skip_def by (cases "ty = TByteArray") (auto intro!: shrinks_bind)
qed

lemma shrinks_if: "shrinks f \<Longrightarrow> shrinks g \<Longrightarrow> shrinks (\<lambda>bs. if c then f bs else g bs)"
  by (cases c) simp_all

lemma shrinks_schematic_field: "shrinks (schematic_field key ty sc)"
  unfolding schematic_field_def
  by (intro shrinks_if shrinks_integer_or_skip shrinks_array_or_skip shrinks_bind shrinks_schematic_skip
      shrinks_return)

lemma write_byte_array_tag:
  assumes "int (length contents) = n" "n \<le> INT32_MAX"
  shows "write_byte_array name n contents = write_tag Big name (NByteArray contents)"
proof -
  have "write_length Big (length contents) = Inr (num_bytes Big (word_of_int n :: 32 word))"
    using assms by (auto simp: write_length_def)
  then show ?thesis
    by (cases "write_string Big name") (simp_all add: write_byte_array_def write_tag_def)
qed

lemma sint_short: "0 \<le> n \<Longrightarrow> n \<le> 32767 \<Longrightarrow> sint (word_of_int n :: 16 word) = n"
  by (simp add: signed_of_int signed_take_bit_int_eq_self)

definition scan_of :: "wsize \<Rightarrow> byte list \<Rightarrow> byte list \<Rightarrow> schematic_scan" where
  "scan_of sz b d = \<lparr>scan_size = sz, scan_blocks = b, scan_data = d, saw_width = True,
    saw_height = True, saw_length = True, saw_blocks = True, saw_data = True,
    has_blocks = True, has_data = True\<rparr>"

lemma schematic_field_short:
  "\<lbrakk>write_payload Big (NShort w) = Inr pay; is_integer_type TShort\<rbrakk> \<Longrightarrow>
    integer_or_skip TShort (pay @ rest) f sc = Inr (f (sint w) sc, rest)"
  by (auto simp: integer_or_skip_def read_integer_def read_num_written)

lemma schematic_field_array:
  "write_payload Big (NByteArray b) = Inr pay \<Longrightarrow>
    array_or_skip TByteArray (pay @ rest) f sc = Inr (f b sc, rest)"
  by (auto simp: array_or_skip_def read_byte_array_def and_then_eq_Inr_iff read_length_written read_bytes_append)

lemma schematic_field_string:
  assumes "write_payload Big (NString s) = Inr pay"
  shows "schematic_skip TString (pay @ rest) = Inr ((), rest)"
  using read_string_written [OF assms [simplified]] by (simp add: schematic_skip_def)

lemma schematic_stream_fields:
  assumes bad: "\<not> schematic_size_bad sz" and "schematic_stream reg chunks sz = Inr b"
  obtains name l h w mat bb dd where
    "write_string Big ''Schematic'' = Inr name"
    "write_tag Big ''Length'' (NShort (word_of_int (len sz))) = Inr l"
    "write_tag Big ''Height'' (NShort (word_of_int (height sz))) = Inr h"
    "write_tag Big ''Width'' (NShort (word_of_int (width sz))) = Inr w"
    "write_tag Big ''Materials'' (NString ''Alpha'') = Inr mat"
    "write_tag Big ''Blocks'' (NByteArray (written_bytes reg chunks sz fst)) = Inr bb"
    "write_tag Big ''Data'' (NByteArray (written_bytes reg chunks sz snd)) = Inr dd"
    "b = type_code TCompound # name @ l @ h @ w @ mat @ bb @ dd @ [type_code TEnd]"
    "nat (volume sz) = length (grid_positions sz)"
proof -
  have pos: "0 < width sz" "0 < height sz" "0 < len sz" "size_in_range sz"
    using bad by (auto simp: schematic_size_bad_def size_in_range_def range_simps)
  have lt: "volume sz \<le> INT32_MAX" using bad by (simp add: schematic_size_bad_def)
  have "volume sz = width sz * height sz * len sz"
    using volume_eq [OF pos(4)] pos lt by (auto simp: range_simps min_def split: if_splits)
  then have v: "nat (volume sz) = length (grid_positions sz)" and v': "0 \<le> volume sz"
    using pos by (simp_all add: length_grid_positions nat_mult_distrib)
  have arr: "write_byte_array name (volume sz) (written_bytes reg chunks sz part) =
      write_tag Big name (NByteArray (written_bytes reg chunks sz part))" for name part
    using v v' lt by (intro write_byte_array_tag) (simp_all add: written_bytes_def)
  from assms(2) that v show ?thesis
    unfolding schematic_stream_def arr and_then_eq_Inr_iff by blast
qed

lemma read_schematic_fields:
  assumes bad: "\<not> schematic_size_bad sz"
    and w: "write_tag Big ''Length'' (NShort (word_of_int (len sz))) = Inr l"
    "write_tag Big ''Height'' (NShort (word_of_int (height sz))) = Inr h"
    "write_tag Big ''Width'' (NShort (word_of_int (width sz))) = Inr w"
    "write_tag Big ''Materials'' (NString ''Alpha'') = Inr mat"
    "write_tag Big ''Blocks'' (NByteArray bs) = Inr bb"
    "write_tag Big ''Data'' (NByteArray ds) = Inr dd"
  shows "read_fields Big schematic_field empty_scan (l @ h @ w @ mat @ bb @ dd @ [type_code TEnd]) =
    Inr (scan_of sz bs ds, [])"
proof -
  note shr = shrinks_schematic_field
  have r: "sint (word_of_int (width sz) :: 16 word) = width sz" "sint (word_of_int (height sz) :: 16 word) = height sz"
    "sint (word_of_int (len sz) :: 16 word) = len sz"
    using bad by (auto simp: schematic_size_bad_def intro!: sint_short)
  have i: "is_integer_type TShort" by (simp add: is_integer_type_def)
  have "read_fields Big schematic_field empty_scan (l @ h @ w @ mat @ bb @ dd @ [type_code TEnd]) =
      read_fields Big schematic_field (empty_scan\<lparr>saw_length := True, scan_size := zero_size\<lparr>len := len sz\<rparr>\<rparr>)
        (h @ w @ mat @ bb @ dd @ [type_code TEnd])"
    by (rule read_fields_step [OF shr w(1)])
      (simp add: schematic_field_def schematic_field_short [OF _ i] r empty_scan_def del: write_payload.simps)
  also have "\<dots> = read_fields Big schematic_field (empty_scan\<lparr>saw_length := True, saw_height := True,
        scan_size := zero_size\<lparr>height := height sz, len := len sz\<rparr>\<rparr>) (w @ mat @ bb @ dd @ [type_code TEnd])"
    by (rule read_fields_step [OF shr w(2)])
      (simp add: schematic_field_def schematic_field_short [OF _ i] r empty_scan_def zero_size_def del: write_payload.simps)
  also have "\<dots> = read_fields Big schematic_field (empty_scan\<lparr>saw_length := True, saw_height := True, saw_width := True,
        scan_size := sz\<rparr>) (mat @ bb @ dd @ [type_code TEnd])"
    by (rule read_fields_step [OF shr w(3)])
      (simp add: schematic_field_def schematic_field_short [OF _ i] r empty_scan_def zero_size_def del: write_payload.simps)
  also have "\<dots> = read_fields Big schematic_field (empty_scan\<lparr>saw_length := True, saw_height := True, saw_width := True,
        scan_size := sz\<rparr>) (bb @ dd @ [type_code TEnd])"
    by (rule read_fields_step [OF shr w(4)])
      (simp add: schematic_field_def schematic_field_string del: write_payload.simps)
  also have "\<dots> = read_fields Big schematic_field (empty_scan\<lparr>saw_length := True, saw_height := True, saw_width := True,
        scan_size := sz, saw_blocks := True, has_blocks := True, scan_blocks := bs\<rparr>) (dd @ [type_code TEnd])"
    by (rule read_fields_step [OF shr w(5)])
      (simp add: schematic_field_def schematic_field_array empty_scan_def del: write_payload.simps)
  also have "\<dots> = read_fields Big schematic_field (scan_of sz bs ds) [type_code TEnd]"
    by (rule read_fields_step [OF shr w(6)])
      (simp add: schematic_field_def schematic_field_array empty_scan_def scan_of_def del: write_payload.simps)
  also have "\<dots> = Inr (scan_of sz bs ds, [])"
    by (simp add: read_fields_eq [OF shr] read_type_written del: type_code.simps)
  finally show ?thesis .
qed

section \<open>The table of the pairs\<close>

lemma cache_index_inj [simp]: "cache_index b d = cache_index b' d' \<longleftrightarrow> b = b' \<and> d = d'"
proof
  assume e: "cache_index b d = cache_index b' d'"
  have "unat d < 256" "unat d' < 256" using unsigned_less [of d] unsigned_less [of d'] by simp_all
  moreover have "(unat b * 256 + unat d) mod 256 = (unat b' * 256 + unat d') mod 256"
    using e by (simp only: cache_index_def)
  ultimately have "unat d = unat d'" by simp
  then have "unat b = unat b' \<and> unat d = unat d'" using e by (simp add: cache_index_def)
  then show "b = b' \<and> d = d'" by (simp add: word_unat_eq_iff)
qed simp

definition cache_inv :: "registry \<Rightarrow> (nat \<rightharpoonup> runtime_id option) \<Rightarrow> bool" where
  "cache_inv reg cache \<longleftrightarrow> (\<forall>b d v. cache (cache_index b d) = Some v \<longrightarrow>
     v = schematic_runtime_id reg (unat b) (unat d))"

lemma fold_cache_pair:
  "cache_inv reg cache \<Longrightarrow> fold (cache_pair reg) bds cache (cache_index b d) =
    (if (b, d) \<in> set bds \<or> cache (cache_index b d) \<noteq> None
     then Some (schematic_runtime_id reg (unat b) (unat d)) else None)"
proof (induction bds arbitrary: cache)
  case Nil
  then show ?case by (auto simp: cache_inv_def)
next
  case (Cons bd bds)
  have inv: "cache_inv reg (cache_pair reg bd cache)"
    using Cons.prems by (auto simp: cache_inv_def cache_pair_def split: option.split)
  have "cache_pair reg bd cache (cache_index b d) = None \<longleftrightarrow> (b, d) \<noteq> bd \<and> cache (cache_index b d) = None"
    by (cases bd) (auto simp: cache_pair_def split: option.split)
  then show ?case using Cons.IH [OF inv] by auto
qed

section \<open>The schematic as a dense structure\<close>

definition sch_valid :: "runtime_id \<times> schematic \<Rightarrow> bool" where
  "sch_valid st \<longleftrightarrow>
    (let s = snd st; sz = sch_original_size s
     in length (sch_blocks s) = length (grid_positions sz) \<and> length (sch_data s) = length (grid_positions sz) \<and>
       width sz * height sz * len sz \<le> INT64_MAX \<and>
       (\<forall>p. \<not> outside sz p \<longrightarrow> shift_ok (sch_offset s) p) \<and>
       (\<forall>i < length (sch_blocks s).
          \<exists>rid. runtime_cache s (cache_index (sch_blocks s ! i) (sch_data s ! i)) = Some (Some rid)))"

definition sch_grid_block :: "runtime_id \<times> schematic \<Rightarrow> block_pos \<Rightarrow> runtime_id option" where
  "sch_grid_block st p =
    (let s = snd st; i = nat (grid_index (sch_original_size s) p)
     in case runtime_cache s (cache_index (sch_blocks s ! i) (sch_data s ! i)) of
          Some (Some rid) \<Rightarrow> if rid = fst st then None else Some rid
        | _ \<Rightarrow> None)"

interpretation sch: dense_source "\<lambda>st. sch_original_size (snd st)" "\<lambda>st. sch_offset (snd st)"
  "\<lambda>st. schematic_look (fst st) (snd st)" sch_valid sch_grid_block
proof
  fix st :: "runtime_id \<times> schematic" and p
  assume v: "sch_valid st" and p: "\<not> outside (sch_original_size (snd st)) p"
  show "shift_ok (sch_offset (snd st)) p" using v p by (simp add: sch_valid_def Let_def)
  let ?i = "nat (grid_index (sch_original_size (snd st)) p)"
  have "?i < length (sch_blocks (snd st))" using v grid_index_length [OF p] by (simp add: sch_valid_def Let_def)
  then obtain rid where "runtime_cache (snd st) (cache_index (sch_blocks (snd st) ! ?i) (sch_data (snd st) ! ?i)) = Some (Some rid)"
    using v by (auto simp: sch_valid_def Let_def)
  moreover have "dense_index (sch_original_size (snd st)) (pos_x p) (pos_y p) (pos_z p) = ?i"
    using v by (intro dense_index_eq [OF p]) (simp add: sch_valid_def Let_def)
  ultimately show "schematic_look (fst st) (snd st)
      (dense_index (sch_original_size (snd st)) (pos_x p) (pos_y p) (pos_z p)) = Inr (sch_grid_block st p)"
    by (simp add: schematic_look_def runtime_for_def sch_grid_block_def)
qed

text \<open>What comes back of a block: the block of its legacy pair.\<close>

definition legacy_block :: "registry \<Rightarrow> runtime_id \<Rightarrow> runtime_id" where
  "legacy_block reg rid = schematic_mapping reg ! (fst (legacy_pair reg rid) * 256 + snd (legacy_pair reg rid))"

definition pairs_are_bytes :: "registry \<Rightarrow> bool" where
  "pairs_are_bytes reg \<longleftrightarrow> (\<forall>rid a d. schematic_reverse reg rid = Some (a, d) \<longrightarrow> a < 256 \<and> d < 256)"

lemma legacy_pair_bytes: "pairs_are_bytes reg \<Longrightarrow> fst (legacy_pair reg rid) < 256 \<and> snd (legacy_pair reg rid) < 256"
  by (auto simp: pairs_are_bytes_def legacy_pair_def schematic_block_def split: option.split)

lemma schematic_read_stream:
  assumes bad: "\<not> schematic_size_bad sz" and w: "schematic_stream reg chunks sz = Inr b"
    and has: "has_schematic_mapping reg"
  shows "schematic_read reg b = Inr \<lparr>sch_size = sz, sch_original_size = sz, sch_offset = BlockPos 0 0 0,
    sch_blocks = written_bytes reg chunks sz fst, sch_data = written_bytes reg chunks sz snd,
    runtime_cache = fold (cache_pair reg)
      (zip (written_bytes reg chunks sz fst) (written_bytes reg chunks sz snd)) Map.empty\<rparr>"
proof -
  from schematic_stream_fields [OF bad w] obtain name l h wd mat bb dd where s:
    "write_string Big ''Schematic'' = Inr name"
    "write_tag Big ''Length'' (NShort (word_of_int (len sz))) = Inr l"
    "write_tag Big ''Height'' (NShort (word_of_int (height sz))) = Inr h"
    "write_tag Big ''Width'' (NShort (word_of_int (width sz))) = Inr wd"
    "write_tag Big ''Materials'' (NString ''Alpha'') = Inr mat"
    "write_tag Big ''Blocks'' (NByteArray (written_bytes reg chunks sz fst)) = Inr bb"
    "write_tag Big ''Data'' (NByteArray (written_bytes reg chunks sz snd)) = Inr dd"
    "b = type_code TCompound # name @ l @ h @ wd @ mat @ bb @ dd @ [type_code TEnd]"
    "nat (volume sz) = length (grid_positions sz)" .
  have rt: "read_type False b = Inr (TCompound, name @ l @ h @ wd @ mat @ bb @ dd @ [type_code TEnd])"
    unfolding s(8) by (simp only: read_type_def list.case type_of_code_code option.case) simp
  have pos: "\<not> (width sz \<le> 0 \<or> height sz \<le> 0 \<or> len sz \<le> 0)"
    and r: "in_s32 (width sz)" "in_s32 (height sz)" "in_s32 (len sz)"
    using bad by (auto simp: schematic_size_bad_def range_simps)
  have n: "length (written_bytes reg chunks sz part) = nat (volume sz)" for part
    by (simp add: written_bytes_def s(9))
  have "schematic_runtime_id reg 0 0 \<noteq> None" using has by (simp add: schematic_runtime_id_def)
  then show ?thesis
    using pos n r
    by (simp add: schematic_read_def rt read_string_written [OF s(1)] read_schematic_fields [OF bad s(2-7)]
        scan_of_def sch_set_offset_def offset_size_def wrap_simps Let_def del: type_code.simps)
qed

lemma written_bytes_nth:
  assumes "\<not> outside sz p" "n = part (legacy_pair reg (block_at chunks (air_runtime_id reg) (pos_x p) (pos_y p) (pos_z p)))" "n < 256"
  shows "unat (written_bytes reg chunks sz part ! nat (grid_index sz p)) = n"
  using assms grid_index_length [OF assms(1)]
  by (simp add: written_bytes_def nth_grid_positions unat_of_nat)

section \<open>What a successful read leaves\<close>

definition scan_inv :: "schematic_scan \<Rightarrow> bool" where
  "scan_inv sc \<longleftrightarrow> size_in_range (scan_size sc) \<and> int (length (scan_blocks sc)) \<le> INT32_MAX \<and>
    int (length (scan_data sc)) \<le> INT32_MAX"

lemma sint_in_s32:
  "in_s32 (sint (v :: 8 word))" "in_s32 (sint (w :: 16 word))" "in_s32 (sint (x :: 32 word))"
  using sint_ge [of v] sint_lt [of v] sint_ge [of w] sint_lt [of w] sint_ge [of x] sint_lt [of x]
  by (simp_all add: range_simps)

lemma read_integer_range: "read_integer ty bs = Inr (v, rest) \<Longrightarrow> in_s32 v"
  by (cases ty) (auto simp: read_integer_def and_then_eq_Inr_iff sint_in_s32)

lemma read_byte_array_range: "read_byte_array bs = Inr (b, rest) \<Longrightarrow> int (length b) \<le> INT32_MAX"
  using read_length_int32 [of Big bs]
  by (auto simp: read_byte_array_def and_then_eq_Inr_iff read_bytes_def split: if_splits)

lemma schematic_field_inv:
  "scan_inv sc \<Longrightarrow> schematic_field key ty sc bs = Inr (sc', rest) \<Longrightarrow> scan_inv sc'"
  unfolding schematic_field_def integer_or_skip_def array_or_skip_def
  by (auto simp: and_then_eq_Inr_iff scan_inv_def size_in_range_def
      dest: read_integer_range read_byte_array_range split: if_splits)

lemma schematic_readD:
  assumes "schematic_read reg bytes = Inr s"
  shows "\<exists>sz b d. size_in_range sz \<and> 0 < width sz \<and> 0 < height sz \<and> 0 < len sz \<and>
    length b = nat (volume sz) \<and> length d = nat (volume sz) \<and> volume sz \<le> INT32_MAX \<and> has_schematic_mapping reg \<and>
    s = \<lparr>sch_size = sz, sch_original_size = sz, sch_offset = BlockPos 0 0 0, sch_blocks = b, sch_data = d,
      runtime_cache = fold (cache_pair reg) (zip b d) Map.empty\<rparr>"
proof -
  obtain bs2 sc rest where f: "read_fields Big schematic_field empty_scan bs2 = Inr (sc, rest)"
    and pos: "\<not> (width (scan_size sc) \<le> 0 \<or> height (scan_size sc) \<le> 0 \<or> len (scan_size sc) \<le> 0)"
    and l: "length (scan_blocks sc) = nat (volume (scan_size sc))" "length (scan_data sc) = nat (volume (scan_size sc))"
    and map: "schematic_runtime_id reg 0 0 \<noteq> None"
    and s: "s = sch_set_offset (BlockPos 0 0 0) \<lparr>sch_size = zero_size, sch_original_size = scan_size sc,
        sch_offset = BlockPos 0 0 0, sch_blocks = scan_blocks sc, sch_data = scan_data sc,
        runtime_cache = fold (cache_pair reg) (zip (scan_blocks sc) (scan_data sc)) Map.empty\<rparr>"
    using assms unfolding schematic_read_def Let_def by (force split: sum.splits prod.splits if_splits)
  have "scan_inv empty_scan"
    by (simp add: scan_inv_def empty_scan_def zero_size_def size_in_range_def range_simps)
  then have inv: "scan_inv sc" using read_fields_invariant [OF f, of scan_inv] schematic_field_inv by blast
  then have "int (nat (volume (scan_size sc))) \<le> INT32_MAX" using l by (simp add: scan_inv_def)
  then have "volume (scan_size sc) \<le> INT32_MAX" by linarith
  then show ?thesis
    using inv pos l map s
    by (intro exI [of _ "scan_size sc"] exI [of _ "scan_blocks sc"] exI [of _ "scan_data sc"])
      (auto simp: scan_inv_def sch_set_offset_def offset_size_def size_in_range_def wrap_simps
        schematic_runtime_id_def split: if_splits)
qed

text \<open>The block of a position: the mapping of the two bytes at its index.\<close>

definition file_block :: "registry \<Rightarrow> schematic \<Rightarrow> block_pos \<Rightarrow> runtime_id" where
  "file_block reg s p =
    (let i = nat (grid_index (sch_original_size s) p)
     in schematic_mapping reg ! (unat (sch_blocks s ! i) * 256 + unat (sch_data s ! i)))"

lemma schematic_read_grid:
  assumes "schematic_read reg bytes = Inr s"
  shows "sch_valid (air, s)"
    and "\<not> outside (sch_original_size s) p \<Longrightarrow> sch_grid_block (air, s) p =
      (if file_block reg s p = air then None else Some (file_block reg s p))"
proof -
  obtain sz b d where sz: "size_in_range sz" "0 < width sz" "0 < height sz" "0 < len sz" "volume sz \<le> INT32_MAX"
    and l: "length b = nat (volume sz)" "length d = nat (volume sz)" and has: "has_schematic_mapping reg"
    and s: "s = \<lparr>sch_size = sz, sch_original_size = sz, sch_offset = BlockPos 0 0 0, sch_blocks = b, sch_data = d,
      runtime_cache = fold (cache_pair reg) (zip b d) Map.empty\<rparr>"
    using schematic_readD [OF assms] by blast
  have v: "volume sz = width sz * height sz * len sz"
    using volume_eq [OF sz(1)] sz by (auto simp: range_simps min_def split: if_splits)
  have vol: "nat (volume sz) = length (grid_positions sz)"
    using sz(2-4) by (simp add: v length_grid_positions nat_mult_distrib)
  have cache: "runtime_cache s (cache_index (b ! i) (d ! i)) =
      Some (Some (schematic_mapping reg ! (unat (b ! i) * 256 + unat (d ! i))))"
    if i: "i < length (grid_positions sz)" for i
  proof -
    have "zip b d ! i \<in> set (zip b d)" using i l vol by (intro nth_mem) simp
    then have mem: "(b ! i, d ! i) \<in> set (zip b d)" using i l vol by simp
    have "runtime_cache s (cache_index (b ! i) (d ! i)) = fold (cache_pair reg) (zip b d) Map.empty (cache_index (b ! i) (d ! i))"
      by (simp add: s)
    also have "\<dots> = Some (schematic_runtime_id reg (unat (b ! i)) (unat (d ! i)))"
      using mem by (subst fold_cache_pair) (auto simp: cache_inv_def)
    finally show ?thesis using has by (simp add: schematic_runtime_id_def)
  qed
  have shift: "shift_ok (BlockPos 0 0 0) p" if "\<not> outside sz p" for p
    using that sz(1) by (auto simp: outside_def shift_ok_def size_in_range_def range_simps)
  show "sch_valid (air, s)"
    using cache shift l vol v sz(5) by (simp add: sch_valid_def Let_def s range_simps)
  show "sch_grid_block (air, s) p = (if file_block reg s p = air then None else Some (file_block reg s p))"
    if p: "\<not> outside (sch_original_size s) p"
  proof -
    have p': "\<not> outside sz p" using p by (simp add: s)
    have "sch_blocks s = b" "sch_data s = d" "sch_original_size s = sz" by (simp_all add: s)
    then show ?thesis
      using cache [OF grid_index_length [OF p']] by (simp add: sch_grid_block_def file_block_def Let_def)
  qed
qed

section \<open>Properties\<close>

text \<open>
  C17: Whatever bytes a schematic is read from, a read that succeeds leaves a structure on
  which no request fails: the two arrays have the length of the box, every pair in them is
  resolved, and each position of the box holds in the delivered chunks the block the
  registry maps its two bytes to, with air everywhere else.
\<close>

theorem schematic_read_chunks:
  assumes "schematic_read reg bytes = Inr s"
  shows "length (sch_blocks s) = nat (volume (sch_size s)) \<and> length (sch_data s) = nat (volume (sch_size s)) \<and>
    (\<exists>m. schematic_chunks air s ps = Inr m \<and> fst ` set m = set ps \<and>
      (\<forall>x y z. world_pos_ok x y z \<and> ChunkPos (x div 16) (z div 16) \<in> set ps \<longrightarrow>
        block_at m air x y z =
          (if outside (sch_size s) (BlockPos x y z) then air else file_block reg s (BlockPos x y z))))"
proof -
  obtain sz b d where s: "length b = nat (volume sz)" "length d = nat (volume sz)"
    "s = \<lparr>sch_size = sz, sch_original_size = sz, sch_offset = BlockPos 0 0 0, sch_blocks = b, sch_data = d,
      runtime_cache = fold (cache_pair reg) (zip b d) Map.empty\<rparr>"
    using schematic_readD [OF assms] by blast
  then have e: "sch_offset s = BlockPos 0 0 0" "sch_original_size s = sch_size s"
    and l: "length (sch_blocks s) = nat (volume (sch_size s))" "length (sch_data s) = nat (volume (sch_size s))"
    by simp_all
  have grid: "sch.grid_at air (air, s) p =
      (if outside (sch_size s) p then air else file_block reg s p)" for p
    using schematic_read_grid(2) [OF assms, of p air] by (simp add: sch.grid_at_def e)
  show ?thesis
    using sch.chunks_refine [OF schematic_read_grid(1) [OF assms, of air], of air True ps]
    unfolding schematic_chunks_def schematic_chunks_impl_def snd_conv fst_conv grid e block_pos.sel diff_zero
    by (intro conjI l)
qed

definition sample_schematic_registry :: registry where
  "sample_schematic_registry =
    \<lparr>next_runtime_id = 10, air_runtime_id = 0, by_key = Map.empty, by_state_key = Map.empty,
     by_name = Map.empty, by_runtime_id = Map.empty, java_by_runtime_id = Map.empty,
     legacy_pools = Map.empty, legacy_by_name = Map.empty, legacy_default_by_name = Map.empty,
     legacy_by_state = Map.empty, legacy_state_order = Map.empty, java_mapping = Map.empty,
     java_round_trip_mapping = Map.empty, java_candidates_by_name = Map.empty,
     java_default_by_name = Map.empty, java_order = Map.empty,
     schematic_mapping = replicate 256 0 @ [9], schematic_reverse = [9 \<mapsto> (1, 0)],
     has_schematic_mapping = True, upgrade_state_fn = None\<rparr>"

definition sample_schematic_chunks :: chunk_map where
  "sample_schematic_chunks = [(ChunkPos 0 0, put_cell 0 True (- 4) 1 9 empty_chunk)]"

definition sample_schematic_size :: wsize where
  "sample_schematic_size = \<lparr>width = 2, height = 1, len = 1\<rparr>"

lemma schematic_stream_total: "\<exists>b. schematic_stream reg chunks sz = Inr b"
  by (simp add: schematic_stream_def write_tag_def write_string_def write_byte_array_def)

lemma sample_schematic_blocks:
  "block_at sample_schematic_chunks 0 1 0 0 = 9" "block_at sample_schematic_chunks 0 0 0 0 = 0"
  by code_simp+

lemma sample_schematic_facts:
  "\<not> schematic_size_bad sample_schematic_size" "has_schematic_mapping sample_schematic_registry"
  "pairs_are_bytes sample_schematic_registry" "air_runtime_id sample_schematic_registry = 0"
  "legacy_block sample_schematic_registry 9 = 9" "legacy_block sample_schematic_registry 0 = 0"
  "world_pos_ok 1 0 0" "world_pos_ok 0 0 0"
  "\<not> outside sample_schematic_size (BlockPos 1 0 0)" "\<not> outside sample_schematic_size (BlockPos 0 0 0)"
  by (simp_all add: schematic_size_bad_def sample_schematic_size_def volume_def range_simps sdiv_pos wrap_simps
      sample_schematic_registry_def pairs_are_bytes_def legacy_block_def legacy_pair_def schematic_block_def
      world_pos_ok_def outside_def nth_append Let_def)

theorem schematic_read_chunks_witness:
  "\<exists>b s m. schematic_stream sample_schematic_registry sample_schematic_chunks sample_schematic_size = Inr b \<and>
    schematic_read sample_schematic_registry b = Inr s \<and>
    schematic_chunks 0 s [ChunkPos 0 0] = Inr m \<and> block_at m 0 1 0 0 = 9 \<and> block_at m 0 0 0 0 = 0"
proof -
  note f = sample_schematic_facts
  obtain b where b: "schematic_stream sample_schematic_registry sample_schematic_chunks sample_schematic_size = Inr b"
    using schematic_stream_total by blast
  obtain s where r: "schematic_read sample_schematic_registry b = Inr s" "sch_size s = sample_schematic_size"
    and bytes: "sch_original_size s = sample_schematic_size"
      "sch_blocks s = written_bytes sample_schematic_registry sample_schematic_chunks sample_schematic_size fst"
      "sch_data s = written_bytes sample_schematic_registry sample_schematic_chunks sample_schematic_size snd"
    using schematic_read_stream [OF f(1) b f(2)] by simp
  have fb: "file_block sample_schematic_registry s (BlockPos x 0 0) =
      legacy_block sample_schematic_registry (block_at sample_schematic_chunks 0 x 0 0)"
    if "\<not> outside sample_schematic_size (BlockPos x 0 0)" for x
    using written_bytes_nth [OF that, of _ fst] written_bytes_nth [OF that, of _ snd]
      legacy_pair_bytes [OF f(3)] f(4)
    by (simp add: file_block_def legacy_block_def bytes Let_def)
  obtain m where "schematic_chunks 0 s [ChunkPos 0 0] = Inr m"
    and all: "\<forall>x y z. world_pos_ok x y z \<and> ChunkPos (x div 16) (z div 16) \<in> set [ChunkPos 0 0] \<longrightarrow>
        block_at m 0 x y z = (if outside (sch_size s) (BlockPos x y z) then 0
          else file_block sample_schematic_registry s (BlockPos x y z))"
    using schematic_read_chunks [OF r(1), of 0 "[ChunkPos 0 0]"] by (elim conjE exE)
  from this(1) all [rule_format, of 1 0 0] all [rule_format, of 0 0 0] f(7,8) show ?thesis
    using b r f(5,6,9,10) fb [OF f(9)] fb [OF f(10)] sample_schematic_blocks
    by (intro exI [of _ b] exI [of _ s] exI [of _ m]) simp
qed

text \<open>
  C16: A structure written as a schematic and read back has the same size, and the chunks of
  the new structure hold at every position of the box the block of the legacy pair that was
  written for the original block, and air outside.
\<close>

theorem schematic_write_read:
  assumes w: "write_schematic sz get_layer0 reg budget max_in_flight = Inr b"
    and get: "get_layer0 (writer_positions sz) = Inr chunks"
    and has: "has_schematic_mapping reg" and bytes: "pairs_are_bytes reg"
  shows "\<exists>s. schematic_read reg b = Inr s \<and> sch_size s = sz \<and>
    (\<exists>m. schematic_chunks (air_runtime_id reg) s ps = Inr m \<and> fst ` set m = set ps \<and>
      (\<forall>x y z. world_pos_ok x y z \<and> ChunkPos (x div 16) (z div 16) \<in> set ps \<longrightarrow>
        block_at m (air_runtime_id reg) x y z =
          (if outside sz (BlockPos x y z) then air_runtime_id reg
           else legacy_block reg (block_at chunks (air_runtime_id reg) x y z))))"
proof -
  have bad: "\<not> schematic_size_bad sz" and st: "schematic_stream reg chunks sz = Inr b"
    using w get by (auto simp: write_schematic_def split: if_splits sum.splits)
  let ?bs = "written_bytes reg chunks sz fst" and ?ds = "written_bytes reg chunks sz snd"
  obtain s where r: "schematic_read reg b = Inr s" and s: "sch_size s = sz" "sch_original_size s = sz"
    "sch_blocks s = ?bs" "sch_data s = ?ds"
    using schematic_read_stream [OF bad st has] by simp
  have "file_block reg s (BlockPos x y z) = legacy_block reg (block_at chunks (air_runtime_id reg) x y z)"
    if p: "\<not> outside sz (BlockPos x y z)" for x y z
    using written_bytes_nth [OF p, of _ fst] written_bytes_nth [OF p, of _ snd] legacy_pair_bytes [OF bytes]
    by (simp add: file_block_def legacy_block_def s Let_def)
  then show ?thesis
    using schematic_read_chunks [OF r, of "air_runtime_id reg" ps] r s(1) by (force split: if_splits)
qed

theorem schematic_write_read_witness:
  "\<exists>b s m. write_schematic sample_schematic_size (\<lambda>ps. Inr sample_schematic_chunks :: (unit, chunk_map) result)
      sample_schematic_registry 65536 0 = Inr b \<and>
    schematic_read sample_schematic_registry b = Inr s \<and> sch_size s = sample_schematic_size \<and>
    schematic_chunks 0 s [ChunkPos 0 0] = Inr m \<and> block_at m 0 1 0 0 = 9"
proof -
  note f = sample_schematic_facts
  let ?get = "\<lambda>ps. Inr sample_schematic_chunks :: (unit, chunk_map) result"
  obtain b where "schematic_stream sample_schematic_registry sample_schematic_chunks sample_schematic_size = Inr b"
    using schematic_stream_total by blast
  moreover have "writer_chunk_count sample_schematic_size = 1" "writer_chunk_bytes sample_schematic_size = 65536"
    by code_simp+
  ultimately have b: "write_schematic sample_schematic_size ?get sample_schematic_registry 65536 0 = Inr b"
    using f(1) by (simp add: write_schematic_def u64_def)
  obtain s m where "schematic_read sample_schematic_registry b = Inr s" "sch_size s = sample_schematic_size"
    "schematic_chunks 0 s [ChunkPos 0 0] = Inr m"
    and all: "\<forall>x y z. world_pos_ok x y z \<and> ChunkPos (x div 16) (z div 16) \<in> set [ChunkPos 0 0] \<longrightarrow>
      block_at m 0 x y z = (if outside sample_schematic_size (BlockPos x y z) then 0
        else legacy_block sample_schematic_registry (block_at sample_schematic_chunks 0 x y z))"
    using schematic_write_read [OF b HOL.refl f(2,3), of "[ChunkPos 0 0]"] unfolding f(4) by (elim conjE exE)
  from this(1-3) all [rule_format, of 1 0 0] f(7) b show ?thesis
    using f(5,9) sample_schematic_blocks by (intro exI [of _ b] exI [of _ s] exI [of _ m]) simp
qed

text \<open>A list in a list, \<open>n\<close> levels deep.\<close>

fun nested_list :: "nat \<Rightarrow> byte list" where
  "nested_list 0 = [0, 0, 0, 0, 0]"
| "nested_list (Suc n) = [9, 0, 0, 0, 1] @ nested_list n"

lemma read_nested:
  "read_type True (nested_list (Suc n)) = Inr (TList, [0, 0, 0, 1] @ nested_list n)"
  "read_length Big ([0, 0, 0, 1] @ bs) = Inr (1, bs)"
  "read_type True (nested_list 0) = Inr (TEnd, [0, 0, 0, 0])"
  "read_length Big [0, 0, 0, 0] = Inr (0, [])"
proof -
  have "num_bytes Big (1 :: 32 word) = [0, 0, 0, 1]" "num_bytes Big (0 :: 32 word) = [0, 0, 0, 0]"
    by code_simp+
  then show "read_length Big ([0, 0, 0, 1] @ bs) = Inr (1, bs)" "read_length Big [0, 0, 0, 0] = Inr (0, [])"
    using read_length_written [of Big 1 "[0, 0, 0, 1]" bs] read_length_written [of Big 0 "[0, 0, 0, 0]" "[]"]
    by (simp_all add: write_length_def range_simps)
  show "read_type True (nested_list (Suc n)) = Inr (TList, [0, 0, 0, 1] @ nested_list n)"
    using read_type_written [of TList] by simp
  show "read_type True (nested_list 0) = Inr (TEnd, [0, 0, 0, 0])"
    using read_type_written [of TEnd] by simp
qed

lemma skip_nested: "skip_payload r q Big TList (nested_list n) = (if r \<le> n then Inl TooDeep else Inr ((), []))"
proof (induction n arbitrary: r)
  case 0
  then show ?case by (cases r) (simp_all add: read_nested del: nested_list.simps)
next
  case (Suc n)
  show ?case
  proof (cases r)
    case (Suc r')
    then show ?thesis
      using Suc.IH [of r'] by (simp add: read_nested del: nested_list.simps append_Cons append_Nil)
  qed simp
qed

text \<open>
  C40: \<open>skip_payload\<close> of the schematic reader has no limit on the nesting: for every depth
  there is a value of five bytes per level which it descends into completely, one call
  inside the other, while the reader of Litematic files refuses it.
\<close>

theorem schematic_nesting_unbounded:
  "length (nested_list n) = 5 * (n + 1) \<and> schematic_skip TList (nested_list n) = Inr ((), []) \<and>
    skip_payload (Suc n) False Big TList (nested_list n) = Inr ((), []) \<and>
    skip_payload n False Big TList (nested_list n) = Inl TooDeep \<and>
    (if MAX_DEPTH \<le> n then skip_payload MAX_DEPTH True Big TList (nested_list n) = Inl TooDeep else True)"
proof -
  have "length (nested_list n) = 5 * (n + 1)" by (induction n) simp_all
  then show ?thesis by (simp add: schematic_skip_def skip_nested)
qed

end
