(* ===== verification/WS_Litematic.thy ===== *)
theory WS_Litematic
  imports WS_Nbt WS_Dense WS_Registry
begin

text \<open>
  \<open>LitematicStructure\<close> (\<open>src/formats/litematic.cpp\<close>) on the NBT stream inside the gzip
  container. The reader goes through the stream once and builds values only for what it
  keeps: the first region in the order of the names, its palette, its packed block states
  and its block entities; everything else is skipped but checked. A function of the file
  with a \<open>depth\<close> argument has it here; \<open>skip_payload\<close> gets the levels that are left below
  the limit of 1024. A read that fails leaves an object which the callers drop, so a failure
  has no state, apart from the registry, where the reader may have registered
  \<open>minecraft:unknown\<close>.
\<close>

section \<open>Values\<close>

definition check_depth :: "nat \<Rightarrow> (nbt_error, unit) result" where
  "check_depth depth = (if MAX_DEPTH < depth then Inl TooDeep else Inr ())"

definition lit_skip :: "nat \<Rightarrow> tag_type \<Rightarrow> byte list \<Rightarrow> (nbt_error, unit \<times> byte list) result" where
  "lit_skip depth ty bs = skip_payload (MAX_DEPTH + 1 - depth) True Big ty bs"

text \<open>A value that is not wanted: the state of the loop stays.\<close>

definition skip_keeping :: "nat \<Rightarrow> tag_type \<Rightarrow> 's \<Rightarrow> byte list \<Rightarrow> (nbt_error, 's \<times> byte list) result" where
  "skip_keeping depth ty s bs = and_then (lit_skip depth ty bs) (\<lambda>(u, rest). Inr (s, rest))"

definition read_int_value :: "nat \<Rightarrow> tag_type \<Rightarrow> byte list \<Rightarrow> (nbt_error, int option \<times> byte list) result" where
  "read_int_value depth ty bs =
    (case ty of
       TByte \<Rightarrow> and_then (read_num Big bs) (\<lambda>(v :: 8 word, rest). Inr (Some (sint v), rest))
     | TShort \<Rightarrow> and_then (read_num Big bs) (\<lambda>(v :: 16 word, rest). Inr (Some (sint v), rest))
     | TInt \<Rightarrow> and_then (read_num Big bs) (\<lambda>(v :: 32 word, rest). Inr (Some (sint v), rest))
     | TLong \<Rightarrow> and_then (read_num Big bs) (\<lambda>(v :: 64 word, rest). Inr (Some (s32 (sint v)), rest))
     | _ \<Rightarrow> skip_keeping depth ty None bs)"

text \<open>\<open>int_value\<close> of a compound that was read into memory.\<close>

definition int_value :: "(string \<times> nbt) list \<Rightarrow> string \<Rightarrow> int option" where
  "int_value kvs key =
    (case omap_find kvs key of
       Some (NByte v) \<Rightarrow> Some (sint v)
     | Some (NShort v) \<Rightarrow> Some (sint v)
     | Some (NInt v) \<Rightarrow> Some (sint v)
     | Some (NLong v) \<Rightarrow> Some (s32 (sint v))
     | _ \<Rightarrow> None)"

record xyz_scan =
  xyz_pos :: block_pos
  seen_x :: bool
  seen_y :: bool
  seen_z :: bool

definition xyz_field ::
  "nat \<Rightarrow> string \<Rightarrow> tag_type \<Rightarrow> xyz_scan \<Rightarrow> byte list \<Rightarrow> (nbt_error, xyz_scan \<times> byte list) result" where
  "xyz_field depth key ty sc bs =
    (if (key = ''x'' \<and> \<not> seen_x sc) \<or> (key = ''y'' \<and> \<not> seen_y sc) \<or> (key = ''z'' \<and> \<not> seen_z sc)
     then and_then (read_int_value (depth + 1) ty bs) (\<lambda>(found, rest).
       let v = (case found of Some v \<Rightarrow> v | None \<Rightarrow> 0); p = xyz_pos sc
       in Inr (if key = ''x'' then sc\<lparr>seen_x := True, xyz_pos := BlockPos v (pos_y p) (pos_z p)\<rparr>
               else if key = ''y'' then sc\<lparr>seen_y := True, xyz_pos := BlockPos (pos_x p) v (pos_z p)\<rparr>
               else sc\<lparr>seen_z := True, xyz_pos := BlockPos (pos_x p) (pos_y p) v\<rparr>, rest))
     else skip_keeping (depth + 1) ty sc bs)"

definition empty_xyz :: xyz_scan where
  "empty_xyz = \<lparr>xyz_pos = BlockPos 0 0 0, seen_x = False, seen_y = False, seen_z = False\<rparr>"

definition read_xyz_compound :: "nat \<Rightarrow> byte list \<Rightarrow> (nbt_error, block_pos \<times> byte list) result" where
  "read_xyz_compound depth bs =
    and_then (check_depth depth) (\<lambda>_.
    and_then (read_fields Big (xyz_field depth) empty_xyz bs) (\<lambda>(sc, rest). Inr (xyz_pos sc, rest)))"

section \<open>The palette\<close>

definition read_property_value ::
  "nat \<Rightarrow> tag_type \<Rightarrow> byte list \<Rightarrow> (nbt_error, string option \<times> byte list) result" where
  "read_property_value depth ty bs =
    (case ty of
       TByte \<Rightarrow> and_then (read_num Big bs) (\<lambda>(v :: 8 word, rest).
         Inr (Some (if v = 0 then ''false'' else ''true''), rest))
     | TShort \<Rightarrow> and_then (read_num Big bs) (\<lambda>(v :: 16 word, rest). Inr (Some (to_string (sint v)), rest))
     | TInt \<Rightarrow> and_then (read_num Big bs) (\<lambda>(v :: 32 word, rest). Inr (Some (to_string (sint v)), rest))
     | TLong \<Rightarrow> and_then (read_num Big bs) (\<lambda>(v :: 64 word, rest). Inr (Some (to_string (sint v)), rest))
     | TString \<Rightarrow> and_then (read_string Big bs) (\<lambda>(s, rest). Inr (Some s, rest))
     | _ \<Rightarrow> skip_keeping depth ty None bs)"

text \<open>
  \<open>EncodedProperties\<close>: a present value of an unsupported type keeps its key with \<open>None\<close>.
\<close>

type_synonym encoded_properties = "(string, string option) omap"

definition property_field ::
  "nat \<Rightarrow> string \<Rightarrow> tag_type \<Rightarrow> encoded_properties \<Rightarrow> byte list \<Rightarrow>
   (nbt_error, encoded_properties \<times> byte list) result" where
  "property_field depth name ty values bs =
    (case omap_find values name of
       Some known \<Rightarrow> skip_keeping (depth + 1) ty values bs
     | None \<Rightarrow> and_then (read_property_value (depth + 1) ty bs) (\<lambda>(v, rest).
         Inr (omap_emplace name v values, rest)))"

definition read_properties_compound ::
  "nat \<Rightarrow> byte list \<Rightarrow> (nbt_error, encoded_properties \<times> byte list) result" where
  "read_properties_compound depth bs =
    and_then (check_depth depth) (\<lambda>_. read_fields Big (property_field depth) [] bs)"

record entry_scan =
  entry_name :: string
  seen_name :: bool
  seen_properties :: bool
  entry_properties :: "encoded_properties option"

definition empty_entry :: entry_scan where
  "empty_entry = \<lparr>entry_name = ''minecraft:unknown'', seen_name = False, seen_properties = False,
    entry_properties = None\<rparr>"

definition entry_field ::
  "nat \<Rightarrow> string \<Rightarrow> tag_type \<Rightarrow> entry_scan \<Rightarrow> byte list \<Rightarrow> (nbt_error, entry_scan \<times> byte list) result" where
  "entry_field depth key ty sc bs =
    (if key = ''Name'' \<and> \<not> seen_name sc then
       (if ty = TString
        then and_then (read_string Big bs) (\<lambda>(s, rest). Inr (sc\<lparr>seen_name := True, entry_name := s\<rparr>, rest))
        else skip_keeping (depth + 1) ty (sc\<lparr>seen_name := True\<rparr>) bs)
     else if key = ''Properties'' \<and> \<not> seen_properties sc then
       (if ty = TCompound
        then and_then (read_properties_compound (depth + 1) bs) (\<lambda>(ps, rest).
          Inr (sc\<lparr>seen_properties := True, entry_properties := Some ps\<rparr>, rest))
        else skip_keeping (depth + 1) ty (sc\<lparr>seen_properties := True\<rparr>) bs)
     else skip_keeping (depth + 1) ty sc bs)"

text \<open>The text of an entry: the name, and the supported properties in the order of their names.\<close>

fun join_texts :: "string list \<Rightarrow> string" where
  "join_texts [] = []"
| "join_texts [t] = t"
| "join_texts (t # u # ts) = t @ '','' @ join_texts (u # ts)"

definition property_texts :: "encoded_properties \<Rightarrow> string list" where
  "property_texts values =
    concat (map (\<lambda>nv. case snd nv of None \<Rightarrow> [] | Some v \<Rightarrow> [fst nv @ ''='' @ v]) values)"

definition entry_text :: "entry_scan \<Rightarrow> string" where
  "entry_text sc =
    (case entry_properties sc of
       None \<Rightarrow> entry_name sc
     | Some values \<Rightarrow>
         if values = [] then entry_name sc
         else entry_name sc @ ''['' @ join_texts (property_texts values) @ '']'')"

definition read_palette_entry :: "nat \<Rightarrow> byte list \<Rightarrow> (nbt_error, string \<times> byte list) result" where
  "read_palette_entry depth bs =
    and_then (check_depth depth) (\<lambda>_.
    and_then (read_fields Big (entry_field depth) empty_entry bs) (\<lambda>(sc, rest). Inr (entry_text sc, rest)))"

definition read_palette_list :: "nat \<Rightarrow> byte list \<Rightarrow> (nbt_error, string list \<times> byte list) result" where
  "read_palette_list depth bs =
    and_then (check_depth depth) (\<lambda>_.
    and_then (read_type True bs) (\<lambda>(el, bs1).
    and_then (read_length Big bs1) (\<lambda>(n, bs2).
      if el = TEnd then Inr ([], bs2)
      else read_elems n (\<lambda>bs'.
        if el = TCompound then read_palette_entry (depth + 1) bs'
        else skip_keeping (depth + 1) el ''minecraft:unknown'' bs') bs2)))"

section \<open>The region\<close>

definition read_long_array :: "byte list \<Rightarrow> (nbt_error, 64 word list \<times> byte list) result" where
  "read_long_array bs = and_then (read_length Big bs) (\<lambda>(n, bs1). read_elems n (read_num Big) bs1)"

definition serialize_compound :: "(string \<times> nbt) list \<Rightarrow> (nbt_error, nbt_payload) result" where
  "serialize_compound kvs = write_tag Little '''' (NCompound kvs)"

text \<open>
  A block entity of the list: the library reads the compound with a depth count of its own;
  an entity without the three coordinates is dropped.
\<close>

definition read_tile_entity ::
  "byte list \<Rightarrow> (nbt_error, (block_pos \<times> nbt_payload) option \<times> byte list) result" where
  "read_tile_entity bs =
    and_then (read_payload MAX_DEPTH Big TCompound bs) (\<lambda>(t, rest).
      case t of
        NCompound kvs \<Rightarrow>
          (case (int_value kvs ''x'', int_value kvs ''y'', int_value kvs ''z'') of
             (Some x, Some y, Some z) \<Rightarrow>
               and_then (serialize_compound kvs) (\<lambda>payload. Inr (Some (BlockPos x y z, payload), rest))
           | _ \<Rightarrow> Inr (None, rest))
      | _ \<Rightarrow> Inr (None, rest))"

definition read_tile_entities ::
  "nat \<Rightarrow> byte list \<Rightarrow> (nbt_error, (block_pos \<times> nbt_payload) list \<times> byte list) result" where
  "read_tile_entities depth bs =
    and_then (check_depth depth) (\<lambda>_.
    and_then (read_type True bs) (\<lambda>(el, bs1).
    and_then (read_length Big bs1) (\<lambda>(n, bs2).
      if el = TEnd then Inr ([], bs2)
      else
        and_then (read_elems n (\<lambda>bs'.
            if el \<noteq> TCompound then skip_keeping (depth + 1) el None bs' else read_tile_entity bs') bs2)
          (\<lambda>(found, rest). Inr (List.map_filter (\<lambda>e. e) found, rest)))))"

datatype field_state = Missing | WrongType | Valid

record streamed_region =
  position_state :: field_state
  size_state :: field_state
  palette_state :: field_state
  block_states_state :: field_state
  region_position :: block_pos
  signed_size :: block_pos
  region_palette :: "string list"
  packed_states :: "64 word list"
  region_entities :: "(block_pos \<times> nbt_payload) list"

definition empty_region :: streamed_region where
  "empty_region = \<lparr>position_state = Missing, size_state = Missing, palette_state = Missing,
    block_states_state = Missing, region_position = BlockPos 0 0 0, signed_size = BlockPos 0 0 0,
    region_palette = [], packed_states = [], region_entities = []\<rparr>"

type_synonym region_scan = "streamed_region \<times> bool"

definition region_field ::
  "nat \<Rightarrow> string \<Rightarrow> tag_type \<Rightarrow> region_scan \<Rightarrow> byte list \<Rightarrow> (nbt_error, region_scan \<times> byte list) result" where
  "region_field depth key ty sc bs =
    (let r = fst sc; seen_tile_entities = snd sc
     in if key = ''Position'' \<and> position_state r = Missing then
          (if ty = TCompound
           then and_then (read_xyz_compound (depth + 1) bs) (\<lambda>(p, rest).
             Inr ((r\<lparr>region_position := p, position_state := Valid\<rparr>, seen_tile_entities), rest))
           else skip_keeping (depth + 1) ty (r\<lparr>position_state := WrongType\<rparr>, seen_tile_entities) bs)
        else if key = ''Size'' \<and> size_state r = Missing then
          (if ty = TCompound
           then and_then (read_xyz_compound (depth + 1) bs) (\<lambda>(p, rest).
             Inr ((r\<lparr>signed_size := p, size_state := Valid\<rparr>, seen_tile_entities), rest))
           else skip_keeping (depth + 1) ty (r\<lparr>size_state := WrongType\<rparr>, seen_tile_entities) bs)
        else if key = ''BlockStatePalette'' \<and> palette_state r = Missing then
          (if ty = TList
           then and_then (read_palette_list (depth + 1) bs) (\<lambda>(ts, rest).
             Inr ((r\<lparr>region_palette := ts, palette_state := Valid\<rparr>, seen_tile_entities), rest))
           else skip_keeping (depth + 1) ty (r\<lparr>palette_state := WrongType\<rparr>, seen_tile_entities) bs)
        else if key = ''BlockStates'' \<and> block_states_state r = Missing then
          (if ty = TLongArray
           then and_then (read_long_array bs) (\<lambda>(ws, rest).
             Inr ((r\<lparr>packed_states := ws, block_states_state := Valid\<rparr>, seen_tile_entities), rest))
           else skip_keeping (depth + 1) ty (r\<lparr>block_states_state := WrongType\<rparr>, seen_tile_entities) bs)
        else if key = ''TileEntities'' \<and> \<not> seen_tile_entities then
          (if ty = TList
           then and_then (read_tile_entities (depth + 1) bs) (\<lambda>(es, rest).
             Inr ((r\<lparr>region_entities := es\<rparr>, True), rest))
           else skip_keeping (depth + 1) ty (r, True) bs)
        else skip_keeping (depth + 1) ty sc bs)"

definition read_region_compound :: "nat \<Rightarrow> byte list \<Rightarrow> (nbt_error, streamed_region \<times> byte list) result" where
  "read_region_compound depth bs =
    and_then (check_depth depth) (\<lambda>_.
    and_then (read_fields Big (region_field depth) (empty_region, False) bs) (\<lambda>(sc, rest). Inr (fst sc, rest)))"

record streamed_regions =
  has_entry :: bool
  selected_is_compound :: bool
  selected_name :: string
  selected :: streamed_region

definition empty_regions :: streamed_regions where
  "empty_regions = \<lparr>has_entry = False, selected_is_compound = False, selected_name = [],
    selected = empty_region\<rparr>"

definition regions_field ::
  "nat \<Rightarrow> string \<Rightarrow> tag_type \<Rightarrow> streamed_regions \<Rightarrow> byte list \<Rightarrow> (nbt_error, streamed_regions \<times> byte list) result" where
  "regions_field depth name ty rs bs =
    (if \<not> has_entry rs \<or> name < selected_name rs then
       (let rs' = \<lparr>has_entry = True, selected_is_compound = (ty = TCompound), selected_name = name,
                   selected = empty_region\<rparr>
        in if ty = TCompound
           then and_then (read_region_compound (depth + 1) bs) (\<lambda>(r, rest). Inr (rs'\<lparr>selected := r\<rparr>, rest))
           else skip_keeping (depth + 1) ty rs' bs)
     else skip_keeping (depth + 1) ty rs bs)"

definition read_regions_compound :: "nat \<Rightarrow> byte list \<Rightarrow> (nbt_error, streamed_regions \<times> byte list) result" where
  "read_regions_compound depth bs =
    and_then (check_depth depth) (\<lambda>_. read_fields Big (regions_field depth) empty_regions bs)"

record streamed_root =
  regions_present :: bool
  regions_is_compound :: bool
  root_regions :: streamed_regions

definition empty_root :: streamed_root where
  "empty_root = \<lparr>regions_present = False, regions_is_compound = False, root_regions = empty_regions\<rparr>"

definition root_field ::
  "string \<Rightarrow> tag_type \<Rightarrow> streamed_root \<Rightarrow> byte list \<Rightarrow> (nbt_error, streamed_root \<times> byte list) result" where
  "root_field key ty root bs =
    (if key = ''Regions'' \<and> \<not> regions_present root then
       (let root' = root\<lparr>regions_present := True, regions_is_compound := (ty = TCompound)\<rparr>
        in if ty = TCompound
           then and_then (read_regions_compound 1 bs) (\<lambda>(rs, rest). Inr (root'\<lparr>root_regions := rs\<rparr>, rest))
           else skip_keeping 1 ty root' bs)
     else skip_keeping 1 ty root bs)"

datatype litematic_error = LitNotCompound | LitParse nbt_error | LitNoRegions | LitNoRegion
  | LitRegionIncomplete | LitRegionSize | LitPaletteEmpty | LitStatesShort

definition read_litematic_root :: "byte list \<Rightarrow> (litematic_error, streamed_root \<times> byte list) result" where
  "read_litematic_root bytes =
    (case read_type False bytes of
       Inl e \<Rightarrow> Inl (LitParse e)
     | Inr (ty, bs1) \<Rightarrow>
         if ty \<noteq> TCompound then Inl LitNotCompound
         else
           (case and_then (read_string Big bs1) (\<lambda>(name, bs2). read_fields Big root_field empty_root bs2) of
              Inl e \<Rightarrow> Inl (LitParse e)
            | Inr r \<Rightarrow> Inr r))"

definition required_region_fields_valid :: "streamed_region \<Rightarrow> bool" where
  "required_region_fields_valid r \<longleftrightarrow>
    position_state r = Valid \<and> size_state r = Valid \<and> palette_state r = Valid \<and>
    block_states_state r = Valid"

section \<open>The packed block states\<close>

text \<open>\<open>bits_for_palette\<close> (the same in \<open>litematic_writer.cpp\<close>): the bits of the last index, at least two.\<close>

fun bit_count :: "nat \<Rightarrow> nat" where
  "bit_count v = (if v = 0 then 0 else Suc (bit_count (v div 2)))"

declare bit_count.simps [simp del]

definition bits_for_palette :: "nat \<Rightarrow> nat" where
  "bits_for_palette n = max 2 (bit_count (if 0 < n then n - 1 else 0))"

definition palette_index_at :: "64 word list \<Rightarrow> nat \<Rightarrow> nat \<Rightarrow> nat" where
  "palette_index_at packed bits index =
    (let start_bit = nat (u64 (int index * int bits));
         w = start_bit div 64;
         offset = start_bit mod 64
     in if length packed \<le> w then 0
        else
          let low = drop_bit offset (packed ! w);
              value = (if 64 < offset + bits \<and> w + 1 < length packed
                       then low OR push_bit (64 - offset) (packed ! (w + 1)) else low)
          in unat (ucast (value AND (push_bit bits 1 - 1)) :: 32 word))"

section \<open>The structure\<close>

record litematic =
  lit_size :: wsize
  lit_original_size :: wsize
  lit_offset :: block_pos
  region_origin :: block_pos
  lit_palette :: "runtime_id list"
  lit_packed :: "64 word list"
  lit_entities :: "(block_pos \<times> nbt_payload) list"
  bits_per_block :: nat
  lit_non_air :: nat

definition lit_set_offset :: "block_pos \<Rightarrow> litematic \<Rightarrow> litematic" where
  "lit_set_offset off s = s\<lparr>lit_offset := off, lit_size := offset_size (lit_original_size s) off\<rparr>"

definition lit_unknown_state :: block_state where
  "lit_unknown_state = \<lparr>state_name = ''minecraft:unknown'', states = [], state_version = 0\<rparr>"

definition find_unknown :: "registry \<Rightarrow> runtime_id \<times> registry" where
  "find_unknown reg =
    (case find_runtime reg ''minecraft:unknown'' [] 0 of
       Some rid \<Rightarrow> (rid, reg)
     | None \<Rightarrow> register_state lit_unknown_state reg)"

definition resolve_entry :: "registry \<Rightarrow> runtime_id \<Rightarrow> string \<Rightarrow> runtime_id" where
  "resolve_entry reg unknown entry =
    (case compatible_java_runtime_id reg entry of Some rid \<Rightarrow> rid | None \<Rightarrow> unknown)"

definition count_non_air :: "runtime_id \<Rightarrow> runtime_id list \<Rightarrow> 64 word list \<Rightarrow> nat \<Rightarrow> nat \<Rightarrow> nat" where
  "count_non_air air palette packed bits volume_count =
    length (filter (\<lambda>i. palette_index_at packed bits i < length palette \<and>
      palette ! palette_index_at packed bits i \<noteq> air) [0..<volume_count])"

definition region_box :: "streamed_region \<Rightarrow> wsize" where
  "region_box r = \<lparr>width = s32 \<bar>pos_x (signed_size r)\<bar>, height = s32 \<bar>pos_y (signed_size r)\<bar>,
    len = s32 \<bar>pos_z (signed_size r)\<bar>\<rparr>"

definition build_litematic ::
  "streamed_region \<Rightarrow> registry \<Rightarrow> (litematic_error, litematic) result \<times> registry" where
  "build_litematic r reg =
    (let sz = region_box r
     in if width sz \<le> 0 \<or> height sz \<le> 0 \<or> len sz \<le> 0 then (Inl LitRegionSize, reg)
        else
          let (unknown, reg1) = find_unknown reg;
              palette = map (resolve_entry reg1 unknown) (region_palette r)
          in if palette = [] then (Inl LitPaletteEmpty, reg1)
             else
               let bits = bits_for_palette (length palette);
                   vol = u64 (volume sz)
               in if UINT64_MAX div int bits < vol then (Inl LitStatesShort, reg1)
                  else if u64 (int (length (packed_states r)) * 64) < u64 (vol * int bits) then (Inl LitStatesShort, reg1)
                  else
                    (Inr (lit_set_offset (BlockPos 0 0 0)
                       \<lparr>lit_size = zero_size, lit_original_size = sz, lit_offset = BlockPos 0 0 0,
                        region_origin = region_position r, lit_palette = palette, lit_packed = packed_states r,
                        lit_entities = region_entities r, bits_per_block = bits,
                        lit_non_air = count_non_air (air_runtime_id reg1) palette (packed_states r) bits (nat vol)\<rparr>),
                     reg1))"

definition litematic_read ::
  "byte list \<Rightarrow> registry \<Rightarrow> (litematic_error, litematic) result \<times> registry" where
  "litematic_read bytes reg =
    (case read_litematic_root bytes of
       Inl e \<Rightarrow> (Inl e, reg)
     | Inr (root, rest) \<Rightarrow>
         if \<not> regions_present root \<or> \<not> regions_is_compound root then (Inl LitNoRegions, reg)
         else if \<not> has_entry (root_regions root) \<or> \<not> selected_is_compound (root_regions root)
         then (Inl LitNoRegion, reg)
         else if \<not> required_region_fields_valid (selected (root_regions root)) then (Inl LitRegionIncomplete, reg)
         else build_litematic (selected (root_regions root)) reg)"

section \<open>Requests\<close>

definition litematic_look :: "runtime_id \<Rightarrow> litematic \<Rightarrow> nat \<Rightarrow> (litematic_error, runtime_id option) result" where
  "litematic_look air s i =
    (let k = palette_index_at (lit_packed s) (bits_per_block s) i
     in if length (lit_palette s) \<le> k then Inr None
        else if lit_palette s ! k = air then Inr None
        else Inr (Some (lit_palette s ! k)))"

definition litematic_chunks_impl ::
  "runtime_id \<Rightarrow> litematic \<Rightarrow> chunk_pos list \<Rightarrow> bool \<Rightarrow> (litematic_error, chunk_map) result" where
  "litematic_chunks_impl air s positions include_layer1 =
    dense_chunks air include_layer1 (lit_original_size s) (lit_offset s) (litematic_look air s) positions"

definition litematic_chunks where
  "litematic_chunks air s positions = litematic_chunks_impl air s positions True"

definition litematic_chunks_layer0 where
  "litematic_chunks_layer0 air s positions = litematic_chunks_impl air s positions False"

text \<open>The entities are delivered by the same loop as those of the sparse store.\<close>

definition litematic_chunk_nbt :: "litematic \<Rightarrow> chunk_pos list \<Rightarrow> nbt_chunk_map" where
  "litematic_chunk_nbt s positions =
    fold (deliver_entity (lit_offset s)) (lit_entities s) (emplace_all [] positions)"

definition litematic_count_non_air :: "litematic \<Rightarrow> nat" where
  "litematic_count_non_air s = lit_non_air s"

end
