(* ===== verification/WS_NbtTree.thy ===== *)
theory WS_NbtTree
  imports WS_Nbt
begin

text \<open>
  What the library's reader returns: the type that was asked for, values that can be written
  again, and the same value when more levels are allowed. A reader that goes through the
  stream without building the tree is compared with it field by field: the simulation
  lemmas of this theory turn a statement about each field into one about whole compounds
  and lists.
\<close>

section \<open>The root compound\<close>

definition read_compound :: "endian \<Rightarrow> byte list \<Rightarrow> (nbt_error, string \<times> (string \<times> nbt) list \<times> byte list) result" where
  "read_compound e bytes =
    and_then (read_type False bytes) (\<lambda>(ty, bs1).
      if ty \<noteq> TCompound then Inl InvalidPayload
      else
        and_then (read_string e bs1) (\<lambda>(key, bs2).
        and_then (read_payload (MAX_DEPTH + 1) e TCompound bs2) (\<lambda>(t, rest).
          case t of NCompound kvs \<Rightarrow> Inr (key, kvs, rest) | _ \<Rightarrow> Inl InvalidPayload)))"

section \<open>Simulations\<close>

lemma read_payload_type: "read_payload r e ty bs = Inr (t, rest) \<Longrightarrow> nbt_type t = ty"
  by (cases r; cases ty) (auto simp: and_then_eq_Inr_iff split: if_splits)

lemma read_compound_shape: "read_payload r e TCompound bs = Inr (t, rest) \<Longrightarrow> \<exists>kvs. t = NCompound kvs"
  by (cases r) (auto simp: and_then_eq_Inr_iff)

lemma read_list_shape: "read_payload r e TList bs = Inr (t, rest) \<Longrightarrow> \<exists>el ts. t = NList el ts"
  by (cases r) (auto simp: and_then_eq_Inr_iff split: if_splits)

lemma read_compoundE:
  assumes "read_compound e bytes = Inr (name, kvs, rest)"
  obtains bs1 bs2 where "read_type False bytes = Inr (TCompound, bs1)" "read_string e bs1 = Inr (name, bs2)"
    "read_payload (MAX_DEPTH + 1) e TCompound bs2 = Inr (NCompound kvs, rest)"
proof -
  obtain bs1 bs2 key t r where r: "read_type False bytes = Inr (TCompound, bs1)" "read_string e bs1 = Inr (key, bs2)"
    "read_payload (MAX_DEPTH + 1) e TCompound bs2 = Inr (t, r)"
    and t: "(case t of NCompound kvs \<Rightarrow> Inr (key, kvs, r) | _ \<Rightarrow> Inl InvalidPayload) = Inr (name, kvs, rest)"
    using assms by (auto simp: read_compound_def and_then_eq_Inr_iff simp del: read_payload.simps split: if_splits)
  obtain kvs' where "t = NCompound kvs'" using read_compound_shape [OF r(3)] by blast
  with r t show thesis by (intro that) simp_all
qed

lemma read_compound_written:
  assumes w: "write_tag e name (NCompound kvs) = Inr b" and f: "fits (MAX_DEPTH + 1) (NCompound kvs)"
  shows "read_compound e (b @ rest) = Inr (name, kvs, rest)"
proof -
  obtain n pay where n: "write_string e name = Inr n" "write_payload e (NCompound kvs) = Inr pay"
    and b: "b = type_code TCompound # n @ pay"
    using w by (auto simp: write_tag_def and_then_eq_Inr_iff simp del: write_payload.simps)
  have t: "read_type False (type_code TCompound # n @ pay @ rest) = Inr (TCompound, n @ pay @ rest)"
    by (simp only: read_type_def list.case type_of_code_code option.case) simp
  have "read_payload (MAX_DEPTH + 1) e TCompound (pay @ rest) = Inr (NCompound kvs, rest)"
    using read_payload_written [OF f n(2), of rest] by (simp del: read_payload.simps)
  with t read_string_written [OF n(1), of "pay @ rest"] show ?thesis
    unfolding b by (simp add: read_compound_def del: read_payload.simps type_code.simps)
qed

text \<open>The body of the library's compound loop.\<close>

definition tree_field ::
  "nat \<Rightarrow> endian \<Rightarrow> string \<Rightarrow> tag_type \<Rightarrow> (string \<times> nbt) list \<Rightarrow> byte list \<Rightarrow>
   (nbt_error, (string \<times> nbt) list \<times> byte list) result" where
  "tree_field r e key ty kvs bs = and_then (read_payload r e ty bs) (\<lambda>(t, rest). Inr (omap_emplace key t kvs, rest))"

lemma read_compound_fields:
  "read_payload (Suc r) e TCompound bs =
    and_then (read_fields e (tree_field r e) [] bs) (\<lambda>(kvs, rest). Inr (NCompound kvs, rest))"
proof -
  have "tree_field r e = (\<lambda>key ty' kvs bs'.
      and_then (read_payload r e ty' bs') (\<lambda>(t, rest). Inr (omap_emplace key t kvs, rest)))"
    by (intro ext) (simp add: tree_field_def)
  then show ?thesis by simp
qed

lemma omap_ok_emplace: "omap_ok m \<Longrightarrow> omap_ok (omap_emplace k v m)"
  by (auto simp: omap_emplace_def omap_ok_put split: option.split)

lemma omap_find_emplace:
  "omap_ok m \<Longrightarrow> omap_find (omap_emplace k v m) j =
    (if j = k then Some (case omap_find m k of Some w \<Rightarrow> w | None \<Rightarrow> v) else omap_find m j)"
  by (auto simp: omap_emplace_def omap_find_put split: option.split)

lemma fields_loop_sim:
  assumes step: "\<And>key ty t kvs s bs rest. \<lbrakk>omap_ok kvs; R kvs s; read_payload r e ty bs = Inr (t, rest)\<rbrakk> \<Longrightarrow>
      \<exists>s'. body key ty s bs = Inr (s', rest) \<and> R (omap_emplace key t kvs) s'"
  shows "\<lbrakk>fields_loop n e (tree_field r e) kvs bs = Inr (kvs', rest); omap_ok kvs; R kvs s\<rbrakk> \<Longrightarrow>
    omap_ok kvs' \<and> (\<exists>s'. fields_loop n e body s bs = Inr (s', rest) \<and> R kvs' s')"
proof (induction n arbitrary: kvs s bs)
  case (Suc n)
  from Suc.prems(1) obtain ty bs1 where ty: "read_type True bs = Inr (ty, bs1)"
    and l: "(if ty = TEnd then Inr (kvs, bs1) else and_then (read_string e bs1) (\<lambda>(key, bs2).
        and_then (tree_field r e key ty kvs bs2) (\<lambda>(s', bs3). fields_loop n e (tree_field r e) s' bs3))) = Inr (kvs', rest)"
    by (auto simp: and_then_eq_Inr_iff)
  show ?case
  proof (cases "ty = TEnd")
    case True
    with l ty Suc.prems show ?thesis by auto
  next
    case False
    with l obtain key bs2 t bs3 where k: "read_string e bs1 = Inr (key, bs2)" "read_payload r e ty bs2 = Inr (t, bs3)"
      "fields_loop n e (tree_field r e) (omap_emplace key t kvs) bs3 = Inr (kvs', rest)"
      by (auto simp: and_then_eq_Inr_iff tree_field_def)
    obtain s' where s': "body key ty s bs2 = Inr (s', bs3)" "R (omap_emplace key t kvs) s'"
      using step [OF Suc.prems(2,3) k(2)] by blast
    show ?thesis
      using Suc.IH [OF k(3) omap_ok_emplace [OF Suc.prems(2)] s'(2)] False ty k(1) s'(1) by simp
  qed
qed simp

lemma compound_sim:
  assumes "read_payload (Suc r) e TCompound bs = Inr (NCompound kvs, rest)"
    and step: "\<And>key ty t kvs bs rest. \<lbrakk>omap_ok kvs; read_payload r e ty bs = Inr (t, rest)\<rbrakk> \<Longrightarrow>
      body key ty (f kvs) bs = Inr (f (omap_emplace key t kvs), rest)"
  shows "omap_ok kvs \<and> read_fields e body (f []) bs = Inr (f kvs, rest)"
proof -
  have dom: "fields_loop (Suc (length bs)) e (tree_field r e) [] bs = Inr (kvs, rest)"
    using assms(1) unfolding read_compound_fields by (auto simp: and_then_eq_Inr_iff read_fields_def)
  have "omap_ok kvs \<and> (\<exists>s'. fields_loop (Suc (length bs)) e body (f []) bs = Inr (s', rest) \<and> s' = f kvs)"
    by (rule fields_loop_sim [where R = "\<lambda>kvs s. s = f kvs", OF _ dom])
      (simp_all add: step omap_ok_def)
  then show ?thesis by (simp add: read_fields_def)
qed

lemma read_elems_sim:
  assumes "\<And>bs t rest. rd bs = Inr (t, rest) \<Longrightarrow> f bs = Inr (g t, rest)"
  shows "read_elems n rd bs = Inr (ts, rest) \<Longrightarrow> read_elems n f bs = Inr (map g ts, rest)"
proof (induction n arbitrary: bs ts)
  case (Suc n)
  then obtain t bs1 ts' where "rd bs = Inr (t, bs1)" "read_elems n rd bs1 = Inr (ts', rest)" "ts = t # ts'"
    by (auto simp: and_then_eq_Inr_iff)
  with Suc.IH [of bs1 ts'] assms [of bs t bs1] show ?case by simp
qed simp

section \<open>More levels read the same\<close>

lemma read_elems_pred:
  assumes "\<And>bs t rest. rd bs = Inr (t, rest) \<Longrightarrow> P t"
  shows "read_elems n rd bs = Inr (ts, rest) \<Longrightarrow> length ts = n \<and> (\<forall>t \<in> set ts. P t)"
proof (induction n arbitrary: bs ts)
  case (Suc n)
  then obtain t bs1 ts' where "rd bs = Inr (t, bs1)" "read_elems n rd bs1 = Inr (ts', rest)" "ts = t # ts'"
    by (auto simp: and_then_eq_Inr_iff)
  with Suc.IH [of bs1 ts'] assms [of bs t bs1] show ?case by simp
qed simp

lemma read_payload_Suc:
  "read_payload r e ty bs = Inr (t, rest) \<Longrightarrow> read_payload (Suc r) e ty bs = Inr (t, rest)"
proof (induction r arbitrary: ty bs t rest)
  case (Suc r)
  show ?case
  proof (cases ty)
    case TList
    with Suc.prems obtain el bs1 n bs2 where l: "read_type True bs = Inr (el, bs1)" "read_length e bs1 = Inr (n, bs2)"
      and r: "(if el = TEnd then Inr (NList TEnd [], bs2)
        else and_then (read_elems n (read_payload r e el) bs2) (\<lambda>(ts, rest). Inr (NList el ts, rest))) = Inr (t, rest)"
      by (auto simp: and_then_eq_Inr_iff)
    show ?thesis
    proof (cases "el = TEnd")
      case True
      with l r TList show ?thesis by simp
    next
      case False
      with r obtain ts where ts: "read_elems n (read_payload r e el) bs2 = Inr (ts, rest)" "t = NList el ts"
        by (auto simp: and_then_eq_Inr_iff)
      have "read_elems n (read_payload (Suc r) e el) bs2 = Inr (map id ts, rest)"
        by (rule read_elems_sim [OF _ ts(1)]) (simp add: Suc.IH del: read_payload.simps)
      with l False ts(2) show ?thesis
        unfolding TList read_payload.simps(2) [of "Suc r"] by (simp del: read_payload.simps)
    qed
  next
    case TCompound
    with Suc.prems obtain kvs where t: "t = NCompound kvs" using read_compound_shape by blast
    have "read_fields e (tree_field (Suc r) e) (id []) bs = Inr (id kvs, rest)"
      by (rule compound_sim [THEN conjunct2, OF Suc.prems [unfolded TCompound t]])
        (simp add: tree_field_def Suc.IH del: read_payload.simps)
    then show ?thesis unfolding TCompound t read_compound_fields by simp
  qed (use Suc.prems in simp_all)
qed simp

lemma read_payload_mono:
  assumes "read_payload r e ty bs = Inr (t, rest)" and "r \<le> r'"
  shows "read_payload r' e ty bs = Inr (t, rest)"
proof -
  have "read_payload (r + k) e ty bs = Inr (t, rest)" for k
    using assms(1) by (induction k) (simp_all add: read_payload_Suc del: read_payload.simps(2))
  from this [of "r' - r"] assms(2) show ?thesis by simp
qed

section \<open>What was read can be written\<close>

lemma read_string_length:
  assumes "read_string e bs = Inr (s, rest)"
  shows "length s \<le> 65535"
proof -
  obtain n :: "16 word" where "length s = unat n"
    using assms by (auto simp: read_string_def and_then_eq_Inr_iff read_bytes_def split: if_splits)
  then show ?thesis using unsigned_less [of n, where 'a = nat] by simp
qed

lemma append_each_ok: "(\<And>x. x \<in> set xs \<Longrightarrow> \<exists>b. f x = Inr b) \<Longrightarrow> \<exists>b. append_each f xs = Inr b"
proof (induction xs)
  case (Cons x xs)
  from Cons.prems [of x] obtain a where "f x = Inr a" by auto
  moreover have "\<exists>b. append_each f xs = Inr b" using Cons.prems by (intro Cons.IH) simp
  ultimately show ?case by auto
qed simp

definition writable :: "nbt \<Rightarrow> bool" where
  "writable t \<longleftrightarrow> (\<forall>e. \<exists>b. write_payload e t = Inr b)"

lemma fields_loop_pred:
  assumes "fields_loop n e (tree_field r e) kvs bs = Inr (kvs', rest)"
    and "list_all (\<lambda>kv. length (fst kv) \<le> 65535 \<and> P (snd kv)) kvs"
    and "\<And>ty bs t rest. read_payload r e ty bs = Inr (t, rest) \<Longrightarrow> P t"
  shows "list_all (\<lambda>kv. length (fst kv) \<le> 65535 \<and> P (snd kv)) kvs'"
  using assms(1,2)
proof (induction n arbitrary: kvs bs)
  case (Suc n)
  have keep: "list_all Q (omap_emplace k v m)" if "list_all Q m" "Q (k, v)" for Q k v and m :: "(string \<times> nbt) list"
  proof -
    have "list_all Q (omap_put k v m)" using that by (induction k v m rule: omap_put.induct) auto
    with that(1) show ?thesis by (simp add: omap_emplace_def split: option.split)
  qed
  from Suc.prems(1) obtain ty bs1 where "read_type True bs = Inr (ty, bs1)"
    and l: "(if ty = TEnd then Inr (kvs, bs1) else and_then (read_string e bs1) (\<lambda>(key, bs2).
        and_then (tree_field r e key ty kvs bs2) (\<lambda>(s', bs3). fields_loop n e (tree_field r e) s' bs3))) = Inr (kvs', rest)"
    by (auto simp: and_then_eq_Inr_iff)
  show ?case
  proof (cases "ty = TEnd")
    case True
    with l Suc.prems(2) show ?thesis by simp
  next
    case False
    with l obtain key bs2 t bs3 where k: "read_string e bs1 = Inr (key, bs2)" "read_payload r e ty bs2 = Inr (t, bs3)"
      "fields_loop n e (tree_field r e) (omap_emplace key t kvs) bs3 = Inr (kvs', rest)"
      by (auto simp: and_then_eq_Inr_iff tree_field_def)
    show ?thesis
      by (rule Suc.IH [OF k(3)], rule keep [OF Suc.prems(2)])
        (use read_string_length [OF k(1)] assms(3) [OF k(2)] in simp)
  qed
qed simp

lemma write_length_ok: "int n \<le> INT32_MAX \<Longrightarrow> \<exists>b. write_length e n = Inr b"
  by (simp add: write_length_def)

lemma read_payload_writable:
  "read_payload r e ty bs = Inr (t, rest) \<Longrightarrow> writable t"
proof (induction r arbitrary: ty bs t rest)
  case (Suc r)
  have arr: "\<exists>b. write_length e' (length vs) = Inr b"
    if "read_length e bs = Inr (n, bs1)" "read_elems n rd bs1 = Inr (vs, rest)"
    for n bs1 e' and rd :: "byte list \<Rightarrow> (nbt_error, 'v \<times> byte list) result" and vs
    using read_length_int32 [OF that(1)] read_elems_pred [of rd "\<lambda>_. True", OF _ that(2)]
    by (auto intro: write_length_ok)
  show ?case
  proof (cases ty)
    case TList
    with Suc.prems obtain el bs1 n bs2 where l: "read_length e bs1 = Inr (n, bs2)"
      and r: "(if el = TEnd then Inr (NList TEnd [], bs2)
        else and_then (read_elems n (read_payload r e el) bs2) (\<lambda>(ts, rest). Inr (NList el ts, rest))) = Inr (t, rest)"
      by (auto simp: and_then_eq_Inr_iff)
    show ?thesis
    proof (cases "el = TEnd")
      case True
      with r show ?thesis by (auto simp: writable_def write_length_def range_simps)
    next
      case False
      with r obtain ts where ts: "read_elems n (read_payload r e el) bs2 = Inr (ts, rest)" "t = NList el ts"
        by (auto simp: and_then_eq_Inr_iff)
      have el: "length ts = n \<and> (\<forall>t \<in> set ts. nbt_type t = el \<and> writable t)"
        by (rule read_elems_pred [OF _ ts(1)]) (use read_payload_type Suc.IH in blast)
      then have "\<exists>b. append_each (\<lambda>t. if nbt_type t \<noteq> el then Inl ListTypeMismatch else write_payload e' t) ts = Inr b" for e'
        by (intro append_each_ok) (auto simp: writable_def)
      moreover have "\<exists>b. write_length e' (length ts) = Inr b" for e'
        using el read_length_int32 [OF l] by (auto intro: write_length_ok)
      ultimately have "\<exists>b. write_payload e' t = Inr b" for e'
        unfolding ts(2) write_payload.simps and_then_eq_Inr_iff by blast
      then show ?thesis by (simp add: writable_def)
    qed
  next
    case TCompound
    with Suc.prems obtain kvs where t: "t = NCompound kvs" using read_compound_shape by blast
    have "fields_loop (Suc (length bs)) e (tree_field r e) [] bs = Inr (kvs, rest)"
      using Suc.prems unfolding TCompound t read_compound_fields by (auto simp: and_then_eq_Inr_iff read_fields_def)
    from fields_loop_pred [OF this, of writable] Suc.IH
    have kvs: "list_all (\<lambda>kv. length (fst kv) \<le> 65535 \<and> writable (snd kv)) kvs" by simp
    have "\<exists>b. write_fields e' kvs = Inr b" for e'
      unfolding write_fields_def
    proof (rule append_each_ok)
      fix kv assume "kv \<in> set kvs"
      with kvs have "length (fst kv) \<le> 65535" "writable (snd kv)" by (auto simp: list_all_iff)
      then obtain b where "write_payload e' (snd kv) = Inr b" by (auto simp: writable_def)
      with \<open>length (fst kv) \<le> 65535\<close> show "\<exists>b. and_then (write_string e' (fst kv)) (\<lambda>k.
          and_then (write_payload e' (snd kv)) (\<lambda>b. Inr (type_code (nbt_type (snd kv)) # k @ b))) = Inr b"
        by (simp add: write_string_def)
    qed
    then have "\<exists>b. write_payload e' t = Inr b" for e'
      unfolding t write_compound and_then_eq_Inr_iff by blast
    then show ?thesis by (simp add: writable_def)
  next
    case TString
    with Suc.prems obtain s where "t = NString s" "read_string e bs = Inr (s, rest)"
      by (auto simp: and_then_eq_Inr_iff)
    then show ?thesis using read_string_length [of e bs s rest] by (simp add: writable_def write_string_def)
  next
    case TByteArray
    with Suc.prems obtain n bs1 where "read_length e bs = Inr (n, bs1)" "t = NByteArray (take n bs1)"
      by (auto simp: and_then_eq_Inr_iff read_bytes_def split: if_splits)
    then show ?thesis using read_length_int32 [of e bs n bs1]
      by (auto simp: writable_def write_length_def range_simps)
  next
    case TIntArray
    with Suc.prems obtain n bs1 vs where "read_length e bs = Inr (n, bs1)" "read_elems n (read_num e) bs1 = Inr (vs, rest)"
      "t = NIntArray vs" by (auto simp: and_then_eq_Inr_iff)
    with arr [OF this(1,2)] show ?thesis unfolding writable_def by (auto simp: and_then_eq_Inr_iff)
  next
    case TLongArray
    with Suc.prems obtain n bs1 vs where "read_length e bs = Inr (n, bs1)" "read_elems n (read_num e) bs1 = Inr (vs, rest)"
      "t = NLongArray vs" by (auto simp: and_then_eq_Inr_iff)
    with arr [OF this(1,2)] show ?thesis unfolding writable_def by (auto simp: and_then_eq_Inr_iff)
  qed (use Suc.prems in \<open>auto simp: and_then_eq_Inr_iff writable_def\<close>)
qed simp

end
