(* ===== verification/WS_LitematicTree.thy ===== *)
theory WS_LitematicTree
  imports WS_Litematic WS_NbtTree
begin

text \<open>
  The streaming reader of Litematic files against the tree the library builds. The comments
  of \<open>litematic.cpp\<close> promise that it finds what a reader of the whole tree would: the first
  occurrence of a key counts, the region is the first in the order of the names, whatever
  the order on disk. The functions \<open>\<dots>_of\<close> are that reader, functions on trees; each
  streaming function returns the same on every stream the library accepts.
\<close>

section \<open>Reading a tree\<close>

fun int_of_tag :: "nbt \<Rightarrow> int option" where
  "int_of_tag (NByte v) = Some (sint v)"
| "int_of_tag (NShort v) = Some (sint v)"
| "int_of_tag (NInt v) = Some (sint v)"
| "int_of_tag (NLong v) = Some (s32 (sint v))"
| "int_of_tag _ = None"

definition int_or_0 :: "(string \<times> nbt) list \<Rightarrow> string \<Rightarrow> int" where
  "int_or_0 kvs key = (case int_value kvs key of Some v \<Rightarrow> v | None \<Rightarrow> 0)"

definition xyz_of :: "(string \<times> nbt) list \<Rightarrow> block_pos" where
  "xyz_of kvs = BlockPos (int_or_0 kvs ''x'') (int_or_0 kvs ''y'') (int_or_0 kvs ''z'')"

fun property_of_tag :: "nbt \<Rightarrow> string option" where
  "property_of_tag (NByte v) = Some (if v = 0 then ''false'' else ''true'')"
| "property_of_tag (NShort v) = Some (to_string (sint v))"
| "property_of_tag (NInt v) = Some (to_string (sint v))"
| "property_of_tag (NLong v) = Some (to_string (sint v))"
| "property_of_tag (NString s) = Some s"
| "property_of_tag _ = None"

definition properties_of :: "(string \<times> nbt) list \<Rightarrow> encoded_properties" where
  "properties_of kvs = map (\<lambda>kv. (fst kv, property_of_tag (snd kv))) kvs"

definition entry_of :: "(string \<times> nbt) list \<Rightarrow> entry_scan" where
  "entry_of kvs =
    \<lparr>entry_name = (case omap_find kvs ''Name'' of Some (NString s) \<Rightarrow> s | _ \<Rightarrow> ''minecraft:unknown''),
     seen_name = (omap_find kvs ''Name'' \<noteq> None),
     seen_properties = (omap_find kvs ''Properties'' \<noteq> None),
     entry_properties = (case omap_find kvs ''Properties'' of
       Some (NCompound ps) \<Rightarrow> Some (properties_of ps) | _ \<Rightarrow> None)\<rparr>"

fun entry_text_of :: "nbt \<Rightarrow> string" where
  "entry_text_of (NCompound kvs) = entry_text (entry_of kvs)"
| "entry_text_of _ = ''minecraft:unknown''"

fun entity_of_tag :: "nbt \<Rightarrow> (block_pos \<times> nbt_payload) option" where
  "entity_of_tag (NCompound kvs) =
     (case (int_value kvs ''x'', int_value kvs ''y'', int_value kvs ''z'', serialize_compound kvs) of
        (Some x, Some y, Some z, Inr payload) \<Rightarrow> Some (BlockPos x y z, payload)
      | _ \<Rightarrow> None)"
| "entity_of_tag _ = None"

definition state_of :: "(string \<times> nbt) list \<Rightarrow> string \<Rightarrow> tag_type \<Rightarrow> field_state" where
  "state_of kvs key ty =
    (case omap_find kvs key of None \<Rightarrow> Missing | Some t \<Rightarrow> if nbt_type t = ty then Valid else WrongType)"

definition region_of :: "(string \<times> nbt) list \<Rightarrow> streamed_region" where
  "region_of kvs =
    \<lparr>position_state = state_of kvs ''Position'' TCompound,
     size_state = state_of kvs ''Size'' TCompound,
     palette_state = state_of kvs ''BlockStatePalette'' TList,
     block_states_state = state_of kvs ''BlockStates'' TLongArray,
     region_position = (case omap_find kvs ''Position'' of Some (NCompound p) \<Rightarrow> xyz_of p | _ \<Rightarrow> BlockPos 0 0 0),
     signed_size = (case omap_find kvs ''Size'' of Some (NCompound p) \<Rightarrow> xyz_of p | _ \<Rightarrow> BlockPos 0 0 0),
     region_palette = (case omap_find kvs ''BlockStatePalette'' of Some (NList el ts) \<Rightarrow> map entry_text_of ts | _ \<Rightarrow> []),
     packed_states = (case omap_find kvs ''BlockStates'' of Some (NLongArray ws) \<Rightarrow> ws | _ \<Rightarrow> []),
     region_entities = (case omap_find kvs ''TileEntities'' of
       Some (NList el ts) \<Rightarrow> List.map_filter entity_of_tag ts | _ \<Rightarrow> [])\<rparr>"

definition regions_of :: "(string \<times> nbt) list \<Rightarrow> streamed_regions" where
  "regions_of kvs =
    (case kvs of
       [] \<Rightarrow> empty_regions
     | (name, t) # _ \<Rightarrow>
         \<lparr>has_entry = True, selected_is_compound = (nbt_type t = TCompound), selected_name = name,
          selected = (case t of NCompound r \<Rightarrow> region_of r | _ \<Rightarrow> empty_region)\<rparr>)"

definition root_of :: "(string \<times> nbt) list \<Rightarrow> streamed_root" where
  "root_of kvs =
    (case omap_find kvs ''Regions'' of
       None \<Rightarrow> empty_root
     | Some t \<Rightarrow>
         \<lparr>regions_present = True, regions_is_compound = (nbt_type t = TCompound),
          root_regions = (case t of NCompound rs \<Rightarrow> regions_of rs | _ \<Rightarrow> empty_regions)\<rparr>)"

section \<open>Each streaming function reads what the tree holds\<close>

definition lv :: "nat \<Rightarrow> nat" where "lv d = MAX_DEPTH + 1 - d"

lemma skip_tree:
  "read_payload (lv d) Big ty bs = Inr (t, rest) \<Longrightarrow> skip_keeping d ty s bs = Inr (s, rest)"
  by (simp add: skip_keeping_def lit_skip_def lv_def skip_payload_eq)

lemma lv_levels:
  assumes "read_payload (lv d) e ty bs = Inr (t, rest)"
  shows "d \<le> MAX_DEPTH" "lv d = Suc (lv (d + 1))" "check_depth d = Inr ()"
proof -
  show d: "d \<le> MAX_DEPTH" using assms by (cases "d \<le> MAX_DEPTH") (auto simp: lv_def)
  show "lv d = Suc (lv (d + 1))" "check_depth d = Inr ()"
    using d by (auto simp: lv_def check_depth_def)
qed

lemma compound_at:
  assumes r: "read_payload (lv d) Big TCompound bs = Inr (NCompound kvs, rest)"
    and step: "\<And>key ty t kvs bs rest. \<lbrakk>omap_ok kvs; read_payload (lv (d + 1)) Big ty bs = Inr (t, rest)\<rbrakk> \<Longrightarrow>
      body key ty (f kvs) bs = Inr (f (omap_emplace key t kvs), rest)"
  shows "check_depth d = Inr ()" "read_fields Big body (f []) bs = Inr (f kvs, rest)" "omap_ok kvs"
proof -
  show "check_depth d = Inr ()" by (rule lv_levels [OF r])
  have "omap_ok kvs \<and> read_fields Big body (f []) bs = Inr (f kvs, rest)"
    by (rule compound_sim [OF r [unfolded lv_levels(2) [OF r]]]) (rule step)
  then show "read_fields Big body (f []) bs = Inr (f kvs, rest)" "omap_ok kvs" by simp_all
qed

lemma int_value_tag: "int_value kvs key = (case omap_find kvs key of Some t \<Rightarrow> int_of_tag t | None \<Rightarrow> None)"
  unfolding int_value_def by (auto split: option.split nbt.split)

lemma read_int_tree:
  assumes r: "read_payload (lv d) Big ty bs = Inr (t, rest)"
  shows "read_int_value d ty bs = Inr (int_of_tag t, rest)"
proof -
  have s: "skip_keeping d ty None bs = Inr (None, rest)" using r by (rule skip_tree)
  have t: "nbt_type t = ty" using r by (rule read_payload_type)
  show ?thesis
    using r unfolding lv_levels(2) [OF r]
    by (cases t) (use s t in \<open>auto simp: read_int_value_def and_then_eq_Inr_iff\<close>)
qed

lemma read_property_tree:
  assumes r: "read_payload (lv d) Big ty bs = Inr (t, rest)"
  shows "read_property_value d ty bs = Inr (property_of_tag t, rest)"
proof -
  have s: "skip_keeping d ty None bs = Inr (None, rest)" using r by (rule skip_tree)
  have t: "nbt_type t = ty" using r by (rule read_payload_type)
  show ?thesis
    using r unfolding lv_levels(2) [OF r]
    by (cases t) (use s t in \<open>auto simp: read_property_value_def and_then_eq_Inr_iff\<close>)
qed

definition xyz_scan_of :: "(string \<times> nbt) list \<Rightarrow> xyz_scan" where
  "xyz_scan_of kvs = \<lparr>xyz_pos = xyz_of kvs, seen_x = (omap_find kvs ''x'' \<noteq> None),
    seen_y = (omap_find kvs ''y'' \<noteq> None), seen_z = (omap_find kvs ''z'' \<noteq> None)\<rparr>"

lemma read_xyz_tree:
  assumes r: "read_payload (lv d) Big TCompound bs = Inr (NCompound kvs, rest)"
  shows "read_xyz_compound d bs = Inr (xyz_of kvs, rest)"
proof -
  have "xyz_field d key ty (xyz_scan_of kvs) bs = Inr (xyz_scan_of (omap_emplace key t kvs), rest)"
    if ok: "omap_ok kvs" and c: "read_payload (lv (d + 1)) Big ty bs = Inr (t, rest)" for key ty t kvs bs rest
    using read_int_tree [OF c] skip_tree [OF c, of "xyz_scan_of kvs"] omap_find_emplace [OF ok, of key t]
    by (auto simp: xyz_field_def xyz_scan_of_def xyz_of_def int_or_0_def int_value_tag split: option.splits)
  from compound_at [OF r, of "xyz_field d" xyz_scan_of, OF this]
  have "check_depth d = Inr ()" "read_fields Big (xyz_field d) (xyz_scan_of []) bs = Inr (xyz_scan_of kvs, rest)"
    by simp_all
  moreover have "xyz_scan_of [] = empty_xyz"
    by (simp add: xyz_scan_of_def xyz_of_def int_or_0_def int_value_def empty_xyz_def omap_find_def)
  ultimately show ?thesis by (simp add: read_xyz_compound_def) (simp add: xyz_scan_of_def)
qed

lemma omap_find_map: "omap_find (map (\<lambda>kv. (fst kv, h (snd kv))) m) k = map_option h (omap_find m k)"
  unfolding omap_find_def by (induction m) auto

lemma omap_put_map:
  "omap_put k (h v) (map (\<lambda>kv. (fst kv, h (snd kv))) m) = map (\<lambda>kv. (fst kv, h (snd kv))) (omap_put k v m)"
  by (induction k v m rule: omap_put.induct) auto

lemma read_properties_tree:
  assumes r: "read_payload (lv d) Big TCompound bs = Inr (NCompound kvs, rest)"
  shows "read_properties_compound d bs = Inr (properties_of kvs, rest)"
proof -
  have "property_field d key ty (properties_of kvs) bs = Inr (properties_of (omap_emplace key t kvs), rest)"
    if ok: "omap_ok kvs" and c: "read_payload (lv (d + 1)) Big ty bs = Inr (t, rest)" for key ty t kvs bs rest
    using read_property_tree [OF c] skip_tree [OF c, of "properties_of kvs"]
    by (auto simp: property_field_def properties_of_def omap_find_map omap_put_map omap_emplace_def
        split: option.split)
  from compound_at [OF r, of "property_field d" properties_of, OF this]
  show ?thesis by (simp add: read_properties_compound_def properties_of_def)
qed

lemma read_entry_tree:
  assumes r: "read_payload (lv d) Big TCompound bs = Inr (NCompound kvs, rest)"
  shows "read_palette_entry d bs = Inr (entry_text (entry_of kvs), rest)"
proof -
  have "entry_field d key ty (entry_of kvs) bs = Inr (entry_of (omap_emplace key t kvs), rest)"
    if ok: "omap_ok kvs" and c: "read_payload (lv (d + 1)) Big ty bs = Inr (t, rest)" for key ty t kvs bs rest
  proof -
    note find = omap_find_emplace [OF ok]
    note skips = skip_tree [OF c]
    have ty: "nbt_type t = ty" using c by (rule read_payload_type)
    consider (name) "key = ''Name''" "omap_find kvs ''Name'' = None"
      | (props) "key = ''Properties''" "omap_find kvs ''Properties'' = None"
      | (other) "\<not> (key = ''Name'' \<and> omap_find kvs ''Name'' = None)"
          "\<not> (key = ''Properties'' \<and> omap_find kvs ''Properties'' = None)"
      by metis
    then show ?thesis
    proof cases
      case name
      show ?thesis
      proof (cases t)
        case (NString s)
        then have "read_string Big bs = Inr (s, rest)"
          using c ty unfolding lv_levels(2) [OF c] by (auto simp: and_then_eq_Inr_iff)
        with NString ty name show ?thesis by (auto simp: entry_field_def entry_of_def find)
      qed (use name ty skips in \<open>auto simp: entry_field_def entry_of_def find\<close>)
    next
      case props
      show ?thesis
      proof (cases t)
        case (NCompound ps)
        with ty c have "read_properties_compound (d + 1) bs = Inr (properties_of ps, rest)"
          by (intro read_properties_tree) simp
        with NCompound ty props show ?thesis by (auto simp: entry_field_def entry_of_def find)
      qed (use props ty skips in \<open>auto simp: entry_field_def entry_of_def find\<close>)
    next
      case other
      have e: "omap_find (omap_emplace key t kvs) ''Name'' = omap_find kvs ''Name''"
        "omap_find (omap_emplace key t kvs) ''Properties'' = omap_find kvs ''Properties''"
        using other by (auto simp: find split: option.split)
      then have "entry_of (omap_emplace key t kvs) = entry_of kvs" by (simp add: entry_of_def)
      moreover have "\<not> (key = ''Name'' \<and> \<not> seen_name (entry_of kvs))"
        "\<not> (key = ''Properties'' \<and> \<not> seen_properties (entry_of kvs))"
        using other by (simp_all add: entry_of_def)
      then have "entry_field d key ty (entry_of kvs) bs = skip_keeping (d + 1) ty (entry_of kvs) bs"
        unfolding entry_field_def by (simp only: if_False)
      ultimately show ?thesis using skips by simp
    qed
  qed
  from compound_at [OF r, of "entry_field d" entry_of, OF this]
  have "check_depth d = Inr ()" "read_fields Big (entry_field d) (entry_of []) bs = Inr (entry_of kvs, rest)"
    by simp_all
  moreover have "entry_of [] = empty_entry" by (simp add: entry_of_def empty_entry_def omap_find_def)
  ultimately show ?thesis by (simp add: read_palette_entry_def)
qed

lemma list_at:
  assumes r: "read_payload (lv d) Big TList bs = Inr (NList el ts, rest)"
  obtains bs1 n bs2 where "check_depth d = Inr ()" "read_type True bs = Inr (el, bs1)" "read_length Big bs1 = Inr (n, bs2)"
    "el = TEnd \<Longrightarrow> ts = [] \<and> rest = bs2"
    "el \<noteq> TEnd \<Longrightarrow> read_elems n (read_payload (lv (d + 1)) Big el) bs2 = Inr (ts, rest)"
proof -
  obtain el' bs1 n bs2 where l: "read_type True bs = Inr (el', bs1)" "read_length Big bs1 = Inr (n, bs2)"
    and e: "(if el' = TEnd then Inr (NList TEnd [], bs2)
      else and_then (read_elems n (read_payload (lv (d + 1)) Big el') bs2) (\<lambda>(ts, rest). Inr (NList el' ts, rest))) = Inr (NList el ts, rest)"
    using r unfolding lv_levels(2) [OF r] read_payload.simps tag_type.case and_then_eq_Inr_iff split_paired_Ex prod.case
    by blast
  have "el' = el" using e by (auto simp: and_then_eq_Inr_iff split: if_splits)
  with that [OF lv_levels(3) [OF r], of bs1 n bs2] l e show thesis
    by (auto simp: and_then_eq_Inr_iff split: if_splits)
qed

lemma read_palette_tree:
  assumes r: "read_payload (lv d) Big TList bs = Inr (NList el ts, rest)"
  shows "read_palette_list d bs = Inr (map entry_text_of ts, rest)"
proof (rule list_at [OF r])
  fix bs1 n bs2
  assume l: "check_depth d = Inr ()" "read_type True bs = Inr (el, bs1)" "read_length Big bs1 = Inr (n, bs2)"
    "el = TEnd \<Longrightarrow> ts = [] \<and> rest = bs2"
    "el \<noteq> TEnd \<Longrightarrow> read_elems n (read_payload (lv (d + 1)) Big el) bs2 = Inr (ts, rest)"
  let ?f = "\<lambda>bs'. if el = TCompound then read_palette_entry (d + 1) bs'
        else skip_keeping (d + 1) el ''minecraft:unknown'' bs'"
  have f: "?f bs = Inr (entry_text_of t, rest)" if c: "read_payload (lv (d + 1)) Big el bs = Inr (t, rest)" for bs t rest
  proof (cases "el = TCompound")
    case True
    with c obtain kvs where "t = NCompound kvs" using read_compound_shape by blast
    with c True show ?thesis using read_entry_tree [of "d + 1"] by auto
  next
    case False
    with read_payload_type [OF c] skip_tree [OF c] show ?thesis by (cases t) auto
  qed
  show ?thesis
  proof (cases "el = TEnd")
    case True
    with l show ?thesis by (simp add: read_palette_list_def)
  next
    case False
    have "read_elems n ?f bs2 = Inr (map entry_text_of ts, rest)"
      by (rule read_elems_sim [OF _ l(5) [OF False]]) (rule f)
    with l False show ?thesis by (simp add: read_palette_list_def)
  qed
qed

lemma read_entity_tree:
  assumes r: "read_payload (lv d) Big TCompound bs = Inr (t, rest)" and "1 \<le> d"
  shows "read_tile_entity bs = Inr (entity_of_tag t, rest)"
proof -
  obtain kvs where t: "t = NCompound kvs" using read_compound_shape [OF r] by blast
  have "read_payload MAX_DEPTH Big TCompound bs = Inr (t, rest)"
    using r assms(2) by (rule_tac read_payload_mono) (auto simp: lv_def)
  moreover obtain b where "write_payload Little (NCompound kvs) = Inr b"
    using read_payload_writable [OF r] unfolding t writable_def by blast
  then obtain payload where "serialize_compound kvs = Inr payload"
    by (simp add: serialize_compound_def write_tag_def write_string_def del: write_payload.simps)
  ultimately show ?thesis by (auto simp: read_tile_entity_def t split: option.split)
qed

lemma read_entities_tree:
  assumes r: "read_payload (lv d) Big TList bs = Inr (NList el ts, rest)"
  shows "read_tile_entities d bs = Inr (List.map_filter entity_of_tag ts, rest)"
proof (rule list_at [OF r])
  fix bs1 n bs2
  assume l: "check_depth d = Inr ()" "read_type True bs = Inr (el, bs1)" "read_length Big bs1 = Inr (n, bs2)"
    "el = TEnd \<Longrightarrow> ts = [] \<and> rest = bs2"
    "el \<noteq> TEnd \<Longrightarrow> read_elems n (read_payload (lv (d + 1)) Big el) bs2 = Inr (ts, rest)"
  let ?f = "\<lambda>bs'. if el \<noteq> TCompound then skip_keeping (d + 1) el None bs' else read_tile_entity bs'"
  have f: "?f bs = Inr (entity_of_tag t, rest)" if c: "read_payload (lv (d + 1)) Big el bs = Inr (t, rest)" for bs t rest
  proof (cases "el = TCompound")
    case True
    with c show ?thesis using read_entity_tree [of "d + 1"] by simp
  next
    case False
    with read_payload_type [OF c] skip_tree [OF c] show ?thesis by (cases t) auto
  qed
  have filter: "List.map_filter (\<lambda>e. e) (map entity_of_tag ts) = List.map_filter entity_of_tag ts"
    by (simp add: List.map_filter_def filter_map o_def)
  show ?thesis
  proof (cases "el = TEnd")
    case True
    with l show ?thesis by (simp add: read_tile_entities_def List.map_filter_def)
  next
    case False
    have "read_elems n ?f bs2 = Inr (map entity_of_tag ts, rest)"
      by (rule read_elems_sim [OF _ l(5) [OF False]]) (rule f)
    with l False filter show ?thesis by (simp add: read_tile_entities_def)
  qed
qed

definition region_scan_of :: "(string \<times> nbt) list \<Rightarrow> region_scan" where
  "region_scan_of kvs = (region_of kvs, omap_find kvs ''TileEntities'' \<noteq> None)"

lemma state_of_Missing [simp]: "state_of kvs key ty = Missing \<longleftrightarrow> omap_find kvs key = None"
  by (simp add: state_of_def split: option.split)

lemma region_field_tree:
  assumes ok: "omap_ok kvs" and c: "read_payload (lv (d + 1)) Big ty bs = Inr (t, rest)"
    and kvs': "omap_emplace key t kvs = kvs'"
  shows "region_field d key ty (region_scan_of kvs) bs = Inr (region_scan_of kvs', rest)"
proof -
  note find = omap_find_emplace [OF ok, of key t, unfolded kvs']
  have skips: "skip_keeping (Suc d) ty s bs = Inr (s, rest)" for s :: region_scan
    using skip_tree [OF c] by simp
  have ty: "ty = nbt_type t" using read_payload_type [OF c] by simp
  consider (known) "omap_find kvs key \<noteq> None"
    | (pos) "key = ''Position''" "omap_find kvs key = None"
    | (size) "key = ''Size''" "omap_find kvs key = None"
    | (palette) "key = ''BlockStatePalette''" "omap_find kvs key = None"
    | (blocks) "key = ''BlockStates''" "omap_find kvs key = None"
    | (ents) "key = ''TileEntities''" "omap_find kvs key = None"
    | (other) "key \<noteq> ''Position''" "key \<noteq> ''Size''" "key \<noteq> ''BlockStatePalette''"
        "key \<noteq> ''BlockStates''" "key \<noteq> ''TileEntities''"
    by blast
  then show ?thesis
  proof cases
    case known
    then have same: "kvs' = kvs" using kvs' by (auto simp: omap_emplace_def)
    have "region_field d key ty (region_scan_of kvs) bs = skip_keeping (d + 1) ty (region_scan_of kvs) bs"
    proof -
      have "\<not> (key = ''Position'' \<and> position_state (region_of kvs) = Missing)"
        "\<not> (key = ''Size'' \<and> size_state (region_of kvs) = Missing)"
        "\<not> (key = ''BlockStatePalette'' \<and> palette_state (region_of kvs) = Missing)"
        "\<not> (key = ''BlockStates'' \<and> block_states_state (region_of kvs) = Missing)"
        "\<not> (key = ''TileEntities'' \<and> \<not> omap_find kvs ''TileEntities'' \<noteq> None)"
        using known by (auto simp: region_of_def)
      then show ?thesis by (simp only: region_field_def region_scan_of_def Let_def fst_conv snd_conv if_False)
    qed
    with same skips show ?thesis by simp
  next
    case pos
    have f: "omap_find kvs' ''Position'' = Some t" "\<And>k. k \<noteq> ''Position'' \<Longrightarrow> omap_find kvs' k = omap_find kvs k"
      and p: "position_state (region_of kvs) = Missing" and n: "omap_find kvs ''Position'' = None"
      using pos find by (auto simp: region_of_def)
    show ?thesis
    proof (cases "ty = TCompound")
      case True
      then obtain p where t: "t = NCompound p" using ty by (cases t) auto
      have "read_xyz_compound (Suc d) bs = Inr (xyz_of p, rest)"
        using read_xyz_tree [of "d + 1"] c t True by simp
      then show ?thesis
        by (simp add: region_field_def region_scan_of_def Let_def pos(1) True p)
          (simp add: region_of_def state_of_def f t)
    next
      case False
      then have "region_scan_of kvs' = (region_of kvs\<lparr>position_state := WrongType\<rparr>, snd (region_scan_of kvs))"
        using ty by (cases t) (simp_all add: region_scan_of_def region_of_def state_of_def f n)
      with False show ?thesis
        by (simp add: region_field_def region_scan_of_def Let_def pos(1) p skips)
    qed
  next
    case size
    have f: "omap_find kvs' ''Size'' = Some t" "\<And>k. k \<noteq> ''Size'' \<Longrightarrow> omap_find kvs' k = omap_find kvs k"
      and p: "size_state (region_of kvs) = Missing" and n: "omap_find kvs ''Size'' = None"
      using size find by (auto simp: region_of_def)
    show ?thesis
    proof (cases "ty = TCompound")
      case True
      then obtain p where t: "t = NCompound p" using ty by (cases t) auto
      have "read_xyz_compound (Suc d) bs = Inr (xyz_of p, rest)"
        using read_xyz_tree [of "d + 1"] c t True by simp
      then show ?thesis
        by (simp add: region_field_def region_scan_of_def Let_def size(1) True p)
          (simp add: region_of_def state_of_def f t)
    next
      case False
      then have "region_scan_of kvs' = (region_of kvs\<lparr>size_state := WrongType\<rparr>, snd (region_scan_of kvs))"
        using ty by (cases t) (simp_all add: region_scan_of_def region_of_def state_of_def f n)
      with False show ?thesis
        by (simp add: region_field_def region_scan_of_def Let_def size(1) p skips)
    qed
  next
    case palette
    have f: "omap_find kvs' ''BlockStatePalette'' = Some t" "\<And>k. k \<noteq> ''BlockStatePalette'' \<Longrightarrow> omap_find kvs' k = omap_find kvs k"
      and p: "palette_state (region_of kvs) = Missing" and n: "omap_find kvs ''BlockStatePalette'' = None"
      using palette find by (auto simp: region_of_def)
    show ?thesis
    proof (cases "ty = TList")
      case True
      then obtain el ts where t: "t = NList el ts" using ty by (cases t) auto
      have "read_palette_list (Suc d) bs = Inr (map entry_text_of ts, rest)"
        using read_palette_tree [of "d + 1"] c t True by simp
      then show ?thesis
        by (simp add: region_field_def region_scan_of_def Let_def palette(1) True p)
          (simp add: region_of_def state_of_def f t)
    next
      case False
      then have "region_scan_of kvs' = (region_of kvs\<lparr>palette_state := WrongType\<rparr>, snd (region_scan_of kvs))"
        using ty by (cases t) (simp_all add: region_scan_of_def region_of_def state_of_def f n)
      with False show ?thesis
        by (simp add: region_field_def region_scan_of_def Let_def palette(1) p skips)
    qed
  next
    case blocks
    have f: "omap_find kvs' ''BlockStates'' = Some t" "\<And>k. k \<noteq> ''BlockStates'' \<Longrightarrow> omap_find kvs' k = omap_find kvs k"
      and p: "block_states_state (region_of kvs) = Missing" and n: "omap_find kvs ''BlockStates'' = None"
      using blocks find by (auto simp: region_of_def)
    show ?thesis
    proof (cases "ty = TLongArray")
      case True
      then obtain ws where t: "t = NLongArray ws" using ty by (cases t) auto
      have "read_long_array bs = Inr (ws, rest)"
        using c unfolding lv_levels(2) [OF c] True t by (auto simp: read_long_array_def and_then_eq_Inr_iff)
      then show ?thesis
        by (simp add: region_field_def region_scan_of_def Let_def blocks(1) True p)
          (simp add: region_of_def state_of_def f t)
    next
      case False
      then have "region_scan_of kvs' = (region_of kvs\<lparr>block_states_state := WrongType\<rparr>, snd (region_scan_of kvs))"
        using ty by (cases t) (simp_all add: region_scan_of_def region_of_def state_of_def f n)
      with False show ?thesis
        by (simp add: region_field_def region_scan_of_def Let_def blocks(1) p skips)
    qed
  next
    case ents
    have f: "omap_find kvs' ''TileEntities'' = Some t" "\<And>k. k \<noteq> ''TileEntities'' \<Longrightarrow> omap_find kvs' k = omap_find kvs k"
      and p: "omap_find kvs ''TileEntities'' = None"
      using ents find by (auto simp: region_of_def)
    show ?thesis
    proof (cases "ty = TList")
      case True
      then obtain el ts where t: "t = NList el ts" using ty by (cases t) auto
      have "read_tile_entities (Suc d) bs = Inr (List.map_filter entity_of_tag ts, rest)"
        using read_entities_tree [of "d + 1"] c t True by simp
      then show ?thesis
        by (simp add: region_field_def region_scan_of_def Let_def ents(1) True p)
          (simp add: region_of_def state_of_def f t)
    next
      case False
      then have "region_scan_of kvs' = (region_of kvs, True)"
        using ty by (cases t) (simp_all add: region_scan_of_def region_of_def state_of_def f p)
      with False show ?thesis
        by (simp add: region_field_def region_scan_of_def Let_def ents(1) p skips)
    qed
  next
    case other
    have f: "omap_find kvs' k = omap_find kvs k" if "key \<noteq> k" for k
      using that find [of k] by simp
    have "region_field d key ty (region_scan_of kvs) bs = skip_keeping (d + 1) ty (region_scan_of kvs) bs"
      using other by (simp add: region_field_def Let_def)
    moreover have "region_scan_of kvs' = region_scan_of kvs"
      using other by (simp add: region_scan_of_def region_of_def state_of_def f)
    ultimately show ?thesis using skips by simp
  qed
qed

lemma read_region_tree:
  assumes r: "read_payload (lv d) Big TCompound bs = Inr (NCompound kvs, rest)"
  shows "read_region_compound d bs = Inr (region_of kvs, rest)"
proof -
  from compound_at [OF r, of "region_field d" region_scan_of, OF region_field_tree [OF _ _ HOL.refl]]
  have "check_depth d = Inr ()" "read_fields Big (region_field d) (region_scan_of []) bs = Inr (region_scan_of kvs, rest)"
    by simp_all
  moreover have "region_scan_of [] = (empty_region, False)"
    by (simp add: region_scan_of_def region_of_def empty_region_def state_of_def omap_find_def)
  ultimately show ?thesis by (simp add: read_region_compound_def) (simp add: region_scan_of_def)
qed

lemma read_regions_tree:
  assumes r: "read_payload (lv d) Big TCompound bs = Inr (NCompound kvs, rest)"
  shows "read_regions_compound d bs = Inr (regions_of kvs, rest)"
proof -
  have "regions_field d key ty (regions_of kvs) bs = Inr (regions_of (omap_emplace key t kvs), rest)"
    if ok: "omap_ok kvs" and c: "read_payload (lv (d + 1)) Big ty bs = Inr (t, rest)" for key ty t kvs bs rest
  proof -
    note skips = skip_tree [OF c]
    have ty: "ty = nbt_type t" using read_payload_type [OF c] by simp
    have first: "(case t of NCompound r \<Rightarrow> read_region_compound (d + 1) bs = Inr (region_of r, rest) | _ \<Rightarrow> True)"
      using read_region_tree [of "d + 1"] c ty by (cases t) auto
    show ?thesis
    proof (cases "kvs = [] \<or> key < fst (hd kvs)")
      case True
      have "omap_emplace key t kvs = (key, t) # kvs"
      proof (cases kvs)
        case Nil
        then show ?thesis by (simp add: omap_emplace_def omap_find_def)
      next
        case (Cons kv m)
        obtain k v where kv: "kv = (k, v)" by force
        have "key < k" "\<forall>kv' \<in> set m. k < fst kv'" using True ok Cons kv by (auto simp: omap_ok_def)
        then have "omap_find kvs key = None"
          unfolding Cons kv by (force simp: omap_find_def map_of_eq_None_iff)
        with \<open>key < k\<close> show ?thesis by (simp add: omap_emplace_def Cons kv)
      qed
      moreover have "\<not> has_entry (regions_of kvs) \<or> key < selected_name (regions_of kvs)"
        using True by (cases kvs) (auto simp: regions_of_def empty_regions_def)
      ultimately show ?thesis
        using first skips by (cases t) (auto simp: regions_field_def regions_of_def ty Let_def)
    next
      case False
      then obtain k v m where kvs: "kvs = (k, v) # m" "\<not> key < k" by (cases kvs) auto
      then have "\<exists>v' m'. omap_emplace key t kvs = (k, v') # m' \<and> v' = v"
        by (auto simp: omap_emplace_def omap_find_def split: option.split)
      then have "regions_of (omap_emplace key t kvs) = regions_of kvs" by (auto simp: regions_of_def kvs)
      moreover have "has_entry (regions_of kvs) \<and> \<not> key < selected_name (regions_of kvs)"
        using kvs by (simp add: regions_of_def)
      ultimately show ?thesis using skips by (simp add: regions_field_def)
    qed
  qed
  from compound_at [OF r, of "regions_field d" regions_of, OF this]
  show ?thesis by (simp add: read_regions_compound_def regions_of_def)
qed

lemma root_field_tree:
  assumes ok: "omap_ok kvs" and c: "read_payload (lv 1) Big ty bs = Inr (t, rest)"
  shows "root_field key ty (root_of kvs) bs = Inr (root_of (omap_emplace key t kvs), rest)"
proof -
  note find = omap_find_emplace [OF ok, of key t]
  note skips = skip_tree [OF c]
  have ty: "ty = nbt_type t" using read_payload_type [OF c] by simp
  show ?thesis
  proof (cases "key = ''Regions'' \<and> omap_find kvs key = None")
    case True
    then have e: "root_of kvs = empty_root" "omap_find (omap_emplace key t kvs) ''Regions'' = Some t"
      using find by (auto simp: root_of_def)
    have "(case t of NCompound rs \<Rightarrow> read_regions_compound 1 bs = Inr (regions_of rs, rest) | _ \<Rightarrow> True)"
      using read_regions_tree [of 1] c ty by (cases t) auto
    then show ?thesis
      using True skips unfolding root_of_def [of "omap_emplace key t kvs"] e
      by (cases t) (auto simp: root_field_def empty_root_def ty Let_def)
  next
    case False
    have "root_field key ty (root_of kvs) bs = skip_keeping 1 ty (root_of kvs) bs"
      using False by (auto simp: root_field_def root_of_def)
    moreover have "omap_find (omap_emplace key t kvs) ''Regions'' = omap_find kvs ''Regions''"
      using False find by (auto split: option.split)
    then have "root_of (omap_emplace key t kvs) = root_of kvs" by (simp add: root_of_def)
    ultimately show ?thesis using skips by simp
  qed
qed


section \<open>The whole stream\<close>

lemma read_root_tree:
  assumes "read_compound Big bytes = Inr (name, kvs, rest)"
  shows "read_litematic_root bytes = Inr (root_of kvs, rest)"
proof -
  obtain bs1 bs2 where t: "read_type False bytes = Inr (TCompound, bs1)" "read_string Big bs1 = Inr (name, bs2)"
    and c: "read_payload (lv 0) Big TCompound bs2 = Inr (NCompound kvs, rest)"
    using read_compoundE [OF assms] by (auto simp: lv_def)
  have "root_field key ty (root_of m) bs = Inr (root_of (omap_emplace key t m), r)"
    if "omap_ok m" "read_payload (lv (0 + 1)) Big ty bs = Inr (t, r)" for key ty t m bs r
    using root_field_tree that by simp
  from compound_at [OF c, of root_field root_of, OF this]
  have "read_fields Big root_field (root_of []) bs2 = Inr (root_of kvs, rest)" by simp
  then show ?thesis
    using t by (simp add: read_litematic_root_def root_of_def omap_find_def)
qed

text \<open>
  C14: whenever the library reads the stream of a file into a tree, the streaming reader
  accepts the same bytes, stops at the same place and keeps exactly what a reader of that
  tree keeps: the first region in the order of the names with its position, size, palette
  texts, packed states and block entities, whatever the order, the repetitions and the
  nesting of the fields on disk.
\<close>
theorem litematic_streams_tree:
  assumes "read_compound Big bytes = Inr (name, kvs, rest)"
  shows "read_litematic_root bytes = Inr (root_of kvs, rest)"
  using assms by (rule read_root_tree)



definition sample_regions :: "(string \<times> nbt) list" where
  "sample_regions =
    [(''Regions'', NCompound
       [(''a'', NCompound [(''BlockStates'', NLongArray [5]), (''Position'', NInt 3)]), (''b'', NByte 1)])]"

theorem litematic_streams_tree_witness:
  "\<exists>b root. read_compound Big b = Inr ([], sample_regions, []) \<and> read_litematic_root b = Inr (root, []) \<and>
    selected_name (root_regions root) = ''a'' \<and> packed_states (selected (root_regions root)) = [5] \<and>
    position_state (selected (root_regions root)) = WrongType"
proof -
  obtain b where b: "write_tag Big [] (NCompound sample_regions) = Inr b"
    by (simp add: sample_regions_def write_tag_def write_string_def write_length_def INT32_MAX_def)
  have "fits (MAX_DEPTH + 1) (NCompound sample_regions)"
    by (simp add: sample_regions_def MAX_DEPTH_def eval_nat_numeral omap_ok_def)
  with read_compound_written [OF b, of "[]"] have r: "read_compound Big b = Inr ([], sample_regions, [])" by simp
  from litematic_streams_tree [OF r] r show ?thesis
    by (auto simp: sample_regions_def root_of_def regions_of_def region_of_def state_of_def omap_find_def)
qed

end
