(* ===== verification/WS_LitematicChunks.thy ===== *)
theory WS_LitematicChunks
  imports WS_LitematicTree
begin

text \<open>
  What a Litematic structure delivers. A read that succeeds has checked that the packed
  states cover the volume, with all sums in 64 bits; the structure is then a dense source
  in the sense of \<open>WS_Dense\<close>, its lookup never fails, and the counter of blocks that are
  not air is the number of positions that hold one.
\<close>

section \<open>The block of a position\<close>

definition lit_palette_block :: "litematic \<Rightarrow> block_pos \<Rightarrow> runtime_id option" where
  "lit_palette_block s p =
    (let k = palette_index_at (lit_packed s) (bits_per_block s) (nat (grid_index (lit_original_size s) p))
     in if k < length (lit_palette s) then Some (lit_palette s ! k) else None)"

definition lit_grid_block :: "runtime_id \<times> litematic \<Rightarrow> block_pos \<Rightarrow> runtime_id option" where
  "lit_grid_block st p =
    (case lit_palette_block (snd st) p of None \<Rightarrow> None | Some v \<Rightarrow> if v = fst st then None else Some v)"

definition lit_valid :: "runtime_id \<times> litematic \<Rightarrow> bool" where
  "lit_valid st \<longleftrightarrow>
    (let s = snd st; sz = lit_original_size s
     in width sz * height sz * len sz \<le> INT64_MAX \<and> (\<forall>p. \<not> outside sz p \<longrightarrow> shift_ok (lit_offset s) p))"

interpretation lit: dense_source "\<lambda>st. lit_original_size (snd st)" "\<lambda>st. lit_offset (snd st)"
  "\<lambda>st. litematic_look (fst st) (snd st)" lit_valid lit_grid_block
proof
  fix st :: "runtime_id \<times> litematic" and p
  assume v: "lit_valid st" and p: "\<not> outside (lit_original_size (snd st)) p"
  show "shift_ok (lit_offset (snd st)) p" using v p by (simp add: lit_valid_def Let_def)
  have "dense_index (lit_original_size (snd st)) (pos_x p) (pos_y p) (pos_z p) =
      nat (grid_index (lit_original_size (snd st)) p)"
    using v by (intro dense_index_eq [OF p]) (simp add: lit_valid_def Let_def)
  then show "litematic_look (fst st) (snd st)
      (dense_index (lit_original_size (snd st)) (pos_x p) (pos_y p) (pos_z p)) = Inr (lit_grid_block st p)"
    by (simp add: litematic_look_def lit_grid_block_def lit_palette_block_def Let_def)
qed

section \<open>A read that succeeds\<close>

lemma build_litematicD:
  assumes "build_litematic r reg = (Inr s, reg')"
  obtains unknown where "find_unknown reg = (unknown, reg')"
    "size_in_range (lit_original_size s)" "0 < width (lit_original_size s)" "0 < height (lit_original_size s)"
    "0 < len (lit_original_size s)" "lit_size s = lit_original_size s" "lit_offset s = BlockPos 0 0 0"
    "lit_palette s = map (resolve_entry reg' unknown) (region_palette r)" "lit_palette s \<noteq> []"
    "bits_per_block s = bits_for_palette (length (lit_palette s))" "lit_packed s = packed_states r"
    "lit_entities s = region_entities r"
    "width (lit_original_size s) * height (lit_original_size s) * len (lit_original_size s) \<le> INT64_MAX"
    "volume (lit_original_size s) = width (lit_original_size s) * height (lit_original_size s) * len (lit_original_size s)"
    "volume (lit_original_size s) * int (bits_per_block s) \<le> int (length (packed_states r)) * 64"
    "lit_non_air s = count_non_air (air_runtime_id reg') (lit_palette s) (lit_packed s) (bits_per_block s)
      (nat (volume (lit_original_size s)))"
proof -
  let ?sz = "region_box r"
  obtain unknown reg1 where u0: "find_unknown reg = (unknown, reg1)" by force
  let ?palette = "map (resolve_entry reg1 unknown) (region_palette r)"
  let ?bits = "bits_for_palette (length ?palette)"
  let ?s = "lit_set_offset (BlockPos 0 0 0)
    \<lparr>lit_size = zero_size, lit_original_size = ?sz, lit_offset = BlockPos 0 0 0,
     region_origin = region_position r, lit_palette = ?palette, lit_packed = packed_states r,
     lit_entities = region_entities r, bits_per_block = ?bits,
     lit_non_air = count_non_air (air_runtime_id reg1) ?palette (packed_states r) ?bits (nat (u64 (volume ?sz)))\<rparr>"
  have guards: "\<not> (width ?sz \<le> 0 \<or> height ?sz \<le> 0 \<or> len ?sz \<le> 0)" "?palette \<noteq> []"
    "\<not> UINT64_MAX div int ?bits < u64 (volume ?sz)"
    "\<not> u64 (int (length (packed_states r)) * 64) < u64 (u64 (volume ?sz) * int ?bits)"
    and s: "s = ?s" and reg1: "reg' = reg1"
    using assms unfolding build_litematic_def Let_def u0 prod.case
    by (simp_all only: split: if_splits) (simp_all only: prod.inject sum.simps simp_thms, elim conjE, simp only:)
  have range: "size_in_range ?sz" by (simp add: size_in_range_def region_box_def)
  have b2: "2 \<le> ?bits" by (simp add: bits_for_palette_def)
  have vol0: "0 \<le> volume ?sz" "volume ?sz \<le> INT64_MAX"
    using volume_eq [OF range] guards(1) by (auto simp: range_simps)
  then have u: "u64 (volume ?sz) = volume ?sz" by (simp add: u64_def range_simps)
  have "volume ?sz * int ?bits \<le> (UINT64_MAX div int ?bits) * int ?bits"
    using guards(3) u by (intro mult_right_mono) auto
  also have "\<dots> \<le> UINT64_MAX" using b2 by (simp add: minus_mod_eq_div_mult [symmetric])
  finally have m: "volume ?sz * int ?bits \<le> UINT64_MAX" .
  have "u64 (volume ?sz * int ?bits) = volume ?sz * int ?bits"
    using m vol0 by (simp add: u64_def range_simps)
  then have st: "volume ?sz * int ?bits \<le> u64 (int (length (packed_states r)) * 64)"
    using guards(4) u by simp
  have le: "u64 (int n * 64) \<le> int n * 64" "u64 (int n * 64) \<le> UINT64_MAX - 63" for n
  proof -
    show "u64 (int n * 64) \<le> int n * 64" by (simp add: u64_def zmod_le_nonneg_dividend)
    have "u64 (int n * 64) = int n mod 288230376151711744 * 64"
      using mult_mod_left [of "int n" "288230376151711744" 64] by (simp add: u64_def mult.commute)
    moreover have "int n mod 288230376151711744 < 288230376151711744" by simp
    ultimately show "u64 (int n * 64) \<le> UINT64_MAX - 63" unfolding UINT64_MAX_def by linarith
  qed
  have small: "width ?sz * height ?sz * len ?sz \<le> INT64_MAX"
  proof (rule ccontr)
    assume "\<not> ?thesis"
    then have v: "volume ?sz = INT64_MAX" using volume_eq [OF range] guards(1) by simp
    have "INT64_MAX * 2 \<le> INT64_MAX * int ?bits" using b2 by (intro mult_left_mono) (auto simp: range_simps)
    with st le(2) [of "length (packed_states r)"] show False unfolding v by (simp add: range_simps)
  qed
  then have v: "volume ?sz = width ?sz * height ?sz * len ?sz"
    using volume_eq [OF range] guards(1) by simp
  have "offset_size ?sz (BlockPos 0 0 0) = ?sz"
    using range by (simp add: offset_size_def size_in_range_def wrap_simps range_simps)
  with guards(1,2) range small v st le(1) [of "length (packed_states r)"] u0 reg1 s show thesis
    by (intro that [of unknown]) (simp_all add: lit_set_offset_def u [unfolded v])
qed

lemma litematic_readD:
  assumes "litematic_read bytes reg = (Inr s, reg')"
  shows "\<exists>root rest. read_litematic_root bytes = Inr (root, rest) \<and>
    build_litematic (selected (root_regions root)) reg = (Inr s, reg')"
  using assms unfolding litematic_read_def by (auto split: sum.splits prod.splits if_splits)

lemma build_litematic_valid:
  assumes "build_litematic r reg = (Inr s, reg')"
  shows "lit_valid (air, s)"
proof -
  obtain unknown where s: "size_in_range (lit_original_size s)" "lit_offset s = BlockPos 0 0 0"
    "width (lit_original_size s) * height (lit_original_size s) * len (lit_original_size s) \<le> INT64_MAX"
    using build_litematicD [OF assms] by metis
  have "shift_ok (BlockPos 0 0 0) p" if "\<not> outside (lit_original_size s) p" for p
    using that s(1) by (auto simp: outside_def shift_ok_def size_in_range_def range_simps)
  then show ?thesis by (simp add: lit_valid_def Let_def s)
qed

lemma build_litematic_count:
  assumes "build_litematic r reg = (Inr s, reg')"
  shows "lit_non_air s =
    card {p. \<not> outside (lit_original_size s) p \<and> lit_grid_block (air_runtime_id reg', s) p \<noteq> None}"
proof -
  let ?sz = "lit_original_size s"
  obtain unknown where s: "0 < width ?sz" "0 < height ?sz" "0 < len ?sz"
    "volume ?sz = width ?sz * height ?sz * len ?sz"
    "lit_non_air s = count_non_air (air_runtime_id reg') (lit_palette s) (lit_packed s) (bits_per_block s)
      (nat (volume ?sz))"
    using build_litematicD [OF assms] by metis
  have n: "nat (volume ?sz) = length (grid_positions ?sz)"
    using s(1-3) unfolding s(4) length_grid_positions by (simp add: nat_mult_distrib)
  show ?thesis
    unfolding s(5) count_non_air_def n count_grid
    by (intro arg_cong [where f = card] Collect_cong) (auto simp: lit_grid_block_def lit_palette_block_def Let_def)
qed

lemma litematic_delivers:
  assumes "litematic_read bytes reg = (Inr s, reg')"
  shows "(\<exists>m. litematic_chunks (air_runtime_id reg') s ps = Inr m \<and> fst ` set m = set ps \<and>
      (\<forall>x y z. world_pos_ok x y z \<and> ChunkPos (x div 16) (z div 16) \<in> set ps \<longrightarrow>
        block_at m (air_runtime_id reg') x y z =
          (if outside (lit_size s) (BlockPos x y z) then air_runtime_id reg'
           else case lit_palette_block s (BlockPos x y z) of None \<Rightarrow> air_runtime_id reg' | Some v \<Rightarrow> v))) \<and>
    litematic_count_non_air s =
      card {p. \<not> outside (lit_size s) p \<and> lit_palette_block s p \<notin> {None, Some (air_runtime_id reg')}}"
proof -
  let ?air = "air_runtime_id reg'"
  obtain root :: streamed_root where b: "build_litematic (selected (root_regions root)) reg = (Inr s, reg')"
    using litematic_readD [OF assms] by blast
  have e: "lit_offset s = BlockPos 0 0 0" "lit_original_size s = lit_size s"
    using build_litematicD [OF b] by metis+
  have grid: "lit.grid_at ?air (?air, s) p =
      (if outside (lit_size s) p then ?air else case lit_palette_block s p of None \<Rightarrow> ?air | Some v \<Rightarrow> v)" for p
    by (auto simp: lit.grid_at_def e lit_grid_block_def split: option.split)
  have "lit_grid_block (?air, s) p \<noteq> None \<longleftrightarrow> lit_palette_block s p \<notin> {None, Some ?air}" for p
    by (auto simp: lit_grid_block_def split: option.split)
  then have c: "litematic_count_non_air s =
      card {p. \<not> outside (lit_size s) p \<and> lit_palette_block s p \<notin> {None, Some ?air}}"
    using build_litematic_count [OF b] by (simp add: litematic_count_non_air_def e)
  show ?thesis
    using lit.chunks_refine [OF build_litematic_valid [OF b, of ?air], of ?air True ps]
    unfolding litematic_chunks_def litematic_chunks_impl_def snd_conv fst_conv grid e block_pos.sel diff_zero
    by (intro conjI c)
qed

section \<open>Properties\<close>

text \<open>
  C15: Whatever bytes a Litematic structure is read from, a read that succeeds leaves one on
  which no request fails: each position of the box holds in the delivered chunks the entry
  of the palette that its packed index selects, and air when the index is past the palette,
  with air everywhere outside; and the counter of blocks that are not air is the number of
  such positions.
\<close>

theorem litematic_read_chunks:
  assumes "litematic_read bytes reg = (Inr s, reg')"
  shows "(\<exists>m. litematic_chunks (air_runtime_id reg') s ps = Inr m \<and> fst ` set m = set ps \<and>
      (\<forall>x y z. world_pos_ok x y z \<and> ChunkPos (x div 16) (z div 16) \<in> set ps \<longrightarrow>
        block_at m (air_runtime_id reg') x y z =
          (if outside (lit_size s) (BlockPos x y z) then air_runtime_id reg'
           else case lit_palette_block s (BlockPos x y z) of None \<Rightarrow> air_runtime_id reg' | Some v \<Rightarrow> v))) \<and>
    litematic_count_non_air s =
      card {p. \<not> outside (lit_size s) p \<and> lit_palette_block s p \<notin> {None, Some (air_runtime_id reg')}}"
  using assms by (rule litematic_delivers)

definition sample_lit_region :: "(string \<times> nbt) list" where
  "sample_lit_region =
    [(''BlockStatePalette'', NList TCompound [NCompound [], NCompound [(''Name'', NString ''minecraft:stone'')]]),
     (''BlockStates'', NLongArray [4]),
     (''Position'', NCompound []),
     (''Size'', NCompound [(''x'', NInt 2), (''y'', NInt 1), (''z'', NInt (- 1))])]"

definition sample_lit_root :: "(string \<times> nbt) list" where
  "sample_lit_root = [(''Regions'', NCompound [(''r'', NCompound sample_lit_region)])]"

definition sample_lit_registry :: registry where
  "sample_lit_registry = empty_registry
    \<lparr>by_name := [normalize_name ''minecraft:unknown'' \<mapsto> 1],
     java_round_trip_mapping := [''minecraft:stone'' \<mapsto> 9, ''minecraft:unknown'' \<mapsto> 1]\<rparr>"

definition sample_litematic :: litematic where
  "sample_litematic =
    \<lparr>lit_size = \<lparr>width = 2, height = 1, len = 1\<rparr>, lit_original_size = \<lparr>width = 2, height = 1, len = 1\<rparr>,
     lit_offset = BlockPos 0 0 0, region_origin = BlockPos 0 0 0, lit_palette = [1, 9], lit_packed = [4],
     lit_entities = [], bits_per_block = 2, lit_non_air = 2\<rparr>"

lemma sample_lit_region_facts:
  "region_box (region_of sample_lit_region) = \<lparr>width = 2, height = 1, len = 1\<rparr>"
  "region_palette (region_of sample_lit_region) = [''minecraft:unknown'', ''minecraft:stone'']"
  "packed_states (region_of sample_lit_region) = [4]" "region_position (region_of sample_lit_region) = BlockPos 0 0 0"
  "region_entities (region_of sample_lit_region) = []"
  "required_region_fields_valid (region_of sample_lit_region)"
  by code_simp+

lemma sample_lit_registry_facts:
  "find_unknown sample_lit_registry = (1, sample_lit_registry)" "air_runtime_id sample_lit_registry = 0"
  "resolve_entry sample_lit_registry u ''minecraft:stone'' = 9"
  "resolve_entry sample_lit_registry u ''minecraft:unknown'' = 1"
proof -
  show "find_unknown sample_lit_registry = (1, sample_lit_registry)" "air_runtime_id sample_lit_registry = 0"
    by (simp_all add: find_unknown_def find_runtime_def sample_lit_registry_def empty_registry_def)
  have "normalize_java_state ''minecraft:stone'' = ''minecraft:stone''"
    "normalize_java_state ''minecraft:unknown'' = ''minecraft:unknown''"
    by code_simp+
  then show "resolve_entry sample_lit_registry u ''minecraft:stone'' = 9"
    "resolve_entry sample_lit_registry u ''minecraft:unknown'' = 1"
    by (simp_all add: resolve_entry_def compatible_java_runtime_id_def sample_lit_registry_def Let_def)
qed

lemma sample_lit_numbers:
  "bits_for_palette 2 = 2" "u64 (volume \<lparr>width = 2, height = 1, len = 1\<rparr>) = 2"
  "count_non_air 0 [Suc 0, 9] [4] 2 2 = 2"
  "offset_size \<lparr>width = 2, height = 1, len = 1\<rparr> (BlockPos 0 0 0) = \<lparr>width = 2, height = 1, len = 1\<rparr>"
  "\<not> UINT64_MAX div 2 < 2" "\<not> u64 64 < u64 4"
  by code_simp+

lemma sample_lit_build:
  "build_litematic (region_of sample_lit_region) sample_lit_registry = (Inr sample_litematic, sample_lit_registry)"
  by (simp add: build_litematic_def sample_lit_region_facts sample_lit_registry_facts sample_lit_numbers
      lit_set_offset_def sample_litematic_def Let_def numeral_2_eq_2 [symmetric])

lemma sample_lit_read:
  "\<exists>b. litematic_read b sample_lit_registry = (Inr sample_litematic, sample_lit_registry)"
proof -
  obtain b where b: "write_tag Big [] (NCompound sample_lit_root) = Inr b"
    by (simp add: sample_lit_root_def sample_lit_region_def write_tag_def write_string_def write_length_def INT32_MAX_def)
  have "fits (MAX_DEPTH + 1) (NCompound sample_lit_root)"
    by (simp add: sample_lit_root_def sample_lit_region_def MAX_DEPTH_def eval_nat_numeral omap_ok_def)
  from read_root_tree [OF read_compound_written [OF b this, of "[]"]]
  have "read_litematic_root b = Inr (root_of sample_lit_root, [])" by simp
  moreover have "selected (root_regions (root_of sample_lit_root)) = region_of sample_lit_region"
    "regions_present (root_of sample_lit_root)" "regions_is_compound (root_of sample_lit_root)"
    "has_entry (root_regions (root_of sample_lit_root))"
    "selected_is_compound (root_regions (root_of sample_lit_root))"
    by (simp_all add: sample_lit_root_def root_of_def regions_of_def omap_find_def)
  ultimately have "litematic_read b sample_lit_registry = (Inr sample_litematic, sample_lit_registry)"
    using sample_lit_build sample_lit_region_facts(6) by (simp add: litematic_read_def)
  then show ?thesis by blast
qed

theorem litematic_read_chunks_witness:
  "\<exists>b m. litematic_read b sample_lit_registry = (Inr sample_litematic, sample_lit_registry) \<and>
    litematic_chunks 0 sample_litematic [ChunkPos 0 0] = Inr m \<and>
    block_at m 0 0 0 0 = 1 \<and> block_at m 0 1 0 0 = 9 \<and> block_at m 0 2 0 0 = 0"
proof -
  obtain b where b: "litematic_read b sample_lit_registry = (Inr sample_litematic, sample_lit_registry)"
    using sample_lit_read by blast
  note air = sample_lit_registry_facts(2)
  obtain m where "litematic_chunks 0 sample_litematic [ChunkPos 0 0] = Inr m"
    and all: "\<forall>x y z. world_pos_ok x y z \<and> ChunkPos (x div 16) (z div 16) \<in> set [ChunkPos 0 0] \<longrightarrow>
        block_at m 0 x y z = (if outside (lit_size sample_litematic) (BlockPos x y z) then 0
          else case lit_palette_block sample_litematic (BlockPos x y z) of None \<Rightarrow> 0 | Some v \<Rightarrow> v)"
    using litematic_read_chunks [OF b, of "[ChunkPos 0 0]"] unfolding air by (elim conjE exE)
  moreover have "lit_palette_block sample_litematic (BlockPos 0 0 0) = Some 1"
    "lit_palette_block sample_litematic (BlockPos 1 0 0) = Some 9"
    by code_simp+
  moreover have "world_pos_ok 0 0 0" "world_pos_ok 1 0 0" "world_pos_ok 2 0 0"
    by (simp_all add: world_pos_ok_def range_simps)
  ultimately show ?thesis
    using b all [rule_format, of 0 0 0] all [rule_format, of 1 0 0] all [rule_format, of 2 0 0]
    by (intro exI [of _ b] exI [of _ m]) (simp add: outside_def sample_litematic_def)
qed

end
