(* ===== verification/WS_LitematicWriter.thy ===== *)
theory WS_LitematicWriter
  imports WS_LitematicChunks
begin

unbundle bit_operations_syntax

text \<open>
  \<open>write_litematic\<close> (\<open>src/formats/litematic_writer.cpp\<close>): the chunks of the structure become
  one region with a palette of Java block states and an array of packed palette indices, and
  the tree is written to the gzip stream. \<open>long\<close> has 64 bits, as on Linux; the numbers are
  parsed outside of the \<open>try\<close> of the function, so a text that is not a number leaves it as an
  exception, the error \<open>WriteThrows\<close> here.
\<close>

section \<open>Palette entries\<close>

datatype property_error = BadInteger | BadCast | IndexMissing

text \<open>\<open>std::stoi\<close>: the number at the start of a text, in the range of \<open>int\<close>.\<close>

definition stoi :: "string \<Rightarrow> int option" where
  "stoi s = (case stoll s of Some (n, rest) \<Rightarrow> if in_s32 n then Some n else None | None \<Rightarrow> None)"

text \<open>
  Assignment to a value of a compound (\<open>value.cpp\<close> of the library): a new key takes the tag;
  a number fits a tag of the same or a wider integer type, whose type stays, a string a
  string, and everything else throws.
\<close>

fun number_rank :: "nbt \<Rightarrow> (nat \<times> int) option" where
  "number_rank (NByte v) = Some (0, sint v)"
| "number_rank (NShort v) = Some (1, sint v)"
| "number_rank (NInt v) = Some (2, sint v)"
| "number_rank (NLong v) = Some (3, sint v)"
| "number_rank _ = None"

definition integer_tag :: "nat \<Rightarrow> int \<Rightarrow> nbt" where
  "integer_tag rank n =
    (if rank = 0 then NByte (word_of_int n) else if rank = 1 then NShort (word_of_int n)
     else if rank = 2 then NInt (word_of_int n) else NLong (word_of_int n))"

definition assign_value :: "nbt option \<Rightarrow> nbt \<Rightarrow> (property_error, nbt) result" where
  "assign_value old new =
    (case old of
       None \<Rightarrow> Inr new
     | Some t \<Rightarrow>
         (case (number_rank t, number_rank new) of
            (Some (have_rank, _), Some (rank, n)) \<Rightarrow>
              if rank \<le> have_rank then Inr (integer_tag have_rank n) else Inl BadCast
          | (None, None) \<Rightarrow> if nbt_type t = nbt_type new then Inr new else Inl BadCast
          | _ \<Rightarrow> Inl BadCast))"

definition property_tag :: "block_property \<Rightarrow> (property_error, nbt) result" where
  "property_tag p =
    (case prop_type p of
       VByte \<Rightarrow> (case stoi (prop_value p) of Some n \<Rightarrow> Inr (NByte (word_of_int n)) | None \<Rightarrow> Inl BadInteger)
     | VShort \<Rightarrow> (case stoi (prop_value p) of Some n \<Rightarrow> Inr (NShort (word_of_int n)) | None \<Rightarrow> Inl BadInteger)
     | VInt \<Rightarrow> (case stoll (prop_value p) of Some (n, rest) \<Rightarrow> Inr (NInt (word_of_int n)) | None \<Rightarrow> Inl BadInteger)
     | VLong \<Rightarrow> (case stoll (prop_value p) of Some (n, rest) \<Rightarrow> Inr (NLong (word_of_int n)) | None \<Rightarrow> Inl BadInteger)
     | VString \<Rightarrow> Inr (NString (prop_value p)))"

definition put_property ::
  "block_property \<Rightarrow> (string \<times> nbt) list \<Rightarrow> (property_error, (string \<times> nbt) list) result" where
  "put_property p kvs =
    and_then (property_tag p) (\<lambda>new.
    and_then (assign_value (omap_find kvs (prop_name p)) new) (\<lambda>t. Inr (omap_put (prop_name p) t kvs)))"

definition java_palette_state :: "registry \<Rightarrow> runtime_id \<Rightarrow> block_state" where
  "java_palette_state reg rid =
    (let st = (case java_state reg rid of
                 Some st \<Rightarrow> st | None \<Rightarrow> \<lparr>state_name = ''minecraft:air'', states = [], state_version = 0\<rparr>)
     in if CHR '':'' \<in> set (state_name st) then st else st\<lparr>state_name := ''minecraft:'' @ state_name st\<rparr>)"

definition palette_key_part :: "block_property \<Rightarrow> string" where
  "palette_key_part p = CHR 0x00 # prop_name p @ char_of (value_type_index (prop_type p)) # CHR 0x00 # prop_value p"

definition palette_key :: "block_state \<Rightarrow> string" where
  "palette_key st = state_name st @ concat (map palette_key_part (sort_key prop_name (states st)))"

text \<open>A compound filled by assignments to fresh keys.\<close>

definition fields_of :: "(string \<times> nbt) list \<Rightarrow> (string \<times> nbt) list" where
  "fields_of kvs = fold (\<lambda>kv. omap_put (fst kv) (snd kv)) kvs []"

definition palette_entry :: "block_state \<Rightarrow> (property_error, (string \<times> nbt) list) result" where
  "palette_entry st =
    (if states st = [] then Inr (fields_of [(''Name'', NString (state_name st))])
     else
       and_then (fold_result put_property (states st) []) (\<lambda>ps.
         Inr (fields_of [(''Name'', NString (state_name st)), (''Properties'', NCompound ps)])))"

section \<open>Palette and packed indices\<close>

type_synonym lit_palette_scan = "block_state list \<times> (string, int) omap"

definition state_at :: "registry \<Rightarrow> chunk_map \<Rightarrow> block_pos \<Rightarrow> block_state" where
  "state_at reg chunks p =
    java_palette_state reg (block_at chunks (air_runtime_id reg) (pos_x p) (pos_y p) (pos_z p))"

definition palette_step :: "registry \<Rightarrow> chunk_map \<Rightarrow> block_pos \<Rightarrow> lit_palette_scan \<Rightarrow> lit_palette_scan" where
  "palette_step reg chunks p sc =
    (let st = state_at reg chunks p; key = palette_key st; (palette, indices) = sc
     in case omap_find indices key of
          Some k \<Rightarrow> sc
        | None \<Rightarrow> (palette @ [st], omap_emplace key (s32 (int (length palette))) indices))"

definition start_palette :: "registry \<Rightarrow> lit_palette_scan" where
  "start_palette reg =
    (let st = java_palette_state reg (air_runtime_id reg) in ([st], omap_emplace (palette_key st) 0 []))"

definition scan_java_palette :: "registry \<Rightarrow> chunk_map \<Rightarrow> wsize \<Rightarrow> lit_palette_scan" where
  "scan_java_palette reg chunks sz = fold (palette_step reg chunks) (grid_positions sz) (start_palette reg)"

definition pack_value :: "nat \<Rightarrow> nat \<Rightarrow> 64 word \<Rightarrow> 64 word list \<Rightarrow> 64 word list" where
  "pack_value bits index value packed =
    (let start_bit = nat (u64 (int index * int bits));
         w = start_bit div 64;
         offset = start_bit mod 64;
         packed1 = packed[w := packed ! w OR push_bit offset value]
     in if 64 < offset + bits then packed1[w + 1 := packed1 ! (w + 1) OR drop_bit (64 - offset) value]
        else packed1)"

definition pack_step ::
  "registry \<Rightarrow> chunk_map \<Rightarrow> (string, int) omap \<Rightarrow> nat \<Rightarrow> nat \<times> block_pos \<Rightarrow> 64 word list \<Rightarrow>
   (property_error, 64 word list) result" where
  "pack_step reg chunks indices bits ip packed =
    (case omap_find indices (palette_key (state_at reg chunks (snd ip))) of
       None \<Rightarrow> Inl IndexMissing
     | Some k \<Rightarrow> Inr (pack_value bits (fst ip) (word_of_int k) packed))"

definition packed_words :: "wsize \<Rightarrow> nat \<Rightarrow> nat" where
  "packed_words sz bits = nat (u64 (u64 (u64 (volume sz) * int bits) + 63) div 64)"

definition pack_blocks ::
  "registry \<Rightarrow> chunk_map \<Rightarrow> wsize \<Rightarrow> (string, int) omap \<Rightarrow> nat \<Rightarrow> (property_error, 64 word list) result" where
  "pack_blocks reg chunks sz indices bits =
    fold_result (pack_step reg chunks indices bits) (enumerate 0 (grid_positions sz))
      (replicate (packed_words sz bits) 0)"

section \<open>The file\<close>

definition int_tag :: "int \<Rightarrow> nbt" where "int_tag n = NInt (word_of_int n)"

definition xyz_fields :: "int \<Rightarrow> int \<Rightarrow> int \<Rightarrow> (string \<times> nbt) list" where
  "xyz_fields x y z = fields_of [(''x'', int_tag x), (''y'', int_tag y), (''z'', int_tag z)]"

definition size_fields :: "wsize \<Rightarrow> (string \<times> nbt) list" where
  "size_fields sz = xyz_fields (width sz) (height sz) (len sz)"

definition metadata_fields :: "wsize \<Rightarrow> (string \<times> nbt) list" where
  "metadata_fields sz = fields_of
    [(''Name'', NString ''WaterStructure Export''), (''Author'', NString ''WaterStructure''),
     (''Description'', NString (''(0,0,0) -> ('' @ to_string (width sz - 1) @ '','' @
        to_string (height sz - 1) @ '','' @ to_string (len sz - 1) @ '')'')),
     (''RegionCount'', int_tag 1), (''TotalVolume'', NLong (word_of_int (volume sz))),
     (''EnclosingSize'', NCompound (size_fields sz))]"

definition written_region :: "wsize \<Rightarrow> (string \<times> nbt) list list \<Rightarrow> 64 word list \<Rightarrow> (string \<times> nbt) list" where
  "written_region sz entries packed = fields_of
    [(''Position'', NCompound (xyz_fields 0 0 0)), (''Size'', NCompound (size_fields sz)),
     (''BlockStatePalette'', NList TCompound (map NCompound entries)), (''BlockStates'', NLongArray packed),
     (''Entities'', NList TCompound []), (''TileEntities'', NList TCompound [])]"

definition written_root :: "wsize \<Rightarrow> (string \<times> nbt) list \<Rightarrow> (string \<times> nbt) list" where
  "written_root sz region = fields_of
    [(''Version'', int_tag 6), (''MinecraftDataVersion'', int_tag 4556), (''SubVersion'', int_tag 1),
     (''Metadata'', NCompound (metadata_fields sz)),
     (''Regions'', NCompound (fields_of [(''region'', NCompound region)]))]"

primrec entries_of :: "block_state list \<Rightarrow> (property_error, (string \<times> nbt) list list) result" where
  "entries_of [] = Inr []"
| "entries_of (st # sts) = and_then (palette_entry st) (\<lambda>e. and_then (entries_of sts) (\<lambda>es. Inr (e # es)))"

definition litematic_tree ::
  "registry \<Rightarrow> chunk_map \<Rightarrow> wsize \<Rightarrow> (property_error, (string \<times> nbt) list) result" where
  "litematic_tree reg chunks sz =
    (let (palette, indices) = scan_java_palette reg chunks sz; bits = bits_for_palette (length palette)
     in and_then (pack_blocks reg chunks sz indices bits) (\<lambda>packed.
        and_then (entries_of palette) (\<lambda>entries. Inr (written_root sz (written_region sz entries packed)))))"

datatype 'e litematic_write_error = WriteSize | WriteBudget | WriteTooManyChunks | WriteOverBudget
  | WriteChunks 'e | WriteThrows property_error | WriteSerialize nbt_error

definition packed_upper_bound :: "wsize \<Rightarrow> int" where
  "packed_upper_bound sz = u64 (u64 (u64 (u64 (volume sz) * 32) + 63) div 64 * 8)"

definition write_litematic ::
  "wsize \<Rightarrow> (chunk_pos list \<Rightarrow> ('e, chunk_map) result) \<Rightarrow> registry \<Rightarrow> int \<Rightarrow> int \<Rightarrow>
   ('e litematic_write_error, byte list) result" where
  "write_litematic sz get_layer0 reg budget max_in_flight =
    (if width sz \<le> 0 \<or> height sz \<le> 0 \<or> len sz \<le> 0 \<or> volume sz \<le> 0 \<or> INT32_MAX < volume sz then Inl WriteSize
     else if budget < 65536 then Inl WriteBudget
     else if max_in_flight \<noteq> 0 \<and> max_in_flight < writer_chunk_count sz then Inl WriteTooManyChunks
     else if budget < u64 (u64 (writer_chunk_count sz * writer_chunk_bytes sz) + packed_upper_bound sz)
     then Inl WriteOverBudget
     else
       (case get_layer0 (writer_positions sz) of
          Inl e \<Rightarrow> Inl (WriteChunks e)
        | Inr chunks \<Rightarrow>
            (case litematic_tree reg chunks sz of
               Inl e \<Rightarrow> Inl (WriteThrows e)
             | Inr root \<Rightarrow>
                 (case write_tag Big ''Litematic'' (NCompound root) of
                    Inl e \<Rightarrow> Inl (WriteSerialize e)
                  | Inr b \<Rightarrow> Inr b))))"

end
