(* ===== verification/WS_LitematicPacking.thy ===== *)
theory WS_LitematicPacking
  imports WS_LitematicWriter
begin

unbundle bit_operations_syntax

text \<open>
  The packed array of palette indices: what \<open>pack_value\<close> writes bit by bit is what
  \<open>palette_index_at\<close> reads, also where an index lies in two words.
\<close>


section \<open>Packing\<close>

text \<open>The packed words as one stream of bits.\<close>

definition stream_bit :: "64 word list \<Rightarrow> nat \<Rightarrow> bool" where
  "stream_bit ws j \<longleftrightarrow> j < 64 * length ws \<and> bit (ws ! (j div 64)) (j mod 64)"

lemma stream_bit_split: "m < 64 \<Longrightarrow> stream_bit ws (64 * q + m) \<longleftrightarrow> q < length ws \<and> bit (ws ! q) m"
  by (auto simp: stream_bit_def)

lemma length_pack_value [simp]: "length (pack_value bits i v ws) = length ws"
  by (simp add: pack_value_def Let_def)

lemma pack_value_bits:
  assumes room: "i * bits + bits \<le> 64 * length ws" and small: "64 * int (length ws) \<le> UINT64_MAX"
    and bits: "bits \<le> 32" and v: "\<And>k. bit v k \<Longrightarrow> k < bits"
  shows "stream_bit (pack_value bits i v ws) j \<longleftrightarrow> stream_bit ws j \<or> (i * bits \<le> j \<and> bit v (j - i * bits))"
proof (cases "bits = 0")
  case True
  then have "v = 0" using v by (intro bit_word_eqI) auto
  with True show ?thesis by (auto simp: pack_value_def Let_def u64_def list_update_beyond)
next
  case False
  have start: "nat (u64 (int i * int bits)) = i * bits"
    using room small by (simp add: u64_def range_simps flip: of_nat_mult)
  obtain w where w: "w = i * bits div 64" by simp
  obtain off where off: "off = i * bits mod 64" by simp
  have s: "i * bits = 64 * w + off" "off < 64" by (simp_all add: w off)
  have lw: "w < length ws" using room s False by linarith
  have lw1: "w + 1 < length ws" if "64 < off + bits" using room s that by linarith
  obtain q where q: "q = j div 64" by simp
  obtain m where m: "m = j mod 64" by simp
  have j: "j = 64 * q + m" "m < 64" by (simp_all add: q m)
  have p: "pack_value bits i v ws =
      (if 64 < off + bits then ws[w := ws ! w OR push_bit off v, w + 1 := ws ! (w + 1) OR drop_bit (64 - off) v]
       else ws[w := ws ! w OR push_bit off v])"
    using lw by (simp add: pack_value_def Let_def start flip: w off)
  have js: "stream_bit ws' j \<longleftrightarrow> q < length ws' \<and> bit (ws' ! q) m" for ws'
    unfolding j(1) by (rule stream_bit_split [OF j(2)])
  have low: "bit (push_bit off v) m \<longleftrightarrow> off \<le> m \<and> bit v (m - off)"
    using j by (simp add: bit_simps)
  consider "q < w" | "q = w" | "q = w + 1" | "w + 1 < q" by linarith
  then show ?thesis
  proof cases
    case 1
    then have "j < i * bits" using j s by linarith
    with 1 show ?thesis unfolding p by (auto simp: js)
  next
    case 2
    then have "i * bits \<le> j \<longleftrightarrow> off \<le> m" "j - i * bits = m - off" using j s by auto
    with 2 lw low show ?thesis unfolding p by (auto simp: js bit_simps)
  next
    case 3
    then have d: "i * bits \<le> j" "j - i * bits = 64 - off + m" using j s by auto
    show ?thesis
    proof (cases "64 < off + bits")
      case True
      with 3 d lw1 show ?thesis unfolding p by (auto simp: js bit_simps)
    next
      case no: False
      then have "\<not> bit v (64 - off + m)" using v [of "64 - off + m"] by linarith
      with 3 d no show ?thesis unfolding p by (auto simp: js)
    qed
  next
    case 4
    then have "i * bits \<le> j" "bits \<le> j - i * bits" using j s bits by auto
    with v [of "j - i * bits"] 4 show ?thesis unfolding p by (auto simp: js)
  qed
qed

lemma pack_values_bits:
  assumes "(n + length vs) * bits \<le> 64 * length ws" and "64 * int (length ws) \<le> UINT64_MAX"
    and "bits \<le> 32" and "\<And>v k. v \<in> set vs \<Longrightarrow> bit v k \<Longrightarrow> k < bits"
  shows "stream_bit (fold (\<lambda>(i, v). pack_value bits i v) (enumerate n vs) ws) j \<longleftrightarrow>
    stream_bit ws j \<or> (\<exists>i < length vs. (n + i) * bits \<le> j \<and> bit (vs ! i) (j - (n + i) * bits))"
  using assms
proof (induction vs arbitrary: n ws)
  case (Cons v vs)
  have "n * bits + bits \<le> 64 * length ws"
    using Cons.prems(1) by (simp add: algebra_simps)
  with Cons.prems have one: "stream_bit (pack_value bits n v ws) j \<longleftrightarrow>
      stream_bit ws j \<or> (n * bits \<le> j \<and> bit v (j - n * bits))"
    by (intro pack_value_bits) auto
  have "stream_bit (fold (\<lambda>(i, v). pack_value bits i v) (enumerate (Suc n) vs) (pack_value bits n v ws)) j \<longleftrightarrow>
      stream_bit (pack_value bits n v ws) j \<or>
      (\<exists>i < length vs. (Suc n + i) * bits \<le> j \<and> bit (vs ! i) (j - (Suc n + i) * bits))"
    by (rule Cons.IH) (use Cons.prems in auto)
  then show ?case
    by (simp add: one less_Suc_eq_0_disj ex_disj_distrib conj_disj_distribR [symmetric]) (auto simp: less_Suc_eq_0_disj)
qed simp

lemma length_pack_values [simp]:
  "length (fold (\<lambda>(i, v). pack_value bits i v) ivs ws) = length ws"
  by (induction ivs arbitrary: ws) auto

lemma packed_bit:
  assumes "length vs * bits \<le> 64 * n" "64 * int n \<le> UINT64_MAX" "bits \<le> 32"
    and small: "\<And>v k. v \<in> set vs \<Longrightarrow> bit v k \<Longrightarrow> k < bits" and i: "i < length vs" and k: "k < bits"
  shows "stream_bit (fold (\<lambda>(i, v). pack_value bits i v) (enumerate 0 vs) (replicate n 0)) (i * bits + k) \<longleftrightarrow> bit (vs ! i) k"
proof -
  have zero: "\<not> stream_bit (replicate n 0) j" for j by (auto simp: stream_bit_def)
  have uniq: "i' = i" if "i' < length vs" "i' * bits \<le> i * bits + k" "bit (vs ! i') (i * bits + k - i' * bits)" for i'
  proof -
    have "i * bits + k - i' * bits < bits" using small [of "vs ! i'"] that by auto
    then have "i * bits + k < (i' + 1) * bits" "i' * bits < (i + 1) * bits" using that(2) k by auto
    then have "i * bits < (i' + 1) * bits" "i' * bits < (i + 1) * bits" by linarith+
    then have "i < i' + 1" "i' < i + 1" unfolding mult_less_cancel2 by blast+
    then show ?thesis by simp
  qed
  have "stream_bit (fold (\<lambda>(i, v). pack_value bits i v) (enumerate 0 vs) (replicate n 0)) (i * bits + k) \<longleftrightarrow>
      (\<exists>i' < length vs. i' * bits \<le> i * bits + k \<and> bit (vs ! i') (i * bits + k - i' * bits))"
    using pack_values_bits [of 0 vs bits "replicate n 0" "i * bits + k"] assms(1-4) zero by simp
  also have "\<dots> \<longleftrightarrow> bit (vs ! i) k"
  proof
    assume "\<exists>i' < length vs. i' * bits \<le> i * bits + k \<and> bit (vs ! i') (i * bits + k - i' * bits)"
    then obtain i' where i': "i' < length vs" "i' * bits \<le> i * bits + k" "bit (vs ! i') (i * bits + k - i' * bits)"
      by blast
    with uniq [OF i'] show "bit (vs ! i) k" by simp
  next
    assume "bit (vs ! i) k"
    with i show "\<exists>i' < length vs. i' * bits \<le> i * bits + k \<and> bit (vs ! i') (i * bits + k - i' * bits)"
      by (intro exI [of _ i]) simp
  qed
  finally show ?thesis .
qed

lemma unat_small: "v < 2 ^ 32 \<Longrightarrow> unat (word_of_nat v :: 64 word) = v"
  by (simp add: unat_of_nat take_bit_nat_eq_self)

lemma bit_small: "v < 2 ^ 32 \<Longrightarrow> bit (word_of_nat v :: 64 word) k \<longleftrightarrow> bit v k"
  using bit_unsigned_iff [of "word_of_nat v :: 64 word" k, where 'a = nat] by (simp add: unat_small)

lemma bit_below: "v < 2 ^ n \<Longrightarrow> bit v k \<Longrightarrow> k < n" for v :: nat
  by (metis bit_take_bit_iff take_bit_nat_eq_self)

lemma palette_index_at_eq:
  assumes room: "i * bits + bits \<le> 64 * length ws" and small: "64 * int (length ws) \<le> UINT64_MAX"
    and bits: "0 < bits" "bits \<le> 32" and v: "v < 2 ^ bits"
    and same: "\<And>k. k < bits \<Longrightarrow> stream_bit ws (i * bits + k) \<longleftrightarrow> bit v k"
  shows "palette_index_at ws bits i = v"
proof -
  have start: "nat (u64 (int i * int bits)) = i * bits"
    using room small by (simp add: u64_def range_simps flip: of_nat_mult)
  obtain w where w: "w = i * bits div 64" by simp
  obtain off where off: "off = i * bits mod 64" by simp
  have s: "i * bits = 64 * w + off" "off < 64" by (simp_all add: w off)
  have lw: "w < length ws" using room s bits by linarith
  have lw1: "w + 1 < length ws" if "64 < off + bits" using room s that by linarith
  let ?x = "if 64 < off + bits then drop_bit off (ws ! w) OR push_bit (64 - off) (ws ! (w + 1)) else drop_bit off (ws ! w)"
  have p: "palette_index_at ws bits i = unat (ucast (?x AND (push_bit bits 1 - 1)) :: 32 word)"
    using lw lw1 by (simp add: palette_index_at_def Let_def start flip: w off)
  have bx: "bit ?x k \<longleftrightarrow> bit v k" if k: "k < bits" for k
  proof (cases "off + k < 64")
    case True
    then have "stream_bit ws (i * bits + k) \<longleftrightarrow> bit (ws ! w) (off + k)"
      using lw stream_bit_split [of "off + k" ws w] by (simp add: s(1) add.assoc)
    with True same [OF k] show ?thesis by (auto simp: bit_simps)
  next
    case False
    then have c: "64 < off + bits" "off + k - 64 < 64" using k bits s by linarith+
    have "i * bits + k = 64 * (w + 1) + (off + k - 64)" using False s by simp
    then have "stream_bit ws (i * bits + k) \<longleftrightarrow> bit (ws ! (w + 1)) (off + k - 64)"
      using lw1 [OF c(1)] stream_bit_split [OF c(2), of ws "w + 1"] by simp
    moreover have "\<not> bit (drop_bit off (ws ! w)) k" using False by (auto simp: bit_simps dest: bit_imp_le_length)
    moreover have "64 - off \<le> k" "k - (64 - off) = off + k - 64" "k < 64" using False s k bits by linarith+
    ultimately show ?thesis using same [OF k] c by (simp add: bit_simps)
  qed
  have v32: "v < 2 ^ 32" using v bits(2) power_increasing [of bits 32 "2::nat"] by linarith
  have "?x AND (push_bit bits 1 - 1) = take_bit bits ?x"
    by (simp add: take_bit_eq_mask mask_eq_decr_exp push_bit_eq_mult)
  also have "\<dots> = word_of_nat v"
    by (rule bit_word_eqI) (use bx bit_below [OF v] in \<open>auto simp only: bit_take_bit_iff bit_small [OF v32]\<close>)
  finally have "palette_index_at ws bits i = unat (ucast (word_of_nat v :: 64 word) :: 32 word)"
    unfolding p by simp
  also have "\<dots> = v" using v32 by (simp add: unsigned_ucast_eq unat_small take_bit_nat_eq_self)
  finally show ?thesis .
qed

lemma bits_for_palette_bound: "k < n \<Longrightarrow> k < 2 ^ bits_for_palette n"
proof -
  have b: "v < 2 ^ bit_count v" for v
  proof (induction v rule: bit_count.induct)
    case (1 v)
    show ?case
    proof (cases "v = 0")
      case False
      with 1 have "v div 2 < 2 ^ bit_count (v div 2)" by simp
      then have "v < 2 * 2 ^ bit_count (v div 2)" by linarith
      with False show ?thesis by (subst bit_count.simps) simp
    qed simp
  qed
  assume k: "k < n"
  then have "k \<le> n - 1" by simp
  also have "n - 1 < 2 ^ bit_count (n - 1)" by (rule b)
  also have "\<dots> \<le> 2 ^ bits_for_palette n" using k by (simp add: bits_for_palette_def)
  finally show ?thesis .
qed

lemma bit_count_le: "v < 2 ^ b \<Longrightarrow> bit_count v \<le> b"
proof (induction v arbitrary: b rule: bit_count.induct)
  case (1 v)
  show ?case
  proof (cases "v = 0")
    case True
    then show ?thesis by (subst bit_count.simps) simp
  next
    case False
    with "1.prems" obtain c where c: "b = Suc c" by (cases b) auto
    with "1.prems" have "v div 2 < 2 ^ c" by auto
    with False 1 c show ?thesis by (subst bit_count.simps) simp
  qed
qed

lemma bits_for_palette_le: "n \<le> 2 ^ 31 \<Longrightarrow> bits_for_palette n \<le> 31"
  using bit_count_le [of "n - 1" 31] bit_count_le [of 0 31] by (auto simp: bits_for_palette_def)

end
