(* ===== verification/WS_LitematicCopy.thy ===== *)
theory WS_LitematicCopy
  imports WS_LitematicPacking
begin

text \<open>
  A structure written as a Litematic file and read back: the palette entries as the reader
  spells them, the palette and the indices the writer finds, the tree it writes, and the
  blocks of the structure that is read from it.
\<close>

section \<open>The entries of the palette\<close>

definition tag_of :: "block_property \<Rightarrow> nbt" where
  "tag_of p = (case property_tag p of Inr t \<Rightarrow> t | Inl e \<Rightarrow> NString [])"

definition value_text :: "block_property \<Rightarrow> string" where
  "value_text p = (case property_of_tag (tag_of p) of Some v \<Rightarrow> v | None \<Rightarrow> [])"

text \<open>What the reader makes of the entry of a state.\<close>

definition written_text :: "block_state \<Rightarrow> string" where
  "written_text st =
    (if states st = [] then state_name st
     else state_name st @ ''['' @
       join_texts (map (\<lambda>p. prop_name p @ ''='' @ value_text p) (sort_key prop_name (states st))) @ '']'')"

text \<open>
  The keys of the palette do not escape anything. They tell states apart whose names and
  values have no control characters, with property names that occur once.
\<close>

definition printable :: "string \<Rightarrow> bool" where
  "printable s \<longleftrightarrow> list_all (\<lambda>c. 5 \<le> (of_char c :: nat)) s"

definition clean_state :: "block_state \<Rightarrow> bool" where
  "clean_state st \<longleftrightarrow> printable (state_name st) \<and> distinct (map prop_name (states st)) \<and>
    list_all (\<lambda>p. printable (prop_name p) \<and> printable (prop_value p)) (states st)"

lemma sort_key_empty: "sort_key f xs = [] \<longleftrightarrow> xs = []"
  using length_sort [of f xs] by (metis length_0_conv)

lemma omap_eqI:
  assumes "omap_ok m" "omap_ok m'" "\<And>k. omap_find m k = omap_find m' k"
  shows "m = m'"
proof -
  have "kv \<in> set m \<longleftrightarrow> kv \<in> set m'" for kv
    using omap_find_iff [OF assms(1), of "fst kv" "snd kv"] omap_find_iff [OF assms(2), of "fst kv" "snd kv"]
      assms(3) [of "fst kv"] by simp
  then have s: "set m = set m'" by blast
  have "sorted_wrt (<) (map fst m)" "sorted_wrt (<) (map fst m')" using assms by (simp_all add: omap_ok_def)
  moreover have "inj_on fst (set m \<union> set m')"
    using omap_ok_distinct [OF assms(1)] unfolding s by (simp add: distinct_map s)
  ultimately show ?thesis
    using s by (intro map_sorted_distinct_set_unique) (auto simp: strict_sorted_iff)
qed

lemma put_properties:
  assumes "fold_result put_property ps kvs = Inr kvs'" "distinct (map prop_name ps)" "omap_ok kvs"
    "\<And>p. p \<in> set ps \<Longrightarrow> omap_find kvs (prop_name p) = None"
  shows "omap_ok kvs' \<and> (\<forall>p \<in> set ps. property_tag p = Inr (tag_of p)) \<and>
    (\<forall>k. omap_find kvs' k =
      (case map_of (map (\<lambda>p. (prop_name p, tag_of p)) ps) k of Some t \<Rightarrow> Some t | None \<Rightarrow> omap_find kvs k))"
  using assms
proof (induction ps arbitrary: kvs)
  case (Cons p ps)
  have "put_property p kvs = and_then (property_tag p) (\<lambda>t. Inr (omap_put (prop_name p) t kvs))"
    using Cons.prems(4) [of p] by (simp add: put_property_def assign_value_def)
  with Cons.prems(1) obtain t where t: "property_tag p = Inr t"
    and l: "fold_result put_property ps (omap_put (prop_name p) t kvs) = Inr kvs'"
    by (auto simp: and_then_eq_Inr_iff)
  have new: "omap_find (omap_put (prop_name p) t kvs) k = (if k = prop_name p then Some t else omap_find kvs k)" for k
    by (rule omap_find_put [OF Cons.prems(3)])
  have "omap_find (omap_put (prop_name p) t kvs) (prop_name q) = None" if "q \<in> set ps" for q
  proof -
    have "prop_name q \<noteq> prop_name p" using that Cons.prems(2) by (metis distinct.simps(2) image_eqI list.set_map list.simps(9))
    then show ?thesis using that Cons.prems(4) [of q] by (simp add: new)
  qed
  then have "omap_ok kvs' \<and> (\<forall>p \<in> set ps. property_tag p = Inr (tag_of p)) \<and>
      (\<forall>k. omap_find kvs' k = (case map_of (map (\<lambda>p. (prop_name p, tag_of p)) ps) k of Some t \<Rightarrow> Some t
        | None \<Rightarrow> omap_find (omap_put (prop_name p) t kvs) k))"
    using Cons.prems by (intro Cons.IH [OF l]) (auto simp: omap_ok_put)
  moreover have "map_of (map (\<lambda>p. (prop_name p, tag_of p)) ps) (prop_name p) = None"
    using Cons.prems(2) by (auto simp: map_of_eq_None_iff)
  ultimately show ?case
    using t by (auto simp: new tag_of_def split: option.split)
qed simp

lemma put_properties_sorted:
  assumes f: "fold_result put_property ps [] = Inr kvs" and d: "distinct (map prop_name ps)"
  shows "kvs = map (\<lambda>p. (prop_name p, tag_of p)) (sort_key prop_name ps)"
proof (rule omap_eqI)
  let ?h = "\<lambda>p. (prop_name p, tag_of p)"
  note put = put_properties [OF f d]
  show "omap_ok kvs" using put by (simp add: omap_ok_def omap_find_def)
  have "distinct (map prop_name (sort_key prop_name ps))"
    using d by (simp add: distinct_map)
  then show "omap_ok (map ?h (sort_key prop_name ps))"
    by (simp add: omap_ok_def o_def strict_sorted_iff)
  have "map_of (map ?h (sort_key prop_name ps)) = map_of (map ?h ps)"
    using d by (subst map_of_inject_set) (simp_all add: o_def distinct_map)
  then show "omap_find kvs k = omap_find (map ?h (sort_key prop_name ps)) k" for k
    using put by (auto simp: omap_ok_def omap_find_def split: option.split)
qed

lemma omap_ok_fields_of: "omap_ok (fields_of kvs)"
proof -
  have "omap_ok m \<Longrightarrow> omap_ok (fold (\<lambda>kv. omap_put (fst kv) (snd kv)) kvs m)" for m :: "(string \<times> nbt) list"
    by (induction kvs arbitrary: m) (simp_all add: omap_ok_put)
  then show ?thesis by (simp add: fields_of_def omap_ok_def)
qed

lemma omap_find_fields_of: "omap_find (fields_of kvs) k = map_of (rev kvs) k"
proof -
  have "omap_ok m \<Longrightarrow> omap_find (fold (\<lambda>kv. omap_put (fst kv) (snd kv)) kvs m) k =
      (case map_of (rev kvs) k of Some t \<Rightarrow> Some t | None \<Rightarrow> omap_find m k)" for m :: "(string \<times> nbt) list"
    by (induction kvs arbitrary: m) (auto simp: omap_ok_put omap_find_put map_add_def split: option.split)
  from this [of "[]"] show ?thesis by (simp add: fields_of_def omap_ok_def omap_find_def split: option.split)
qed

lemma list_all_omap_put: "list_all P m \<Longrightarrow> P (k, v) \<Longrightarrow> list_all P (omap_put k v m)"
  by (induction k v m rule: omap_put.induct) auto

lemma list_all_fields_of: "list_all P kvs \<Longrightarrow> list_all P (fields_of kvs)"
proof -
  have "list_all P m \<Longrightarrow> list_all P kvs \<Longrightarrow> list_all P (fold (\<lambda>kv. omap_put (fst kv) (snd kv)) kvs m)" for m
    by (induction kvs arbitrary: m) (simp_all add: list_all_omap_put)
  then show "list_all P kvs \<Longrightarrow> list_all P (fields_of kvs)" by (simp add: fields_of_def)
qed

lemma join_texts_join: "join_texts ts = join '','' ts"
  by (induction ts rule: join_texts.induct) simp_all

lemma entry_text_written:
  assumes e: "palette_entry st = Inr e" and d: "distinct (map prop_name (states st))"
  shows "entry_text_of (NCompound e) = written_text st"
proof (cases "states st = []")
  case True
  with e have "e = fields_of [(''Name'', NString (state_name st))]" by (simp add: palette_entry_def)
  with True show ?thesis by (simp add: entry_text_def entry_of_def omap_find_fields_of written_text_def)
next
  case False
  with e obtain ps where ps: "fold_result put_property (states st) [] = Inr ps"
    and e': "e = fields_of [(''Name'', NString (state_name st)), (''Properties'', NCompound ps)]"
    by (auto simp: palette_entry_def and_then_eq_Inr_iff)
  let ?sorted = "sort_key prop_name (states st)"
  have "property_of_tag (tag_of p) = Some (value_text p)" for p
    by (auto simp: value_text_def tag_of_def property_tag_def
        split: block_state_value_type.split option.split)
  then have "property_texts (properties_of ps) = concat (map (\<lambda>p. [prop_name p @ ''='' @ value_text p]) ?sorted)"
    unfolding put_properties_sorted [OF ps d] property_texts_def properties_of_def by (simp add: o_def)
  then have "property_texts (properties_of ps) = map (\<lambda>p. prop_name p @ ''='' @ value_text p) ?sorted"
    by (simp only: concat_map_singleton)
  moreover have "properties_of ps \<noteq> []"
    using False unfolding put_properties_sorted [OF ps d] properties_of_def by (simp add: sort_key_empty)
  ultimately show ?thesis
    using False by (simp add: e' entry_text_def entry_of_def omap_find_fields_of written_text_def)
qed

section \<open>The keys of the palette\<close>

lemma stop_unique:
  assumes "list_all P xs" "list_all P ys" "us = [] \<or> \<not> P (hd us)" "vs = [] \<or> \<not> P (hd vs)" "xs @ us = ys @ vs"
  shows "xs = ys \<and> us = vs"
proof -
  have t: "takeWhile P (zs @ ws) = zs" if "list_all P zs" "ws = [] \<or> \<not> P (hd ws)" for zs ws
    using that by (cases ws) (auto simp: list_all_iff takeWhile_append)
  have "xs = ys" using t [OF assms(1,3)] t [OF assms(2,4)] assms(5) by simp
  with assms(5) show ?thesis by simp
qed

lemma value_type_char: "of_char (char_of (value_type_index t) :: char) = value_type_index t" "value_type_index t < 5"
  by (cases t; simp)+

lemma key_parts_inj:
  "\<lbrakk>concat (map palette_key_part ps) = concat (map palette_key_part qs);
    list_all (\<lambda>p. printable (prop_name p) \<and> printable (prop_value p)) ps;
    list_all (\<lambda>p. printable (prop_name p) \<and> printable (prop_value p)) qs\<rbrakk> \<Longrightarrow> ps = qs"
proof (induction ps arbitrary: qs)
  case Nil
  then show ?case by (cases qs) (auto simp: palette_key_part_def)
next
  case (Cons p ps)
  then obtain q qs' where qs: "qs = q # qs'" by (cases qs) (auto simp: palette_key_part_def)
  let ?P = "\<lambda>c. 5 \<le> (of_char c :: nat)"
  let ?R = "concat (map palette_key_part ps)" and ?R' = "concat (map palette_key_part qs')"
  have stop: "xs = [] \<or> \<not> ?P (hd xs)" if "xs = concat (map palette_key_part rs)" for xs rs
    using that by (cases rs) (simp_all add: palette_key_part_def)
  have all: "list_all ?P (prop_name p)" "list_all ?P (prop_name q)" "list_all ?P (prop_value p)" "list_all ?P (prop_value q)"
    using Cons.prems(2,3) by (simp_all add: qs printable_def)
  have "prop_name p @ (char_of (value_type_index (prop_type p)) # CHR 0x00 # prop_value p @ ?R) =
      prop_name q @ (char_of (value_type_index (prop_type q)) # CHR 0x00 # prop_value q @ ?R')"
    using Cons.prems(1) unfolding qs by (simp add: palette_key_part_def [of p] palette_key_part_def [of q])
  from stop_unique [OF all(1,2) _ _ this] have n: "prop_name p = prop_name q"
    and r: "char_of (value_type_index (prop_type p)) # CHR 0x00 # prop_value p @ ?R =
      char_of (value_type_index (prop_type q)) # CHR 0x00 # prop_value q @ ?R'"
    using value_type_char by (simp_all add: not_le)
  from r have "of_char (char_of (value_type_index (prop_type p)) :: char) =
      (of_char (char_of (value_type_index (prop_type q)) :: char) :: nat)" by simp
  then have t: "prop_type p = prop_type q" using value_type_char value_type_index_inj by metis
  from r have "prop_value p @ ?R = prop_value q @ ?R'" by simp
  from stop_unique [OF all(3,4) _ _ this] stop have v: "prop_value p = prop_value q" and rest: "?R = ?R'" by blast+
  have "ps = qs'" using Cons.IH [OF rest] Cons.prems(2,3) by (simp add: qs)
  with n t v show ?case by (simp add: qs)
qed

lemma palette_key_inj:
  assumes k: "palette_key st = palette_key st'" and c: "clean_state st" "clean_state st'"
  shows "written_text st = written_text st'"
proof -
  let ?P = "\<lambda>c. 5 \<le> (of_char c :: nat)"
  have stop: "concat (map palette_key_part rs) = [] \<or> \<not> ?P (hd (concat (map palette_key_part rs)))" for rs
    by (cases rs) (simp_all add: palette_key_part_def)
  have "state_name st = state_name st'"
    and r: "concat (map palette_key_part (sort_key prop_name (states st))) =
      concat (map palette_key_part (sort_key prop_name (states st')))"
    using stop_unique [OF _ _ stop stop k [unfolded palette_key_def]] c by (auto simp: clean_state_def printable_def)
  moreover have s: "sort_key prop_name (states st) = sort_key prop_name (states st')"
    using c by (intro key_parts_inj [OF r]) (auto simp: clean_state_def list_all_iff)
  moreover have "states st = [] \<longleftrightarrow> states st' = []"
    using s sort_key_empty [of prop_name "states st"] sort_key_empty [of prop_name "states st'"] by simp
  ultimately show ?thesis by (simp add: written_text_def)
qed

section \<open>The palette and the indices\<close>

definition indices_ok :: "lit_palette_scan \<Rightarrow> bool" where
  "indices_ok sc \<longleftrightarrow> omap_ok (snd sc) \<and>
    (\<forall>st \<in> set (fst sc). omap_find (snd sc) (palette_key st) \<noteq> None) \<and>
    (\<forall>key k. omap_find (snd sc) key = Some k \<longrightarrow>
      (\<exists>i < length (fst sc). k = int i \<and> palette_key (fst sc ! i) = key))"

lemma palette_step_ok:
  assumes ok: "indices_ok sc" and n: "int (length (fst sc)) \<le> INT32_MAX"
  shows "indices_ok (palette_step reg chunks p sc)"
    and "length (fst (palette_step reg chunks p sc)) \<le> Suc (length (fst sc))"
    and "omap_find (snd (palette_step reg chunks p sc)) (palette_key (state_at reg chunks p)) \<noteq> None"
    and "omap_find (snd sc) key \<noteq> None \<Longrightarrow> omap_find (snd (palette_step reg chunks p sc)) key \<noteq> None"
    and "set (fst (palette_step reg chunks p sc)) \<subseteq> insert (state_at reg chunks p) (set (fst sc))"
proof -
  let ?st = "state_at reg chunks p"
  obtain palette indices where sc: "sc = (palette, indices)" by force
  show "length (fst (palette_step reg chunks p sc)) \<le> Suc (length (fst sc))"
    and "set (fst (palette_step reg chunks p sc)) \<subseteq> insert ?st (set (fst sc))"
    by (auto simp: palette_step_def sc Let_def split: option.split)
  show "indices_ok (palette_step reg chunks p sc)"
    and "omap_find (snd (palette_step reg chunks p sc)) (palette_key ?st) \<noteq> None"
    and "omap_find (snd sc) key \<noteq> None \<Longrightarrow> omap_find (snd (palette_step reg chunks p sc)) key \<noteq> None"
  proof (atomize(full), cases "omap_find indices (palette_key ?st)")
    case None
    have s: "s32 (int (length palette)) = int (length palette)" using n by (simp add: sc wrap_simps range_simps)
    have ok': "omap_ok indices" using ok by (simp add: indices_ok_def sc)
    have f: "omap_find (omap_emplace (palette_key ?st) (int (length palette)) indices) key =
        (if key = palette_key ?st then Some (int (length palette)) else omap_find indices key)" for key
      using omap_find_emplace [OF ok'] None by simp
    have "\<exists>i < length (palette @ [?st]). k = int i \<and> palette_key ((palette @ [?st]) ! i) = key"
      if "omap_find (omap_emplace (palette_key ?st) (int (length palette)) indices) key = Some k" for key k
    proof (cases "key = palette_key ?st")
      case True
      then show ?thesis using that by (intro exI [of _ "length palette"]) (simp add: f)
    next
      case False
      then have "omap_find indices key = Some k" using that by (simp add: f)
      then obtain i where "i < length palette" "k = int i" "palette_key (palette ! i) = key"
        using ok unfolding indices_ok_def sc fst_conv snd_conv by blast
      then show ?thesis by (intro exI [of _ i]) (simp add: nth_append)
    qed
    then have "indices_ok (palette @ [?st], omap_emplace (palette_key ?st) (int (length palette)) indices)"
      using ok omap_ok_emplace [OF ok'] by (auto simp: indices_ok_def sc f)
    with None s f show "indices_ok (palette_step reg chunks p sc) \<and>
        omap_find (snd (palette_step reg chunks p sc)) (palette_key ?st) \<noteq> None \<and>
        (omap_find (snd sc) key \<noteq> None \<longrightarrow> omap_find (snd (palette_step reg chunks p sc)) key \<noteq> None)"
      by (simp add: palette_step_def sc Let_def)
  qed (use ok in \<open>simp add: palette_step_def sc Let_def\<close>)
qed

lemma fold_palette_step:
  assumes "indices_ok sc" "int (length (fst sc)) + int (length ps) \<le> INT32_MAX + 1"
  shows "indices_ok (fold (palette_step reg chunks) ps sc) \<and>
    length (fst (fold (palette_step reg chunks) ps sc)) \<le> length (fst sc) + length ps \<and>
    (\<forall>key. omap_find (snd sc) key \<noteq> None \<or> key \<in> (\<lambda>p. palette_key (state_at reg chunks p)) ` set ps \<longrightarrow>
      omap_find (snd (fold (palette_step reg chunks) ps sc)) key \<noteq> None) \<and>
    set (fst (fold (palette_step reg chunks) ps sc)) \<subseteq> state_at reg chunks ` set ps \<union> set (fst sc)"
  using assms
proof (induction ps arbitrary: sc)
  case (Cons p ps)
  have "int (length (fst sc)) \<le> INT32_MAX" using Cons.prems(2) by simp
  note step = palette_step_ok [OF Cons.prems(1) this, where reg = reg and chunks = chunks and p = p]
  have "int (length (fst (palette_step reg chunks p sc))) + int (length ps) \<le> INT32_MAX + 1"
    using step(2) Cons.prems(2) by simp
  note IH = Cons.IH [OF step(1) this]
  show ?case
  proof (intro conjI allI impI)
    fix key
    assume "omap_find (snd sc) key \<noteq> None \<or> key \<in> (\<lambda>p. palette_key (state_at reg chunks p)) ` set (p # ps)"
    then have "omap_find (snd (palette_step reg chunks p sc)) key \<noteq> None \<or>
        key \<in> (\<lambda>p. palette_key (state_at reg chunks p)) ` set ps"
      using step(3) step(4) [where key = key] by auto
    then show "omap_find (snd (fold (palette_step reg chunks) (p # ps) sc)) key \<noteq> None"
      using IH unfolding fold_simps by blast
  qed (use IH step in \<open>auto simp: fold_simps\<close>)
qed auto

lemma scan_palette_facts:
  assumes s: "scan_java_palette reg chunks sz = (palette, indices)"
    and n: "int (length (grid_positions sz)) \<le> INT32_MAX"
  shows "palette \<noteq> []" "length palette \<le> length (grid_positions sz) + 1"
    and "p \<in> set (grid_positions sz) \<Longrightarrow> \<exists>i < length palette.
      omap_find indices (palette_key (state_at reg chunks p)) = Some (int i) \<and>
      palette_key (palette ! i) = palette_key (state_at reg chunks p)"
    and "st \<in> set palette \<Longrightarrow> \<exists>rid. st = java_palette_state reg rid"
proof -
  let ?air = "java_palette_state reg (air_runtime_id reg)"
  have start: "start_palette reg = ([?air], [(palette_key ?air, 0)])"
    by (simp add: start_palette_def Let_def omap_emplace_def omap_find_def)
  have ok: "indices_ok (start_palette reg)"
    by (auto simp: indices_ok_def start omap_ok_def omap_find_def)
  have "int (length (fst (start_palette reg))) + int (length (grid_positions sz)) \<le> INT32_MAX + 1"
    using n by (simp add: start)
  note f = fold_palette_step [OF ok this, where reg = reg and chunks = chunks, folded scan_java_palette_def, unfolded s fst_conv snd_conv]
  show "length palette \<le> length (grid_positions sz) + 1" using f by (simp add: start)
  show "palette \<noteq> []"
  proof
    assume "palette = []"
    then have "omap_find indices (palette_key ?air) = None"
      using f by (cases "omap_find indices (palette_key ?air)") (auto simp: indices_ok_def)
    moreover have "omap_find (snd (start_palette reg)) (palette_key ?air) \<noteq> None" by (simp add: start omap_find_def)
    ultimately show False using f by blast
  qed
  show "\<exists>rid. st = java_palette_state reg rid" if "st \<in> set palette"
    using that f by (auto simp: start state_at_def)
  show "\<exists>i < length palette. omap_find indices (palette_key (state_at reg chunks p)) = Some (int i) \<and>
      palette_key (palette ! i) = palette_key (state_at reg chunks p)" if "p \<in> set (grid_positions sz)"
  proof -
    have "omap_find indices (palette_key (state_at reg chunks p)) \<noteq> None" using f that by blast
    then show ?thesis using f by (auto simp: indices_ok_def)
  qed
qed

section \<open>The tree\<close>

lemma sint_int_tag: "in_s32 n \<Longrightarrow> sint (word_of_int n :: 32 word) = n"
  by (simp add: signed_of_int signed_take_bit_int_eq_self range_simps)

lemma xyz_of_fields:
  "\<lbrakk>in_s32 x; in_s32 y; in_s32 z\<rbrakk> \<Longrightarrow> xyz_of (xyz_fields x y z) = BlockPos x y z"
  by (simp add: xyz_of_def xyz_fields_def int_or_0_def int_value_def omap_find_fields_of int_tag_def sint_int_tag)

lemma written_root_of:
  "root_of (written_root sz region) =
    \<lparr>regions_present = True, regions_is_compound = True, root_regions =
      \<lparr>has_entry = True, selected_is_compound = True, selected_name = ''region'', selected = region_of region\<rparr>\<rparr>"
proof -
  have "fields_of [(''region'', NCompound region)] = [(''region'', NCompound region)]"
    by (simp add: fields_of_def)
  then show ?thesis by (simp add: root_of_def written_root_def omap_find_fields_of regions_of_def)
qed

lemma written_region_of:
  assumes "size_in_range sz" "0 < width sz" "0 < height sz" "0 < len sz"
  shows "required_region_fields_valid (region_of (written_region sz entries packed))"
    "region_box (region_of (written_region sz entries packed)) = sz"
    "region_palette (region_of (written_region sz entries packed)) = map (\<lambda>e. entry_text_of (NCompound e)) entries"
    "packed_states (region_of (written_region sz entries packed)) = packed"
proof -
  show "required_region_fields_valid (region_of (written_region sz entries packed))"
    "region_palette (region_of (written_region sz entries packed)) = map (\<lambda>e. entry_text_of (NCompound e)) entries"
    "packed_states (region_of (written_region sz entries packed)) = packed"
    by (simp_all add: required_region_fields_valid_def region_of_def state_of_def written_region_def omap_find_fields_of)
  have "signed_size (region_of (written_region sz entries packed)) = BlockPos (width sz) (height sz) (len sz)"
    using assms(1) by (simp add: region_of_def written_region_def omap_find_fields_of size_fields_def
        xyz_of_fields size_in_range_def)
  then show "region_box (region_of (written_region sz entries packed)) = sz"
    using assms by (simp add: region_box_def size_in_range_def wrap_simps)
qed

lemma fits_leaf:
  "fits (Suc r) (NByte a)" "fits (Suc r) (NShort b)" "fits (Suc r) (NInt c)" "fits (Suc r) (NLong d)"
  "fits (Suc r) (NString s)" "fits (Suc r) (NLongArray ws)" "fits (Suc r) (int_tag n)"
  by (simp_all add: int_tag_def)

lemma fits_list: "list_all (fits r) ts \<Longrightarrow> fits (Suc r) (NList el ts)"
  by simp

lemma fits_fields_of: "list_all (\<lambda>kv. fits r (snd kv)) kvs \<Longrightarrow> fits (Suc r) (NCompound (fields_of kvs))"
  by (simp add: omap_ok_fields_of list_all_fields_of)

lemma put_property_fits:
  assumes "put_property p kvs = Inr kvs'" "fits (Suc (Suc r)) (NCompound kvs)"
  shows "fits (Suc (Suc r)) (NCompound kvs')"
proof -
  obtain new t where t: "property_tag p = Inr new" "assign_value (omap_find kvs (prop_name p)) new = Inr t"
    and k: "kvs' = omap_put (prop_name p) t kvs"
    using assms(1) by (auto simp: put_property_def and_then_eq_Inr_iff)
  have "fits (Suc r) new" using t(1)
    by (auto simp: property_tag_def split: block_state_value_type.splits option.splits)
  then have "fits (Suc r) t" using t(2)
    by (auto simp: assign_value_def integer_tag_def split: option.splits if_splits)
  then show ?thesis using assms(2) k by (simp add: omap_ok_put list_all_omap_put del: fits.simps(2)) (simp add: omap_ok_put list_all_omap_put)
qed

lemma palette_entry_fits:
  assumes "palette_entry st = Inr e"
  shows "fits (Suc (Suc (Suc r))) (NCompound e)"
proof (cases "states st = []")
  case True
  with assms have "e = fields_of [(''Name'', NString (state_name st))]" by (simp add: palette_entry_def)
  then show ?thesis by (simp only:, intro fits_fields_of) (simp add: fits_leaf del: fits.simps)
next
  case False
  with assms obtain ps where ps: "fold_result put_property (states st) [] = Inr ps"
    and e: "e = fields_of [(''Name'', NString (state_name st)), (''Properties'', NCompound ps)]"
    by (auto simp: palette_entry_def and_then_eq_Inr_iff)
  have "fits (Suc (Suc r)) (NCompound ps)"
    by (rule fold_result_invariant [OF ps]) (simp add: omap_ok_def, rule put_property_fits)
  then show ?thesis unfolding e by (intro fits_fields_of) (simp add: fits_leaf del: fits.simps)
qed

lemma entries_of_iff:
  "entries_of sts = Inr es \<longleftrightarrow> list_all2 (\<lambda>st e. palette_entry st = Inr e) sts es"
  by (induction sts arbitrary: es) (auto simp: and_then_eq_Inr_iff list_all2_Cons1)

lemma xyz_fields_fits: "fits (Suc (Suc r)) (NCompound (xyz_fields x y z))"
  unfolding xyz_fields_def by (intro fits_fields_of) (simp add: fits_leaf del: fits.simps)

lemma written_root_fits:
  assumes "entries_of sts = Inr entries"
  shows "fits (MAX_DEPTH + 1) (NCompound (written_root sz (written_region sz entries packed)))"
proof -
  have "MAX_DEPTH + 1 = Suc (Suc (Suc (Suc (Suc (Suc (Suc 1018))))))" by (simp add: MAX_DEPTH_def)
  then obtain r where d: "MAX_DEPTH + 1 = Suc (Suc (Suc (Suc (Suc (Suc (Suc r))))))" by blast
  have "fits (Suc (Suc (Suc r))) (NCompound e)" if "e \<in> set entries" for e
    using assms that palette_entry_fits unfolding entries_of_iff list_all2_conv_all_nth in_set_conv_nth by metis
  then have "fits (Suc (Suc (Suc (Suc r)))) (NList TCompound (map NCompound entries))"
    by (intro fits_list) (auto simp: list_all_iff simp del: fits.simps)
  then have "fits (Suc (Suc (Suc (Suc (Suc r))))) (NCompound (written_region sz entries packed))"
    unfolding written_region_def size_fields_def
    by (intro fits_fields_of) (simp add: fits_leaf fits_list xyz_fields_fits del: fits.simps)
  then have "fits (Suc (Suc (Suc (Suc (Suc (Suc r)))))) (NCompound (fields_of
      [(''region'', NCompound (written_region sz entries packed))]))"
    by (intro fits_fields_of) (simp del: fits.simps)
  moreover have "fits (Suc (Suc (Suc (Suc (Suc (Suc r)))))) (NCompound (metadata_fields sz))"
    unfolding metadata_fields_def size_fields_def
    by (intro fits_fields_of) (simp add: fits_leaf xyz_fields_fits del: fits.simps)
  ultimately show ?thesis
    unfolding d written_root_def by (intro fits_fields_of) (simp add: fits_leaf del: fits.simps)
qed

section \<open>The packed indices\<close>

lemma pack_steps:
  assumes "\<And>p. p \<in> set ps \<Longrightarrow> omap_find indices (palette_key (state_at reg chunks p)) = Some (int (idx p))"
  shows "fold_result (pack_step reg chunks indices bits) (enumerate n ps) ws =
    Inr (fold (\<lambda>(i, v). pack_value bits i v) (enumerate n (map (\<lambda>p. word_of_nat (idx p)) ps)) ws)"
  using assms by (induction ps arbitrary: n ws) (simp_all add: pack_step_def)

lemma pack_blocks_read:
  assumes pos: "size_in_range sz" "0 < width sz" "0 < height sz" "0 < len sz" and vol: "volume sz \<le> INT32_MAX"
    and bits: "2 \<le> bits" "bits \<le> 32"
    and idx: "\<And>p. \<not> outside sz p \<Longrightarrow> idx p < 2 ^ bits \<and>
      omap_find indices (palette_key (state_at reg chunks p)) = Some (int (idx p))"
  obtains packed where "pack_blocks reg chunks sz indices bits = Inr packed"
    "volume sz * int bits \<le> int (length packed) * 64" "64 * int (length packed) \<le> UINT64_MAX"
    "\<And>p. \<not> outside sz p \<Longrightarrow> palette_index_at packed bits (nat (grid_index sz p)) = idx p"
proof -
  have v: "volume sz = width sz * height sz * len sz"
    using volume_eq [OF pos(1)] pos(2-4) vol by (auto simp: range_simps min_def split: if_splits)
  have n: "int (length (grid_positions sz)) = volume sz" using pos(2-4) by (simp add: v length_grid_positions)
  have b: "volume sz * int bits \<le> INT32_MAX * 32"
    using vol bits(2) n by (intro mult_mono) (auto simp: range_simps)
  have w: "packed_words sz bits = nat ((volume sz * int bits + 63) div 64)"
    using b vol n by (simp add: packed_words_def u64_def range_simps)
  have room: "volume sz * int bits \<le> int (packed_words sz bits) * 64" "64 * int (packed_words sz bits) \<le> UINT64_MAX"
  proof -
    have q: "y \<le> (y + 63) div 64 * 64" "(y + 63) div 64 * 64 \<le> y + 63" for y :: int by presburger+
    have "0 \<le> volume sz * int bits" using n by simp
    then have "int (packed_words sz bits) = (volume sz * int bits + 63) div 64" unfolding w by simp
    then show "volume sz * int bits \<le> int (packed_words sz bits) * 64" "64 * int (packed_words sz bits) \<le> UINT64_MAX"
      using q [of "volume sz * int bits"] b unfolding range_simps by linarith+
  qed
  let ?vs = "map (\<lambda>p. word_of_nat (idx p) :: 64 word) (grid_positions sz)"
  let ?packed = "fold (\<lambda>(i, v). pack_value bits i v) (enumerate 0 ?vs) (replicate (packed_words sz bits) 0)"
  have "int (length ?vs * bits) \<le> int (64 * packed_words sz bits)" using room(1) n by simp
  then have len: "length ?vs * bits \<le> 64 * packed_words sz bits" by linarith
  have idx32: "idx p < 2 ^ 32" if "\<not> outside sz p" for p
    using idx [OF that] bits(2) power_increasing [of bits 32 "2::nat"] by linarith
  have small: "k < bits" if vs: "v \<in> set ?vs" and vk: "bit v k" for v k
  proof -
    obtain p where p: "\<not> outside sz p" "v = word_of_nat (idx p)" using vs by (auto simp: grid_positions_inside)
    then have "bit (idx p) k" using vk bit_small [OF idx32 [OF p(1)]] by simp
    then show ?thesis using idx [OF p(1)] bit_below by blast
  qed
  show thesis
  proof (rule that)
    show "pack_blocks reg chunks sz indices bits = Inr ?packed"
      unfolding pack_blocks_def by (rule pack_steps) (simp add: idx grid_positions_inside)
    show "volume sz * int bits \<le> int (length ?packed) * 64" "64 * int (length ?packed) \<le> UINT64_MAX"
      using room by simp_all
    fix p
    assume p: "\<not> outside sz p"
    let ?i = "nat (grid_index sz p)"
    have i: "?i < length ?vs" using grid_index_length [OF p] by simp
    have vi: "?vs ! ?i = word_of_nat (idx p)" using i nth_grid_positions [OF p] by simp
    have "?i * bits + bits \<le> length ?vs * bits" using i mult_le_mono1 [of "Suc ?i" "length ?vs" bits] by simp
    then show "palette_index_at ?packed bits ?i = idx p"
      using packed_bit [OF len room(2) bits(2) small i] len room(2) bits idx [OF p] idx32 [OF p]
      by (intro palette_index_at_eq) (simp_all add: vi bit_small)
  qed
qed

section \<open>Written and read\<close>

text \<open>The block that is read in the place of a block: the text of its entry, resolved again.\<close>

definition reread_block :: "registry \<Rightarrow> registry \<Rightarrow> runtime_id \<Rightarrow> runtime_id \<Rightarrow> runtime_id" where
  "reread_block reg reg' unknown rid = resolve_entry reg' unknown (written_text (java_palette_state reg rid))"

lemma litematic_tree_read:
  assumes pos: "size_in_range sz" "0 < width sz" "0 < height sz" "0 < len sz" and vol: "volume sz \<le> INT32_MAX"
    and tree: "litematic_tree reg chunks sz = Inr root"
    and clean: "\<And>rid. clean_state (java_palette_state reg rid)"
    and unknown: "find_unknown reg = (unknown, reg')"
  shows "\<exists>s. build_litematic (selected (root_regions (root_of root))) reg = (Inr s, reg') \<and> lit_size s = sz \<and>
    (\<forall>x y z. \<not> outside sz (BlockPos x y z) \<longrightarrow> lit_palette_block s (BlockPos x y z) =
      Some (reread_block reg reg' unknown (block_at chunks (air_runtime_id reg) x y z)))"
proof -
  obtain palette indices where scan: "scan_java_palette reg chunks sz = (palette, indices)" by force
  let ?bits = "bits_for_palette (length palette)"
  obtain packed' entries where pk: "pack_blocks reg chunks sz indices ?bits = Inr packed'"
    and en: "entries_of palette = Inr entries" and root: "root = written_root sz (written_region sz entries packed')"
    using tree by (auto simp: litematic_tree_def scan Let_def and_then_eq_Inr_iff)
  have v: "volume sz = width sz * height sz * len sz"
    using volume_eq [OF pos(1)] pos(2-4) vol by (auto simp: range_simps min_def split: if_splits)
  have n: "int (length (grid_positions sz)) = volume sz" using pos(2-4) by (simp add: v length_grid_positions)
  note facts = scan_palette_facts [OF scan]
  have n': "int (length (grid_positions sz)) \<le> INT32_MAX" using n vol by simp
  have len: "length palette \<le> 2 ^ 31" using facts(2) [OF n'] n' by (simp add: range_simps)
  have bits: "2 \<le> ?bits" "?bits \<le> 32"
    using bits_for_palette_le [OF len] by (simp_all add: bits_for_palette_def)
  have "\<forall>p. \<exists>i. p \<in> set (grid_positions sz) \<longrightarrow> i < length palette \<and>
      omap_find indices (palette_key (state_at reg chunks p)) = Some (int i) \<and>
      palette_key (palette ! i) = palette_key (state_at reg chunks p)"
    using facts(3) [OF n'] by blast
  then obtain idx where idx: "\<And>p. \<not> outside sz p \<Longrightarrow> idx p < length palette \<and>
      omap_find indices (palette_key (state_at reg chunks p)) = Some (int (idx p)) \<and>
      palette_key (palette ! idx p) = palette_key (state_at reg chunks p)"
    unfolding choice_iff grid_positions_inside by blast
  obtain packed where p: "pack_blocks reg chunks sz indices ?bits = Inr packed"
    "volume sz * int ?bits \<le> int (length packed) * 64" "64 * int (length packed) \<le> UINT64_MAX"
    "\<And>p. \<not> outside sz p \<Longrightarrow> palette_index_at packed ?bits (nat (grid_index sz p)) = idx p"
    using pack_blocks_read [OF pos vol bits, of idx indices reg chunks] idx bits_for_palette_bound by metis
  have packed: "packed' = packed" using pk p(1) by simp
  let ?r = "region_of (written_region sz entries packed)"
  note region = written_region_of [OF pos, of entries packed]
  have el: "length entries = length palette"
    and ent: "\<And>i. i < length palette \<Longrightarrow> palette_entry (palette ! i) = Inr (entries ! i)"
    using en unfolding entries_of_iff by (auto simp: list_all2_conv_all_nth)
  let ?pal = "map (resolve_entry reg' unknown) (region_palette ?r)"
  have pal: "length ?pal = length palette" by (simp add: region(3) el)
  have pn: "?pal ! idx q = reread_block reg reg' unknown
      (block_at chunks (air_runtime_id reg) (pos_x q) (pos_y q) (pos_z q))" if q: "\<not> outside sz q" for q
  proof -
    have i: "idx q < length palette" using idx [OF q] by simp
    obtain rid where rid: "palette ! idx q = java_palette_state reg rid"
      using facts(4) [OF n' nth_mem [OF i]] by blast
    have "entry_text_of (NCompound (entries ! idx q)) = written_text (palette ! idx q)"
      using entry_text_written [OF ent [OF i]] clean [of rid] by (simp add: rid clean_state_def)
    also have "\<dots> = written_text (state_at reg chunks q)"
      using idx [OF q] clean by (intro palette_key_inj) (simp_all add: rid state_at_def)
    finally show ?thesis using i by (simp add: region(3) el reread_block_def state_at_def)
  qed
  let ?s = "\<lparr>lit_size = sz, lit_original_size = sz, lit_offset = BlockPos 0 0 0, region_origin = region_position ?r,
    lit_palette = ?pal, lit_packed = packed, lit_entities = region_entities ?r, bits_per_block = ?bits,
    lit_non_air = count_non_air (air_runtime_id reg') ?pal packed ?bits (nat (volume sz))\<rparr>"
  have vb: "0 \<le> volume sz" "volume sz * int ?bits \<le> INT32_MAX * 32"
  proof -
    show "0 \<le> volume sz" using n by simp
    show "volume sz * int ?bits \<le> INT32_MAX * 32"
      using n vol bits(2) by (intro mult_mono) (auto simp: range_simps)
  qed
  then have u: "u64 (volume sz) = volume sz" "u64 (volume sz * int ?bits) = volume sz * int ?bits"
    "u64 (int (length packed) * 64) = int (length packed) * 64"
    using vol p(3) by (simp_all add: u64_def range_simps)
  have "volume sz * int ?bits \<le> UINT64_MAX" using vb(2) by (simp add: range_simps)
  then have "volume sz \<le> UINT64_MAX div int ?bits"
    using zdiv_mono1 [of "volume sz * int ?bits" UINT64_MAX "int ?bits"] bits(1) by simp
  then have g: "\<not> (width sz \<le> 0 \<or> height sz \<le> 0 \<or> len sz \<le> 0)" "?pal \<noteq> []"
    "\<not> UINT64_MAX div int ?bits < volume sz"
    using pos facts(1) [OF n'] pal by auto
  have "offset_size sz (BlockPos 0 0 0) = sz"
    using pos(1) by (simp add: offset_size_def size_in_range_def wrap_simps)
  moreover have "\<not> int (length packed) * 64 < volume sz * int ?bits" using p(2) by simp
  ultimately have "build_litematic ?r reg = (Inr ?s, reg')"
    using g unfolding build_litematic_def region(2,4) unknown Let_def prod.case pal packed u
    by (simp add: lit_set_offset_def pal packed)
  moreover have "lit_palette_block ?s (BlockPos x y z) =
      Some (reread_block reg reg' unknown (block_at chunks (air_runtime_id reg) x y z))"
    if q: "\<not> outside sz (BlockPos x y z)" for x y z
    using idx [OF q] p(4) [OF q] pn [OF q] pal by (simp add: lit_palette_block_def)
  ultimately show ?thesis
    by (intro exI [of _ ?s]) (simp add: root written_root_of packed)
qed

lemma litematic_tree_file:
  assumes tree: "litematic_tree reg chunks sz = Inr root" and b: "write_tag Big name (NCompound root) = Inr b"
    and build: "build_litematic (selected (root_regions (root_of root))) reg = (Inr s, reg')"
    and pos: "size_in_range sz" "0 < width sz" "0 < height sz" "0 < len sz"
  shows "litematic_read b reg = (Inr s, reg')"
proof -
  obtain palette indices where scan: "scan_java_palette reg chunks sz = (palette, indices)" by force
  obtain packed entries where en: "entries_of palette = Inr entries"
    and root: "root = written_root sz (written_region sz entries packed)"
    using tree by (auto simp: litematic_tree_def scan Let_def and_then_eq_Inr_iff)
  have "fits (MAX_DEPTH + 1) (NCompound root)" unfolding root by (rule written_root_fits [OF en])
  from read_root_tree [OF read_compound_written [OF b this, of "[]"]]
  have "read_litematic_root b = Inr (root_of root, [])" by simp
  moreover have "required_region_fields_valid (selected (root_regions (root_of root)))"
    using written_region_of(1) [OF pos] by (simp add: root written_root_of)
  ultimately show ?thesis using build by (simp add: litematic_read_def root written_root_of)
qed

text \<open>
  C9: A structure written as a Litematic file and read back has the same size, and at every
  position the chunks of the new structure hold what the registry makes of the text of the
  palette entry that was written for the original block; outside of the box they hold air.
\<close>

theorem litematic_write_read:
  assumes w: "write_litematic sz get_layer0 reg budget max_in_flight = Inr b"
    and range: "size_in_range sz"
    and get: "get_layer0 (writer_positions sz) = Inr chunks"
    and clean: "\<And>rid. clean_state (java_palette_state reg rid)"
    and unknown: "find_unknown reg = (unknown, reg')"
  shows "\<exists>s. litematic_read b reg = (Inr s, reg') \<and> lit_size s = sz \<and>
    (\<exists>m. litematic_chunks (air_runtime_id reg') s ps = Inr m \<and> fst ` set m = set ps \<and>
      (\<forall>x y z. world_pos_ok x y z \<and> ChunkPos (x div 16) (z div 16) \<in> set ps \<longrightarrow>
        block_at m (air_runtime_id reg') x y z =
          (if outside sz (BlockPos x y z) then air_runtime_id reg'
           else reread_block reg reg' unknown (block_at chunks (air_runtime_id reg) x y z))))"
proof -
  have pos: "0 < width sz" "0 < height sz" "0 < len sz" and vol: "volume sz \<le> INT32_MAX"
    and "\<exists>root. litematic_tree reg chunks sz = Inr root \<and> write_tag Big ''Litematic'' (NCompound root) = Inr b"
    using w get by (auto simp: write_litematic_def not_le not_less split: if_splits sum.splits)
  then obtain root where tree: "litematic_tree reg chunks sz = Inr root"
    and b: "write_tag Big ''Litematic'' (NCompound root) = Inr b" by blast
  obtain s where s: "build_litematic (selected (root_regions (root_of root))) reg = (Inr s, reg')" "lit_size s = sz"
    and block: "\<And>x y z. \<not> outside sz (BlockPos x y z) \<Longrightarrow> lit_palette_block s (BlockPos x y z) =
      Some (reread_block reg reg' unknown (block_at chunks (air_runtime_id reg) x y z))"
    using litematic_tree_read [OF range pos vol tree clean unknown] by blast
  have rd: "litematic_read b reg = (Inr s, reg')"
    by (rule litematic_tree_file [OF tree b s(1) range pos])
  show ?thesis
    using litematic_delivers [OF rd, of ps] rd s(2) block by (simp add: s(2)) (metis (no_types, lifting) option.simps(5))
qed

section \<open>Blocks that come back\<close>

text \<open>A value whose text is the one \<open>std::to_string\<close> prints of a number in the range of its type.\<close>

definition canonical_value :: "block_property \<Rightarrow> bool" where
  "canonical_value p =
    (case prop_type p of
       VByte \<Rightarrow> (case stoi (prop_value p) of
         Some n \<Rightarrow> - 128 \<le> n \<and> n < 128 \<and> to_string n = prop_value p | None \<Rightarrow> False)
     | VShort \<Rightarrow> (case stoi (prop_value p) of
         Some n \<Rightarrow> - 32768 \<le> n \<and> n < 32768 \<and> to_string n = prop_value p | None \<Rightarrow> False)
     | VInt \<Rightarrow> (case stoll (prop_value p) of
         Some (n, rest) \<Rightarrow> in_s32 n \<and> to_string n = prop_value p | None \<Rightarrow> False)
     | VLong \<Rightarrow> (case stoll (prop_value p) of
         Some (n, rest) \<Rightarrow> in_s64 n \<and> to_string n = prop_value p | None \<Rightarrow> False)
     | VString \<Rightarrow> True)"

definition java_faithful :: "registry \<Rightarrow> runtime_id \<Rightarrow> bool" where
  "java_faithful reg rid \<longleftrightarrow>
    (let st = java_palette_state reg rid
     in list_all canonical_value (states st) \<and> java_round_trip_mapping reg (encode_java_state st) = Some rid)"

lemma to_string_zero:
  assumes "in_s64 n"
  shows "to_string n = ''0'' \<longleftrightarrow> n = 0"
proof -
  have z: "to_string 0 = ''0''" by code_simp
  have "n = 0" if "to_string n = to_string 0"
  proof -
    have "parse_exact INT64_MIN INT64_MAX (to_string n) = parse_exact INT64_MIN INT64_MAX (to_string 0)"
      using that by simp
    then show ?thesis using assms by (simp add: parse_exact_to_string range_simps)
  qed
  then show ?thesis by (auto simp: z)
qed

lemma value_text_canonical:
  assumes "canonical_value p"
  shows "value_text p =
    (if prop_type p = VByte then (if prop_value p = ''0'' then ''false'' else ''true'') else prop_value p)"
proof (cases "prop_type p")
  case VByte
  with assms obtain n where n: "stoi (prop_value p) = Some n" "- 128 \<le> n" "n < 128" "to_string n = prop_value p"
    by (auto simp: canonical_value_def split: option.splits)
  have "(word_of_int n :: 8 word) = 0 \<longleftrightarrow> n = 0"
  proof
    assume "(word_of_int n :: 8 word) = 0"
    then have "sint (word_of_int n :: 8 word) = 0" by simp
    then show "n = 0" using n(2,3) by (simp add: signed_of_int signed_take_bit_int_eq_self)
  qed simp
  moreover have "prop_value p = ''0'' \<longleftrightarrow> n = 0" using to_string_zero [of n] n(2-4) by (simp add: range_simps)
  ultimately show ?thesis using VByte n(1) by (simp add: value_text_def tag_of_def property_tag_def)
qed (use assms in \<open>auto simp: value_text_def tag_of_def property_tag_def canonical_value_def range_simps
    signed_of_int signed_take_bit_int_eq_self split: option.splits\<close>)

lemma java_palette_state_name: "CHR '':'' \<in> set (state_name (java_palette_state reg rid))"
  by (simp add: java_palette_state_def Let_def split: option.split)

lemma written_text_encoded:
  assumes "list_all canonical_value (states st)" "CHR '':'' \<in> set (state_name st)"
  shows "normalize_java_state (written_text st) = encode_java_state st"
proof -
  have texts: "map (\<lambda>p. prop_name p @ ''='' @ value_text p) (sort_key prop_name (states st)) =
      map (\<lambda>p. prop_name p @ ''='' @
        (if prop_type p = VByte then (if prop_value p = ''0'' then ''false'' else ''true'') else prop_value p))
        (sort_key prop_name (states st))"
    using assms(1) value_text_canonical by (auto simp: list_all_iff)
  show ?thesis
  proof (cases "states st = []")
    case True
    with assms(2) show ?thesis by (simp add: written_text_def encode_java_state_def qualify_def)
  next
    case False
    with assms(2) show ?thesis
      by (simp only: written_text_def encode_java_state_def qualify_def Let_def join_texts_join texts if_True if_False
          append_assoc)
  qed
qed

lemma find_unknown_round_trip:
  "find_unknown reg = (u, reg') \<Longrightarrow> java_round_trip_mapping reg' = java_round_trip_mapping reg"
  by (auto simp: find_unknown_def register_state_def insert_state_def Let_def split: option.splits if_splits)

lemma mapped_block_reread:
  assumes "java_faithful reg rid" and "find_unknown reg = (unknown, reg')"
  shows "reread_block reg reg' unknown rid = rid"
proof -
  let ?st = "java_palette_state reg rid"
  have "java_round_trip_mapping reg' (normalize_java_state (written_text ?st)) = Some rid"
    using assms written_text_encoded [OF _ java_palette_state_name]
    by (simp add: java_faithful_def Let_def find_unknown_round_trip [OF assms(2)])
  then show ?thesis
    by (simp add: reread_block_def resolve_entry_def compatible_java_runtime_id_def Let_def)
qed


section \<open>A structure of two blocks\<close>

definition lamp_registry :: registry where
  "lamp_registry = empty_registry
    \<lparr>by_name := [''minecraft:unknown'' \<mapsto> 1],
     java_by_runtime_id := [7 \<mapsto> \<lparr>state_name = ''lamp'',
       states = [\<lparr>prop_name = ''lit'', prop_type = VByte, prop_value = ''1''\<rparr>], state_version = 0\<rparr>],
     java_round_trip_mapping := [''minecraft:lamp[lit=true]'' \<mapsto> 7, ''minecraft:air'' \<mapsto> 0]\<rparr>"

definition lamp_chunks :: chunk_map where
  "lamp_chunks = [(ChunkPos 0 0, put_cell 0 True (- 4) 1 7 empty_chunk)]"

definition lamp_size :: wsize where
  "lamp_size = \<lparr>width = 2, height = 1, len = 1\<rparr>"

lemma lamp_states:
  "java_palette_state lamp_registry rid =
    (if rid = 7 then \<lparr>state_name = ''minecraft:lamp'',
       states = [\<lparr>prop_name = ''lit'', prop_type = VByte, prop_value = ''1''\<rparr>], state_version = 0\<rparr>
     else \<lparr>state_name = ''minecraft:air'', states = [], state_version = 0\<rparr>)"
  by (simp add: java_palette_state_def java_state_def lamp_registry_def empty_registry_def)

lemma lamp_clean: "clean_state (java_palette_state lamp_registry rid)"
  unfolding lamp_states by (auto simp: clean_state_def printable_def)

lemma lamp_facts:
  "find_unknown lamp_registry = (1, lamp_registry)" "air_runtime_id lamp_registry = 0" "size_in_range lamp_size"
  "world_pos_ok 1 0 0" "\<not> outside lamp_size (BlockPos 1 0 0)" "block_at lamp_chunks 0 1 0 0 = 7" 
proof -
  have "normalize_name ''minecraft:unknown'' = ''minecraft:unknown''" by code_simp
  then show "find_unknown lamp_registry = (1, lamp_registry)" "air_runtime_id lamp_registry = 0"
    by (simp_all add: find_unknown_def find_runtime_def lamp_registry_def empty_registry_def)
  show "size_in_range lamp_size" "world_pos_ok 1 0 0" "\<not> outside lamp_size (BlockPos 1 0 0)"
    by (simp_all add: lamp_size_def size_in_range_def world_pos_ok_def outside_def range_simps)
  show "block_at lamp_chunks 0 1 0 0 = 7" by code_simp
qed

lemma lamp_faithful: "java_faithful lamp_registry 7"
proof -
  have "encode_java_state \<lparr>state_name = ''minecraft:lamp'',
      states = [\<lparr>prop_name = ''lit'', prop_type = VByte, prop_value = ''1''\<rparr>], state_version = 0\<rparr> =
      ''minecraft:lamp[lit=true]''"
    "canonical_value \<lparr>prop_name = ''lit'', prop_type = VByte, prop_value = ''1''\<rparr>"
    by code_simp+
  then show ?thesis by (simp add: java_faithful_def lamp_states Let_def) (simp add: lamp_registry_def)
qed


definition air_state :: block_state where
  "air_state = \<lparr>state_name = ''minecraft:air'', states = [], state_version = 0\<rparr>"

definition lamp_state :: block_state where
  "lamp_state = \<lparr>state_name = ''minecraft:lamp'',
    states = [\<lparr>prop_name = ''lit'', prop_type = VByte, prop_value = ''1''\<rparr>], state_version = 0\<rparr>"

definition lamp_key :: string where
  "lamp_key = ''minecraft:lamp'' @ CHR 0x00 # ''lit'' @ [CHR 0x00, CHR 0x00, CHR ''1'']"

lemma lamp_keys: "palette_key air_state = ''minecraft:air''" "palette_key lamp_state = lamp_key"
  "omap_emplace lamp_key 1 (omap_emplace ''minecraft:air'' 0 []) = [(''minecraft:air'', 0), (lamp_key, 1 :: int)]"
  "omap_emplace ''minecraft:air'' 0 [] = [(''minecraft:air'', 0 :: int)]" "lamp_key \<noteq> ''minecraft:air''" "s32 1 = 1"
  by code_simp+

lemma lamp_grid: "grid_positions lamp_size = [BlockPos 0 0 0, BlockPos 1 0 0]"
  by code_simp

lemma lamp_states_at:
  "state_at lamp_registry lamp_chunks (BlockPos 0 0 0) = air_state"
  "state_at lamp_registry lamp_chunks (BlockPos 1 0 0) = lamp_state"
proof -
  have "block_at lamp_chunks 0 0 0 0 = 0" by code_simp
  then show "state_at lamp_registry lamp_chunks (BlockPos 0 0 0) = air_state"
    "state_at lamp_registry lamp_chunks (BlockPos 1 0 0) = lamp_state"
    by (simp_all add: state_at_def lamp_facts lamp_states air_state_def lamp_state_def)
qed

lemma lamp_scan:
  "scan_java_palette lamp_registry lamp_chunks lamp_size = ([air_state, lamp_state], [(''minecraft:air'', 0), (lamp_key, 1)])"
proof -
  have start: "start_palette lamp_registry = ([air_state], [(''minecraft:air'', 0)])"
    using lamp_keys(1,4) by (simp add: start_palette_def lamp_facts lamp_states air_state_def Let_def)
  have "palette_step lamp_registry lamp_chunks (BlockPos 0 0 0) ([air_state], [(''minecraft:air'', 0)]) =
      ([air_state], [(''minecraft:air'', 0)])"
    by (simp add: palette_step_def lamp_states_at lamp_keys omap_find_def Let_def)
  moreover have "palette_step lamp_registry lamp_chunks (BlockPos 1 0 0) ([air_state], [(''minecraft:air'', 0)]) =
      ([air_state, lamp_state], [(''minecraft:air'', 0), (lamp_key, 1)])"
    using lamp_keys(3) unfolding lamp_keys(4) by (simp add: palette_step_def lamp_states_at lamp_keys(2,5,6) omap_find_def Let_def)
  ultimately show ?thesis by (simp add: scan_java_palette_def lamp_grid start)
qed

lemma lamp_pack:
  "pack_blocks lamp_registry lamp_chunks lamp_size [(''minecraft:air'', 0), (lamp_key, 1)] 2 = Inr [4]"
proof -
  have "packed_words lamp_size 2 = 1" "pack_value 2 0 0 [0] = [0]" "pack_value 2 1 1 [0] = [4]" by code_simp+
  then show ?thesis
    by (simp add: pack_blocks_def pack_step_def lamp_grid lamp_states_at lamp_keys(1,2,5) omap_find_def)
qed

lemma lamp_entries:
  "entries_of [air_state, lamp_state] = Inr [[(''Name'', NString ''minecraft:air'')],
    [(''Name'', NString ''minecraft:lamp''), (''Properties'', NCompound [(''lit'', NByte 1)])]]"
  by code_simp

lemma lamp_budget:
  "width lamp_size = 2" "height lamp_size = 1" "len lamp_size = 1" "volume lamp_size = 2" "writer_chunk_count lamp_size = 1" "writer_chunk_bytes lamp_size = 65536"
  "packed_upper_bound lamp_size = 8"
  by code_simp+

lemma lamp_root:
  "written_root lamp_size (written_region lamp_size [[(''Name'', NString ''minecraft:air'')],
    [(''Name'', NString ''minecraft:lamp''), (''Properties'', NCompound [(''lit'', NByte 1)])]] [4]) =
   [(''Metadata'', NCompound
      [(''Author'', NString ''WaterStructure''), (''Description'', NString ''(0,0,0) -> (1,0,0)''),
       (''EnclosingSize'', NCompound [(''x'', NInt 2), (''y'', NInt 1), (''z'', NInt 1)]),
       (''Name'', NString ''WaterStructure Export''), (''RegionCount'', NInt 1), (''TotalVolume'', NLong 2)]),
    (''MinecraftDataVersion'', NInt 4556),
    (''Regions'', NCompound [(''region'', NCompound
      [(''BlockStatePalette'', NList TCompound [NCompound [(''Name'', NString ''minecraft:air'')],
         NCompound [(''Name'', NString ''minecraft:lamp''), (''Properties'', NCompound [(''lit'', NByte 1)])]]),
       (''BlockStates'', NLongArray [4]), (''Entities'', NList TCompound []),
       (''Position'', NCompound [(''x'', NInt 0), (''y'', NInt 0), (''z'', NInt 0)]),
       (''Size'', NCompound [(''x'', NInt 2), (''y'', NInt 1), (''z'', NInt 1)]),
       (''TileEntities'', NList TCompound [])])]),
    (''SubVersion'', NInt 1), (''Version'', NInt 6)]"
  by code_simp

lemma lamp_written:
  "\<exists>b. write_litematic lamp_size (\<lambda>ps. Inr lamp_chunks :: (unit, chunk_map) result) lamp_registry 65544 0 = Inr b"
proof -
  have "bits_for_palette 2 = 2" by (rule sample_lit_numbers)
  then have tree: "litematic_tree lamp_registry lamp_chunks lamp_size =
      Inr (written_root lamp_size (written_region lamp_size [[(''Name'', NString ''minecraft:air'')],
        [(''Name'', NString ''minecraft:lamp''), (''Properties'', NCompound [(''lit'', NByte 1)])]] [4]))"
    by (simp add: litematic_tree_def lamp_scan lamp_pack lamp_entries numeral_2_eq_2 [symmetric] del: entries_of.simps)
  moreover have "\<exists>b. write_tag Big ''Litematic'' (NCompound (written_root lamp_size
      (written_region lamp_size [[(''Name'', NString ''minecraft:air'')],
        [(''Name'', NString ''minecraft:lamp''), (''Properties'', NCompound [(''lit'', NByte 1)])]] [4]))) = Inr b"
    unfolding lamp_root by (simp add: write_tag_def write_string_def write_length_def INT32_MAX_def)
  ultimately show ?thesis
    by (auto simp: write_litematic_def lamp_budget u64_def range_simps)
qed

theorem litematic_write_read_witness:
  "\<exists>b s m. write_litematic lamp_size (\<lambda>ps. Inr lamp_chunks :: (unit, chunk_map) result) lamp_registry 65544 0 = Inr b \<and>
    litematic_read b lamp_registry = (Inr s, lamp_registry) \<and> lit_size s = lamp_size \<and>
    litematic_chunks 0 s [ChunkPos 0 0] = Inr m \<and> block_at m 0 1 0 0 = 7"
proof -
  note f = lamp_facts
  let ?get = "\<lambda>ps. Inr lamp_chunks :: (unit, chunk_map) result"
  obtain b where b: "write_litematic lamp_size ?get lamp_registry 65544 0 = Inr b" using lamp_written by blast
  obtain s m where "litematic_read b lamp_registry = (Inr s, lamp_registry)" "lit_size s = lamp_size"
    "litematic_chunks 0 s [ChunkPos 0 0] = Inr m"
    and all: "\<forall>x y z. world_pos_ok x y z \<and> ChunkPos (x div 16) (z div 16) \<in> set [ChunkPos 0 0] \<longrightarrow>
      block_at m 0 x y z = (if outside lamp_size (BlockPos x y z) then 0
        else reread_block lamp_registry lamp_registry 1 (block_at lamp_chunks 0 x y z))"
    using litematic_write_read [OF b f(3) HOL.refl lamp_clean f(1), of "[ChunkPos 0 0]"] unfolding f(2) by (elim conjE exE)
  moreover have "reread_block lamp_registry lamp_registry 1 7 = 7" using mapped_block_reread [OF lamp_faithful f(1)] .
  ultimately show ?thesis
    using b all [rule_format, of 1 0 0] f(4-6) by (intro exI [of _ b] exI [of _ s] exI [of _ m]) simp
qed

end
