(* ===== verification/WS_McStructure.thy ===== *)
theory WS_McStructure
  imports WS_Schematic WS_LitematicCopy
begin

text \<open>
  The format of Bedrock structure blocks: \<open>McStructure\<close> (\<open>src/formats/mcstructure.cpp\<close>), a
  little endian NBT stream without a container. A structure has two layers of palette
  indices, kept in 16 bits as long as they fit (\<open>BlockIndexArray\<close>).

  \<open>read_num\<close> of the library does not test the stream. A number that is cut off by the end
  of the file makes the read fail at once here; the code goes on with a stream that has
  failed, and the next tag type, name or skipped value ends the read. Every failure is a
  failed \<open>Result\<close>; one that the reader finds itself is \<open>InvalidPayload\<close>, their messages are
  left out, and so is the state of an object whose read failed.
\<close>

section \<open>The array of indices\<close>

datatype block_index_array = Compact "nat list" | Full "int list"

definition decode_index :: "nat \<Rightarrow> int" where
  "decode_index n = (if n = 65535 then - 1 else int n)"

fun index_array_clear :: "block_index_array \<Rightarrow> block_index_array" where
  "index_array_clear (Compact vs) = Compact []"
| "index_array_clear (Full vs) = Full []"

fun index_push :: "int \<Rightarrow> block_index_array \<Rightarrow> block_index_array" where
  "index_push v (Compact vs) =
     (if - 1 \<le> v \<and> v \<le> 65534 then Compact (vs @ [if v < 0 then 65535 else nat v])
      else Full (map decode_index vs @ [v]))"
| "index_push v (Full vs) = Full (vs @ [v])"

fun index_size :: "block_index_array \<Rightarrow> nat" where
  "index_size (Compact vs) = length vs"
| "index_size (Full vs) = length vs"

fun index_at :: "block_index_array \<Rightarrow> nat \<Rightarrow> int" where
  "index_at (Compact vs) i = decode_index (vs ! i)"
| "index_at (Full vs) i = vs ! i"

text \<open>What the array stands for.\<close>

fun index_values :: "block_index_array \<Rightarrow> int list" where
  "index_values (Compact vs) = map decode_index vs"
| "index_values (Full vs) = vs"

lemma index_values_push: "index_values (index_push v a) = index_values a @ [v]"
  by (cases a) (auto simp: decode_index_def)

lemma index_values_clear: "index_values (index_array_clear a) = []"
  by (cases a) simp_all

lemma index_size_values: "index_size a = length (index_values a)"
  by (cases a) simp_all

lemma index_at_values: "i < index_size a \<Longrightarrow> index_at a i = index_values a ! i"
  by (cases a) simp_all

lemma index_values_pushes: "index_values (fold index_push vs a) = index_values a @ vs"
  by (induction vs arbitrary: a) (simp_all add: index_values_push)

section \<open>Values\<close>

definition mc_skip :: "tag_type \<Rightarrow> 's \<Rightarrow> byte list \<Rightarrow> (nbt_error, 's \<times> byte list) result" where
  "mc_skip ty s bs = and_then (skip_payload (Suc (length bs)) False Little ty bs) (\<lambda>(u, rest). Inr (s, rest))"

definition mc_read_integer :: "tag_type \<Rightarrow> byte list \<Rightarrow> (nbt_error, int \<times> byte list) result" where
  "mc_read_integer ty bs =
    (case ty of
       TByte \<Rightarrow> and_then (read_num Little bs) (\<lambda>(v :: 8 word, rest). Inr (sint v, rest))
     | TShort \<Rightarrow> and_then (read_num Little bs) (\<lambda>(v :: 16 word, rest). Inr (sint v, rest))
     | TInt \<Rightarrow> and_then (read_num Little bs) (\<lambda>(v :: 32 word, rest). Inr (sint v, rest))
     | TLong \<Rightarrow> and_then (read_num Little bs) (\<lambda>(v :: 64 word, rest). Inr (s32 (sint v), rest))
     | _ \<Rightarrow> Inl InvalidPayload)"

fun state_property :: "string \<Rightarrow> nbt \<Rightarrow> block_property option" where
  "state_property name (NByte v) = Some \<lparr>prop_name = name, prop_type = VByte, prop_value = to_string (sint v)\<rparr>"
| "state_property name (NShort v) = Some \<lparr>prop_name = name, prop_type = VShort, prop_value = to_string (sint v)\<rparr>"
| "state_property name (NInt v) = Some \<lparr>prop_name = name, prop_type = VInt, prop_value = to_string (sint v)\<rparr>"
| "state_property name (NLong v) = Some \<lparr>prop_name = name, prop_type = VLong, prop_value = to_string (sint v)\<rparr>"
| "state_property name (NString s) = Some \<lparr>prop_name = name, prop_type = VString, prop_value = s\<rparr>"
| "state_property name _ = None"

definition mc_read_size :: "byte list \<Rightarrow> (nbt_error, wsize \<times> byte list) result" where
  "mc_read_size bs =
    and_then (read_type True bs) (\<lambda>(el, bs1).
    and_then (read_num Little bs1) (\<lambda>(n :: 32 word, bs2).
      if sint n < 3 \<or> 1024 < sint n \<or> \<not> is_integer_type el then Inl InvalidPayload
      else
        and_then (read_elems (unat n) (mc_read_integer el) bs2) (\<lambda>(vs, rest).
          if vs ! 0 \<le> 0 \<or> vs ! 1 \<le> 0 \<or> vs ! 2 \<le> 0 then Inl InvalidPayload
          else Inr (\<lparr>width = vs ! 0, height = vs ! 1, len = vs ! 2\<rparr>, rest))))"

definition mc_read_layer ::
  "block_index_array \<Rightarrow> byte list \<Rightarrow> (nbt_error, block_index_array \<times> byte list) result" where
  "mc_read_layer old bs =
    and_then (read_type True bs) (\<lambda>(el, bs1).
      if \<not> is_integer_type el then Inl InvalidPayload
      else
        and_then (read_length Little bs1) (\<lambda>(n, bs2).
        and_then (read_elems n (mc_read_integer el) bs2) (\<lambda>(vs, rest).
          Inr (fold index_push vs (index_array_clear old), rest))))"

definition mc_read_indices ::
  "block_index_array \<times> block_index_array \<Rightarrow> byte list \<Rightarrow>
   (nbt_error, (block_index_array \<times> block_index_array) \<times> byte list) result" where
  "mc_read_indices old bs =
    and_then (read_type True bs) (\<lambda>(el, bs1).
      if el \<noteq> TList then Inl InvalidPayload
      else
        and_then (read_num Little bs1) (\<lambda>(n :: 32 word, bs2).
          if sint n \<noteq> 2 then Inl InvalidPayload
          else
            and_then (mc_read_layer (fst old) bs2) (\<lambda>(a, bs3).
            and_then (mc_read_layer (snd old) bs3) (\<lambda>(b, rest). Inr ((a, b), rest)))))"

section \<open>The palette\<close>

definition mc_entry_state :: "(string \<times> nbt) list \<Rightarrow> block_state" where
  "mc_entry_state block =
    \<lparr>state_name = (case omap_find block ''name'' of Some (NString s) \<Rightarrow> s | _ \<Rightarrow> ''minecraft:unknown''),
     states = (case omap_find block ''states'' of
       Some (NCompound ps) \<Rightarrow> List.map_filter (\<lambda>kv. state_property (fst kv) (snd kv)) ps | _ \<Rightarrow> []),
     state_version = (case int_value block ''version'' of Some v \<Rightarrow> v | None \<Rightarrow> 0)\<rparr>"

definition mc_resolve :: "registry \<Rightarrow> runtime_id \<Rightarrow> block_state \<Rightarrow> runtime_id" where
  "mc_resolve reg unknown st =
    (if state_name st = ''minecraft:air'' \<and> states st = [] then air_runtime_id reg
     else case find_runtime reg (state_name st) (states st) 0 of
            Some rid \<Rightarrow> rid
          | None \<Rightarrow> (case find_runtime reg (state_name st) [] 0 of Some rid \<Rightarrow> rid | None \<Rightarrow> unknown))"

definition mc_palette_item ::
  "registry \<Rightarrow> runtime_id \<Rightarrow> tag_type \<Rightarrow> byte list \<Rightarrow> (nbt_error, runtime_id \<times> byte list) result" where
  "mc_palette_item reg unknown el bs =
    (if el \<noteq> TCompound then mc_skip el unknown bs
     else
       and_then (read_payload MAX_DEPTH Little TCompound bs) (\<lambda>(t, rest).
         case t of
           NCompound block \<Rightarrow> Inr (mc_resolve reg unknown (mc_entry_state block), rest)
         | _ \<Rightarrow> Inl InvalidPayload))"

definition mc_read_block_palette ::
  "registry \<Rightarrow> runtime_id \<Rightarrow> byte list \<Rightarrow> (nbt_error, runtime_id list \<times> byte list) result" where
  "mc_read_block_palette reg unknown bs =
    and_then (read_type True bs) (\<lambda>(el, bs1).
    and_then (read_length Little bs1) (\<lambda>(n, bs2). read_elems n (mc_palette_item reg unknown el) bs2))"

section \<open>Block entities\<close>

text \<open>\<open>entity_source_keys\<close> and \<open>mBlockEntities\<close>.\<close>

type_synonym entity_scan = "(int \<rightharpoonup> string) \<times> (int \<times> nbt_payload) list"

definition mc_entity_field ::
  "bool \<Rightarrow> string \<Rightarrow> tag_type \<Rightarrow> nbt_payload option \<Rightarrow> byte list \<Rightarrow> (nbt_error, nbt_payload option \<times> byte list) result" where
  "mc_entity_field valid_index key ty found bs =
    (if valid_index \<and> key = ''block_entity_data'' \<and> ty = TCompound
     then
       and_then (read_payload MAX_DEPTH Little TCompound bs) (\<lambda>(t, rest).
         case t of
           NCompound kvs \<Rightarrow> and_then (serialize_compound kvs) (\<lambda>payload. Inr (Some payload, rest))
         | _ \<Rightarrow> Inl InvalidPayload)
     else mc_skip ty found bs)"

definition mc_keep_entity :: "string \<Rightarrow> int \<Rightarrow> nbt_payload \<Rightarrow> entity_scan \<Rightarrow> entity_scan" where
  "mc_keep_entity text i payload sc =
    (case fst sc i of
       None \<Rightarrow> ((fst sc)(i \<mapsto> text), umap_emplace i payload (snd sc))
     | Some source \<Rightarrow>
         if text < source then ((fst sc)(i \<mapsto> text), umap_put i payload (snd sc)) else sc)"

definition mc_position_field ::
  "string \<Rightarrow> tag_type \<Rightarrow> entity_scan \<Rightarrow> byte list \<Rightarrow> (nbt_error, entity_scan \<times> byte list) result" where
  "mc_position_field text ty sc bs =
    (if ty \<noteq> TCompound then mc_skip ty sc bs
     else
       let index = parse_exact INT32_MIN INT32_MAX text
       in and_then (read_fields Little (mc_entity_field (index \<noteq> None)) None bs) (\<lambda>(found, rest).
            Inr (case (index, found) of (Some i, Some payload) \<Rightarrow> mc_keep_entity text i payload sc | _ \<Rightarrow> sc, rest)))"

definition mc_read_position_data ::
  "(int \<times> nbt_payload) list \<Rightarrow> byte list \<Rightarrow> (nbt_error, (int \<times> nbt_payload) list \<times> byte list) result" where
  "mc_read_position_data ents bs =
    and_then (read_fields Little mc_position_field (Map.empty, ents) bs) (\<lambda>(sc, rest). Inr (snd sc, rest))"

section \<open>The reader\<close>

record mc_scan =
  scan_dims :: "wsize option"
  scan_indices :: "block_index_array \<times> block_index_array"
  mc_scan_palette :: "runtime_id list"
  scan_entities :: "(int \<times> nbt_payload) list"
  has_structure :: bool
  has_indices :: bool
  has_palette :: bool
  has_default_palette :: bool
  has_block_palette :: bool

definition empty_mc_scan :: mc_scan where
  "empty_mc_scan = \<lparr>scan_dims = None, scan_indices = (Compact [], Compact []), mc_scan_palette = [],
    scan_entities = [], has_structure = False, has_indices = False, has_palette = False,
    has_default_palette = False, has_block_palette = False\<rparr>"

definition mc_default_field ::
  "registry \<Rightarrow> runtime_id \<Rightarrow> string \<Rightarrow> tag_type \<Rightarrow> mc_scan \<times> bool \<times> bool \<Rightarrow> byte list \<Rightarrow>
   (nbt_error, (mc_scan \<times> bool \<times> bool) \<times> byte list) result" where
  "mc_default_field reg unknown key ty st bs =
    (let (sc, saw_block_palette, saw_position_data) = st
     in if key = ''block_palette'' \<and> \<not> saw_block_palette then
          (if ty = TList
           then and_then (mc_read_block_palette reg unknown bs) (\<lambda>(ids, rest).
             Inr ((sc\<lparr>mc_scan_palette := ids, has_block_palette := True\<rparr>, True, saw_position_data), rest))
           else mc_skip ty (sc, True, saw_position_data) bs)
        else if key = ''block_position_data'' \<and> \<not> saw_position_data then
          (if ty = TCompound
           then and_then (mc_read_position_data (scan_entities sc) bs) (\<lambda>(ents, rest).
             Inr ((sc\<lparr>scan_entities := ents\<rparr>, saw_block_palette, True), rest))
           else mc_skip ty (sc, saw_block_palette, True) bs)
        else mc_skip ty st bs)"

definition mc_palette_field ::
  "registry \<Rightarrow> runtime_id \<Rightarrow> string \<Rightarrow> tag_type \<Rightarrow> mc_scan \<times> bool \<Rightarrow> byte list \<Rightarrow>
   (nbt_error, (mc_scan \<times> bool) \<times> byte list) result" where
  "mc_palette_field reg unknown key ty st bs =
    (if key = ''default'' \<and> \<not> snd st then
       (if ty = TCompound
        then and_then (read_fields Little (mc_default_field reg unknown)
               ((fst st)\<lparr>has_default_palette := True\<rparr>, False, False) bs) (\<lambda>(st', rest).
          Inr ((fst st', True), rest))
        else mc_skip ty (fst st, True) bs)
     else mc_skip ty st bs)"

definition mc_read_palette ::
  "registry \<Rightarrow> runtime_id \<Rightarrow> mc_scan \<Rightarrow> byte list \<Rightarrow> (nbt_error, mc_scan \<times> byte list) result" where
  "mc_read_palette reg unknown sc bs =
    and_then (read_fields Little (mc_palette_field reg unknown)
        (sc\<lparr>has_palette := True, has_default_palette := False, has_block_palette := False,
            mc_scan_palette := [], scan_entities := []\<rparr>, False) bs)
      (\<lambda>(st, rest). Inr (fst st, rest))"

definition mc_structure_field ::
  "registry \<Rightarrow> runtime_id \<Rightarrow> string \<Rightarrow> tag_type \<Rightarrow> mc_scan \<Rightarrow> byte list \<Rightarrow> (nbt_error, mc_scan \<times> byte list) result" where
  "mc_structure_field reg unknown key ty sc bs =
    (if key = ''block_indices'' \<and> ty = TList
     then and_then (mc_read_indices (scan_indices sc) bs) (\<lambda>(ab, rest).
       Inr (sc\<lparr>scan_indices := ab, has_indices := True\<rparr>, rest))
     else if key = ''palette'' \<and> ty = TCompound then mc_read_palette reg unknown sc bs
     else mc_skip ty sc bs)"

definition mc_root_field ::
  "registry \<Rightarrow> runtime_id \<Rightarrow> string \<Rightarrow> tag_type \<Rightarrow> mc_scan \<Rightarrow> byte list \<Rightarrow> (nbt_error, mc_scan \<times> byte list) result" where
  "mc_root_field reg unknown key ty sc bs =
    (if key = ''size'' \<and> ty = TList
     then and_then (mc_read_size bs) (\<lambda>(sz, rest). Inr (sc\<lparr>scan_dims := Some sz\<rparr>, rest))
     else if key = ''structure'' \<and> ty = TCompound
     then and_then (read_fields Little (mc_structure_field reg unknown) sc bs) (\<lambda>(sc', rest).
       Inr (sc'\<lparr>has_structure := True\<rparr>, rest))
     else mc_skip ty sc bs)"

record mc_structure =
  mc_size :: wsize
  mc_original_size :: wsize
  mc_offset :: block_pos
  mc_layers :: "block_index_array \<times> block_index_array"
  mc_palette :: "runtime_id list"
  mc_entities :: "(int \<times> nbt_payload) list"
  mc_non_air :: nat

definition mc_set_offset :: "block_pos \<Rightarrow> mc_structure \<Rightarrow> mc_structure" where
  "mc_set_offset off s = s\<lparr>mc_offset := off, mc_size := offset_size (mc_original_size s) off\<rparr>"

definition mc_count :: "runtime_id \<Rightarrow> runtime_id list \<Rightarrow> block_index_array \<Rightarrow> nat" where
  "mc_count air palette indices =
    length (filter (\<lambda>i. 0 \<le> index_at indices i \<and> nat (index_at indices i) < length palette \<and>
      palette ! nat (index_at indices i) \<noteq> air) [0..<index_size indices])"

definition mc_build :: "runtime_id \<Rightarrow> mc_scan \<Rightarrow> (nbt_error, mc_structure) result" where
  "mc_build air sc =
    (case scan_dims sc of
       None \<Rightarrow> Inl InvalidPayload
     | Some sz \<Rightarrow>
         if \<not> has_structure sc \<or> \<not> has_indices sc \<or> \<not> has_palette sc then Inl InvalidPayload
         else
           let vol = nat (u64 (volume sz))
           in if index_size (fst (scan_indices sc)) \<noteq> vol \<or> index_size (snd (scan_indices sc)) \<noteq> vol
              then Inl InvalidPayload
              else if \<not> has_default_palette sc \<or> \<not> has_block_palette sc then Inl InvalidPayload
              else Inr (mc_set_offset (BlockPos 0 0 0)
                \<lparr>mc_size = sz, mc_original_size = sz, mc_offset = BlockPos 0 0 0, mc_layers = scan_indices sc,
                 mc_palette = mc_scan_palette sc, mc_entities = scan_entities sc,
                 mc_non_air = mc_count air (mc_scan_palette sc) (fst (scan_indices sc))\<rparr>))"

definition mcstructure_read :: "byte list \<Rightarrow> registry \<Rightarrow> (nbt_error, mc_structure) result \<times> registry" where
  "mcstructure_read bytes reg =
    (case and_then (read_type False bytes) (\<lambda>(ty, bs1).
            if ty \<noteq> TCompound then Inl InvalidPayload
            else and_then (read_string Little bs1) (\<lambda>(name, bs2).
              if name \<noteq> [] then Inl InvalidPayload else Inr bs2)) of
       Inl e \<Rightarrow> (Inl e, reg)
     | Inr bs2 \<Rightarrow>
         let (unknown, reg1) = find_unknown reg
         in (and_then (read_fields Little (mc_root_field reg1 unknown) empty_mc_scan bs2) (\<lambda>(sc, rest).
               mc_build (air_runtime_id reg1) sc), reg1))"

section \<open>Requests\<close>

definition set_layer1 :: "int \<Rightarrow> nat \<Rightarrow> runtime_id \<Rightarrow> chunk_data \<Rightarrow> chunk_data" where
  "set_layer1 sy idx v ch =
    (case sub_chunks ch sy of
       None \<Rightarrow> ch
     | Some sub \<Rightarrow> ch\<lparr>sub_chunks := (sub_chunks ch)(sy \<mapsto> sub\<lparr>layer1 := (layer1 sub)(idx := v)\<rparr>)\<rparr>)"

definition put_layer :: "bool \<Rightarrow> runtime_id \<Rightarrow> bool \<Rightarrow> int \<Rightarrow> nat \<Rightarrow> runtime_id \<Rightarrow> chunk_data \<Rightarrow> chunk_data" where
  "put_layer second air include_layer1 sy idx v ch =
    (let ch' = ensure_sub_chunk air include_layer1 sy ch
     in if second then set_layer1 sy idx v ch' else set_layer0 sy idx v ch')"

definition mc_flat_index :: "wsize \<Rightarrow> int \<Rightarrow> int \<Rightarrow> int \<Rightarrow> nat" where
  "mc_flat_index sz x y z =
    (let plane_size = u64 (u64 (height sz) * u64 (len sz))
     in nat (u64 (u64 (u64 x * plane_size) + u64 (u64 y * u64 (len sz)) + u64 z)))"

definition mc_look :: "runtime_id \<Rightarrow> mc_structure \<Rightarrow> block_index_array \<Rightarrow> nat \<Rightarrow> runtime_id option" where
  "mc_look air s indices i =
    (if index_size indices \<le> i then None
     else
       let k = index_at indices i
       in if k < 0 \<or> length (mc_palette s) \<le> nat k then None
          else if mc_palette s ! nat k = air then None else Some (mc_palette s ! nat k))"

definition mc_cell ::
  "runtime_id \<Rightarrow> bool \<Rightarrow> mc_structure \<Rightarrow> bool \<Rightarrow> block_index_array \<Rightarrow> chunk_pos \<Rightarrow> int \<Rightarrow> int \<Rightarrow> int \<Rightarrow>
   chunk_data \<Rightarrow> chunk_data" where
  "mc_cell air include_layer1 s second indices cp x y z chunk =
    (case mc_look air s indices (mc_flat_index (mc_original_size s) x y z) of
       None \<Rightarrow> chunk
     | Some runtime_id \<Rightarrow>
         let world_x = s32 (x + pos_x (mc_offset s));
             world_y = s32 (y + pos_y (mc_offset s));
             world_z = s32 (z + pos_z (mc_offset s));
             sub_y = floor_div (s32 (world_y - 64)) 16;
             local_x = s32 (world_x - s32 (chunk_x cp * 16));
             local_y = s32 (world_y - s32 (s32 (sub_y * 16) + 64));
             local_z = s32 (world_z - s32 (chunk_z cp * 16))
         in put_layer second air include_layer1 sub_y (layer_index local_x local_y local_z) runtime_id chunk)"

definition mc_fill ::
  "runtime_id \<Rightarrow> bool \<Rightarrow> mc_structure \<Rightarrow> bool \<Rightarrow> block_index_array \<Rightarrow> chunk_pos \<Rightarrow> chunk_data \<Rightarrow> chunk_data" where
  "mc_fill air include_layer1 s second indices cp chunk =
    (let off = mc_offset s; sz = mc_original_size s;
         min_x = max 0 (chunk_x cp * 16 - pos_x off);
         max_x = min (width sz - 1) (chunk_x cp * 16 + 15 - pos_x off);
         min_z = max 0 (chunk_z cp * 16 - pos_z off);
         max_z = min (len sz - 1) (chunk_z cp * 16 + 15 - pos_z off)
     in if max_x < min_x \<or> max_z < min_z then chunk
        else
          fold (\<lambda>x. fold (\<lambda>y. fold (\<lambda>z. mc_cell air include_layer1 s second indices cp x y z) [min_z..max_z])
            [0..height sz - 1]) [min_x..max_x] chunk)"

definition mc_write_layer ::
  "runtime_id \<Rightarrow> bool \<Rightarrow> mc_structure \<Rightarrow> bool \<Rightarrow> block_index_array \<Rightarrow> chunk_map \<Rightarrow> chunk_map" where
  "mc_write_layer air include_layer1 s second indices m =
    (if index_size indices = 0 then m
     else map (\<lambda>kv. (fst kv, mc_fill air include_layer1 s second indices (fst kv) (snd kv))) m)"

definition mc_chunks_impl :: "runtime_id \<Rightarrow> mc_structure \<Rightarrow> chunk_pos list \<Rightarrow> bool \<Rightarrow> chunk_map" where
  "mc_chunks_impl air s positions include_layer1 =
    (let m = mc_write_layer air include_layer1 s False (fst (mc_layers s)) (emplace_all empty_chunk positions)
     in if include_layer1 then mc_write_layer air include_layer1 s True (snd (mc_layers s)) m else m)"

definition mc_chunks :: "runtime_id \<Rightarrow> mc_structure \<Rightarrow> chunk_pos list \<Rightarrow> chunk_map" where
  "mc_chunks air s positions = mc_chunks_impl air s positions True"

definition mc_chunks_layer0 :: "runtime_id \<Rightarrow> mc_structure \<Rightarrow> chunk_pos list \<Rightarrow> chunk_map" where
  "mc_chunks_layer0 air s positions = mc_chunks_impl air s positions False"

text \<open>A block entity whose index lies in the first layer is delivered at its position.\<close>

definition mc_entity_pos :: "wsize \<Rightarrow> nat \<Rightarrow> block_pos" where
  "mc_entity_pos sz index =
    (let l = nat (len sz); h = nat (height sz)
     in BlockPos (int (index div (h * l))) (int (index div l mod h)) (int (index mod l)))"

definition mc_deliver ::
  "mc_structure \<Rightarrow> int \<times> nbt_payload \<Rightarrow> nbt_chunk_map \<Rightarrow> nbt_chunk_map" where
  "mc_deliver s ent m =
    (if fst ent < 0 \<or> index_size (fst (mc_layers s)) \<le> nat (fst ent) then m
     else deliver_entity (mc_offset s) (mc_entity_pos (mc_original_size s) (nat (fst ent)), snd ent) m)"

definition mc_chunk_nbt :: "mc_structure \<Rightarrow> chunk_pos list \<Rightarrow> nbt_chunk_map" where
  "mc_chunk_nbt s positions = fold (mc_deliver s) (mc_entities s) (emplace_all [] positions)"

definition mc_count_non_air :: "mc_structure \<Rightarrow> nat" where
  "mc_count_non_air s = mc_non_air s"

end
