(* ===== verification/WS_McChunks.thy ===== *)
theory WS_McChunks
  imports WS_McStructure
begin

text \<open>
  What a structure block delivers: both layers exactly, from any file that was read. The
  lookup runs over the box in the order x, y, z; turning the box makes the index that of
  \<open>WS_Dense\<close>, whose lemmas on the index and the count then apply.
\<close>

section \<open>Two layers of cells\<close>

definition get_layer :: "runtime_id \<Rightarrow> chunk_data \<Rightarrow> bool \<times> int \<times> nat \<Rightarrow> runtime_id" where
  "get_layer air ch c =
    (case sub_chunks ch (fst (snd c)) of
       None \<Rightarrow> air
     | Some sub \<Rightarrow> (if fst c then layer1 sub else layer0 sub) (snd (snd c)))"

interpretation layered: cell_store "get_layer air"
  "\<lambda>c. put_layer (fst c) air True (fst (snd c)) (snd (snd c))" for air :: runtime_id
  by unfold_locales
    (auto simp: get_layer_def put_layer_def set_layer0_def set_layer1_def ensure_sub_chunk_def Let_def
      split: option.split)

lemma get_layer_empty [simp]: "get_layer air empty_chunk c = air"
  by (simp add: get_layer_def empty_chunk_def)

lemma get_layer_first: "get_layer air ch (False, c) = get_cell air ch c"
  by (simp add: get_layer_def get_cell_def split: option.split)

lemma put_layer_first: "put_layer False = put_cell"
  by (intro ext) (simp add: put_layer_def put_cell_def Let_def)

text \<open>\<open>block_at\<close> of \<open>mcstructure_writer.cpp\<close>, which reads either layer.\<close>

definition layer_block_at :: "bool \<Rightarrow> chunk_map \<Rightarrow> runtime_id \<Rightarrow> int \<Rightarrow> int \<Rightarrow> int \<Rightarrow> runtime_id" where
  "layer_block_at second chunks air x y z =
    (case map_of chunks (ChunkPos (floor_div x 16) (floor_div z 16)) of
       None \<Rightarrow> air
     | Some chunk \<Rightarrow>
         let sy = floor_div (s32 (y - 64)) 16
         in case sub_chunks chunk sy of
              None \<Rightarrow> air
            | Some sub \<Rightarrow>
                let local_y = s32 (y - s32 (s32 (sy * 16) + 64));
                    index = layer_index (floor_mod x 16) local_y (floor_mod z 16)
                in if second then layer1 sub index else layer0 sub index)"

lemma layer_block_at_eq:
  assumes "world_pos_ok x y z"
  shows "layer_block_at second chunks air x y z =
    (case map_of chunks (ChunkPos (x div 16) (z div 16)) of
       None \<Rightarrow> air
     | Some ch \<Rightarrow> get_layer air ch (second, world_cell x y z))"
  using assms by (auto simp: world_pos_ok_def layer_block_at_def get_layer_def world_cell_def wrap_simps
      sub_chunk_local_y Let_def split: option.split)

section \<open>The index\<close>

text \<open>The turned box: its rows run along z, its layers along x.\<close>

definition turn_size :: "wsize \<Rightarrow> wsize" where
  "turn_size sz = \<lparr>width = len sz, height = width sz, len = height sz\<rparr>"

definition turn :: "block_pos \<Rightarrow> block_pos" where
  "turn p = BlockPos (pos_z p) (pos_x p) (pos_y p)"

definition mc_grid_index :: "wsize \<Rightarrow> block_pos \<Rightarrow> int" where
  "mc_grid_index sz p = (pos_x p * height sz + pos_y p) * len sz + pos_z p"

lemma outside_turn: "outside (turn_size sz) (turn p) \<longleftrightarrow> outside sz p"
  by (auto simp: outside_def turn_def turn_size_def)

lemma grid_index_turn: "grid_index (turn_size sz) (turn p) = mc_grid_index sz p"
  by (simp add: grid_index_def mc_grid_index_def turn_def turn_size_def)

lemma turn_bij: "bij turn"
  by (rule bij_betw_byWitness [where f' = "\<lambda>q. BlockPos (pos_y q) (pos_z q) (pos_x q)"]) (auto simp: turn_def)

lemma mc_flat_dense: "mc_flat_index sz x y z = dense_index (turn_size sz) z x y"
  by (simp add: mc_flat_index_def dense_index_def turn_size_def Let_def mult.commute [of "u64 (height sz)"])

lemma mc_flat_eq:
  assumes "\<not> outside sz p" and "width sz * height sz * len sz \<le> INT64_MAX"
  shows "mc_flat_index sz (pos_x p) (pos_y p) (pos_z p) = nat (mc_grid_index sz p)"
proof -
  have "width (turn_size sz) * height (turn_size sz) * len (turn_size sz) = width sz * height sz * len sz"
    by (simp add: turn_size_def)
  with assms have "dense_index (turn_size sz) (pos_x (turn p)) (pos_y (turn p)) (pos_z (turn p)) =
      nat (grid_index (turn_size sz) (turn p))"
    by (intro dense_index_eq) (simp_all add: outside_turn)
  then show ?thesis by (simp add: mc_flat_dense grid_index_turn) (simp add: turn_def)
qed

text \<open>A count over the array is a count over the box.\<close>

lemma mc_count_box:
  assumes "n = nat (width sz * height sz * len sz)" "0 < width sz" "0 < height sz" "0 < len sz"
  shows "length (filter P [0..<n]) = card {p. \<not> outside sz p \<and> P (nat (mc_grid_index sz p))}"
proof -
  have n: "n = length (grid_positions (turn_size sz))"
    using assms by (simp add: length_grid_positions turn_size_def nat_mult_distrib)
  have "{q. \<not> outside (turn_size sz) q \<and> P (nat (grid_index (turn_size sz) q))} =
      turn ` {p. \<not> outside sz p \<and> P (nat (mc_grid_index sz p))}" (is "?L = turn ` ?R")
  proof -
    have "q \<in> ?L \<longleftrightarrow> q \<in> turn ` ?R" for q
    proof -
      obtain p where "q = turn p" using bij_pointE [OF turn_bij] by metis
      then show ?thesis
        by (simp add: outside_turn grid_index_turn inj_image_mem_iff [OF bij_is_inj [OF turn_bij]])
    qed
    then show ?thesis by blast
  qed
  then show ?thesis
    unfolding n count_grid by (simp add: card_image inj_on_subset [OF bij_is_inj [OF turn_bij]])
qed

section \<open>One chunk\<close>

definition mc_positions :: "wsize \<Rightarrow> block_pos \<Rightarrow> chunk_pos \<Rightarrow> block_pos list" where
  "mc_positions sz off cp =
    concat (map (\<lambda>x. concat (map (\<lambda>y. map (\<lambda>z. BlockPos x y z)
      [max 0 (chunk_z cp * 16 - pos_z off)..min (len sz - 1) (chunk_z cp * 16 + 15 - pos_z off)])
      [0..height sz - 1]))
      [max 0 (chunk_x cp * 16 - pos_x off)..min (width sz - 1) (chunk_x cp * 16 + 15 - pos_x off)])"

lemma set_mc_positions: "p \<in> set (mc_positions sz off cp) \<longleftrightarrow> \<not> outside sz p \<and> in_chunk off cp p"
proof -
  have "p \<in> set (mc_positions sz off cp) \<longleftrightarrow> p \<in> set (dense_positions sz off cp)"
    unfolding mc_positions_def dense_positions_def set_concat set_map set_upto image_image UN_iff image_iff by blast
  then show ?thesis by (simp add: set_dense_positions)
qed

definition mc_block :: "bool \<Rightarrow> mc_structure \<Rightarrow> block_pos \<Rightarrow> runtime_id option" where
  "mc_block second s p =
    (let k = index_at (if second then snd (mc_layers s) else fst (mc_layers s))
               (nat (mc_grid_index (mc_original_size s) p))
     in if 0 \<le> k \<and> nat k < length (mc_palette s) then Some (mc_palette s ! nat k) else None)"

definition mc_visible :: "runtime_id \<Rightarrow> bool \<Rightarrow> mc_structure \<Rightarrow> block_pos \<Rightarrow> runtime_id option" where
  "mc_visible air second s p =
    (case mc_block second s p of None \<Rightarrow> None | Some v \<Rightarrow> if v = air then None else Some v)"

definition mc_at :: "runtime_id \<Rightarrow> bool \<Rightarrow> mc_structure \<Rightarrow> block_pos \<Rightarrow> runtime_id" where
  "mc_at air second s p =
    (if outside (mc_original_size s) p then air else case mc_block second s p of None \<Rightarrow> air | Some v \<Rightarrow> v)"

definition mc_valid :: "mc_structure \<Rightarrow> bool" where
  "mc_valid s \<longleftrightarrow>
    (let sz = mc_original_size s; n = nat (width sz * height sz * len sz)
     in 0 < width sz \<and> 0 < height sz \<and> 0 < len sz \<and> width sz * height sz * len sz \<le> INT64_MAX \<and>
        index_size (fst (mc_layers s)) = n \<and> index_size (snd (mc_layers s)) = n \<and>
        (\<forall>p. \<not> outside sz p \<longrightarrow> shift_ok (mc_offset s) p))"

lemma mc_valid_index:
  assumes "mc_valid s" "\<not> outside (mc_original_size s) p"
  shows "nat (mc_grid_index (mc_original_size s) p) <
    nat (width (mc_original_size s) * height (mc_original_size s) * len (mc_original_size s))"
proof -
  let ?sz = "mc_original_size s"
  have "0 \<le> mc_grid_index ?sz p \<and> mc_grid_index ?sz p < len ?sz * width ?sz * height ?sz"
    using grid_index_bounds [of "turn_size ?sz" "turn p"] assms(2)
    by (simp add: outside_turn grid_index_turn) (simp add: turn_size_def)
  then show ?thesis by (simp add: algebra_simps)
qed

lemma mc_look_eq:
  assumes v: "mc_valid s" and p: "\<not> outside (mc_original_size s) p"
  shows "mc_look air s (if second then snd (mc_layers s) else fst (mc_layers s))
      (mc_flat_index (mc_original_size s) (pos_x p) (pos_y p) (pos_z p)) = mc_visible air second s p"
proof -
  have "mc_flat_index (mc_original_size s) (pos_x p) (pos_y p) (pos_z p) = nat (mc_grid_index (mc_original_size s) p)"
    using v by (intro mc_flat_eq [OF p]) (simp add: mc_valid_def Let_def)
  moreover have "index_size (if second then snd (mc_layers s) else fst (mc_layers s)) =
      nat (width (mc_original_size s) * height (mc_original_size s) * len (mc_original_size s))"
    using v by (simp add: mc_valid_def Let_def)
  then have "\<not> index_size (if second then snd (mc_layers s) else fst (mc_layers s)) \<le>
      nat (mc_grid_index (mc_original_size s) p)"
    using mc_valid_index [OF v p] by (simp only: not_le)
  ultimately show ?thesis by (auto simp: mc_look_def mc_visible_def mc_block_def Let_def)
qed

lemma fold_concat_map: "fold f (concat (map g xs)) s = fold (\<lambda>x. fold f (g x)) xs s"
  by (induction xs arbitrary: s) simp_all

lemma fold_same: "fold (\<lambda>x s. s) xs s = s" "fold (\<lambda>x. id) xs s = s" "fold (\<lambda>x. fold (\<lambda>y. id) ys) xs s = s"
    "fold (\<lambda>x. fold (\<lambda>y s. s) ys) xs s = s"
proof -
  have id: "fold (\<lambda>x. id) ys = id" for ys by (induction ys) simp_all
  have id': "fold (\<lambda>x s. s) ys = id" for ys by (induction ys) (simp_all add: id_def)
  show "fold (\<lambda>x s. s) xs s = s" "fold (\<lambda>x. id) xs s = s" "fold (\<lambda>x. fold (\<lambda>y. id) ys) xs s = s"
    "fold (\<lambda>x. fold (\<lambda>y s. s) ys) xs s = s"
    by (simp_all add: id id')
qed

lemma mc_cell_eq:
  assumes ok: "shift_ok (mc_offset s) p" and "in_chunk (mc_offset s) cp p"
  shows "mc_cell air il1 s second indices cp (pos_x p) (pos_y p) (pos_z p) ch =
    (case mc_look air s indices (mc_flat_index (mc_original_size s) (pos_x p) (pos_y p) (pos_z p)) of
       None \<Rightarrow> ch
     | Some v \<Rightarrow> put_layer second air il1 (fst (cell_of (mc_offset s) p)) (snd (cell_of (mc_offset s) p)) v ch)"
proof -
  let ?off = "mc_offset s"
  let ?x = "pos_x p + pos_x ?off" and ?y = "pos_y p + pos_y ?off" and ?z = "pos_z p + pos_z ?off"
  have c: "chunk_x cp = ?x div 16" "chunk_z cp = ?z div 16" using assms(2) by (simp_all add: in_chunk_def)
  have r: "in_s32 ?x" "in_s32 ?y" "in_s32 (?y - 64)" "in_s32 ?z" using ok by (simp_all add: shift_ok_def)
  show ?thesis
    unfolding mc_cell_def Let_def c s32_id [OF r(1)] s32_id [OF r(2)] s32_id [OF r(3)] s32_id [OF r(4)]
      s32_block_rest [OF r(1)] s32_block_rest [OF r(4)] floor_div16 [OF r(3)] sub_chunk_local_y [OF r(3,2)]
    by (auto simp: cell_of_def world_cell_def split: option.split)
qed

lemma mc_fill_writes:
  assumes v: "mc_valid s"
  shows "mc_fill air il1 s second (if second then snd (mc_layers s) else fst (mc_layers s)) cp ch =
    fold (\<lambda>(c, v). put_layer second air il1 (fst c) (snd c) v)
      (dense_writes (mc_offset s) (mc_visible air second s) (mc_positions (mc_original_size s) (mc_offset s) cp)) ch"
proof -
  let ?ps = "mc_positions (mc_original_size s) (mc_offset s) cp"
  let ?ind = "if second then snd (mc_layers s) else fst (mc_layers s)"
  let ?g = "\<lambda>p ch. case mc_visible air second s p of None \<Rightarrow> ch
    | Some v \<Rightarrow> put_layer second air il1 (fst (cell_of (mc_offset s) p)) (snd (cell_of (mc_offset s) p)) v ch"
  have "mc_fill air il1 s second ?ind cp ch =
      fold (\<lambda>p. mc_cell air il1 s second ?ind cp (pos_x p) (pos_y p) (pos_z p)) ?ps ch"
    unfolding mc_fill_def mc_positions_def Let_def fold_concat_map fold_map comp_def block_pos.sel
    by (auto simp: fold_same)
  also have "\<dots> = fold ?g ?ps ch"
  proof (rule fold_cong [OF HOL.refl HOL.refl])
    fix p assume "p \<in> set ?ps"
    then have p: "\<not> outside (mc_original_size s) p" "in_chunk (mc_offset s) cp p" by (simp_all add: set_mc_positions)
    moreover have "shift_ok (mc_offset s) p" using v p(1) by (simp add: mc_valid_def Let_def)
    ultimately show "mc_cell air il1 s second ?ind cp (pos_x p) (pos_y p) (pos_z p) = ?g p"
      by (intro ext) (simp only: mc_cell_eq mc_look_eq [OF v p(1)])
  qed
  also have "fold ?g ps ch = fold (\<lambda>(c, v). put_layer second air il1 (fst c) (snd c) v)
      (dense_writes (mc_offset s) (mc_visible air second s) ps) ch" for ps ch
    by (induction ps arbitrary: ch) (simp_all add: dense_writes_def split: option.split)
  finally show ?thesis .
qed

section \<open>Whole requests\<close>

definition mc_writes :: "runtime_id \<Rightarrow> bool \<Rightarrow> mc_structure \<Rightarrow> chunk_pos \<Rightarrow> ((int \<times> nat) \<times> runtime_id) list" where
  "mc_writes air second s cp =
    dense_writes (mc_offset s) (mc_visible air second s) (mc_positions (mc_original_size s) (mc_offset s) cp)"

lemma mc_writes_iff:
  assumes "in_chunk (mc_offset s) cp p"
  shows "(cell_of (mc_offset s) p, w) \<in> set (mc_writes air second s cp) \<longleftrightarrow>
    \<not> outside (mc_original_size s) p \<and> mc_visible air second s p = Some w"
  using dense_writes_iff [OF assms, of "mc_positions (mc_original_size s) (mc_offset s) cp" w "mc_visible air second s"]
  by (auto simp: mc_writes_def set_mc_positions assms)

lemma mc_at_visible:
  "mc_at air second s p =
    (if \<not> outside (mc_original_size s) p \<and> mc_visible air second s p \<noteq> None
     then the (mc_visible air second s p) else air)"
  by (auto simp: mc_at_def mc_visible_def split: option.splits)

definition mc_chunk :: "runtime_id \<Rightarrow> bool \<Rightarrow> mc_structure \<Rightarrow> chunk_pos \<Rightarrow> chunk_data" where
  "mc_chunk air il1 s cp =
    (let ch = mc_fill air il1 s False (fst (mc_layers s)) cp empty_chunk
     in if il1 then mc_fill air il1 s True (snd (mc_layers s)) cp ch else ch)"

lemma mc_chunk_layers:
  assumes v: "mc_valid s" and p: "in_chunk (mc_offset s) cp p"
  shows "get_layer air (mc_chunk air True s cp) (second, cell_of (mc_offset s) p) = mc_at air second s p"
proof -
  let ?tag = "\<lambda>l. map (\<lambda>(c, v). ((l, c), v)) (mc_writes air l s cp)"
  let ?wr = "\<lambda>c. put_layer (fst c) air True (fst (snd c)) (snd (snd c))"
  let ?ws = "?tag False @ ?tag True"
  have tag: "fold (\<lambda>(c, v). put_layer l air True (fst c) (snd c) v) (mc_writes air l s cp) ch =
      fold (\<lambda>(c, v). ?wr c v) (?tag l) ch" for l ch
    by (simp add: fold_map comp_def case_prod_unfold)
  have e: "mc_chunk air True s cp = fold (\<lambda>(c, v). ?wr c v) ?ws empty_chunk"
    using mc_fill_writes [OF v, of air True False cp] mc_fill_writes [OF v, of air True True cp]
    by (simp only: mc_chunk_def Let_def if_True if_False mc_writes_def [symmetric] tag fold_append comp_apply)
  have mem: "((second, cell_of (mc_offset s) p), w) \<in> set ?ws \<longleftrightarrow>
      \<not> outside (mc_original_size s) p \<and> mc_visible air second s p = Some w" for w
    using mc_writes_iff [OF p, of w air second] by (cases second) (force simp: image_iff)+
  have "get_layer air (fold (\<lambda>(c, v). ?wr c v) ?ws empty_chunk) (second, cell_of (mc_offset s) p) =
      (if (second, cell_of (mc_offset s) p) \<in> fst ` set ?ws then mc_at air second s p
       else get_layer air empty_chunk (second, cell_of (mc_offset s) p))"
  proof (rule layered.rd_fold_wr_unique)
    fix w assume "((second, cell_of (mc_offset s) p), w) \<in> set ?ws"
    then show "w = mc_at air second s p" unfolding mem mc_at_visible by simp
  qed
  moreover have "(second, cell_of (mc_offset s) p) \<in> fst ` set ?ws \<longleftrightarrow>
      \<not> outside (mc_original_size s) p \<and> mc_visible air second s p \<noteq> None"
  proof -
    have "(second, cell_of (mc_offset s) p) \<in> fst ` set ?ws \<longleftrightarrow>
        (\<exists>w. ((second, cell_of (mc_offset s) p), w) \<in> set ?ws)" by force
    then show ?thesis unfolding mem by blast
  qed
  ultimately show ?thesis unfolding e by (simp add: mc_at_visible)
qed

lemma mc_chunk_layer0:
  assumes v: "mc_valid s" and p: "in_chunk (mc_offset s) cp p"
  shows "get_cell air (mc_chunk air False s cp) (cell_of (mc_offset s) p) = mc_at air False s p"
proof -
  let ?ws = "mc_writes air False s cp"
  have e: "mc_chunk air False s cp = fold (\<lambda>(c, v). put_cell air False (fst c) (snd c) v) ?ws empty_chunk"
    using mc_fill_writes [OF v, of air False False cp]
    by (simp add: mc_chunk_def Let_def mc_writes_def put_layer_first)
  note mem = mc_writes_iff [OF p, of _ air False]
  have "get_cell air (fold (\<lambda>(c, v). put_cell air False (fst c) (snd c) v) ?ws empty_chunk) (cell_of (mc_offset s) p) =
      (if cell_of (mc_offset s) p \<in> fst ` set ?ws then mc_at air False s p
       else get_cell air empty_chunk (cell_of (mc_offset s) p))"
    by (rule cells.rd_fold_wr_unique) (simp add: mem mc_at_visible)
  moreover have "cell_of (mc_offset s) p \<in> fst ` set ?ws \<longleftrightarrow>
      \<not> outside (mc_original_size s) p \<and> mc_visible air False s p \<noteq> None"
  proof -
    have "cell_of (mc_offset s) p \<in> fst ` set ?ws \<longleftrightarrow> (\<exists>w. (cell_of (mc_offset s) p, w) \<in> set ?ws)" by force
    then show ?thesis unfolding mem by blast
  qed
  ultimately show ?thesis unfolding e by (simp add: mc_at_visible)
qed

lemma map_of_write_layer:
  "index_size indices \<noteq> 0 \<Longrightarrow> map_of (mc_write_layer air il1 s second indices m) k =
    map_option (mc_fill air il1 s second indices k) (map_of m k)"
  unfolding mc_write_layer_def by (induction m) auto

lemma mc_chunks_impl_map:
  assumes "mc_valid s"
  shows "map_of (mc_chunks_impl air s ps il1) k = (if k \<in> set ps then Some (mc_chunk air il1 s k) else None)"
proof -
  have "index_size (fst (mc_layers s)) \<noteq> 0" "index_size (snd (mc_layers s)) \<noteq> 0"
    using assms mult_pos_pos [OF mult_pos_pos [of "width (mc_original_size s)" "height (mc_original_size s)"],
        of "len (mc_original_size s)"]
    by (simp_all add: mc_valid_def Let_def not_le)
  then show ?thesis
    by (simp add: mc_chunks_impl_def Let_def map_of_write_layer map_of_emplace_all mc_chunk_def)
qed

lemma mc_chunks_keys:
  assumes "mc_valid s" shows "fst ` set (mc_chunks_impl air s ps il1) = set ps"
  using mc_chunks_impl_map [OF assms, of air ps il1]
  by (auto simp: set_eq_iff dom_map_of_conv_image_fst [symmetric] domIff)

lemma mc_chunks_refine:
  assumes v: "mc_valid s" and w: "world_pos_ok x y z" and k: "ChunkPos (x div 16) (z div 16) \<in> set ps"
  shows "layer_block_at second (mc_chunks_impl air s ps True) air x y z =
      mc_at air second s (BlockPos (x - pos_x (mc_offset s)) (y - pos_y (mc_offset s)) (z - pos_z (mc_offset s)))"
    and "block_at (mc_chunks_impl air s ps False) air x y z =
      mc_at air False s (BlockPos (x - pos_x (mc_offset s)) (y - pos_y (mc_offset s)) (z - pos_z (mc_offset s)))"
proof -
  let ?p = "BlockPos (x - pos_x (mc_offset s)) (y - pos_y (mc_offset s)) (z - pos_z (mc_offset s))"
  have "in_chunk (mc_offset s) (ChunkPos (x div 16) (z div 16)) ?p" by (simp add: in_chunk_def)
  note c = mc_chunk_layers [OF v this, of air second] mc_chunk_layer0 [OF v this, of air]
  have cell: "cell_of (mc_offset s) ?p = world_cell x y z" by (simp add: cell_of_def)
  show "layer_block_at second (mc_chunks_impl air s ps True) air x y z = mc_at air second s ?p"
    using c(1) k unfolding cell by (simp add: layer_block_at_eq [OF w] mc_chunks_impl_map [OF v])
  show "block_at (mc_chunks_impl air s ps False) air x y z = mc_at air False s ?p"
    using c(2) k w unfolding cell by (simp add: block_at_eq world_pos_ok_def mc_chunks_impl_map [OF v])
qed

section \<open>A read that succeeds\<close>

definition scan_small :: "mc_scan \<Rightarrow> bool" where
  "scan_small sc \<longleftrightarrow> int (index_size (fst (scan_indices sc))) \<le> INT32_MAX \<and>
    (\<forall>sz. scan_dims sc = Some sz \<longrightarrow> size_in_range sz \<and> 0 < width sz \<and> 0 < height sz \<and> 0 < len sz)"

lemma mc_skip_state: "mc_skip ty s bs = Inr (s', rest) \<Longrightarrow> s' = s"
  by (auto simp: mc_skip_def and_then_eq_Inr_iff)

lemma read_elems_length: "read_elems n rd bs = Inr (xs, rest) \<Longrightarrow> length xs = n"
  by (induction n arbitrary: bs xs) (auto simp: and_then_eq_Inr_iff)

lemma mc_read_layer_small:
  assumes "mc_read_layer old bs = Inr (a, rest)" shows "int (index_size a) \<le> INT32_MAX"
proof -
  obtain n vs bs2 bs3 where n: "read_length Little bs2 = Inr (n, bs3)" and a: "length vs = n"
    "a = fold index_push vs (index_array_clear old)"
    using assms by (auto simp: mc_read_layer_def and_then_eq_Inr_iff dest!: read_elems_length split: if_splits)
  then show ?thesis
    using read_length_int32 [OF n] by (simp add: index_size_values index_values_pushes index_values_clear)
qed

lemma mc_read_integer_range:
  assumes "mc_read_integer ty bs = Inr (v, rest)" shows "in_s32 v"
  using assms by (cases ty) (auto simp: mc_read_integer_def and_then_eq_Inr_iff sint_in_s32)

lemma read_elems_all:
  "read_elems n rd bs = Inr (xs, rest) \<Longrightarrow> (\<And>bs x rest. rd bs = Inr (x, rest) \<Longrightarrow> P x) \<Longrightarrow> x \<in> set xs \<Longrightarrow> P x"
  by (induction n arbitrary: bs xs) (auto simp: and_then_eq_Inr_iff)

lemma mc_read_size_range:
  assumes "mc_read_size bs = Inr (sz, rest)"
  shows "size_in_range sz \<and> 0 < width sz \<and> 0 < height sz \<and> 0 < len sz"
proof -
  obtain el vs bs2 and n :: "32 word" where n: "\<not> sint n < 3" "sint n \<le> 1024"
    and r: "read_elems (unat n) (mc_read_integer el) bs2 = Inr (vs, rest)"
    and pos: "0 < vs ! 0" "0 < vs ! 1" "0 < vs ! 2" and sz: "sz = \<lparr>width = vs ! 0, height = vs ! 1, len = vs ! 2\<rparr>"
    using assms by (auto simp: mc_read_size_def and_then_eq_Inr_iff not_le not_less split: if_splits)
  have "int (unat n) = sint n"
    using n sint_lt [of n] uint_sint [of n] by (simp add: take_bit_int_eq_self)
  then have "3 \<le> length vs" using n(1) read_elems_length [OF r] by linarith
  then have "vs ! i \<in> set vs" if "i < 3" for i using that by simp
  moreover have "in_s32 v" if "v \<in> set vs" for v
    by (rule read_elems_all [where P = in_s32, OF r _ that]) (rule mc_read_integer_range)
  ultimately have "in_s32 (vs ! i)" if "i < 3" for i using that by simp
  from this [of 0] this [of 1] this [of 2] show ?thesis using pos by (simp add: sz size_in_range_def)
qed

lemma mc_read_palette_keeps:
  assumes "mc_read_palette reg unknown sc bs = Inr (sc', rest)"
  shows "scan_indices sc' = scan_indices sc \<and> scan_dims sc' = scan_dims sc"
proof -
  let ?P = "\<lambda>sc'. scan_indices sc' = scan_indices sc \<and> scan_dims sc' = scan_dims sc"
  have default: "?P (fst st')" if "mc_default_field reg unknown key ty st bs = Inr (st', rest)" "?P (fst st)"
    for key ty st bs st' rest
    using that by (auto simp: mc_default_field_def Let_def and_then_eq_Inr_iff dest!: mc_skip_state split: prod.splits if_splits)
  have field: "?P (fst st')" if f: "mc_palette_field reg unknown key ty st bs = Inr (st', rest)" and p: "?P (fst st)"
    for key ty st bs st' rest
  proof (cases "key = ''default'' \<and> \<not> snd st \<and> ty = TCompound")
    case True
    with f obtain st1 r1 where r: "read_fields Little (mc_default_field reg unknown)
        ((fst st)\<lparr>has_default_palette := True\<rparr>, False, False) bs = Inr (st1, r1)" "st' = (fst st1, True)"
      by (auto simp: mc_palette_field_def and_then_eq_Inr_iff)
    have "?P (fst st1)"
      by (rule read_fields_invariant [where P = "\<lambda>st. ?P (fst st)", OF r(1)]) (use p default in auto)
    with r(2) show ?thesis by simp
  next
    case False
    with f p show ?thesis by (auto simp: mc_palette_field_def dest!: mc_skip_state split: if_splits)
  qed
  obtain st where r: "read_fields Little (mc_palette_field reg unknown)
      (sc\<lparr>has_palette := True, has_default_palette := False, has_block_palette := False,
          mc_scan_palette := [], scan_entities := []\<rparr>, False) bs = Inr (st, rest)" "sc' = fst st"
    using assms by (auto simp: mc_read_palette_def and_then_eq_Inr_iff)
  have "?P (fst st)"
    by (rule read_fields_invariant [where P = "\<lambda>st. ?P (fst st)", OF r(1)]) (use field in auto)
  with r(2) show ?thesis by simp
qed

lemma mc_structure_field_small:
  assumes "mc_structure_field reg unknown key ty sc bs = Inr (sc', rest)" "scan_small sc" shows "scan_small sc'"
  using assms
  by (auto simp: mc_structure_field_def mc_read_indices_def scan_small_def and_then_eq_Inr_iff
      dest!: mc_skip_state mc_read_palette_keeps mc_read_layer_small split: if_splits)

lemma mc_root_field_small:
  assumes f: "mc_root_field reg unknown key ty sc bs = Inr (sc', rest)" and s: "scan_small sc" shows "scan_small sc'"
proof (cases "key = ''structure'' \<and> ty = TCompound")
  case True
  with f obtain sc1 where r: "read_fields Little (mc_structure_field reg unknown) sc bs = Inr (sc1, rest)"
      "sc' = sc1\<lparr>has_structure := True\<rparr>"
    by (auto simp: mc_root_field_def and_then_eq_Inr_iff)
  have "scan_small sc1"
    by (rule read_fields_invariant [where P = scan_small, OF r(1) s]) (rule mc_structure_field_small)
  with r(2) show ?thesis by (simp add: scan_small_def)
next
  case False
  with f s show ?thesis
    by (auto simp: mc_root_field_def scan_small_def and_then_eq_Inr_iff dest!: mc_skip_state mc_read_size_range split: if_splits)
qed

lemma mcstructure_readD:
  assumes "mcstructure_read bytes reg = (Inr s, reg')"
  obtains unknown sc where "find_unknown reg = (unknown, reg')" "scan_small sc"
    "mc_build (air_runtime_id reg') sc = Inr s"
proof -
  let ?h = "and_then (read_type False bytes) (\<lambda>(ty, bs1).
            if ty \<noteq> TCompound then Inl InvalidPayload
            else and_then (read_string Little bs1) (\<lambda>(name, bs2).
              if name \<noteq> [] then Inl InvalidPayload else Inr bs2))"
  obtain bs2 where h: "?h = Inr bs2"
  proof (cases ?h)
    case (Inl e)
    with assms show thesis unfolding mcstructure_read_def by (simp only: sum.case prod.inject sum.distinct simp_thms)
  qed (rule that)
  obtain unknown reg1 where u: "find_unknown reg = (unknown, reg1)" by force
  have q: "and_then (read_fields Little (mc_root_field reg1 unknown) empty_mc_scan bs2)
      (\<lambda>(sc, rest). mc_build (air_runtime_id reg1) sc) = Inr s" and e: "reg' = reg1"
    using assms unfolding mcstructure_read_def h u sum.case Let_def prod.case prod.inject by auto
  obtain sc rest where r: "read_fields Little (mc_root_field reg1 unknown) empty_mc_scan bs2 = Inr (sc, rest)"
    "mc_build (air_runtime_id reg1) sc = Inr s"
    using q unfolding and_then_eq_Inr_iff by (metis prod.collapse prod.case)
  have "scan_small empty_mc_scan" by (simp add: scan_small_def empty_mc_scan_def range_simps)
  then have "scan_small sc"
    by (rule read_fields_invariant [where P = scan_small, OF r(1)]) (rule mc_root_field_small)
  with u r(2) show thesis unfolding e [symmetric] by (intro that)
qed

lemma mc_buildD:
  assumes small: "scan_small sc" and b: "mc_build air sc = Inr s"
  shows "mc_valid s" "mc_offset s = BlockPos 0 0 0" "mc_size s = mc_original_size s"
    "scan_dims sc = Some (mc_size s)" "mc_layers s = scan_indices sc" "mc_palette s = mc_scan_palette sc"
    "mc_entities s = scan_entities sc"
    "mc_non_air s = mc_count air (mc_palette s) (fst (mc_layers s))"
proof -
  obtain sz where d: "scan_dims sc = Some sz" using b by (auto simp: mc_build_def split: option.splits)
  let ?n = "nat (u64 (volume sz))"
  have n: "index_size (fst (scan_indices sc)) = ?n" "index_size (snd (scan_indices sc)) = ?n"
    and s: "s = mc_set_offset (BlockPos 0 0 0)
      \<lparr>mc_size = sz, mc_original_size = sz, mc_offset = BlockPos 0 0 0, mc_layers = scan_indices sc,
       mc_palette = mc_scan_palette sc, mc_entities = scan_entities sc,
       mc_non_air = mc_count air (mc_scan_palette sc) (fst (scan_indices sc))\<rparr>"
    using b d by (simp_all add: mc_build_def Let_def split: if_splits)
  have sz: "size_in_range sz" "0 < width sz" "0 < height sz" "0 < len sz"
    using small d by (simp_all add: scan_small_def)
  have vol: "volume sz = min INT64_MAX (width sz * height sz * len sz)" using volume_eq [OF sz(1)] sz by simp
  have pos: "0 < width sz * height sz * len sz" using sz by simp
  then have "u64 (volume sz) = volume sz" unfolding vol by (simp add: u64_def range_simps)
  moreover have "0 \<le> volume sz" using pos unfolding vol by (simp add: range_simps)
  ultimately have u: "u64 (volume sz) = volume sz" and "volume sz \<le> INT32_MAX"
    using small n(1) by (simp_all add: scan_small_def)
  then have v: "volume sz = width sz * height sz * len sz" and le: "width sz * height sz * len sz \<le> INT64_MAX"
    unfolding vol by (auto simp: range_simps min_def split: if_splits)
  have off: "offset_size sz (BlockPos 0 0 0) = sz"
    using sz(1) by (simp add: offset_size_def size_in_range_def wrap_simps range_simps)
  have shift: "shift_ok (BlockPos 0 0 0) p" if "\<not> outside sz p" for p
    using that sz(1) by (auto simp: outside_def shift_ok_def size_in_range_def range_simps)
  show "mc_valid s"
    using sz n le shift u by (simp add: mc_valid_def s mc_set_offset_def v Let_def)
  show "mc_offset s = BlockPos 0 0 0" "mc_size s = mc_original_size s" "scan_dims sc = Some (mc_size s)"
    "mc_layers s = scan_indices sc" "mc_palette s = mc_scan_palette sc" "mc_entities s = scan_entities sc"
    "mc_non_air s = mc_count air (mc_palette s) (fst (mc_layers s))"
    by (simp_all add: s mc_set_offset_def off d)
qed

lemma mc_count_eq:
  assumes v: "mc_valid s"
  shows "mc_count air (mc_palette s) (fst (mc_layers s)) =
    card {p. \<not> outside (mc_original_size s) p \<and> mc_block False s p \<notin> {None, Some air}}"
proof -
  let ?sz = "mc_original_size s"
  have n: "index_size (fst (mc_layers s)) = nat (width ?sz * height ?sz * len ?sz)"
    "0 < width ?sz" "0 < height ?sz" "0 < len ?sz"
    using v by (simp_all add: mc_valid_def Let_def)
  show ?thesis
    unfolding mc_count_def mc_count_box [OF n]
    by (intro arg_cong [where f = card] Collect_cong) (auto simp: mc_block_def Let_def)
qed

lemma mc_delivers:
  assumes "mcstructure_read bytes reg = (Inr s, reg')"
  shows "fst ` set (mc_chunks (air_runtime_id reg') s ps) = set ps"
    and "fst ` set (mc_chunks_layer0 (air_runtime_id reg') s ps) = set ps"
    and "world_pos_ok x y z \<Longrightarrow> ChunkPos (x div 16) (z div 16) \<in> set ps \<Longrightarrow>
      layer_block_at second (mc_chunks (air_runtime_id reg') s ps) (air_runtime_id reg') x y z =
        (if outside (mc_size s) (BlockPos x y z) then air_runtime_id reg'
         else case mc_block second s (BlockPos x y z) of None \<Rightarrow> air_runtime_id reg' | Some v \<Rightarrow> v)"
    and "world_pos_ok x y z \<Longrightarrow> ChunkPos (x div 16) (z div 16) \<in> set ps \<Longrightarrow>
      block_at (mc_chunks_layer0 (air_runtime_id reg') s ps) (air_runtime_id reg') x y z =
        layer_block_at False (mc_chunks (air_runtime_id reg') s ps) (air_runtime_id reg') x y z"
    and "mc_count_non_air s =
      card {p. \<not> outside (mc_size s) p \<and> mc_block False s p \<notin> {None, Some (air_runtime_id reg')}}"
proof -
  obtain unknown sc where "scan_small sc" "mc_build (air_runtime_id reg') sc = Inr s"
    using mcstructure_readD [OF assms] by metis
  note b = mc_buildD [OF this]
  show "fst ` set (mc_chunks (air_runtime_id reg') s ps) = set ps"
    "fst ` set (mc_chunks_layer0 (air_runtime_id reg') s ps) = set ps"
    by (simp_all add: mc_chunks_def mc_chunks_layer0_def mc_chunks_keys [OF b(1)])
  show "mc_count_non_air s =
      card {p. \<not> outside (mc_size s) p \<and> mc_block False s p \<notin> {None, Some (air_runtime_id reg')}}"
    by (simp add: mc_count_non_air_def b(8,3) mc_count_eq [OF b(1)])
  assume w: "world_pos_ok x y z" "ChunkPos (x div 16) (z div 16) \<in> set ps"
  note r = mc_chunks_refine [OF b(1) w, where air = "air_runtime_id reg'", unfolded b(2) block_pos.sel diff_zero]
  show "layer_block_at second (mc_chunks (air_runtime_id reg') s ps) (air_runtime_id reg') x y z =
        (if outside (mc_size s) (BlockPos x y z) then air_runtime_id reg'
         else case mc_block second s (BlockPos x y z) of None \<Rightarrow> air_runtime_id reg' | Some v \<Rightarrow> v)"
    by (simp add: mc_chunks_def r(1) mc_at_def b(3))
  show "block_at (mc_chunks_layer0 (air_runtime_id reg') s ps) (air_runtime_id reg') x y z =
        layer_block_at False (mc_chunks (air_runtime_id reg') s ps) (air_runtime_id reg') x y z"
    by (simp add: mc_chunks_def mc_chunks_layer0_def r)
qed

end
