(* ===== verification/WS_McWriter.thy ===== *)
theory WS_McWriter
  imports WS_McChunks
begin

text \<open>
  \<open>write_mcstructure\<close> (\<open>src/formats/mcstructure_writer.cpp\<close>): both layers of every chunk become
  indices into one palette of runtime ids that starts with air; a second layer holds \<open>-1\<close>
  for air. The block entities are filed under the text of their index, with the coordinates
  of the box. Everything that throws is caught and becomes a failed \<open>Result\<close>; what was
  already written to the file in that case is left out.
\<close>

section \<open>Numbers assigned to tags\<close>

text \<open>
  An \<open>int\<close> assigned to a value that holds a floating point number is converted, to the
  nearest value and to the even one between two, as IEEE 754 has it.
\<close>

fun bit_size :: "nat \<Rightarrow> nat" where
  "bit_size n = (if n = 0 then 0 else Suc (bit_size (n div 2)))"

declare bit_size.simps [simp del]

definition round_even :: "nat \<Rightarrow> nat \<Rightarrow> nat" where
  "round_even a k =
    (let q = a div 2 ^ k; r = a mod 2 ^ k; half = 2 ^ (k - 1)
     in if k = 0 \<or> r < half \<or> r = half \<and> even q then q else q + 1)"

definition ieee_bits :: "nat \<Rightarrow> nat \<Rightarrow> int \<Rightarrow> int" where
  "ieee_bits mantissa exponent n =
    (if n = 0 then 0
     else
       let a = nat \<bar>n\<bar>;
           b = bit_size a - 1;
           fraction = (if b \<le> mantissa then a * 2 ^ (mantissa - b) else round_even a (b - mantissa))
       in (if n < 0 then 2 ^ (mantissa + exponent) else 0) +
          (int b + (2 ^ (exponent - 1) - 1)) * 2 ^ mantissa + (int fraction - 2 ^ mantissa))"

definition assign_int :: "nbt option \<Rightarrow> int \<Rightarrow> (property_error, nbt) result" where
  "assign_int old n =
    (case old of
       Some (NFloat v) \<Rightarrow> Inr (NFloat (word_of_int (ieee_bits 23 8 n)))
     | Some (NDouble v) \<Rightarrow> Inr (NDouble (word_of_int (ieee_bits 52 11 n)))
     | _ \<Rightarrow> assign_value old (int_tag n))"

definition put_int :: "string \<Rightarrow> int \<Rightarrow> (string \<times> nbt) list \<Rightarrow> (property_error, (string \<times> nbt) list) result" where
  "put_int key n kvs = and_then (assign_int (omap_find kvs key) n) (\<lambda>t. Inr (omap_put key t kvs))"

section \<open>Palette and indices\<close>

datatype mc_text_error = PropertyError property_error | NbtError nbt_error

type_synonym mc_palette_scan = "(runtime_id, int) umap \<times> block_state list"

definition mc_palette_state :: "registry \<Rightarrow> runtime_id \<Rightarrow> block_state" where
  "mc_palette_state reg rid =
    (case registry_state reg rid of
       Some st \<Rightarrow> st
     | None \<Rightarrow> \<lparr>state_name = (if rid = air_runtime_id reg then ''minecraft:air'' else ''minecraft:unknown''),
         states = [], state_version = 0\<rparr>)"

definition mc_palette_index :: "registry \<Rightarrow> runtime_id \<Rightarrow> mc_palette_scan \<Rightarrow> int \<times> mc_palette_scan" where
  "mc_palette_index reg rid sc =
    (let (ids, palette) = sc
     in case map_of ids rid of
          Some k \<Rightarrow> (k, sc)
        | None \<Rightarrow>
            let index = s32 (int (length palette))
            in (index, (umap_emplace rid index ids, palette @ [mc_palette_state reg rid])))"

definition mc_grid_positions :: "wsize \<Rightarrow> block_pos list" where
  "mc_grid_positions sz =
    concat (map (\<lambda>x. concat (map (\<lambda>y. map (\<lambda>z. BlockPos x y z) [0..len sz - 1]) [0..height sz - 1]))
      [0..width sz - 1])"

definition mc_index_step ::
  "registry \<Rightarrow> chunk_map \<Rightarrow> bool \<Rightarrow> block_pos \<Rightarrow> mc_palette_scan \<times> int list \<Rightarrow> mc_palette_scan \<times> int list" where
  "mc_index_step reg chunks second p st =
    (let (sc, out) = st;
         runtime_id = layer_block_at second chunks (air_runtime_id reg) (pos_x p) (pos_y p) (pos_z p)
     in if second \<and> runtime_id = air_runtime_id reg then (sc, out @ [- 1])
        else let (index, sc') = mc_palette_index reg runtime_id sc in (sc', out @ [index]))"

definition mc_layer_indices ::
  "registry \<Rightarrow> chunk_map \<Rightarrow> wsize \<Rightarrow> bool \<Rightarrow> mc_palette_scan \<Rightarrow> mc_palette_scan \<times> int list" where
  "mc_layer_indices reg chunks sz second sc =
    fold (mc_index_step reg chunks second) (mc_grid_positions sz) (sc, [])"

definition mc_layer_bytes :: "wsize \<Rightarrow> int list \<Rightarrow> byte list" where
  "mc_layer_bytes sz indices =
    type_code TInt # num_bytes Little (word_of_int (s32 (volume sz)) :: 32 word) @
      concat (map (\<lambda>k. num_bytes Little (word_of_int k :: 32 word)) indices)"

definition mc_palette_entry :: "block_state \<Rightarrow> (property_error, (string \<times> nbt) list) result" where
  "mc_palette_entry st =
    and_then (fold_result put_property (states st) []) (\<lambda>ps.
      Inr (fields_of [(''name'', NString (state_name st)), (''states'', NCompound ps),
        (''version'', int_tag (state_version st))]))"

primrec mc_block_palette :: "block_state list \<Rightarrow> (property_error, nbt list) result" where
  "mc_block_palette [] = Inr []"
| "mc_block_palette (st # sts) =
     and_then (mc_palette_entry st) (\<lambda>e. and_then (mc_block_palette sts) (\<lambda>es. Inr (NCompound e # es)))"

section \<open>Block entities\<close>

definition mc_place_entity ::
  "int \<Rightarrow> int \<Rightarrow> int \<Rightarrow> nbt_payload \<Rightarrow> (mc_text_error, (string \<times> nbt) list) result" where
  "mc_place_entity x y z payload =
    and_then (map_sum NbtError id (read_compound Little payload)) (\<lambda>(name, kvs, rest).
      map_sum PropertyError id
        (and_then (put_int ''x'' x kvs) (\<lambda>kvs1. and_then (put_int ''y'' y kvs1) (\<lambda>kvs2. put_int ''z'' z kvs2))))"

definition mc_put_entity ::
  "wsize \<Rightarrow> chunk_pos \<times> block_entity \<Rightarrow> (string \<times> nbt) list \<Rightarrow> (mc_text_error, (string \<times> nbt) list) result" where
  "mc_put_entity sz ent position_data =
    (let x = s32 (s32 (chunk_x (fst ent) * 16) + pos_x (entity_pos (snd ent)));
         y = s32 (pos_y (entity_pos (snd ent)) - kOverworldMinY);
         z = s32 (s32 (chunk_z (fst ent) * 16) + pos_z (entity_pos (snd ent)))
     in if x < 0 \<or> width sz \<le> x \<or> y < 0 \<or> height sz \<le> y \<or> z < 0 \<or> len sz \<le> z \<or>
           entity_payload (snd ent) = []
        then Inr position_data
        else
          and_then (mc_place_entity x y z (entity_payload (snd ent))) (\<lambda>kvs.
            let flat_index = s32 (s32 (s32 (s32 (x * height sz) * len sz) + s32 (y * len sz)) + z)
            in Inr (omap_put (to_string flat_index)
                 (NCompound (fields_of [(''block_entity_data'', NCompound kvs)])) position_data)))"

definition mc_position_data :: "wsize \<Rightarrow> nbt_chunk_map \<Rightarrow> (mc_text_error, (string \<times> nbt) list) result" where
  "mc_position_data sz nbt =
    fold_result (mc_put_entity sz) (concat (map (\<lambda>kv. map (Pair (fst kv)) (snd kv)) nbt)) []"

section \<open>The file\<close>

definition write_open :: "tag_type \<Rightarrow> string \<Rightarrow> (nbt_error, byte list) result" where
  "write_open ty name = and_then (write_string Little name) (\<lambda>k. Inr (type_code ty # k))"

definition mc_header :: "wsize \<Rightarrow> (nbt_error, byte list) result" where
  "mc_header sz =
    and_then (write_open TCompound '''') (\<lambda>a.
    and_then (write_tag Little ''format_version'' (int_tag 1)) (\<lambda>b.
    and_then (write_tag Little ''size'' (NList TInt [int_tag (width sz), int_tag (height sz), int_tag (len sz)])) (\<lambda>c.
    and_then (write_tag Little ''structure_world_origin'' (NList TInt [int_tag 0, int_tag 0, int_tag 0])) (\<lambda>d.
    and_then (write_open TCompound ''structure'') (\<lambda>f.
    and_then (write_open TList ''block_indices'') (\<lambda>g.
      Inr (a @ b @ c @ d @ f @ g @ type_code TList # num_bytes Little (2 :: 32 word))))))))"

definition mc_palettes :: "nbt list \<Rightarrow> (string \<times> nbt) list \<Rightarrow> (string \<times> nbt) list" where
  "mc_palettes block_palette position_data =
    fields_of [(''default'', NCompound (fields_of
      [(''block_palette'', NList TCompound block_palette), (''block_position_data'', NCompound position_data)]))]"

definition mc_file ::
  "registry \<Rightarrow> wsize \<Rightarrow> chunk_map \<Rightarrow> nbt_chunk_map \<Rightarrow> (mc_text_error, byte list) result" where
  "mc_file reg sz chunks nbt =
    (let sc0 = snd (mc_palette_index reg (air_runtime_id reg) ([], []));
         (sc1, first) = mc_layer_indices reg chunks sz False sc0;
         (sc2, second) = mc_layer_indices reg chunks sz True sc1
     in and_then (map_sum NbtError id (mc_header sz)) (\<lambda>head.
        and_then (map_sum NbtError id (write_tag Little ''entities'' (NList TCompound []))) (\<lambda>ents.
        and_then (map_sum PropertyError id (mc_block_palette (snd sc2))) (\<lambda>block_palette.
        and_then (mc_position_data sz nbt) (\<lambda>position_data.
        and_then (map_sum NbtError id (write_tag Little ''palette''
            (NCompound (mc_palettes block_palette position_data)))) (\<lambda>palettes.
          Inr (head @ mc_layer_bytes sz first @ mc_layer_bytes sz second @ ents @ palettes @
            [type_code TEnd, type_code TEnd])))))))"

datatype 'e mc_write_error = McWriteSize | McWriteBudget | McWriteTooManyChunks | McWriteOverBudget
  | McWriteChunks 'e | McWriteEntities 'e | McWriteSerialize mc_text_error

definition mc_chunk_bytes :: "wsize \<Rightarrow> int" where
  "mc_chunk_bytes sz =
    (let subs = u64 (s32 (height sz + 15) sdiv 16)
     in max 65536 (u64 (u64 (u64 (u64 (subs * 4096) * 4) * 2) + 8192)))"

definition write_mcstructure ::
  "wsize \<Rightarrow> (chunk_pos list \<Rightarrow> ('e, chunk_map) result) \<Rightarrow> (chunk_pos list \<Rightarrow> ('e, nbt_chunk_map) result) \<Rightarrow>
   registry \<Rightarrow> int \<Rightarrow> int \<Rightarrow> ('e mc_write_error, byte list) result" where
  "write_mcstructure sz fetch fetch_nbt reg budget max_in_flight =
    (if width sz \<le> 0 \<or> height sz \<le> 0 \<or> len sz \<le> 0 \<or> INT32_MAX < volume sz then Inl McWriteSize
     else if budget < 65536 then Inl McWriteBudget
     else if max_in_flight \<noteq> 0 \<and> max_in_flight < writer_chunk_count sz then Inl McWriteTooManyChunks
     else if budget < u64 (writer_chunk_count sz * mc_chunk_bytes sz) then Inl McWriteOverBudget
     else
       (case fetch (writer_positions sz) of
          Inl e \<Rightarrow> Inl (McWriteChunks e)
        | Inr chunks \<Rightarrow>
            (case fetch_nbt (writer_positions sz) of
               Inl e \<Rightarrow> Inl (McWriteEntities e)
             | Inr nbt \<Rightarrow>
                 (case mc_file reg sz chunks nbt of
                    Inl e \<Rightarrow> Inl (McWriteSerialize e)
                  | Inr b \<Rightarrow> Inr b))))"

end
