(* ===== verification/WS_McParts.thy ===== *)
theory WS_McParts
  imports WS_McWriter
begin

text \<open>
  The parts of a structure block file that is written and read back: the palette of the
  writer and its indices, and what the reader makes of the layers, of the palette and of the
  block entities.
\<close>

section \<open>The order of the blocks\<close>

lemma turn_positions: "map turn (mc_grid_positions sz) = grid_positions (turn_size sz)"
  by (simp add: mc_grid_positions_def grid_positions_def turn_size_def turn_def map_concat comp_def)

lemma mc_positions_inside: "p \<in> set (mc_grid_positions sz) \<longleftrightarrow> \<not> outside sz p"
proof -
  have "turn p \<in> set (map turn (mc_grid_positions sz)) \<longleftrightarrow> \<not> outside sz p"
    unfolding turn_positions grid_positions_inside outside_turn ..
  then show ?thesis using bij_is_inj [OF turn_bij] by (simp add: inj_image_mem_iff)
qed

lemma length_mc_positions: "length (mc_grid_positions sz) = length (grid_positions (turn_size sz))"
  by (simp add: turn_positions [symmetric])

lemma nth_mc_positions:
  assumes "\<not> outside sz p"
  shows "nat (mc_grid_index sz p) < length (mc_grid_positions sz)"
    and "mc_grid_positions sz ! nat (mc_grid_index sz p) = p"
proof -
  have o: "\<not> outside (turn_size sz) (turn p)" using assms by (simp add: outside_turn)
  show i: "nat (mc_grid_index sz p) < length (mc_grid_positions sz)"
    using grid_index_length [OF o] by (simp add: length_mc_positions grid_index_turn)
  have "turn (mc_grid_positions sz ! nat (mc_grid_index sz p)) = turn p"
    using nth_grid_positions [OF o] i by (simp add: grid_index_turn turn_positions [symmetric])
  then show "mc_grid_positions sz ! nat (mc_grid_index sz p) = p"
    using bij_is_inj [OF turn_bij] by (simp add: inj_eq)
qed

lemma length_mc_positions_volume:
  assumes "size_in_range sz" "0 < width sz" "0 < height sz" "0 < len sz" "volume sz \<le> INT32_MAX"
  shows "int (length (mc_grid_positions sz)) = volume sz" "volume sz = width sz * height sz * len sz"
proof -
  show v: "volume sz = width sz * height sz * len sz"
    using volume_eq [OF assms(1)] assms(2-5) by (auto simp: range_simps min_def split: if_splits)
  show "int (length (mc_grid_positions sz)) = volume sz"
    using assms(2-4) by (simp add: v length_mc_positions length_grid_positions turn_size_def)
qed

section \<open>The palette of the writer\<close>

definition ids_ok :: "registry \<Rightarrow> mc_palette_scan \<Rightarrow> bool" where
  "ids_ok reg sc \<longleftrightarrow> (\<forall>rid k. map_of (fst sc) rid = Some k \<longrightarrow>
    (\<exists>i < length (snd sc). k = int i \<and> snd sc ! i = mc_palette_state reg rid))"

definition index_good :: "registry \<Rightarrow> chunk_map \<Rightarrow> bool \<Rightarrow> block_state list \<Rightarrow> block_pos \<Rightarrow> int \<Rightarrow> bool" where
  "index_good reg chunks second palette p k \<longleftrightarrow>
    (let rid = layer_block_at second chunks (air_runtime_id reg) (pos_x p) (pos_y p) (pos_z p)
     in if second \<and> rid = air_runtime_id reg then k = - 1
        else \<exists>i < length palette. k = int i \<and> palette ! i = mc_palette_state reg rid)"

lemma index_good_append: "index_good reg chunks second palette p k \<Longrightarrow> index_good reg chunks second (palette @ ext) p k"
  by (auto simp: index_good_def Let_def nth_append split: if_splits)

lemma mc_palette_index_extends: "\<exists>ext. snd (snd (mc_palette_index reg rid sc)) = snd sc @ ext"
  by (auto simp: mc_palette_index_def Let_def split: prod.splits option.splits)

lemma mc_palette_index_ok:
  assumes ok: "ids_ok reg sc" and r: "mc_palette_index reg rid sc = (k, sc')"
    and n: "int (length (snd sc')) \<le> INT32_MAX"
  shows "ids_ok reg sc' \<and> (\<exists>i < length (snd sc'). k = int i \<and> snd sc' ! i = mc_palette_state reg rid)"
proof -
  obtain ids palette where sc: "sc = (ids, palette)" by force
  show ?thesis
  proof (cases "map_of ids rid")
    case (Some j)
    with ok r show ?thesis by (auto simp: mc_palette_index_def sc ids_ok_def)
  next
    case None
    let ?palette = "palette @ [mc_palette_state reg rid]"
    have k: "k = s32 (int (length palette))" and s: "sc' = (umap_emplace rid k ids, ?palette)"
      using r None by (auto simp: mc_palette_index_def sc Let_def)
    have k': "k = int (length palette)" using n by (simp add: k s wrap_simps range_simps)
    have "ids_ok reg sc'"
    proof (unfold ids_ok_def, intro allI impI)
      fix r' j assume j: "map_of (fst sc') r' = Some j"
      show "\<exists>i < length (snd sc'). j = int i \<and> snd sc' ! i = mc_palette_state reg r'"
      proof (cases "r' = rid")
        case True
        with j None k' show ?thesis
          by (intro exI [of _ "length palette"]) (simp add: s map_of_umap_emplace)
      next
        case False
        with j have "map_of ids r' = Some j" by (simp add: s map_of_umap_emplace split: option.splits if_splits)
        then obtain i where "i < length palette" "j = int i" "palette ! i = mc_palette_state reg r'"
          using ok unfolding ids_ok_def sc fst_conv snd_conv by blast
        then show ?thesis by (intro exI [of _ i]) (simp add: s nth_append)
      qed
    qed
    then show ?thesis using k' by (auto simp: s nth_append intro: exI [of _ "length palette"])
  qed
qed

lemma mc_index_step_extends:
  "\<exists>ext k. snd (fst (mc_index_step reg chunks second p st)) = snd (fst st) @ ext \<and>
    snd (mc_index_step reg chunks second p st) = snd st @ [k]"
  using mc_palette_index_extends [of reg
      "layer_block_at second chunks (air_runtime_id reg) (pos_x p) (pos_y p) (pos_z p)" "fst st"]
  by (auto simp: mc_index_step_def Let_def split: prod.splits)

lemma fold_index_extends:
  "\<exists>ext ks. snd (fst (fold (mc_index_step reg chunks second) ps st)) = snd (fst st) @ ext \<and>
    snd (fold (mc_index_step reg chunks second) ps st) = snd st @ ks \<and> length ks = length ps"
proof (induction ps arbitrary: st)
  case (Cons p ps)
  obtain ext k where s: "snd (fst (mc_index_step reg chunks second p st)) = snd (fst st) @ ext"
    "snd (mc_index_step reg chunks second p st) = snd st @ [k]"
    using mc_index_step_extends [of reg chunks second p st] by blast
  obtain ext' ks where "snd (fst (fold (mc_index_step reg chunks second) (p # ps) st)) =
      snd (fst (mc_index_step reg chunks second p st)) @ ext'"
    "snd (fold (mc_index_step reg chunks second) (p # ps) st) = snd (mc_index_step reg chunks second p st) @ ks"
    "length ks = length ps"
    using Cons.IH [of "mc_index_step reg chunks second p st"] by auto
  then show ?case by (intro exI [of _ "ext @ ext'"] exI [of _ "k # ks"]) (simp add: s)
qed simp

lemma mc_index_step_ok:
  assumes ok: "ids_ok reg sc" and r: "mc_index_step reg chunks second p (sc, out) = (sc', out')"
    and n: "int (length (snd sc')) \<le> INT32_MAX"
  shows "ids_ok reg sc' \<and> (\<exists>k. out' = out @ [k] \<and> index_good reg chunks second (snd sc') p k)"
proof -
  let ?rid = "layer_block_at second chunks (air_runtime_id reg) (pos_x p) (pos_y p) (pos_z p)"
  show ?thesis
  proof (cases "second \<and> ?rid = air_runtime_id reg")
    case True
    with r have "sc' = sc" "out' = out @ [- 1]" by (cases second; simp add: mc_index_step_def Let_def)+
    with ok True show ?thesis by (cases second) (simp_all add: index_good_def)
  next
    case False
    then obtain k where k: "mc_palette_index reg ?rid sc = (k, sc')" "out' = out @ [k]"
      using r unfolding mc_index_step_def Let_def prod.case if_not_P [OF False] by (auto split: prod.splits)
    with mc_palette_index_ok [OF ok k(1) n] show ?thesis
      unfolding index_good_def Let_def if_not_P [OF False] by simp
  qed
qed

lemma fold_index_ok:
  assumes "ids_ok reg sc" and "fold (mc_index_step reg chunks second) ps (sc, out) = (sc', out')"
    and "int (length (snd sc')) \<le> INT32_MAX"
  shows "ids_ok reg sc' \<and> (\<exists>ks. out' = out @ ks \<and> list_all2 (index_good reg chunks second (snd sc')) ps ks)"
  using assms(1,2)
proof (induction ps arbitrary: sc out)
  case (Cons p ps)
  obtain sc1 out1 where s: "mc_index_step reg chunks second p (sc, out) = (sc1, out1)" by (rule prod.exhaust)
  have f: "fold (mc_index_step reg chunks second) ps (sc1, out1) = (sc', out')" using Cons.prems(2) s by simp
  obtain ext where ext: "snd sc' = snd sc1 @ ext"
    using fold_index_extends [of reg chunks second ps "(sc1, out1)"] by (auto simp: f)
  have "int (length (snd sc1)) \<le> INT32_MAX" using assms(3) by (simp add: ext)
  from mc_index_step_ok [OF Cons.prems(1) s this] obtain k where k: "ids_ok reg sc1" "out1 = out @ [k]"
    "index_good reg chunks second (snd sc1) p k" by blast
  from Cons.IH [OF k(1) f] obtain ks where "ids_ok reg sc'" "out' = out1 @ ks"
    "list_all2 (index_good reg chunks second (snd sc')) ps ks" by blast
  then show ?case
    using k(2) index_good_append [OF k(3), of ext] by (intro conjI exI [of _ "k # ks"]) (simp_all add: ext)
qed simp

text \<open>Both layers of a file: the indices are right for the palette that is written.\<close>

lemma mc_indices_ok:
  assumes l: "mc_layer_indices reg chunks sz False (snd (mc_palette_index reg (air_runtime_id reg) ([], []))) = (sc1, ks0)"
    "mc_layer_indices reg chunks sz True sc1 = (sc2, ks1)"
    and n: "int (length (snd sc2)) \<le> INT32_MAX"
  shows "list_all2 (index_good reg chunks False (snd sc2)) (mc_grid_positions sz) ks0"
    "list_all2 (index_good reg chunks True (snd sc2)) (mc_grid_positions sz) ks1"
proof -
  let ?sc0 = "snd (mc_palette_index reg (air_runtime_id reg) ([], []))"
  obtain ext where ext: "snd sc2 = snd sc1 @ ext"
    using fold_index_extends [of reg chunks True "mc_grid_positions sz" "(sc1, [])"] l(2)
    by (auto simp: mc_layer_indices_def)
  have n1: "int (length (snd sc1)) \<le> INT32_MAX" using n by (simp add: ext)
  have "ids_ok reg ?sc0"
    by (simp add: mc_palette_index_def ids_ok_def umap_emplace_def Let_def)
  from fold_index_ok [OF this l(1) [unfolded mc_layer_indices_def] n1]
  have ok1: "ids_ok reg sc1" and g0: "list_all2 (index_good reg chunks False (snd sc1)) (mc_grid_positions sz) ks0"
    by auto
  show "list_all2 (index_good reg chunks False (snd sc2)) (mc_grid_positions sz) ks0"
    using g0 unfolding ext by (rule list_all2_mono) (rule index_good_append)
  show "list_all2 (index_good reg chunks True (snd sc2)) (mc_grid_positions sz) ks1"
    using fold_index_ok [OF ok1 l(2) [unfolded mc_layer_indices_def] n] by auto
qed

section \<open>Layers read back\<close>

lemma mc_integers_written:
  "list_all in_s32 ks \<Longrightarrow>
    read_elems (length ks) (mc_read_integer TInt) (concat (map (\<lambda>k. num_bytes Little (word_of_int k :: 32 word)) ks) @ rest) =
      Inr (ks, rest)"
  by (induction ks) (simp_all add: mc_read_integer_def read_num_written sint_int_tag)

lemma mc_layer_written:
  assumes "int (length ks) = volume sz" "volume sz \<le> INT32_MAX" "list_all in_s32 ks"
  shows "mc_read_layer old (mc_layer_bytes sz ks @ rest) = Inr (fold index_push ks (index_array_clear old), rest)"
proof -
  have "write_length Little (length ks) = Inr (num_bytes Little (word_of_nat (length ks) :: 32 word))"
    using assms(1,2) by (simp add: write_length_def)
  moreover have "(word_of_int (s32 (volume sz)) :: 32 word) = word_of_nat (length ks)"
    using assms(1,2) by (simp add: wrap_simps range_simps assms(1) [symmetric])
  ultimately show ?thesis
    using mc_integers_written [OF assms(3), of rest]
    by (simp add: mc_read_layer_def mc_layer_bytes_def read_type_written read_length_written is_integer_type_def
        del: type_code.simps)
qed

lemma index_good_s32:
  assumes "index_good reg chunks second palette p k" "int (length palette) \<le> INT32_MAX"
  shows "in_s32 k"
  using assms by (auto simp: index_good_def Let_def range_simps split: if_splits)

section \<open>Every part of the reader consumes\<close>

lemma shrinks_mc_skip: "shrinks (mc_skip ty s)"
  by (auto simp: shrinks_def mc_skip_def and_then_eq_Inr_iff simp del: skip_payload.simps
      dest: shrinksD [OF shrinks_skip_payload])

lemma shrinks_mc_integer: "shrinks (mc_read_integer ty)"
  unfolding mc_read_integer_def
  by (cases ty; simp only: tag_type.case) (intro shrinks_bind shrinks_return shrinks_read_num)+

lemma shrinks_mc_size: "shrinks mc_read_size"
  unfolding mc_read_size_def
  by (intro shrinks_bind shrinks_if shrinks_return shrinks_read_type shrinks_read_num shrinks_read_elems
      shrinks_mc_integer)

lemma shrinks_mc_layer: "shrinks (mc_read_layer old)"
  unfolding mc_read_layer_def
  by (intro shrinks_bind shrinks_if shrinks_return shrinks_read_type shrinks_read_length shrinks_read_elems
      shrinks_mc_integer)

lemma shrinks_mc_indices: "shrinks (mc_read_indices old)"
  unfolding mc_read_indices_def
  by (intro shrinks_bind shrinks_if shrinks_return shrinks_read_type shrinks_read_num shrinks_mc_layer)

lemma shrinks_case_compound:
  "(\<And>kvs. shrinks (f kvs)) \<Longrightarrow> shrinks (\<lambda>rest. case t of NCompound kvs \<Rightarrow> f kvs rest | _ \<Rightarrow> Inl e)"
  by (cases t) simp_all

lemma shrinks_mc_palette: "shrinks (mc_read_block_palette reg unknown)"
proof -
  have "shrinks (mc_palette_item reg unknown el)" for el
    unfolding mc_palette_item_def
    by (intro shrinks_bind shrinks_if shrinks_return shrinks_mc_skip shrinks_read_payload shrinks_case_compound)
  then show ?thesis unfolding mc_read_block_palette_def
    by (intro shrinks_bind shrinks_read_elems shrinks_read_type shrinks_read_length)
qed

lemma shrinks_and_then_const: "shrinks (\<lambda>rest. and_then r (\<lambda>x. Inr (f x, rest)))"
  by (cases r) simp_all

lemma shrinks_mc_entity_field: "shrinks (mc_entity_field valid key ty found)"
  unfolding mc_entity_field_def
  by (intro shrinks_bind shrinks_if shrinks_mc_skip shrinks_read_payload shrinks_case_compound shrinks_and_then_const)

lemma shrinks_mc_position_field: "shrinks (mc_position_field text ty sc)"
  unfolding mc_position_field_def Let_def
  by (intro shrinks_bind shrinks_if shrinks_mc_skip shrinks_read_fields shrinks_mc_entity_field shrinks_return)

lemma shrinks_mc_position_data: "shrinks (mc_read_position_data ents)"
  unfolding mc_read_position_data_def by (intro shrinks_bind shrinks_read_fields shrinks_mc_position_field shrinks_return)

lemma shrinks_mc_default_field: "shrinks (mc_default_field reg unknown key ty st)"
  unfolding mc_default_field_def Let_def
  by (cases st) (simp only: prod.case, intro shrinks_bind shrinks_if shrinks_mc_skip shrinks_mc_palette
      shrinks_mc_position_data shrinks_return)

lemma shrinks_mc_palette_field: "shrinks (mc_palette_field reg unknown key ty st)"
  unfolding mc_palette_field_def
  by (intro shrinks_bind shrinks_if shrinks_mc_skip shrinks_read_fields shrinks_mc_default_field shrinks_return)

lemma shrinks_mc_structure_field: "shrinks (mc_structure_field reg unknown key ty sc)"
  unfolding mc_structure_field_def mc_read_palette_def
  by (intro shrinks_bind shrinks_if shrinks_mc_skip shrinks_mc_indices shrinks_read_fields shrinks_mc_palette_field
      shrinks_return)

lemma shrinks_mc_root_field: "shrinks (mc_root_field reg unknown key ty sc)"
  unfolding mc_root_field_def
  by (intro shrinks_bind shrinks_if shrinks_mc_skip shrinks_mc_size shrinks_read_fields shrinks_mc_structure_field
      shrinks_return)

section \<open>The palette read back\<close>

lemma mc_palette_entry_fits:
  assumes "mc_palette_entry st = Inr e"
  shows "fits (Suc (Suc (Suc r))) (NCompound e)"
proof -
  obtain ps where ps: "fold_result put_property (states st) [] = Inr ps"
    and e: "e = fields_of [(''name'', NString (state_name st)), (''states'', NCompound ps),
      (''version'', int_tag (state_version st))]"
    using assms by (auto simp: mc_palette_entry_def and_then_eq_Inr_iff)
  have "fits (Suc (Suc r)) (NCompound ps)"
    by (rule fold_result_invariant [OF ps]) (simp add: omap_ok_def, rule put_property_fits)
  then show ?thesis unfolding e by (intro fits_fields_of) (simp add: fits_leaf del: fits.simps)
qed

lemma mc_block_palette_iff:
  "mc_block_palette sts = Inr ts \<longleftrightarrow> list_all2 (\<lambda>st t. \<exists>e. mc_palette_entry st = Inr e \<and> t = NCompound e) sts ts"
  by (induction sts arbitrary: ts) (auto simp: and_then_eq_Inr_iff list_all2_Cons1)

definition mc_tag_fields :: "nbt \<Rightarrow> (string \<times> nbt) list" where
  "mc_tag_fields t = (case t of NCompound kvs \<Rightarrow> kvs | _ \<Rightarrow> [])"

definition mc_tag_block :: "registry \<Rightarrow> runtime_id \<Rightarrow> nbt \<Rightarrow> runtime_id" where
  "mc_tag_block reg unknown t = mc_resolve reg unknown (mc_entry_state (mc_tag_fields t))"

lemma mc_palette_read:
  assumes w: "write_payload Little (NList TCompound ts) = Inr pay"
    and ok: "\<And>t. t \<in> set ts \<Longrightarrow> \<exists>kvs. t = NCompound kvs \<and> fits MAX_DEPTH t"
  shows "mc_read_block_palette reg unknown (pay @ rest) = Inr (map (mc_tag_block reg unknown) ts, rest)"
proof -
  obtain n y where n: "write_length Little (length ts) = Inr n"
    and y: "append_each (\<lambda>t. if nbt_type t \<noteq> TCompound then Inl ListTypeMismatch else write_payload Little t) ts = Inr y"
    and pay: "pay = type_code TCompound # n @ y"
    using w by (auto simp: and_then_eq_Inr_iff)
  have "read_elems (length ts) (mc_palette_item reg unknown TCompound) (y @ rest) =
      Inr (map (mc_tag_block reg unknown) ts, rest)"
  proof (rule read_elems_written [OF y])
    fix t b rest
    assume t: "t \<in> set ts" "(if nbt_type t \<noteq> TCompound then Inl ListTypeMismatch else write_payload Little t) = Inr b"
    obtain kvs where kvs: "t = NCompound kvs" "fits MAX_DEPTH t" using ok [OF t(1)] by blast
    have "read_payload MAX_DEPTH Little TCompound (b @ rest) = Inr (t, rest)"
      using read_payload_written [OF kvs(2), of Little b rest] t(2) by (simp add: kvs(1))
    then show "mc_palette_item reg unknown TCompound (b @ rest) = Inr (mc_tag_block reg unknown t, rest)"
      by (simp add: mc_palette_item_def kvs(1) mc_tag_block_def mc_tag_fields_def)
  qed
  then show ?thesis
    by (simp add: mc_read_block_palette_def pay read_type_written read_length_written [OF n] del: type_code.simps)
qed

section \<open>The block entities read back\<close>

text \<open>An entry of the compound \<open>block_position_data\<close> that the writer makes.\<close>

definition mc_entity_entry :: "string \<times> nbt \<Rightarrow> int \<Rightarrow> nbt_payload \<Rightarrow> bool" where
  "mc_entity_entry kv i payload \<longleftrightarrow> in_s32 i \<and> fst kv = to_string i \<and>
    (\<exists>kvs. snd kv = NCompound [(''block_entity_data'', NCompound kvs)] \<and> fits MAX_DEPTH (NCompound kvs) \<and>
      serialize_compound kvs = Inr payload)"

lemma mc_position_field_written:
  assumes e: "mc_entity_entry (k, t) i payload" and w: "write_payload Little t = Inr pay"
  shows "mc_position_field k (nbt_type t) sc (pay @ rest) = Inr (mc_keep_entity k i payload sc, rest)"
proof -
  obtain kvs where i: "in_s32 i" "k = to_string i" and t: "t = NCompound [(''block_entity_data'', NCompound kvs)]"
    and kvs: "fits MAX_DEPTH (NCompound kvs)" "serialize_compound kvs = Inr payload"
    using e by (auto simp: mc_entity_entry_def)
  have p: "parse_exact INT32_MIN INT32_MAX k = Some i"
    using i by (simp add: parse_exact_to_string range_simps)
  obtain b where b: "write_fields Little [(''block_entity_data'', NCompound kvs)] = Inr b" "pay = b @ [type_code TEnd]"
    using w unfolding t write_compound by (auto simp: and_then_eq_Inr_iff)
  have "read_fields Little (mc_entity_field True) None (b @ type_code TEnd # rest) =
      Inr (fold (\<lambda>kv s. Some payload) [(''block_entity_data'', NCompound kvs)] None, rest)"
  proof (rule read_fields_written_total [OF shrinks_mc_entity_field b(1)])
    fix k t s pay' rest
    assume "(k, t) \<in> set [(''block_entity_data'', NCompound kvs)]" "write_payload Little t = Inr pay'"
    then have k: "k = ''block_entity_data''" "t = NCompound kvs" and pay': "write_payload Little (NCompound kvs) = Inr pay'"
      by auto
    have "read_payload MAX_DEPTH Little TCompound (pay' @ rest) = Inr (NCompound kvs, rest)"
      using read_payload_written [OF kvs(1) pay', of rest] by simp
    then show "mc_entity_field True k (nbt_type t) s (pay' @ rest) = Inr (Some payload, rest)"
      by (simp add: mc_entity_field_def k kvs(2))
  qed
  then show ?thesis by (simp add: mc_position_field_def p t b(2) Let_def)
qed

lemma mc_position_data_read:
  assumes w: "write_payload Little (NCompound pd) = Inr pay"
    and e: "list_all2 (\<lambda>kv (i, payload). mc_entity_entry kv i payload) pd es"
    and d: "distinct (map fst es)"
  shows "mc_read_position_data [] (pay @ rest) = Inr (es, rest)"
proof -
  let ?g = "\<lambda>kv sc. case parse_exact INT32_MIN INT32_MAX (fst kv) of
      Some i \<Rightarrow> (case map_of es i of Some payload \<Rightarrow> mc_keep_entity (fst kv) i payload sc | None \<Rightarrow> sc) | None \<Rightarrow> sc"
  obtain b where b: "write_fields Little pd = Inr b" "pay = b @ [type_code TEnd]"
    using w unfolding write_compound by (auto simp: and_then_eq_Inr_iff)
  have ent: "\<exists>i payload. (i, payload) \<in> set es \<and> mc_entity_entry kv i payload" if "kv \<in> set pd" for kv
    using that e unfolding list_all2_conv_all_nth in_set_conv_nth by (metis case_prodE)
  have r: "read_fields Little mc_position_field (Map.empty, []) (b @ type_code TEnd # rest) =
      Inr (fold ?g pd (Map.empty, []), rest)"
  proof (rule read_fields_written_total [OF shrinks_mc_position_field b(1)])
    fix k t s pay rest
    assume kt: "(k, t) \<in> set pd" "write_payload Little t = Inr pay"
    obtain i payload where i: "(i, payload) \<in> set es" "mc_entity_entry (k, t) i payload" using ent [OF kt(1)] by blast
    then have "parse_exact INT32_MIN INT32_MAX k = Some i" "map_of es i = Some payload"
      using d by (auto simp: mc_entity_entry_def parse_exact_to_string range_simps)
    then show "mc_position_field k (nbt_type t) s (pay @ rest) = Inr (?g (k, t) s, rest)"
      using mc_position_field_written [OF i(2) kt(2)] by simp
  qed
  have "snd (fold ?g pd' sc) = snd sc @ es'"
    if "list_all2 (\<lambda>kv (i, payload). mc_entity_entry kv i payload) pd' es'" "set es' \<subseteq> set es"
      "distinct (map fst es')" "\<And>i. i \<in> fst ` set es' \<Longrightarrow> fst sc i = None \<and> map_of (snd sc) i = None"
    for pd' es' and sc :: entity_scan
    using that
  proof (induction pd' es' arbitrary: sc rule: list_all2_induct)
    case (Cons kv pd' ie es')
    obtain i payload where ie: "ie = (i, payload)" by force
    have kv: "mc_entity_entry kv i payload" using Cons.hyps(1) by (simp add: ie)
    then have "parse_exact INT32_MIN INT32_MAX (fst kv) = Some i"
      by (auto simp: mc_entity_entry_def parse_exact_to_string range_simps)
    moreover have "map_of es i = Some payload" using Cons.prems(1) d by (simp add: ie)
    ultimately have g: "?g kv sc = ((fst sc)(i \<mapsto> fst kv), snd sc @ [(i, payload)])"
      using Cons.prems(3) [of i] by (simp add: ie mc_keep_entity_def umap_emplace_def)
    have "snd (fold ?g pd' (?g kv sc)) = snd (?g kv sc) @ es'"
    proof (rule Cons.IH)
      fix j assume j: "j \<in> fst ` set es'"
      then have "j \<noteq> i" using Cons.prems(2) by (auto simp: ie)
      then show "fst (?g kv sc) j = None \<and> map_of (snd (?g kv sc)) j = None"
        using Cons.prems(3) [of j] j unfolding g by (simp add: map_add_def)
    qed (use Cons.prems in \<open>auto simp: ie\<close>)
    then show ?case by (simp add: g ie)
  qed simp
  from this [OF e, of "(Map.empty, [])"] d
  have "snd (fold ?g pd (Map.empty, [])) = es" by simp
  with r show ?thesis by (simp add: mc_read_position_data_def b(2))
qed

section \<open>The block entities written\<close>

definition mc_place :: "chunk_pos \<times> block_entity \<Rightarrow> block_pos" where
  "mc_place ent = BlockPos (s32 (s32 (chunk_x (fst ent) * 16) + pos_x (entity_pos (snd ent))))
    (s32 (pos_y (entity_pos (snd ent)) - kOverworldMinY))
    (s32 (s32 (chunk_z (fst ent) * 16) + pos_z (entity_pos (snd ent))))"

definition mc_kept :: "wsize \<Rightarrow> chunk_pos \<times> block_entity \<Rightarrow> bool" where
  "mc_kept sz ent \<longleftrightarrow> \<not> outside sz (mc_place ent) \<and> entity_payload (snd ent) \<noteq> []"

definition mc_placed :: "chunk_pos \<times> block_entity \<Rightarrow> (string \<times> nbt) list" where
  "mc_placed ent =
    (case mc_place_entity (pos_x (mc_place ent)) (pos_y (mc_place ent)) (pos_z (mc_place ent)) (entity_payload (snd ent)) of
       Inr kvs \<Rightarrow> kvs | Inl e \<Rightarrow> [])"

definition mc_entity_item :: "wsize \<Rightarrow> chunk_pos \<times> block_entity \<Rightarrow> string \<times> nbt" where
  "mc_entity_item sz ent =
    (to_string (mc_grid_index sz (mc_place ent)), NCompound [(''block_entity_data'', NCompound (mc_placed ent))])"

definition mc_small :: "wsize \<Rightarrow> bool" where
  "mc_small sz \<longleftrightarrow> size_in_range sz \<and> 0 < width sz \<and> 0 < height sz \<and> 0 < len sz \<and>
    width sz * height sz * len sz \<le> INT32_MAX"

lemma mc_index_small:
  assumes sz: "mc_small sz" and p: "\<not> outside sz p"
  shows "0 \<le> mc_grid_index sz p" "mc_grid_index sz p < width sz * height sz * len sz" "in_s32 (mc_grid_index sz p)"
    "s32 (s32 (s32 (s32 (pos_x p * height sz) * len sz) + s32 (pos_y p * len sz)) + pos_z p) = mc_grid_index sz p"
proof -
  have b: "0 \<le> mc_grid_index sz p \<and> mc_grid_index sz p < len sz * width sz * height sz"
    using grid_index_bounds [of "turn_size sz" "turn p"] p
    by (simp add: outside_turn grid_index_turn) (simp add: turn_size_def)
  then show i: "0 \<le> mc_grid_index sz p" "mc_grid_index sz p < width sz * height sz * len sz"
    by (simp_all add: algebra_simps)
  then show s: "in_s32 (mc_grid_index sz p)" using sz by (simp add: mc_small_def range_simps)
  have pos: "0 \<le> pos_x p" "0 \<le> pos_y p" "0 \<le> pos_z p" "0 < len sz" "0 < height sz"
    using p sz by (auto simp: outside_def mc_small_def)
  have e: "mc_grid_index sz p = pos_x p * height sz * len sz + pos_y p * len sz + pos_z p"
    by (simp add: mc_grid_index_def algebra_simps)
  have n: "0 \<le> pos_x p * height sz" "0 \<le> pos_x p * height sz * len sz" "0 \<le> pos_y p * len sz"
    using pos by simp_all
  have "pos_x p * height sz * 1 \<le> pos_x p * height sz * len sz" using n(1) pos by (intro mult_left_mono) auto
  then have r: "in_s32 (pos_x p * height sz)" "in_s32 (pos_x p * height sz * len sz)" "in_s32 (pos_y p * len sz)"
    "in_s32 (pos_x p * height sz * len sz + pos_y p * len sz)"
    using n pos s unfolding e range_simps by linarith+
  show "s32 (s32 (s32 (s32 (pos_x p * height sz) * len sz) + s32 (pos_y p * len sz)) + pos_z p) = mc_grid_index sz p"
    using s unfolding s32_id [OF r(1)] s32_id [OF r(2)] s32_id [OF r(3)] s32_id [OF r(4)] e by (rule s32_id)
qed

lemma mc_put_entity_eq:
  assumes sz: "mc_small sz"
  shows "mc_put_entity sz ent pd =
    (if mc_kept sz ent
     then and_then (mc_place_entity (pos_x (mc_place ent)) (pos_y (mc_place ent)) (pos_z (mc_place ent))
       (entity_payload (snd ent))) (\<lambda>kvs. Inr (omap_put (fst (mc_entity_item sz ent)) (snd (mc_entity_item sz ent)) pd))
     else Inr pd)"
proof -
  have kept: "mc_kept sz ent \<longleftrightarrow> \<not> (pos_x (mc_place ent) < 0 \<or> width sz \<le> pos_x (mc_place ent) \<or> pos_y (mc_place ent) < 0 \<or>
      height sz \<le> pos_y (mc_place ent) \<or> pos_z (mc_place ent) < 0 \<or> len sz \<le> pos_z (mc_place ent) \<or>
      entity_payload (snd ent) = [])"
    by (auto simp: mc_kept_def outside_def)
  have f: "fields_of [(k, t)] = [(k, t)]" for k and t :: nbt by (simp add: fields_of_def)
  show ?thesis
  proof (cases "mc_kept sz ent")
    case True
    then have "\<not> outside sz (mc_place ent)" by (simp add: mc_kept_def)
    note i = mc_index_small(4) [OF sz this]
    show ?thesis
      using True i unfolding mc_put_entity_def kept
      by (cases "mc_place_entity (pos_x (mc_place ent)) (pos_y (mc_place ent)) (pos_z (mc_place ent)) (entity_payload (snd ent))")
        (simp_all add: mc_place_def [symmetric] mc_entity_item_def mc_placed_def f Let_def, simp_all add: mc_place_def)
  next
    case False
    then show ?thesis unfolding mc_put_entity_def kept by (auto simp: mc_place_def Let_def)
  qed
qed

lemma mc_entities_fold:
  assumes sz: "mc_small sz" and f: "fold_result (mc_put_entity sz) ents pd0 = Inr pd" and ok: "omap_ok pd0"
  shows "omap_ok pd \<and> (\<forall>ent \<in> set ents. mc_kept sz ent \<longrightarrow>
      mc_place_entity (pos_x (mc_place ent)) (pos_y (mc_place ent)) (pos_z (mc_place ent)) (entity_payload (snd ent)) =
        Inr (mc_placed ent)) \<and>
    (\<forall>k. omap_find pd k =
      (case map_of (rev (map (mc_entity_item sz) (filter (mc_kept sz) ents))) k of Some t \<Rightarrow> Some t | None \<Rightarrow> omap_find pd0 k))"
  using f ok
proof (induction ents arbitrary: pd0)
  case (Cons ent ents)
  show ?case
  proof (cases "mc_kept sz ent")
    case True
    with Cons.prems(1) obtain kvs where k: "mc_place_entity (pos_x (mc_place ent)) (pos_y (mc_place ent)) (pos_z (mc_place ent))
        (entity_payload (snd ent)) = Inr kvs"
      "fold_result (mc_put_entity sz) ents (omap_put (fst (mc_entity_item sz ent)) (snd (mc_entity_item sz ent)) pd0) = Inr pd"
      by (auto simp: mc_put_entity_eq [OF sz, of ent pd0] and_then_eq_Inr_iff)
    then show ?thesis
      using Cons.IH [OF k(2) omap_ok_put [OF Cons.prems(2)]] True
      by (auto simp: omap_find_put [OF Cons.prems(2)] mc_placed_def map_add_def split: option.split)
  next
    case False
    then show ?thesis using Cons by (simp add: mc_put_entity_eq [OF sz, of ent pd0])
  qed
qed simp

text \<open>The trees of the entities are as deep as the reader of the file allows.\<close>

definition mc_depth_ok :: "nbt_payload \<Rightarrow> bool" where
  "mc_depth_ok payload \<longleftrightarrow>
    (case read_compound Little payload of Inr (name, kvs, rest) \<Rightarrow> fits MAX_DEPTH (NCompound kvs) | Inl e \<Rightarrow> True)"

lemma put_int_fits:
  assumes "put_int key n kvs = Inr kvs'" "fits (Suc (Suc r)) (NCompound kvs)"
  shows "fits (Suc (Suc r)) (NCompound kvs')"
proof -
  obtain t where t: "assign_int (omap_find kvs key) n = Inr t" and k: "kvs' = omap_put key t kvs"
    using assms(1) by (auto simp: put_int_def and_then_eq_Inr_iff)
  have "fits (Suc r) t"
    using t by (auto simp: assign_int_def assign_value_def integer_tag_def int_tag_def split: option.splits nbt.splits if_splits)
  then show ?thesis using assms(2) k
    by (simp add: omap_ok_put list_all_omap_put del: fits.simps(2)) (simp add: omap_ok_put list_all_omap_put)
qed

lemma mc_place_fits:
  assumes p: "mc_place_entity x y z payload = Inr kvs" and d: "mc_depth_ok payload"
  shows "fits MAX_DEPTH (NCompound kvs)"
proof -
  have "MAX_DEPTH = Suc (Suc 1022)" by (simp add: MAX_DEPTH_def)
  then obtain r where m: "MAX_DEPTH = Suc (Suc r)" by blast
  obtain name kvs0 rest kvs1 kvs2 where r: "read_compound Little payload = Inr (name, kvs0, rest)"
    and s: "put_int ''x'' x kvs0 = Inr kvs1" "put_int ''y'' y kvs1 = Inr kvs2" "put_int ''z'' z kvs2 = Inr kvs"
  proof -
    obtain a where a: "map_sum NbtError id (read_compound Little payload) = Inr a"
      "map_sum PropertyError id (and_then (put_int ''x'' x (fst (snd a))) (\<lambda>kvs1.
        and_then (put_int ''y'' y kvs1) (\<lambda>kvs2. put_int ''z'' z kvs2))) = Inr kvs"
      using p unfolding mc_place_entity_def and_then_eq_Inr_iff by (auto simp: split_def)
    have "read_compound Little payload = Inr a" using a(1) by (cases "read_compound Little payload") simp_all
    moreover have "and_then (put_int ''x'' x (fst (snd a))) (\<lambda>kvs1.
        and_then (put_int ''y'' y kvs1) (\<lambda>kvs2. put_int ''z'' z kvs2)) = Inr kvs"
      using a(2) by (cases "and_then (put_int ''x'' x (fst (snd a))) (\<lambda>kvs1.
        and_then (put_int ''y'' y kvs1) (\<lambda>kvs2. put_int ''z'' z kvs2))") simp_all
    ultimately show thesis by (cases a) (auto simp: and_then_eq_Inr_iff intro: that)
  qed
  have "fits MAX_DEPTH (NCompound kvs0)" using d by (simp add: mc_depth_ok_def r)
  then show ?thesis unfolding m using put_int_fits s by blast
qed

lemma write_fields_member:
  "write_fields e kvs = Inr b \<Longrightarrow> (k, t) \<in> set kvs \<Longrightarrow> \<exists>p. write_payload e t = Inr p"
  unfolding write_fields_def by (induction kvs arbitrary: b) (auto simp: and_then_eq_Inr_iff)

lemma write_compound_member:
  assumes "write_payload e (NCompound kvs) = Inr b" "(k, t) \<in> set kvs" shows "\<exists>p. write_payload e t = Inr p"
proof -
  obtain y where "write_fields e kvs = Inr y" using assms(1) unfolding write_compound by (auto simp: and_then_eq_Inr_iff)
  then show ?thesis using assms(2) by (rule write_fields_member)
qed

lemma to_string_inj:
  assumes "in_s32 i" "in_s32 j" shows "to_string i = to_string j \<longleftrightarrow> i = j"
proof -
  have "parse_exact INT32_MIN INT32_MAX (to_string i) = Some i" "parse_exact INT32_MIN INT32_MAX (to_string j) = Some j"
    using assms by (auto simp: parse_exact_to_string range_simps)
  then show ?thesis by (metis option.inject)
qed

text \<open>The payload that is read in the place of a block entity.\<close>

definition mc_moved_payload :: "chunk_pos \<times> block_entity \<Rightarrow> nbt_payload" where
  "mc_moved_payload ent = (case serialize_compound (mc_placed ent) of Inr b \<Rightarrow> b | Inl e \<Rightarrow> [])"

lemma mc_item_entry:
  assumes sz: "mc_small sz" and k: "mc_kept sz ent" and kv: "kv = mc_entity_item sz ent"
    and p: "mc_place_entity (pos_x (mc_place ent)) (pos_y (mc_place ent)) (pos_z (mc_place ent))
      (entity_payload (snd ent)) = Inr (mc_placed ent)"
    and d: "mc_depth_ok (entity_payload (snd ent))" and w: "\<exists>pay. write_payload Little (snd kv) = Inr pay"
  shows "mc_entity_entry kv (mc_grid_index sz (mc_place ent)) (mc_moved_payload ent)"
proof -
  have o: "\<not> outside sz (mc_place ent)" using k by (simp add: mc_kept_def)
  obtain b where "write_payload Little (NCompound (mc_placed ent)) = Inr b"
    using w write_compound_member [of Little "[(''block_entity_data'', NCompound (mc_placed ent))]"]
    unfolding kv mc_entity_item_def snd_conv by fastforce
  then have "\<exists>c. serialize_compound (mc_placed ent) = Inr c"
    by (simp add: serialize_compound_def write_tag_def write_string_def del: write_payload.simps)
  then have "serialize_compound (mc_placed ent) = Inr (mc_moved_payload ent)"
    by (auto simp: mc_moved_payload_def)
  with mc_place_fits [OF p d] mc_index_small(3) [OF sz o] show ?thesis
    by (simp add: mc_entity_entry_def kv mc_entity_item_def)
qed

lemma mc_item_key:
  assumes sz: "mc_small sz" and k: "mc_kept sz ent" "mc_kept sz ent'"
    and e: "fst (mc_entity_item sz ent) = fst (mc_entity_item sz ent')"
  shows "mc_grid_index sz (mc_place ent) = mc_grid_index sz (mc_place ent')"
  using e k mc_index_small(3) [OF sz] to_string_inj by (simp add: mc_entity_item_def mc_kept_def)

lemma mc_entities_read:
  assumes sz: "mc_small sz" and f: "fold_result (mc_put_entity sz) ents [] = Inr pd"
    and deep: "\<And>ent. ent \<in> set ents \<Longrightarrow> mc_depth_ok (entity_payload (snd ent))"
    and w: "write_payload Little (NCompound pd) = Inr pay"
  obtains es where "list_all2 (\<lambda>kv (i, payload). mc_entity_entry kv i payload) pd es" "distinct (map fst es)"
    "\<And>e. e \<in> set es \<Longrightarrow> \<exists>ent \<in> set ents. mc_kept sz ent \<and>
      e = (mc_grid_index sz (mc_place ent), mc_moved_payload ent)"
    "\<And>ent. ent \<in> set ents \<Longrightarrow> mc_kept sz ent \<Longrightarrow> mc_grid_index sz (mc_place ent) \<in> fst ` set es"
proof -
  let ?items = "map (mc_entity_item sz) (filter (mc_kept sz) ents)"
  have fold: "omap_ok pd" "\<And>ent. ent \<in> set ents \<Longrightarrow> mc_kept sz ent \<Longrightarrow>
      mc_place_entity (pos_x (mc_place ent)) (pos_y (mc_place ent)) (pos_z (mc_place ent)) (entity_payload (snd ent)) =
        Inr (mc_placed ent)"
    and find: "\<And>k. omap_find pd k = map_of (rev ?items) k"
    using mc_entities_fold [OF sz f] by (auto simp: omap_ok_def omap_find_def split: option.splits)
  have item: "\<exists>ent \<in> set ents. mc_kept sz ent \<and> kv = mc_entity_item sz ent" if "kv \<in> set pd" for kv
  proof -
    have "map_of (rev ?items) (fst kv) = Some (snd kv)"
      using that find omap_find_iff [OF fold(1), of "fst kv" "snd kv"] by simp
    then have "(fst kv, snd kv) \<in> set (rev ?items)" by (rule map_of_SomeD)
    then show ?thesis by auto
  qed
  have "\<forall>kv \<in> set pd. \<exists>ent. ent \<in> set ents \<and> mc_kept sz ent \<and> kv = mc_entity_item sz ent" using item by blast
  then obtain pick where pick: "pick kv \<in> set ents \<and> mc_kept sz (pick kv) \<and> kv = mc_entity_item sz (pick kv)"
    if "kv \<in> set pd" for kv
    using bchoice by metis
  let ?es = "map (\<lambda>kv. (mc_grid_index sz (mc_place (pick kv)), mc_moved_payload (pick kv))) pd"
  have entry: "mc_entity_entry kv (mc_grid_index sz (mc_place (pick kv))) (mc_moved_payload (pick kv))"
    if kv: "kv \<in> set pd" for kv
  proof -
    note p = pick [OF kv, THEN conjunct2, THEN conjunct2]
    have "\<exists>pay. write_payload Little (snd kv) = Inr pay"
      using write_compound_member [OF w, of "fst kv" "snd kv"] kv by simp
    with pick [OF kv] show ?thesis by (intro mc_item_entry [OF sz _ p fold(2) deep]) auto
  qed
  show thesis
  proof (rule that [of ?es])
    show "list_all2 (\<lambda>kv (i, payload). mc_entity_entry kv i payload) pd ?es"
      by (simp add: list_all2_map2 list.rel_refl_strong entry)
    have "distinct (map (\<lambda>kv. to_string (mc_grid_index sz (mc_place (pick kv)))) pd)"
      using omap_ok_distinct [OF fold(1)] entry by (simp add: mc_entity_entry_def cong: map_cong)
    then have "distinct (map to_string (map fst ?es))" by (simp add: comp_def)
    then show "distinct (map fst ?es)" by (simp only: distinct_map [of to_string])
    show "\<exists>ent \<in> set ents. mc_kept sz ent \<and> e = (mc_grid_index sz (mc_place ent), mc_moved_payload ent)"
      if "e \<in> set ?es" for e
      using that pick by auto
    show "mc_grid_index sz (mc_place ent) \<in> fst ` set ?es" if ent: "ent \<in> set ents" "mc_kept sz ent" for ent
    proof -
      have "fst (mc_entity_item sz ent) \<in> fst ` set (rev ?items)" using ent by (intro imageI) simp
      then have "map_of (rev ?items) (fst (mc_entity_item sz ent)) \<noteq> None"
        by (simp only: map_of_eq_None_iff not_not)
      then obtain t where t: "(fst (mc_entity_item sz ent), t) \<in> set pd"
        using find omap_find_iff [OF fold(1)] by auto
      note p = pick [OF t]
      have "fst (mc_entity_item sz ent) = fst (mc_entity_item sz (pick (fst (mc_entity_item sz ent), t)))"
        using p [THEN conjunct2, THEN conjunct2] by (metis fst_conv)
      from mc_item_key [OF sz ent(2) _ this] p t show ?thesis by force
    qed
  qed
qed

end
