(* ===== verification/WS_McCopy.thy ===== *)
theory WS_McCopy
  imports WS_McParts
begin

text \<open>
  A structure written as a structure block and read back: the file field by field, and the
  blocks and block entities of the structure that is read.
\<close>

section \<open>The palettes\<close>

lemma mc_palettes_eq:
  "mc_palettes bp pd = [(''default'', NCompound
    [(''block_palette'', NList TCompound bp), (''block_position_data'', NCompound pd)])]"
proof -
  have "''block_palette'' < ''block_position_data''" by code_simp
  then show ?thesis by (simp add: mc_palettes_def fields_of_def)
qed

definition mc_palettes_scan ::
  "registry \<Rightarrow> runtime_id \<Rightarrow> nbt list \<Rightarrow> (int \<times> nbt_payload) list \<Rightarrow> mc_scan \<Rightarrow> mc_scan" where
  "mc_palettes_scan reg unknown bp es sc = sc\<lparr>mc_scan_palette := map (mc_tag_block reg unknown) bp,
    scan_entities := es, has_palette := True, has_default_palette := True, has_block_palette := True\<rparr>"

lemma write_tag_payload: "write_tag e k t = Inr b \<Longrightarrow> \<exists>pay. write_payload e t = Inr pay"
  by (auto simp: write_tag_def and_then_eq_Inr_iff)

lemma mc_palettes_read:
  assumes w: "write_payload Little (NCompound (mc_palettes bp pd)) = Inr pay"
    and bp: "\<And>t. t \<in> set bp \<Longrightarrow> \<exists>kvs. t = NCompound kvs \<and> fits MAX_DEPTH t"
    and pd: "list_all2 (\<lambda>kv (i, payload). mc_entity_entry kv i payload) pd es" "distinct (map fst es)"
  shows "mc_read_palette reg unknown sc (pay @ rest) = Inr (mc_palettes_scan reg unknown bp es sc, rest)"
proof -
  let ?default = "[(''block_palette'', NList TCompound bp), (''block_position_data'', NCompound pd)]"
  let ?sc0 = "sc\<lparr>has_palette := True, has_default_palette := False, has_block_palette := False,
      mc_scan_palette := [], scan_entities := []\<rparr>"
  let ?sc1 = "?sc0\<lparr>has_default_palette := True\<rparr>"
  let ?sc2 = "?sc1\<lparr>mc_scan_palette := map (mc_tag_block reg unknown) bp, has_block_palette := True\<rparr>"
  have inner: "read_fields Little (mc_default_field reg unknown) (?sc1, False, False) (b @ type_code TEnd # r) =
      Inr ((mc_palettes_scan reg unknown bp es sc, True, True), r)"
    if b: "write_fields Little ?default = Inr b" for b r
  proof -
    obtain b1 b2 where t: "write_tag Little ''block_palette'' (NList TCompound bp) = Inr b1"
      "write_tag Little ''block_position_data'' (NCompound pd) = Inr b2" and e: "b = b1 @ b2"
      using b unfolding write_fields_def by (auto simp: and_then_eq_Inr_iff write_tag_def)
    have "read_fields Little (mc_default_field reg unknown) (?sc1, False, False) (b1 @ b2 @ type_code TEnd # r) =
        read_fields Little (mc_default_field reg unknown) (?sc2, True, False) (b2 @ type_code TEnd # r)"
      by (rule read_fields_step [OF shrinks_mc_default_field t(1)])
        (simp add: mc_default_field_def mc_palette_read [OF _ bp] Let_def del: write_payload.simps)
    also have "\<dots> = read_fields Little (mc_default_field reg unknown) (?sc2\<lparr>scan_entities := es\<rparr>, True, True) (type_code TEnd # r)"
      by (rule read_fields_step [OF shrinks_mc_default_field t(2)])
        (simp add: mc_default_field_def mc_position_data_read [OF _ pd] Let_def del: write_payload.simps)
    also have "\<dots> = Inr ((mc_palettes_scan reg unknown bp es sc, True, True), r)"
      by (subst read_fields_eq [OF shrinks_mc_default_field]) (simp add: read_type_written mc_palettes_scan_def del: type_code.simps)
    finally show ?thesis by (simp add: e)
  qed
  obtain b where b: "write_fields Little (mc_palettes bp pd) = Inr b" "pay = b @ [type_code TEnd]"
    using w unfolding write_compound by (auto simp: and_then_eq_Inr_iff)
  have t: "write_tag Little ''default'' (NCompound ?default) = Inr b"
    using b(1) unfolding mc_palettes_eq write_fields_def by (auto simp: and_then_eq_Inr_iff write_tag_def)
  have "read_fields Little (mc_palette_field reg unknown) (?sc0, False) (b @ type_code TEnd # rest) =
      read_fields Little (mc_palette_field reg unknown) (mc_palettes_scan reg unknown bp es sc, True) (type_code TEnd # rest)"
  proof (rule read_fields_step [OF shrinks_mc_palette_field t])
    fix pay
    assume "write_payload Little (NCompound ?default) = Inr pay"
    then obtain c where c: "write_fields Little ?default = Inr c" "pay = c @ [type_code TEnd]"
      unfolding write_compound by (auto simp: and_then_eq_Inr_iff)
    show "mc_palette_field reg unknown ''default'' (nbt_type (NCompound ?default)) (?sc0, False) (pay @ type_code TEnd # rest) =
        Inr ((mc_palettes_scan reg unknown bp es sc, True), type_code TEnd # rest)"
      using inner [OF c(1), of "type_code TEnd # rest"] by (simp add: mc_palette_field_def c(2) del: type_code.simps)
  qed
  also have "\<dots> = Inr ((mc_palettes_scan reg unknown bp es sc, True), rest)"
    by (subst read_fields_eq [OF shrinks_mc_palette_field]) (simp add: read_type_written del: type_code.simps)
  finally show ?thesis by (simp add: mc_read_palette_def b(2))
qed

section \<open>The file\<close>

lemma read_fields_open:
  assumes shr: "\<And>key ty s. shrinks (body key ty s)"
    and h: "write_open ty name = Inr h" and ty: "ty \<noteq> TEnd"
    and body: "body name ty s bs = Inr (s', rest)"
  shows "read_fields Little body s (h @ bs) = read_fields Little body s' rest"
proof -
  obtain k where k: "write_string Little name = Inr k" "h = type_code ty # k"
    using h by (auto simp: write_open_def and_then_eq_Inr_iff)
  show ?thesis
    using ty body
    by (subst read_fields_eq [OF shr]) (simp add: k(2) read_type_written read_string_written [OF k(1)] del: type_code.simps)
qed

lemma int_list_written:
  assumes "write_payload Little (NList TInt (map int_tag ks)) = Inr pay"
  shows "pay = type_code TInt # num_bytes Little (word_of_nat (length ks) :: 32 word) @
      concat (map (\<lambda>k. num_bytes Little (word_of_int k :: 32 word)) ks)" "int (length ks) \<le> INT32_MAX"
proof -
  have each: "append_each (\<lambda>t. if nbt_type t \<noteq> TInt then Inl ListTypeMismatch else write_payload Little t) (map int_tag ks) =
      Inr (concat (map (\<lambda>k. num_bytes Little (word_of_int k :: 32 word)) ks))" for ks
    by (induction ks) (simp_all add: int_tag_def)
  show "pay = type_code TInt # num_bytes Little (word_of_nat (length ks) :: 32 word) @
      concat (map (\<lambda>k. num_bytes Little (word_of_int k :: 32 word)) ks)" "int (length ks) \<le> INT32_MAX"
    using assms each [of ks] by (auto simp: and_then_eq_Inr_iff write_length_def split: if_splits)
qed

lemma mc_size_read:
  assumes "size_in_range sz" "0 < width sz" "0 < height sz" "0 < len sz"
    and "write_payload Little (NList TInt [int_tag (width sz), int_tag (height sz), int_tag (len sz)]) = Inr pay"
  shows "mc_read_size (pay @ rest) = Inr (sz, rest)"
proof -
  let ?ks = "[width sz, height sz, len sz]"
  have w: "write_payload Little (NList TInt (map int_tag ?ks)) = Inr pay" using assms(5) by simp
  have "list_all in_s32 ?ks" using assms(1) by (simp add: size_in_range_def)
  note r = mc_integers_written [OF this, of rest]
  have "length ?ks = 3" by simp
  note r = r [unfolded this]
  have e: "pay @ rest = type_code TInt # num_bytes Little (3 :: 32 word) @
      concat (map (\<lambda>k. num_bytes Little (word_of_int k :: 32 word)) ?ks) @ rest"
    unfolding int_list_written(1) [OF w] by simp
  have n: "read_num Little (num_bytes Little (3 :: 32 word) @ xs) = Inr (3 :: 32 word, xs)" for xs
    by (rule read_num_written) simp
  have u: "unat (3 :: 32 word) = 3" "sint (3 :: 32 word) = 3" by simp_all
  show ?thesis
    unfolding mc_read_size_def e using assms(2-4) r
    by (simp add: read_type_written n u is_integer_type_def del: type_code.simps list.map concat.simps read_elems.simps)
qed

lemma mc_skip_int: "mc_skip TInt s (num_bytes Little (w :: 32 word) @ rest) = Inr (s, rest)"
proof -
  obtain r where r: "length (num_bytes Little w @ rest) = Suc r" by simp
  show ?thesis unfolding mc_skip_def r by (simp add: skip_bytes_def read_bytes_append)
qed

lemma mc_skip_int_list:
  assumes "write_payload Little (NList TInt (map int_tag ks)) = Inr pay"
  shows "mc_skip TList s (pay @ rest) = Inr (s, rest)"
proof -
  note w = int_list_written [OF assms]
  have len: "read_length Little (num_bytes Little (word_of_nat (length ks) :: 32 word) @ xs) = Inr (length ks, xs)" for xs
    by (rule read_length_written) (use w(2) in \<open>simp add: write_length_def\<close>)
  have each: "read_elems (length ks) (skip_payload (Suc r) False Little TInt)
      (concat (map (\<lambda>k. num_bytes Little (word_of_int k :: 32 word)) ks) @ rest) = Inr (map (\<lambda>k. ()) ks, rest)" for ks r
    by (induction ks) (simp_all add: skip_bytes_def read_bytes_append)
  obtain r where r: "length (pay @ rest) = Suc r" by (simp add: w(1))
  show ?thesis
    unfolding mc_skip_def r using each [where r = r and ks = ks]
    by (simp add: w(1) read_type_written len del: type_code.simps)
qed

lemma mc_skip_empty_list:
  assumes "write_payload Little (NList TCompound []) = Inr pay"
  shows "mc_skip TList s (pay @ rest) = Inr (s, rest)"
proof -
  have w: "pay = type_code TCompound # num_bytes Little (word_of_nat 0 :: 32 word)"
    using assms by (simp add: write_length_def INT32_MAX_def)
  have len: "read_length Little (num_bytes Little (word_of_nat 0 :: 32 word) @ xs) = Inr (0, xs)" for xs
    by (rule read_length_written) (simp add: write_length_def INT32_MAX_def)
  obtain r where r: "length (pay @ rest) = Suc r" by (simp add: w)
  show ?thesis
    unfolding mc_skip_def r
    by (simp add: w read_type_written len [simplified] del: type_code.simps)
qed

definition mc_scan_of ::
  "registry \<Rightarrow> runtime_id \<Rightarrow> wsize \<Rightarrow> int list \<Rightarrow> int list \<Rightarrow> nbt list \<Rightarrow> (int \<times> nbt_payload) list \<Rightarrow> mc_scan" where
  "mc_scan_of reg unknown sz ks0 ks1 bp es =
    \<lparr>scan_dims = Some sz, scan_indices = (fold index_push ks0 (Compact []), fold index_push ks1 (Compact [])),
     mc_scan_palette = map (mc_tag_block reg unknown) bp, scan_entities = es, has_structure = True, has_indices = True,
     has_palette = True, has_default_palette = True, has_block_palette = True\<rparr>"

lemma mc_indices_read:
  assumes "int (length ks0) = volume sz" "int (length ks1) = volume sz" "volume sz \<le> INT32_MAX"
    "list_all in_s32 ks0" "list_all in_s32 ks1"
  shows "mc_read_indices old (type_code TList # num_bytes Little (2 :: 32 word) @ mc_layer_bytes sz ks0 @
      mc_layer_bytes sz ks1 @ rest) =
    Inr ((fold index_push ks0 (index_array_clear (fst old)), fold index_push ks1 (index_array_clear (snd old))), rest)"
  using mc_layer_written [OF assms(1,3,4)] mc_layer_written [OF assms(2,3,5)]
  by (simp add: mc_read_indices_def read_type_written read_num_written del: type_code.simps)

lemma map_sum_Inr: "map_sum f id r = Inr x \<longleftrightarrow> r = Inr x"
  by (cases r) simp_all

text \<open>The reader on the stream of the writer: one step for each field.\<close>

lemma mc_stream_read:
  assumes pos: "size_in_range sz" "0 < width sz" "0 < height sz" "0 < len sz" and vol: "volume sz \<le> INT32_MAX"
    and head: "mc_header sz = Inr head"
    and ks: "int (length ks0) = volume sz" "int (length ks1) = volume sz" "list_all in_s32 ks0" "list_all in_s32 ks1"
    and ents: "write_tag Little ''entities'' (NList TCompound []) = Inr ents"
    and pal: "write_tag Little ''palette'' (NCompound (mc_palettes bp pd)) = Inr pal"
    and bp: "\<And>t. t \<in> set bp \<Longrightarrow> \<exists>kvs. t = NCompound kvs \<and> fits MAX_DEPTH t"
    and pd: "list_all2 (\<lambda>kv (i, payload). mc_entity_entry kv i payload) pd es" "distinct (map fst es)"
  obtains bs2 where "read_type False (head @ mc_layer_bytes sz ks0 @ mc_layer_bytes sz ks1 @ ents @ pal @
      [type_code TEnd, type_code TEnd]) = Inr (TCompound, num_bytes Little (0 :: 16 word) @ bs2)"
    "read_fields Little (mc_root_field reg unknown) empty_mc_scan bs2 =
      Inr (mc_scan_of reg unknown sz ks0 ks1 bp es, [])"
proof -
  let ?z = "NList TInt [int_tag 0, int_tag 0, int_tag 0]"
  let ?s = "NList TInt [int_tag (width sz), int_tag (height sz), int_tag (len sz)]"
  obtain a b c d f g where h: "write_open TCompound '''' = Inr a"
    "write_tag Little ''format_version'' (int_tag 1) = Inr b" "write_tag Little ''size'' ?s = Inr c"
    "write_tag Little ''structure_world_origin'' ?z = Inr d"
    "write_open TCompound ''structure'' = Inr f" "write_open TList ''block_indices'' = Inr g"
    and e: "head = a @ b @ c @ d @ f @ g @ type_code TList # num_bytes Little (2 :: 32 word)"
    using head unfolding mc_header_def and_then_eq_Inr_iff by (elim exE conjE) (simp only: sum.inject that)
  let ?tail = "ents @ pal @ [type_code TEnd, type_code TEnd]"
  let ?indices = "type_code TList # num_bytes Little (2 :: 32 word) @ mc_layer_bytes sz ks0 @ mc_layer_bytes sz ks1 @ ?tail"
  let ?bs2 = "b @ c @ d @ f @ g @ ?indices"
  let ?s1 = "empty_mc_scan\<lparr>scan_dims := Some sz\<rparr>"
  let ?s2 = "?s1\<lparr>scan_indices := (fold index_push ks0 (Compact []), fold index_push ks1 (Compact [])), has_indices := True\<rparr>"
  let ?s3 = "mc_palettes_scan reg unknown bp es ?s2"
  let ?root = "read_fields Little (mc_root_field reg unknown)"
  let ?struct = "read_fields Little (mc_structure_field reg unknown)"
  note root = shrinks_mc_root_field [where reg = reg and unknown = unknown]
  note struct = shrinks_mc_structure_field [where reg = reg and unknown = unknown]
  have "?struct ?s1 (g @ ?indices) = ?struct ?s2 ?tail"
    by (rule read_fields_open [OF struct h(6)])
      (simp_all add: mc_structure_field_def mc_indices_read [OF ks(1,2) vol ks(3,4)] empty_mc_scan_def del: type_code.simps)
  also have "\<dots> = ?struct ?s2 (pal @ [type_code TEnd, type_code TEnd])"
    by (rule read_fields_step [OF struct ents])
      (simp add: mc_structure_field_def mc_skip_empty_list del: write_payload.simps type_code.simps)
  also have "\<dots> = ?struct ?s3 [type_code TEnd, type_code TEnd]"
    by (rule read_fields_step [OF struct pal])
      (simp add: mc_structure_field_def mc_palettes_read [OF _ bp pd] del: write_payload.simps type_code.simps)
  also have "\<dots> = Inr (?s3, [type_code TEnd])"
    by (subst read_fields_eq [OF struct]) (simp add: read_type_written del: type_code.simps)
  finally have inner: "?struct ?s1 (g @ ?indices) = Inr (?s3, [type_code TEnd])" .
  have "?root empty_mc_scan ?bs2 = ?root empty_mc_scan (c @ d @ f @ g @ ?indices)"
    by (rule read_fields_step [OF root h(2)]) (auto simp: mc_root_field_def int_tag_def mc_skip_int)
  also have "\<dots> = ?root ?s1 (d @ f @ g @ ?indices)"
    by (rule read_fields_step [OF root h(3)])
      (simp add: mc_root_field_def mc_size_read [OF pos] del: write_payload.simps type_code.simps)
  also have "\<dots> = ?root ?s1 (f @ g @ ?indices)"
    by (rule read_fields_step [OF root h(4)])
      (simp add: mc_root_field_def mc_skip_int_list [where ks = "[0, 0, 0]", simplified list.map] del: write_payload.simps type_code.simps)
  also have "\<dots> = ?root (?s3\<lparr>has_structure := True\<rparr>) [type_code TEnd]"
    by (rule read_fields_open [OF root h(5)])
      (use inner in \<open>simp_all add: mc_root_field_def del: type_code.simps\<close>)
  also have "\<dots> = Inr (mc_scan_of reg unknown sz ks0 ks1 bp es, [])"
    by (subst read_fields_eq [OF root])
      (simp add: read_type_written mc_scan_of_def mc_palettes_scan_def empty_mc_scan_def del: type_code.simps)
  finally have r: "?root empty_mc_scan ?bs2 = Inr (mc_scan_of reg unknown sz ks0 ks1 bp es, [])" .
  have "a = type_code TCompound # num_bytes Little (0 :: 16 word)"
    using h(1) by (simp add: write_open_def write_string_def)
  then have t: "read_type False (head @ mc_layer_bytes sz ks0 @ mc_layer_bytes sz ks1 @ ?tail) =
      Inr (TCompound, num_bytes Little (0 :: 16 word) @ ?bs2)"
    unfolding e by (simp only: append_Cons append_assoc read_type_def list.case type_of_code_code option.case) simp
  show thesis by (rule that [OF t r])
qed

section \<open>Written and read\<close>

text \<open>The block that is read in the place of a block: the entry of its state, resolved again.\<close>

definition mc_reread :: "registry \<Rightarrow> registry \<Rightarrow> runtime_id \<Rightarrow> runtime_id \<Rightarrow> runtime_id" where
  "mc_reread reg reg' unknown rid =
    (case mc_palette_entry (mc_palette_state reg rid) of
       Inr e \<Rightarrow> mc_resolve reg' unknown (mc_entry_state e)
     | Inl err \<Rightarrow> unknown)"

definition nbt_entities :: "nbt_chunk_map \<Rightarrow> (chunk_pos \<times> block_entity) list" where
  "nbt_entities nbt = concat (map (\<lambda>kv. map (Pair (fst kv)) (snd kv)) nbt)"

lemma mc_block_good:
  assumes bp: "mc_block_palette palette = Inr ts" and pal: "mc_palette s = map (mc_tag_block reg' unknown) ts"
    and ix: "index_values (if second then snd (mc_layers s) else fst (mc_layers s)) = ks" and sz: "mc_original_size s = sz"
    and good: "list_all2 (index_good reg chunks second palette) (mc_grid_positions sz) ks" and p: "\<not> outside sz p"
  shows "mc_block second s p =
    (let rid = layer_block_at second chunks (air_runtime_id reg) (pos_x p) (pos_y p) (pos_z p)
     in if second \<and> rid = air_runtime_id reg then None else Some (mc_reread reg reg' unknown rid))"
proof -
  let ?i = "nat (mc_grid_index sz p)"
  let ?rid = "layer_block_at second chunks (air_runtime_id reg) (pos_x p) (pos_y p) (pos_z p)"
  let ?arr = "if second then snd (mc_layers s) else fst (mc_layers s)"
  have len: "length ks = length (mc_grid_positions sz)" using good by (simp add: list_all2_lengthD)
  have i: "?i < length ks" using nth_mc_positions(1) [OF p] by (simp add: len)
  then have at: "index_at ?arr ?i = ks ! ?i" using index_at_values [of ?i ?arr] ix by (simp add: index_size_values)
  have g: "index_good reg chunks second palette p (ks ! ?i)"
    using list_all2_nthD [OF good, of ?i] nth_mc_positions [OF p] by simp
  show ?thesis
  proof (cases "second \<and> ?rid = air_runtime_id reg")
    case True
    have "ks ! ?i = - 1" using g unfolding index_good_def Let_def if_P [OF True] .
    then show ?thesis unfolding mc_block_def sz Let_def at if_P [OF True] by simp
  next
    case False
    then obtain j where j: "j < length palette" "ks ! ?i = int j" "palette ! j = mc_palette_state reg ?rid"
      using g unfolding index_good_def Let_def if_not_P [OF False] by blast
    obtain e where e: "mc_palette_entry (palette ! j) = Inr e" "ts ! j = NCompound e" "length ts = length palette"
      using bp j(1) unfolding mc_block_palette_iff list_all2_conv_all_nth by auto
    then have "mc_palette s ! j = mc_reread reg reg' unknown ?rid" "j < length (mc_palette s)"
      using j by (simp_all add: pal mc_tag_block_def mc_tag_fields_def mc_reread_def)
    then show ?thesis unfolding mc_block_def sz Let_def at if_not_P [OF False] using j(2) by simp
  qed
qed

lemma indices_good_s32:
  assumes "list_all2 (index_good reg chunks second palette) ps ks" "int (length palette) \<le> INT32_MAX"
  shows "list_all in_s32 ks"
  using assms by (induction rule: list_all2_induct) (auto intro: index_good_s32)

lemma mc_block_palette_tags:
  assumes bp: "mc_block_palette sts = Inr ts" and mem: "t \<in> set ts"
  shows "\<exists>kvs. t = NCompound kvs \<and> fits MAX_DEPTH t"
proof -
  have "MAX_DEPTH = Suc (Suc (Suc 1021))" by (simp add: MAX_DEPTH_def)
  then obtain r where r: "MAX_DEPTH = Suc (Suc (Suc r))" by blast
  obtain i where i: "i < length ts" "t = ts ! i" using mem by (metis in_set_conv_nth)
  obtain e where "mc_palette_entry (sts ! i) = Inr e" "ts ! i = NCompound e"
    using bp i(1) unfolding mc_block_palette_iff list_all2_conv_all_nth by auto
  then show ?thesis using mc_palette_entry_fits [of "sts ! i" e r] by (simp add: i(2) r del: fits.simps)
qed

text \<open>The parts of a file that was written.\<close>

lemma mc_palettes_writtenD:
  assumes w: "write_tag Little ''palette'' (NCompound (mc_palettes bp pd)) = Inr pal"
  shows "int (length bp) \<le> INT32_MAX" "\<exists>pay. write_payload Little (NCompound pd) = Inr pay"
proof -
  obtain pay where pay: "write_payload Little (NCompound (mc_palettes bp pd)) = Inr pay"
    using write_tag_payload [OF w] by blast
  obtain pay' where "write_payload Little (NCompound [(''block_palette'', NList TCompound bp),
      (''block_position_data'', NCompound pd)]) = Inr pay'"
    using write_compound_member [OF pay [unfolded mc_palettes_eq]] by fastforce
  from write_compound_member [OF this, of "''block_palette''" "NList TCompound bp"]
    write_compound_member [OF this, of "''block_position_data''" "NCompound pd"]
  obtain p1 where "write_payload Little (NList TCompound bp) = Inr p1"
    and "\<exists>pay. write_payload Little (NCompound pd) = Inr pay" by auto
  then show "\<exists>pay. write_payload Little (NCompound pd) = Inr pay" "int (length bp) \<le> INT32_MAX"
    unfolding write_payload.simps and_then_eq_Inr_iff by (auto simp: write_length_def split: if_splits)
qed

lemma mc_fileD:
  assumes written: "mc_file reg sz chunks nbt = Inr b"
    and pos: "size_in_range sz" "0 < width sz" "0 < height sz" "0 < len sz" and vol: "volume sz \<le> INT32_MAX"
  obtains head ents palette bp pd pal ks0 ks1 where "mc_header sz = Inr head"
    "write_tag Little ''entities'' (NList TCompound []) = Inr ents" "mc_block_palette palette = Inr bp"
    "fold_result (mc_put_entity sz) (nbt_entities nbt) [] = Inr pd"
    "write_tag Little ''palette'' (NCompound (mc_palettes bp pd)) = Inr pal"
    "b = head @ mc_layer_bytes sz ks0 @ mc_layer_bytes sz ks1 @ ents @ pal @ [type_code TEnd, type_code TEnd]"
    "\<forall>second. list_all2 (index_good reg chunks second palette) (mc_grid_positions sz) (if second then ks1 else ks0)"
    "int (length ks0) = volume sz" "int (length ks1) = volume sz" "list_all in_s32 ks0" "list_all in_s32 ks1"
proof -
  obtain sc1 ks0 where l0: "mc_layer_indices reg chunks sz False (snd (mc_palette_index reg (air_runtime_id reg) ([], []))) =
      (sc1, ks0)" by (rule prod.exhaust)
  obtain sc2 ks1 where l1: "mc_layer_indices reg chunks sz True sc1 = (sc2, ks1)" by (rule prod.exhaust)
  obtain head ents bp pd pal where w: "mc_header sz = Inr head"
    "write_tag Little ''entities'' (NList TCompound []) = Inr ents" "mc_block_palette (snd sc2) = Inr bp"
    "mc_position_data sz nbt = Inr pd" "write_tag Little ''palette'' (NCompound (mc_palettes bp pd)) = Inr pal"
    and b: "b = head @ mc_layer_bytes sz ks0 @ mc_layer_bytes sz ks1 @ ents @ pal @ [type_code TEnd, type_code TEnd]"
    using written unfolding mc_file_def Let_def l0 l1 prod.case and_then_eq_Inr_iff map_sum_Inr
    by (elim exE conjE) (simp only: sum.inject that)
  have "length bp = length (snd sc2)"
    using w(3) unfolding mc_block_palette_iff by (simp add: list_all2_lengthD)
  then have np: "int (length (snd sc2)) \<le> INT32_MAX" using mc_palettes_writtenD(1) [OF w(5)] by simp
  note good = mc_indices_ok [OF l0 l1 np]
  show thesis
  proof (rule that [OF w(1-3) _ w(5) b])
    show "fold_result (mc_put_entity sz) (nbt_entities nbt) [] = Inr pd"
      using w(4) by (simp add: mc_position_data_def nbt_entities_def)
    show "\<forall>second. list_all2 (index_good reg chunks second (snd sc2)) (mc_grid_positions sz) (if second then ks1 else ks0)"
      using good by simp
    show "int (length ks0) = volume sz" "int (length ks1) = volume sz"
      using good [THEN list_all2_lengthD] length_mc_positions_volume(1) [OF pos vol] by simp_all
    show "list_all in_s32 ks0" "list_all in_s32 ks1"
      using good [THEN indices_good_s32 [OF _ np]] by simp_all
  qed
qed

lemma mc_scan_built:
  assumes pos: "size_in_range sz" and ks: "int (length ks0) = volume sz" "int (length ks1) = volume sz"
    and vol: "volume sz \<le> INT32_MAX"
  obtains s where "mc_build air (mc_scan_of reg unknown sz ks0 ks1 bp es) = Inr s" "mc_size s = sz"
    "mc_original_size s = sz" "mc_palette s = map (mc_tag_block reg unknown) bp" "mc_entities s = es"
    "\<forall>second. index_values (if second then snd (mc_layers s) else fst (mc_layers s)) = (if second then ks1 else ks0)"
proof -
  let ?layers = "(fold index_push ks0 (Compact []), fold index_push ks1 (Compact []))"
  let ?pal = "map (mc_tag_block reg unknown) bp"
  obtain s where s: "s = mc_set_offset (BlockPos 0 0 0)
    \<lparr>mc_size = sz, mc_original_size = sz, mc_offset = BlockPos 0 0 0, mc_layers = ?layers, mc_palette = ?pal,
     mc_entities = es, mc_non_air = mc_count air ?pal (fst ?layers)\<rparr>" by blast
  have "u64 (volume sz) = volume sz" using vol ks(1) by (simp add: u64_def range_simps)
  then have "index_size (fold index_push ks0 (Compact [])) = nat (u64 (volume sz))"
    "index_size (fold index_push ks1 (Compact [])) = nat (u64 (volume sz))"
    using ks by (simp_all add: index_size_values index_values_pushes)
  then have build: "mc_build air (mc_scan_of reg unknown sz ks0 ks1 bp es) = Inr s"
    by (simp add: mc_build_def mc_scan_of_def Let_def s)
  have off: "mc_size s = sz" "mc_original_size s = sz" "mc_palette s = ?pal" "mc_layers s = ?layers" "mc_entities s = es"
    using pos by (simp_all add: s mc_set_offset_def offset_size_def size_in_range_def wrap_simps)
  show thesis
    by (rule that [OF build off(1-3,5)]) (simp add: off index_values_pushes)
qed

lemma mc_file_read:
  assumes written: "mc_file reg sz chunks nbt = Inr b"
    and pos: "size_in_range sz" "0 < width sz" "0 < height sz" "0 < len sz" and vol: "volume sz \<le> INT32_MAX"
    and deep: "\<forall>ent \<in> set (nbt_entities nbt). mc_depth_ok (entity_payload (snd ent))"
    and unknown: "find_unknown reg = (unknown, reg')"
  shows "\<exists>s. mcstructure_read b reg = (Inr s, reg') \<and> mc_size s = sz \<and>
    (\<forall>second p. \<not> outside sz p \<longrightarrow> mc_block second s p =
      (let rid = layer_block_at second chunks (air_runtime_id reg) (pos_x p) (pos_y p) (pos_z p)
       in if second \<and> rid = air_runtime_id reg then None else Some (mc_reread reg reg' unknown rid))) \<and>
    distinct (map fst (mc_entities s)) \<and>
    (\<forall>e \<in> set (mc_entities s). \<exists>ent \<in> set (nbt_entities nbt). mc_kept sz ent \<and>
      e = (mc_grid_index sz (mc_place ent), mc_moved_payload ent)) \<and>
    (\<forall>ent \<in> set (nbt_entities nbt). mc_kept sz ent \<longrightarrow>
      mc_grid_index sz (mc_place ent) \<in> fst ` set (mc_entities s))"
proof -
  have small: "mc_small sz" using pos vol length_mc_positions_volume(2) [OF pos vol] by (simp add: mc_small_def)
  obtain head ents palette bp pd pal ks0 ks1 where w: "mc_header sz = Inr head"
    "write_tag Little ''entities'' (NList TCompound []) = Inr ents" "mc_block_palette palette = Inr bp"
    "fold_result (mc_put_entity sz) (nbt_entities nbt) [] = Inr pd"
    "write_tag Little ''palette'' (NCompound (mc_palettes bp pd)) = Inr pal"
    and b: "b = head @ mc_layer_bytes sz ks0 @ mc_layer_bytes sz ks1 @ ents @ pal @ [type_code TEnd, type_code TEnd]"
    and good: "\<forall>second. list_all2 (index_good reg chunks second palette) (mc_grid_positions sz) (if second then ks1 else ks0)"
    and ks: "int (length ks0) = volume sz" "int (length ks1) = volume sz" "list_all in_s32 ks0" "list_all in_s32 ks1"
    by (rule mc_fileD [OF written pos vol])
  obtain pay where "write_payload Little (NCompound pd) = Inr pay" using mc_palettes_writtenD(2) [OF w(5)] by blast
  then obtain es where es: "list_all2 (\<lambda>kv (i, payload). mc_entity_entry kv i payload) pd es" "distinct (map fst es)"
    "\<And>e. e \<in> set es \<Longrightarrow> \<exists>ent \<in> set (nbt_entities nbt). mc_kept sz ent \<and>
      e = (mc_grid_index sz (mc_place ent), mc_moved_payload ent)"
    "\<And>ent. ent \<in> set (nbt_entities nbt) \<Longrightarrow> mc_kept sz ent \<Longrightarrow> mc_grid_index sz (mc_place ent) \<in> fst ` set es"
    using mc_entities_read [OF small w(4)] deep by blast
  obtain bs2 where t: "read_type False b = Inr (TCompound, num_bytes Little (0 :: 16 word) @ bs2)"
    and fields: "read_fields Little (mc_root_field reg' unknown) empty_mc_scan bs2 =
      Inr (mc_scan_of reg' unknown sz ks0 ks1 bp es, [])"
    unfolding b by (rule mc_stream_read [OF pos vol w(1) ks w(2,5) mc_block_palette_tags [OF w(3)] es(1,2), of reg' unknown])
  have "write_string Little '''' = Inr (num_bytes Little (0 :: 16 word))" by (simp add: write_string_def)
  from read_string_written [OF this] have name: "read_string Little (num_bytes Little (0 :: 16 word) @ bs2) = Inr ('''', bs2)" .
  obtain s where s: "mc_build (air_runtime_id reg') (mc_scan_of reg' unknown sz ks0 ks1 bp es) = Inr s" "mc_size s = sz"
    "mc_original_size s = sz" "mc_palette s = map (mc_tag_block reg' unknown) bp" "mc_entities s = es"
    "\<forall>second. index_values (if second then snd (mc_layers s) else fst (mc_layers s)) = (if second then ks1 else ks0)"
    by (rule mc_scan_built [where air = "air_runtime_id reg'" and reg = reg' and unknown = unknown and bp = bp
        and es = es, OF pos(1) ks(1,2) vol])
  have "mcstructure_read b reg = (Inr s, reg')"
    by (simp add: mcstructure_read_def t name unknown fields s(1))
  then show ?thesis
    using mc_block_good [OF w(3) s(4) s(6) [rule_format] s(3) good [rule_format]] es(2-4) s(2,5) by (intro exI [of _ s]) simp
qed

section \<open>Blocks that come back\<close>

definition mc_faithful :: "registry \<Rightarrow> registry \<Rightarrow> runtime_id \<Rightarrow> bool" where
  "mc_faithful reg reg' rid \<longleftrightarrow>
    (let st = mc_palette_state reg rid
     in distinct (map prop_name (states st)) \<and> list_all canonical_value (states st) \<and>
        (\<exists>e. mc_palette_entry st = Inr e) \<and>
        (if state_name st = ''minecraft:air'' \<and> states st = [] then rid = air_runtime_id reg'
         else find_runtime reg' (state_name st) (states st) 0 = Some rid))"

lemma state_property_canonical:
  assumes "canonical_value p" shows "state_property (prop_name p) (tag_of p) = Some p"
  using assms
  by (cases "prop_type p") (auto simp: canonical_value_def tag_of_def property_tag_def range_simps
      signed_of_int signed_take_bit_int_eq_self split: option.splits intro: block_property.equality)

lemma map_filter_Some: "(\<And>x. x \<in> set xs \<Longrightarrow> f x = Some (g x)) \<Longrightarrow> List.map_filter f xs = map g xs"
  by (induction xs) (simp_all add: List.map_filter_simps)

lemma mc_entry_state_eq:
  assumes e: "mc_palette_entry st = Inr e" and d: "distinct (map prop_name (states st))"
    and c: "list_all canonical_value (states st)"
  shows "state_name (mc_entry_state e) = state_name st"
    "states (mc_entry_state e) = sort_key prop_name (states st)"
proof -
  obtain kvs where k: "fold_result put_property (states st) [] = Inr kvs"
    and f: "e = fields_of [(''name'', NString (state_name st)), (''states'', NCompound kvs),
      (''version'', int_tag (state_version st))]"
    using e by (auto simp: mc_palette_entry_def and_then_eq_Inr_iff)
  show "state_name (mc_entry_state e) = state_name st" by (simp add: mc_entry_state_def f omap_find_fields_of)
  have "List.map_filter (\<lambda>kv. state_property (fst kv) (snd kv)) (map (\<lambda>p. (prop_name p, tag_of p)) (sort_key prop_name (states st))) =
      List.map_filter (\<lambda>p. state_property (prop_name p) (tag_of p)) (sort_key prop_name (states st))"
    by (simp add: List.map_filter_def filter_map comp_def)
  also have "\<dots> = map id (sort_key prop_name (states st))"
    by (rule map_filter_Some) (use c in \<open>simp add: list_all_iff state_property_canonical\<close>)
  finally show "states (mc_entry_state e) = sort_key prop_name (states st)"
    by (simp add: mc_entry_state_def f omap_find_fields_of put_properties_sorted [OF k d])
qed

lemma keys_of_sorted:
  assumes d: "distinct (map prop_name ps)"
  shows "key_for name (sort_key prop_name ps) version = key_for name ps version"
    "state_key_for name (sort_key prop_name ps) = state_key_for name ps"
proof -
  have eq: "sort_key k (sort_key prop_name ps) = sort_key k ps" if "inj_on k (set ps)" for k :: "block_property \<Rightarrow> 'k::linorder"
    using that by (intro sort_key_inj_key_eq) simp_all
  have inj: "inj_on prop_name (set ps)" using d by (simp add: distinct_map)
  have "inj_on (\<lambda>p. (prop_name p, prop_value p)) (set ps)"
    "inj_on (\<lambda>p. (prop_name p, value_type_index (prop_type p), prop_value p)) (set ps)"
    using inj by (auto simp: inj_on_def)
  note this [THEN eq]
  then show "key_for name (sort_key prop_name ps) version = key_for name ps version"
    "state_key_for name (sort_key prop_name ps) = state_key_for name ps"
    by (simp_all add: key_for_def state_key_for_def)
qed

lemma mc_known_block_reread:
  assumes "mc_faithful reg reg' rid"
  shows "mc_reread reg reg' unknown rid = rid"
proof -
  let ?st = "mc_palette_state reg rid"
  obtain e where e: "mc_palette_entry ?st = Inr e" and d: "distinct (map prop_name (states ?st))"
    and c: "list_all canonical_value (states ?st)"
    and f: "if state_name ?st = ''minecraft:air'' \<and> states ?st = [] then rid = air_runtime_id reg'
         else find_runtime reg' (state_name ?st) (states ?st) 0 = Some rid"
    using assms unfolding mc_faithful_def Let_def by blast
  have "find_runtime reg' (state_name ?st) (sort_key prop_name (states ?st)) 0 =
      find_runtime reg' (state_name ?st) (states ?st) 0"
    unfolding find_runtime_def keys_of_sorted(1) [OF d] keys_of_sorted(2) [OF d] sort_key_empty ..
  then show ?thesis
    using f by (auto simp: mc_reread_def e mc_resolve_def mc_entry_state_eq [OF e d c] sort_key_empty split: if_splits)
qed

section \<open>Block entities that come back\<close>

lemma mc_entity_pos_index:
  assumes p: "\<not> outside sz p"
  shows "mc_entity_pos sz (nat (mc_grid_index sz p)) = p"
proof -
  obtain x y z where e: "p = BlockPos x y z" by (cases p)
  have b: "0 \<le> x" "x < width sz" "0 \<le> y" "y < height sz" "0 \<le> z" "z < len sz"
    using p by (auto simp: outside_def e)
  let ?x = "nat x" and ?y = "nat y" and ?z = "nat z" and ?h = "nat (height sz)" and ?l = "nat (len sz)"
  have i: "nat (mc_grid_index sz p) = (?x * ?h + ?y) * ?l + ?z"
    using b by (simp add: mc_grid_index_def e nat_add_distrib nat_mult_distrib)
  have l: "?z < ?l" "?y < ?h" using b by auto
  have d: "nat (mc_grid_index sz p) div ?l = ?x * ?h + ?y" "nat (mc_grid_index sz p) mod ?l = ?z"
    unfolding i using l by simp_all
  have "nat (mc_grid_index sz p) div (?h * ?l) = ?x"
    using d(1) l by (simp add: div_mult2_eq [symmetric] mult.commute [of ?h]) (simp add: div_mult2_eq d(1))
  then show ?thesis using b d l by (simp add: mc_entity_pos_def Let_def e)
qed

definition entities_local :: "nbt_chunk_map \<Rightarrow> bool" where
  "entities_local nbt \<longleftrightarrow> list_all (\<lambda>(cp, be).
    0 \<le> pos_x (entity_pos be) \<and> pos_x (entity_pos be) < 16 \<and> 0 \<le> pos_z (entity_pos be) \<and> pos_z (entity_pos be) < 16 \<and>
    in_s32 (chunk_x cp * 16) \<and> in_s32 (chunk_x cp * 16 + 15) \<and> in_s32 (chunk_z cp * 16) \<and> in_s32 (chunk_z cp * 16 + 15) \<and>
    in_s32 (pos_y (entity_pos be) + 64)) (nbt_entities nbt)"

lemma mc_place_local:
  assumes "entities_local nbt" "ent \<in> set (nbt_entities nbt)"
  shows "entity_of (BlockPos 0 0 0) (mc_place ent, b) = \<lparr>entity_pos = entity_pos (snd ent), entity_payload = b\<rparr>"
    "in_chunk (BlockPos 0 0 0) cp (mc_place ent) \<longleftrightarrow> fst ent = cp"
proof -
  obtain cp' be where e: "ent = (cp', be)" by force
  have l: "0 \<le> pos_x (entity_pos be)" "pos_x (entity_pos be) < 16" "0 \<le> pos_z (entity_pos be)" "pos_z (entity_pos be) < 16"
    "in_s32 (chunk_x cp' * 16)" "in_s32 (chunk_x cp' * 16 + 15)" "in_s32 (chunk_z cp' * 16)" "in_s32 (chunk_z cp' * 16 + 15)"
    "in_s32 (pos_y (entity_pos be) + 64)"
    using assms by (auto simp: entities_local_def list_all_iff e)
  then have "in_s32 (chunk_x cp' * 16 + pos_x (entity_pos be))" "in_s32 (chunk_z cp' * 16 + pos_z (entity_pos be))"
    unfolding range_simps by linarith+
  with l have p: "mc_place ent = BlockPos (chunk_x cp' * 16 + pos_x (entity_pos be)) (pos_y (entity_pos be) + 64)
      (chunk_z cp' * 16 + pos_z (entity_pos be))"
    by (simp add: mc_place_def e kOverworldMinY_def s32_id)
  show "entity_of (BlockPos 0 0 0) (mc_place ent, b) = \<lparr>entity_pos = entity_pos (snd ent), entity_payload = b\<rparr>"
    using l by (cases "entity_pos be") (simp add: entity_of_def e p [unfolded e])
  show "in_chunk (BlockPos 0 0 0) cp (mc_place ent) \<longleftrightarrow> fst ent = cp"
    using l by (auto simp: in_chunk_def e p [unfolded e] intro: chunk_pos.expand)
qed

lemma fold_mc_deliver:
  assumes v: "mc_valid s" and "\<And>e. e \<in> set es \<Longrightarrow> 0 \<le> fst e \<and>
      fst e < width (mc_original_size s) * height (mc_original_size s) * len (mc_original_size s)"
  shows "fold (mc_deliver s) es m = fold (deliver_entity (mc_offset s))
    (map (\<lambda>e. (mc_entity_pos (mc_original_size s) (nat (fst e)), snd e)) es) m"
  using assms(2)
proof (induction es arbitrary: m)
  case (Cons e es)
  have "index_size (fst (mc_layers s)) =
      nat (width (mc_original_size s) * height (mc_original_size s) * len (mc_original_size s))"
    using v by (simp add: mc_valid_def Let_def)
  then have "mc_deliver s e m = deliver_entity (mc_offset s) (mc_entity_pos (mc_original_size s) (nat (fst e)), snd e) m"
    using Cons.prems [of e] by (auto simp: mc_deliver_def nat_less_eq_zless)
  with Cons show ?case by simp
qed simp

definition mc_moved_entity :: "chunk_pos \<times> block_entity \<Rightarrow> block_entity" where
  "mc_moved_entity ent = \<lparr>entity_pos = entity_pos (snd ent), entity_payload = mc_moved_payload ent\<rparr>"

text \<open>What is filed under the index of an entity is that entity.\<close>

lemma mc_filed_entities:
  assumes src: "\<And>e. e \<in> set es \<Longrightarrow> \<exists>ent \<in> set ents. mc_kept sz ent \<and>
      e = (mc_grid_index sz (mc_place ent), mc_moved_payload ent)"
    and tgt: "\<And>ent. ent \<in> set ents \<Longrightarrow> mc_kept sz ent \<Longrightarrow> mc_grid_index sz (mc_place ent) \<in> fst ` set es"
    and inj: "inj_on mc_place {ent \<in> set ents. mc_kept sz ent}"
  shows "(\<lambda>e. (mc_entity_pos sz (nat (fst e)), snd e)) ` set es =
    (\<lambda>ent. (mc_place ent, mc_moved_payload ent)) ` {ent \<in> set ents. mc_kept sz ent}"
proof (rule set_eqI, rule iffI)
  have pos: "mc_entity_pos sz (nat (mc_grid_index sz (mc_place ent))) = mc_place ent" if "mc_kept sz ent" for ent
    using that by (intro mc_entity_pos_index) (simp add: mc_kept_def)
  fix w
  show "w \<in> (\<lambda>ent. (mc_place ent, mc_moved_payload ent)) ` {ent \<in> set ents. mc_kept sz ent}"
    if "w \<in> (\<lambda>e. (mc_entity_pos sz (nat (fst e)), snd e)) ` set es"
    using that src pos by force
  assume "w \<in> (\<lambda>ent. (mc_place ent, mc_moved_payload ent)) ` {ent \<in> set ents. mc_kept sz ent}"
  then obtain ent where ent: "ent \<in> set ents" "mc_kept sz ent" "w = (mc_place ent, mc_moved_payload ent)" by blast
  then obtain e where e: "e \<in> set es" "fst e = mc_grid_index sz (mc_place ent)" using tgt by fastforce
  obtain ent' where ent': "ent' \<in> set ents" "mc_kept sz ent'" "e = (mc_grid_index sz (mc_place ent'), mc_moved_payload ent')"
    using src [OF e(1)] by blast
  have "mc_place ent' = mc_place ent"
    using e(2) ent'(3) pos [OF ent(2)] pos [OF ent'(2)] by simp
  then have "ent' = ent" using inj ent(1,2) ent'(1,2) by (simp add: inj_on_eq_iff)
  then show "w \<in> (\<lambda>e. (mc_entity_pos sz (nat (fst e)), snd e)) ` set es"
    using e(1) ent' ent pos [OF ent(2)] by (auto intro!: image_eqI [of _ _ e])
qed

lemma mc_entities_delivered:
  assumes read: "mcstructure_read b reg = (Inr s, reg')" and size: "mc_size s = sz"
    and d: "distinct (map fst (mc_entities s))"
    and src: "\<And>e. e \<in> set (mc_entities s) \<Longrightarrow> \<exists>ent \<in> set (nbt_entities nbt). mc_kept sz ent \<and>
      e = (mc_grid_index sz (mc_place ent), mc_moved_payload ent)"
    and tgt: "\<And>ent. ent \<in> set (nbt_entities nbt) \<Longrightarrow> mc_kept sz ent \<Longrightarrow>
      mc_grid_index sz (mc_place ent) \<in> fst ` set (mc_entities s)"
    and local: "entities_local nbt" and inj: "inj_on mc_place {ent \<in> set (nbt_entities nbt). mc_kept sz ent}"
    and cp: "cp \<in> set ps"
  shows "\<exists>l. map_of (mc_chunk_nbt s ps) cp = Some l \<and>
    set l = mc_moved_entity ` {ent \<in> set (nbt_entities nbt). mc_kept sz ent \<and> fst ent = cp}"
proof -
  obtain unknown sc where "scan_small sc" "mc_build (air_runtime_id reg') sc = Inr s"
    using mcstructure_readD [OF read] by metis
  note b = mc_buildD [OF this]
  have sz: "mc_original_size s = sz" using b(3) size by simp
  let ?kept = "{ent \<in> set (nbt_entities nbt). mc_kept sz ent}"
  let ?ws = "map (\<lambda>e. (mc_entity_pos sz (nat (fst e)), snd e)) (mc_entities s)"
  have range: "0 \<le> fst e \<and> fst e < width sz * height sz * len sz" if mem: "e \<in> set (mc_entities s)" for e
  proof -
    obtain ent where o: "\<not> outside sz (mc_place ent)" and e: "fst e = mc_grid_index sz (mc_place ent)"
      using src [OF mem] by (auto simp: mc_kept_def)
    have "0 \<le> mc_grid_index sz (mc_place ent)"
      using grid_index_bounds [of "turn_size sz" "turn (mc_place ent)"] o by (simp add: outside_turn grid_index_turn)
    then show ?thesis using mc_valid_index [OF b(1), unfolded sz, OF o] unfolding e by linarith
  qed
  have e: "mc_chunk_nbt s ps = fold (deliver_entity (BlockPos 0 0 0)) ?ws (emplace_all [] ps)"
    unfolding mc_chunk_nbt_def
    by (subst fold_mc_deliver [OF b(1)]) (use range in \<open>simp_all add: sz b(2)\<close>)
  have ws: "set ?ws = (\<lambda>ent. (mc_place ent, mc_moved_payload ent)) ` ?kept"
    unfolding set_map by (rule mc_filed_entities [OF src tgt inj])
  have shift: "shift_ok (BlockPos 0 0 0) (fst w)" if mem: "w \<in> set ?ws" for w
  proof -
    obtain ent where "ent \<in> ?kept" "w = (mc_place ent, mc_moved_payload ent)" using mem unfolding ws by blast
    then have "\<not> outside (mc_original_size s) (fst w)" by (simp add: mc_kept_def sz)
    then show ?thesis using b(1,2) by (simp add: mc_valid_def Let_def)
  qed
  have "map_of (mc_chunk_nbt s ps) cp =
      Some (map (entity_of (BlockPos 0 0 0)) (filter (\<lambda>w. in_chunk (BlockPos 0 0 0) cp (fst w)) ?ws))"
    unfolding e using cp by (subst fold_deliver_entity [OF shift]) (simp_all add: map_of_emplace_all)
  moreover have "{w \<in> set ?ws. in_chunk (BlockPos 0 0 0) cp (fst w)} =
      (\<lambda>ent. (mc_place ent, mc_moved_payload ent)) ` {ent \<in> ?kept. fst ent = cp}"
    unfolding ws using mc_place_local(2) [OF local] by auto
  then have "set (map (entity_of (BlockPos 0 0 0)) (filter (\<lambda>w. in_chunk (BlockPos 0 0 0) cp (fst w)) ?ws)) =
      mc_moved_entity ` {ent \<in> ?kept. fst ent = cp}"
    unfolding set_map set_filter by (simp only: image_image) (rule image_cong,
      simp_all add: mc_place_local(1) [OF local] mc_moved_entity_def)
  then have "set (map (entity_of (BlockPos 0 0 0)) (filter (\<lambda>w. in_chunk (BlockPos 0 0 0) cp (fst w)) ?ws)) =
      mc_moved_entity ` {ent \<in> set (nbt_entities nbt). mc_kept sz ent \<and> fst ent = cp}"
    by (simp only: mem_Collect_eq conj_assoc)
  ultimately show ?thesis by blast
qed

end
