(* ===== verification/WS_McRoundTrip.thy ===== *)
theory WS_McRoundTrip
  imports WS_McCopy
begin

text \<open>
  The properties of structure blocks: what any file that was read delivers, and what comes
  back of a structure that was written.
\<close>

lemma mc_writtenD:
  assumes "write_mcstructure sz fetch fetch_nbt reg budget max_in_flight = Inr b"
    "fetch (writer_positions sz) = Inr chunks" "fetch_nbt (writer_positions sz) = Inr nbt"
  shows "0 < width sz" "0 < height sz" "0 < len sz" "volume sz \<le> INT32_MAX" "mc_file reg sz chunks nbt = Inr b"
  using assms by (auto simp: write_mcstructure_def not_le not_less split: if_splits sum.splits)

section \<open>Properties\<close>

text \<open>
  C12: Whatever bytes a structure block is read from, a read that succeeds leaves one whose
  requests deliver exactly the requested chunks; each position of the box holds in either
  layer the palette entry its index selects, and air when the index is negative or past the
  palette, with air everywhere outside; a request for the first layer alone agrees with the
  full one, and the counter of blocks that are not air is the number of such positions of
  the first layer.
\<close>

theorem mcstructure_read_chunks:
  assumes "mcstructure_read bytes reg = (Inr s, reg')"
  shows "fst ` set (mc_chunks (air_runtime_id reg') s ps) = set ps \<and>
    fst ` set (mc_chunks_layer0 (air_runtime_id reg') s ps) = set ps \<and>
    (\<forall>second x y z. world_pos_ok x y z \<and> ChunkPos (x div 16) (z div 16) \<in> set ps \<longrightarrow>
      layer_block_at second (mc_chunks (air_runtime_id reg') s ps) (air_runtime_id reg') x y z =
        (if outside (mc_size s) (BlockPos x y z) then air_runtime_id reg'
         else case mc_block second s (BlockPos x y z) of None \<Rightarrow> air_runtime_id reg' | Some v \<Rightarrow> v) \<and>
      block_at (mc_chunks_layer0 (air_runtime_id reg') s ps) (air_runtime_id reg') x y z =
        layer_block_at False (mc_chunks (air_runtime_id reg') s ps) (air_runtime_id reg') x y z) \<and>
    mc_count_non_air s =
      card {p. \<not> outside (mc_size s) p \<and> mc_block False s p \<notin> {None, Some (air_runtime_id reg')}}"
  using mc_delivers [OF assms] by blast

text \<open>
  C11: A structure written as a structure block and read back has the same size; both layers
  of its chunks hold at every position what the registry makes of the palette entry that was
  written for the original block, where air of the second layer is \<open>-1\<close> in the file and stays
  air. A block whose state the registry finds again under its name and properties comes back.
\<close>

theorem mcstructure_write_read:
  assumes w: "write_mcstructure sz fetch fetch_nbt reg budget max_in_flight = Inr b"
    and range: "size_in_range sz"
    and get: "fetch (writer_positions sz) = Inr chunks" "fetch_nbt (writer_positions sz) = Inr nbt"
    and deep: "\<forall>ent \<in> set (nbt_entities nbt). mc_depth_ok (entity_payload (snd ent))"
    and unknown: "find_unknown reg = (unknown, reg')"
  shows "\<exists>s. mcstructure_read b reg = (Inr s, reg') \<and> mc_size s = sz \<and>
    (\<forall>second x y z. world_pos_ok x y z \<and> ChunkPos (x div 16) (z div 16) \<in> set ps \<longrightarrow>
      layer_block_at second (mc_chunks (air_runtime_id reg') s ps) (air_runtime_id reg') x y z =
        (if outside sz (BlockPos x y z) then air_runtime_id reg'
         else
           let rid = layer_block_at second chunks (air_runtime_id reg) x y z
           in if second \<and> rid = air_runtime_id reg then air_runtime_id reg'
              else if mc_faithful reg reg' rid then rid
              else mc_reread reg reg' unknown rid))"
proof -
  note written = mc_writtenD [OF w get]
  obtain s where s: "mcstructure_read b reg = (Inr s, reg')" "mc_size s = sz"
    and block: "\<And>second p. \<not> outside sz p \<Longrightarrow> mc_block second s p =
      (let rid = layer_block_at second chunks (air_runtime_id reg) (pos_x p) (pos_y p) (pos_z p)
       in if second \<and> rid = air_runtime_id reg then None else Some (mc_reread reg reg' unknown rid))"
    using mc_file_read [OF written(5) range written(1-4) deep unknown] by auto
  show ?thesis
  proof (intro exI [of _ s] conjI allI impI s, elim conjE)
    fix second x y z
    assume "world_pos_ok x y z" "ChunkPos (x div 16) (z div 16) \<in> set ps"
    note d = mc_delivers(3) [OF s(1) this, of second]
    show "layer_block_at second (mc_chunks (air_runtime_id reg') s ps) (air_runtime_id reg') x y z =
        (if outside sz (BlockPos x y z) then air_runtime_id reg'
         else
           let rid = layer_block_at second chunks (air_runtime_id reg) x y z
           in if second \<and> rid = air_runtime_id reg then air_runtime_id reg'
              else if mc_faithful reg reg' rid then rid
              else mc_reread reg reg' unknown rid)"
      using block [of "BlockPos x y z" second] mc_known_block_reread
      unfolding d s(2) block_pos.sel by (auto simp: Let_def split: if_splits)
  qed
qed


section \<open>A structure of two blocks\<close>

definition sample_mc_registry :: registry where
  "sample_mc_registry = empty_registry
    \<lparr>by_name := [''minecraft:unknown'' \<mapsto> 1], by_key := [''minecraft:lamp|0|lit:0=1'' \<mapsto> 7],
     by_runtime_id := [7 \<mapsto> lamp_state]\<rparr>"

definition sample_mc_chunks :: chunk_map where
  "sample_mc_chunks =
    [(ChunkPos 0 0, put_layer True 0 True (- 4) 1 7 (put_layer False 0 True (- 4) 1 7 empty_chunk))]"

definition sample_mc_entity :: block_entity where
  "sample_mc_entity = \<lparr>entity_pos = BlockPos 1 (- 64) 0, entity_payload = [10, 0, 0, 0]\<rparr>"

definition sample_mc_nbt :: nbt_chunk_map where
  "sample_mc_nbt = [(ChunkPos 0 0, [sample_mc_entity])]"

definition moved_fields :: "(string \<times> nbt) list" where
  "moved_fields = [(''x'', NInt 1), (''y'', NInt 0), (''z'', NInt 0)]"

lemma sample_mc_keys:
  "key_for ''minecraft:lamp'' (states lamp_state) 0 = ''minecraft:lamp|0|lit:0=1''"
  "key_for ''minecraft:unknown'' [] 0 = ''minecraft:unknown|0''"
  "normalize_name ''minecraft:unknown'' = ''minecraft:unknown''"
  by code_simp+

lemma sample_mc_registry_facts:
  "find_unknown sample_mc_registry = (1, sample_mc_registry)" "air_runtime_id sample_mc_registry = 0"
  "mc_palette_state sample_mc_registry 0 = air_state" "mc_palette_state sample_mc_registry 7 = lamp_state"
  by (simp_all add: find_unknown_def find_runtime_def sample_mc_keys mc_palette_state_def registry_state_def air_state_def
      sample_mc_registry_def empty_registry_def)

lemma sample_mc_entries:
  "mc_palette_entry lamp_state = Inr [(''name'', NString ''minecraft:lamp''), (''states'', NCompound [(''lit'', NByte 1)]),
    (''version'', NInt 0)]"
  "mc_palette_entry air_state = Inr [(''name'', NString ''minecraft:air''), (''states'', NCompound []), (''version'', NInt 0)]"
  by code_simp+

lemma sample_mc_faithful: "mc_faithful sample_mc_registry sample_mc_registry 7"
proof -
  have "canonical_value \<lparr>prop_name = ''lit'', prop_type = VByte, prop_value = ''1''\<rparr>" by code_simp
  moreover have "find_runtime sample_mc_registry ''minecraft:lamp'' (states lamp_state) 0 = Some 7"
    by (simp add: find_runtime_def sample_mc_keys(1)) (simp add: sample_mc_registry_def)
  ultimately show ?thesis
    by (simp add: mc_faithful_def sample_mc_registry_facts sample_mc_entries Let_def) (simp add: lamp_state_def)
qed

lemma sample_mc_blocks:
  "layer_block_at False sample_mc_chunks 0 0 0 0 = 0" "layer_block_at False sample_mc_chunks 0 1 0 0 = 7"
  "layer_block_at True sample_mc_chunks 0 0 0 0 = 0" "layer_block_at True sample_mc_chunks 0 1 0 0 = 7"
  "mc_grid_positions lamp_size = [BlockPos 0 0 0, BlockPos 1 0 0]" "mc_chunk_bytes lamp_size = 65536"
  "s32 0 = 0" "s32 1 = 1" "outside lamp_size (BlockPos 1 0 0) = False"
  by code_simp+

lemma sample_mc_palette: "snd (mc_palette_index sample_mc_registry 0 ([], [])) = ([(0, 0)], [air_state])"
  by (simp add: mc_palette_index_def umap_emplace_def sample_mc_registry_facts sample_mc_blocks Let_def)

lemma sample_mc_indices:
  "mc_layer_indices sample_mc_registry sample_mc_chunks lamp_size False ([(0, 0)], [air_state]) =
    (([(0, 0), (7, 1)], [air_state, lamp_state]), [0, 1])"
  "mc_layer_indices sample_mc_registry sample_mc_chunks lamp_size True ([(0, 0), (7, 1)], [air_state, lamp_state]) =
    (([(0, 0), (7, 1)], [air_state, lamp_state]), [- 1, 1])"
  by (simp_all add: mc_layer_indices_def mc_index_step_def mc_palette_index_def umap_emplace_def
      sample_mc_registry_facts sample_mc_blocks Let_def)

lemma sample_mc_place: "mc_place (ChunkPos 0 0, sample_mc_entity) = BlockPos 1 0 0"
  by code_simp

lemma sample_bytes:
  "num_bytes Little (0 :: 16 word) = [0, 0]" "num_bytes Little (1 :: 16 word) = [1, 0]"
  "num_bytes Little (0 :: 32 word) = [0, 0, 0, 0]" "num_bytes Little (1 :: 32 word) = [1, 0, 0, 0]"
  "byte_of CHR ''x'' = 120" "byte_of CHR ''y'' = 121" "byte_of CHR ''z'' = 122"
  by code_simp+

lemma sample_mc_compound: "read_compound Little [10, 0, 0, 0] = Inr ('''', [], [])"
proof -
  have w: "write_tag Little '''' (NCompound []) = Inr [10, 0, 0, 0]"
    by (simp add: write_tag_def write_string_def sample_bytes)
  have "fits (MAX_DEPTH + 1) (NCompound [])" by (simp add: omap_ok_def)
  from read_compound_written [OF w this, of "[]"] show ?thesis by simp
qed

lemma sample_mc_moved: "mc_place_entity 1 0 0 [10, 0, 0, 0] = Inr moved_fields"
  by (simp add: mc_place_entity_def sample_mc_compound put_int_def assign_int_def assign_value_def omap_find_def
      int_tag_def moved_fields_def)

lemma sample_mc_placed: "mc_placed (ChunkPos 0 0, sample_mc_entity) = moved_fields"
  using sample_mc_moved by (simp add: mc_placed_def sample_mc_place) (simp add: sample_mc_entity_def)

lemma sample_mc_payload:
  "mc_moved_payload (ChunkPos 0 0, sample_mc_entity) =
    [10, 0, 0, 3, 1, 0, 120, 1, 0, 0, 0, 3, 1, 0, 121, 0, 0, 0, 0, 3, 1, 0, 122, 0, 0, 0, 0, 0]"
proof -
  have "serialize_compound moved_fields =
      Inr [10, 0, 0, 3, 1, 0, 120, 1, 0, 0, 0, 3, 1, 0, 121, 0, 0, 0, 0, 3, 1, 0, 122, 0, 0, 0, 0, 0]"
    by (simp add: serialize_compound_def moved_fields_def write_tag_def write_string_def sample_bytes)
  then show ?thesis by (simp add: mc_moved_payload_def sample_mc_placed)
qed

lemma sample_mc_small: "mc_small lamp_size"
  by (simp add: mc_small_def lamp_size_def size_in_range_def range_simps)

lemma sample_mc_position_data: "\<exists>pd. mc_position_data lamp_size sample_mc_nbt = Inr pd \<and>
    (\<exists>pay. write_payload Little (NCompound pd) = Inr pay)"
proof -
  have k: "mc_kept lamp_size (ChunkPos 0 0, sample_mc_entity)"
    by (simp add: mc_kept_def sample_mc_place sample_mc_blocks) (simp add: sample_mc_entity_def)
  have e: "mc_entity_item lamp_size (ChunkPos 0 0, sample_mc_entity) =
      (''1'', NCompound [(''block_entity_data'', NCompound moved_fields)])"
  proof -
    have "mc_grid_index lamp_size (BlockPos 1 0 0) = 1" "to_string 1 = ''1''" by code_simp+
    then show ?thesis by (simp add: mc_entity_item_def sample_mc_place sample_mc_placed)
  qed
  have "mc_position_data lamp_size sample_mc_nbt =
      Inr [(''1'', NCompound [(''block_entity_data'', NCompound moved_fields)])]"
    unfolding mc_position_data_def sample_mc_nbt_def
    by (simp add: mc_put_entity_eq [OF sample_mc_small] k e sample_mc_place) (simp add: sample_mc_entity_def sample_mc_moved)
  then show ?thesis
    by (simp add: moved_fields_def write_string_def)
qed

lemma sample_mc_header: "\<exists>b. mc_header lamp_size = Inr b"
  by (simp add: mc_header_def write_open_def write_tag_def write_string_def write_length_def int_tag_def range_simps)

lemma compound_written:
  assumes "\<And>k t. (k, t) \<in> set kvs \<Longrightarrow> length k \<le> 65535 \<and> (\<exists>p. write_payload e t = Inr p)"
  shows "\<exists>b. write_payload e (NCompound kvs) = Inr b"
proof -
  have "\<exists>b. write_fields e kvs = Inr b"
    unfolding write_fields_def
  proof (rule append_each_ok)
    fix kv assume "kv \<in> set kvs"
    then show "\<exists>b. and_then (write_string e (fst kv)) (\<lambda>k. and_then (write_payload e (snd kv))
        (\<lambda>b. Inr (type_code (nbt_type (snd kv)) # k @ b))) = Inr b"
      using assms [of "fst kv" "snd kv"] by (auto simp: write_string_def)
  qed
  then show ?thesis unfolding write_compound by auto
qed

lemma sample_mc_file: "\<exists>b. mc_file sample_mc_registry lamp_size sample_mc_chunks sample_mc_nbt = Inr b"
proof -
  obtain head where head: "mc_header lamp_size = Inr head" using sample_mc_header by blast
  obtain pd pay where pd: "mc_position_data lamp_size sample_mc_nbt = Inr pd" "write_payload Little (NCompound pd) = Inr pay"
    using sample_mc_position_data by blast
  let ?bp = "[NCompound [(''name'', NString ''minecraft:air''), (''states'', NCompound []), (''version'', NInt 0)],
    NCompound [(''name'', NString ''minecraft:lamp''), (''states'', NCompound [(''lit'', NByte 1)]), (''version'', NInt 0)]]"
  have bp: "mc_block_palette [air_state, lamp_state] = Inr ?bp" by (simp add: sample_mc_entries)
  have ents: "\<exists>b. write_tag Little ''entities'' (NList TCompound []) = Inr b"
    by (simp add: write_tag_def write_string_def write_length_def range_simps)
  have "\<exists>b. write_payload Little (NList TCompound ?bp) = Inr b"
    by (simp add: write_string_def write_length_def range_simps)
  with pd(2) have "\<exists>b. write_payload Little (NCompound [(''block_palette'', NList TCompound ?bp),
      (''block_position_data'', NCompound pd)]) = Inr b"
    by (intro compound_written) (auto simp del: write_payload.simps)
  then have "\<exists>b. write_payload Little (NCompound (mc_palettes ?bp pd)) = Inr b"
    unfolding mc_palettes_eq by (intro compound_written) (auto simp del: write_payload.simps)
  then have "\<exists>b. write_tag Little ''palette'' (NCompound (mc_palettes ?bp pd)) = Inr b"
    by (auto simp: write_tag_def write_string_def simp del: write_payload.simps)
  with ents head bp pd(1) show ?thesis
    by (auto simp: mc_file_def sample_mc_registry_facts sample_mc_palette sample_mc_indices simp del: mc_block_palette.simps)
qed

lemma sample_mc_written:
  "\<exists>b. write_mcstructure lamp_size (\<lambda>ps. Inr sample_mc_chunks :: (unit, chunk_map) result) (\<lambda>ps. Inr sample_mc_nbt)
    sample_mc_registry 65536 0 = Inr b"
  using sample_mc_file
  by (auto simp: write_mcstructure_def lamp_budget sample_mc_blocks u64_def range_simps)

lemma sample_mc_nbt_facts:
  "nbt_entities sample_mc_nbt = [(ChunkPos 0 0, sample_mc_entity)]"
  "\<forall>ent \<in> set (nbt_entities sample_mc_nbt). mc_depth_ok (entity_payload (snd ent))"
  "entities_local sample_mc_nbt" "mc_kept lamp_size (ChunkPos 0 0, sample_mc_entity)"
proof -
  show n: "nbt_entities sample_mc_nbt = [(ChunkPos 0 0, sample_mc_entity)]"
    by (simp add: nbt_entities_def sample_mc_nbt_def)
  have "fits MAX_DEPTH (NCompound [])" by (simp add: MAX_DEPTH_def eval_nat_numeral omap_ok_def)
  then show "\<forall>ent \<in> set (nbt_entities sample_mc_nbt). mc_depth_ok (entity_payload (snd ent))"
    by (simp add: n mc_depth_ok_def sample_mc_entity_def sample_mc_compound)
  show "entities_local sample_mc_nbt"
    by (simp add: entities_local_def n sample_mc_entity_def range_simps)
  show "mc_kept lamp_size (ChunkPos 0 0, sample_mc_entity)"
    by (simp add: mc_kept_def sample_mc_place sample_mc_blocks) (simp add: sample_mc_entity_def)
qed

theorem mcstructure_write_read_witness:
  "\<exists>b s. write_mcstructure lamp_size (\<lambda>ps. Inr sample_mc_chunks :: (unit, chunk_map) result) (\<lambda>ps. Inr sample_mc_nbt)
      sample_mc_registry 65536 0 = Inr b \<and>
    mcstructure_read b sample_mc_registry = (Inr s, sample_mc_registry) \<and> mc_size s = lamp_size \<and>
    layer_block_at False (mc_chunks 0 s [ChunkPos 0 0]) 0 1 0 0 = 7 \<and>
    layer_block_at True (mc_chunks 0 s [ChunkPos 0 0]) 0 1 0 0 = 7 \<and>
    layer_block_at True (mc_chunks 0 s [ChunkPos 0 0]) 0 0 0 0 = 0"
proof -
  note f = sample_mc_registry_facts(1,2)
  obtain b where b: "write_mcstructure lamp_size (\<lambda>ps. Inr sample_mc_chunks :: (unit, chunk_map) result)
      (\<lambda>ps. Inr sample_mc_nbt) sample_mc_registry 65536 0 = Inr b" using sample_mc_written by blast
  obtain s where s: "mcstructure_read b sample_mc_registry = (Inr s, sample_mc_registry)" "mc_size s = lamp_size"
    and all: "\<forall>second x y z. world_pos_ok x y z \<and> ChunkPos (x div 16) (z div 16) \<in> set [ChunkPos 0 0] \<longrightarrow>
      layer_block_at second (mc_chunks 0 s [ChunkPos 0 0]) 0 x y z =
        (if outside lamp_size (BlockPos x y z) then 0
         else
           let rid = layer_block_at second sample_mc_chunks 0 x y z
           in if second \<and> rid = 0 then 0
              else if mc_faithful sample_mc_registry sample_mc_registry rid then rid
              else mc_reread sample_mc_registry sample_mc_registry 1 rid)"
    using mcstructure_write_read [OF b lamp_facts(3) HOL.refl HOL.refl sample_mc_nbt_facts(2) f(1), of "[ChunkPos 0 0]"]
    unfolding f(2) by (elim conjE exE)
  have w: "world_pos_ok 0 0 0" "world_pos_ok 1 0 0" by (simp_all add: world_pos_ok_def range_simps)
  note at = all [rule_format, of 1 0 0] all [rule_format, of 0 0 0]
  show ?thesis
    using at(1) [of False] at(1) [of True] at(2) [of True] b s w
    by (intro exI [of _ b] exI [of _ s]) (simp add: sample_mc_blocks sample_mc_faithful Let_def)
qed

theorem mcstructure_read_chunks_witness:
  "\<exists>b s. mcstructure_read b sample_mc_registry = (Inr s, sample_mc_registry) \<and>
    fst ` set (mc_chunks 0 s [ChunkPos 0 0, ChunkPos 3 4]) = {ChunkPos 0 0, ChunkPos 3 4} \<and>
    layer_block_at True (mc_chunks 0 s [ChunkPos 0 0, ChunkPos 3 4]) 0 1 0 0 = 7 \<and>
    layer_block_at True (mc_chunks 0 s [ChunkPos 0 0, ChunkPos 3 4]) 0 2 0 0 = 0"
proof -
  note f = sample_mc_registry_facts(1,2)
  obtain b where "write_mcstructure lamp_size (\<lambda>ps. Inr sample_mc_chunks :: (unit, chunk_map) result)
      (\<lambda>ps. Inr sample_mc_nbt) sample_mc_registry 65536 0 = Inr b" using sample_mc_written by blast
  note w = mc_writtenD [OF this HOL.refl HOL.refl]
  obtain s where s: "mcstructure_read b sample_mc_registry = (Inr s, sample_mc_registry)" "mc_size s = lamp_size"
    and block: "\<forall>second p. \<not> outside lamp_size p \<longrightarrow> mc_block second s p =
      (let rid = layer_block_at second sample_mc_chunks 0 (pos_x p) (pos_y p) (pos_z p)
       in if second \<and> rid = 0 then None else Some (mc_reread sample_mc_registry sample_mc_registry 1 rid))"
    using mc_file_read [OF w(5) lamp_facts(3) w(1-4) sample_mc_nbt_facts(2) f(1)] unfolding f(2) by blast
  have "mc_block True s (BlockPos 1 0 0) = Some 7"
    using block mc_known_block_reread [OF sample_mc_faithful] by (simp add: sample_mc_blocks Let_def)
  moreover have "world_pos_ok 1 0 0" "world_pos_ok 2 0 0" by (simp_all add: world_pos_ok_def range_simps)
  moreover have "outside lamp_size (BlockPos 2 0 0)" by (simp add: outside_def lamp_size_def)
  ultimately show ?thesis
    using mcstructure_read_chunks [OF s(1), of "[ChunkPos 0 0, ChunkPos 3 4]"] s
    by (intro exI [of _ b] exI [of _ s]) (simp add: f(2) sample_mc_blocks)
qed


end
