(* ===== verification/Spec2Isabelle.thy ===== *)
theory Spec2Isabelle
  imports WS_Types WS_ChunkIndex WS_Sparse WS_Stream WS_Queue WS_ThreadPool WS_Canonical
    WS_JavaState WS_Upgrade WS_Registry WS_BdxBounds WS_BdxInside WS_BdxCopy WS_BdxAccess WS_BdxSpoolLife
    WS_Schematic WS_LitematicCopy WS_McRoundTrip
begin

text \<open>
  A verification library for WaterStructureCpp, a C++ library that reads Minecraft structure
  files of many formats, keeps them behind one interface and writes them to other formats or
  to worlds. The theories follow the source files; a definition has the name of the function
  it models, with a suffix or a longer name where the name is taken.

  \<^bold>\<open>The program.\<close> A format class (\<open>src/formats\<close>) reads a file into a store and answers
  \<open>get_chunks\<close> and \<open>get_chunk_nbt\<close> (\<open>structure.hpp\<close>); several use the sparse block store
  (\<open>src/core/decoded_structure.cpp\<close>). Block states are named by the 32-bit runtime ids of the
  registry (\<open>src/core/runtime_registry.cpp\<close>). \<open>ChunkStream\<close> (\<open>src/core/chunk_stream.cpp\<close>)
  moves the chunks of a structure to a consumer through a bounded queue. The canonical
  encodings (\<open>src/core/canonical.cpp\<close>) compare structures.

  \<^bold>\<open>Theories.\<close>
  \<^item> \<open>WS_Prelude\<close>: machine integers as wrapped ints, \<open>Result<T>\<close> (\<open>result.hpp\<close>), the ordered
    and unordered maps with the locale \<open>finite_map\<close> both interpret.
  \<^item> \<open>WS_Types\<close>: \<open>types.hpp\<close> and \<open>coordinates.hpp\<close>; positions, sizes, block states, chunks,
    the floor divisions, the hashes, the locale \<open>cell_store\<close> of a chunk's cells.
  \<^item> \<open>WS_ChunkIndex\<close>: \<open>chunk_index.hpp\<close>.
  \<^item> \<open>WS_Sparse\<close>: \<open>SparseBlockStore\<close>; the updates as \<open>sparse_op\<close>, the queries, the abstract
    content \<open>stored_block\<close> they refine.
  \<^item> \<open>WS_Nbt\<close>: the binary NBT format as the bundled libnbt reads and writes it, and the
    \<open>skip_payload\<close> of the readers. \<open>WS_Dense\<close>: the loop of \<open>get_chunks_impl\<close> over a dense
    array of blocks, with the locale \<open>dense_source\<close>, and what its writers share.
    \<open>WS_Schematic\<close>: \<open>schematic.cpp\<close> and \<open>schematic_writer.cpp\<close>, up to the round trip.
  \<^item> \<open>WS_Litematic\<close>: the streaming reader and the requests of \<open>litematic.cpp\<close>. \<open>WS_NbtTree\<close>,
    \<open>WS_LitematicTree\<close>: what a reader that skips through a stream keeps, compared with the tree
    the library would build; \<open>WS_LitematicChunks\<close>: what the requests deliver;
    \<open>WS_LitematicWriter\<close>: \<open>litematic_writer.cpp\<close>; \<open>WS_LitematicPacking\<close>, \<open>WS_LitematicCopy\<close>:
    the packed indices, the palette and the round trip.
  \<^item> \<open>WS_McStructure\<close>: the streaming reader, \<open>BlockIndexArray\<close> and the requests of
    \<open>mcstructure.cpp\<close>; \<open>WS_McChunks\<close>: what the requests deliver, in both layers;
    \<open>WS_McWriter\<close>: \<open>mcstructure_writer.cpp\<close>; \<open>WS_McParts\<close>, \<open>WS_McCopy\<close>, \<open>WS_McRoundTrip\<close>: the
    parts of the file read back, the whole file, and the properties.
  \<^item> \<open>WS_Stream\<close>: the visitors of \<open>IStructure\<close>, the batch producer and the two \<open>from_structure\<close>
    functions, over the locale \<open>chunk_source\<close> that the sparse store interprets.
  \<^item> \<open>WS_Queue\<close>: \<open>QueueSink\<close> and \<open>ChunkStream::pump\<close> as a step relation over the steps of the
    two threads; \<open>WS_ThreadPool\<close>: \<open>BoundedThreadPool\<close> in the same way.
  \<^item> \<open>WS_Bytes\<close>, \<open>WS_Canonical\<close>: integers as bytes, decimal texts, the canonical encodings.
  \<^item> \<open>WS_JavaState\<close>, \<open>WS_Upgrade\<close>, \<open>WS_Registry\<close>: the Java state texts, the block upgrade
    schemas, the tables and queries of the runtime registry.
  \<^item> \<open>WS_BdxInput\<close>, \<open>WS_BdxStates\<close>, \<open>WS_BdxCommands\<close>, \<open>WS_BdxReader\<close>: the reader of the BDX
    command format (\<open>src/formats/bdx.cpp\<close>): the decoder's buffers, the block state texts, the
    operands of the commands, the command loop with its caches, its two fast paths and the
    result.
  \<^item> \<open>WS_BdxFrame\<close>, \<open>WS_BdxRun\<close>, \<open>WS_BdxEquiv\<close>, \<open>WS_BdxRead\<close>: the loop always returns and the
    buffers and fast paths cannot be observed; \<open>WS_BdxBounds\<close>: the bounds-only read;
    \<open>WS_BdxInside\<close>: results are well formed.
  \<^item> \<open>WS_BdxSpool\<close>: random access to the chunks of a BDX file: the placement records, the builder
    of the sharded spool, \<open>get_chunks\<close> with a spool, without one and over blocks in memory,
    \<open>get_chunk_nbt\<close>. \<open>WS_BdxChunks\<close>, \<open>WS_BdxBuild\<close>: the record codec, the contents of the
    spool and its builder's invariant; \<open>WS_BdxAccess\<close>: what a request answers;
    \<open>WS_BdxSpoolLife\<close>: the waits and critical sections of concurrent requests and invalidations
    as a step relation.
  \<^item> \<open>WS_BdxWriter\<close>: \<open>src/formats/bdx_writer.cpp\<close>; \<open>WS_BdxMoves\<close>, \<open>WS_BdxRoundTrip\<close>,
    \<open>WS_BdxCopy\<close>: what the writer emits is executed by the reader as meant, up to the round
    trip of whole structures.

  \<^bold>\<open>Conventions.\<close> C++ integers are ints or nats with the wrap-around written out; runtime ids
  are nats; \<open>std::map\<close> is a sorted association list, \<open>unordered_map\<close> an association list or a
  map where the order is never used; a throw or a failed \<open>Result\<close> is a value of an error
  datatype. Loops that the code leaves only by its data are \<open>partial_function (option)\<close>, and
  that they return is a theorem (\<open>bdx_read_reference\<close>); the fuel of \<open>skip_compound_loop\<close> is
  one more than the bytes left, and each round reads a byte; so does that of \<open>read_fields\<close>, and
  the nesting of an NBT value is limited by the levels the reader allows or by the bytes left
  (\<open>nbt_loops_end\<close>). In the canonical encodings and the BDX reader libnbt's reader and writer,
  and everywhere the gzip container, the Brotli coder and the consumers a caller installs are parameters: the bytes and counts they
  return, the outcomes of the decoder calls, and the logs of the calls the consumers receive.

  \<^bold>\<open>Not modelled.\<close> File access, JSON and asset loading, profiling output, the texts of error
  messages, the C interface, the command line and the world library. Of the BDX reader the
  conversion to a world; the other formats. The threads are modelled with interleaved steps because every access to
  shared state holds the mutex.
\<close>

end
